(* ===== verification/Prelude.thy ===== *)
theory Prelude imports Main begin

text \<open>
  Shared vocabulary of the development: the exceptions of \<open>polymarket/errors.py\<close> and of the Python
  runtime as one datatype, results as sums with the exception on the left, the sequencing of
  fallible steps, and the generic lemmas on lists and results that the component theories use.

  An exception is modelled by its class and by the fields that the SDK itself inspects; the
  text of a message is kept only where the code reads it back.
\<close>

section \<open>Exceptions and results\<close>

datatype py_error =
    UserInputError
  | UnexpectedResponseError
  | PaginationLimitError
  | TransportError
  | ConnectionLostError int
  | RequestRejectedError int string "string option" "string option"
  | OrderHeartbeatMismatchError string
  | JsonRpcCallError string int string string
  | RateLimitError "int option"
  | TimeoutError
  | TransactionFailedError
  | CancelledSigningError
  | InsufficientLiquidityError
  | SigningError
  | InsufficientAllowanceError
  | InvalidOperation
  | DivisionByZero
  | DecimalOverflow
  | ValueError
  | OverflowError
  | TypeError
  | RuntimeError
  | IndexError
  | KeyError
  | AssertionError
  | CancelledError
  | AutoCancelDailyLimitError int

text \<open>
  \<^item> \<open>RequestRejectedError status message code raw\<close>: HTTP status, text of the exception, error code
    and further body text the SDK looks at.
  \<^item> \<open>JsonRpcCallError method code message data\<close>: the error object of a JSON-RPC response, its data
    rendered as the text the SDK searches; like \<open>OrderHeartbeatMismatchError\<close> and
    \<open>AutoCancelDailyLimitError status\<close> it is a RequestRejectedError.
  \<^item> \<open>RateLimitError retry_after\<close>: the delay in seconds the server asked for, if any.
  \<^item> \<open>InvalidOperation\<close>, \<open>DivisionByZero\<close>, \<open>DecimalOverflow\<close>: the trapped signals of the
    \<open>decimal\<close> module.
\<close>

text \<open>The status and the text of an exception that is a RequestRejectedError or of a class derived from it.\<close>

fun rejection :: "py_error \<Rightarrow> (int \<times> string) option" where
  "rejection (RequestRejectedError status message code raw) = Some (status, message)"
| "rejection (OrderHeartbeatMismatchError heartbeat_id) = Some (400, ''Invalid Heartbeat ID'')"
| "rejection (JsonRpcCallError method code message data) =
     Some (200, ''JSON-RPC '' @ method @ '' failed: '' @ message)"
| "rejection (AutoCancelDailyLimitError status) = Some (status, ''Auto-cancel daily trigger limit reached.'')"
| "rejection _ = None"

type_synonym 'a res = "py_error + 'a"

abbreviation Ok :: "'a \<Rightarrow> 'a res" where "Ok \<equiv> Inr"

abbreviation Raise :: "py_error \<Rightarrow> 'a res" where "Raise \<equiv> Inl"

definition bindE :: "'e + 'a \<Rightarrow> ('a \<Rightarrow> 'e + 'b) \<Rightarrow> 'e + 'b" where
  "bindE m f = (case m of Inl e \<Rightarrow> Inl e | Inr x \<Rightarrow> f x)"

definition is_ok :: "'e + 'a \<Rightarrow> bool" where
  "is_ok m = (case m of Inl _ \<Rightarrow> False | Inr _ \<Rightarrow> True)"

definition map_ok :: "('a \<Rightarrow> 'b) \<Rightarrow> 'e + 'a \<Rightarrow> 'e + 'b" where
  "map_ok f m = bindE m (\<lambda>x. Inr (f x))"

text \<open>A Python list comprehension whose element expression may raise: the first failure wins.\<close>

fun traverseE :: "('a \<Rightarrow> 'e + 'b) \<Rightarrow> 'a list \<Rightarrow> 'e + 'b list" where
  "traverseE f [] = Inr []"
| "traverseE f (x # xs) = bindE (f x) (\<lambda>y. bindE (traverseE f xs) (\<lambda>ys. Inr (y # ys)))"

named_theorems res_simps \<open>equations that evaluate sequenced results\<close>

lemma bindE_Inl [simp, res_simps]: "bindE (Inl e) f = Inl e"
  by (simp add: bindE_def)

lemma bindE_Inr [simp, res_simps]: "bindE (Inr x) f = f x"
  by (simp add: bindE_def)

lemma bindE_eq_Inr [simp]: "bindE m f = Inr y \<longleftrightarrow> (\<exists>x. m = Inr x \<and> f x = Inr y)"
  by (cases m) simp_all

lemma bindE_eq_Inl: "bindE m f = Inl e \<longleftrightarrow> m = Inl e \<or> (\<exists>x. m = Inr x \<and> f x = Inl e)"
  by (cases m) simp_all

lemma bindE_assoc: "bindE (bindE m f) g = bindE m (\<lambda>x. bindE (f x) g)"
  by (cases m) simp_all

lemma bindE_cong [fundef_cong]:
  "m = m' \<Longrightarrow> (\<And>x. m' = Inr x \<Longrightarrow> f x = g x) \<Longrightarrow> bindE m f = bindE m' g"
  by (cases m') (simp_all add: bindE_def)

lemma is_ok_simps [simp]: "is_ok (Inr x)" "\<not> is_ok (Inl e)"
  by (simp_all add: is_ok_def)

lemma is_ok_iff: "is_ok m \<longleftrightarrow> (\<exists>x. m = Inr x)"
  by (cases m) simp_all

lemma map_ok_simps [simp]:
  "map_ok f (Inr x) = Inr (f x)" "map_ok f (Inl e) = Inl e"
  by (simp_all add: map_ok_def)

lemma map_ok_eq_Inr [simp]: "map_ok f m = Inr y \<longleftrightarrow> (\<exists>x. m = Inr x \<and> y = f x)"
  by (cases m) auto

lemma traverseE_length: "traverseE f xs = Inr ys \<Longrightarrow> length ys = length xs"
  by (induction xs arbitrary: ys) auto

lemma traverseE_all2:
  "traverseE f xs = Inr ys \<longleftrightarrow> list_all2 (\<lambda>x y. f x = Inr y) xs ys"
  by (induction xs arbitrary: ys) (auto simp: list_all2_Cons1)

lemma traverseE_cong [fundef_cong]:
  "xs = ys \<Longrightarrow> (\<And>x. x \<in> set ys \<Longrightarrow> f x = g x) \<Longrightarrow> traverseE f xs = traverseE g ys"
  by (induction ys arbitrary: xs) auto

lemma traverseE_total: "(\<And>x. x \<in> set xs \<Longrightarrow> f x = Inr (g x)) \<Longrightarrow> traverseE f xs = Inr (map g xs)"
  by (induction xs) simp_all

section \<open>Python dictionaries and other containers\<close>

text \<open>
  A \<open>dict\<close> is an association list with distinct keys in insertion order: lookup is \<open>map_of\<close>,
  \<open>d[k] = v\<close> replaces the value in place or appends, \<open>d.pop(k, None)\<close> drops the key, and
  \<open>dict.fromkeys(xs)\<close> keeps the first occurrence of each element.
\<close>

type_synonym ('k, 'v) dict = "('k \<times> 'v) list"

fun dict_set :: "'k \<Rightarrow> 'v \<Rightarrow> ('k, 'v) dict \<Rightarrow> ('k, 'v) dict" where
  "dict_set k v [] = [(k, v)]"
| "dict_set k v ((k', v') # d) = (if k' = k then (k, v) # d else (k', v') # dict_set k v d)"

definition dict_pop :: "'k \<Rightarrow> ('k, 'v) dict \<Rightarrow> ('k, 'v) dict" where
  "dict_pop k d = filter (\<lambda>p. fst p \<noteq> k) d"

definition dict_ok :: "('k, 'v) dict \<Rightarrow> bool" where
  "dict_ok d = distinct (map fst d)"

fun fromkeys :: "'a list \<Rightarrow> 'a list" where
  "fromkeys [] = []"
| "fromkeys (x # xs) = x # fromkeys (filter (\<lambda>y. y \<noteq> x) xs)"

lemma map_of_dict_set [simp]: "map_of (dict_set k v d) = (map_of d)(k \<mapsto> v)"
  by (induction d) (auto simp: fun_eq_iff)

lemma map_of_dict_pop [simp]: "map_of (dict_pop k d) = (map_of d)(k := None)"
  unfolding dict_pop_def by (induction d) (auto simp: fun_eq_iff)

lemma keys_dict_set: "set (map fst (dict_set k v d)) = insert k (set (map fst d))"
  by (induction k v d rule: dict_set.induct) auto

lemma dict_ok_set [simp, intro]: "dict_ok d \<Longrightarrow> dict_ok (dict_set k v d)"
  unfolding dict_ok_def
  by (induction d) (auto simp: keys_dict_set simp flip: set_map)

lemma dict_ok_pop [simp, intro]: "dict_ok d \<Longrightarrow> dict_ok (dict_pop k d)"
  unfolding dict_ok_def dict_pop_def by (induction d) auto

lemma dict_ok_Nil [simp]: "dict_ok []"
  by (simp add: dict_ok_def)

lemma length_dict_set: "length (dict_set k v d) = (if k \<in> set (map fst d) then length d else Suc (length d))"
  by (induction k v d rule: dict_set.induct) auto

lemma set_fromkeys [simp]: "set (fromkeys xs) = set xs"
  by (induction xs rule: fromkeys.induct) auto

lemma distinct_fromkeys [simp]: "distinct (fromkeys xs)"
  by (induction xs rule: fromkeys.induct) auto

lemma fromkeys_distinct: "distinct xs \<Longrightarrow> fromkeys xs = xs"
proof (induction xs)
  case (Cons x xs)
  then have "filter (\<lambda>y. y \<noteq> x) xs = xs" by (auto simp: filter_id_conv)
  with Cons show ?case by simp
qed simp


section \<open>Calls that reach the outside world\<close>

text \<open>
  A routine that sends requests, reads the clock or changes shared state takes the state of the
  world it acts on, of a type \<open>'w\<close> left open, and returns a result and the new state; the state
  survives an exception. \<open>tryS m h\<close> is \<open>try: m except ...: h\<close>, where \<open>h\<close> re-raises what it does not
  catch.
\<close>

type_synonym ('w, 'a) eff = "'w \<Rightarrow> 'a res \<times> 'w"

definition pureS :: "'a \<Rightarrow> ('w, 'a) eff" where
  "pureS x = (\<lambda>w. (Ok x, w))"

definition liftS :: "'a res \<Rightarrow> ('w, 'a) eff" where
  "liftS r = (\<lambda>w. (r, w))"

definition bindS :: "('w, 'a) eff \<Rightarrow> ('a \<Rightarrow> ('w, 'b) eff) \<Rightarrow> ('w, 'b) eff" where
  "bindS m f = (\<lambda>w. case m w of (Inl e, w') \<Rightarrow> (Inl e, w') | (Inr x, w') \<Rightarrow> f x w')"

definition tryS :: "('w, 'a) eff \<Rightarrow> (py_error \<Rightarrow> ('w, 'a) eff) \<Rightarrow> ('w, 'a) eff" where
  "tryS m h = (\<lambda>w. case m w of (Inl e, w') \<Rightarrow> h e w' | (Inr x, w') \<Rightarrow> (Inr x, w'))"

text \<open>A routine that leaves alone a log kept beside the world.\<close>

definition beside :: "('w, 'a) eff \<Rightarrow> ('w \<times> 'l, 'a) eff" where
  "beside m = (\<lambda>(w, log). case m w of (r, w') \<Rightarrow> (r, (w', log)))"

abbreviation failS :: "py_error \<Rightarrow> ('w, 'a) eff" where
  "failS e \<equiv> liftS (Raise e)"

named_theorems eff_simps \<open>equations that evaluate effectful routines\<close>

lemma pureS_app [simp, eff_simps]: "pureS x w = (Ok x, w)"
  by (simp add: pureS_def)

lemma liftS_app [simp, eff_simps]: "liftS r w = (r, w)"
  by (simp add: liftS_def)

lemma bindS_app [eff_simps]:
  "bindS m f w = (case m w of (Inl e, w') \<Rightarrow> (Inl e, w') | (Inr x, w') \<Rightarrow> f x w')"
  by (simp add: bindS_def)

lemma tryS_app [eff_simps]:
  "tryS m h w = (case m w of (Inl e, w') \<Rightarrow> h e w' | (Inr x, w') \<Rightarrow> (Inr x, w'))"
  by (simp add: tryS_def)

lemma bindS_pure [simp]: "bindS (pureS x) f = f x"
  by (simp add: bindS_def fun_eq_iff)

lemma bindS_lift_Ok [simp]: "bindS (liftS (Inr x)) f = f x"
  by (simp add: bindS_def fun_eq_iff)

lemma bindS_lift_Raise [simp]: "bindS (liftS (Inl e)) f = liftS (Inl e)"
  by (simp add: bindS_def fun_eq_iff)

lemma bindS_eq_Ok:
  "bindS m f w = (Inr y, w'') \<longleftrightarrow> (\<exists>x w'. m w = (Inr x, w') \<and> f x w' = (Inr y, w''))"
  by (auto simp: bindS_def split: prod.splits sum.splits)

lemma tryS_cong [fundef_cong]:
  assumes "m = m'" "w = v" "\<And>e v'. m' v = (Inl e, v') \<Longrightarrow> h e v' = k e v'"
  shows "tryS m h w = tryS m' k v"
  using assms by (auto simp: tryS_def split: prod.splits sum.splits)

lemma bindS_cong [fundef_cong]:
  assumes "m = m'" "w = v" "\<And>x v'. m' v = (Inr x, v') \<Longrightarrow> f x v' = g x v'"
  shows "bindS m f w = bindS m' g v"
  using assms by (auto simp: bindS_def split: prod.splits sum.splits)

end
