(* ===== verification/Single_Flight.thy ===== *)
theory Single_Flight imports Prelude Complex_Main begin

text \<open>
  The single-flight caches of \<open>actions/orders/cache.py\<close>: \<open>_SyncSingleFlightCache\<close>, whose clients are
  threads, and \<open>_AsyncSingleFlightCache\<close>, whose clients share a task. Each critical section of the
  code is one function on the state of the cache; the interleavings of the clients are the steps of
  an inductive relation. Futures and tasks are numbered in the order of their creation. Times are
  rational seconds.
\<close>

section \<open>The cache\<close>

record 'v cached_value =
  cv_value :: 'v
  cv_expires_at :: "rat option"

record ('k, 'v) cache =
  cache_values :: "('k, 'v cached_value) dict"
  cache_inflight :: "('k, nat) dict"
  cache_next :: nat

definition empty_cache :: "('k, 'v) cache" where
  "empty_cache = \<lparr>cache_values = [], cache_inflight = [], cache_next = 0\<rparr>"

definition fresh :: "rat \<Rightarrow> 'v cached_value \<Rightarrow> bool" where
  "fresh now cached = (case cv_expires_at cached of None \<Rightarrow> True | Some t \<Rightarrow> now < t)"

datatype 'v lookup = Hit 'v | Own nat | Join nat

text \<open>The first critical section of \<open>get\<close>: a fresh value, a new flight, or the flight to join.\<close>

definition begin_get :: "rat \<Rightarrow> bool \<Rightarrow> 'k \<Rightarrow> ('k, 'v) cache \<Rightarrow> 'v lookup \<times> ('k, 'v) cache" where
  "begin_get now force key c =
     (case map_of (cache_values c) key of
        Some cached \<Rightarrow>
          if \<not> force \<and> fresh now cached then (Hit (cv_value cached), c)
          else (case map_of (cache_inflight c) key of
              None \<Rightarrow> (Own (cache_next c),
                 c\<lparr>cache_inflight := dict_set key (cache_next c) (cache_inflight c),
                   cache_next := Suc (cache_next c)\<rparr>)
            | Some f \<Rightarrow> (Join f, c))
      | None \<Rightarrow>
          (case map_of (cache_inflight c) key of
              None \<Rightarrow> (Own (cache_next c),
                 c\<lparr>cache_inflight := dict_set key (cache_next c) (cache_inflight c),
                   cache_next := Suc (cache_next c)\<rparr>)
            | Some f \<Rightarrow> (Join f, c)))"

text \<open>\<open>if self._inflight.get(key) is future: self._inflight.pop(key, None)\<close>\<close>

definition end_flight :: "'k \<Rightarrow> nat \<Rightarrow> ('k, 'v) cache \<Rightarrow> ('k, 'v) cache" where
  "end_flight key f c =
     (if map_of (cache_inflight c) key = Some f
      then c\<lparr>cache_inflight := dict_pop key (cache_inflight c)\<rparr> else c)"

definition cache_set :: "rat option \<Rightarrow> rat \<Rightarrow> 'k \<Rightarrow> 'v \<Rightarrow> ('k, 'v) cache \<Rightarrow> ('k, 'v) cache" where
  "cache_set ttl now key value c =
     c\<lparr>cache_values := dict_set key
         \<lparr>cv_value = value, cv_expires_at = map_option (\<lambda>s. now + s) ttl\<rparr> (cache_values c)\<rparr>"

definition cache_discard :: "'k \<Rightarrow> ('k, 'v) cache \<Rightarrow> ('k, 'v) cache" where
  "cache_discard key c = c\<lparr>cache_values := dict_pop key (cache_values c)\<rparr>"

text \<open>The end of a flight: a loaded value is stored, an exception is not.\<close>

definition finish_get ::
  "rat option \<Rightarrow> rat \<Rightarrow> 'k \<Rightarrow> nat \<Rightarrow> 'v res \<Rightarrow> ('k, 'v) cache \<Rightarrow> ('k, 'v) cache" where
  "finish_get ttl now key f outcome c =
     (case outcome of
        Inr value \<Rightarrow> end_flight key f (cache_set ttl now key value c)
      | Inl _ \<Rightarrow> end_flight key f c)"

text \<open>\<open>close\<close> of the asynchronous cache returns the tasks it cancels.\<close>

definition cache_close :: "('k, 'v) cache \<Rightarrow> nat list \<times> ('k, 'v) cache" where
  "cache_close c = (map snd (cache_inflight c), c\<lparr>cache_inflight := []\<rparr>)"

lemma begin_get_cases:
  obtains (hit) cached where "map_of (cache_values c) k = Some cached" "\<not> force" "fresh now cached"
      "begin_get now force k c = (Hit (cv_value cached), c)"
  | (own) "map_of (cache_inflight c) k = None"
      "begin_get now force k c = (Own (cache_next c),
         c\<lparr>cache_inflight := dict_set k (cache_next c) (cache_inflight c), cache_next := Suc (cache_next c)\<rparr>)"
  | (join) f where "map_of (cache_inflight c) k = Some f" "begin_get now force k c = (Join f, c)"
proof (cases "\<exists>cached. map_of (cache_values c) k = Some cached \<and> \<not> force \<and> fresh now cached")
  case True
  then show ?thesis by (auto simp: begin_get_def intro: hit)
next
  case False
  then show ?thesis
    by (cases "map_of (cache_values c) k"; cases "map_of (cache_inflight c) k")
      (auto simp: begin_get_def intro: own join)
qed

lemma end_flight_simps [simp]:
  "cache_values (end_flight k f c) = cache_values c"
  "cache_next (end_flight k f c) = cache_next c"
  by (simp_all add: end_flight_def)

lemma cache_set_simps [simp]:
  "cache_inflight (cache_set ttl now k v c) = cache_inflight c"
  "cache_next (cache_set ttl now k v c) = cache_next c"
  "map_of (cache_values (cache_set ttl now k v c))
     = (map_of (cache_values c))(k \<mapsto> \<lparr>cv_value = v, cv_expires_at = map_option (\<lambda>s. now + s) ttl\<rparr>)"
  by (simp_all add: cache_set_def)

lemma cache_discard_simps [simp]:
  "cache_inflight (cache_discard k c) = cache_inflight c"
  "cache_next (cache_discard k c) = cache_next c"
  "map_of (cache_values (cache_discard k c)) = (map_of (cache_values c))(k := None)"
  by (simp_all add: cache_discard_def)

lemma inflight_end_flight:
  "map_of (cache_inflight (end_flight k f c))
     = (if map_of (cache_inflight c) k = Some f then (map_of (cache_inflight c))(k := None)
        else map_of (cache_inflight c))"
  by (simp add: end_flight_def)

lemma finish_get_simps [simp]:
  "cache_next (finish_get ttl now k f r c) = cache_next c"
  "map_of (cache_inflight (finish_get ttl now k f r c))
     = (if map_of (cache_inflight c) k = Some f then (map_of (cache_inflight c))(k := None)
        else map_of (cache_inflight c))"
  by (simp_all add: finish_get_def inflight_end_flight split: sum.split)

section \<open>Threads\<close>

text \<open>
  A thread that owns a flight first runs the loader, then stores and unregisters in one critical
  section, and only then completes the future on which the other threads wait.
\<close>

datatype ('k, 'v) thread =
    Idle
  | Loading 'k nat
  | Publishing nat "'v res"
  | Waiting nat
  | Returned "'v res"

record ('k, 'v) flight_state =
  fs_cache :: "('k, 'v) cache"
  fs_futures :: "nat \<Rightarrow> 'v res option"
  fs_threads :: "nat \<Rightarrow> ('k, 'v) thread"
  fs_now :: rat

definition thread_get :: "nat \<Rightarrow> 'k \<Rightarrow> bool \<Rightarrow> ('k, 'v) flight_state \<Rightarrow> ('k, 'v) flight_state" where
  "thread_get i key force s =
     (case begin_get (fs_now s) force key (fs_cache s) of
        (Hit v, c) \<Rightarrow> s\<lparr>fs_cache := c, fs_threads := (fs_threads s)(i := Returned (Ok v))\<rparr>
      | (Own f, c) \<Rightarrow> s\<lparr>fs_cache := c, fs_threads := (fs_threads s)(i := Loading key f)\<rparr>
      | (Join f, c) \<Rightarrow> s\<lparr>fs_cache := c, fs_threads := (fs_threads s)(i := Waiting f)\<rparr>)"

definition thread_loaded ::
  "rat option \<Rightarrow> nat \<Rightarrow> 'k \<Rightarrow> nat \<Rightarrow> 'v res \<Rightarrow> ('k, 'v) flight_state \<Rightarrow> ('k, 'v) flight_state" where
  "thread_loaded ttl i key f outcome s =
     s\<lparr>fs_cache := finish_get ttl (fs_now s) key f outcome (fs_cache s),
       fs_threads := (fs_threads s)(i := Publishing f outcome)\<rparr>"

definition thread_publish :: "nat \<Rightarrow> nat \<Rightarrow> 'v res \<Rightarrow> ('k, 'v) flight_state \<Rightarrow> ('k, 'v) flight_state" where
  "thread_publish i f outcome s =
     s\<lparr>fs_futures := (fs_futures s)(f \<mapsto> outcome),
       fs_threads := (fs_threads s)(i := Returned outcome)\<rparr>"

definition thread_wake :: "nat \<Rightarrow> 'v res \<Rightarrow> ('k, 'v) flight_state \<Rightarrow> ('k, 'v) flight_state" where
  "thread_wake i outcome s = s\<lparr>fs_threads := (fs_threads s)(i := Returned outcome)\<rparr>"

inductive flight_step :: "rat option \<Rightarrow> ('k, 'v) flight_state \<Rightarrow> ('k, 'v) flight_state \<Rightarrow> bool"
  for ttl where
  get: "fs_threads s i = Idle \<or> fs_threads s i = Returned r \<Longrightarrow> flight_step ttl s (thread_get i key force s)"
| loaded: "fs_threads s i = Loading key f \<Longrightarrow> flight_step ttl s (thread_loaded ttl i key f outcome s)"
| publish: "fs_threads s i = Publishing f outcome \<Longrightarrow> flight_step ttl s (thread_publish i f outcome s)"
| wake: "fs_threads s i = Waiting f \<Longrightarrow> fs_futures s f = Some outcome \<Longrightarrow>
    flight_step ttl s (thread_wake i outcome s)"
| set_value: "flight_step ttl s (s\<lparr>fs_cache := cache_set ttl (fs_now s) key value (fs_cache s)\<rparr>)"
| discard: "flight_step ttl s (s\<lparr>fs_cache := cache_discard key (fs_cache s)\<rparr>)"
| tick: "0 \<le> dt \<Longrightarrow> flight_step ttl s (s\<lparr>fs_now := fs_now s + dt\<rparr>)"

inductive_cases flight_step_elim: "flight_step ttl s s'"

definition initial_flights :: "('k, 'v) flight_state" where
  "initial_flights =
     \<lparr>fs_cache = empty_cache, fs_futures = (\<lambda>_. None), fs_threads = (\<lambda>_. Idle), fs_now = 0\<rparr>"

inductive reachable_flights :: "rat option \<Rightarrow> ('k, 'v) flight_state \<Rightarrow> bool" for ttl where
  init: "reachable_flights ttl initial_flights"
| step: "reachable_flights ttl s \<Longrightarrow> flight_step ttl s s' \<Longrightarrow> reachable_flights ttl s'"

text \<open>Every registered flight has one owner, and every future someone waits for has been, or will be, completed.\<close>

definition owns :: "('k, 'v) thread \<Rightarrow> nat \<Rightarrow> bool" where
  "owns th f \<longleftrightarrow> (\<exists>k. th = Loading k f) \<or> (\<exists>r. th = Publishing f r)"

definition loading :: "(nat \<Rightarrow> ('k, 'v) thread) \<Rightarrow> 'k \<Rightarrow> nat \<Rightarrow> bool" where
  "loading ths k f \<longleftrightarrow> (\<exists>i. ths i = Loading k f)"

definition owned :: "(nat \<Rightarrow> ('k, 'v) thread) \<Rightarrow> nat \<Rightarrow> bool" where
  "owned ths f \<longleftrightarrow> (\<exists>i. owns (ths i) f)"

definition flights_registered :: "('k, 'v) flight_state \<Rightarrow> bool" where
  "flights_registered s \<longleftrightarrow>
     (\<forall>k f. loading (fs_threads s) k f \<longleftrightarrow> map_of (cache_inflight (fs_cache s)) k = Some f)"

definition owners_unique :: "('k, 'v) flight_state \<Rightarrow> bool" where
  "owners_unique s \<longleftrightarrow>
     (\<forall>i j f. owns (fs_threads s i) f \<longrightarrow> owns (fs_threads s j) f \<longrightarrow> i = j)"

definition futures_fresh :: "('k, 'v) flight_state \<Rightarrow> bool" where
  "futures_fresh s \<longleftrightarrow>
     (\<forall>i f. owns (fs_threads s i) f \<longrightarrow> f < cache_next (fs_cache s) \<and> fs_futures s f = None)
   \<and> (\<forall>f. cache_next (fs_cache s) \<le> f \<longrightarrow> fs_futures s f = None)"

definition waiters_served :: "('k, 'v) flight_state \<Rightarrow> bool" where
  "waiters_served s \<longleftrightarrow>
     (\<forall>i f. fs_threads s i = Waiting f \<longrightarrow> fs_futures s f \<noteq> None \<or> owned (fs_threads s) f)"

definition flights_ok :: "('k, 'v) flight_state \<Rightarrow> bool" where
  "flights_ok s \<longleftrightarrow>
     flights_registered s \<and> owners_unique s \<and> futures_fresh s \<and> waiters_served s"

lemmas flight_defs = flights_registered_def owners_unique_def futures_fresh_def waiters_served_def

lemma owns_simps [simp]:
  "owns (Loading k f) g \<longleftrightarrow> f = g" "owns (Publishing f r) g \<longleftrightarrow> f = g"
  "\<not> owns Idle g" "\<not> owns (Waiting f) g" "\<not> owns (Returned r) g"
  by (auto simp: owns_def)

lemma loading_upd [simp]:
  "ths i \<noteq> Loading k f \<Longrightarrow> loading (ths(i := x)) k f \<longleftrightarrow> x = Loading k f \<or> loading ths k f"
  by (auto simp: loading_def)

lemma owned_upd [simp]:
  "\<not> owns (ths i) f \<Longrightarrow> owned (ths(i := x)) f \<longleftrightarrow> owns x f \<or> owned ths f"
  by (auto simp: owned_def)

lemma owned_upd_same [simp]: "owns x f \<Longrightarrow> owned (ths(i := x)) f"
  by (auto simp: owned_def)

lemma loadingI: "ths i = Loading k f \<Longrightarrow> loading ths k f"
  by (auto simp: loading_def)

lemma loading_owned: "loading ths k f \<Longrightarrow> owned ths f"
  unfolding loading_def owned_def by (metis owns_simps(1))

lemma flights_ok_quiet:
  assumes "flights_ok s" "\<And>f. \<not> owns (fs_threads s i) f"
  shows "flights_ok (s\<lparr>fs_threads := (fs_threads s)(i := Returned r)\<rparr>)"
proof -
  have n: "fs_threads s i \<noteq> Loading k f" for k f using assms(2) [of f] by auto
  show ?thesis using assms n
    unfolding flights_ok_def by (auto simp: flight_defs)
qed

lemma flights_ok_get:
  assumes ok: "flights_ok s" and idle: "\<And>f. \<not> owns (fs_threads s i) f"
  shows "flights_ok (thread_get i key force s)"
proof (cases rule: begin_get_cases [of "fs_cache s" key force "fs_now s"])
  case (hit cached)
  then show ?thesis using flights_ok_quiet [OF ok idle] by (simp add: thread_get_def)
next
  case own
  have n: "fs_threads s i \<noteq> Loading k f" for k f using idle [of f] by auto
  have fresh: "\<not> loading (fs_threads s) k (cache_next (fs_cache s))" for k
    using ok by (auto simp: flights_ok_def futures_fresh_def loading_def) (metis less_irrefl owns_simps(1))
  show ?thesis using own ok idle n fresh
    unfolding flights_ok_def
    by (auto simp: flight_defs thread_get_def less_Suc_eq split: if_splits)
next
  case (join f)
  have n: "fs_threads s i \<noteq> Loading k f" for k f using idle [of f] by auto
  have "owned (fs_threads s) f"
    using ok join(1) by (auto simp: flights_ok_def flights_registered_def intro: loading_owned)
  then show ?thesis using join ok idle n
    unfolding flights_ok_def by (auto simp: flight_defs thread_get_def)
qed

lemma flights_ok_loaded:
  assumes ok: "flights_ok s" and i: "fs_threads s i = Loading key f"
  shows "flights_ok (thread_loaded ttl i key f outcome s)"
proof -
  let ?s = "thread_loaded ttl i key f outcome s"
  have k: "map_of (cache_inflight (fs_cache s)) key = Some f"
    using ok i by (auto simp: flights_ok_def flights_registered_def dest: loadingI)
  have "flights_registered ?s"
    unfolding flights_registered_def
  proof (intro allI)
    fix k' g
    show "loading (fs_threads ?s) k' g \<longleftrightarrow> map_of (cache_inflight (fs_cache ?s)) k' = Some g"
    proof (cases "k' = key")
      case True
      have "fs_threads s j \<noteq> Loading key g" if "j \<noteq> i" for j
      proof
        assume j: "fs_threads s j = Loading key g"
        then have "g = f" using ok k by (auto simp: flights_ok_def flights_registered_def dest: loadingI)
        then show False using ok i j that unfolding flights_ok_def owners_unique_def
          by (metis owns_simps(1))
      qed
      then show ?thesis using k True by (auto simp: thread_loaded_def loading_def)
    next
      case False
      then show ?thesis using ok k i by (auto simp: thread_loaded_def flights_ok_def flights_registered_def)
    qed
  qed
  moreover have "owners_unique ?s" using ok i
    by (auto simp: flights_ok_def owners_unique_def thread_loaded_def)
  moreover have "f < cache_next (fs_cache s)" "fs_futures s f = None"
    using ok i unfolding flights_ok_def futures_fresh_def by (metis owns_simps(1))+
  then have "futures_fresh ?s" using ok
    by (auto simp: flights_ok_def futures_fresh_def thread_loaded_def)
  moreover have "waiters_served ?s"
    unfolding waiters_served_def
  proof (intro allI impI)
    fix j g
    assume "fs_threads ?s j = Waiting g"
    then have "fs_futures s g \<noteq> None \<or> owned (fs_threads s) g"
      using ok by (auto simp: flights_ok_def waiters_served_def thread_loaded_def split: if_splits)
    then show "fs_futures ?s g \<noteq> None \<or> owned (fs_threads ?s) g"
      using i by (cases "g = f") (auto simp: thread_loaded_def)
  qed
  ultimately show ?thesis by (simp add: flights_ok_def)
qed

lemma flights_ok_publish:
  assumes ok: "flights_ok s" and i: "fs_threads s i = Publishing f outcome"
  shows "flights_ok (thread_publish i f outcome s)"
proof -
  let ?s = "thread_publish i f outcome s"
  have other: "\<not> owns (fs_threads s j) f" if "j \<noteq> i" for j
    using ok i that unfolding flights_ok_def owners_unique_def by (metis owns_simps(2))
  have "f < cache_next (fs_cache s)"
    using ok i unfolding flights_ok_def futures_fresh_def by (metis owns_simps(2))
  then have "futures_fresh ?s" using ok i other
    by (auto simp: flights_ok_def futures_fresh_def thread_publish_def)
  moreover have "flights_registered ?s" "owners_unique ?s" using ok i
    by (auto simp: flights_ok_def flights_registered_def owners_unique_def thread_publish_def)
  moreover have "waiters_served ?s" using ok i
    by (auto simp: flights_ok_def waiters_served_def thread_publish_def)
  ultimately show ?thesis by (simp add: flights_ok_def)
qed

lemma flights_ok_step: "flight_step ttl s s' \<Longrightarrow> flights_ok s \<Longrightarrow> flights_ok s'"
proof (induction rule: flight_step.induct)
  case (get s i r key force)
  then show ?case by (intro flights_ok_get) auto
next
  case (wake s i f outcome)
  then show ?case using flights_ok_quiet [of s i outcome] by (simp add: thread_wake_def)
next
  case (loaded s i key f outcome)
  then show ?case by (intro flights_ok_loaded)
next
  case (publish s i f outcome)
  then show ?case by (intro flights_ok_publish)
qed (simp_all add: flights_ok_def flight_defs)

lemma reachable_flights_ok: "reachable_flights ttl s \<Longrightarrow> flights_ok s"
proof (induction rule: reachable_flights.induct)
  case init
  then show ?case
    by (auto simp: initial_flights_def flights_ok_def flight_defs empty_cache_def loading_def)
qed (rule flights_ok_step)

section \<open>Expiry\<close>

text \<open>An entry was stored at \<open>expires_at - ttl\<close>, which is never in the future.\<close>

definition expiry_ok :: "rat option \<Rightarrow> rat \<Rightarrow> ('k, 'v) cache \<Rightarrow> bool" where
  "expiry_ok ttl now c \<longleftrightarrow>
     (\<forall>k v. map_of (cache_values c) k = Some v \<longrightarrow>
       (case ttl of None \<Rightarrow> cv_expires_at v = None
        | Some s \<Rightarrow> \<exists>t. cv_expires_at v = Some t \<and> t \<le> now + s))"

lemma begin_get_values: "cache_values (snd (begin_get now force k c)) = cache_values c"
  by (cases rule: begin_get_cases [of c k force now]) simp_all

lemma expiry_ok_values: "cache_values c' = cache_values c \<Longrightarrow> expiry_ok ttl now c' = expiry_ok ttl now c"
  by (simp add: expiry_ok_def)

lemma expiry_ok_set: "expiry_ok ttl now c \<Longrightarrow> expiry_ok ttl now (cache_set ttl now k v c)"
  by (auto simp: expiry_ok_def split: option.splits)

lemma expiry_ok_finish: "expiry_ok ttl now c \<Longrightarrow> expiry_ok ttl now (finish_get ttl now k f r c)"
  by (auto simp: finish_get_def expiry_ok_values [of "end_flight k f _"] expiry_ok_set split: sum.split)

lemma expiry_ok_discard: "expiry_ok ttl now c \<Longrightarrow> expiry_ok ttl now (cache_discard k c)"
  by (auto simp: expiry_ok_def)

lemma expiry_ok_tick: "expiry_ok ttl now c \<Longrightarrow> 0 \<le> dt \<Longrightarrow> expiry_ok ttl (now + dt) c"
  unfolding expiry_ok_def by (cases ttl) (auto, fastforce)

lemma thread_get_cache: "fs_cache (thread_get i key force s) = snd (begin_get (fs_now s) force key (fs_cache s))"
  "fs_now (thread_get i key force s) = fs_now s"
  by (cases rule: begin_get_cases [of "fs_cache s" key force "fs_now s"]; simp add: thread_get_def)+

lemma reachable_expiry: "reachable_flights ttl s \<Longrightarrow> expiry_ok ttl (fs_now s) (fs_cache s)"
proof (induction rule: reachable_flights.induct)
  case init
  then show ?case by (simp add: initial_flights_def empty_cache_def expiry_ok_def)
next
  case (step s s')
  from step.hyps(2) step.IH show ?case
    by (induction rule: flight_step.induct)
      (simp_all add: thread_get_cache thread_loaded_def thread_publish_def thread_wake_def
        expiry_ok_values [OF begin_get_values] expiry_ok_finish expiry_ok_set expiry_ok_discard
        expiry_ok_tick)
qed

section \<open>Tasks\<close>

text \<open>
  The asynchronous cache runs each loader in a task that several callers await; between two awaits
  the event loop runs nothing else. \<open>close\<close> cancels the registered tasks; a cancelled one still runs
  its \<open>finally\<close> block later, possibly after a new flight for its key has started.
\<close>

datatype ('k, 'v) task = Running 'k | Cancelling 'k | Finished "'v res"

record ('k, 'v) task_state =
  ts_cache :: "('k, 'v) cache"
  ts_tasks :: "nat \<Rightarrow> ('k, 'v) task option"
  ts_now :: rat

definition task_get :: "'k \<Rightarrow> bool \<Rightarrow> ('k, 'v) task_state \<Rightarrow> ('k, 'v) task_state" where
  "task_get key force s =
     (case begin_get (ts_now s) force key (ts_cache s) of
        (Own t, c) \<Rightarrow> s\<lparr>ts_cache := c, ts_tasks := (ts_tasks s)(t \<mapsto> Running key)\<rparr>
      | (_, c) \<Rightarrow> s\<lparr>ts_cache := c\<rparr>)"

definition task_finished ::
  "rat option \<Rightarrow> nat \<Rightarrow> 'k \<Rightarrow> 'v res \<Rightarrow> ('k, 'v) task_state \<Rightarrow> ('k, 'v) task_state" where
  "task_finished ttl t key outcome s =
     s\<lparr>ts_cache := finish_get ttl (ts_now s) key t outcome (ts_cache s),
       ts_tasks := (ts_tasks s)(t \<mapsto> Finished outcome)\<rparr>"

definition cancel_task :: "('k, 'v) task \<Rightarrow> ('k, 'v) task" where
  "cancel_task th = (case th of Running k \<Rightarrow> Cancelling k | _ \<Rightarrow> th)"

definition task_close :: "('k, 'v) task_state \<Rightarrow> ('k, 'v) task_state" where
  "task_close s =
     (case cache_close (ts_cache s) of
        (cancelled, c) \<Rightarrow>
          s\<lparr>ts_cache := c,
            ts_tasks := (\<lambda>t. if t \<in> set cancelled then map_option cancel_task (ts_tasks s t)
                             else ts_tasks s t)\<rparr>)"

inductive task_step :: "rat option \<Rightarrow> ('k, 'v) task_state \<Rightarrow> ('k, 'v) task_state \<Rightarrow> bool" for ttl where
  get: "task_step ttl s (task_get key force s)"
| loaded: "ts_tasks s t = Some (Running key) \<Longrightarrow> task_step ttl s (task_finished ttl t key outcome s)"
| cancelled: "ts_tasks s t = Some (Cancelling key) \<Longrightarrow>
    task_step ttl s (task_finished ttl t key (Raise CancelledError) s)"
| close: "task_step ttl s (task_close s)"
| set_value: "task_step ttl s (s\<lparr>ts_cache := cache_set ttl (ts_now s) key value (ts_cache s)\<rparr>)"
| discard: "task_step ttl s (s\<lparr>ts_cache := cache_discard key (ts_cache s)\<rparr>)"
| tick: "0 \<le> dt \<Longrightarrow> task_step ttl s (s\<lparr>ts_now := ts_now s + dt\<rparr>)"

definition initial_tasks :: "('k, 'v) task_state" where
  "initial_tasks = \<lparr>ts_cache = empty_cache, ts_tasks = (\<lambda>_. None), ts_now = 0\<rparr>"

inductive reachable_tasks :: "rat option \<Rightarrow> ('k, 'v) task_state \<Rightarrow> bool" for ttl where
  init: "reachable_tasks ttl initial_tasks"
| step: "reachable_tasks ttl s \<Longrightarrow> task_step ttl s s' \<Longrightarrow> reachable_tasks ttl s'"

definition tasks_ok :: "('k, 'v) task_state \<Rightarrow> bool" where
  "tasks_ok s \<longleftrightarrow>
     (\<forall>k t. map_of (cache_inflight (ts_cache s)) k = Some t \<longleftrightarrow> ts_tasks s t = Some (Running k))
   \<and> (\<forall>t. cache_next (ts_cache s) \<le> t \<longrightarrow> ts_tasks s t = None)
   \<and> dict_ok (cache_inflight (ts_cache s))"

lemma tasks_ok_get: "tasks_ok s \<Longrightarrow> tasks_ok (task_get key force s)"
proof (cases rule: begin_get_cases [of "ts_cache s" key force "ts_now s"])
  case own
  assume ok: "tasks_ok s"
  have "ts_tasks s (cache_next (ts_cache s)) = None" using ok by (simp add: tasks_ok_def)
  moreover have "map_of (cache_inflight (ts_cache s)) k \<noteq> Some (cache_next (ts_cache s))" for k
    using ok calculation by (simp add: tasks_ok_def)
  moreover have "ts_tasks s t \<noteq> Some (Running key)" for t
    using ok own(1) unfolding tasks_ok_def by (metis option.distinct(1))
  ultimately show ?thesis using own ok by (auto simp: task_get_def tasks_ok_def)
qed (simp_all add: task_get_def)

lemma dict_ok_end_flight: "dict_ok (cache_inflight c) \<Longrightarrow> dict_ok (cache_inflight (finish_get ttl now k f r c))"
  by (auto simp: finish_get_def end_flight_def split: sum.split)

lemma tasks_ok_finished:
  assumes "tasks_ok s" "ts_tasks s t = Some (Running key) \<or> ts_tasks s t = Some (Cancelling key)"
  shows "tasks_ok (task_finished ttl t key outcome s)"
proof -
  have "t < cache_next (ts_cache s)"
    using assms by (metis not_le option.distinct(1) tasks_ok_def)
  moreover have "ts_tasks s u = Some (Running k) \<Longrightarrow> ts_tasks s u' = Some (Running k) \<Longrightarrow> u = u'" for u u' k
    using assms(1) by (metis option.inject tasks_ok_def)
  ultimately show ?thesis using assms
    by (auto simp: tasks_ok_def task_finished_def dict_ok_end_flight)
qed

lemma tasks_ok_close: "tasks_ok s \<Longrightarrow> tasks_ok (task_close s)"
proof -
  assume ok: "tasks_ok s"
  have "t \<in> set (map snd (cache_inflight (ts_cache s)))" if "ts_tasks s t = Some (Running k)" for t k
  proof -
    have "map_of (cache_inflight (ts_cache s)) k = Some t" using ok that by (simp add: tasks_ok_def)
    then show ?thesis by (force dest: map_of_SomeD)
  qed
  then show ?thesis using ok
    by (auto simp: tasks_ok_def task_close_def cache_close_def cancel_task_def split: task.splits)
qed

lemma tasks_ok_step: "task_step ttl s s' \<Longrightarrow> tasks_ok s \<Longrightarrow> tasks_ok s'"
proof (induction rule: task_step.induct)
  case (get s key force)
  then show ?case by (intro tasks_ok_get)
next
  case (close s)
  then show ?case by (intro tasks_ok_close)
next
  case (loaded s t key outcome)
  then show ?case by (intro tasks_ok_finished) auto
next
  case (cancelled s t key)
  then show ?case by (intro tasks_ok_finished) auto
qed (simp_all add: tasks_ok_def)

lemma reachable_tasks_ok: "reachable_tasks ttl s \<Longrightarrow> tasks_ok s"
proof (induction rule: reachable_tasks.induct)
  case init
  then show ?case by (simp add: initial_tasks_def empty_cache_def tasks_ok_def)
qed (rule tasks_ok_step)

end
