(* ===== verification/Py_Decimal.thy ===== *)
theory Py_Decimal imports Prelude Complex_Main begin

text \<open>
  The part of Python's \<open>decimal\<close> module that the SDK uses, under the default context:
  28 digits of precision, \<open>ROUND_HALF_EVEN\<close>, exponents from -999999 to 999999 and the signals
  InvalidOperation, DivisionByZero and Overflow trapped. A finite decimal is a signed coefficient
  with an exponent, so trailing zeros are kept as Python keeps them; the sign of a zero is not
  represented. Every operation rounds its result as the module does, so the theorems of the other
  theories are about the numbers the code computes and not about ideal ones.
\<close>

section \<open>Values\<close>

datatype decimal =
    Dec (dcoef: int) (dexpo: int)
  | DInf bool
  | DNaN bool

text \<open>\<open>DInf True\<close> is minus infinity; \<open>DNaN True\<close> is the signaling NaN.\<close>

fun is_finite :: "decimal \<Rightarrow> bool" where
  "is_finite (Dec c e) = True"
| "is_finite _ = False"

fun is_zero :: "decimal \<Rightarrow> bool" where
  "is_zero (Dec c e) = (c = 0)"
| "is_zero _ = False"

fun dval :: "decimal \<Rightarrow> rat" where
  "dval (Dec c e) = of_int c * 10 powi e"
| "dval _ = 0"

definition dec_of_int :: "int \<Rightarrow> decimal" where
  "dec_of_int n = Dec n 0"

text \<open>The number of decimal digits of a natural number, \<open>len(str(n))\<close>.\<close>

function ndigits :: "int \<Rightarrow> int" where
  "ndigits n = (if n < 10 then 1 else ndigits (n div 10) + 1)"
  by pat_completeness auto
termination by (relation "measure nat") auto

declare ndigits.simps [simp del]

section \<open>The context\<close>

definition ctx_prec :: int where "ctx_prec = 28"
definition ctx_emax :: int where "ctx_emax = 999999"
definition ctx_etiny :: int where "ctx_etiny = -1000026"
definition ctx_etop :: int where "ctx_etop = 999972"

lemmas ctx_defs = ctx_prec_def ctx_emax_def ctx_etiny_def ctx_etop_def

datatype rounding = ROUND_FLOOR | ROUND_CEILING | ROUND_HALF_EVEN

text \<open>The integer nearest to \<open>n / d\<close> in the direction of the rounding mode, for positive \<open>d\<close>.\<close>

fun round_div :: "rounding \<Rightarrow> int \<Rightarrow> int \<Rightarrow> int" where
  "round_div ROUND_FLOOR n d = n div d"
| "round_div ROUND_CEILING n d = - ((- n) div d)"
| "round_div ROUND_HALF_EVEN n d =
     (let q = n div d; r = n mod d in
      if 2 * r < d then q else if d < 2 * r then q + 1 else if even q then q else q + 1)"

declare round_div.simps [simp del]

text \<open>\<open>Decimal._fix\<close>: rounding of an exact result to the context.\<close>

definition dfix :: "int \<Rightarrow> int \<Rightarrow> decimal res" where
  "dfix c e =
     (if c = 0 then Ok (Dec 0 (min (max e ctx_etiny) ctx_emax))
      else
        let exp_min = ndigits \<bar>c\<bar> + e - ctx_prec in
        if ctx_etop < exp_min then Raise DecimalOverflow
        else
          let em = max exp_min ctx_etiny in
          if e < em then
            let c1 = round_div ROUND_HALF_EVEN c (10 ^ nat (em - e));
                carry = 10 ^ 28 \<le> \<bar>c1\<bar>;
                c2 = (if carry then c1 div 10 else c1);
                e2 = (if carry then em + 1 else em)
            in if ctx_etop < e2 then Raise DecimalOverflow else Ok (Dec c2 e2)
          else Ok (Dec c e))"

section \<open>Arithmetic\<close>

text \<open>The coefficient of a finite decimal rewritten at a smaller exponent.\<close>

definition scale_to :: "int \<Rightarrow> int \<Rightarrow> int \<Rightarrow> int" where
  "scale_to c e e' = c * 10 ^ nat (e - e')"

fun dnan2 :: "decimal \<Rightarrow> decimal \<Rightarrow> decimal res option" where
  "dnan2 (DNaN True) _ = Some (Raise InvalidOperation)"
| "dnan2 _ (DNaN True) = Some (Raise InvalidOperation)"
| "dnan2 (DNaN False) _ = Some (Ok (DNaN False))"
| "dnan2 _ (DNaN False) = Some (Ok (DNaN False))"
| "dnan2 _ _ = None"

fun dsign :: "decimal \<Rightarrow> bool" where
  "dsign (Dec c e) = (c < 0)"
| "dsign (DInf s) = s"
| "dsign (DNaN s) = False"

fun dadd :: "decimal \<Rightarrow> decimal \<Rightarrow> decimal res" where
  "dadd (Dec a e) (Dec b f) =
     (let m = min e f in dfix (scale_to a e m + scale_to b f m) m)"
| "dadd x y =
     (case dnan2 x y of Some r \<Rightarrow> r
      | None \<Rightarrow>
        (case (x, y) of
           (DInf s, DInf t) \<Rightarrow> if s = t then Ok (DInf s) else Raise InvalidOperation
         | (DInf s, _) \<Rightarrow> Ok (DInf s)
         | (_, z) \<Rightarrow> Ok z))"

fun dneg_raw :: "decimal \<Rightarrow> decimal" where
  "dneg_raw (Dec c e) = Dec (- c) e"
| "dneg_raw (DInf s) = DInf (\<not> s)"
| "dneg_raw (DNaN s) = DNaN s"

definition dsub :: "decimal \<Rightarrow> decimal \<Rightarrow> decimal res" where
  "dsub x y = dadd x (dneg_raw y)"

fun dmul :: "decimal \<Rightarrow> decimal \<Rightarrow> decimal res" where
  "dmul (Dec a e) (Dec b f) = dfix (a * b) (e + f)"
| "dmul x y =
     (case dnan2 x y of Some r \<Rightarrow> r
      | None \<Rightarrow>
        (if is_zero x \<or> is_zero y then Raise InvalidOperation
         else Ok (DInf (dsign x \<noteq> dsign y))))"

text \<open>
  Division computes \<open>prec + 1\<close> or more digits of the quotient, marks an inexact one with a sticky
  last digit, and otherwise strips trailing zeros down to the ideal exponent.
\<close>

function strip_to :: "int \<Rightarrow> int \<Rightarrow> int \<Rightarrow> int \<times> int" where
  "strip_to c e ideal =
     (if e < ideal \<and> c mod 10 = 0 then strip_to (c div 10) (e + 1) ideal else (c, e))"
  by pat_completeness auto
termination by (relation "measure (\<lambda>(c, e, i). nat (i - e))") auto

declare strip_to.simps [simp del]

definition div_magnitude :: "int \<Rightarrow> int \<Rightarrow> int \<Rightarrow> int \<Rightarrow> int \<times> int" where
  "div_magnitude a e b f =
     (let shift = ndigits b - ndigits a + ctx_prec + 1;
          ex = e - f - shift;
          n = (if 0 \<le> shift then a * 10 ^ nat shift else a);
          d = (if 0 \<le> shift then b else b * 10 ^ nat (- shift));
          q = n div d
      in if n mod d \<noteq> 0 then (if q mod 5 = 0 then q + 1 else q, ex)
         else strip_to q ex (e - f))"

fun ddiv :: "decimal \<Rightarrow> decimal \<Rightarrow> decimal res" where
  "ddiv (Dec a e) (Dec b f) =
     (if b = 0 then (if a = 0 then Raise InvalidOperation else Raise DivisionByZero)
      else if a = 0 then dfix 0 (e - f)
      else (case div_magnitude \<bar>a\<bar> e \<bar>b\<bar> f of (q, ex) \<Rightarrow> dfix (sgn a * sgn b * q) ex))"
| "ddiv x y =
     (case dnan2 x y of Some r \<Rightarrow> r
      | None \<Rightarrow>
        (case (x, y) of
           (DInf s, DInf t) \<Rightarrow> Raise InvalidOperation
         | (DInf s, z) \<Rightarrow> Ok (DInf (s \<noteq> dsign z))
         | _ \<Rightarrow> Ok (Dec 0 ctx_etiny)))"

text \<open>\<open>a % b\<close>: the remainder of the truncated quotient, which must fit the precision.\<close>

fun dmod :: "decimal \<Rightarrow> decimal \<Rightarrow> decimal res" where
  "dmod (Dec a e) (Dec b f) =
     (if b = 0 then Raise InvalidOperation
      else
        let m = min e f; x = \<bar>scale_to a e m\<bar>; y = \<bar>scale_to b f m\<bar> in
        if 10 ^ 28 \<le> x div y then Raise InvalidOperation
        else dfix (sgn a * (x mod y)) m)"
| "dmod x y =
     (case dnan2 x y of Some r \<Rightarrow> r
      | None \<Rightarrow> (case x of DInf _ \<Rightarrow> Raise InvalidOperation | Dec c e \<Rightarrow> dfix c e | z \<Rightarrow> Ok z))"

text \<open>Ordering comparisons raise on NaN; equality does not.\<close>

fun dcmp_le :: "decimal \<Rightarrow> decimal \<Rightarrow> bool" where
  "dcmp_le (Dec a e) (Dec b f) = (let m = min e f in scale_to a e m \<le> scale_to b f m)"
| "dcmp_le (DInf s) (DInf t) = (s \<or> \<not> t)"
| "dcmp_le (DInf s) _ = s"
| "dcmp_le _ (DInf t) = (\<not> t)"
| "dcmp_le _ _ = False"

definition dle :: "decimal \<Rightarrow> decimal \<Rightarrow> bool res" where
  "dle x y = (case (x, y) of (DNaN _, _) \<Rightarrow> Raise InvalidOperation
               | (_, DNaN _) \<Rightarrow> Raise InvalidOperation
               | _ \<Rightarrow> Ok (dcmp_le x y))"

definition dlt :: "decimal \<Rightarrow> decimal \<Rightarrow> bool res" where
  "dlt x y = map_ok Not (dle y x)"

definition deq :: "decimal \<Rightarrow> decimal \<Rightarrow> bool" where
  "deq x y = (case (x, y) of (DNaN _, _) \<Rightarrow> False | (_, DNaN _) \<Rightarrow> False
               | _ \<Rightarrow> dcmp_le x y \<and> dcmp_le y x)"

section \<open>Quantization and normalization\<close>

definition rescale :: "rounding \<Rightarrow> int \<Rightarrow> int \<Rightarrow> int \<Rightarrow> int" where
  "rescale r c e t = (if t \<le> e then c * 10 ^ nat (e - t) else round_div r c (10 ^ nat (t - e)))"

text \<open>\<open>x.quantize(q, rounding)\<close> for a finite \<open>q\<close> of exponent \<open>t\<close>.\<close>

fun quantize :: "rounding \<Rightarrow> decimal \<Rightarrow> int \<Rightarrow> decimal res" where
  "quantize r (Dec c e) t =
     (if \<not> (ctx_etiny \<le> t \<and> t \<le> ctx_emax) then Raise InvalidOperation
      else
        let c' = rescale r c e t; n = ndigits \<bar>c'\<bar> in
        if c' \<noteq> 0 \<and> (ctx_prec < n \<or> ctx_emax < n + t - 1) then Raise InvalidOperation
        else Ok (Dec c' t))"
| "quantize r (DNaN False) t = Ok (DNaN False)"
| "quantize r _ t = Raise InvalidOperation"

function strip_zeros :: "int \<Rightarrow> int \<Rightarrow> int \<times> int" where
  "strip_zeros c e =
     (if c \<noteq> 0 \<and> c mod 10 = 0 \<and> e < ctx_emax then strip_zeros (c div 10) (e + 1) else (c, e))"
  by pat_completeness auto
termination by (relation "measure (\<lambda>(c, e). nat (ctx_emax - e))") auto

declare strip_zeros.simps [simp del]

fun dnormalize :: "decimal \<Rightarrow> decimal res" where
  "dnormalize (Dec c e) =
     bindE (dfix c e) (\<lambda>d. case d of
         Dec c' e' \<Rightarrow> Ok (if c' = 0 then Dec 0 0
                          else (case strip_zeros c' e' of (c2, e2) \<Rightarrow> Dec c2 e2))
       | z \<Rightarrow> Ok z)"
| "dnormalize (DNaN True) = Raise InvalidOperation"
| "dnormalize x = Ok x"

text \<open>\<open>int(x)\<close> truncates; \<open>as_integer_ratio\<close> gives lowest terms.\<close>

fun dint :: "decimal \<Rightarrow> int res" where
  "dint (Dec c e) =
     Ok (if 0 \<le> e then c * 10 ^ nat e else sgn c * (\<bar>c\<bar> div 10 ^ nat (- e)))"
| "dint (DInf s) = Raise OverflowError"
| "dint (DNaN s) = Raise ValueError"

fun as_integer_ratio :: "decimal \<Rightarrow> (int \<times> int) res" where
  "as_integer_ratio (Dec c e) =
     Ok (if 0 \<le> e then (c * 10 ^ nat e, 1)
         else let d = 10 ^ nat (- e); g = gcd c d in (c div g, d div g))"
| "as_integer_ratio (DInf s) = Raise OverflowError"
| "as_integer_ratio (DNaN s) = Raise ValueError"

end
