(* ===== verification/Py_Decimal_Facts.thy ===== *)
theory Py_Decimal_Facts imports Py_Decimal begin

text \<open>
  What the decimal operations compute, as rationals: when a result is exact, how far a rounded
  result can be from the exact one, and what comparison, quantization and normalization mean.
  The component theories reason about \<open>dval\<close> through these lemmas only.
\<close>

section \<open>Powers of ten and digit counts\<close>

abbreviation p10 :: "int \<Rightarrow> rat" where "p10 e \<equiv> 10 powi e"

lemma p10_pos [simp]: "0 < p10 e"
  by (simp add: zero_less_power_int)

lemma p10_nonzero [simp]: "p10 e \<noteq> 0"
  using p10_pos [of e] by linarith

lemma p10_not_neg: "\<not> p10 e < 0"
  using p10_pos [of e] by linarith

lemma p10_add: "p10 (a + b) = p10 a * p10 b"
  by (simp add: power_int_add)

lemma p10_nat: "0 \<le> k \<Longrightarrow> p10 k = 10 ^ nat k"
  by (simp add: power_int_def)

lemma p10_of_int: "0 \<le> k \<Longrightarrow> p10 k = of_int (10 ^ nat k)"
  by (simp add: p10_nat)

lemma p10_minus: "p10 (- k) * p10 k = 1"
  by (simp add: power_int_minus)

lemma p10_mono: "a \<le> b \<Longrightarrow> p10 a \<le> p10 b"
  by (rule power_int_increasing) auto

lemma p10_strict_mono: "a < b \<Longrightarrow> p10 a < p10 b"
  by (rule power_int_strict_increasing) auto

lemma ndigits_pos: "1 \<le> ndigits n"
proof (induction n rule: ndigits.induct)
  case (1 n)
  then show ?case by (cases "n < 10") (simp_all add: ndigits.simps [of n])
qed

lemma ndigits_bounds:
  "1 \<le> n \<Longrightarrow> 10 ^ nat (ndigits n - 1) \<le> n \<and> n < 10 ^ nat (ndigits n)"
proof (induction n rule: ndigits.induct)
  case (1 n)
  show ?case
  proof (cases "n < 10")
    case True
    with 1 show ?thesis by (simp add: ndigits.simps [of n])
  next
    case False
    with 1 have IH: "10 ^ nat (ndigits (n div 10) - 1) \<le> n div 10"
        "n div 10 < 10 ^ nat (ndigits (n div 10))"
      by auto
    let ?k = "ndigits (n div 10)"
    have k: "1 \<le> ?k" by (rule ndigits_pos)
    then have e1: "nat (?k + 1) = Suc (nat ?k)" and e2: "nat ?k = Suc (nat (?k - 1))"
      by auto
    from IH have "10 * 10 ^ nat (?k - 1) \<le> n" "n < 10 * 10 ^ nat ?k"
      by linarith+
    moreover from False have "ndigits n = ?k + 1" by (simp add: ndigits.simps [of n])
    ultimately show ?thesis by (simp add: e1 e2)
  qed
qed

lemma ndigits_le: "n < 10 ^ k \<Longrightarrow> 1 \<le> k \<Longrightarrow> ndigits n \<le> int k"
proof (induction k arbitrary: n)
  case (Suc k)
  show ?case
  proof (cases "n < 10")
    case True
    then show ?thesis by (simp add: ndigits.simps [of n])
  next
    case False
    with Suc.prems have k: "1 \<le> k" by (cases k) auto
    from Suc.prems have "n div 10 < 10 ^ k" by simp
    with k have "ndigits (n div 10) \<le> int k" by (intro Suc.IH)
    with False show ?thesis by (simp add: ndigits.simps [of n])
  qed
qed simp

lemma ndigits_le_iff: "1 \<le> k \<Longrightarrow> 0 \<le> n \<Longrightarrow> ndigits n \<le> int k \<longleftrightarrow> n < 10 ^ k"
proof
  assume k: "1 \<le> k" "0 \<le> n" and le: "ndigits n \<le> int k"
  show "n < 10 ^ k"
  proof (cases "n = 0")
    case False
    with k have "n < 10 ^ nat (ndigits n)" using ndigits_bounds [of n] by simp
    also have "(10::int) ^ nat (ndigits n) \<le> 10 ^ k" using le by (intro power_increasing) auto
    finally show ?thesis .
  qed simp
qed (rule ndigits_le)

section \<open>Comparison\<close>

lemma of_int_scale: "e' \<le> e \<Longrightarrow> of_int (scale_to c e e') * p10 e' = of_int c * p10 e"
proof -
  assume "e' \<le> e"
  then have "p10 (e - e') = of_int (10 ^ nat (e - e'))" by (simp add: p10_of_int)
  moreover have "p10 e = p10 (e - e') * p10 e'" using p10_add [of "e - e'" e'] by simp
  ultimately show ?thesis by (simp add: scale_to_def)
qed

lemma scale_le_iff:
  "scale_to a e (min e f) \<le> scale_to b f (min e f) \<longleftrightarrow> of_int a * p10 e \<le> of_int b * p10 f"
  (is "?l \<longleftrightarrow> ?r")
proof -
  let ?m = "min e f"
  have "?l \<longleftrightarrow> (of_int (scale_to a e ?m) :: rat) * p10 ?m \<le> of_int (scale_to b f ?m) * p10 ?m"
    by (simp only: mult_le_cancel_right_pos [OF p10_pos] of_int_le_iff)
  then show ?thesis by (simp add: of_int_scale)
qed

lemma scale_le_iff':
  "scale_to b f (min e f) \<le> scale_to a e (min e f) \<longleftrightarrow> of_int b * p10 f \<le> of_int a * p10 e"
  using scale_le_iff [of b f e a] by (simp add: min.commute)

lemma dcmp_le_dval: "is_finite x \<Longrightarrow> is_finite y \<Longrightarrow> dcmp_le x y \<longleftrightarrow> dval x \<le> dval y"
  by (cases x; cases y) (simp_all add: Let_def scale_le_iff)

lemma dle_finite [simp]: "is_finite x \<Longrightarrow> is_finite y \<Longrightarrow> dle x y = Ok (dval x \<le> dval y)"
  by (cases x; cases y) (simp_all add: dle_def Let_def scale_le_iff)

lemma dlt_finite [simp]: "is_finite x \<Longrightarrow> is_finite y \<Longrightarrow> dlt x y = Ok (dval x < dval y)"
  by (auto simp: dlt_def)

lemma deq_finite [simp]: "is_finite x \<Longrightarrow> is_finite y \<Longrightarrow> deq x y \<longleftrightarrow> dval x = dval y"
  by (cases x; cases y) (auto simp: deq_def Let_def scale_le_iff scale_le_iff' min.commute [of "dexpo y" "dexpo x"])

lemma is_finite_Dec [simp]: "is_finite (Dec c e)"
  by simp

lemma is_finite_iff: "is_finite x \<longleftrightarrow> (\<exists>c e. x = Dec c e)"
  by (cases x) auto

section \<open>Rounding\<close>

lemma round_div_floor:
  assumes "0 < d"
  shows "round_div ROUND_FLOOR n d * d \<le> n" "n < (round_div ROUND_FLOOR n d + 1) * d"
proof -
  have n: "n = n div d * d + n mod d" by simp
  then show "round_div ROUND_FLOOR n d * d \<le> n"
    using pos_mod_sign [OF assms, of n] by (metis le_add_same_cancel1 round_div.simps(1))
  have "n < n div d * d + d"
    using n pos_mod_bound [OF assms, of n] by linarith
  then show "n < (round_div ROUND_FLOOR n d + 1) * d" by (simp add: algebra_simps round_div.simps)
qed

lemma round_div_ceiling:
  assumes "0 < d"
  shows "n \<le> round_div ROUND_CEILING n d * d" "(round_div ROUND_CEILING n d - 1) * d < n"
  using round_div_floor [OF assms, of "- n"] by (simp_all add: algebra_simps round_div.simps)

lemma round_div_half_even:
  assumes "0 < d"
  shows "2 * \<bar>round_div ROUND_HALF_EVEN n d * d - n\<bar> \<le> d"
proof -
  define q r where "q = n div d" and "r = n mod d"
  have n: "n = q * d + r" and r: "0 \<le> r" "r < d"
    using assms by (simp_all add: q_def r_def)
  have "round_div ROUND_HALF_EVEN n d =
      (if 2 * r < d then q else if d < 2 * r then q + 1 else if even q then q else q + 1)"
    by (simp only: round_div.simps Let_def q_def r_def)
  then have "round_div ROUND_HALF_EVEN n d = q \<and> 2 * r \<le> d
      \<or> round_div ROUND_HALF_EVEN n d = q + 1 \<and> d \<le> 2 * r"
    by (cases "2 * r < d"; cases "d < 2 * r"; cases "even q") simp_all
  then show ?thesis
  proof
    assume "round_div ROUND_HALF_EVEN n d = q \<and> 2 * r \<le> d"
    then show ?thesis using n r by simp
  next
    assume *: "round_div ROUND_HALF_EVEN n d = q + 1 \<and> d \<le> 2 * r"
    then have "round_div ROUND_HALF_EVEN n d * d - n = d - r" using n by (simp add: algebra_simps)
    then show ?thesis using * r by simp
  qed
qed

lemma round_div_exact: "0 < d \<Longrightarrow> round_div r (n * d) d = n"
  by (cases r) (simp_all add: Let_def round_div.simps flip: mult_minus_left)

section \<open>Results that fit the context\<close>

text \<open>
  \<open>fits x\<close>: a finite decimal of at most 28 digits whose exponent lies between -1000 and 1000, far
  from the limits of the context. Every number of ordinary size is one.
\<close>

fun fits :: "decimal \<Rightarrow> bool" where
  "fits (Dec c e) = (\<bar>c\<bar> < 10 ^ 28 \<and> - 1000 \<le> e \<and> e \<le> 1000)"
| "fits _ = False"

text \<open>\<open>wide x\<close> leaves the exponent nearly the whole range of the context: it holds of results.\<close>

fun wide :: "decimal \<Rightarrow> bool" where
  "wide (Dec c e) = (\<bar>c\<bar> < 10 ^ 28 \<and> - 900000 \<le> e \<and> e \<le> 900000)"
| "wide _ = False"

lemma fits_wide [simp, intro]: "fits x \<Longrightarrow> wide x"
  by (cases x) auto

lemma wide_finite: "wide x \<Longrightarrow> is_finite x"
  by (cases x) auto

lemma fits_finite: "fits x \<Longrightarrow> is_finite x"
  by (cases x) auto

lemma dfix_exact:
  assumes "\<bar>c\<bar> < 10 ^ 28" "ctx_etiny \<le> e" "e \<le> ctx_etop"
  shows "dfix c e = Ok (Dec c e)"
proof (cases "c = 0")
  case True
  with assms show ?thesis by (simp add: dfix_def ctx_defs)
next
  case False
  define n where "n = ndigits \<bar>c\<bar>"
  have "n \<le> 28" using ndigits_le [of "\<bar>c\<bar>" 28] assms(1) by (simp add: n_def)
  then have "\<not> e < max (n + e - ctx_prec) ctx_etiny" "\<not> ctx_etop < n + e - ctx_prec"
    using assms(2,3) by (simp_all add: ctx_defs)
  with False show ?thesis unfolding dfix_def Let_def n_def [symmetric] by simp
qed

lemma dfix_wide: "wide (Dec c e) \<Longrightarrow> dfix c e = Ok (Dec c e)"
  by (intro dfix_exact) (simp_all add: ctx_defs)

text \<open>What any rounded result looks like, and how far it is from the exact one.\<close>

lemma dfix_zero [simp]: "dfix 0 e = Ok (Dec 0 (min (max e ctx_etiny) ctx_emax))"
  by (simp add: dfix_def)

lemma pow10_split: "0 \<le> a \<Longrightarrow> 0 \<le> b \<Longrightarrow> (10::int) ^ nat (a + b) = 10 ^ nat a * 10 ^ nat b"
  by (simp add: nat_add_distrib power_add)

lemma dfix_inexact:
  assumes ok: "dfix c e = Ok x" and tiny: "ctx_etiny \<le> e" and big: "10 ^ 28 \<le> \<bar>c\<bar>"
  shows "\<exists>c' k. 1 \<le> k \<and> 10 ^ (k + 27) \<le> \<bar>c\<bar> \<and> dval x = of_int c' * p10 (e + int k)
     \<and> 2 * \<bar>c' * 10 ^ k - c\<bar> \<le> 10 ^ k \<and> is_finite x
     \<and> \<bar>dcoef x\<bar> < 10 ^ 28 \<and> e \<le> dexpo x \<and> dexpo x \<le> e + int k + 1"
proof -
  define n where "n = ndigits \<bar>c\<bar>"
  have n28: "28 < n" using ndigits_le_iff [of 28 "\<bar>c\<bar>"] big by (simp add: n_def)
  define k where "k = nat (n - 28)"
  have k: "int k = n - 28" "1 \<le> k" using n28 by (simp_all add: k_def)
  have c0: "c \<noteq> 0" using big by auto
  have bnd: "10 ^ nat (n - 1) \<le> \<bar>c\<bar>" "\<bar>c\<bar> < 10 ^ nat n"
    using ndigits_bounds [of "\<bar>c\<bar>"] c0 by (simp_all add: n_def)
  have idx: "nat (n - 1) = k + 27" "nat n = k + 28" "nat (n - 28) = k"
    using k by linarith+
  have em: "max (n + e - ctx_prec) ctx_etiny = n + e - 28" using n28 tiny by (simp add: ctx_defs)
  define c1 where "c1 = round_div ROUND_HALF_EVEN c (10 ^ k)"
  have r: "2 * \<bar>c1 * 10 ^ k - c\<bar> \<le> 10 ^ k"
    unfolding c1_def by (rule round_div_half_even) simp
  have fix1: "dfix c e =
     (if ctx_etop < n + e - 28 then Raise DecimalOverflow
      else let carry = 10 ^ 28 \<le> \<bar>c1\<bar>; c2 = (if carry then c1 div 10 else c1);
               e2 = (if carry then n + e - 28 + 1 else n + e - 28)
           in if ctx_etop < e2 then Raise DecimalOverflow else Ok (Dec c2 e2))"
    using c0 n28 em unfolding dfix_def n_def [symmetric] Let_def c1_def
    by (simp add: ctx_prec_def idx del: power_Suc)
  have e28: "n + e - 28 = e + int k" using k by simp
  show ?thesis
  proof (cases "10 ^ 28 \<le> \<bar>c1\<bar>")
    case False
    then have "x = Dec c1 (n + e - 28)" using ok fix1 by (simp add: Let_def split: if_splits)
    then have "x = Dec c1 (e + int k)" by (simp only: e28)
    then show ?thesis using r bnd(1) k(2) idx(1) False by (intro exI [of _ c1] exI [of _ k]) simp
  next
    case True
    define P where "P = (10::int) ^ k"
    have P: "0 < P" by (simp add: P_def)
    have "\<bar>c1\<bar> * P \<le> \<bar>c1 * P - c\<bar> + \<bar>c\<bar>" using P by (simp add: abs_mult)
    moreover have "\<bar>c\<bar> < 10 ^ 28 * P"
      using bnd(2) unfolding idx P_def by (simp only: power_add mult.commute)
    moreover have "\<not> T + P \<le> A" if "A \<le> B + C" "C < T" "2 * B \<le> P" "0 < P" for A B C T P :: int
      using that by linarith
    ultimately have "\<not> 10 ^ 28 * P + P \<le> \<bar>c1\<bar> * P" using r [folded P_def] P by blast
    then have "\<not> (10 ^ 28 + 1) * P \<le> \<bar>c1\<bar> * P" by (simp only: distrib_right mult_1 not_False_eq_True)
    then have "\<not> 10 ^ 28 + 1 \<le> \<bar>c1\<bar>" using P mult_right_mono [of "10 ^ 28 + 1" "\<bar>c1\<bar>" P] by auto
    with True have "\<bar>c1\<bar> = 10 ^ 28" by linarith
    then have "c1 = 10 ^ 28 \<or> c1 = - (10 ^ 28)" by linarith
    then have c1: "c1 = 10 * (c1 div 10)" by auto
    have "x = Dec (c1 div 10) (n + e - 28 + 1)"
      using ok fix1 True by (simp add: Let_def split: if_splits)
    then have "x = Dec (c1 div 10) (e + int k + 1)" by (simp only: e28)
    moreover have "(of_int (c1 div 10) :: rat) * p10 (e + int k + 1) = of_int c1 * p10 (e + int k)"
      by (subst (2) c1) (simp add: p10_add)
    moreover have "\<bar>c1 div 10\<bar> < 10 ^ 28" using \<open>c1 = 10 ^ 28 \<or> c1 = - (10 ^ 28)\<close> by auto
    ultimately show ?thesis using r bnd(1) k(2) idx(1) by (intro exI [of _ c1] exI [of _ k]) simp
  qed
qed

lemma p10_shift: "of_int c * p10 (e + int k) = of_int (c * 10 ^ k) * p10 e"
  by (simp add: p10_add p10_nat)

lemma dfix_small:
  assumes "dfix c e = Ok x" "ctx_etiny \<le> e" "\<bar>c\<bar> < 10 ^ 28"
  shows "is_finite x \<and> dval x = of_int c * p10 e"
proof (cases "c = 0")
  case True
  with assms show ?thesis by auto
next
  case False
  define n where "n = ndigits \<bar>c\<bar>"
  have "n \<le> 28" using ndigits_le [of "\<bar>c\<bar>" 28] assms(3) by (simp add: n_def)
  then have "\<not> e < max (n + e - ctx_prec) ctx_etiny" using assms(2) by (simp add: ctx_defs)
  with False assms(1) show ?thesis
    unfolding dfix_def Let_def n_def [symmetric] by (auto split: if_splits)
qed

lemma dfix_close:
  assumes "dfix c e = Ok x" "ctx_etiny \<le> e"
  shows "is_finite x" "\<bar>dval x - of_int c * p10 e\<bar> \<le> \<bar>of_int c * p10 e\<bar> / 10 ^ 27"
proof -
  have "is_finite x \<and> \<bar>dval x - of_int c * p10 e\<bar> \<le> \<bar>of_int c * p10 e\<bar> / 10 ^ 27"
  proof (cases "\<bar>c\<bar> < 10 ^ 28")
    case True
    with assms show ?thesis using dfix_small [of c e x] by simp
  next
    case False
    then obtain c' k where k: "10 ^ (k + 27) \<le> \<bar>c\<bar>" "dval x = of_int c' * p10 (e + int k)"
        "2 * \<bar>c' * 10 ^ k - c\<bar> \<le> 10 ^ k" "is_finite x"
      using dfix_inexact [OF assms] by auto
    have "dval x - of_int c * p10 e = of_int (c' * 10 ^ k - c) * p10 e"
      unfolding k(2) p10_shift by (simp add: left_diff_distrib)
    then have "\<bar>dval x - of_int c * p10 e\<bar> = of_int \<bar>c' * 10 ^ k - c\<bar> * p10 e"
      by (simp add: abs_mult)
    also have "\<dots> \<le> of_int \<bar>c\<bar> / 10 ^ 27 * p10 e"
    proof (rule mult_right_mono)
      have "\<bar>c' * 10 ^ k - c\<bar> * 10 ^ 27 \<le> \<bar>c\<bar>" using k(1,3) by (simp add: power_add)
      then have "(of_int (\<bar>c' * 10 ^ k - c\<bar> * 10 ^ 27) :: rat) \<le> of_int \<bar>c\<bar>"
        by (simp only: of_int_le_iff)
      then show "(of_int \<bar>c' * 10 ^ k - c\<bar> :: rat) \<le> of_int \<bar>c\<bar> / 10 ^ 27"
        by (simp add: pos_le_divide_eq)
    qed simp
    finally show ?thesis using k(4) by (simp add: abs_mult)
  qed
  then show "is_finite x" "\<bar>dval x - of_int c * p10 e\<bar> \<le> \<bar>of_int c * p10 e\<bar> / 10 ^ 27" by auto
qed

lemma dfix_result_wide:
  assumes "dfix c e = Ok x" "- 800000 \<le> e" "e \<le> 800000" "\<bar>c\<bar> < 10 ^ 100"
  shows "wide x"
proof (cases "\<bar>c\<bar> < 10 ^ 28")
  case True
  then have "dfix c e = Ok (Dec c e)" using assms(2,3) by (intro dfix_exact) (simp_all add: ctx_defs)
  with True show ?thesis using assms(1-3) by auto
next
  case False
  have "ctx_etiny \<le> e" using assms(2) by (simp add: ctx_defs)
  with False obtain k where k: "10 ^ (k + 27) \<le> \<bar>c\<bar>" "is_finite x" "\<bar>dcoef x\<bar> < 10 ^ 28"
      "e \<le> dexpo x" "dexpo x \<le> e + int k + 1"
    using dfix_inexact [OF assms(1)] by auto
  have "(10::int) ^ (k + 27) < 10 ^ 100" using k(1) assms(4) by linarith
  then have "k + 27 < 100" by (rule power_less_imp_less_exp [rotated]) simp
  then show ?thesis using k assms(2,3) by (cases x) auto
qed

section \<open>Decimal grids\<close>

text \<open>\<open>on_grid k v\<close>: the number has at most \<open>k\<close> digits after the decimal point.\<close>

definition on_grid :: "int \<Rightarrow> rat \<Rightarrow> bool" where
  "on_grid k v \<longleftrightarrow> (\<exists>n::int. v = of_int n * p10 (- k))"

lemma on_gridI: "v = of_int n * p10 (- k) \<Longrightarrow> on_grid k v"
  by (auto simp: on_grid_def)

lemma on_grid_mono: "on_grid j v \<Longrightarrow> j \<le> k \<Longrightarrow> on_grid k v"
proof -
  assume "on_grid j v" "j \<le> k"
  then obtain n where v: "v = of_int n * p10 (- j)" by (auto simp: on_grid_def)
  have "- j = - k + int (nat (k - j))" using \<open>j \<le> k\<close> by simp
  then show ?thesis unfolding v by (metis on_gridI p10_shift)
qed

lemma on_grid_Dec: "- e \<le> k \<Longrightarrow> on_grid k (of_int c * p10 e)"
  by (rule on_grid_mono [of "- e"]) (auto intro: on_gridI)

lemma on_grid_mult: "on_grid j v \<Longrightarrow> on_grid k w \<Longrightarrow> on_grid (j + k) (v * w)"
proof -
  assume "on_grid j v" "on_grid k w"
  then obtain m n where "v = of_int m * p10 (- j)" "w = of_int n * p10 (- k)"
    by (auto simp: on_grid_def)
  then have "v * w = of_int (m * n) * p10 (- (j + k))" using p10_add [of "- j" "- k"] by simp
  then show ?thesis by (rule on_gridI)
qed

lemma on_grid_diff: "on_grid k v \<Longrightarrow> on_grid k w \<Longrightarrow> on_grid k (v - w)"
  unfolding on_grid_def by (metis left_diff_distrib of_int_diff)

lemma on_grid_unit: "on_grid k v \<Longrightarrow> \<exists>n::int. v * p10 k = of_int n"
proof -
  assume "on_grid k v"
  then obtain n where "v = of_int n * p10 (- k)" by (auto simp: on_grid_def)
  then have "v * p10 k = of_int n" using p10_minus [of k] by (simp add: mult.assoc)
  then show ?thesis ..
qed

lemma on_grid_reduced:
  assumes "c mod 10 \<noteq> 0"
  shows "on_grid k (of_int c * p10 e) \<longleftrightarrow> - e \<le> k"
proof
  assume "on_grid k (of_int c * p10 e)"
  then obtain n where n: "of_int c * p10 e = (of_int n :: rat) * p10 (- k)" by (auto simp: on_grid_def)
  show "- e \<le> k"
  proof (rule ccontr)
    assume "\<not> - e \<le> k"
    then have ek: "- k = e + int (nat (- k - e))" and pos: "0 < nat (- k - e)" by simp_all
    have "of_int c * p10 e = (of_int (n * 10 ^ nat (- k - e)) :: rat) * p10 e"
      using n ek p10_shift [of n e "nat (- k - e)"] by simp
    then have "(of_int c :: rat) = of_int (n * 10 ^ nat (- k - e))" by (simp only: mult_right_cancel [OF p10_nonzero])
    then have "c = n * 10 ^ nat (- k - e)" by (simp only: of_int_eq_iff)
    moreover have "(10::int) dvd 10 ^ nat (- k - e)" using pos by (simp add: dvd_power)
    ultimately have "10 dvd c" by simp
    with assms show False by (simp add: dvd_eq_mod_eq_0)
  qed
qed (rule on_grid_Dec)

text \<open>A value that 28 digits can hold is not changed by rounding.\<close>

lemma dfix_representable:
  assumes ok: "dfix c e = Ok x" and tiny: "ctx_etiny \<le> e"
    and rep: "of_int c * p10 e = of_int n * p10 t" "\<bar>n\<bar> < 10 ^ 28"
  shows "is_finite x \<and> dval x = of_int n * p10 t"
proof (cases "\<bar>c\<bar> < 10 ^ 28")
  case True
  then show ?thesis using dfix_small [OF ok tiny] rep(1) by simp
next
  case False
  then obtain c' k where k: "10 ^ (k + 27) \<le> \<bar>c\<bar>" "dval x = of_int c' * p10 (e + int k)"
      "2 * \<bar>c' * 10 ^ k - c\<bar> \<le> 10 ^ k" "is_finite x"
    using dfix_inexact [OF ok tiny] by auto
  have et: "e < t"
  proof (rule ccontr)
    assume "\<not> e < t"
    then have "e = t + int (nat (e - t))" by simp
    then have "(of_int n :: rat) * p10 t = of_int (c * 10 ^ nat (e - t)) * p10 t"
      using rep(1) p10_shift [of c t "nat (e - t)"] by simp
    then have "n = c * 10 ^ nat (e - t)" by (simp only: mult_right_cancel [OF p10_nonzero] of_int_eq_iff)
    then have "\<bar>n\<bar> = \<bar>c\<bar> * 10 ^ nat (e - t)" by (simp add: abs_mult)
    moreover have "\<bar>c\<bar> * 1 \<le> \<bar>c\<bar> * 10 ^ nat (e - t)" by (intro mult_left_mono) auto
    ultimately show False using False rep(2) by linarith
  qed
  define j where "j = nat (t - e)"
  have t: "t = e + int j" using et by (simp add: j_def)
  have "(of_int c :: rat) * p10 e = of_int (n * 10 ^ j) * p10 e"
    using rep(1) p10_shift [of n e j] by (simp add: t)
  then have c: "c = n * 10 ^ j" by (simp only: mult_right_cancel [OF p10_nonzero] of_int_eq_iff)
  have "(10::int) ^ (k + 27) < 10 ^ (28 + j)"
  proof -
    have "\<bar>c\<bar> < 10 ^ 28 * 10 ^ j" using rep(2) by (simp add: c abs_mult)
    then show ?thesis using k(1) by (simp only: power_add)
  qed
  then have "k \<le> j" using power_less_imp_less_exp [of "10::int" "k + 27" "28 + j"] by simp
  then have "(10::int) ^ k dvd 10 ^ j" by (rule le_imp_power_dvd)
  then have "10 ^ k dvd c' * 10 ^ k - c" unfolding c by (intro dvd_diff) simp_all
  then obtain m where m: "c' * 10 ^ k - c = 10 ^ k * m" by (auto elim: dvdE)
  have "m = 0"
  proof (rule ccontr)
    assume "m \<noteq> 0"
    then have "(10::int) ^ k * 1 \<le> 10 ^ k * \<bar>m\<bar>" by (intro mult_left_mono) auto
    then show False using k(3) m by (simp add: abs_mult)
  qed
  then have "c = c' * 10 ^ k" using m by simp
  then show ?thesis using k(2,4) rep(1) p10_shift [of c' e k] by simp
qed

section \<open>Normalization and quantization\<close>

lemma strip_zeros_spec:
  "strip_zeros c e = (c2, e2) \<Longrightarrow> c \<noteq> 0 \<Longrightarrow>
     of_int c2 * p10 e2 = of_int c * p10 e \<and> e \<le> e2 \<and> (c2 mod 10 \<noteq> 0 \<or> ctx_emax \<le> e2)"
proof (induction c e rule: strip_zeros.induct)
  case (1 c e)
  show ?case
  proof (cases "c mod 10 = 0 \<and> e < ctx_emax")
    case True
    then have c: "c = 10 * (c div 10)" by auto
    have "strip_zeros (c div 10) (e + 1) = (c2, e2)" "c div 10 \<noteq> 0"
      using 1(2,3) True c by (auto simp: strip_zeros.simps [of c e])
    then have IH: "of_int c2 * p10 e2 = of_int (c div 10) * p10 (e + 1)" "e + 1 \<le> e2"
        "c2 mod 10 \<noteq> 0 \<or> ctx_emax \<le> e2"
      using 1(1,3) True by auto
    have "(of_int (c div 10) :: rat) * p10 (e + 1) = of_int c * p10 e"
      by (subst (2) c) (simp add: p10_add)
    then show ?thesis using IH by simp
  next
    case False
    then have "c2 = c" "e2 = e" using 1(2) by (auto simp: strip_zeros.simps [of c e])
    then show ?thesis using False by auto
  qed
qed

lemma dnormalize_wide:
  assumes "wide x"
  shows "\<exists>c e. dnormalize x = Ok (Dec c e) \<and> (\<forall>k\<ge>0. - e \<le> k \<longleftrightarrow> on_grid k (dval x))"
proof -
  obtain c e where x: "x = Dec c e" using assms by (cases x) auto
  have fx: "dfix c e = Ok (Dec c e)" using assms unfolding x by (rule dfix_wide)
  show ?thesis
  proof (cases "c = 0")
    case True
    have "on_grid k 0" for k by (rule on_gridI [of _ 0]) simp
    then show ?thesis unfolding x using True fx by (intro exI [of _ 0] exI [of _ 0]) simp
  next
    case False
    obtain c2 e2 where s: "strip_zeros c e = (c2, e2)" by fastforce
    note sp = strip_zeros_spec [OF s False]
    have "- e2 \<le> k \<longleftrightarrow> on_grid k (dval x)" if "0 \<le> k" for k
    proof (cases "c2 mod 10 = 0")
      case True
      then have "- e2 \<le> k" using sp that by (simp add: ctx_emax_def)
      then show ?thesis using sp on_grid_Dec [of e2 k c2] by (simp add: x)
    next
      case False
      then show ?thesis using on_grid_reduced [of c2 k e2] sp by (simp add: x)
    qed
    then show ?thesis unfolding x using False fx s by (intro exI [of _ c2] exI [of _ e2]) simp
  qed
qed

section \<open>Exact and nearly exact arithmetic\<close>

lemma dmul_representable:
  assumes "wide x" "fits y" "dmul x y = Ok z" "dval x * dval y = of_int n * p10 t" "\<bar>n\<bar> < 10 ^ 28"
  shows "is_finite z \<and> dval z = dval x * dval y"
proof -
  obtain a e b f where d: "x = Dec a e" "y = Dec b f" using assms(1,2) by (cases x; cases y) auto
  have "(of_int (a * b) :: rat) * p10 (e + f) = of_int n * p10 t"
    using assms(4) by (simp add: d p10_add mult.commute mult.left_commute)
  moreover have "ctx_etiny \<le> e + f" using assms(1,2) by (simp add: d ctx_defs)
  moreover have "dfix (a * b) (e + f) = Ok z" using assms(3) by (simp add: d)
  ultimately show ?thesis using dfix_representable assms(4,5) by metis
qed

lemma dadd_fits:
  assumes "fits x" "fits y" "dval x + dval y = of_int n * p10 t" "\<bar>n\<bar> < 10 ^ 28" "dadd x y = Ok z"
  shows "is_finite z \<and> dval z = dval x + dval y"
proof -
  obtain a e b f where d: "x = Dec a e" "y = Dec b f" using assms(1,2) by (cases x; cases y) auto
  define m where "m = min e f"
  have "(of_int (scale_to a e m + scale_to b f m) :: rat) * p10 m = dval x + dval y"
    by (simp add: d distrib_right of_int_scale m_def)
  moreover have "ctx_etiny \<le> m" using assms(1,2) by (simp add: d ctx_defs m_def)
  moreover have "dfix (scale_to a e m + scale_to b f m) m = Ok z"
    using assms(5) by (simp add: d m_def Let_def)
  ultimately show ?thesis using dfix_representable assms(3,4) by metis
qed

lemma dneg_raw_fits [simp]: "fits (dneg_raw x) = fits x" "dval (dneg_raw x) = - dval x"
  by (cases x; simp)+

lemma dsub_fits:
  assumes "fits x" "fits y" "dval x - dval y = of_int n * p10 t" "\<bar>n\<bar> < 10 ^ 28" "dsub x y = Ok z"
  shows "is_finite z \<and> dval z = dval x - dval y"
  using dadd_fits [of x "dneg_raw y" n t z] assms by (simp add: dsub_def)

text \<open>A division that leaves no remainder is exact; one that leaves a remainder is off by one part in
  \<open>10 ^ 26\<close> at most.\<close>

lemma strip_to_spec:
  "strip_to c e i = (c2, e2) \<Longrightarrow> 0 \<le> c \<Longrightarrow>
     of_int c2 * p10 e2 = (of_int c * p10 e :: rat) \<and> e \<le> e2 \<and> e2 \<le> max e i \<and> 0 \<le> c2 \<and> c2 \<le> c"
proof (induction c e i rule: strip_to.induct)
  case (1 c e i)
  show ?case
  proof (cases "e < i \<and> c mod 10 = 0")
    case True
    then have c: "c = 10 * (c div 10)" by auto
    have "strip_to (c div 10) (e + 1) i = (c2, e2)"
      using 1(2) True by (simp add: strip_to.simps [of c e])
    then have "of_int c2 * p10 e2 = (of_int (c div 10) * p10 (e + 1) :: rat) \<and> e + 1 \<le> e2
        \<and> e2 \<le> max (e + 1) i \<and> 0 \<le> c2 \<and> c2 \<le> c div 10"
      using 1(1,3) True by simp
    moreover have "c div 10 \<le> c" using 1(3) by simp
    moreover have "(of_int (c div 10) :: rat) * p10 (e + 1) = of_int c * p10 e"
      by (subst (2) c) (simp add: p10_add)
    ultimately show ?thesis using True by auto
  next
    case False
    then show ?thesis using 1(2,3) by (auto simp: strip_to.simps [of c e])
  qed
qed

lemma div_magnitude_spec:
  assumes a: "0 < a" and b: "0 < b" and eq: "div_magnitude a e b f = (q, ex)"
  defines "v \<equiv> of_int a * p10 e / (of_int b * p10 f)"
  shows "\<bar>of_int q * p10 ex - v\<bar> \<le> v / 10 ^ 28"
    and "e - f - (ndigits b - ndigits a + 29) \<le> ex"
    and "ex \<le> max (e - f - (ndigits b - ndigits a + 29)) (e - f)" and "0 \<le> q" and "q < 10 ^ 31"
proof -
  define s where "s = ndigits b - ndigits a + ctx_prec + 1"
  define n where "n = (if 0 \<le> s then a * 10 ^ nat s else a)"
  define d where "d = (if 0 \<le> s then b else b * 10 ^ nat (- s))"
  have s: "s = ndigits b - ndigits a + 29" by (simp add: s_def ctx_prec_def)
  have eq': "(if n mod d \<noteq> 0 then (if n div d mod 5 = 0 then n div d + 1 else n div d, e - f - s)
      else strip_to (n div d) (e - f - s) (e - f)) = (q, ex)"
    using eq unfolding div_magnitude_def Let_def s_def [symmetric] n_def [symmetric] d_def [symmetric] .
  have d0: "0 < d" using b by (simp add: d_def)
  have nd: "(of_int n / of_int d :: rat) * p10 (e - f - s) = v"
  proof (cases "0 \<le> s")
    case True
    then have "p10 (e - f) = 10 ^ nat s * p10 (e - f - s)"
      using p10_add [of s "e - f - s"] by (simp add: p10_nat)
    moreover have "p10 (e - f) * p10 f = p10 e" using p10_add [of "e - f" f] by simp
    ultimately show ?thesis using True b by (simp add: n_def d_def v_def field_simps)
  next
    case False
    then have "p10 (e - f - s) = 10 ^ nat (- s) * p10 (e - f)"
      using p10_add [of "- s" "e - f"] by (simp add: p10_nat)
    moreover have "p10 (e - f) * p10 f = p10 e" using p10_add [of "e - f" f] by simp
    ultimately show ?thesis using False b by (simp add: n_def d_def v_def field_simps)
  qed
  have la: "10 ^ nat (ndigits a - 1) \<le> a" and lb: "b < 10 ^ nat (ndigits b)"
    using ndigits_bounds [of a] ndigits_bounds [of b] a b by auto
  have big: "10 ^ 28 * d \<le> n"
  proof (cases "0 \<le> s")
    case True
    have "10 ^ 28 * b \<le> 10 ^ 28 * 10 ^ nat (ndigits b)" using lb by (intro mult_left_mono) auto
    also have "\<dots> = (10::int) ^ (28 + nat (ndigits b))" by (rule power_add [symmetric])
    also have "28 + nat (ndigits b) = nat (ndigits a - 1) + nat s"
      using True ndigits_pos [of a] ndigits_pos [of b] s by linarith
    also have "(10::int) ^ (nat (ndigits a - 1) + nat s) = 10 ^ nat (ndigits a - 1) * 10 ^ nat s" by (rule power_add)
    also have "\<dots> \<le> a * 10 ^ nat s" using la by (intro mult_right_mono) auto
    finally show ?thesis using True by (simp only: n_def d_def if_True)
  next
    case False
    have "10 ^ 28 * (b * 10 ^ nat (- s)) \<le> 10 ^ 28 * (10 ^ nat (ndigits b) * 10 ^ nat (- s))"
      using lb by (intro mult_left_mono mult_right_mono) auto
    also have "\<dots> = (10::int) ^ (28 + (nat (ndigits b) + nat (- s)))" by (simp only: power_add)
    also have "28 + (nat (ndigits b) + nat (- s)) = nat (ndigits a - 1)"
      using False ndigits_pos [of a] ndigits_pos [of b] s by linarith
    also have "(10::int) ^ nat (ndigits a - 1) \<le> a" by (rule la)
    finally show ?thesis using False by (simp only: n_def d_def if_False)
  qed
  have n0: "0 \<le> n" using a by (simp add: n_def)
  have la': "a < 10 ^ nat (ndigits a)" and lb': "10 ^ nat (ndigits b - 1) \<le> b"
    using ndigits_bounds [of a] ndigits_bounds [of b] a b by auto
  have small: "n < 10 ^ 30 * d"
  proof (cases "0 \<le> s")
    case True
    have "a * 10 ^ nat s < 10 ^ nat (ndigits a) * 10 ^ nat s" using la' by (intro mult_strict_right_mono) auto
    also have "\<dots> = (10::int) ^ (nat (ndigits a) + nat s)" by (rule power_add [symmetric])
    also have "nat (ndigits a) + nat s = 30 + nat (ndigits b - 1)"
      using True ndigits_pos [of a] ndigits_pos [of b] s by linarith
    also have "(10::int) ^ (30 + nat (ndigits b - 1)) = 10 ^ 30 * 10 ^ nat (ndigits b - 1)" by (rule power_add)
    also have "\<dots> \<le> 10 ^ 30 * b" using lb' by (intro mult_left_mono) auto
    finally show ?thesis using True by (simp only: n_def d_def if_True)
  next
    case False
    have "a < 10 ^ nat (ndigits a)" by (rule la')
    also have "nat (ndigits a) = 30 + (nat (ndigits b - 1) + nat (- s))"
      using False ndigits_pos [of a] ndigits_pos [of b] s by linarith
    also have "(10::int) ^ (30 + (nat (ndigits b - 1) + nat (- s)))
        = 10 ^ 30 * (10 ^ nat (ndigits b - 1) * 10 ^ nat (- s))" by (simp only: power_add)
    also have "\<dots> \<le> 10 ^ 30 * (b * 10 ^ nat (- s))"
      using lb' by (intro mult_left_mono mult_right_mono) auto
    finally show ?thesis using False by (simp only: n_def d_def if_False)
  qed
  have qb: "0 \<le> n div d" "n div d < 10 ^ 30"
  proof -
    show "0 \<le> n div d" using n0 d0 by (simp add: pos_imp_zdiv_nonneg_iff)
    have "n div d * d \<le> n" using d0 div_mult_mod_eq [of n d] pos_mod_sign [of d n] by linarith
    then have "n div d * d < 10 ^ 30 * d" using small by linarith
    then show "n div d < 10 ^ 30" using d0 by (simp only: mult_less_cancel_right_pos)
  qed
  have v0: "0 \<le> v" using a b by (simp add: v_def)
  have "\<bar>of_int q * p10 ex - v\<bar> \<le> v / 10 ^ 28 \<and> e - f - s \<le> ex
      \<and> ex \<le> max (e - f - s) (e - f) \<and> 0 \<le> q \<and> q < 10 ^ 31"
  proof (cases "n mod d = 0")
    case True
    then have st: "strip_to (n div d) (e - f - s) (e - f) = (q, ex)" using eq' by simp
    have "(of_int n / of_int d :: rat) = of_int (n div d)" using True d0 by (simp add: of_int_div dvd_eq_mod_eq_0)
    then show ?thesis using strip_to_spec [OF st qb(1)] qb nd v0 by simp
  next
    case False
    then have q: "(q = n div d \<or> q = n div d + 1)" "ex = e - f - s" using eq' by (auto split: if_splits)
    define Q R where "Q = n div d" and "R = n mod d"
    have nn: "n = d * Q + R" by (simp add: Q_def R_def)
    have m: "0 \<le> R" "R < d" using d0 by (simp_all add: R_def)
    have "q = Q \<or> q = Q + 1" using q(1) by (simp only: Q_def)
    then have "q * d - n = - R \<or> q * d - n = d - R" using nn by (auto simp: algebra_simps)
    then have "\<bar>q * d - n\<bar> \<le> d" using m by linarith
    then have "10 ^ 28 * \<bar>q * d - n\<bar> \<le> 10 ^ 28 * d" by (intro mult_left_mono) auto
    then have "10 ^ 28 * \<bar>q * d - n\<bar> \<le> n" using big by (rule order_trans)
    then have "\<bar>(of_int q :: rat) - of_int n / of_int d\<bar> \<le> (of_int n / of_int d) / 10 ^ 28"
    proof -
      assume "10 ^ 28 * \<bar>q * d - n\<bar> \<le> n"
      then have "(of_int (10 ^ 28 * \<bar>q * d - n\<bar>) :: rat) \<le> of_int n" by (simp only: of_int_le_iff)
      moreover have "(of_int q :: rat) - of_int n / of_int d = of_int (q * d - n) / of_int d"
        using d0 by (simp add: field_simps)
      ultimately show ?thesis using d0 by (simp add: field_simps abs_divide)
    qed
    then have "\<bar>(of_int q :: rat) - of_int n / of_int d\<bar> * p10 ex \<le> (of_int n / of_int d) / 10 ^ 28 * p10 ex"
      by (intro mult_right_mono) auto
    then have "\<bar>(of_int q - of_int n / of_int d) * p10 ex\<bar> \<le> (of_int n / of_int d) / 10 ^ 28 * p10 ex"
      by (simp add: abs_mult)
    moreover have "M / K * r = M * r / K" for M K r :: rat by simp
    ultimately have "\<bar>of_int q * p10 ex - v\<bar> \<le> v / 10 ^ 28"
      using nd q(2) by (metis left_diff_distrib)
    then show ?thesis using q qb by auto
  qed
  then show "\<bar>of_int q * p10 ex - v\<bar> \<le> v / 10 ^ 28" "e - f - (ndigits b - ndigits a + 29) \<le> ex"
    "ex \<le> max (e - f - (ndigits b - ndigits a + 29)) (e - f)" "0 \<le> q" "q < 10 ^ 31"
    using s by auto
qed

lemma ddiv_close:
  assumes x: "fits x" "0 < dval x" and y: "fits y" "0 < dval y" and ok: "ddiv x y = Ok z"
  shows "wide z \<and> \<bar>dval z - dval x / dval y\<bar> \<le> dval x / dval y / 10 ^ 26"
proof -
  obtain a e b f where d: "x = Dec a e" "y = Dec b f" using x y by (cases x; cases y) auto
  have ab: "0 < a" "0 < b" using x(2) y(2) by (simp_all add: d zero_less_mult_iff p10_not_neg)
  obtain q ex where dm: "div_magnitude a e b f = (q, ex)" by fastforce
  define v where "v = dval x / dval y"
  have v0: "0 < v" using x(2) y(2) by (simp add: v_def)
  have qv: "\<bar>of_int q * p10 ex - v\<bar> \<le> v / 10 ^ 28" "e - f - (ndigits b - ndigits a + 29) \<le> ex"
      "ex \<le> max (e - f - (ndigits b - ndigits a + 29)) (e - f)" "0 \<le> q" "q < 10 ^ 31"
    using div_magnitude_spec [OF ab dm] by (simp_all add: d v_def)
  have fx: "dfix q ex = Ok z" using ok ab dm by (simp add: d)
  have nd: "ndigits a \<le> 28" "ndigits b \<le> 28" "1 \<le> ndigits a" "1 \<le> ndigits b"
    using ndigits_le [of a 28] ndigits_le [of b 28] x(1) y(1) ab by (simp_all add: d ndigits_pos)
  have ef: "- 1000 \<le> e" "e \<le> 1000" "- 1000 \<le> f" "f \<le> 1000" using x(1) y(1) by (simp_all add: d)
  have lo: "- 3000 \<le> ex" using qv(2) nd ef by linarith
  have hi: "ex \<le> 3000" using qv(3) nd ef by linarith
  have "\<bar>q\<bar> < 10 ^ 31" using qv(4,5) by simp
  also have "(10::int) ^ 31 \<le> 10 ^ 100" by (rule power_increasing) auto
  finally have w: "wide z" using dfix_result_wide [OF fx] lo hi by simp
  have cl: "\<bar>dval z - of_int q * p10 ex\<bar> \<le> \<bar>of_int q * p10 ex\<bar> / 10 ^ 27"
    using dfix_close [OF fx] lo by (simp add: ctx_defs)
  have near: "\<bar>z - v\<bar> \<le> v / 10 ^ 26"
    if "\<bar>z - w\<bar> \<le> \<bar>w\<bar> / 10 ^ 27" "\<bar>w - v\<bar> \<le> v / 10 ^ 28" "0 < v" for z w :: rat
  proof -
    have "\<bar>w\<bar> \<le> 2 * v" using that(2,3) by (simp add: field_simps abs_if split: if_splits)
    then have "\<bar>z - w\<bar> \<le> 2 * v / 10 ^ 27" using that(1) by (simp add: field_simps)
    moreover have "\<bar>z - v\<bar> \<le> \<bar>z - w\<bar> + \<bar>w - v\<bar>" by linarith
    ultimately have "\<bar>z - v\<bar> \<le> 2 * v / 10 ^ 27 + v / 10 ^ 28" using that(2) by linarith
    also have "\<dots> \<le> v / 10 ^ 26" using that(3) by (simp add: field_simps)
    finally show ?thesis .
  qed
  have "\<bar>dval z - v\<bar> \<le> v / 10 ^ 26" using near [OF cl qv(1) v0] .
  then show ?thesis using w by (simp add: v_def)
qed

text \<open>Operations on numbers of ordinary size do not raise.\<close>

lemma dfix_total:
  assumes "- 950000 \<le> e" "e \<le> 950000" "\<bar>c\<bar> < 10 ^ 100"
  shows "is_ok (dfix c e)"
proof -
  define n where "n = ndigits \<bar>c\<bar>"
  have n: "n \<le> 100" using ndigits_le [of "\<bar>c\<bar>" 100] assms(3) by (simp add: n_def)
  define M where "M = max (n + e - ctx_prec) ctx_etiny"
  have m: "M \<le> 950072" "\<not> ctx_etop < n + e - ctx_prec"
    using n assms(1,2) by (simp_all add: ctx_defs M_def)
  have "\<not> ctx_etop < (if b then M + 1 else M)" for b using m(1) by (simp add: ctx_etop_def)
  then show ?thesis unfolding dfix_def n_def [symmetric] Let_def M_def [symmetric] using m(2) by simp
qed

lemma mult_bound: "\<bar>a::int\<bar> < 10 ^ j \<Longrightarrow> \<bar>b\<bar> < 10 ^ k \<Longrightarrow> \<bar>a * b\<bar> < 10 ^ (j + k)"
  unfolding abs_mult power_add by (intro mult_strict_mono) auto

lemma dmul_total: "wide x \<Longrightarrow> fits y \<Longrightarrow> is_ok (dmul x y)"
proof -
  assume f: "wide x" "fits y"
  obtain a e b g where d: "x = Dec a e" "y = Dec b g" using f by (cases x; cases y) auto
  have "\<bar>a * b\<bar> < 10 ^ (28 + 28)" using f by (intro mult_bound) (simp_all add: d)
  also have "(10::int) ^ (28 + 28) \<le> 10 ^ 100" by (rule power_increasing) auto
  finally show ?thesis unfolding d dmul.simps using f by (intro dfix_total) (simp_all add: d)
qed

lemma ddiv_total: "fits x \<Longrightarrow> 0 < dval x \<Longrightarrow> fits y \<Longrightarrow> 0 < dval y \<Longrightarrow> is_ok (ddiv x y)"
proof -
  assume f: "fits x" "0 < dval x" "fits y" "0 < dval y"
  obtain a e b g where d: "x = Dec a e" "y = Dec b g" using f by (cases x; cases y) auto
  have ab: "0 < a" "0 < b" using f(2,4) by (simp_all add: d zero_less_mult_iff p10_not_neg)
  obtain q ex where dm: "div_magnitude a e b g = (q, ex)" by fastforce
  have nd: "ndigits a \<le> 28" "ndigits b \<le> 28" "1 \<le> ndigits a" "1 \<le> ndigits b"
    using ndigits_le [of a 28] ndigits_le [of b 28] f(1,3) ab by (simp_all add: d ndigits_pos)
  have ef: "- 1000 \<le> e" "e \<le> 1000" "- 1000 \<le> g" "g \<le> 1000" using f(1,3) by (simp_all add: d)
  have "- 800000 \<le> ex" "ex \<le> 800000" using div_magnitude_spec(2,3) [OF ab dm] nd ef by linarith+
  moreover have "\<bar>q\<bar> < 10 ^ 31" using div_magnitude_spec(4,5) [OF ab dm] by simp
  moreover have "(10::int) ^ 31 \<le> 10 ^ 100" by (rule power_increasing) auto
  ultimately have "is_ok (dfix q ex)" by (intro dfix_total) linarith+
  then show ?thesis using ab dm by (simp add: d)
qed

lemma dmul_wide: "fits x \<Longrightarrow> fits y \<Longrightarrow> dmul x y = Ok z \<Longrightarrow> wide z"
proof -
  assume f: "fits x" "fits y" "dmul x y = Ok z"
  obtain a e b g where d: "x = Dec a e" "y = Dec b g" using f by (cases x; cases y) auto
  have "\<bar>a * b\<bar> < 10 ^ (28 + 28)" using f by (intro mult_bound) (simp_all add: d)
  also have "(10::int) ^ (28 + 28) \<le> 10 ^ 100" by (rule power_increasing) auto
  finally show ?thesis using f dfix_result_wide [of "a * b" "e + g" z] by (simp add: d)
qed

text \<open>The bounds on the exponents that a bound on the value implies.\<close>

lemma exponent_bounds:
  assumes "wide (Dec c e)" "p10 (- 6) \<le> dval (Dec c e)" "dval (Dec c e) \<le> 1"
  shows "- 40 \<le> e" "e \<le> 0" "0 < c"
proof -
  have c: "0 < c"
  proof (rule ccontr)
    assume "\<not> 0 < c"
    then have "(of_int c :: rat) * p10 e \<le> 0" by (simp add: mult_le_0_iff)
    with assms(2) p10_pos [of "- 6"] show False by simp
  qed
  show "0 < c" by (rule c)
  show "e \<le> 0"
  proof (rule ccontr)
    assume "\<not> e \<le> 0"
    then have "p10 0 < p10 e" by (intro p10_strict_mono) simp
    moreover have "p10 e \<le> dval (Dec c e)" using c by simp
    ultimately have "p10 0 < dval (Dec c e)" by (rule less_le_trans)
    with assms(3) show False unfolding power_int_0_right by (metis not_less)
  qed
  show "- 40 \<le> e"
  proof (rule ccontr)
    assume "\<not> - 40 \<le> e"
    then have e: "p10 e \<le> p10 (- 41)" by (intro p10_mono) simp
    have "of_int c * p10 e \<le> p10 28 * p10 (- 41)"
    proof (rule mult_mono)
      have "(of_int c :: rat) \<le> of_int (10 ^ 28)" using assms(1)
        by (simp only: of_int_le_iff) auto
      then show "(of_int c :: rat) \<le> p10 28" by (simp add: p10_nat)
    qed (use e c in simp_all)
    also have "p10 28 * p10 (- 41) = p10 (- 13)" by (simp add: p10_add [symmetric])
    also have "\<dots> < p10 (- 6)" by (rule p10_strict_mono) simp
    finally show False using assms(2) by simp
  qed
qed

end
