(* ===== verification/Py_Text.thy ===== *)
theory Py_Text imports Py_Decimal "HOL-Library.Char_ord" begin

text \<open>
  The text primitives of Python that the SDK uses: \<open>strip\<close>, \<open>lower\<close>, \<open>startswith\<close>, \<open>int(text, base)\<close>
  with its signs, prefixes, underscores and digit limit, \<open>Decimal(text)\<close>, hexadecimal formatting,
  and the dynamically typed values that arrive from callers and from JSON. A string is a list of
  code points below 256.
\<close>

section \<open>Characters\<close>

abbreviation code_of :: "char \<Rightarrow> int" where "code_of c \<equiv> of_char c"

definition is_space :: "char \<Rightarrow> bool" where
  "is_space c = (let n = code_of c in (9 \<le> n \<and> n \<le> 13) \<or> (28 \<le> n \<and> n \<le> 32) \<or> n = 133 \<or> n = 160)"

definition is_digit :: "char \<Rightarrow> bool" where
  "is_digit c = (48 \<le> code_of c \<and> code_of c \<le> 57)"

definition digit_value :: "char \<Rightarrow> int option" where
  "digit_value c =
     (let n = code_of c in
      if 48 \<le> n \<and> n \<le> 57 then Some (n - 48)
      else if 65 \<le> n \<and> n \<le> 90 then Some (n - 55)
      else if 97 \<le> n \<and> n \<le> 122 then Some (n - 87)
      else None)"

definition lower_char :: "char \<Rightarrow> char" where
  "lower_char c =
     (let n = (of_char c :: nat) in
      if (65 \<le> n \<and> n \<le> 90) \<or> (192 \<le> n \<and> n \<le> 222 \<and> n \<noteq> 215) then char_of (n + 32) else c)"

definition lower :: "string \<Rightarrow> string" where
  "lower s = map lower_char s"

definition strip :: "string \<Rightarrow> string" where
  "strip s = rev (dropWhile is_space (rev (dropWhile is_space s)))"

fun starts_with :: "string \<Rightarrow> string \<Rightarrow> bool" where
  "starts_with [] s = True"
| "starts_with (p # ps) [] = False"
| "starts_with (p # ps) (c # cs) = (p = c \<and> starts_with ps cs)"

definition ends_with :: "string \<Rightarrow> string \<Rightarrow> bool" where
  "ends_with p s = starts_with (rev p) (rev s)"

text \<open>\<open>needle in text\<close>\<close>

fun contains :: "string \<Rightarrow> string \<Rightarrow> bool" where
  "contains p [] = (p = [])"
| "contains p (c # cs) = (starts_with p (c # cs) \<or> contains p cs)"

section \<open>Integers from text\<close>

text \<open>
  The digits of \<open>int(text, base)\<close>: single underscores may stand between digits. The flag says that
  a digit must follow.
\<close>

fun int_digits :: "int \<Rightarrow> int \<Rightarrow> bool \<Rightarrow> string \<Rightarrow> int option" where
  "int_digits b acc need [] = (if need then None else Some acc)"
| "int_digits b acc need (c # cs) =
     (if c = CHR ''_'' then (if need then None else int_digits b acc True cs)
      else case digit_value c of
          None \<Rightarrow> None
        | Some d \<Rightarrow> if d < b then int_digits b (acc * b + d) False cs else None)"

definition base_prefix :: "int \<Rightarrow> string \<Rightarrow> bool" where
  "base_prefix b s =
     (case s of
        z # x # _ \<Rightarrow> z = CHR ''0'' \<and>
          (b = 16 \<and> x \<in> {CHR ''x'', CHR ''X''} \<or> b = 8 \<and> x \<in> {CHR ''o'', CHR ''O''}
            \<or> b = 2 \<and> x \<in> {CHR ''b'', CHR ''B''})
      | _ \<Rightarrow> False)"

text \<open>More than 4300 digits are refused unless the base is a power of two.\<close>

definition digit_limit_ok :: "int \<Rightarrow> string \<Rightarrow> bool" where
  "digit_limit_ok b s = (b \<in> {2, 4, 8, 16, 32} \<or> length (filter (\<lambda>c. c \<noteq> CHR ''_'') s) \<le> 4300)"

definition unsigned_int :: "string \<Rightarrow> int \<Rightarrow> int option" where
  "unsigned_int s b =
     (let body = (if base_prefix b s then drop 2 s else s);
          body' = (if base_prefix b s \<and> starts_with ''_'' body then drop 1 body else body)
      in if digit_limit_ok b body' then int_digits b 0 True body' else None)"

text \<open>\<open>int(text, base)\<close>; \<open>None\<close> stands for the ValueError.\<close>

definition py_int :: "string \<Rightarrow> int \<Rightarrow> int option" where
  "py_int text b =
     (case strip text of
        [] \<Rightarrow> None
      | c # cs \<Rightarrow>
          if c = CHR ''-'' then map_option uminus (unsigned_int cs b)
          else if c = CHR ''+'' then unsigned_int cs b
          else unsigned_int (c # cs) b)"

section \<open>Hexadecimal formatting\<close>

definition hex_char :: "int \<Rightarrow> char" where
  "hex_char d = ''0123456789abcdef'' ! nat d"

text \<open>The last \<open>w\<close> hexadecimal digits: \<open>f"{v:0wx}"\<close> for \<open>0 \<le> v < 16 ^ w\<close>.\<close>

fun hex_fixed :: "nat \<Rightarrow> int \<Rightarrow> string" where
  "hex_fixed 0 v = []"
| "hex_fixed (Suc w) v = hex_fixed w (v div 16) @ [hex_char (v mod 16)]"

definition is_hex_digit :: "char \<Rightarrow> bool" where
  "is_hex_digit c = (case digit_value c of None \<Rightarrow> False | Some d \<Rightarrow> d < 16)"

section \<open>Decimals from text\<close>

fun digits_int :: "int \<Rightarrow> string \<Rightarrow> int" where
  "digits_int acc [] = acc"
| "digits_int acc (c # cs) = digits_int (acc * 10 + (code_of c - 48)) cs"

text \<open>The optional exponent: \<open>None\<close> for a malformed one.\<close>

definition parse_exponent :: "string \<Rightarrow> int option" where
  "parse_exponent s =
     (case s of
        [] \<Rightarrow> Some 0
      | c # cs \<Rightarrow>
          if c \<notin> {CHR ''e'', CHR ''E''} then None
          else
            let (neg, ds) = (case cs of
                 d # ds' \<Rightarrow> if d = CHR ''-'' then (True, ds')
                            else if d = CHR ''+'' then (False, ds') else (False, cs)
               | [] \<Rightarrow> (False, []))
            in if ds = [] \<or> \<not> list_all is_digit ds then None
               else Some (if neg then - digits_int 0 ds else digits_int 0 ds))"

text \<open>
  The numeric part: digits, an optional point, digits, an exponent. \<open>Decimal(text)\<close> is exact; a value
  outside of the exponent range of the exact context is an InvalidOperation, which is \<open>None\<close> here.
\<close>

definition parse_numeral :: "bool \<Rightarrow> string \<Rightarrow> decimal option" where
  "parse_numeral neg s =
     (let ip = takeWhile is_digit s; r1 = dropWhile is_digit s;
          (fp, r2) = (case r1 of
             c # cs \<Rightarrow> if c = CHR ''.'' then (takeWhile is_digit cs, dropWhile is_digit cs) else ([], r1)
           | [] \<Rightarrow> ([], []))
      in if ip @ fp = [] then None
         else case parse_exponent r2 of
             None \<Rightarrow> None
           | Some e \<Rightarrow>
               let m = digits_int 0 (ip @ fp); ex = e - int (length fp);
                   adj = ex + ndigits m - 1
               in if ex < -1999999999999999997 \<or> 999999999999999999 < adj then None
                  else Some (Dec (if neg then - m else m) ex))"

definition parse_decimal :: "string \<Rightarrow> decimal option" where
  "parse_decimal text =
     (let s = filter (\<lambda>c. c \<noteq> CHR ''_'') (strip text);
          (neg, u) = (case s of
             c # cs \<Rightarrow> if c = CHR ''-'' then (True, cs) else if c = CHR ''+'' then (False, cs)
                       else (False, s)
           | [] \<Rightarrow> (False, []));
          l = lower u
      in if l = ''inf'' \<or> l = ''infinity'' then Some (DInf neg)
         else if starts_with ''nan'' l \<and> list_all is_digit (drop 3 l) then Some (DNaN False)
         else if starts_with ''snan'' l \<and> list_all is_digit (drop 4 l) then Some (DNaN True)
         else parse_numeral neg u)"

section \<open>Dynamically typed values\<close>

text \<open>
  What a caller can pass for a number and what JSON can hold. A float is given by the text that
  \<open>str\<close> prints for it, which determines it. The keys of an object are distinct.
\<close>

datatype pyval =
    PNone
  | PBool bool
  | PInt int
  | PFloat string
  | PStr string
  | PDecimal decimal
  | PList "pyval list"
  | PDict "(string \<times> pyval) list"
  | PObject

text \<open>\<open>d.get(key)\<close>\<close>

definition dict_get :: "string \<Rightarrow> (string \<times> pyval) list \<Rightarrow> pyval" where
  "dict_get k d = (case map_of d k of None \<Rightarrow> PNone | Some v \<Rightarrow> v)"

section \<open>Lemmas\<close>

lemma starts_with_iff: "starts_with p s \<longleftrightarrow> (\<exists>t. s = p @ t)"
  by (induction p s rule: starts_with.induct) auto

lemma ends_with_iff: "ends_with p s \<longleftrightarrow> (\<exists>t. s = t @ p)"
  by (auto simp: ends_with_def starts_with_iff) (metis rev_append rev_rev_ident)

lemma contains_iff: "contains p s \<longleftrightarrow> (\<exists>a b. s = a @ p @ b)"
proof (induction s)
  case (Cons c cs)
  have "(\<exists>a b. c # cs = a @ p @ b) \<longleftrightarrow> (\<exists>b. c # cs = p @ b) \<or> (\<exists>a b. cs = a @ p @ b)"
    by (metis append_Cons append_Nil list.exhaust list.inject)
  then show ?case using Cons.IH by (simp add: starts_with_iff)
qed auto

lemma length_hex_fixed [simp]: "length (hex_fixed w v) = w"
  by (induction w arbitrary: v) simp_all

lemma hex_fixed_Nil_iff [simp]: "hex_fixed w v = [] \<longleftrightarrow> w = 0"
  by (cases w) simp_all

lemma below_16: "0 \<le> (d::int) \<Longrightarrow> d < 16 \<Longrightarrow>
    d \<in> {0, 1, 2, 3, 4, 5, 6, 7, 8, 9, 10, 11, 12, 13, 14, 15}"
proof -
  assume "0 \<le> d" "d < 16"
  then have "nat d < 16" by simp
  then have "nat d \<in> {0, 1, 2, 3, 4, 5, 6, 7, 8, 9, 10, 11, 12, 13, 14, 15}"
    by (auto simp: numeral_eq_Suc less_Suc_eq)
  then show ?thesis using \<open>0 \<le> d\<close> by (auto simp: nat_eq_iff)
qed

lemma digit_value_hex_char: "0 \<le> d \<Longrightarrow> d < 16 \<Longrightarrow> digit_value (hex_char d) = Some d"
  by (drule (1) below_16) (elim insertE emptyE; simp add: digit_value_def hex_char_def)

lemma hex_char_not_special:
  "0 \<le> d \<Longrightarrow> d < 16 \<Longrightarrow> hex_char d \<noteq> CHR ''_'' \<and> hex_char d \<noteq> CHR ''-'' \<and> hex_char d \<noteq> CHR ''+''
     \<and> \<not> is_space (hex_char d)"
  by (drule (1) below_16) (elim insertE emptyE; simp add: is_space_def hex_char_def)

text \<open>The most significant digit first; reading a field back; cutting a field.\<close>

lemma hex_fixed_Cons: "hex_fixed (Suc w) v = hex_char (v div 16 ^ w mod 16) # hex_fixed w v"
proof (induction w arbitrary: v)
  case (Suc w)
  have "hex_fixed (Suc (Suc w)) v = hex_fixed (Suc w) (v div 16) @ [hex_char (v mod 16)]" by simp
  also have "\<dots> = hex_char (v div 16 div 16 ^ w mod 16) # hex_fixed w (v div 16) @ [hex_char (v mod 16)]"
    by (simp only: Suc.IH append_Cons)
  finally show ?case by (simp add: zdiv_zmult2_eq)
qed simp

lemma hex_digit_bounds: "0 \<le> (v::int) mod 16" "v mod 16 < 16"
  by simp_all

lemma int_digits_hex_fixed:
  "int_digits 16 acc need (hex_fixed w v) =
     (if w = 0 \<and> need then None else Some (acc * 16 ^ w + v mod 16 ^ w))"
proof (induction w arbitrary: acc need)
  case (Suc w)
  let ?d = "v div 16 ^ w mod 16"
  have "int_digits 16 acc need (hex_fixed (Suc w) v) = int_digits 16 (acc * 16 + ?d) False (hex_fixed w v)"
    unfolding hex_fixed_Cons using digit_value_hex_char [OF hex_digit_bounds] hex_char_not_special [OF hex_digit_bounds]
    by simp
  also have "\<dots> = Some ((acc * 16 + ?d) * 16 ^ w + v mod 16 ^ w)" by (simp add: Suc.IH)
  also have "(acc * 16 + ?d) * 16 ^ w + v mod 16 ^ w = acc * 16 ^ Suc w + v mod 16 ^ Suc w"
    using zmod_zmult2_eq [of 16 v "16 ^ w"] by (simp add: algebra_simps)
  finally show ?case by simp
qed simp

lemma take_hex_fixed: "k \<le> w \<Longrightarrow> take k (hex_fixed w v) = hex_fixed k (v div 16 ^ (w - k))"
proof (induction w arbitrary: v)
  case (Suc w)
  show ?case
  proof (cases "k = Suc w")
    case False
    then have "k \<le> w" using Suc.prems by simp
    then have "take k (hex_fixed (Suc w) v) = hex_fixed k (v div 16 div 16 ^ (w - k))"
      using Suc.IH by simp
    moreover have "v div 16 div 16 ^ (w - k) = v div 16 ^ (Suc w - k)"
      using \<open>k \<le> w\<close> by (simp add: zdiv_zmult2_eq Suc_diff_le)
    ultimately show ?thesis by simp
  qed simp
qed simp

lemma drop_hex_fixed: "k \<le> w \<Longrightarrow> drop (w - k) (hex_fixed w v) = hex_fixed k v"
proof (induction w arbitrary: k v)
  case (Suc w)
  show ?case
  proof (cases "k = Suc w")
    case False
    then have "Suc w - k = Suc (w - k)" "k \<le> w" using Suc.prems by auto
    then show ?thesis using Suc.IH [of k v] by (simp only: hex_fixed_Cons drop_Suc_Cons)
  qed simp
qed simp

section \<open>Reading back hexadecimal text\<close>

lemma strip_id:
  assumes "s \<noteq> []" "\<not> is_space (hd s)" "\<not> is_space (last s)"
  shows "strip s = s"
proof -
  have "dropWhile is_space s = s" using assms(1,2) by (cases s) auto
  moreover have "dropWhile is_space (rev s) = rev s"
    using assms(1,3) by (cases "rev s") (auto simp: hd_rev [symmetric])
  ultimately show ?thesis by (simp add: strip_def)
qed

lemma hex_digit_plain:
  assumes "is_hex_digit c"
  shows "\<not> is_space c" "c \<noteq> CHR ''_''" "c \<noteq> CHR ''-''" "c \<noteq> CHR ''+''" "c \<noteq> CHR ''x''" "c \<noteq> CHR ''X''"
  using assms by (auto simp: is_hex_digit_def digit_value_def is_space_def Let_def split: if_splits)

lemma list_all_hex_fixed: "list_all is_hex_digit (hex_fixed w v)"
proof (induction w arbitrary: v)
  case (Suc w)
  then show ?case
    using digit_value_hex_char [OF hex_digit_bounds, of v] by (simp add: is_hex_digit_def)
qed simp

lemma int_digits_hex:
  "list_all is_hex_digit s \<Longrightarrow> 0 \<le> acc \<Longrightarrow> \<not> need \<or> s \<noteq> [] \<Longrightarrow>
     \<exists>n. int_digits 16 acc need s = Some n \<and> 0 \<le> n"
proof (induction s arbitrary: acc need)
  case (Cons c s)
  then obtain d where d: "digit_value c = Some d" "d < 16" "0 \<le> d"
    by (auto simp: is_hex_digit_def digit_value_def Let_def split: if_splits option.splits)
  then have "int_digits 16 acc need (c # s) = int_digits 16 (acc * 16 + d) False s"
    using Cons.prems(1) hex_digit_plain(2) by simp
  then show ?case using Cons.IH [of "acc * 16 + d" False] Cons.prems d by simp
qed simp

lemma py_int_hex_digits:
  assumes "s \<noteq> []" "list_all is_hex_digit s"
  shows "py_int s 16 = int_digits 16 0 True s"
proof -
  have "is_hex_digit (hd s)" "is_hex_digit (last s)" using assms by (auto simp: list_all_iff)
  then have "strip s = s" using assms(1) hex_digit_plain(1) by (intro strip_id) auto
  moreover obtain c cs where s: "s = c # cs" using assms(1) by (cases s) auto
  moreover have "\<not> base_prefix 16 s"
    using assms(2) by (auto simp: base_prefix_def is_hex_digit_def digit_value_def split: list.splits)
  ultimately show ?thesis
    using hex_digit_plain(3,4) [of c] assms(2)
    by (simp add: py_int_def unsigned_int_def digit_limit_ok_def)
qed

lemma py_int_hex_fixed: "0 < w \<Longrightarrow> py_int (hex_fixed w v) 16 = Some (v mod 16 ^ w)"
  using py_int_hex_digits [OF _ list_all_hex_fixed, of w v] by (simp add: int_digits_hex_fixed)

lemma py_int_hex_total: "s \<noteq> [] \<Longrightarrow> list_all is_hex_digit s \<Longrightarrow> py_int s 16 \<noteq> None"
  using py_int_hex_digits [of s] int_digits_hex [of s 0 True] by auto

text \<open>The same digits behind a \<open>0x\<close>.\<close>

lemma py_int_prefixed:
  assumes "s \<noteq> []" "list_all is_hex_digit s"
  shows "py_int (''0x'' @ s) 16 = int_digits 16 0 True s"
proof -
  have "is_hex_digit (last s)" using assms by (auto simp: list_all_iff)
  then have "strip (''0x'' @ s) = ''0x'' @ s"
    using assms(1) hex_digit_plain(1) by (intro strip_id) (auto simp: is_space_def)
  moreover have "\<not> starts_with ''_'' s" using assms hex_digit_plain(2) by (cases s) auto
  ultimately show ?thesis
    by (simp add: py_int_def unsigned_int_def digit_limit_ok_def base_prefix_def)
qed

end
