(* ===== verification/Protocol_Ids.thy ===== *)
theory Protocol_Ids imports Py_Text "HOL-Library.Word" begin

unbundle bit_operations_syntax

text \<open>
  Identifiers and argument validation: \<open>_internal/protocol.py\<close> (the protocol version a position id
  belongs to, and the decoding of version 2 ids), \<open>_internal/validation.py\<close>,
  \<open>_internal/actions/exchange_asset.py\<close> and the condition id validators of \<open>models/types.py\<close>.
\<close>

section \<open>Generic argument checks\<close>

fun py_truthy :: "pyval \<Rightarrow> bool" where
  "py_truthy PNone = False"
| "py_truthy (PBool b) = b"
| "py_truthy (PInt n) = (n \<noteq> 0)"
| "py_truthy (PFloat s) = (s \<noteq> ''0.0'' \<and> s \<noteq> ''-0.0'')"
| "py_truthy (PStr s) = (s \<noteq> [])"
| "py_truthy (PDecimal d) = (\<not> is_zero d)"
| "py_truthy (PList xs) = (xs \<noteq> [])"
| "py_truthy (PDict d) = (d \<noteq> [])"
| "py_truthy PObject = True"

fun py_iter :: "pyval \<Rightarrow> pyval list res" where
  "py_iter (PList xs) = Ok xs"
| "py_iter (PStr s) = Ok (map (\<lambda>c. PStr [c]) s)"
| "py_iter (PDict d) = Ok (map (\<lambda>p. PStr (fst p)) d)"
| "py_iter _ = Raise TypeError"

definition require_nonempty :: "pyval \<Rightarrow> string res" where
  "require_nonempty value =
     (case value of
        PStr s \<Rightarrow> if s = [] then Raise UserInputError else Ok s
      | _ \<Rightarrow> Raise UserInputError)"

definition validate_builder_code :: "pyval \<Rightarrow> string res" where
  "validate_builder_code value =
     (case value of
        PStr s \<Rightarrow>
          if length s \<noteq> 66 \<or> \<not> starts_with ''0x'' s then Raise UserInputError
          else (case py_int (drop 2 s) 16 of
                  None \<Rightarrow> Raise UserInputError
                | Some _ \<Rightarrow> Ok s)
      | _ \<Rightarrow> Raise UserInputError)"

section \<open>Asset arguments\<close>

definition resolve_asset_id :: "pyval \<Rightarrow> pyval \<Rightarrow> string res" where
  "resolve_asset_id asset_id token_id =
     (if asset_id \<noteq> PNone \<and> token_id \<noteq> PNone then Raise UserInputError
      else
        let value = (if asset_id \<noteq> PNone then asset_id else token_id) in
        if value = PNone then Raise UserInputError
        else require_nonempty value)"

definition resolve_optional_asset_id :: "pyval \<Rightarrow> pyval \<Rightarrow> string option res" where
  "resolve_optional_asset_id asset_id token_id =
     (if asset_id \<noteq> PNone \<and> token_id \<noteq> PNone then Raise UserInputError
      else if asset_id = PNone \<and> token_id = PNone then Ok None
      else map_ok Some (resolve_asset_id asset_id token_id))"

definition resolve_asset_ids :: "pyval \<Rightarrow> pyval \<Rightarrow> string list res" where
  "resolve_asset_ids asset_ids token_ids =
     (if asset_ids \<noteq> PNone \<and> token_ids \<noteq> PNone then Raise UserInputError
      else
        let values = (if asset_ids \<noteq> PNone then asset_ids else token_ids) in
        if values = PNone then Raise UserInputError
        else case values of
            PStr _ \<Rightarrow> Raise UserInputError
          | _ \<Rightarrow>
              if \<not> py_truthy values then Raise UserInputError
              else bindE (py_iter values) (traverseE require_nonempty))"

section \<open>Position ids\<close>

definition uint256_max :: int where "uint256_max = 2 ^ 256 - 1"

text \<open>\<open>_V2_RESERVED_BITS_MASK = ((1 << 64) - 1) << 40\<close>\<close>

definition v2_reserved_bits_mask :: int where
  "v2_reserved_bits_mask = push_bit 40 (push_bit 64 1 - 1)"

definition supported_v2_module_ids :: "int list" where
  "supported_v2_module_ids = [1, 2, 3]"

text \<open>The regular expression \<open>0[xX]hex+ | 0[bB][01]+ | 0[oO][0-7]+ | [0-9]+\<close>, matched in full.\<close>

definition position_id_pattern :: "string \<Rightarrow> bool" where
  "position_id_pattern raw =
     (let rest = drop 2 raw in
      (base_prefix 16 raw \<and> rest \<noteq> [] \<and> list_all is_hex_digit rest)
      \<or> (base_prefix 2 raw \<and> rest \<noteq> [] \<and> list_all (\<lambda>c. c \<in> {CHR ''0'', CHR ''1''}) rest)
      \<or> (base_prefix 8 raw \<and> rest \<noteq> [] \<and> list_all (\<lambda>c. is_digit c \<and> code_of c \<le> 55) rest)
      \<or> (raw \<noteq> [] \<and> list_all is_digit raw))"

definition position_base :: "string \<Rightarrow> int" where
  "position_base raw =
     (let prefix = lower (take 2 raw) in
      if prefix = ''0x'' then 16 else if prefix = ''0b'' then 2
      else if prefix = ''0o'' then 8 else 10)"

definition parse_position_id :: "string \<Rightarrow> int res" where
  "parse_position_id position_id =
     (let raw = strip position_id in
      if \<not> position_id_pattern raw then Raise UserInputError
      else case py_int raw (position_base raw) of
          None \<Rightarrow> Raise ValueError
        | Some value \<Rightarrow>
            if value < 0 \<or> uint256_max < value then Raise UserInputError else Ok value)"

definition is_v2_position_id :: "string \<Rightarrow> bool res" where
  "is_v2_position_id asset_id =
     (case parse_position_id asset_id of
        Inr value \<Rightarrow> Ok (value AND v2_reserved_bits_mask = 0)
      | Inl e \<Rightarrow> if e = UserInputError then Ok False else Raise e)"

section \<open>Condition ids\<close>

definition is_hex_string :: "pyval \<Rightarrow> bool" where
  "is_hex_string value =
     (case value of
        PStr s \<Rightarrow> starts_with ''0x'' s \<and> py_int (drop 2 s) 16 \<noteq> None
      | _ \<Rightarrow> False)"

definition to_condition_id :: "string \<Rightarrow> string res" where
  "to_condition_id value =
     (if \<not> is_hex_string (PStr value) \<or> length value \<notin> {64, 66} then Raise TypeError else Ok value)"

text \<open>\<open>re.fullmatch(r"0x[0-9a-fA-F]+", value)\<close>\<close>

definition hex_pattern :: "string \<Rightarrow> bool" where
  "hex_pattern s = (starts_with ''0x'' s \<and> drop 2 s \<noteq> [] \<and> list_all is_hex_digit (drop 2 s))"

definition to_market_condition_id :: "pyval \<Rightarrow> string res" where
  "to_market_condition_id value =
     (case value of
        PStr s \<Rightarrow>
          if \<not> hex_pattern s then Raise TypeError
          else
            let normalized = lower s in
            if length normalized = 66 then Ok normalized
            else if length normalized = 64 \<and>
                (starts_with ''0x01'' normalized \<or> starts_with ''0x02'' normalized)
            then Ok (normalized @ ''00'')
            else Raise TypeError
      | _ \<Rightarrow> Raise TypeError)"

definition to_combo_condition_id :: "string \<Rightarrow> string res" where
  "to_combo_condition_id value =
     (if \<not> is_hex_string (PStr value) then Raise TypeError
      else
        let normalized = lower value in
        if length normalized = 64 \<and> starts_with ''0x03'' normalized then Ok normalized
        else if length normalized = 66 \<and> starts_with ''0x03'' normalized
            \<and> (ends_with ''00'' normalized \<or> ends_with ''01'' normalized)
        then Ok (take (length normalized - 2) normalized)
        else Raise TypeError)"

definition type_to_value_error :: "'a res \<Rightarrow> 'a res" where
  "type_to_value_error r = (case r of Inl TypeError \<Rightarrow> Raise ValueError | _ \<Rightarrow> r)"

definition validate_condition_id :: "pyval \<Rightarrow> string res" where
  "validate_condition_id value =
     (case value of
        PStr s \<Rightarrow> type_to_value_error (to_condition_id s)
      | _ \<Rightarrow> Raise ValueError)"

definition validate_market_condition_id :: "pyval \<Rightarrow> string res" where
  "validate_market_condition_id value =
     (case value of
        PStr s \<Rightarrow> type_to_value_error (to_market_condition_id (PStr s))
      | _ \<Rightarrow> Raise ValueError)"

definition validate_combo_condition_id :: "pyval \<Rightarrow> string res" where
  "validate_combo_condition_id value =
     (case value of
        PStr s \<Rightarrow> type_to_value_error (to_combo_condition_id s)
      | _ \<Rightarrow> Raise ValueError)"

definition validate_optional_condition_id :: "pyval \<Rightarrow> string option res" where
  "validate_optional_condition_id value =
     (if value = PNone then Ok None else map_ok Some (validate_condition_id value))"

definition validate_condition_id_response :: "pyval \<Rightarrow> string res" where
  "validate_condition_id_response value =
     (case value of
        PStr s \<Rightarrow> if is_hex_string value then Ok s else Raise ValueError
      | _ \<Rightarrow> Raise ValueError)"

section \<open>Decoding of version 2 outcome ids\<close>

record decoded_v2_outcome_position_id =
  dec_condition_id :: string
  dec_outcome_index :: int

text \<open>\<open>int(encoded[:2], 16)\<close> and \<open>int(encoded[-2:], 16)\<close> read fields of an already formatted number.\<close>

definition decode_v2_outcome_position_id :: "string \<Rightarrow> decoded_v2_outcome_position_id res" where
  "decode_v2_outcome_position_id position_id =
     bindE (parse_position_id position_id) (\<lambda>value.
     let encoded = hex_fixed 64 value in
     case py_int (take 2 encoded) 16 of
       None \<Rightarrow> Raise ValueError
     | Some module_id \<Rightarrow>
         (case py_int (drop 62 encoded) 16 of
            None \<Rightarrow> Raise ValueError
          | Some outcome_index \<Rightarrow>
              if module_id \<notin> set supported_v2_module_ids then Raise UserInputError
              else if outcome_index \<notin> {0, 1} then Raise UserInputError
              else
                bindE (to_condition_id (''0x'' @ take 62 encoded)) (\<lambda>condition_id.
                Ok \<lparr>dec_condition_id = condition_id, dec_outcome_index = outcome_index\<rparr>)))"

section \<open>What the validators accept\<close>

lemma require_nonempty_ok: "require_nonempty v = Ok s \<longleftrightarrow> v = PStr s \<and> s \<noteq> []"
  by (auto simp: require_nonempty_def split: pyval.splits if_splits)

lemma resolve_asset_id_ok:
  "resolve_asset_id a t = Ok s \<longleftrightarrow>
     s \<noteq> [] \<and> (a = PStr s \<and> t = PNone \<or> a = PNone \<and> t = PStr s)"
  by (auto simp: resolve_asset_id_def Let_def require_nonempty_ok split: if_splits)

lemma builder_code_length: "validate_builder_code v = Ok s \<Longrightarrow> length s = 66"
  by (auto simp: validate_builder_code_def split: pyval.splits if_splits option.splits)

lemma builder_code_ok:
  assumes "length s = 64" "list_all is_hex_digit s"
  shows "validate_builder_code (PStr (''0x'' @ s)) = Ok (''0x'' @ s)"
proof -
  have "s \<noteq> []" using assms(1) by auto
  then obtain n where "py_int s 16 = Some n" using py_int_hex_total assms(2) by blast
  then show ?thesis using assms(1) by (simp add: validate_builder_code_def)
qed

lemma v2_mask_zero_iff: "v AND v2_reserved_bits_mask = 0 \<longleftrightarrow> v div 2 ^ 40 mod 2 ^ 64 = (0::int)"
proof -
  have m: "v2_reserved_bits_mask = push_bit 40 (mask 64)"
    by (simp add: v2_reserved_bits_mask_def mask_eq_exp_minus_1 push_bit_eq_mult)
  have "v AND push_bit 40 (mask 64) = push_bit 40 (drop_bit 40 v AND mask 64)"
    by (rule bit_eqI) (auto simp: bit_simps)
  then have "v AND v2_reserved_bits_mask = push_bit 40 (take_bit 64 (drop_bit 40 v))"
    by (simp only: m take_bit_eq_mask)
  then show ?thesis by (simp add: take_bit_eq_mod drop_bit_eq_div push_bit_eq_mult)
qed

lemma parse_position_id_hex:
  assumes "0 \<le> v" "v \<le> uint256_max"
  shows "parse_position_id (''0x'' @ hex_fixed 64 v) = Ok v"
proof -
  let ?h = "hex_fixed 64 v"
  have ne: "?h \<noteq> []" by simp
  have h: "list_all is_hex_digit ?h" by (rule list_all_hex_fixed)
  have "is_hex_digit (last ?h)" using h ne by (auto simp: list_all_iff)
  then have st: "strip (''0x'' @ ?h) = ''0x'' @ ?h"
    using ne hex_digit_plain(1) by (intro strip_id) (auto simp: is_space_def)
  have pat: "position_id_pattern (''0x'' @ ?h)"
    using ne h by (simp add: position_id_pattern_def base_prefix_def Let_def)
  have base: "position_base (''0x'' @ ?h) = 16"
    by (simp add: position_base_def lower_def lower_char_def)
  have "v mod 16 ^ 64 = v" using assms by (simp add: uint256_max_def)
  then have "py_int (''0x'' @ ?h) 16 = Some v"
    using py_int_prefixed [OF ne h] int_digits_hex_fixed [of 0 True 64 v] by simp
  with st pat base assms show ?thesis by (simp only: parse_position_id_def Let_def) simp
qed

lemma parse_position_id_range: "parse_position_id s = Ok v \<Longrightarrow> 0 \<le> v \<and> v \<le> uint256_max"
  by (auto simp: parse_position_id_def Let_def split: if_splits option.splits)

lemma decode_fields:
  assumes "0 \<le> v" "v \<le> uint256_max"
  shows "py_int (take 2 (hex_fixed 64 v)) 16 = Some (v div 2 ^ 248)"
    and "py_int (drop 62 (hex_fixed 64 v)) 16 = Some (v mod 256)"
    and "take 62 (hex_fixed 64 v) = hex_fixed 62 (v div 256)"
proof -
  have "take 2 (hex_fixed 64 v) = hex_fixed 2 (v div 2 ^ 248)"
    using take_hex_fixed [of 2 64 v] by simp
  moreover have "v div 2 ^ 248 mod 16 ^ 2 = v div 2 ^ 248"
    using assms by (intro mod_pos_pos_trivial) (simp_all add: uint256_max_def)
  ultimately show "py_int (take 2 (hex_fixed 64 v)) 16 = Some (v div 2 ^ 248)"
    using py_int_hex_fixed [of 2 "v div 2 ^ 248"] by simp
  have "drop 62 (hex_fixed 64 v) = hex_fixed 2 v" using drop_hex_fixed [of 2 64 v] by simp
  then show "py_int (drop 62 (hex_fixed 64 v)) 16 = Some (v mod 256)"
    using py_int_hex_fixed [of 2 v] by simp
  show "take 62 (hex_fixed 64 v) = hex_fixed 62 (v div 256)" using take_hex_fixed [of 62 64 v] by simp
qed

lemma condition_id_of_hex:
  "to_condition_id (''0x'' @ hex_fixed 62 w) = Ok (''0x'' @ hex_fixed 62 w)"
proof -
  have "hex_fixed 62 w \<noteq> []" by simp
  then have "py_int (hex_fixed 62 w) 16 \<noteq> None"
    using list_all_hex_fixed by (rule py_int_hex_total)
  then show ?thesis by (simp add: to_condition_id_def is_hex_string_def)
qed

lemma decode_v2_value:
  assumes "parse_position_id s = Ok v"
  shows "decode_v2_outcome_position_id s =
     (if v div 2 ^ 248 \<in> {1, 2, 3} \<and> v mod 256 \<in> {0, 1}
      then Ok \<lparr>dec_condition_id = ''0x'' @ hex_fixed 62 (v div 256), dec_outcome_index = v mod 256\<rparr>
      else Raise UserInputError)"
  using decode_fields [of v] parse_position_id_range [OF assms] condition_id_of_hex [of "v div 256"]
  unfolding decode_v2_outcome_position_id_def assms bindE_Inr Let_def
  by (simp add: supported_v2_module_ids_def)

end
