(* ===== verification/Orders.thy ===== *)
theory Orders imports Order_Math Protocol_Ids begin

text \<open>
  The data of an order and the rules every order obeys: \<open>actions/orders/types.py\<close>,
  \<open>models/clob/orders.py\<close>, \<open>_numeric.py\<close> and \<open>context.py\<close> of \<open>actions/orders\<close>, the addresses of
  \<open>environments.py\<close> that orders use, and the signature types of \<open>wallet.py\<close>.
\<close>

section \<open>Order data\<close>

datatype order_side = BUY | SELL

datatype order_type = GTC | GTD | FAK | FOK

record wallet_derivation =
  proxy_factory :: string
  proxy_implementation :: string
  safe_factory :: string
  safe_init_code_hash :: string
  deposit_wallet_factory :: string
  deposit_wallet_implementation :: string
  deposit_wallet_beacon :: string

record environment_config =
  chain_id :: int
  wallet_derivation_of :: wallet_derivation
  collateral_token :: string
  conditional_tokens :: string
  neg_risk_adapter :: string
  collateral_adapter :: string
  neg_risk_collateral_adapter :: string
  standard_exchange :: string
  neg_risk_exchange :: string
  auto_redeem_operator :: string
  safe_multisend :: string
  relay_hub :: string
  clob_url :: string
  clob_market_ws_url :: string
  clob_user_ws_url :: string
  relayer_url :: string
  gamma_url :: string
  data_url :: string
  rfq_url :: string
  rtds_ws_url :: string
  sports_ws_url :: string
  rpc_url :: string
  exchange_v3 :: string
  protocol_v2_router :: string
  binary_module :: string
  neg_risk_module :: string
  combinatorial_module :: string
  position_manager :: string
  rfq_quoter_ws_url :: string
  rfq_quoter_ws_headers :: "(string \<times> string) list option"
  builder_gateway_url :: string
  collateral_return_url :: string
  perps_url :: string
  perps_ws_url :: string
  realtime_ws_url :: string
  realtime_ws_headers :: "(string \<times> string) list option"
  perps_deposit_contract :: string
  relayer_max_polls :: int
  relayer_poll_frequency_ms :: int

definition PRODUCTION :: environment_config where
  "PRODUCTION = \<lparr>
     chain_id = 137,
     wallet_derivation_of = \<lparr>
         proxy_factory = ''0xaB45c5A4B0c941a2F231C04C3f49182e1A254052'',
         proxy_implementation = ''0x44e999d5c2F66Ef0861317f9A4805AC2e90aEB4f'',
         safe_factory = ''0xaacFeEa03eb1561C4e67d661e40682Bd20E3541b'',
         safe_init_code_hash = ''0x2bce2127ff07fb632d16c8347c4ebf501f4841168bed00d9e6ef715ddb6fcecf'',
         deposit_wallet_factory = ''0x00000000000Fb5C9ADea0298D729A0CB3823Cc07'',
         deposit_wallet_implementation = ''0x58CA52ebe0DadfdF531Cde7062e76746de4Db1eB'',
         deposit_wallet_beacon = ''0x7A18EDfe055488A3128f01F563e5B479D92ffc3a''\<rparr>,
     collateral_token = ''0xC011a7E12a19f7B1f670d46F03B03f3342E82DFB'',
     conditional_tokens = ''0x4D97DCd97eC945f40cF65F87097ACe5EA0476045'',
     neg_risk_adapter = ''0xd91E80cF2E7be2e162c6513ceD06f1dD0dA35296'',
     collateral_adapter = ''0xAdA100Db00Ca00073811820692005400218FcE1f'',
     neg_risk_collateral_adapter = ''0xadA2005600Dec949baf300f4C6120000bDB6eAab'',
     standard_exchange = ''0xE111180000d2663C0091e4f400237545B87B996B'',
     neg_risk_exchange = ''0xe2222d279d744050d28e00520010520000310F59'',
     auto_redeem_operator = ''0xa1200000d0002264C9a1698e001292D00E1b00af'',
     safe_multisend = ''0xA238CBeb142c10Ef7Ad8442C6D1f9E89e07e7761'',
     relay_hub = ''0xD216153c06E857cD7f72665E0aF1d7D82172F494'',
     clob_url = ''https://clob.polymarket.com'',
     clob_market_ws_url = ''wss://ws-subscriptions-clob.polymarket.com/ws/market'',
     clob_user_ws_url = ''wss://ws-subscriptions-clob.polymarket.com/ws/user'',
     relayer_url = ''https://relayer-v2.polymarket.com'',
     gamma_url = ''https://gamma-api.polymarket.com'',
     data_url = ''https://data-api.polymarket.com'',
     rfq_url = ''https://combos-rfq-api.polymarket.com'',
     rtds_ws_url = ''wss://ws-live-data.polymarket.com'',
     sports_ws_url = ''wss://sports-api.polymarket.com/ws'',
     rpc_url = ''https://polygon.drpc.org'',
     exchange_v3 = ''0xe3333700cA9d93003F00f0F71f8515005F6c00Aa'',
     protocol_v2_router = ''0x12121212006e4CD160D18e3f00711DA5c3372600'',
     binary_module = ''0x1000008dD9001B968442c1000017eaE6E0dA00Ba'',
     neg_risk_module = ''0x200000900045e3B6259600682756002200028933'',
     combinatorial_module = ''0x30000034706c7d8e12009dab006be20000c031a8'',
     position_manager = ''0x006F54F7f9A22e0000CC2AB60031000000ae9fEF'',
     rfq_quoter_ws_url = ''wss://combos-rfq-gateway-quoter.polymarket.com/ws/rfq'',
     rfq_quoter_ws_headers = None,
     builder_gateway_url = ''https://combos-rfq-gateway-builder.polymarket.com'',
     collateral_return_url = ''https://combos-rfq-collateral-return.polymarket.com'',
     perps_url = ''https://api.perpetuals.polymarket.com'',
     perps_ws_url = ''wss://ws.perpetuals.polymarket.com/v1/ws'',
     realtime_ws_url = ''wss://ws-live-v2.polymarket.com/ws'',
     realtime_ws_headers = None,
     perps_deposit_contract = ''0xDCa4af75705dbB50f62437045afF9921947917d2'',
     relayer_max_polls = 100,
     relayer_poll_frequency_ms = 2000\<rparr>"

datatype wallet_type = EOA | POLY_PROXY | GNOSIS_SAFE | DEPOSIT_WALLET

fun signature_type_for :: "wallet_type \<Rightarrow> int" where
  "signature_type_for EOA = 0"
| "signature_type_for POLY_PROXY = 1"
| "signature_type_for GNOSIS_SAFE = 2"
| "signature_type_for DEPOSIT_WALLET = 3"

text \<open>The fields of the client context that the order code reads.\<close>

record order_context =
  environment_config_of :: environment_config
  ctx_wallet :: string
  ctx_wallet_type :: wallet_type
  ctx_signer_address :: string

record order_draft =
  draft_chain_id :: int
  draft_exchange_address :: string
  draft_expiration :: int
  draft_funder_address :: string
  offered_amount :: int
  draft_order_type :: order_type
  draft_side :: order_side
  draft_signer :: string
  requested_amount :: int
  draft_asset_id :: string
  draft_builder_code :: "string option"

datatype protocol_version = V2 | V3

record unsigned_order =
  uo_chain_id :: int
  uo_builder :: string
  uo_exchange_address :: string
  uo_expiration :: int
  uo_maker :: string
  uo_maker_amount :: int
  uo_metadata :: string
  uo_order_type :: order_type
  uo_salt :: int
  uo_side :: order_side
  uo_signature_type :: int
  uo_signer :: string
  uo_taker_amount :: int
  uo_timestamp :: int
  uo_token_id :: string
  uo_protocol_version :: protocol_version

record signed_order =
  so_builder :: string
  so_expiration :: int
  so_maker :: string
  so_maker_amount :: int
  so_metadata :: string
  so_order_type :: order_type
  so_salt :: int
  so_side :: order_side
  so_signature :: string
  so_signature_type :: int
  so_signer :: string
  so_taker_amount :: int
  so_timestamp :: int
  so_token_id :: string
  so_post_only :: bool

definition BYTES32_ZERO :: string where
  "BYTES32_ZERO = ''0x'' @ replicate 64 CHR ''0''"

section \<open>Numbers given by the caller\<close>

definition coerce_positive_decimal :: "pyval \<Rightarrow> decimal res" where
  "coerce_positive_decimal value =
     bindE (case value of
         PBool _ \<Rightarrow> Raise UserInputError
       | PDecimal d \<Rightarrow> Ok d
       | PInt n \<Rightarrow> Ok (dec_of_int n)
       | PFloat t \<Rightarrow> (case parse_decimal t of None \<Rightarrow> Raise InvalidOperation | Some d \<Rightarrow> Ok d)
       | PStr s \<Rightarrow> (case parse_decimal s of None \<Rightarrow> Raise UserInputError | Some d \<Rightarrow> Ok d)
       | _ \<Rightarrow> Raise UserInputError)
     (\<lambda>result.
       if \<not> is_finite result then Raise UserInputError
       else bindE (dle result (dec_of_int 0)) (\<lambda>nonpositive.
         if nonpositive then Raise UserInputError else Ok result))"

section \<open>Tick sizes\<close>

record rounding_config =
  cfg_amount :: int
  cfg_price :: int
  cfg_size :: int

definition rounding_by_tick :: "(decimal \<times> rounding_config) list" where
  "rounding_by_tick =
     [(Dec 1 (-1), \<lparr>cfg_amount = 3, cfg_price = 1, cfg_size = 2\<rparr>),
      (Dec 1 (-2), \<lparr>cfg_amount = 4, cfg_price = 2, cfg_size = 2\<rparr>),
      (Dec 5 (-3), \<lparr>cfg_amount = 5, cfg_price = 3, cfg_size = 2\<rparr>),
      (Dec 25 (-4), \<lparr>cfg_amount = 6, cfg_price = 4, cfg_size = 2\<rparr>),
      (Dec 1 (-3), \<lparr>cfg_amount = 5, cfg_price = 3, cfg_size = 2\<rparr>),
      (Dec 1 (-4), \<lparr>cfg_amount = 6, cfg_price = 4, cfg_size = 2\<rparr>)]"

text \<open>\<open>min(_ROUNDING_BY_TICK)\<close>: the least key.\<close>

definition MIN_SUPPORTED_TICK_SIZE :: decimal where
  "MIN_SUPPORTED_TICK_SIZE =
     foldl (\<lambda>m k. if dcmp_le m k then m else k) (fst (hd rounding_by_tick)) (map fst (tl rounding_by_tick))"

text \<open>A dict lookup by a decimal compares numerically; a signaling NaN cannot be hashed.\<close>

definition resolve_rounding_config :: "decimal \<Rightarrow> rounding_config res" where
  "resolve_rounding_config tick_size =
     (if tick_size = DNaN True then Raise TypeError
      else case find (\<lambda>p. deq (fst p) tick_size) rounding_by_tick of
          None \<Rightarrow> Raise UnexpectedResponseError
        | Some p \<Rightarrow> Ok (snd p))"

definition validate_price_on_tick_grid :: "decimal \<Rightarrow> decimal \<Rightarrow> decimal res" where
  "validate_price_on_tick_grid price tick_size =
     bindE (decimal_places tick_size) (\<lambda>tick_decimals.
     bindE (dlt price tick_size) (\<lambda>below.
     bindE (if below then Ok True
            else bindE (dsub (dec_of_int 1) tick_size) (\<lambda>top. dlt top price)) (\<lambda>outside.
     if outside then Raise UserInputError
     else
       bindE (decimal_places price) (\<lambda>price_decimals.
       if tick_decimals < price_decimals then Raise UserInputError
       else
         bindE (dmod price tick_size) (\<lambda>remainder.
         if \<not> deq remainder (dec_of_int 0) then Raise UserInputError
         else Ok price)))))"

section \<open>Exchange contracts\<close>

definition resolve_exchange_address :: "environment_config \<Rightarrow> bool \<Rightarrow> string" where
  "resolve_exchange_address config neg_risk =
     (if neg_risk then neg_risk_exchange config else standard_exchange config)"

definition resolve_order_exchange_address :: "environment_config \<Rightarrow> string \<Rightarrow> bool \<Rightarrow> string res" where
  "resolve_order_exchange_address config asset_id neg_risk =
     bindE (is_v2_position_id asset_id) (\<lambda>v2.
     if v2 then Ok (exchange_v3 config) else Ok (resolve_exchange_address config neg_risk))"

section \<open>Positive numbers\<close>

lemma coerce_positive_ok:
  "coerce_positive_decimal v = Ok d \<Longrightarrow> is_finite d \<and> 0 < dval d"
  by (auto simp: coerce_positive_decimal_def dec_of_int_def split: if_splits)

section \<open>The tick grid\<close>

definition valid_tick :: "decimal \<Rightarrow> bool" where
  "valid_tick t \<longleftrightarrow> fits t \<and> dval t \<in> {1/10, 1/100, 1/200, 1/400, 1/1000, 1/10000}"

lemma min_supported_tick: "MIN_SUPPORTED_TICK_SIZE = Dec 1 (-4)"
  by (simp add: MIN_SUPPORTED_TICK_SIZE_def rounding_by_tick_def scale_to_def)

lemma valid_tick_cases:
  assumes "valid_tick t"
  obtains cfg where "resolve_rounding_config t = Ok cfg" "cfg_size cfg = 2"
    "cfg_amount cfg = cfg_price cfg + 2" "1 \<le> cfg_price cfg" "cfg_price cfg \<le> 4"
    "on_grid (cfg_price cfg) (dval t)"
proof -
  have f: "is_finite t" "t \<noteq> DNaN True" using assms by (cases t; simp add: valid_tick_def)+
  have n5: "\<exists>n. dval t * 1000 = of_int n" if "dval t * 200 = 1"
    using that by (intro exI [of _ 5]) simp
  have n25: "\<exists>n. dval t * 10000 = of_int n" if "dval t * 400 = 1"
    using that by (intro exI [of _ 25]) simp
  consider "dval t = 1/10" | "dval t = 1/100" | "dval t = 1/200" | "dval t = 1/400"
    | "dval t = 1/1000" | "dval t = 1/10000"
    using assms by (auto simp: valid_tick_def)
  then have "\<exists>cfg. resolve_rounding_config t = Ok cfg \<and> cfg_size cfg = 2
      \<and> cfg_amount cfg = cfg_price cfg + 2 \<and> 1 \<le> cfg_price cfg \<and> cfg_price cfg \<le> 4
      \<and> (\<exists>n. dval t = of_int n * p10 (- cfg_price cfg))"
    by cases (use f n5 n25 in \<open>simp_all add: resolve_rounding_config_def rounding_by_tick_def power_int_minus p10_nat\<close>)
  then show ?thesis using that by (auto simp: on_grid_def)
qed


text \<open>The price check on a supported tick: the price is a multiple of the tick in \<open>[tick, 1 - tick]\<close>.\<close>

lemma dsub_one_tick:
  assumes "valid_tick t"
  shows "\<exists>z. dsub (dec_of_int 1) t = Ok z \<and> is_finite z \<and> dval z = 1 - dval t"
proof -
  obtain c e where t: "t = Dec c e" using assms by (cases t) (auto simp: valid_tick_def)
  have f: "fits (Dec c e)" "p10 (- 6) \<le> dval (Dec c e)" "dval (Dec c e) \<le> 1"
    using assms unfolding valid_tick_def t by (auto simp: power_int_minus p10_nat)
  have b: "- 40 \<le> e" "e \<le> 0" using exponent_bounds [OF fits_wide [OF f(1)] f(2,3)] by auto
  have "\<bar>scale_to 1 0 e + scale_to (- c) e e\<bar> < 10 ^ 100"
  proof -
    have "\<bar>s - c\<bar> < 10 ^ 100" if "0 \<le> s" "s \<le> 10 ^ 40" "\<bar>c\<bar> < 10 ^ 28" for s :: int
      using that by simp
    moreover have "(10 :: int) ^ nat (- e) \<le> 10 ^ 40" using b by (intro power_increasing) auto
    ultimately show ?thesis using b f(1) by (simp add: scale_to_def)
  qed
  then have "is_ok (dfix (scale_to 1 0 e + scale_to (- c) e e) e)" using b by (intro dfix_total) auto
  then obtain z where z: "dsub (dec_of_int 1) t = Ok z"
    using b by (auto simp: dsub_def t dec_of_int_def is_ok_iff min_def Let_def)
  obtain cfg :: rounding_config where cfg: "on_grid (cfg_price cfg) (dval t)" "cfg_price cfg \<le> 4"
    by (rule valid_tick_cases [OF assms])
  have "on_grid 4 (1 - dval t)"
    using on_grid_diff [OF on_grid_Dec [of 0 4 1] on_grid_mono [OF cfg]] by simp
  then obtain n where n: "1 - dval t = of_int n * p10 (- 4)" by (auto simp: on_grid_def)
  have "0 \<le> 1 - dval t" "1 - dval t \<le> 1" using assms by (auto simp: valid_tick_def)
  then have "0 \<le> of_int n * p10 (- 4)" "of_int n * p10 (- 4) \<le> (1 :: rat)" by (simp_all only: n)
  then have "0 \<le> n" "n \<le> 10000" by (auto simp: power_int_minus p10_nat field_simps zero_le_mult_iff)
  then show ?thesis
    using z dsub_fits [of "dec_of_int 1" t n "- 4" z] assms n
    by (auto simp: valid_tick_def dec_of_int_def)
qed

lemma dmod_zero_iff:
  assumes p: "wide p" "p10 (- 6) \<le> dval p" "dval p \<le> 1"
    and t: "wide t" "p10 (- 6) \<le> dval t" "dval t \<le> 1"
  shows "\<exists>r. dmod p t = Ok r \<and> is_finite r
    \<and> (dval r = 0 \<longleftrightarrow> (\<exists>k::int. dval p = of_int k * dval t))"
proof -
  obtain a e b f where d: "p = Dec a e" "t = Dec b f" using p(1) t(1) by (cases p; cases t) auto
  have ae: "- 40 \<le> e" "e \<le> 0" "0 < a" using exponent_bounds [of a e] p by (simp_all add: d(1))
  have bf: "- 40 \<le> f" "f \<le> 0" "0 < b" using exponent_bounds [of b f] t by (simp_all add: d(2))
  define m where "m = min e f"
  define x where "x = scale_to a e m"
  define y where "y = scale_to b f m"
  have m: "m \<le> e" "m \<le> f" "- 40 \<le> m" "m \<le> 0" using ae bf by (auto simp: m_def)
  have xv: "of_int x * p10 m = dval p" and yv: "of_int y * p10 m = dval t"
    unfolding x_def y_def d dval.simps using m by (simp_all only: of_int_scale)
  have pos: "0 < x" "0 < y" using ae bf by (simp_all add: x_def y_def scale_to_def)
  have bound: "n \<le> 10 ^ 40" if "of_int n * p10 m = v" "v \<le> 1" for n :: int and v
  proof -
    have "of_int n * p10 m * p10 (- m) \<le> 1 * p10 40"
      using that m by (intro mult_mono p10_mono) auto
    moreover have "of_int n * p10 m * p10 (- m) = of_int n" using p10_minus [of m] by (simp add: mult.assoc mult.commute)
    ultimately have "(of_int n :: rat) \<le> of_int (10 ^ 40)" by (simp add: p10_nat)
    then show ?thesis by (simp only: of_int_le_iff)
  qed
  have le: "x \<le> 10 ^ 40" "y \<le> 10 ^ 40" using bound [OF xv p(3)] bound [OF yv t(3)] by auto
  have "of_int x * p10 m \<le> of_int (10 ^ 6 * y) * p10 m"
  proof -
    have "dval p \<le> 10 ^ 6 * dval t" using p(3) t(2) by (simp add: power_int_minus p10_nat)
    then show ?thesis by (simp only: xv [symmetric] yv [symmetric] of_int_mult mult.assoc) simp
  qed
  then have "x \<le> 10 ^ 6 * y" by (simp only: mult_le_cancel_right_pos [OF p10_pos] of_int_le_iff)
  then have "x div y \<le> 10 ^ 6 * y div y" using pos by (intro zdiv_mono1)
  then have q: "x div y < 10 ^ 28" using pos by simp
  have mod: "0 \<le> x mod y" "x mod y < y" using pos by simp_all
  have "\<bar>x mod y\<bar> < 10 ^ 100" using mod le by simp
  then have "is_ok (dfix (x mod y) m)" using m by (intro dfix_total) auto
  then obtain r where r: "dfix (x mod y) m = Ok r" by (auto simp: is_ok_iff)
  have fin: "is_finite r" "\<bar>dval r - of_int (x mod y) * p10 m\<bar> \<le> \<bar>of_int (x mod y) * p10 m\<bar> / 10 ^ 27"
    using dfix_close [OF r] m by (simp_all add: ctx_defs)
  have "dval r = 0 \<longleftrightarrow> x mod y = 0"
  proof
    assume "dval r = 0"
    then have "of_int (x mod y) * p10 m \<le> of_int (x mod y) * p10 m / 10 ^ 27"
      using fin(2) mod by (simp add: abs_mult)
    moreover have "v \<le> 0" if "v \<le> v / 10 ^ 27" for v :: rat using that by simp
    ultimately have "of_int (x mod y) * p10 m \<le> 0" by blast
    then show "x mod y = 0" using mod p10_pos [of m] by (simp add: mult_le_0_iff)
  qed (use fin(2) in simp)
  also have "\<dots> \<longleftrightarrow> (\<exists>k. x = k * y)" by (auto simp: mod_eq_0_iff_dvd dvd_def mult.commute)
  also have "\<dots> \<longleftrightarrow> (\<exists>k::int. dval p = of_int k * dval t)"
  proof (intro ex_cong1)
    fix k
    have "dval p = of_int k * dval t \<longleftrightarrow> of_int x * p10 m = of_int (k * y) * p10 m"
      by (simp only: xv yv of_int_mult mult.assoc)
    then show "x = k * y \<longleftrightarrow> dval p = of_int k * dval t"
      by (simp only: mult_cancel_right p10_nonzero of_int_eq_iff simp_thms)
  qed
  finally show ?thesis using r fin(1) pos ae bf q
    by (auto simp: d Let_def m_def [symmetric] x_def [symmetric] y_def [symmetric])
qed

definition on_tick_grid :: "decimal \<Rightarrow> decimal \<Rightarrow> bool" where
  "on_tick_grid t p \<longleftrightarrow> dval t \<le> dval p \<and> dval p \<le> 1 - dval t \<and> (\<exists>k::int. dval p = of_int k * dval t)"

lemma on_grid_of_int_mult: "on_grid k v \<Longrightarrow> on_grid k (of_int n * v)"
  using on_grid_mult [of 0 "of_int n" k v] on_gridI [of "of_int n" n 0] by simp

lemma validate_price_on_tick_grid_eq:
  assumes t: "valid_tick t" and p: "wide p"
  shows "validate_price_on_tick_grid p t = (if on_tick_grid t p then Ok p else Raise UserInputError)"
proof -
  have w: "wide t" "is_finite t" "is_finite p" using t p by (auto simp: valid_tick_def intro: wide_finite)
  have tv: "p10 (- 6) \<le> dval t" "dval t \<le> 1"
    using t by (auto simp: valid_tick_def power_int_minus p10_nat)
  obtain z where z: "dsub (dec_of_int 1) t = Ok z" "is_finite z" "dval z = 1 - dval t"
    using dsub_one_tick [OF t] by blast
  obtain td where td: "decimal_places t = Ok td" "0 \<le> td" "td \<le> td \<longleftrightarrow> on_grid td (dval t)"
    using decimal_places_wide [OF w(1)] by blast
  obtain pd where pd: "decimal_places p = Ok pd" "pd \<le> td \<longleftrightarrow> on_grid td (dval p)"
    using decimal_places_wide [OF p] td(2) by blast
  show ?thesis
  proof (cases "dval t \<le> dval p \<and> dval p \<le> 1 - dval t")
    case False
    then show ?thesis using z w td pd
      by (auto simp: validate_price_on_tick_grid_def on_tick_grid_def)
  next
    case True
    obtain r where r: "dmod p t = Ok r" "is_finite r"
        "dval r = 0 \<longleftrightarrow> (\<exists>k::int. dval p = of_int k * dval t)"
      using dmod_zero_iff [OF p _ _ w(1) tv] True tv by auto
    have places: "pd \<le> td" if "dval r = 0"
      using that r(3) td(3) pd(2) on_grid_of_int_mult by auto
    show ?thesis using True z w td pd r places
      by (auto simp: validate_price_on_tick_grid_def on_tick_grid_def not_less [symmetric]
          dec_of_int_def simp flip: r(3))
  qed
qed

end
