(* ===== verification/Market_Data.thy ===== *)
theory Market_Data imports Orders begin

text \<open>
  \<open>actions/orders/market_data.py\<close>: the responses of the endpoints that describe a market (tick
  size, negative risk, condition of a token, fees), decoded field by field. The HTTP client is the
  parameter \<open>get_json\<close>: it takes the path and the query and returns the decoded body.
\<close>

type_synonym 'w get_json = "string \<Rightarrow> (string \<times> string) list \<Rightarrow> ('w, pyval) eff"

record platform_fee_info =
  fee_rate :: decimal
  fee_exponent :: decimal

record market_info =
  mkt_fee_info :: platform_fee_info
  mkt_neg_risk :: bool
  mkt_tick_size :: decimal
  mkt_token_ids :: "string list"

record builder_fee_rates =
  maker_fee_rate :: decimal
  taker_fee_rate :: decimal

section \<open>Decoding\<close>

definition allowed_tick_sizes :: "decimal list" where
  "allowed_tick_sizes = [Dec 1 (-1), Dec 1 (-2), Dec 5 (-3), Dec 25 (-4), Dec 1 (-3), Dec 1 (-4)]"

text \<open>
  \<open>Decimal(str(raw))\<close> for an int or a float; \<open>str\<close> refuses an int of more than 4300 digits. The text
  of a float always parses.
\<close>

definition decimal_of_number :: "pyval \<Rightarrow> decimal res" where
  "decimal_of_number raw =
     (case raw of
        PInt n \<Rightarrow> if 4300 < ndigits \<bar>n\<bar> then Raise ValueError else Ok (dec_of_int n)
      | PFloat t \<Rightarrow> (case parse_decimal t of None \<Rightarrow> Raise InvalidOperation | Some d \<Rightarrow> Ok d)
      | _ \<Rightarrow> Raise TypeError)"

definition parse_tick_size_value :: "pyval \<Rightarrow> decimal res" where
  "parse_tick_size_value raw =
     bindE (case raw of
         PBool _ \<Rightarrow> Raise UnexpectedResponseError
       | PInt _ \<Rightarrow> decimal_of_number raw
       | PFloat _ \<Rightarrow> decimal_of_number raw
       | PStr s \<Rightarrow> (case parse_decimal s of None \<Rightarrow> Raise UnexpectedResponseError | Some d \<Rightarrow> Ok d)
       | _ \<Rightarrow> Raise UnexpectedResponseError)
     (\<lambda>value.
       if value = DNaN True then Raise TypeError
       else if \<not> list_ex (deq value) allowed_tick_sizes then Raise UnexpectedResponseError
       else Ok value)"

definition parse_tick_size :: "pyval \<Rightarrow> decimal res" where
  "parse_tick_size data =
     (case data of
        PDict d \<Rightarrow> parse_tick_size_value (dict_get ''minimum_tick_size'' d)
      | _ \<Rightarrow> Raise UnexpectedResponseError)"

definition parse_neg_risk :: "pyval \<Rightarrow> bool res" where
  "parse_neg_risk data =
     (case data of
        PDict d \<Rightarrow> (case dict_get ''neg_risk'' d of PBool b \<Rightarrow> Ok b | _ \<Rightarrow> Raise UnexpectedResponseError)
      | _ \<Rightarrow> Raise UnexpectedResponseError)"

definition parse_condition_by_token :: "pyval \<Rightarrow> string res" where
  "parse_condition_by_token data =
     (case data of
        PDict d \<Rightarrow>
          (case dict_get ''condition_id'' d of
             PStr raw \<Rightarrow>
               if raw = [] then Raise UnexpectedResponseError
               else (case validate_condition_id (PStr raw) of
                       Inl ValueError \<Rightarrow> Raise UnexpectedResponseError
                     | r \<Rightarrow> r)
           | _ \<Rightarrow> Raise UnexpectedResponseError)
      | _ \<Rightarrow> Raise UnexpectedResponseError)"

definition coerce_decimal :: "pyval \<Rightarrow> decimal res" where
  "coerce_decimal value =
     (case value of
        PNone \<Rightarrow> Ok (dec_of_int 0)
      | PBool _ \<Rightarrow> Raise UnexpectedResponseError
      | PInt _ \<Rightarrow> decimal_of_number value
      | PFloat _ \<Rightarrow> decimal_of_number value
      | PStr s \<Rightarrow> (case parse_decimal s of None \<Rightarrow> Raise UnexpectedResponseError | Some d \<Rightarrow> Ok d)
      | _ \<Rightarrow> Raise UnexpectedResponseError)"

definition parse_platform_fee_info :: "pyval \<Rightarrow> platform_fee_info res" where
  "parse_platform_fee_info data =
     (case data of
        PDict payload \<Rightarrow>
          (case dict_get ''fd'' payload of
             PNone \<Rightarrow> Ok \<lparr>fee_rate = dec_of_int 0, fee_exponent = dec_of_int 0\<rparr>
           | PDict fee \<Rightarrow>
               bindE (coerce_decimal (dict_get ''r'' fee)) (\<lambda>r.
               bindE (coerce_decimal (dict_get ''e'' fee)) (\<lambda>e.
               Ok \<lparr>fee_rate = r, fee_exponent = e\<rparr>))
           | _ \<Rightarrow> Raise UnexpectedResponseError)
      | _ \<Rightarrow> Raise UnexpectedResponseError)"

text \<open>One element of the array \<open>t\<close> of a market.\<close>

definition parse_market_token :: "pyval \<Rightarrow> string res" where
  "parse_market_token raw_token =
     (case raw_token of
        PDict d \<Rightarrow>
          (case dict_get ''t'' d of
             PStr s \<Rightarrow> if s = [] then Raise UnexpectedResponseError else Ok s
           | _ \<Rightarrow> Raise UnexpectedResponseError)
      | _ \<Rightarrow> Raise UnexpectedResponseError)"

definition parse_market_info :: "pyval \<Rightarrow> market_info res" where
  "parse_market_info data =
     (case data of
        PDict payload \<Rightarrow>
          bindE (case map_of payload ''nr'' of
                   None \<Rightarrow> Ok False
                 | Some (PBool b) \<Rightarrow> Ok b
                 | Some _ \<Rightarrow> Raise UnexpectedResponseError) (\<lambda>raw_neg_risk.
          bindE (case dict_get ''t'' payload of
                   PList ts \<Rightarrow> traverseE parse_market_token ts
                 | _ \<Rightarrow> Raise UnexpectedResponseError) (\<lambda>ids.
          bindE (parse_platform_fee_info data) (\<lambda>fee.
          bindE (parse_tick_size_value (dict_get ''mts'' payload)) (\<lambda>tick.
          Ok \<lparr>mkt_fee_info = fee, mkt_neg_risk = raw_neg_risk, mkt_tick_size = tick, mkt_token_ids = remdups ids\<rparr>))))
      | _ \<Rightarrow> Raise UnexpectedResponseError)"

text \<open>\<open>_validate_condition_id\<close>, and the same steps written out in \<open>fetch_platform_fee_info\<close>.\<close>

definition validate_condition_id_input :: "pyval \<Rightarrow> string res" where
  "validate_condition_id_input condition_id =
     bindE (require_nonempty condition_id) (\<lambda>validated.
     case validate_condition_id (PStr validated) of
       Inl ValueError \<Rightarrow> Raise UserInputError
     | r \<Rightarrow> r)"

text \<open>
  \<open>BuilderFeeRates._scale_bps\<close> and the two required \<open>Decimal\<close> fields: a numeric or textual rate in
  basis points is divided by 10000. A field is looked up under its alias and then under its own
  name, which is not scaled. The rest of the validation, that of pydantic, is the parameter
  \<open>as_decimal\<close>; every failure surfaces as an unexpected response.
\<close>

definition scale_bps :: "pyval \<Rightarrow> pyval res" where
  "scale_bps raw =
     bindE (case raw of
         PInt _ \<Rightarrow> map_ok Some (decimal_of_number raw)
       | PFloat _ \<Rightarrow> map_ok Some (decimal_of_number raw)
       | PStr s \<Rightarrow> (case parse_decimal s of None \<Rightarrow> Raise ValueError | Some d \<Rightarrow> Ok (Some d))
       | _ \<Rightarrow> Ok None)
     (\<lambda>number. case number of
         None \<Rightarrow> Ok raw
       | Some d \<Rightarrow>
           (case ddiv d (Dec 10000 0) of
              Inr q \<Rightarrow> Ok (PDecimal q)
            | Inl _ \<Rightarrow> Raise ValueError))"

definition fee_rate_field :: "(pyval \<Rightarrow> decimal res) \<Rightarrow> (string \<times> pyval) list \<Rightarrow> string \<Rightarrow> string \<Rightarrow> decimal res" where
  "fee_rate_field as_decimal d alias name =
     (case map_of d alias of
        Some raw \<Rightarrow> bindE (scale_bps raw) as_decimal
      | None \<Rightarrow> (case map_of d name of Some raw \<Rightarrow> as_decimal raw | None \<Rightarrow> Raise ValueError))"

definition parse_builder_fee_rates :: "(pyval \<Rightarrow> decimal res) \<Rightarrow> pyval \<Rightarrow> builder_fee_rates res" where
  "parse_builder_fee_rates as_decimal data =
     (case data of
        PDict d \<Rightarrow>
          (case bindE (fee_rate_field as_decimal d ''builder_maker_fee_rate_bps'' ''maker'') (\<lambda>m.
                bindE (fee_rate_field as_decimal d ''builder_taker_fee_rate_bps'' ''taker'') (\<lambda>t.
                Ok \<lparr>maker_fee_rate = m, taker_fee_rate = t\<rparr>)) of
             Inl _ \<Rightarrow> Raise UnexpectedResponseError
           | r \<Rightarrow> r)
      | _ \<Rightarrow> Raise UnexpectedResponseError)"

section \<open>Requests\<close>

definition fetch_tick_size :: "'w get_json \<Rightarrow> pyval \<Rightarrow> ('w, decimal) eff" where
  "fetch_tick_size get_json token_id =
     bindS (liftS (require_nonempty token_id)) (\<lambda>validated.
     bindS (get_json ''/tick-size'' [(''token_id'', validated)]) (\<lambda>data.
     liftS (parse_tick_size data)))"

definition fetch_neg_risk :: "'w get_json \<Rightarrow> pyval \<Rightarrow> ('w, bool) eff" where
  "fetch_neg_risk get_json token_id =
     bindS (liftS (require_nonempty token_id)) (\<lambda>validated.
     bindS (get_json ''/neg-risk'' [(''token_id'', validated)]) (\<lambda>data.
     liftS (parse_neg_risk data)))"

definition resolve_condition_by_token :: "'w get_json \<Rightarrow> pyval \<Rightarrow> ('w, string) eff" where
  "resolve_condition_by_token get_json token_id =
     bindS (liftS (require_nonempty token_id)) (\<lambda>validated.
     bindS (get_json (''/markets-by-token/'' @ validated) []) (\<lambda>data.
     liftS (parse_condition_by_token data)))"

definition fetch_platform_fee_info :: "'w get_json \<Rightarrow> pyval \<Rightarrow> ('w, platform_fee_info) eff" where
  "fetch_platform_fee_info get_json condition_id =
     bindS (liftS (validate_condition_id_input condition_id)) (\<lambda>validated.
     bindS (get_json (''/clob-markets/'' @ validated) []) (\<lambda>data.
     liftS (parse_platform_fee_info data)))"

definition fetch_market_info :: "'w get_json \<Rightarrow> pyval \<Rightarrow> ('w, market_info) eff" where
  "fetch_market_info get_json condition_id =
     bindS (liftS (validate_condition_id_input condition_id)) (\<lambda>validated.
     bindS (get_json (''/clob-markets/'' @ validated) []) (\<lambda>data.
     liftS (parse_market_info data)))"

definition fetch_builder_fee_rates ::
  "(pyval \<Rightarrow> decimal res) \<Rightarrow> 'w get_json \<Rightarrow> pyval \<Rightarrow> ('w, builder_fee_rates) eff" where
  "fetch_builder_fee_rates as_decimal get_json builder_code =
     bindS (liftS (validate_builder_code builder_code)) (\<lambda>validated.
     if validated = BYTES32_ZERO then failS UserInputError
     else
       bindS (tryS (get_json (''/fees/builder-fees/'' @ validated) [])
                (\<lambda>e. case e of
                    RequestRejectedError status _ _ _ \<Rightarrow>
                      failS (if status = 404 then UserInputError else e)
                  | _ \<Rightarrow> failS e)) (\<lambda>data.
       liftS (parse_builder_fee_rates as_decimal data)))"

section \<open>A market that decodes has a supported tick\<close>

lemma parse_tick_size_value_ok:
  assumes "parse_tick_size_value raw = Ok d"
  shows "is_finite d \<and> dval d \<in> {1/10, 1/100, 1/200, 1/400, 1/1000, 1/10000}"
proof -
  have "\<exists>a\<in>set allowed_tick_sizes. deq d a"
    using assms by (auto simp: parse_tick_size_value_def list_ex_iff split: if_splits)
  then obtain a where a: "a \<in> set allowed_tick_sizes" "deq d a" by blast
  have "is_finite d" using a by (cases d) (auto simp: allowed_tick_sizes_def deq_def)
  moreover have "dval a \<in> {1/10, 1/100, 1/200, 1/400, 1/1000, 1/10000}"
    using a(1) by (auto simp: allowed_tick_sizes_def power_int_minus p10_nat)
  moreover have "is_finite a" using a(1) by (auto simp: allowed_tick_sizes_def)
  ultimately show ?thesis using a(2) by simp
qed

lemma parse_tick_size_value_valid:
  "parse_tick_size_value raw = Ok d \<Longrightarrow> fits d \<Longrightarrow> valid_tick d"
  using parse_tick_size_value_ok by (simp add: valid_tick_def)

definition market_ok :: "market_info \<Rightarrow> bool" where
  "market_ok m \<longleftrightarrow> is_finite (mkt_tick_size m)
     \<and> dval (mkt_tick_size m) \<in> {1/10, 1/100, 1/200, 1/400, 1/1000, 1/10000}
     \<and> distinct (mkt_token_ids m) \<and> [] \<notin> set (mkt_token_ids m)"

lemma market_ok_tick: "market_ok m \<Longrightarrow> fits (mkt_tick_size m) \<Longrightarrow> valid_tick (mkt_tick_size m)"
  by (simp add: market_ok_def valid_tick_def)

lemma parse_market_info_ok:
  assumes "parse_market_info data = Ok m"
  shows "market_ok m"
proof -
  have tok: "parse_market_token x = Ok s \<Longrightarrow> s \<noteq> []" for x s
    by (auto simp: parse_market_token_def split: pyval.splits if_splits)
  have "traverseE parse_market_token ts = Ok ids \<Longrightarrow> [] \<notin> set ids" for ts ids
    by (induction ts arbitrary: ids) (auto dest: tok)
  then show ?thesis using assms
    by (auto simp: parse_market_info_def market_ok_def split: pyval.splits dest!: parse_tick_size_value_ok)
qed

section \<open>Where the order code gets its markets\<close>

text \<open>
  The order routines obtain markets through two calls, one that may answer from a cache and one
  that asks the server. What they rely on: the market contains the requested asset and decodes,
  it is the one that the source then holds for that asset, and each call leaves the source usable.
\<close>

type_synonym 'w market_source = "string \<Rightarrow> ('w, market_info) eff"

locale market_provider =
  fixes usable :: "'w \<Rightarrow> bool"
    and resolve :: "'w market_source"
    and refetch :: "'w market_source"
    and current :: "'w \<Rightarrow> string \<Rightarrow> market_info option"
  assumes resolve_spec: "usable w \<Longrightarrow> resolve a w = (r, w') \<Longrightarrow>
      usable w' \<and> (\<forall>m. r = Ok m \<longrightarrow> market_ok m \<and> a \<in> set (mkt_token_ids m) \<and> current w' a = Some m)"
    and refetch_spec: "usable w \<Longrightarrow> refetch a w = (r, w') \<Longrightarrow>
      usable w' \<and> (\<forall>m. r = Ok m \<longrightarrow> market_ok m \<and> a \<in> set (mkt_token_ids m) \<and> current w' a = Some m)"

end
