(* ===== verification/Limit_Order.thy ===== *)
theory Limit_Order imports Market_Data begin

text \<open>
  \<open>actions/orders/limit.py\<close>: validation of the parameters of a limit order, and the order draft with
  the amounts the exchange contract sees. The metadata cache is reached through two parameters,
  \<open>resolve_market\<close> and \<open>fetch_current_market\<close>, instantiated in \<open>Metadata_Cache\<close>.
\<close>

section \<open>Definitions\<close>

record limit_params =
  lp_asset_id :: string
  lp_price :: decimal
  lp_size :: decimal
  lp_side :: order_side
  lp_post_only :: bool
  lp_expiration :: "int option"
  lp_builder_code :: "string option"

definition MIN_EXPIRATION_BUFFER_S :: int where "MIN_EXPIRATION_BUFFER_S = 180"

definition validate_side :: "pyval \<Rightarrow> order_side res" where
  "validate_side side =
     (if side = PStr ''BUY'' then Ok BUY
      else if side = PStr ''SELL'' then Ok SELL else Raise UserInputError)"

text \<open>\<open>validate_builder_code(builder_code) if builder_code is not None else None\<close>\<close>

definition validate_optional_builder :: "pyval \<Rightarrow> string option res" where
  "validate_optional_builder builder_code =
     (if builder_code = PNone then Ok None else map_ok Some (validate_builder_code builder_code))"

text \<open>\<open>now\<close> is \<open>int(time.time())\<close>.\<close>

definition validate_expiration :: "int \<Rightarrow> pyval \<Rightarrow> int option res" where
  "validate_expiration now expiration =
     (case expiration of
        PNone \<Rightarrow> Ok None
      | PInt e \<Rightarrow>
          if e < 0 then Raise UserInputError
          else if e < now + MIN_EXPIRATION_BUFFER_S then Raise UserInputError
          else Ok (Some e)
      | _ \<Rightarrow> Raise UserInputError)"

definition validate_limit_order_params ::
  "int \<Rightarrow> pyval \<Rightarrow> pyval \<Rightarrow> pyval \<Rightarrow> pyval \<Rightarrow> pyval \<Rightarrow> pyval \<Rightarrow> pyval \<Rightarrow> pyval \<Rightarrow> limit_params res" where
  "validate_limit_order_params now asset_id token_id price quantity side post_only expiration builder_code =
     bindE (resolve_asset_id asset_id token_id) (\<lambda>validated_asset.
     bindE (coerce_positive_decimal price) (\<lambda>validated_price.
     bindE (coerce_positive_decimal quantity) (\<lambda>validated_size.
     bindE (validate_side side) (\<lambda>validated_side.
     bindE (case post_only of PBool b \<Rightarrow> Ok b | _ \<Rightarrow> Raise UserInputError) (\<lambda>validated_post_only.
     bindE (validate_expiration now expiration) (\<lambda>validated_expiration.
     bindE (validate_optional_builder builder_code) (\<lambda>validated_builder.
     Ok \<lparr>lp_asset_id = validated_asset, lp_price = validated_price, lp_size = validated_size,
         lp_side = validated_side, lp_post_only = validated_post_only,
         lp_expiration = validated_expiration, lp_builder_code = validated_builder\<rparr>)))))))"

definition round_amount :: "decimal \<Rightarrow> int \<Rightarrow> decimal res" where
  "round_amount value amount_decimals =
     bindE (decimal_places value) (\<lambda>places.
     if places \<le> amount_decimals then Ok value
     else
       bindE (round_up value (amount_decimals + 4)) (\<lambda>value.
       bindE (decimal_places value) (\<lambda>places.
       if amount_decimals < places then round_down value amount_decimals else Ok value)))"

definition compute_limit_order_amounts ::
  "decimal \<Rightarrow> decimal \<Rightarrow> order_side \<Rightarrow> decimal \<Rightarrow> (int \<times> int) res" where
  "compute_limit_order_amounts price quantity side tick_size =
     bindE (resolve_rounding_config tick_size) (\<lambda>config.
     if side = BUY then
       bindE (round_down quantity (cfg_size config)) (\<lambda>taker.
       bindE (dmul taker price) (\<lambda>product.
       bindE (round_amount product (cfg_amount config)) (\<lambda>maker.
       bindE (parse_amount maker) (\<lambda>offered.
       bindE (parse_amount taker) (\<lambda>requested.
       Ok (offered, requested))))))
     else
       bindE (round_down quantity (cfg_size config)) (\<lambda>maker.
       bindE (dmul maker price) (\<lambda>product.
       bindE (round_amount product (cfg_amount config)) (\<lambda>taker.
       bindE (parse_amount maker) (\<lambda>offered.
       bindE (parse_amount taker) (\<lambda>requested.
       Ok (offered, requested)))))))"

definition build_limit_order_draft ::
  "order_context \<Rightarrow> limit_params \<Rightarrow> decimal \<Rightarrow> market_info \<Rightarrow> order_draft res" where
  "build_limit_order_draft ctx params price metadata =
     bindE (compute_limit_order_amounts price (lp_size params) (lp_side params) (mkt_tick_size metadata))
       (\<lambda>(offered, requested).
     bindE (resolve_order_exchange_address (environment_config_of ctx) (lp_asset_id params)
         (mkt_neg_risk metadata)) (\<lambda>address.
     Ok \<lparr>draft_chain_id = chain_id (environment_config_of ctx),
         draft_exchange_address = address,
         draft_expiration = (case lp_expiration params of None \<Rightarrow> 0 | Some e \<Rightarrow> e),
         draft_funder_address = ctx_wallet ctx,
         offered_amount = offered,
         draft_order_type = (case lp_expiration params of None \<Rightarrow> GTC | Some _ \<Rightarrow> GTD),
         draft_side = lp_side params,
         draft_signer = ctx_signer_address ctx,
         requested_amount = requested,
         draft_asset_id = lp_asset_id params,
         draft_builder_code = lp_builder_code params\<rparr>))"

definition prepare_limit_order_draft ::
  "'w market_source \<Rightarrow> 'w market_source \<Rightarrow> order_context \<Rightarrow> limit_params \<Rightarrow> ('w, order_draft) eff" where
  "prepare_limit_order_draft resolve_market fetch_current_market ctx params =
     bindS (resolve_market (lp_asset_id params)) (\<lambda>metadata.
     bindS (tryS
         (bindS (liftS (validate_price_on_tick_grid (lp_price params) (mkt_tick_size metadata))) (\<lambda>price.
          pureS (price, metadata)))
         (\<lambda>e. if e = UserInputError then
                bindS (fetch_current_market (lp_asset_id params)) (\<lambda>metadata.
                bindS (liftS (validate_price_on_tick_grid (lp_price params) (mkt_tick_size metadata))) (\<lambda>price.
                pureS (price, metadata)))
              else failS e))
       (\<lambda>(price, metadata).
     liftS (build_limit_order_draft ctx params price metadata)))"

section \<open>Validation\<close>

lemma validate_limit_order_params_ok:
  assumes "validate_limit_order_params now a t price sz side po ex bc = Ok p"
  shows "is_finite (lp_price p)" "0 < dval (lp_price p)" "is_finite (lp_size p)" "0 < dval (lp_size p)"
    "lp_asset_id p \<noteq> []"
    "\<And>e. lp_expiration p = Some e \<Longrightarrow> now + 180 \<le> e \<and> 0 \<le> e"
    "\<And>b. lp_builder_code p = Some b \<Longrightarrow> length b = 66"
proof -
  have ex: "validate_expiration now ex = Ok (Some e) \<Longrightarrow> now + 180 \<le> e \<and> 0 \<le> e" for e
    by (auto simp: validate_expiration_def MIN_EXPIRATION_BUFFER_S_def split: pyval.splits if_splits)
  have bc: "validate_optional_builder bc = Ok (Some b) \<Longrightarrow> length b = 66" for b
    by (auto simp: validate_optional_builder_def dest!: builder_code_length split: if_splits)
  show "is_finite (lp_price p)" "0 < dval (lp_price p)" "is_finite (lp_size p)" "0 < dval (lp_size p)"
    "lp_asset_id p \<noteq> []"
    using assms by (auto simp: validate_limit_order_params_def
        resolve_asset_id_ok dest!: coerce_positive_ok)
  show "\<And>e. lp_expiration p = Some e \<Longrightarrow> now + 180 \<le> e \<and> 0 \<le> e"
    using assms by (auto simp: validate_limit_order_params_def dest: ex)
  show "\<And>b. lp_builder_code p = Some b \<Longrightarrow> length b = 66"
    using assms by (auto simp: validate_limit_order_params_def dest: bc)
qed

section \<open>Amounts\<close>

text \<open>A number that already has few enough decimals is left alone.\<close>

lemma round_amount_id: "wide x \<Longrightarrow> on_grid k (dval x) \<Longrightarrow> 0 \<le> k \<Longrightarrow> round_amount x k = Ok x"
  using decimal_places_wide [of x] by (auto simp: round_amount_def)

lemma tick_price_grid:
  assumes "on_grid k (dval t)" "on_tick_grid t p"
  shows "on_grid k (dval p)"
  using assms on_grid_of_int_mult [of k "dval t"] by (auto simp: on_tick_grid_def)

text \<open>The size keeps two decimals; its product with a price on the grid needs no rounding.\<close>

lemma shares_rounding:
  assumes s: "wide s" "0 \<le> dval s" "dval s < 10 ^ 20"
  shows "\<exists>q. round_down s 2 = Ok q \<and> wide q \<and> (fits s \<longrightarrow> fits q)
    \<and> dval q = of_int \<lfloor>dval s * 100\<rfloor> / 100 \<and> parse_amount q = Ok (10000 * \<lfloor>dval s * 100\<rfloor>)"
proof -
  define n where "n = \<lfloor>dval s * 100\<rfloor>"
  have "\<bar>dval s\<bar> * p10 2 < 10 ^ 27" using s by (simp add: p10_nat)
  then obtain q where q: "round_down s 2 = Ok q"
    using round_places_total [OF s(1), of 2 ROUND_FLOOR] by (auto simp: round_down_def is_ok_iff)
  have w: "wide q" "fits s \<longrightarrow> fits q" and v: "dval q = of_int n / 100"
    using round_down_wide [OF s(1) _ _ q]
    by (simp_all add: n_def power_int_minus p10_nat field_simps)
  have n: "0 \<le> n" "of_int n \<le> dval s * 100" using s(2) by (simp_all add: n_def)
  have "parse_amount q = Ok (10000 * n)"
  proof (rule parse_amount_exact [OF w(1)])
    show "dval q * 10 ^ 6 = of_int (10000 * n)" by (simp add: v)
    have "(of_int n :: rat) < of_int (10 ^ 22)" using n(2) s(3) by simp
    then have "n < 10 ^ 22" by (simp only: of_int_less_iff)
    then show "\<bar>10000 * n\<bar> < 10 ^ 28" using n(1) by simp
  qed
  then show ?thesis using q w v by (simp add: n_def)
qed

lemma grid_product:
  assumes q: "fits q" "dval q = of_int n / 100" "0 \<le> n" "n < 10 ^ 17"
    and p: "fits p" "on_grid k (dval p)" "0 \<le> dval p" "dval p \<le> 1" "1 \<le> k" "k \<le> 4"
  shows "\<exists>z col. dmul q p = Ok z \<and> round_amount z (k + 2) = Ok z \<and> parse_amount z = Ok col
    \<and> of_int col = of_int (10000 * n) * dval p"
proof -
  obtain z where z: "dmul q p = Ok z" using dmul_total [of q p] q p by (auto simp: is_ok_iff)
  obtain m where m: "dval p = of_int m * p10 (- k)" using p(2) by (auto simp: on_grid_def)
  have q100: "dval q = of_int n * p10 (- 2)" using q(2) by (simp add: power_int_minus p10_nat)
  have prod: "dval q * dval p = of_int (n * m) * p10 (- (k + 2))"
    unfolding q100 m using p10_add [of "- k" "- 2"] by (simp add: algebra_simps)
  have mk: "of_int m = dval p * p10 k" unfolding m using p10_minus [of k] by (simp add: mult.assoc)
  have "0 \<le> (of_int m :: rat)" unfolding mk using p(3) by simp
  moreover have "of_int m \<le> 1 * p10 4" unfolding mk using p by (intro mult_mono p10_mono) auto
  ultimately have mb: "0 \<le> m" "m \<le> 10 ^ 4" by (simp_all add: p10_nat)
  have "n * m \<le> n * 10 ^ 4" using q(3) mb by (intro mult_left_mono) auto
  moreover have "0 \<le> n * m" using q(3) mb by simp
  ultimately have nm: "\<bar>n * m\<bar> < 10 ^ 28" using q(4) by simp
  have zv: "is_finite z" "dval z = of_int (n * m) * p10 (- (k + 2))"
    using dmul_representable [OF fits_wide [OF q(1)] p(1) z prod nm] prod by simp_all
  have zw: "wide z" by (rule dmul_wide [OF q(1) p(1) z])
  have g: "on_grid (k + 2) (dval z)" by (rule on_gridI [OF zv(2)])
  have "\<bar>dval z\<bar> < 10 ^ 22"
  proof -
    have "dval z = of_int n / 100 * dval p" by (simp only: zv(2) prod [symmetric] q(2))
    moreover have "0 \<le> of_int n / 100 * dval p" using q(3) p(3) by simp
    ultimately have "\<bar>dval z\<bar> = of_int n / 100 * dval p" by (simp only: abs_of_nonneg)
    also have "\<dots> \<le> of_int n / 100 * 1" using q(3) p(4) by (intro mult_left_mono) auto
    also have "\<dots> < 10 ^ 22" using q(4) by simp
    finally show ?thesis .
  qed
  then obtain col where "parse_amount z = Ok col" "of_int col = dval z * 10 ^ 6"
    using parse_amount_on_grid [OF zw on_grid_mono [OF g]] p(6) by auto
  moreover have "dval z * 10 ^ 6 = of_int (10000 * n) * dval p"
    by (simp only: zv(2) prod [symmetric] q(2)) simp
  ultimately show ?thesis using z round_amount_id [OF zw g] p(5) by auto
qed

lemma limit_amounts:
  assumes "valid_tick t" "fits p" "on_tick_grid t p" "fits s" "0 < dval s" "dval s < 10 ^ 15"
  shows "\<exists>col. compute_limit_order_amounts p s side t =
      Ok (if side = BUY then (col, 10000 * \<lfloor>dval s * 100\<rfloor>) else (10000 * \<lfloor>dval s * 100\<rfloor>, col))
    \<and> of_int col = of_int (10000 * \<lfloor>dval s * 100\<rfloor>) * dval p"
proof -
  obtain cfg where cfg: "resolve_rounding_config t = Ok cfg" "cfg_size cfg = 2"
      "cfg_amount cfg = cfg_price cfg + 2" "1 \<le> cfg_price cfg" "cfg_price cfg \<le> 4"
      "on_grid (cfg_price cfg) (dval t)"
    by (rule valid_tick_cases [OF assms(1)])
  obtain q where q: "round_down s 2 = Ok q" "fits q" "dval q = of_int \<lfloor>dval s * 100\<rfloor> / 100"
      "parse_amount q = Ok (10000 * \<lfloor>dval s * 100\<rfloor>)"
    using shares_rounding [of s] assms(4-6) by auto
  have "0 \<le> \<lfloor>dval s * 100\<rfloor>" "\<lfloor>dval s * 100\<rfloor> < 10 ^ 17"
    using assms(5,6) by (simp_all add: floor_less_iff)
  moreover have "0 \<le> dval t" using assms(1) by (auto simp: valid_tick_def)
  then have "0 \<le> dval p" "dval p \<le> 1" using assms(3) by (auto simp: on_tick_grid_def)
  ultimately obtain z col where "dmul q p = Ok z" "round_amount z (cfg_price cfg + 2) = Ok z"
      "parse_amount z = Ok col" "of_int col = of_int (10000 * \<lfloor>dval s * 100\<rfloor>) * dval p"
    using grid_product [OF q(2,3) _ _ assms(2) tick_price_grid [OF cfg(6) assms(3)]] cfg by metis
  then show ?thesis using cfg q by (simp add: compute_limit_order_amounts_def)
qed

section \<open>Preparation\<close>

lemma validate_price_returns: "validate_price_on_tick_grid p t = Ok q \<Longrightarrow> q = p"
  by (auto simp: validate_price_on_tick_grid_def split: if_splits)

context market_provider begin

text \<open>
  A prepared draft was built from the market that is then held for the asset: it contains the asset
  and its grid contains the price. The market held before is used unless its grid refuses the price.
\<close>

lemma prepare_limit_draft:
  assumes "prepare_limit_order_draft resolve refetch ctx params w = (Ok d, w')" "usable w"
  shows "usable w' \<and> (\<exists>m. current w' (lp_asset_id params) = Some m \<and> market_ok m \<and> lp_asset_id params \<in> set (mkt_token_ids m)
    \<and> validate_price_on_tick_grid (lp_price params) (mkt_tick_size m) = Ok (lp_price params)
    \<and> build_limit_order_draft ctx params (lp_price params) m = Ok d)"
proof -
  let ?a = "lp_asset_id params" and ?p = "lp_price params"
  obtain m w1 where 1: "resolve ?a w = (Ok m, w1)"
    using assms(1) by (auto simp: prepare_limit_order_draft_def bindS_eq_Ok)
  note ok1 = resolve_spec [OF assms(2) 1]
  show ?thesis
  proof (cases "validate_price_on_tick_grid ?p (mkt_tick_size m)")
    case (Inr q)
    then show ?thesis using assms(1) 1 ok1 validate_price_returns [OF Inr]
      by (auto simp: prepare_limit_order_draft_def eff_simps)
  next
    case (Inl e)
    then have e: "e = UserInputError" using assms(1) 1
      by (auto simp: prepare_limit_order_draft_def eff_simps split: if_splits)
    then obtain m2 w2 where 2: "refetch ?a w1 = (Ok m2, w2)"
      using assms(1) 1 Inl
      by (auto simp: prepare_limit_order_draft_def eff_simps split: prod.splits sum.splits)
    obtain q where q: "validate_price_on_tick_grid ?p (mkt_tick_size m2) = Ok q"
      using assms(1) 1 2 Inl e
      by (cases "validate_price_on_tick_grid ?p (mkt_tick_size m2)")
        (auto simp: prepare_limit_order_draft_def eff_simps)
    show ?thesis using assms(1) 1 2 Inl e q validate_price_returns [OF q] refetch_spec [OF _ 2] ok1
      by (auto simp: prepare_limit_order_draft_def eff_simps)
  qed
qed

text \<open>A market whose grid accepts the price is not asked for twice.\<close>

lemma prepare_limit_cached:
  assumes "resolve (lp_asset_id params) w = (Ok m, w')"
    and "validate_price_on_tick_grid (lp_price params) (mkt_tick_size m) = Ok p"
  shows "prepare_limit_order_draft resolve refetch ctx params w = (build_limit_order_draft ctx params p m, w')"
  using assms by (simp add: prepare_limit_order_draft_def eff_simps)

end

end
