(* ===== verification/Market_Estimate.thy ===== *)
theory Market_Estimate imports Market_Data begin

text \<open>
  \<open>actions/orders/estimate.py\<close>: the price at which a market order of a given amount is filled by
  the resting orders of a book. The decoding of the book (\<open>OrderBook.parse_response\<close>) is the
  parameter \<open>parse_book\<close>. \<open>bids\<close> ascend and \<open>asks\<close> descend in price: the best level is the last one.
\<close>

section \<open>Definitions\<close>

record order_book_level =
  level_price :: decimal
  level_size :: decimal

record order_book =
  ob_asset_id :: string
  ob_bids :: "order_book_level list"
  ob_asks :: "order_book_level list"
  ob_tick_size :: decimal
  ob_neg_risk :: bool

record resolved_market_price =
  rp_price :: decimal
  rp_tick_size :: decimal
  rp_neg_risk :: bool

definition validate_market_order_type :: "pyval \<Rightarrow> order_type res" where
  "validate_market_order_type ot =
     (if ot = PStr ''FAK'' then Ok FAK else if ot = PStr ''FOK'' then Ok FOK else Raise UserInputError)"

definition validate_estimate_inputs ::
  "pyval \<Rightarrow> pyval \<Rightarrow> pyval \<Rightarrow> pyval \<Rightarrow> pyval \<Rightarrow> pyval \<Rightarrow> (string \<times> decimal) res" where
  "validate_estimate_inputs asset_id token_id side amount shares ot =
     bindE (resolve_asset_id asset_id token_id) (\<lambda>validated_asset.
     bindE (if side = PStr ''BUY'' then
              if amount = PNone then Raise UserInputError
              else if shares \<noteq> PNone then Raise UserInputError
              else coerce_positive_decimal amount
            else if side = PStr ''SELL'' then
              if shares = PNone then Raise UserInputError
              else if amount \<noteq> PNone then Raise UserInputError
              else coerce_positive_decimal shares
            else Raise UserInputError) (\<lambda>notional.
     bindE (validate_market_order_type ot) (\<lambda>_.
     Ok (validated_asset, notional))))"

text \<open>
  The loop over \<open>reversed(levels)\<close>: \<open>value\<close> is what a level adds, its cost for a BUY and its size for
  a SELL. It returns the price of the level at which the running total reaches the target.
\<close>

fun walk_levels ::
  "(order_book_level \<Rightarrow> decimal res) \<Rightarrow> decimal \<Rightarrow> decimal \<Rightarrow> order_book_level list \<Rightarrow> decimal option res" where
  "walk_levels value target cumulative [] = Ok None"
| "walk_levels value target cumulative (l # ls) =
     bindE (value l) (\<lambda>v.
     bindE (dadd cumulative v) (\<lambda>cumulative.
     bindE (dle target cumulative) (\<lambda>reached.
     if reached then Ok (Some (level_price l))
     else walk_levels value target cumulative ls)))"

definition level_cost :: "order_book_level \<Rightarrow> decimal res" where
  "level_cost l = dmul (level_size l) (level_price l)"

definition calculate_buy_market_price ::
  "order_book_level list \<Rightarrow> decimal \<Rightarrow> order_type \<Rightarrow> decimal res" where
  "calculate_buy_market_price asks amount ot =
     (if asks = [] then Raise InsufficientLiquidityError
      else bindE (walk_levels level_cost amount (dec_of_int 0) (rev asks)) (\<lambda>found.
        case found of
          Some price \<Rightarrow> Ok price
        | None \<Rightarrow>
            if ot = FOK then Raise InsufficientLiquidityError
            else Ok (level_price (hd asks))))"

definition calculate_sell_market_price ::
  "order_book_level list \<Rightarrow> decimal \<Rightarrow> order_type \<Rightarrow> decimal res" where
  "calculate_sell_market_price bids shares ot =
     (if bids = [] then Raise InsufficientLiquidityError
      else bindE (walk_levels (\<lambda>l. Ok (level_size l)) shares (dec_of_int 0) (rev bids)) (\<lambda>found.
        case found of
          Some price \<Rightarrow> Ok price
        | None \<Rightarrow>
            if ot = FOK then Raise InsufficientLiquidityError
            else Ok (level_price (hd bids))))"

text \<open>\<open>_resolve_market_price_context\<close>\<close>

definition price_context_of_book ::
  "order_book \<Rightarrow> string \<Rightarrow> order_side \<Rightarrow> decimal \<Rightarrow> order_type \<Rightarrow> resolved_market_price res" where
  "price_context_of_book book token_id side notional ot =
     (if ob_asset_id book \<noteq> token_id then Raise UnexpectedResponseError
      else
        bindE (if side = BUY then calculate_buy_market_price (ob_asks book) notional ot
               else calculate_sell_market_price (ob_bids book) notional ot) (\<lambda>price.
        bindE (dlt price (ob_tick_size book)) (\<lambda>below.
        bindE (if below then Ok True
               else bindE (dsub (dec_of_int 1) (ob_tick_size book)) (\<lambda>top. dlt top price)) (\<lambda>outside.
        if outside then Raise UnexpectedResponseError
        else Ok \<lparr>rp_price = price, rp_tick_size = ob_tick_size book, rp_neg_risk = ob_neg_risk book\<rparr>))))"

definition build_order_book_request :: "pyval \<Rightarrow> pyval \<Rightarrow> (string \<times> (string \<times> string) list) res" where
  "build_order_book_request asset_id token_id =
     map_ok (\<lambda>resolved. (''/book'', [(''token_id'', resolved)])) (resolve_asset_id asset_id token_id)"

definition resolve_market_price_context ::
  "(pyval \<Rightarrow> order_book res) \<Rightarrow> 'w get_json \<Rightarrow> string \<Rightarrow> order_side \<Rightarrow> decimal \<Rightarrow> order_type
     \<Rightarrow> ('w, resolved_market_price) eff" where
  "resolve_market_price_context parse_book get_json token_id side notional ot =
     bindS (liftS (build_order_book_request PNone (PStr token_id))) (\<lambda>(path, params).
     bindS (get_json path params) (\<lambda>data.
     bindS (liftS (parse_book data)) (\<lambda>book.
     liftS (price_context_of_book book token_id side notional ot))))"

definition resolve_estimated_market_price ::
  "(pyval \<Rightarrow> order_book res) \<Rightarrow> 'w get_json \<Rightarrow> string \<Rightarrow> order_side \<Rightarrow> decimal \<Rightarrow> order_type
     \<Rightarrow> ('w, decimal) eff" where
  "resolve_estimated_market_price parse_book get_json token_id side notional ot =
     bindS (resolve_market_price_context parse_book get_json token_id side notional ot) (\<lambda>c.
     pureS (rp_price c))"

definition estimate_market_price ::
  "(pyval \<Rightarrow> order_book res) \<Rightarrow> 'w get_json \<Rightarrow> pyval \<Rightarrow> pyval \<Rightarrow> pyval \<Rightarrow> pyval \<Rightarrow> pyval \<Rightarrow> pyval
     \<Rightarrow> ('w, decimal) eff" where
  "estimate_market_price parse_book get_json asset_id token_id side amount shares ot =
     bindS (liftS (validate_estimate_inputs asset_id token_id side amount shares ot))
       (\<lambda>(validated_token, notional).
     resolve_estimated_market_price parse_book get_json validated_token
       (if side = PStr ''BUY'' then BUY else SELL) notional
       (if ot = PStr ''FAK'' then FAK else FOK))"

section \<open>Sums without rounding\<close>

text \<open>
  A plain number is a nonnegative one with at most \<open>k\<close> digits after the point, none of them
  hidden in an exponent above zero: what an order book prints. Sums and products of plain numbers
  that stay below \<open>10 ^ 18\<close> are exact.
\<close>

fun plain :: "int \<Rightarrow> decimal \<Rightarrow> bool" where
  "plain k (Dec c e) = (- k \<le> e \<and> e \<le> 0 \<and> 0 \<le> c)"
| "plain k _ = False"

lemma plain_finite: "plain k x \<Longrightarrow> is_finite x"
  by (cases x) auto

lemma plain_nonneg: "plain k x \<Longrightarrow> 0 \<le> dval x"
  by (cases x) auto

lemma plain_mono: "plain j x \<Longrightarrow> j \<le> k \<Longrightarrow> plain k x"
  by (cases x) auto

lemma coefficient_bound:
  assumes "- 10 \<le> e" "e \<le> 0" "0 \<le> c" "of_int c * p10 e < 10 ^ 18"
  shows "c < 10 ^ 28"
proof -
  have "(of_int c :: rat) * p10 (- 10) \<le> of_int c * p10 e"
    using assms by (intro mult_left_mono p10_mono) auto
  then have "(of_int c :: rat) * p10 (- 10) < 10 ^ 18" using assms(4) by linarith
  then have "(of_int c :: rat) < of_int (10 ^ 28)" by (simp add: power_int_minus p10_nat field_simps)
  then show ?thesis by (simp only: of_int_less_iff)
qed

lemma dfix_plain:
  assumes "- 10 \<le> e" "e \<le> 0" "0 \<le> c" "of_int c * p10 e < 10 ^ 18"
  shows "dfix c e = Ok (Dec c e)"
  using dfix_wide [of c e] coefficient_bound [OF assms] assms by simp

lemma dadd_plain:
  assumes "plain 10 x" "plain 10 y" "dval x + dval y < 10 ^ 18"
  shows "\<exists>z. dadd x y = Ok z \<and> plain 10 z \<and> dval z = dval x + dval y"
proof -
  obtain a e b f where d: "x = Dec a e" "y = Dec b f" using assms by (cases x; cases y) auto
  define m where "m = min e f"
  have m: "- 10 \<le> m" "m \<le> 0" "m \<le> e" "m \<le> f" using assms by (auto simp: d m_def)
  define c where "c = scale_to a e m + scale_to b f m"
  have v: "of_int c * p10 m = dval x + dval y"
    using m by (simp add: c_def d distrib_right of_int_scale)
  have c: "0 \<le> c" using assms by (simp add: c_def d scale_to_def)
  have "dfix c m = Ok (Dec c m)" using assms(3) m c v by (intro dfix_plain) auto
  then have "dadd x y = Ok (Dec c m)" by (simp add: d c_def m_def Let_def)
  then show ?thesis using m c v by auto
qed

lemma dmul_plain:
  assumes "plain 6 x" "plain 4 y" "dval x * dval y < 10 ^ 18"
  shows "\<exists>z. dmul x y = Ok z \<and> plain 10 z \<and> dval z = dval x * dval y"
proof -
  obtain a e b f where d: "x = Dec a e" "y = Dec b f" using assms by (cases x; cases y) auto
  have v: "of_int (a * b) * p10 (e + f) = dval x * dval y" by (simp add: d p10_add)
  have "dfix (a * b) (e + f) = Ok (Dec (a * b) (e + f))"
  proof (rule dfix_plain)
    show "of_int (a * b) * p10 (e + f) < 10 ^ 18" using assms(3) by (simp only: v)
  qed (use assms in \<open>auto simp: d\<close>)
  then show ?thesis using assms by (simp add: d v [unfolded d, simplified])
qed

section \<open>The level that completes an order\<close>

text \<open>
  The specification: the first level, best first, at which the total contributed so far reaches
  the target.
\<close>

definition first_reaching ::
  "(order_book_level \<Rightarrow> rat) \<Rightarrow> rat \<Rightarrow> order_book_level list \<Rightarrow> order_book_level option" where
  "first_reaching value target ls =
     map_option (\<lambda>i. ls ! i)
       (find (\<lambda>i. target \<le> (\<Sum>l\<leftarrow>take (Suc i) ls. value l)) [0..<length ls])"

lemma find_map: "find P (map f xs) = map_option f (find (P \<circ> f) xs)"
  by (induction xs) auto

lemma first_reaching_Nil [simp]: "first_reaching v t [] = None"
  by (simp add: first_reaching_def)

lemma first_reaching_Cons:
  "first_reaching v t (l # ls) = (if t \<le> v l then Some l else first_reaching v (t - v l) ls)"
proof -
  have "[0..<length (l # ls)] = 0 # map Suc [0..<length ls]"
    by (simp add: upt_conv_Cons map_Suc_upt del: upt_Suc)
  moreover have "(\<lambda>i. t \<le> (\<Sum>l\<leftarrow>take (Suc i) (l # ls). v l)) \<circ> Suc
      = (\<lambda>i. t - v l \<le> (\<Sum>l\<leftarrow>take (Suc i) ls. v l))"
    by (auto simp: fun_eq_iff algebra_simps)
  ultimately show ?thesis
    by (simp add: first_reaching_def find_map option.map_comp comp_def del: upt_Suc)
qed

lemma first_reaching_None:
  "\<forall>l\<in>set ls. 0 \<le> v l \<Longrightarrow> ls \<noteq> [] \<Longrightarrow>
     first_reaching v t ls = None \<longleftrightarrow> (\<Sum>l\<leftarrow>ls. v l) < t"
proof (induction ls arbitrary: t)
  case (Cons l ls)
  have "0 \<le> (\<Sum>l\<leftarrow>ls. v l)" using Cons.prems by (intro sum_list_nonneg) auto
  then show ?case using Cons
    by (cases "ls = []") (auto simp: first_reaching_Cons algebra_simps not_le)
qed simp

lemma first_reaching_member: "first_reaching v t ls = Some l \<Longrightarrow> l \<in> set ls"
  by (auto simp: first_reaching_def find_Some_iff)

lemma walk_levels_eq:
  assumes "\<forall>l\<in>set ls. \<exists>v. value l = Ok v \<and> plain 10 v \<and> dval v = f l"
    and "plain 10 c" "is_finite target" "dval c + (\<Sum>l\<leftarrow>ls. f l) < 10 ^ 18"
  shows "walk_levels value target c ls
    = Ok (map_option level_price (first_reaching f (dval target - dval c) ls))"
  using assms
proof (induction ls arbitrary: c)
  case (Cons l ls)
  obtain v where v: "value l = Ok v" "plain 10 v" "dval v = f l" using Cons.prems(1) by auto
  have "\<forall>l\<in>set ls. 0 \<le> f l" using Cons.prems(1) plain_nonneg by fastforce
  then have "0 \<le> (\<Sum>l\<leftarrow>ls. f l)" by (intro sum_list_nonneg) auto
  then have "dval c + dval v < 10 ^ 18" using Cons.prems(4) v(3) by simp
  then obtain z where z: "dadd c v = Ok z" "plain 10 z" "dval z = dval c + f l"
    using dadd_plain [OF Cons.prems(2) v(2)] v(3) by auto
  have "walk_levels value target z ls
      = Ok (map_option level_price (first_reaching f (dval target - dval z) ls))"
    by (rule Cons.IH) (use Cons.prems z in auto)
  then show ?case using v z Cons.prems(3) plain_finite [OF z(2)]
    by (auto simp: first_reaching_Cons algebra_simps)
qed simp

text \<open>A book the exchange can print.\<close>

definition book_level :: "order_book_level \<Rightarrow> bool" where
  "book_level l \<longleftrightarrow> plain 4 (level_price l) \<and> plain 6 (level_size l)"

definition cost :: "order_book_level \<Rightarrow> rat" where
  "cost l = dval (level_size l) * dval (level_price l)"

lemma sum_list_member_le: "x \<in> set xs \<Longrightarrow> \<forall>y\<in>set xs. 0 \<le> f y \<Longrightarrow> f x \<le> (\<Sum>y\<leftarrow>xs. (f y :: rat))"
  by (rule member_le_sum_list) (auto intro: member_le_sum_list)

lemma buy_walk:
  assumes "\<forall>l\<in>set ls. book_level l" "(\<Sum>l\<leftarrow>ls. cost l) < 10 ^ 18" "is_finite target"
  shows "walk_levels level_cost target (dec_of_int 0) ls
    = Ok (map_option level_price (first_reaching cost (dval target) ls))"
proof -
  have pos: "\<forall>l\<in>set ls. 0 \<le> cost l"
    using assms(1) by (auto simp: cost_def book_level_def intro: mult_nonneg_nonneg plain_nonneg)
  have "\<exists>v. level_cost l = Ok v \<and> plain 10 v \<and> dval v = cost l" if "l \<in> set ls" for l
  proof -
    have "cost l < 10 ^ 18" using sum_list_member_le [OF that pos] assms(2) by linarith
    then show ?thesis using assms(1) that dmul_plain [of "level_size l" "level_price l"]
      by (auto simp: level_cost_def cost_def book_level_def)
  qed
  then show ?thesis using walk_levels_eq [of ls level_cost cost "dec_of_int 0" target] assms(2,3)
    by (simp add: dec_of_int_def)
qed

lemma sell_walk:
  assumes "\<forall>l\<in>set ls. book_level l" "(\<Sum>l\<leftarrow>ls. dval (level_size l)) < 10 ^ 18" "is_finite target"
  shows "walk_levels (\<lambda>l. Ok (level_size l)) target (dec_of_int 0) ls
    = Ok (map_option level_price (first_reaching (\<lambda>l. dval (level_size l)) (dval target) ls))"
proof -
  have "plain 10 (level_size l)" if "l \<in> set ls" for l
    using that assms(1) plain_mono [of 6 "level_size l" 10] by (simp add: book_level_def)
  then show ?thesis
    using walk_levels_eq [of ls "\<lambda>l. Ok (level_size l)" "\<lambda>l. dval (level_size l)" "dec_of_int 0" target]
      assms by (simp add: dec_of_int_def)
qed

text \<open>
  On a book sorted from the best price, the level found is the marginal one. Asks are the better the
  lower, bids the higher.
\<close>

definition ask_key :: "order_book_level \<Rightarrow> rat" where "ask_key l = dval (level_price l)"

definition bid_key :: "order_book_level \<Rightarrow> rat" where "bid_key l = - dval (level_price l)"

definition level_at_most :: "(order_book_level \<Rightarrow> rat) \<Rightarrow> rat \<Rightarrow> order_book_level \<Rightarrow> bool" where
  "level_at_most key p l \<longleftrightarrow> key l \<le> p"

definition level_below :: "(order_book_level \<Rightarrow> rat) \<Rightarrow> rat \<Rightarrow> order_book_level \<Rightarrow> bool" where
  "level_below key p l \<longleftrightarrow> key l < p"

lemma first_reaching_marginal:
  assumes "first_reaching v t ls = Some l" "sorted (map key ls)"
    "\<forall>l\<in>set ls. 0 \<le> v l" "0 < t"
  shows "t \<le> (\<Sum>x\<leftarrow>filter (level_at_most key (key l)) ls. v x)
    \<and> (\<Sum>x\<leftarrow>filter (level_below key (key l)) ls. v x) < t"
  using assms
proof (induction ls arbitrary: t)
  case (Cons a ls)
  show ?case
  proof (cases "t \<le> v a")
    case True
    then have l: "l = a" using Cons.prems(1) by (simp add: first_reaching_Cons)
    have "0 \<le> (\<Sum>x\<leftarrow>filter (level_at_most key (key l)) ls. v x)"
      using Cons.prems(3) by (intro sum_list_nonneg) auto
    moreover have "filter (level_below key (key l)) ls = []"
      using Cons.prems(2) by (auto simp: l level_below_def filter_empty_conv not_less)
    moreover have "level_at_most key (key a) a" "\<not> level_below key (key a) a"
      by (simp_all add: level_at_most_def level_below_def)
    ultimately show ?thesis using True Cons.prems(4) by (simp add: l)
  next
    case False
    then have f: "first_reaching v (t - v a) ls = Some l"
      using Cons.prems(1) by (simp add: first_reaching_Cons)
    have "level_at_most key (key l) a"
      using Cons.prems(2) first_reaching_member [OF f] by (auto simp: level_at_most_def)
    moreover have "0 \<le> v a" using Cons.prems(3) by simp
    ultimately show ?thesis using Cons.IH [OF f] Cons.prems(2,3) False by auto
  qed
qed simp

end
