(* ===== verification/Market_Order.thy ===== *)
theory Market_Order imports Limit_Order Market_Estimate begin

text \<open>
  \<open>actions/orders/market.py\<close>: market orders, with and without a protected price. The power
  \<open>x ** y\<close> of the \<open>decimal\<close> module, used once for the platform fee, is the parameter \<open>dpow\<close>; the
  metadata cache and the order book are reached through parameters as in \<open>Limit_Order\<close>.
\<close>

section \<open>Definitions\<close>

record market_params =
  mp_asset_id :: string
  mp_side :: order_side
  mp_order_type :: order_type
  mp_amount :: "decimal option"
  mp_shares :: "decimal option"
  mp_max_spend :: "decimal option"
  mp_max_price :: "decimal option"
  mp_min_price :: "decimal option"
  mp_builder_code :: "string option"

definition coerce_optional_positive :: "pyval \<Rightarrow> decimal option res" where
  "coerce_optional_positive v = (if v = PNone then Ok None else map_ok Some (coerce_positive_decimal v))"

definition validate_market_order_params ::
  "pyval \<Rightarrow> pyval \<Rightarrow> pyval \<Rightarrow> pyval \<Rightarrow> pyval \<Rightarrow> pyval \<Rightarrow> pyval \<Rightarrow> pyval \<Rightarrow> pyval \<Rightarrow> pyval
     \<Rightarrow> market_params res" where
  "validate_market_order_params asset_id token_id side amount shares max_spend max_price min_price ot
       builder_code =
     bindE (resolve_asset_id asset_id token_id) (\<lambda>asset.
     bindE (validate_side side) (\<lambda>side.
     bindE (validate_market_order_type ot) (\<lambda>ot.
     bindE (validate_optional_builder builder_code) (\<lambda>builder.
     if side = BUY then
       if amount = PNone then Raise UserInputError
       else if shares \<noteq> PNone then Raise UserInputError
       else if min_price \<noteq> PNone then Raise UserInputError
       else
         bindE (coerce_positive_decimal amount) (\<lambda>a.
         bindE (coerce_optional_positive max_spend) (\<lambda>spend.
         bindE (coerce_optional_positive max_price) (\<lambda>price.
         Ok \<lparr>mp_asset_id = asset, mp_side = side, mp_order_type = ot, mp_amount = Some a,
             mp_shares = None, mp_max_spend = spend, mp_max_price = price, mp_min_price = None,
             mp_builder_code = builder\<rparr>)))
     else
       if shares = PNone then Raise UserInputError
       else if amount \<noteq> PNone then Raise UserInputError
       else if max_spend \<noteq> PNone then Raise UserInputError
       else if max_price \<noteq> PNone then Raise UserInputError
       else
         bindE (coerce_optional_positive min_price) (\<lambda>price.
         bindE (coerce_positive_decimal shares) (\<lambda>s.
         Ok \<lparr>mp_asset_id = asset, mp_side = side, mp_order_type = ot, mp_amount = None,
             mp_shares = Some s, mp_max_spend = None, mp_max_price = None, mp_min_price = price,
             mp_builder_code = builder\<rparr>))))))"

definition resolve_protected_price :: "market_params \<Rightarrow> decimal \<Rightarrow> decimal res" where
  "resolve_protected_price params tick =
     (case (mp_side params, mp_max_price params, mp_min_price params) of
        (BUY, Some p, _) \<Rightarrow> validate_price_on_tick_grid p tick
      | (SELL, _, Some p) \<Rightarrow> validate_price_on_tick_grid p tick
      | _ \<Rightarrow> Raise RuntimeError)"

definition resolve_notional :: "market_params \<Rightarrow> decimal res" where
  "resolve_notional params =
     (case (if mp_side params = BUY then mp_amount params else mp_shares params) of
        None \<Rightarrow> Raise RuntimeError | Some n \<Rightarrow> Ok n)"

definition has_protected_price :: "market_params \<Rightarrow> bool" where
  "has_protected_price params \<longleftrightarrow>
     mp_side params = BUY \<and> mp_max_price params \<noteq> None
     \<or> mp_side params = SELL \<and> mp_min_price params \<noteq> None"

text \<open>The rounding of the taker amount: up at four extra decimals, then down.\<close>

definition round_taker :: "decimal \<Rightarrow> int \<Rightarrow> decimal res" where
  "round_taker raw_taker k =
     bindE (decimal_places raw_taker) (\<lambda>places.
     if k < places then
       bindE (round_up raw_taker (k + 4)) (\<lambda>raw_taker.
       bindE (decimal_places raw_taker) (\<lambda>places.
       if k < places then round_down raw_taker k else Ok raw_taker))
     else Ok raw_taker)"

definition compute_market_order_amounts ::
  "decimal \<Rightarrow> decimal \<Rightarrow> order_side \<Rightarrow> decimal \<Rightarrow> (int \<times> int) res" where
  "compute_market_order_amounts amount price side tick =
     bindE (resolve_rounding_config tick) (\<lambda>config.
     bindE (round_down price (cfg_price config)) (\<lambda>raw_price.
     bindE (round_down amount (cfg_size config)) (\<lambda>raw_maker.
     bindE (if side = BUY then ddiv raw_maker raw_price else dmul raw_maker raw_price) (\<lambda>raw_taker.
     bindE (round_taker raw_taker (cfg_amount config)) (\<lambda>raw_taker.
     bindE (parse_amount raw_maker) (\<lambda>offered.
     bindE (parse_amount raw_taker) (\<lambda>requested.
     Ok (offered, requested))))))))"

definition adjust_buy_amount_for_fees ::
  "(decimal \<Rightarrow> decimal \<Rightarrow> decimal res) \<Rightarrow> decimal \<Rightarrow> decimal \<Rightarrow> decimal \<Rightarrow> platform_fee_info \<Rightarrow> decimal
     \<Rightarrow> decimal res" where
  "adjust_buy_amount_for_fees dpow amount price max_spend fee builder_taker_fee_rate =
     bindE (dsub (dec_of_int 1) price) (\<lambda>complement.
     bindE (dmul price complement) (\<lambda>base.
     bindE (dpow base (fee_exponent fee)) (\<lambda>power.
     bindE (dmul (fee_rate fee) power) (\<lambda>effective_rate.
     bindE (ddiv amount price) (\<lambda>shares.
     bindE (dmul shares effective_rate) (\<lambda>platform_fee.
     bindE (dmul amount builder_taker_fee_rate) (\<lambda>builder_fee.
     bindE (dadd amount platform_fee) (\<lambda>subtotal.
     bindE (dadd subtotal builder_fee) (\<lambda>total_cost.
     bindE (dle max_spend total_cost) (\<lambda>capped.
     if capped then
       bindE (ddiv effective_rate price) (\<lambda>rate_per_dollar.
       bindE (dadd (dec_of_int 1) rate_per_dollar) (\<lambda>factor.
       bindE (dadd factor builder_taker_fee_rate) (\<lambda>factor.
       ddiv max_spend factor)))
     else Ok amount))))))))))"

definition build_market_order_draft ::
  "order_context \<Rightarrow> market_params \<Rightarrow> decimal \<Rightarrow> decimal \<Rightarrow> bool \<Rightarrow> decimal \<Rightarrow> order_draft res" where
  "build_market_order_draft ctx params price tick negative_risk resolved_amount =
     bindE (compute_market_order_amounts resolved_amount price (mp_side params) tick)
       (\<lambda>(offered, requested).
     bindE (resolve_order_exchange_address (environment_config_of ctx) (mp_asset_id params)
         negative_risk) (\<lambda>address.
     Ok \<lparr>draft_chain_id = chain_id (environment_config_of ctx),
         draft_exchange_address = address,
         draft_expiration = 0,
         draft_funder_address = ctx_wallet ctx,
         offered_amount = offered,
         draft_order_type = mp_order_type params,
         draft_side = mp_side params,
         draft_signer = ctx_signer_address ctx,
         requested_amount = requested,
         draft_asset_id = mp_asset_id params,
         draft_builder_code = mp_builder_code params\<rparr>))"

text \<open>The check that the encoded price of a protected BUY stays under the next tick.\<close>

definition check_protected_buy :: "decimal \<Rightarrow> order_draft \<Rightarrow> order_draft res" where
  "check_protected_buy price draft =
     (if offered_amount draft \<le> 0 \<or> requested_amount draft \<le> 0 then Raise UserInputError
      else
        bindE (as_integer_ratio price) (\<lambda>(price_numerator, price_denominator).
        bindE (as_integer_ratio MIN_SUPPORTED_TICK_SIZE) (\<lambda>(tick_numerator, tick_denominator).
        let next_price_numerator =
              price_numerator * tick_denominator + tick_numerator * price_denominator;
            next_price_denominator = price_denominator * tick_denominator
        in if requested_amount draft * next_price_numerator
              \<le> offered_amount draft * next_price_denominator
           then Raise UserInputError else Ok draft)))"

definition build_protected_market_order_draft ::
  "(decimal \<Rightarrow> decimal \<Rightarrow> decimal res) \<Rightarrow> order_context \<Rightarrow> market_params \<Rightarrow> market_info \<Rightarrow> decimal
     \<Rightarrow> order_draft res" where
  "build_protected_market_order_draft dpow ctx params metadata builder_taker_fee_rate =
     bindE (resolve_notional params) (\<lambda>notional.
     bindE (resolve_protected_price params (mkt_tick_size metadata)) (\<lambda>price.
     bindE (case (mp_side params, mp_max_spend params) of
              (BUY, Some max_spend) \<Rightarrow>
                adjust_buy_amount_for_fees dpow notional price max_spend (mkt_fee_info metadata)
                  builder_taker_fee_rate
            | _ \<Rightarrow> Ok notional) (\<lambda>resolved_amount.
     bindE (build_market_order_draft ctx params price (mkt_tick_size metadata)
              (mkt_neg_risk metadata) resolved_amount) (\<lambda>draft.
     if mp_side params = BUY then check_protected_buy price draft else Ok draft))))"

definition build_unprotected_market_order_draft ::
  "order_context \<Rightarrow> market_params \<Rightarrow> resolved_market_price \<Rightarrow> decimal \<Rightarrow> order_draft res" where
  "build_unprotected_market_order_draft ctx params price_context resolved_amount =
     build_market_order_draft ctx params (rp_price price_context) (rp_tick_size price_context)
       (rp_neg_risk price_context) resolved_amount"

definition prepare_protected_market_order_draft ::
  "(decimal \<Rightarrow> decimal \<Rightarrow> decimal res) \<Rightarrow> 'w market_source \<Rightarrow> 'w market_source
     \<Rightarrow> (string option \<Rightarrow> ('w, decimal) eff) \<Rightarrow> order_context \<Rightarrow> market_params \<Rightarrow> ('w, order_draft) eff" where
  "prepare_protected_market_order_draft dpow resolve_market fetch_current_market
       resolve_builder_taker_fee_rate ctx params =
     bindS (resolve_market (mp_asset_id params)) (\<lambda>metadata.
     bindS (if mp_side params = BUY \<and> mp_max_spend params \<noteq> None
            then resolve_builder_taker_fee_rate (mp_builder_code params)
            else pureS (dec_of_int 0)) (\<lambda>rate.
     tryS (liftS (build_protected_market_order_draft dpow ctx params metadata rate))
       (\<lambda>e. if e = UserInputError then
              bindS (fetch_current_market (mp_asset_id params)) (\<lambda>metadata.
              liftS (build_protected_market_order_draft dpow ctx params metadata rate))
            else failS e)))"

definition prepare_unprotected_market_order_draft ::
  "(decimal \<Rightarrow> decimal \<Rightarrow> decimal res) \<Rightarrow> 'w market_source
     \<Rightarrow> (string \<Rightarrow> order_side \<Rightarrow> decimal \<Rightarrow> order_type \<Rightarrow> ('w, resolved_market_price) eff)
     \<Rightarrow> (string option \<Rightarrow> ('w, decimal) eff) \<Rightarrow> order_context \<Rightarrow> market_params \<Rightarrow> ('w, order_draft) eff" where
  "prepare_unprotected_market_order_draft dpow resolve_market price_source
       resolve_builder_taker_fee_rate ctx params =
     bindS (liftS (resolve_notional params)) (\<lambda>notional.
     bindS (price_source (mp_asset_id params) (mp_side params) notional (mp_order_type params))
       (\<lambda>price_context.
     bindS (case (mp_side params, mp_max_spend params) of
              (BUY, Some max_spend) \<Rightarrow>
                bindS (resolve_market (mp_asset_id params)) (\<lambda>metadata.
                bindS (resolve_builder_taker_fee_rate (mp_builder_code params)) (\<lambda>rate.
                liftS (adjust_buy_amount_for_fees dpow notional (rp_price price_context) max_spend
                         (mkt_fee_info metadata) rate)))
            | _ \<Rightarrow> pureS notional) (\<lambda>resolved_amount.
     liftS (build_unprotected_market_order_draft ctx params price_context resolved_amount))))"

definition prepare_market_order_draft ::
  "(decimal \<Rightarrow> decimal \<Rightarrow> decimal res) \<Rightarrow> 'w market_source \<Rightarrow> 'w market_source
     \<Rightarrow> (string \<Rightarrow> order_side \<Rightarrow> decimal \<Rightarrow> order_type \<Rightarrow> ('w, resolved_market_price) eff)
     \<Rightarrow> (string option \<Rightarrow> ('w, decimal) eff) \<Rightarrow> order_context \<Rightarrow> market_params \<Rightarrow> ('w, order_draft) eff" where
  "prepare_market_order_draft dpow resolve_market fetch_current_market price_source
       resolve_builder_taker_fee_rate ctx params =
     (if has_protected_price params then
        prepare_protected_market_order_draft dpow resolve_market fetch_current_market
          resolve_builder_taker_fee_rate ctx params
      else
        prepare_unprotected_market_order_draft dpow resolve_market price_source
          resolve_builder_taker_fee_rate ctx params)"

section \<open>Validation\<close>

definition positive_option :: "decimal option \<Rightarrow> bool" where
  "positive_option v = (case v of None \<Rightarrow> True | Some d \<Rightarrow> is_finite d \<and> 0 < dval d)"

definition market_params_ok :: "market_params \<Rightarrow> bool" where
  "market_params_ok p \<longleftrightarrow>
     mp_asset_id p \<noteq> [] \<and> mp_order_type p \<in> {FAK, FOK}
     \<and> (if mp_side p = BUY
         then mp_amount p \<noteq> None \<and> mp_shares p = None \<and> mp_min_price p = None
         else mp_shares p \<noteq> None \<and> mp_amount p = None \<and> mp_max_spend p = None \<and> mp_max_price p = None)
     \<and> positive_option (mp_amount p) \<and> positive_option (mp_shares p) \<and> positive_option (mp_max_spend p)
     \<and> positive_option (mp_max_price p) \<and> positive_option (mp_min_price p)"

lemma positive_option_simps [simp]:
  "positive_option None" "positive_option (Some d) \<longleftrightarrow> is_finite d \<and> 0 < dval d"
  by (simp_all add: positive_option_def)

lemma coerce_optional_positive_ok: "coerce_optional_positive v = Ok d \<Longrightarrow> positive_option d"
  by (auto simp: coerce_optional_positive_def dest: coerce_positive_ok split: if_splits)

lemma validate_market_order_type_ok: "validate_market_order_type v = Ok ot \<Longrightarrow> ot \<in> {FAK, FOK}"
  by (auto simp: validate_market_order_type_def split: if_splits)

lemma validate_market_order_params_valid:
  assumes "validate_market_order_params a t s am sh ms mx mn ot bc = Ok p"
  shows "market_params_ok p"
proof -
  obtain asset side k b where v: "resolve_asset_id a t = Ok asset" "validate_side s = Ok side"
      "validate_market_order_type ot = Ok k" "validate_optional_builder bc = Ok b"
    using assms by (auto simp: validate_market_order_params_def)
  have "asset \<noteq> []" "k = FAK \<or> k = FOK"
    using v(1,3) by (auto simp: resolve_asset_id_ok dest: validate_market_order_type_ok)
  then show ?thesis using assms v
    by (cases "side = BUY")
      (auto simp: validate_market_order_params_def market_params_ok_def
        dest: coerce_positive_ok coerce_optional_positive_ok split: if_splits)
qed

lemma resolve_notional_total:
  "market_params_ok p \<Longrightarrow> \<exists>n. resolve_notional p = Ok n \<and> is_finite n \<and> 0 < dval n"
  by (cases "mp_side p") (auto simp: market_params_ok_def resolve_notional_def)

section \<open>Amounts of a market order\<close>

text \<open>
  Rounding a quotient \<open>q\<close> that is known only up to \<open>d\<close>: up to a multiple of \<open>1/10000\<close>, then down to
  an integer, is the floor of \<open>q\<close> when \<open>q\<close> is an integer or stays \<open>1/10000 + d\<close> away from both neighbours.
\<close>

lemma two_stage_floor:
  fixes q z d u :: rat
  assumes close: "\<bar>z - q\<bar> \<le> d" and d: "0 \<le> d" "d < 1 / 10000"
    and gap: "q = of_int \<lfloor>q\<rfloor> \<or> (of_int \<lfloor>q\<rfloor> + d \<le> q \<and> q + d + 1 / 10000 \<le> of_int \<lfloor>q\<rfloor> + 1)"
    and u: "u = of_int \<lceil>z * 10000\<rceil> / 10000"
  shows "\<lfloor>u\<rfloor> = \<lfloor>q\<rfloor>"
proof -
  have c: "z * 10000 \<le> of_int \<lceil>z * 10000\<rceil>" "of_int \<lceil>z * 10000\<rceil> < z * 10000 + 1"
    by linarith+
  have "of_int \<lfloor>q\<rfloor> \<le> u"
  proof (cases "q = of_int \<lfloor>q\<rfloor>")
    case True
    have "of_int (10000 * \<lfloor>q\<rfloor>) < z * 10000 + 1" using close d True by simp
    also have "\<dots> \<le> of_int \<lceil>z * 10000\<rceil> + 1" using c(1) by simp
    finally have "10000 * \<lfloor>q\<rfloor> < \<lceil>z * 10000\<rceil> + 1" by linarith
    then have "10000 * \<lfloor>q\<rfloor> \<le> \<lceil>z * 10000\<rceil>" by simp
    then have "of_int (10000 * \<lfloor>q\<rfloor>) \<le> (of_int \<lceil>z * 10000\<rceil> :: rat)" by (simp only: of_int_le_iff)
    then show ?thesis by (simp add: u)
  next
    case False
    then have "of_int \<lfloor>q\<rfloor> + d \<le> q" using gap by blast
    then have "of_int \<lfloor>q\<rfloor> \<le> z" using close by linarith
    then have "of_int \<lfloor>q\<rfloor> * 10000 \<le> (of_int \<lceil>z * 10000\<rceil> :: rat)" using c(1) by linarith
    then show ?thesis by (simp add: u)
  qed
  moreover have "u < of_int \<lfloor>q\<rfloor> + 1"
  proof (cases "q = of_int \<lfloor>q\<rfloor>")
    case True
    then show ?thesis using close d c(2) by (simp add: u)
  next
    case False
    then have "q + d + 1 / 10000 \<le> of_int \<lfloor>q\<rfloor> + 1" using gap by blast
    then show ?thesis using close c(2) by (simp add: u)
  qed
  ultimately show ?thesis by (simp add: floor_eq_iff)
qed

lemma on_grid_scaled: "on_grid k v \<Longrightarrow> v * p10 k = of_int \<lfloor>v * p10 k\<rfloor>"
  using on_grid_unit by fastforce

text \<open>\<open>round_taker\<close> returns the floor of the exact quotient, whatever the last digits of the inexact one.\<close>

lemma round_taker_floor:
  assumes z: "wide z" and k: "0 \<le> k" "k \<le> 10" and small: "\<bar>dval z\<bar> * p10 (k + 4) < 10 ^ 27"
    and close: "\<bar>dval z * p10 k - q\<bar> \<le> d" and d: "0 \<le> d" "d < 1 / 10000"
    and gap: "q = of_int \<lfloor>q\<rfloor> \<or> (of_int \<lfloor>q\<rfloor> + d < q \<and> q + d + 1 / 10000 \<le> of_int \<lfloor>q\<rfloor> + 1)"
  shows "\<exists>y. round_taker z k = Ok y \<and> wide y \<and> dval y * p10 k = of_int \<lfloor>q\<rfloor>"
proof (cases "on_grid k (dval z)")
  case True
  obtain p where p: "decimal_places z = Ok p" "p \<le> k" using decimal_places_wide [OF z] True k by blast
  obtain n where n: "dval z * p10 k = of_int n" using on_grid_unit [OF True] by blast
  have "n = \<lfloor>q\<rfloor>"
  proof (cases "q = of_int \<lfloor>q\<rfloor>")
    case True
    obtain m where m: "q = of_int m" using True by blast
    have "\<bar>n - m\<bar> < 1" using close d unfolding n m by (simp flip: of_int_diff of_int_abs)
    then show ?thesis by (simp add: m)
  next
    case False
    then have "of_int \<lfloor>q\<rfloor> + d < q" "q + d + 1 / 10000 \<le> of_int \<lfloor>q\<rfloor> + 1" using gap by auto
    then have "of_int \<lfloor>q\<rfloor> < (of_int n :: rat)" "(of_int n :: rat) < of_int \<lfloor>q\<rfloor> + 1"
      using close unfolding n by linarith+
    then show ?thesis by linarith
  qed
  then show ?thesis using p n z by (simp add: round_taker_def)
next
  case False
  obtain p where p: "decimal_places z = Ok p" "\<not> p \<le> k" using decimal_places_wide [OF z] False k by blast
  obtain u where u: "round_up z (k + 4) = Ok u"
    using round_places_total [OF z, of "k + 4" ROUND_CEILING] small k by (auto simp: round_up_def is_ok_iff)
  have uw: "wide u" "dval u = of_int \<lceil>dval z * p10 (k + 4)\<rceil> * p10 (- (k + 4))"
    using round_up_wide [OF z _ _ u] k by auto
  define U where "U = dval u * p10 k"
  have U: "U = of_int \<lceil>dval z * p10 k * 10000\<rceil> / 10000"
  proof -
    have "p10 (k + 4) = p10 k * 10000" by (simp only: p10_add) (simp add: p10_nat)
    moreover have "p10 (- (k + 4)) * p10 k = 1 / 10000"
      using p10_add [of "- (k + 4)" k] by (simp add: power_int_minus p10_nat)
    ultimately show ?thesis unfolding U_def uw by (simp add: mult.assoc)
  qed
  have fl: "\<lfloor>U\<rfloor> = \<lfloor>q\<rfloor>" using two_stage_floor [OF close d _ U] gap by auto
  obtain r where r: "decimal_places u = Ok r" "r \<le> k \<longleftrightarrow> on_grid k (dval u)"
    using decimal_places_wide [OF uw(1)] k by blast
  show ?thesis
  proof (cases "on_grid k (dval u)")
    case True
    then have "U = of_int \<lfloor>U\<rfloor>" unfolding U_def by (rule on_grid_scaled)
    then show ?thesis using p u r uw True fl by (simp add: round_taker_def U_def)
  next
    case off: False
    have "\<bar>dval z * p10 k\<bar> * 10000 < 10 ^ 27"
      using small by (simp only: p10_add abs_mult) (simp add: p10_nat mult.assoc)
    moreover have "\<bar>V\<bar> < 10 ^ 27"
      if "V = of_int \<lceil>Z * 10000\<rceil> / 10000" "\<bar>Z\<bar> * 10000 < 10 ^ 27" for V Z :: rat
      using that by (simp add: abs_less_iff) linarith
    ultimately have "\<bar>U\<bar> < 10 ^ 27" using U by blast
    then have "\<bar>dval u\<bar> * p10 k < 10 ^ 27" by (simp add: U_def abs_mult)
    then obtain y where y: "round_down u k = Ok y"
      using round_places_total [OF uw(1), of k ROUND_FLOOR] k by (auto simp: round_down_def is_ok_iff)
    have "wide y" "dval y = of_int \<lfloor>dval u * p10 k\<rfloor> * p10 (- k)"
      using round_down_wide [OF uw(1) _ _ y] k by auto
    then show ?thesis using p u r off y fl p10_minus [of k]
      by (simp add: round_taker_def U_def [symmetric] mult.assoc)
  qed
qed

lemma quotient_gap:
  fixes a b :: int
  assumes b: "0 < b" "b \<le> 9999" and q: "q = (of_int a / of_int b :: rat)"
  shows "q = of_int \<lfloor>q\<rfloor>
    \<or> (of_int \<lfloor>q\<rfloor> + 1 / 10 ^ 8 < q \<and> q + 1 / 10 ^ 8 + 1 / 10000 \<le> of_int \<lfloor>q\<rfloor> + 1)"
proof (cases "a mod b = 0")
  case True
  then obtain m where "a = b * m" by blast
  then show ?thesis using b by (simp add: q)
next
  case False
  have fl: "\<lfloor>q\<rfloor> = a div b" by (simp add: q floor_divide_of_int_eq)
  have "(of_int a :: rat) = of_int (a div b) * of_int b + of_int (a mod b)"
    by (simp flip: of_int_mult of_int_add)
  then have frac: "q = of_int (a div b) + of_int (a mod b) / of_int b"
    using b by (simp add: q field_simps)
  have r: "1 \<le> a mod b" "a mod b \<le> b - 1"
    using False b pos_mod_sign [OF b(1), of a] pos_mod_bound [OF b(1), of a] by linarith+
  have b': "(0 :: rat) < of_int b" "(of_int b :: rat) \<le> 9999" using b by simp_all
  have s: "1 / 9999 \<le> 1 / (of_int b :: rat)" using b' by (intro divide_left_mono) auto
  have "1 / of_int b \<le> (of_int (a mod b) :: rat) / of_int b"
    using r b' by (intro divide_right_mono) auto
  moreover have "(of_int (a mod b) :: rat) / of_int b \<le> of_int (b - 1) / of_int b"
    using r b' by (intro divide_right_mono) (simp_all only: of_int_le_iff less_imp_le)
  moreover have "(of_int (b - 1) :: rat) / of_int b = 1 - 1 / of_int b"
    using b' by (simp add: field_simps)
  moreover have "F + 1 / 10 ^ 8 < F + x \<and> F + x + 1 / 10 ^ 8 + 1 / 10000 \<le> F + 1"
    if "B \<le> x" "x \<le> 1 - B" "1 / 9999 \<le> B" for x B F :: rat
    using that by simp
  ultimately show ?thesis using s unfolding fl by (simp only: frac) blast
qed

text \<open>What the tick says about the rounded price.\<close>

lemma tick_price_units:
  assumes "valid_tick t" "resolve_rounding_config t = Ok cfg" "dval t \<le> v" "v \<le> 1 - dval t"
  shows "1 \<le> \<lfloor>v * p10 (cfg_price cfg)\<rfloor>" "\<lfloor>v * p10 (cfg_price cfg)\<rfloor> \<le> 9999"
proof -
  obtain c where c: "resolve_rounding_config t = Ok c" "1 \<le> cfg_price c" "cfg_price c \<le> 4"
      "on_grid (cfg_price c) (dval t)"
    by (rule valid_tick_cases [OF assms(1)])
  define k where "k = cfg_price cfg"
  have k: "1 \<le> k" "k \<le> 4" "on_grid k (dval t)" using c assms(2) by (auto simp: k_def)
  obtain n where n: "dval t = of_int n * p10 (- k)" using k(3) by (auto simp: on_grid_def)
  have "0 < dval t" using assms(1) by (auto simp: valid_tick_def)
  then have "1 \<le> n" by (simp add: n zero_less_mult_iff p10_not_neg)
  then have "1 * p10 (- k) \<le> dval t" unfolding n by (intro mult_right_mono) auto
  then have t1: "1 \<le> dval t * p10 k"
    using mult_right_mono [of "1 * p10 (- k)" "dval t" "p10 k"] p10_minus [of k] by simp
  have "dval t * p10 k \<le> v * p10 k" using assms(3) by (intro mult_right_mono) auto
  then have "1 \<le> v * p10 k" using t1 by (rule order.trans [rotated])
  then show "1 \<le> \<lfloor>v * p10 (cfg_price cfg)\<rfloor>" by (simp add: k_def le_floor_iff)
  have "v * p10 k \<le> (1 - dval t) * p10 k" using assms(4) by (intro mult_right_mono) auto
  also have "\<dots> \<le> p10 k - 1" using t1 by (simp add: left_diff_distrib)
  also have "p10 k \<le> p10 4" using k by (intro p10_mono) auto
  finally have "v * p10 k \<le> 9999" by (simp add: p10_nat)
  then show "\<lfloor>v * p10 (cfg_price cfg)\<rfloor> \<le> 9999" by (simp add: k_def floor_le_iff)
qed

lemma round_price:
  assumes "fits p" "0 < dval p" "dval p \<le> 1" "0 \<le> k" "k \<le> 4"
  shows "\<exists>r. round_down p k = Ok r \<and> fits r \<and> dval r * p10 k = of_int \<lfloor>dval p * p10 k\<rfloor>"
proof -
  have "\<bar>dval p\<bar> * p10 k \<le> 1 * p10 4" using assms by (intro mult_mono p10_mono) auto
  also have "\<dots> < 10 ^ 27" by (simp add: p10_nat)
  finally obtain r where r: "round_down p k = Ok r"
    using round_places_total [of p k ROUND_FLOOR] assms by (auto simp: round_down_def is_ok_iff)
  then show ?thesis using round_down_wide [of p k r] assms p10_minus [of k]
    by (auto simp: mult.assoc)
qed

text \<open>
  The amounts of a BUY: the dollars keep two decimals, and the shares are the exact quotient of the
  two encoded numbers, rounded down to the decimals of the tick.
\<close>

lemma buy_quotient:
  assumes q: "fits q" "dval q = of_int m / 100" "1 \<le> m" "m \<le> 10 ^ 10"
    and r: "fits r" "dval r * p10 k = of_int u" "1 \<le> u" "u \<le> 9999" and k: "1 \<le> k" "k \<le> 4"
  shows "\<exists>z y. ddiv q r = Ok z \<and> round_taker z (k + 2) = Ok y \<and> wide y
    \<and> dval y * p10 (k + 2) = of_int \<lfloor>of_int m * p10 (2 * k) / of_int u :: rat\<rfloor>
    \<and> \<bar>\<lfloor>of_int m * p10 (2 * k) / of_int u :: rat\<rfloor>\<bar> < 10 ^ 22"
proof -
  have rv: "dval r = of_int u * p10 (- k)" using r(2) p10_minus [of k] by (metis mult.assoc mult.commute mult_1)
  have pos: "0 < dval q" "0 < dval r" using q r by (simp_all add: rv)
  obtain z where z: "ddiv q r = Ok z" using ddiv_total [OF q(1) pos(1) r(1) pos(2)] by (auto simp: is_ok_iff)
  have zc: "wide z" "\<bar>dval z - dval q / dval r\<bar> \<le> dval q / dval r / 10 ^ 26"
    using ddiv_close [OF q(1) pos(1) r(1) pos(2) z] by auto
  define Q :: rat where "Q = of_int m * p10 (2 * k) / of_int u"
  have "p10 (k + 2) = p10 k * 100" "p10 (2 * k) = p10 k * p10 k"
    using p10_add [of k 2] p10_add [of k k] by (simp_all add: p10_nat)
  then have Qv: "Q = dval q / dval r * p10 (k + 2)"
    using p10_minus [of k] r(3) by (simp add: Q_def q(2) rv field_simps)
  have Qb: "0 \<le> Q" "Q \<le> 10 ^ 18"
  proof -
    have "Q \<le> of_int m * p10 (2 * k) / 1" unfolding Q_def
      using q(3) r(3) by (intro divide_left_mono mult_nonneg_nonneg) auto
    also have "\<dots> \<le> of_int (10 ^ 10) * p10 8"
      using q k by (simp only: div_by_1) (intro mult_mono p10_mono, auto)
    finally show "Q \<le> 10 ^ 18" by (simp add: p10_nat)
    show "0 \<le> Q" using q(3) r(3) by (simp add: Q_def)
  qed
  have "\<bar>dval z * p10 (k + 2) - Q\<bar> = \<bar>dval z - dval q / dval r\<bar> * p10 (k + 2)"
    unfolding Qv left_diff_distrib [symmetric] abs_mult by simp
  also have "\<dots> \<le> dval q / dval r / 10 ^ 26 * p10 (k + 2)" using zc(2) by (intro mult_right_mono) auto
  also have "\<dots> = Q / 10 ^ 26" by (simp add: Qv)
  finally have close: "\<bar>dval z * p10 (k + 2) - Q\<bar> \<le> 1 / 10 ^ 8" using Qb by simp
  have small: "\<bar>dval z\<bar> * p10 (k + 2 + 4) < 10 ^ 27"
  proof -
    have "\<bar>w\<bar> * 10000 < 10 ^ 27" if "\<bar>w - Q\<bar> \<le> 1 / 10 ^ 8" for w
    proof -
      have "\<bar>w - Q\<bar> \<le> 1" by (rule order.trans [OF that]) simp
      then have "\<bar>w\<bar> \<le> Q + 1" using Qb(1) by linarith
      then have "\<bar>w\<bar> \<le> 10 ^ 18 + 1" using Qb(2) by linarith
      then show ?thesis by simp
    qed
    then have "\<bar>dval z * p10 (k + 2)\<bar> * 10000 < 10 ^ 27" using close by blast
    moreover have "p10 (k + 2 + 4) = p10 (k + 2) * 10000" by (simp only: p10_add) (simp add: p10_nat)
    ultimately show ?thesis by (simp add: abs_mult mult.assoc)
  qed
  have "Q = of_int \<lfloor>Q\<rfloor>
    \<or> (of_int \<lfloor>Q\<rfloor> + 1 / 10 ^ 8 < Q \<and> Q + 1 / 10 ^ 8 + 1 / 10000 \<le> of_int \<lfloor>Q\<rfloor> + 1)"
    by (rule quotient_gap [of u _ "m * 10 ^ nat (2 * k)"])
      (use r k in \<open>simp_all add: Q_def p10_nat\<close>)
  then obtain y where "round_taker z (k + 2) = Ok y" "wide y" "dval y * p10 (k + 2) = of_int \<lfloor>Q\<rfloor>"
    using round_taker_floor [OF zc(1) _ _ small close] k by auto
  moreover have "\<bar>\<lfloor>Q\<rfloor>\<bar> < 10 ^ 22" using Qb by (simp add: floor_less_iff)
  ultimately show ?thesis using z by (auto simp: Q_def)
qed

lemma parse_units:
  assumes "wide y" "dval y * p10 j = of_int n" "0 \<le> j" "j \<le> 6" "\<bar>n\<bar> < 10 ^ 22"
  shows "parse_amount y = Ok (n * 10 ^ nat (6 - j))"
proof (rule parse_amount_exact [OF assms(1)])
  have "p10 6 = p10 j * p10 (6 - j)" by (simp flip: p10_add)
  then have "dval y * p10 6 = dval y * p10 j * p10 (6 - j)" by (simp only: mult.assoc)
  then have "dval y * p10 6 = of_int n * p10 (6 - j)" by (simp only: assms(2))
  then show "dval y * 10 ^ 6 = of_int (n * 10 ^ nat (6 - j))" using assms(4) by (simp add: p10_nat)
  have "\<bar>n * 10 ^ nat (6 - j)\<bar> \<le> \<bar>n\<bar> * 10 ^ 6"
    unfolding abs_mult using assms(3) power_increasing [of "nat (6 - j)" 6 "10 :: int"]
    by (intro mult_left_mono) simp_all
  then show "\<bar>n * 10 ^ nat (6 - j)\<bar> < 10 ^ 28" using assms(5) by simp
qed

lemma market_buy_amounts:
  assumes t: "valid_tick t" "resolve_rounding_config t = Ok cfg" and p: "fits p" "dval t \<le> dval p" "dval p \<le> 1 - dval t"
    and a: "fits a" "1 / 100 \<le> dval a" "dval a \<le> 10 ^ 8"
  shows "compute_market_order_amounts a p BUY t =
    Ok (10000 * \<lfloor>dval a * 100\<rfloor>,
        \<lfloor>of_int \<lfloor>dval a * 100\<rfloor> * p10 (2 * cfg_price cfg) / of_int \<lfloor>dval p * p10 (cfg_price cfg)\<rfloor> :: rat\<rfloor>
          * 10 ^ nat (4 - cfg_price cfg))"
proof -
  obtain c where c: "resolve_rounding_config t = Ok c" "cfg_size c = 2" "cfg_amount c = cfg_price c + 2"
      "1 \<le> cfg_price c" "cfg_price c \<le> 4"
    by (rule valid_tick_cases [OF t(1)])
  have cfg: "cfg_size cfg = 2" "cfg_amount cfg = cfg_price cfg + 2" "1 \<le> cfg_price cfg" "cfg_price cfg \<le> 4"
    using c t(2) by auto
  define k where "k = cfg_price cfg"
  define m where "m = \<lfloor>dval a * 100\<rfloor>"
  define u where "u = \<lfloor>dval p * p10 k\<rfloor>"
  have ub: "1 \<le> u" "u \<le> 9999" unfolding u_def k_def by (rule tick_price_units [OF t p(2,3)])+
  have "0 < dval t" using t(1) by (auto simp: valid_tick_def)
  then obtain r where r: "round_down p k = Ok r" "fits r" "dval r * p10 k = of_int u"
    using round_price [of p k] p cfg by (auto simp: k_def u_def)
  obtain q where q: "round_down a 2 = Ok q" "fits q" "dval q = of_int m / 100" "parse_amount q = Ok (10000 * m)"
    using shares_rounding [of a] a by (auto simp: m_def)
  have mb: "1 \<le> m" "m \<le> 10 ^ 10" using a by (simp_all add: m_def le_floor_iff floor_le_iff)
  define n where "n = \<lfloor>of_int m * p10 (2 * k) / of_int u :: rat\<rfloor>"
  obtain z y where zy: "ddiv q r = Ok z" "round_taker z (k + 2) = Ok y" "wide y" "dval y * p10 (k + 2) = of_int n" "\<bar>n\<bar> < 10 ^ 22"
    using buy_quotient [OF q(2,3) mb r(2,3) ub] cfg by (auto simp: k_def n_def)
  then have "parse_amount y = Ok (n * 10 ^ nat (4 - k))"
    using parse_units [OF zy(3,4)] cfg by (simp add: k_def)
  then show ?thesis using t(2) r q zy cfg
    by (simp add: compute_market_order_amounts_def k_def [symmetric] m_def [symmetric] u_def [symmetric] n_def [symmetric])
qed

text \<open>A SELL offers the shares and requests exactly their value at the rounded price.\<close>

lemma round_taker_amount: "round_taker x k = round_amount x k"
  by (auto simp: round_taker_def round_amount_def not_less intro!: bindE_cong)

lemma market_sell_amounts:
  assumes t: "valid_tick t" "resolve_rounding_config t = Ok cfg"
    and p: "fits p" "dval t \<le> dval p" "dval p \<le> 1 - dval t"
    and s: "fits s" "0 \<le> dval s" "dval s < 10 ^ 15"
  shows "\<exists>col. compute_market_order_amounts s p SELL t = Ok (10000 * \<lfloor>dval s * 100\<rfloor>, col)
    \<and> of_int col * p10 (cfg_price cfg)
      = (of_int (10000 * \<lfloor>dval s * 100\<rfloor>) * of_int \<lfloor>dval p * p10 (cfg_price cfg)\<rfloor> :: rat)"
proof -
  obtain c where c: "resolve_rounding_config t = Ok c" "cfg_size c = 2" "cfg_amount c = cfg_price c + 2"
      "1 \<le> cfg_price c" "cfg_price c \<le> 4"
    by (rule valid_tick_cases [OF t(1)])
  have cfg: "cfg_size cfg = 2" "cfg_amount cfg = cfg_price cfg + 2" "1 \<le> cfg_price cfg" "cfg_price cfg \<le> 4"
    using c t(2) by auto
  define k where "k = cfg_price cfg"
  define u where "u = \<lfloor>dval p * p10 k\<rfloor>"
  have "0 < dval t" using t(1) by (auto simp: valid_tick_def)
  then obtain r where r: "round_down p k = Ok r" "fits r" "dval r * p10 k = of_int u"
    using round_price [of p k] p cfg by (auto simp: k_def u_def)
  obtain q where q: "round_down s 2 = Ok q" "fits q" "dval q = of_int \<lfloor>dval s * 100\<rfloor> / 100"
      "parse_amount q = Ok (10000 * \<lfloor>dval s * 100\<rfloor>)"
    using shares_rounding [of s] s by auto
  have mb: "0 \<le> \<lfloor>dval s * 100\<rfloor>" "\<lfloor>dval s * 100\<rfloor> < 10 ^ 17"
    using s by (simp_all add: floor_less_iff)
  have ub: "1 \<le> u" "u \<le> 9999" unfolding u_def k_def by (rule tick_price_units [OF t p(2,3)])+
  have rv: "dval r = of_int u * p10 (- k)"
    using r(3) p10_minus [of k] by (metis mult.assoc mult.commute mult_1)
  have "dval r * p10 k \<le> dval p * p10 k" unfolding r(3) u_def by simp
  then have "dval r \<le> dval p" by simp
  then have rb: "0 \<le> dval r" "dval r \<le> 1" using ub p(3) \<open>0 < dval t\<close> by (simp_all add: rv)
  obtain z col where z: "dmul q r = Ok z" "round_amount z (k + 2) = Ok z" "parse_amount z = Ok col"
      "of_int col = of_int (10000 * \<lfloor>dval s * 100\<rfloor>) * dval r"
    using grid_product [OF q(2,3) mb r(2) on_gridI [OF rv] rb] cfg by (auto simp: k_def)
  then have "of_int col * p10 k = (of_int (10000 * \<lfloor>dval s * 100\<rfloor>) * of_int u :: rat)"
    using r(3) by (simp only: mult.assoc)
  then show ?thesis using z t(2) r q cfg
    by (simp add: compute_market_order_amounts_def round_taker_amount k_def [symmetric] u_def [symmetric])
qed

section \<open>The protected price\<close>

lemma as_integer_ratio_dval:
  "as_integer_ratio x = Ok (n, d) \<Longrightarrow> is_finite x \<and> 0 < d \<and> dval x = of_int n / of_int d"
proof (cases x)
  case (Dec c e)
  assume r: "as_integer_ratio x = Ok (n, d)"
  show ?thesis
  proof (cases "0 \<le> e")
    case True
    then show ?thesis using r by (auto simp: Dec p10_nat)
  next
    case False
    define D :: int where "D = 10 ^ nat (- e)"
    define g where "g = gcd c D"
    have D: "0 < D" "g dvd c" "g dvd D" "0 < g" by (simp_all add: D_def g_def)
    have nd: "n = c div g" "d = D div g" using r False by (auto simp: Dec Let_def D_def g_def)
    have "c = n * g" "D = d * g" using D nd by simp_all
    moreover have "0 < d" using D nd by (simp add: pos_imp_zdiv_pos_iff zdvd_imp_le)
    moreover have "dval x = of_int c / of_int D"
      using False power_int_minus [of "10 :: rat" "- e"] by (simp add: Dec D_def p10_nat divide_inverse)
    ultimately show ?thesis using D by (simp add: Dec)
  qed
qed simp_all

lemma check_protected_buy_iff:
  assumes "is_finite price"
  shows "check_protected_buy price d =
    (if 0 < offered_amount d \<and> 0 < requested_amount d
        \<and> of_int (offered_amount d) < of_int (requested_amount d) * (dval price + 1 / 10000)
     then Ok d else Raise UserInputError)"
proof -
  have "\<exists>v. as_integer_ratio price = Ok v" using assms by (cases price) simp_all
  then obtain n m where r: "as_integer_ratio price = Ok (n, m)" by auto
  note r = r as_integer_ratio_dval [OF r]
  define D :: rat where "D = of_int (m * 10000)"
  have D: "0 < D" using r(2) by (simp add: D_def)
  define o1 r1 where "o1 = offered_amount d" and "r1 = requested_amount d"
  have "dval price + 1 / 10000 = of_int (n * 10000 + m) / D"
    using r(2) by (simp add: D_def field_simps)
  then have "of_int o1 < of_int r1 * (dval price + 1 / 10000)
      \<longleftrightarrow> of_int o1 * D < of_int r1 * of_int (n * 10000 + m)"
    using D by (simp add: pos_less_divide_eq)
  also have "\<dots> \<longleftrightarrow> (of_int (o1 * (m * 10000)) :: rat) < of_int (r1 * (n * 10000 + m))"
    by (simp only: D_def of_int_mult)
  also have "\<dots> \<longleftrightarrow> o1 * (m * 10000) < r1 * (n * 10000 + m)" by (simp only: of_int_less_iff)
  finally show ?thesis using r(1)
    by (auto simp: check_protected_buy_def min_supported_tick not_le Let_def o1_def r1_def)
qed

lemma check_protected_buy_ok:
  assumes "check_protected_buy price d = Ok d'"
  shows "d' = d \<and> is_finite price \<and> 0 < offered_amount d \<and> 0 < requested_amount d
    \<and> of_int (offered_amount d) < of_int (requested_amount d) * (dval price + 1 / 10000)"
proof -
  have "is_finite price"
    using assms by (cases price) (auto simp: check_protected_buy_def split: if_splits)
  then show ?thesis using assms by (simp add: check_protected_buy_iff split: if_splits)
qed

lemma build_protected_buy:
  assumes "build_protected_market_order_draft dpow ctx params m rate = Ok d" "mp_side params = BUY"
  shows "\<exists>p. mp_max_price params = Some p \<and> is_finite p
    \<and> validate_price_on_tick_grid p (mkt_tick_size m) = Ok p
    \<and> 0 < offered_amount d \<and> 0 < requested_amount d
    \<and> of_int (offered_amount d) < of_int (requested_amount d) * (dval p + 1 / 10000)"
proof -
  obtain p where p: "resolve_protected_price params (mkt_tick_size m) = Ok p" "check_protected_buy p d = Ok d"
    using assms check_protected_buy_ok
    by (auto simp: build_protected_market_order_draft_def simp del: not_None_eq)
  then obtain q where q: "mp_max_price params = Some q" "validate_price_on_tick_grid q (mkt_tick_size m) = Ok p"
    using assms(2) by (auto simp: resolve_protected_price_def split: option.splits)
  then show ?thesis using check_protected_buy_ok [OF p(2)] validate_price_returns [OF q(2)] by auto
qed

context market_provider begin

lemma prepare_protected_draft:
  assumes "prepare_protected_market_order_draft dpow resolve refetch fee_source ctx params w = (Ok d, w')"
    and "usable w" and fee: "\<And>c w r w'. usable w \<Longrightarrow> fee_source c w = (r, w') \<Longrightarrow> usable w'"
  shows "usable w' \<and> (\<exists>m rate. market_ok m \<and> mp_asset_id params \<in> set (mkt_token_ids m)
    \<and> build_protected_market_order_draft dpow ctx params m rate = Ok d)"
proof -
  let ?a = "mp_asset_id params" and ?build = "build_protected_market_order_draft dpow ctx params"
  obtain m w1 where 1: "resolve ?a w = (Ok m, w1)"
    using assms(1) by (auto simp: prepare_protected_market_order_draft_def bindS_eq_Ok)
  note ok1 = resolve_spec [OF assms(2) 1]
  define rate_of where "rate_of = (if mp_side params = BUY \<and> mp_max_spend params \<noteq> None
      then fee_source (mp_builder_code params) else pureS (dec_of_int 0))"
  have run: "bindS rate_of (\<lambda>rate. tryS (liftS (?build m rate))
       (\<lambda>e. if e = UserInputError then bindS (refetch ?a) (\<lambda>metadata. liftS (?build metadata rate)) else failS e)) w1
     = (Ok d, w')"
    using assms(1) 1 unfolding prepare_protected_market_order_draft_def rate_of_def by (simp add: bindS_app)
  then obtain rate w2 where 2: "rate_of w1 = (Ok rate, w2)" by (auto simp: bindS_eq_Ok)
  have ok2: "usable w2" using 2 ok1 fee by (auto simp: rate_of_def split: if_splits)
  have prep: "tryS (liftS (?build m rate))
       (\<lambda>e. if e = UserInputError then bindS (refetch ?a) (\<lambda>metadata. liftS (?build metadata rate)) else failS e) w2
     = (Ok d, w')"
    using run 2 by (simp add: bindS_app)
  show ?thesis
  proof (cases "?build m rate")
    case (Inr d')
    then show ?thesis using prep ok1 ok2 by (auto simp: tryS_app)
  next
    case (Inl e)
    then obtain m2 w3 where "refetch ?a w2 = (Ok m2, w3)" "?build m2 rate = Ok d" "w3 = w'"
      using prep by (auto simp: tryS_app bindS_eq_Ok split: if_splits)
    then show ?thesis using refetch_spec [OF ok2] by blast
  qed
qed

end

end
