(* ===== verification/Metadata_Cache.thy ===== *)
theory Metadata_Cache imports Single_Flight Market_Order begin

text \<open>
  \<open>SyncOrderMetadataCache\<close> of \<open>actions/orders/cache.py\<close> on the single-flight caches, as one client sees
  it. The asynchronous class has the same methods. What a client meets outside is the record
  \<open>platform\<close>: the monotonic clock, the HTTP client, the validation of pydantic, and the outcome of a
  flight that another client started.
\<close>

section \<open>Definitions\<close>

definition METADATA_TTL_S :: rat where "METADATA_TTL_S = 10 * 60"

record 'w metadata_state =
  ms_conditions :: "(string, string) cache"
  ms_markets :: "(string, market_info) cache"
  ms_fees :: "(string, decimal) cache"
  ms_net :: 'w

record 'w platform =
  clock :: "'w \<Rightarrow> rat"
  get_json_of :: "'w get_json"
  as_decimal_of :: "pyval \<Rightarrow> decimal res"
  join_condition :: "nat \<Rightarrow> ('w metadata_state, string) eff"
  join_market :: "nat \<Rightarrow> ('w metadata_state, market_info) eff"
  join_fee :: "nat \<Rightarrow> ('w metadata_state, decimal) eff"

definition on_net :: "('w, 'a) eff \<Rightarrow> ('w metadata_state, 'a) eff" where
  "on_net m = (\<lambda>s. case m (ms_net s) of (r, w) \<Rightarrow> (r, s\<lparr>ms_net := w\<rparr>))"

text \<open>\<open>get\<close> on the cache that \<open>sel\<close> and \<open>upd\<close> locate in the state.\<close>

definition sync_get ::
  "('s \<Rightarrow> ('k, 'v) cache) \<Rightarrow> (('k, 'v) cache \<Rightarrow> 's \<Rightarrow> 's) \<Rightarrow> rat option \<Rightarrow> ('s \<Rightarrow> rat) \<Rightarrow>
     (nat \<Rightarrow> ('s, 'v) eff) \<Rightarrow> 'k \<Rightarrow> ('s, 'v) eff \<Rightarrow> bool \<Rightarrow> ('s, 'v) eff" where
  "sync_get sel upd ttl now join key load force = (\<lambda>s.
     case begin_get (now s) force key (sel s) of
       (Hit v, _) \<Rightarrow> (Ok v, s)
     | (Join f, _) \<Rightarrow> join f s
     | (Own f, c) \<Rightarrow>
         (case load (upd c s) of
            (r, s') \<Rightarrow> (r, upd (finish_get ttl (now s') key f r (sel s')) s')))"

definition set_conditions :: "(string, string) cache \<Rightarrow> 'w metadata_state \<Rightarrow> 'w metadata_state" where
  "set_conditions c s = s\<lparr>ms_conditions := c\<rparr>"

definition set_markets :: "(string, market_info) cache \<Rightarrow> 'w metadata_state \<Rightarrow> 'w metadata_state" where
  "set_markets c s = s\<lparr>ms_markets := c\<rparr>"

definition set_fees :: "(string, decimal) cache \<Rightarrow> 'w metadata_state \<Rightarrow> 'w metadata_state" where
  "set_fees c s = s\<lparr>ms_fees := c\<rparr>"

definition now_of :: "'w platform \<Rightarrow> 'w metadata_state \<Rightarrow> rat" where
  "now_of P s = clock P (ms_net s)"

definition load_market :: "'w platform \<Rightarrow> string \<Rightarrow> ('w metadata_state, market_info) eff" where
  "load_market P condition_id =
     bindS (on_net (fetch_market_info (get_json_of P) (PStr condition_id))) (\<lambda>market. \<lambda>s.
       (Ok market,
        set_conditions (fold (\<lambda>token. cache_set None (now_of P s) token condition_id)
          (mkt_token_ids market) (ms_conditions s)) s))"

definition resolve_market_with :: "'w platform \<Rightarrow> bool \<Rightarrow> string \<Rightarrow> ('w metadata_state, market_info) eff" where
  "resolve_market_with P force token_id =
     bindS (sync_get ms_conditions set_conditions None (now_of P) (join_condition P) token_id
              (on_net (resolve_condition_by_token (get_json_of P) (PStr token_id))) False) (\<lambda>condition_id.
     bindS (sync_get ms_markets set_markets (Some METADATA_TTL_S) (now_of P) (join_market P) condition_id
              (load_market P condition_id) force) (\<lambda>market.
     if token_id \<notin> set (mkt_token_ids market) then
       (\<lambda>s. (Raise UnexpectedResponseError,
             set_markets (cache_discard condition_id (ms_markets s))
               (set_conditions (cache_discard token_id (ms_conditions s)) s)))
     else pureS market))"

definition resolve_market :: "'w platform \<Rightarrow> string \<Rightarrow> ('w metadata_state, market_info) eff" where
  "resolve_market P token_id = resolve_market_with P False token_id"

definition fetch_current_market :: "'w platform \<Rightarrow> string \<Rightarrow> ('w metadata_state, market_info) eff" where
  "fetch_current_market P token_id = resolve_market_with P True token_id"

definition resolve_builder_taker_fee_rate ::
  "'w platform \<Rightarrow> string option \<Rightarrow> ('w metadata_state, decimal) eff" where
  "resolve_builder_taker_fee_rate P builder_code =
     (case builder_code of
        None \<Rightarrow> pureS (dec_of_int 0)
      | Some code \<Rightarrow>
          if code = BYTES32_ZERO then pureS (dec_of_int 0)
          else sync_get ms_fees set_fees (Some METADATA_TTL_S) (now_of P) (join_fee P) code
                 (on_net (bindS (fetch_builder_fee_rates (as_decimal_of P) (get_json_of P) (PStr code))
                    (\<lambda>rates. pureS (taker_fee_rate rates)))) False)"

definition initial_metadata :: "'w \<Rightarrow> 'w metadata_state" where
  "initial_metadata w =
     \<lparr>ms_conditions = empty_cache, ms_markets = empty_cache, ms_fees = empty_cache, ms_net = w\<rparr>"

section \<open>One client\<close>

text \<open>Between two calls no flight is registered, and every cached market has a supported tick.\<close>

definition markets_ok :: "(string, market_info) cache \<Rightarrow> bool" where
  "markets_ok c \<longleftrightarrow> (\<forall>k v. map_of (cache_values c) k = Some v \<longrightarrow> market_ok (cv_value v))"

definition quiet :: "'w metadata_state \<Rightarrow> bool" where
  "quiet s \<longleftrightarrow> cache_inflight (ms_conditions s) = [] \<and> cache_inflight (ms_markets s) = []
     \<and> cache_inflight (ms_fees s) = []"

definition metadata_ok :: "'w metadata_state \<Rightarrow> bool" where
  "metadata_ok s \<longleftrightarrow> quiet s \<and> markets_ok (ms_markets s)"

lemma metadata_ok_initial: "metadata_ok (initial_metadata w)"
  by (simp add: metadata_ok_def quiet_def markets_ok_def initial_metadata_def empty_cache_def)

lemma sync_get_cases:
  assumes "sync_get sel upd ttl now join key load force s = (r, s')"
    and "cache_inflight (sel s) = []"
  obtains (hit) v where "map_of (cache_values (sel s)) key = Some v" "\<not> force" "fresh (now s) v"
      "r = Ok (cv_value v)" "s' = s"
  | (load) s1 where
      "load (upd ((sel s)\<lparr>cache_inflight := [(key, cache_next (sel s))],
                          cache_next := Suc (cache_next (sel s))\<rparr>) s) = (r, s1)"
      "s' = upd (finish_get ttl (now s1) key (cache_next (sel s)) r (sel s1)) s1"
proof (cases rule: begin_get_cases [of "sel s" key force "now s"])
  case (hit cached)
  have "r = Ok (cv_value cached)" "s' = s" using assms(1) hit(4) by (simp_all add: sync_get_def)
  with that(1) hit(1-3) show thesis by blast
next
  case own
  define c where "c = (sel s)\<lparr>cache_inflight := [(key, cache_next (sel s))], cache_next := Suc (cache_next (sel s))\<rparr>"
  obtain r1 s1 where l: "load (upd c s) = (r1, s1)" by (cases "load (upd c s)")
  have "begin_get (now s) force key (sel s) = (Own (cache_next (sel s)), c)"
    unfolding c_def using own(2) by (simp only: assms(2) dict_set.simps)
  then have "sync_get sel upd ttl now join key load force s
      = (r1, upd (finish_get ttl (now s1) key (cache_next (sel s)) r1 (sel s1)) s1)"
    by (simp add: sync_get_def l)
  with assms(1) have "r = r1" "s' = upd (finish_get ttl (now s1) key (cache_next (sel s)) r (sel s1)) s1"
    by auto
  with that(2) l show thesis unfolding c_def by blast
next
  case (join f)
  then show thesis using assms by simp
qed

lemma on_net_Pair: "on_net m s = (r, s') \<Longrightarrow> \<exists>w. m (ms_net s) = (r, w) \<and> s' = s\<lparr>ms_net := w\<rparr>"
  by (auto simp: on_net_def split: prod.splits)

lemma finish_single_flight:
  "cache_inflight c = [(key, f)] \<Longrightarrow> cache_inflight (finish_get ttl now key f r c) = []"
  by (simp add: finish_get_def end_flight_def dict_pop_def split: sum.split)

lemma fetch_market_info_ok: "fetch_market_info g cid w = (Ok m, w') \<Longrightarrow> market_ok m"
  by (auto simp: fetch_market_info_def bindS_eq_Ok dest!: parse_market_info_ok)

lemma fold_cache_set_inflight: "cache_inflight (fold (\<lambda>t. cache_set ttl now t v) ts c) = cache_inflight c"
  by (induction ts arbitrary: c) simp_all

lemma load_market_Pair:
  assumes "load_market P cid s = (r, s')"
  shows "cache_inflight (ms_conditions s') = cache_inflight (ms_conditions s) \<and> ms_markets s' = ms_markets s
    \<and> ms_fees s' = ms_fees s \<and> (\<forall>m. r = Ok m \<longrightarrow> market_ok m)"
  using assms fetch_market_info_ok
  by (auto simp: load_market_def bindS_app on_net_def set_conditions_def fold_cache_set_inflight
      split: prod.splits sum.splits)

lemma markets_ok_finish:
  "markets_ok c \<Longrightarrow> (\<forall>m. r = Ok m \<longrightarrow> market_ok m) \<Longrightarrow> markets_ok (finish_get ttl now k f r c)"
  by (auto simp: finish_get_def markets_ok_def split: sum.split)

text \<open>What the caches hold, fresh or not: the condition of a token, and the market of that condition.\<close>

definition cached :: "('k, 'v) cache \<Rightarrow> 'k \<Rightarrow> 'v option" where
  "cached c k = map_option cv_value (map_of (cache_values c) k)"

definition cached_market :: "'w metadata_state \<Rightarrow> string \<Rightarrow> market_info option" where
  "cached_market s token = Option.bind (cached (ms_conditions s) token) (cached (ms_markets s))"

lemma cached_set [simp]: "cached (cache_set ttl now k v c) k' = (if k' = k then Some v else cached c k')"
  by (simp add: cached_def cache_set_def map_of_dict_set)

lemma cached_finish [simp]:
  "cached (finish_get ttl now k f (Ok v) c) k' = (if k' = k then Some v else cached c k')"
  by (simp add: cached_def finish_get_def end_flight_def cache_set_def map_of_dict_set)

lemma cached_fold: "cached c k = Some v \<Longrightarrow> cached (fold (\<lambda>t. cache_set ttl now t v) ts c) k = Some v"
  by (induction ts arbitrary: c) simp_all

text \<open>The two calls of \<open>_resolve_market\<close> keep the invariant, and what they return is what the caches
  then hold.\<close>

lemma condition_get_ok:
  assumes "sync_get ms_conditions set_conditions None now j token (on_net m) False s = (r, s')" "metadata_ok s"
  shows "metadata_ok s'"
proof -
  have "cache_inflight (ms_conditions s) = []" using assms(2) by (simp add: metadata_ok_def quiet_def)
  with assms(1) show ?thesis
  proof (cases rule: sync_get_cases)
    case (load s1)
    then show ?thesis using assms(2)
      by (auto simp: metadata_ok_def quiet_def set_conditions_def finish_single_flight dest!: on_net_Pair)
  qed (use assms in simp)
qed

lemma condition_get_cached:
  assumes "sync_get ms_conditions set_conditions None now j token (on_net m) False s = (Ok cid, s')" "metadata_ok s"
  shows "cached (ms_conditions s') token = Some cid"
proof -
  have "cache_inflight (ms_conditions s) = []" using assms(2) by (simp add: metadata_ok_def quiet_def)
  with assms(1) show ?thesis
    by (cases rule: sync_get_cases) (auto simp: cached_def set_conditions_def finish_get_def end_flight_def
        cache_set_def map_of_dict_set)
qed

lemma load_market_cached:
  assumes "load_market P cid s = (Ok m, s')" "cached (ms_conditions s) token = Some cid"
  shows "cached (ms_conditions s') token = Some cid"
  using assms
  by (auto simp: load_market_def bindS_app on_net_def set_conditions_def cached_fold split: prod.splits sum.splits)

lemma market_get_cached:
  assumes "sync_get ms_markets set_markets ttl now j cid (load_market P cid) force s = (Ok m, s')" "metadata_ok s"
    and "cached (ms_conditions s) token = Some cid"
  shows "cached_market s' token = Some m"
proof -
  have "cache_inflight (ms_markets s) = []" using assms(2) by (simp add: metadata_ok_def quiet_def)
  with assms(1) show ?thesis
  proof (cases rule: sync_get_cases)
    case (hit v)
    then show ?thesis using assms(3) by (simp add: cached_market_def) (simp add: cached_def)
  next
    case (load s1)
    have "cached (ms_conditions s1) token = Some cid"
      using load_market_cached [OF load(1)] assms(3) by (simp add: set_markets_def)
    then show ?thesis by (simp add: load(2) cached_market_def set_markets_def)
  qed
qed

lemma market_get_ok:
  assumes "sync_get ms_markets set_markets ttl now j cid (load_market P cid) force s = (r, s')" "metadata_ok s"
  shows "metadata_ok s' \<and> (\<forall>m. r = Ok m \<longrightarrow> market_ok m)"
proof -
  have "cache_inflight (ms_markets s) = []" using assms(2) by (simp add: metadata_ok_def quiet_def)
  with assms(1) show ?thesis
  proof (cases rule: sync_get_cases)
    case (hit v)
    then show ?thesis using assms(2) by (auto simp: metadata_ok_def markets_ok_def)
  next
    case (load s1)
    have "markets_ok (ms_markets s1)" "cache_inflight (ms_conditions s1) = []" "cache_inflight (ms_fees s1) = []"
      "cache_inflight (ms_markets s1) = [(cid, cache_next (ms_markets s))]" "\<forall>m. r = Ok m \<longrightarrow> market_ok m"
      using load_market_Pair [OF load(1)] assms(2)
      by (auto simp: metadata_ok_def quiet_def set_markets_def markets_ok_def)
    then show ?thesis
      by (auto simp: load(2) metadata_ok_def quiet_def set_markets_def finish_single_flight markets_ok_finish)
  qed
qed

lemma fee_get_ok:
  assumes "sync_get ms_fees set_fees ttl now j code (on_net m) False s = (r, s')" "metadata_ok s"
  shows "metadata_ok s'"
proof -
  have "cache_inflight (ms_fees s) = []" using assms(2) by (simp add: metadata_ok_def quiet_def)
  with assms(1) show ?thesis
  proof (cases rule: sync_get_cases)
    case (load s1)
    then show ?thesis using assms(2)
      by (auto simp: metadata_ok_def quiet_def set_fees_def finish_single_flight dest!: on_net_Pair)
  qed (use assms in simp)
qed

lemma resolve_market_with_ok:
  assumes "resolve_market_with P force token s = (r, s')" "metadata_ok s"
  shows "metadata_ok s' \<and> (\<forall>m. r = Ok m \<longrightarrow> market_ok m \<and> token \<in> set (mkt_token_ids m)
    \<and> cached_market s' token = Some m)"
proof -
  let ?get = "sync_get ms_conditions set_conditions None (now_of P) (join_condition P) token
    (on_net (resolve_condition_by_token (get_json_of P) (PStr token))) False"
  obtain r1 s1 where 1: "?get s = (r1, s1)" by (cases "?get s")
  have ok1: "metadata_ok s1" by (rule condition_get_ok [OF 1 assms(2)])
  show ?thesis
  proof (cases r1)
    case (Inl e)
    then show ?thesis using assms(1) 1 ok1 by (auto simp: resolve_market_with_def bindS_app)
  next
    case (Inr cid)
    let ?market = "sync_get ms_markets set_markets (Some METADATA_TTL_S) (now_of P) (join_market P) cid
      (load_market P cid) force"
    obtain r2 s2 where 2: "?market s1 = (r2, s2)" by (cases "?market s1")
    have ok2: "metadata_ok s2 \<and> (\<forall>m. r2 = Ok m \<longrightarrow> market_ok m)" by (rule market_get_ok [OF 2 ok1])
    have "cached_market s2 token = Some m" if "r2 = Ok m" for m
      using market_get_cached [OF _ ok1 condition_get_cached] 1 2 assms(2) Inr that by blast
    then show ?thesis using assms(1) 1 2 ok2 Inr
      by (cases r2)
        (auto simp: resolve_market_with_def bindS_app metadata_ok_def quiet_def markets_ok_def
          set_markets_def set_conditions_def split: if_splits)
  qed
qed

text \<open>The cache provides the markets of the order code.\<close>

interpretation metadata: market_provider metadata_ok "resolve_market P" "fetch_current_market P" cached_market for P
  by unfold_locales
    (auto simp: resolve_market_def fetch_current_market_def dest!: resolve_market_with_ok)

end
