(* ===== verification/Py_Bytes.thy ===== *)
theory Py_Bytes imports Py_Text "HOL-Library.Word" begin

text \<open>
  Bytes and their texts: \<open>str\<close> of an integer, \<open>bytes.hex\<close> and \<open>bytes.fromhex\<close>, UTF-8, and base64 in
  both alphabets. Each encoder comes with the lemma that its decoder undoes it.
\<close>

type_synonym byte = "8 word"

section \<open>Integers in decimal\<close>

definition digit_char :: "int \<Rightarrow> char" where
  "digit_char d = ''0123456789'' ! nat d"

function dec_digits :: "int \<Rightarrow> string" where
  "dec_digits n = (if n < 10 then [digit_char n] else dec_digits (n div 10) @ [digit_char (n mod 10)])"
  by pat_completeness auto
termination by (relation "measure nat") auto

declare dec_digits.simps [simp del]

text \<open>\<open>str(n)\<close>\<close>

definition str_int :: "int \<Rightarrow> string" where
  "str_int n = (if n < 0 then CHR ''-'' # dec_digits (- n) else dec_digits n)"

lemma below_10: "0 \<le> (d::int) \<Longrightarrow> d < 10 \<Longrightarrow> d \<in> {0, 1, 2, 3, 4, 5, 6, 7, 8, 9}"
proof -
  assume "0 \<le> d" "d < 10"
  then have "nat d < 10" by simp
  then have "nat d \<in> {0, 1, 2, 3, 4, 5, 6, 7, 8, 9}" by (auto simp: numeral_eq_Suc less_Suc_eq)
  with \<open>0 \<le> d\<close> show ?thesis by (auto simp: nat_eq_iff)
qed

lemma digit_char_value:
  "0 \<le> d \<Longrightarrow> d < 10 \<Longrightarrow> code_of (digit_char d) = 48 + d"
  by (drule (1) below_10) (elim insertE emptyE; simp add: digit_char_def)

lemma digit_char_digit: "0 \<le> d \<Longrightarrow> d < 10 \<Longrightarrow> is_digit (digit_char d)"
  by (simp add: is_digit_def digit_char_value)

lemma dec_digits_all: "0 \<le> n \<Longrightarrow> list_all is_digit (dec_digits n)"
proof (induction n rule: dec_digits.induct)
  case (1 n)
  then show ?case
    by (cases "n < 10") (simp_all add: dec_digits.simps [of n] digit_char_digit)
qed

lemma dec_digits_nonempty [simp]: "dec_digits n \<noteq> []"
  by (simp add: dec_digits.simps)

lemma digits_int_append: "digits_int acc (xs @ ys) = digits_int (digits_int acc xs) ys"
  by (induction xs arbitrary: acc) simp_all

lemma digits_int_dec_digits: "0 \<le> n \<Longrightarrow> digits_int 0 (dec_digits n) = n"
proof (induction n rule: dec_digits.induct)
  case (1 n)
  show ?case
  proof (cases "n < 10")
    case True
    then show ?thesis using 1(2) by (simp add: dec_digits.simps [of n] digit_char_value)
  next
    case False
    then have "digits_int 0 (dec_digits n) = n div 10 * 10 + n mod 10"
      using 1 by (simp add: dec_digits.simps [of n] digits_int_append digit_char_value)
    then show ?thesis by simp
  qed
qed

lemma digit_facts:
  assumes "is_digit c"
  shows "digit_value c = Some (code_of c - 48)" "code_of c < 58" "c \<noteq> CHR ''_''" "c \<noteq> CHR ''-''"
    "c \<noteq> CHR ''+''" "\<not> is_space c"
  using assms by (auto simp: is_digit_def digit_value_def is_space_def Let_def)

lemma int_digits_decimal:
  "list_all is_digit s \<Longrightarrow> \<not> need \<or> s \<noteq> [] \<Longrightarrow> int_digits 10 acc need s = Some (digits_int acc s)"
  by (induction s arbitrary: acc need) (auto simp: digit_facts algebra_simps)

lemma filter_underscore: "list_all is_digit s \<Longrightarrow> filter (\<lambda>c. c \<noteq> CHR ''_'') s = s"
  by (induction s) (auto simp: digit_facts)

text \<open>\<open>int(str(n)) = n\<close>, up to the digit limit of \<open>int\<close>.\<close>

lemma py_int_digits:
  assumes "list_all is_digit s" "s \<noteq> []" "length s \<le> 4300"
  shows "py_int s 10 = Some (digits_int 0 s)"
proof -
  have "is_digit (hd s)" "is_digit (last s)" using assms by (auto simp: list_all_iff)
  then have "strip s = s" using assms(2) by (intro strip_id) (auto simp: digit_facts)
  moreover obtain c cs where s: "s = c # cs" using assms(2) by (cases s) auto
  moreover have "\<not> base_prefix 10 s" by (auto simp: base_prefix_def split: list.split)
  ultimately show ?thesis using assms int_digits_decimal [of s True 0]
    by (simp add: py_int_def unsigned_int_def digit_limit_ok_def filter_underscore digit_facts)
qed

lemma py_int_str_int:
  assumes "length (dec_digits \<bar>n\<bar>) \<le> 4300"
  shows "py_int (str_int n) 10 = Some n"
proof (cases "n < 0")
  case False
  then show ?thesis using py_int_digits [of "dec_digits n"] assms
    by (simp add: str_int_def dec_digits_all digits_int_dec_digits)
next
  case True
  let ?s = "dec_digits (- n)"
  have all: "list_all is_digit ?s" using True by (intro dec_digits_all) simp
  then have "is_digit (last ?s)" by (simp add: list_all_iff)
  then have "strip (CHR ''-'' # ?s) = CHR ''-'' # ?s" by (intro strip_id) (auto simp: digit_facts(6), simp add: is_space_def)
  moreover have "\<not> base_prefix 10 ?s" by (auto simp: base_prefix_def split: list.split)
  ultimately show ?thesis using True assms all int_digits_decimal [of ?s True 0]
    by (simp add: str_int_def py_int_def unsigned_int_def digit_limit_ok_def filter_underscore
        digits_int_dec_digits)
qed

lemma length_dec_digits: "0 \<le> n \<Longrightarrow> n < 10 ^ k \<Longrightarrow> 0 < k \<Longrightarrow> length (dec_digits n) \<le> k"
proof (induction n arbitrary: k rule: dec_digits.induct)
  case (1 n)
  show ?case
  proof (cases "n < 10")
    case False
    then obtain j where k: "k = Suc j" "0 < j" using 1(3,4) by (cases k; cases "k - 1") auto
    have "n div 10 < 10 ^ j" using 1(3) k by (simp add: div_less_iff_less_mult mult.commute)
    then have "length (dec_digits (n div 10)) \<le> j" using 1 k False by simp
    then show ?thesis using False k by (simp add: dec_digits.simps [of n])
  qed (use 1 in \<open>simp add: dec_digits.simps [of n]\<close>)
qed

section \<open>Hexadecimal bytes\<close>

definition hex_byte :: "byte \<Rightarrow> string" where
  "hex_byte b = hex_fixed 2 (uint b)"

definition bytes_hex :: "byte list \<Rightarrow> string" where
  "bytes_hex bs = concat (map hex_byte bs)"

text \<open>\<open>bytes.fromhex\<close> skips ASCII whitespace between bytes; \<open>None\<close> is the ValueError.\<close>

definition is_ascii_space :: "char \<Rightarrow> bool" where
  "is_ascii_space c = (let n = code_of c in (9 \<le> n \<and> n \<le> 13) \<or> n = 32)"

fun bytes_fromhex :: "string \<Rightarrow> byte list option" where
  "bytes_fromhex [] = Some []"
| "bytes_fromhex [c] = (if is_ascii_space c then Some [] else None)"
| "bytes_fromhex (c # d # cs) =
     (if is_ascii_space c then bytes_fromhex (d # cs)
      else if is_hex_digit c \<and> is_hex_digit d then
        map_option (\<lambda>bs. word_of_int (the (digit_value c) * 16 + the (digit_value d)) # bs)
          (bytes_fromhex cs)
      else None)"

lemma length_bytes_hex [simp]: "length (bytes_hex bs) = 2 * length bs"
  by (induction bs) (simp_all add: bytes_hex_def hex_byte_def)

lemma bytes_hex_append [simp]: "bytes_hex (xs @ ys) = bytes_hex xs @ bytes_hex ys"
  by (simp add: bytes_hex_def)

lemma bytes_hex_simps [simp]: "bytes_hex [] = []" "bytes_hex (b # bs) = hex_byte b @ bytes_hex bs"
  by (simp_all add: bytes_hex_def)

lemma hex_byte_chars:
  "hex_byte b = [hex_char (uint b div 16 mod 16), hex_char (uint b mod 16)]"
  by (simp add: hex_byte_def numeral_2_eq_2)

lemma hex_char_digit: "0 \<le> d \<Longrightarrow> d < 16 \<Longrightarrow> is_hex_digit (hex_char d)"
  by (simp add: is_hex_digit_def digit_value_hex_char)

lemma not_ascii_space_hex: "is_hex_digit c \<Longrightarrow> \<not> is_ascii_space c"
  using hex_digit_plain(1) [of c] by (auto simp: is_space_def is_ascii_space_def Let_def)

lemma uint_byte: "0 \<le> uint (b :: byte)" "uint (b :: byte) < 256"
  using uint_lt2p [of b] by simp_all

lemma bytes_fromhex_hex [simp]: "bytes_fromhex (bytes_hex bs) = Some bs"
proof (induction bs)
  case (Cons b bs)
  have d: "0 \<le> uint b div 16 mod 16" "uint b div 16 mod 16 < 16" "0 \<le> uint b mod 16" "uint b mod 16 < 16"
    by simp_all
  have "uint b div 16 < 16" "0 \<le> uint b div 16" using uint_byte [of b] by linarith+
  then have "uint b div 16 mod 16 = uint b div 16" by simp
  then have "uint b div 16 mod 16 * 16 + uint b mod 16 = uint b" by simp
  then show ?case using Cons d
    by (simp add: hex_byte_chars hex_char_digit not_ascii_space_hex digit_value_hex_char)
qed simp

section \<open>UTF-8\<close>

text \<open>Text has code points below 256 here; decoding fails on anything else.\<close>

definition utf8_char :: "char \<Rightarrow> byte list" where
  "utf8_char c =
     (let n = code_of c in
      if n < 128 then [word_of_int n] else [word_of_int (192 + n div 64), word_of_int (128 + n mod 64)])"

definition utf8_encode :: "string \<Rightarrow> byte list" where
  "utf8_encode s = concat (map utf8_char s)"

fun utf8_decode :: "byte list \<Rightarrow> string option" where
  "utf8_decode [] = Some []"
| "utf8_decode (b # bs) =
     (let n = uint b in
      if n < 128 then map_option (Cons (char_of n)) (utf8_decode bs)
      else if 194 \<le> n \<and> n \<le> 195 then
        (case bs of
           [] \<Rightarrow> None
         | b2 # bs2 \<Rightarrow>
             let m = uint b2 in
             if 128 \<le> m \<and> m < 192
             then map_option (Cons (char_of ((n - 192) * 64 + (m - 128)))) (utf8_decode bs2)
             else None)
      else None)"

lemma code_of_bounds: "0 \<le> code_of c" "code_of c < 256"
  by (cases c; simp add: of_char_def)+

lemma uint_small_byte: "0 \<le> n \<Longrightarrow> n < 256 \<Longrightarrow> uint (word_of_int n :: byte) = n"
  by (simp add: uint_word_of_int)

lemma char_of_code [simp]: "char_of (code_of c) = c"
  by simp

lemma utf8_decode_char: "utf8_decode (utf8_char c @ bs) = map_option (Cons c) (utf8_decode bs)"
proof (cases "code_of c < 128")
  case True
  then show ?thesis using code_of_bounds [of c] by (simp add: utf8_char_def Let_def uint_small_byte)
next
  case False
  define n where "n = code_of c"
  have n: "128 \<le> n" "n < 256" using False code_of_bounds [of c] by (simp_all add: n_def)
  define b1 b2 :: byte where "b1 = word_of_int (192 + n div 64)" and "b2 = word_of_int (128 + n mod 64)"
  have m: "2 \<le> n div 64" "n div 64 \<le> 3" "0 \<le> n mod 64" "n mod 64 < 64" using n by linarith+
  have "uint b1 = 192 + n div 64" "uint b2 = 128 + n mod 64"
    unfolding b1_def b2_def using m by (intro uint_small_byte; linarith)+
  moreover have "n div 64 * 64 + n mod 64 = n" by simp
  moreover have "char_of n = c" by (simp add: n_def)
  moreover have "utf8_char c = [b1, b2]" using n by (simp add: utf8_char_def Let_def b1_def b2_def n_def)
  ultimately show ?thesis using m by simp
qed

lemma utf8_round_trip [simp]: "utf8_decode (utf8_encode s) = Some s"
  by (induction s) (simp_all add: utf8_encode_def utf8_decode_char)

section \<open>Base64\<close>

text \<open>The alphabet \<open>A-Z a-z 0-9 + /\<close>.\<close>

definition b64_char :: "int \<Rightarrow> char" where
  "b64_char d =
     (if d < 26 then char_of (d + 65) else if d < 52 then char_of (d + 71)
      else if d < 62 then char_of (d - 4) else if d = 62 then CHR ''+'' else CHR ''/'')"

definition b64_value :: "char \<Rightarrow> int option" where
  "b64_value c =
     (let n = code_of c in
      if 65 \<le> n \<and> n \<le> 90 then Some (n - 65)
      else if 97 \<le> n \<and> n \<le> 122 then Some (n - 71)
      else if 48 \<le> n \<and> n \<le> 57 then Some (n + 4)
      else if n = 43 then Some 62
      else if n = 47 then Some 63
      else None)"

fun b64_encode :: "byte list \<Rightarrow> string" where
  "b64_encode [] = []"
| "b64_encode [a] = [b64_char (uint a div 4), b64_char (uint a mod 4 * 16), CHR ''='', CHR ''='']"
| "b64_encode [a, b] =
     [b64_char (uint a div 4), b64_char (uint a mod 4 * 16 + uint b div 16),
      b64_char (uint b mod 16 * 4), CHR ''='']"
| "b64_encode (a # b # c # bs) =
     b64_char (uint a div 4) # b64_char (uint a mod 4 * 16 + uint b div 16) #
     b64_char (uint b mod 16 * 4 + uint c div 64) # b64_char (uint c mod 64) # b64_encode bs"

text \<open>\<open>base64.b64decode(s, validate=True)\<close>; \<open>None\<close> is the \<open>binascii.Error\<close>.\<close>

fun b64_decode :: "string \<Rightarrow> byte list option" where
  "b64_decode [] = Some []"
| "b64_decode (w # x # y # z # rest) =
     (case (b64_value w, b64_value x) of
        (Some a, Some b) \<Rightarrow>
          if y = CHR ''='' then
            (if z = CHR ''='' \<and> rest = [] then Some [word_of_int (a * 4 + b div 16)] else None)
          else (case b64_value y of
              None \<Rightarrow> None
            | Some c \<Rightarrow>
                if z = CHR ''='' then
                  (if rest = [] then
                     Some [word_of_int (a * 4 + b div 16), word_of_int (b mod 16 * 16 + c div 4)]
                   else None)
                else (case b64_value z of
                    None \<Rightarrow> None
                  | Some d \<Rightarrow>
                      map_option (\<lambda>bs. word_of_int (a * 4 + b div 16)
                          # word_of_int (b mod 16 * 16 + c div 4) # word_of_int (c mod 4 * 64 + d) # bs)
                        (b64_decode rest)))
      | _ \<Rightarrow> None)"
| "b64_decode _ = None"

lemma code_of_char_of: "0 \<le> n \<Longrightarrow> n < 256 \<Longrightarrow> code_of (char_of (n :: int)) = n"
  by simp

lemma b64_value_char:
  assumes "0 \<le> d" "d < 64"
  shows "b64_value (b64_char d) = Some d" "b64_char d \<noteq> CHR ''=''"
proof -
  have eq: "code_of (CHR ''='') = 61" by simp
  have "d < 26 \<or> 26 \<le> d \<and> d < 52 \<or> 52 \<le> d \<and> d < 62 \<or> d = 62 \<or> d = 63" using assms by linarith
  then have "b64_value (b64_char d) = Some d \<and> code_of (b64_char d) \<noteq> 61"
    using assms by (elim disjE) (simp_all add: b64_char_def b64_value_def Let_def)
  then show "b64_value (b64_char d) = Some d" "b64_char d \<noteq> CHR ''=''" using eq by auto
qed

lemma div_pack: "0 \<le> y \<Longrightarrow> y < m \<Longrightarrow> (x * m + y) div m = (x :: int)"
  by (simp add: div_add1_eq)

lemma mod_pack: "0 \<le> y \<Longrightarrow> y < m \<Longrightarrow> (x * m + y) mod m = (y :: int)"
  by (simp add: mod_add_eq)

lemma sextets:
  fixes a b c :: int
  assumes "0 \<le> a" "a < 256" "0 \<le> b" "b < 256" "0 \<le> c" "c < 256"
  shows "0 \<le> a div 4" "a div 4 < 64" "0 \<le> a mod 4 * 16" "a mod 4 * 16 < 64"
    "0 \<le> a mod 4 * 16 + b div 16" "a mod 4 * 16 + b div 16 < 64"
    "0 \<le> b mod 16 * 4" "b mod 16 * 4 < 64"
    "0 \<le> b mod 16 * 4 + c div 64" "b mod 16 * 4 + c div 64 < 64" "0 \<le> c mod 64" "c mod 64 < 64"
    "a div 4 * 4 + (a mod 4 * 16) div 16 = a"
    "a div 4 * 4 + (a mod 4 * 16 + b div 16) div 16 = a"
    "(a mod 4 * 16 + b div 16) mod 16 * 16 + (b mod 16 * 4) div 4 = b"
    "(a mod 4 * 16 + b div 16) mod 16 * 16 + (b mod 16 * 4 + c div 64) div 4 = b"
    "(b mod 16 * 4 + c div 64) mod 4 * 64 + c mod 64 = c"
proof -
  have d: "0 \<le> a div 4" "a div 4 < 64" "0 \<le> b div 16" "b div 16 < 16" "0 \<le> c div 64" "c div 64 < 4"
    using assms by linarith+
  have m: "0 \<le> a mod 4" "a mod 4 < 4" "0 \<le> b mod 16" "b mod 16 < 16" "0 \<le> c mod 64" "c mod 64 < 64" by simp_all
  show "0 \<le> a div 4" "a div 4 < 64" "0 \<le> a mod 4 * 16" "a mod 4 * 16 < 64"
    "0 \<le> a mod 4 * 16 + b div 16" "a mod 4 * 16 + b div 16 < 64"
    "0 \<le> b mod 16 * 4" "b mod 16 * 4 < 64"
    "0 \<le> b mod 16 * 4 + c div 64" "b mod 16 * 4 + c div 64 < 64" "0 \<le> c mod 64" "c mod 64 < 64"
    using d m by linarith+
  show "a div 4 * 4 + (a mod 4 * 16) div 16 = a" by simp
  show "a div 4 * 4 + (a mod 4 * 16 + b div 16) div 16 = a"
    by (simp only: div_pack [OF d(3,4)] div_mult_mod_eq)
  show "(a mod 4 * 16 + b div 16) mod 16 * 16 + (b mod 16 * 4) div 4 = b"
    by (simp only: mod_pack [OF d(3,4)]) simp
  show "(a mod 4 * 16 + b div 16) mod 16 * 16 + (b mod 16 * 4 + c div 64) div 4 = b"
    by (simp only: mod_pack [OF d(3,4)] div_pack [OF d(5,6)] div_mult_mod_eq)
  show "(b mod 16 * 4 + c div 64) mod 4 * 64 + c mod 64 = c"
    by (simp only: mod_pack [OF d(5,6)] div_mult_mod_eq)
qed

lemma b64_decode_quad:
  assumes "0 \<le> p" "p < 64" "0 \<le> q" "q < 64" "0 \<le> r" "r < 64" "0 \<le> t" "t < 64"
  shows "b64_decode [b64_char p, b64_char q, CHR ''='', CHR ''=''] = Some [word_of_int (p * 4 + q div 16)]"
    "b64_decode [b64_char p, b64_char q, b64_char r, CHR ''='']
      = Some [word_of_int (p * 4 + q div 16), word_of_int (q mod 16 * 16 + r div 4)]"
    "b64_decode (b64_char p # b64_char q # b64_char r # b64_char t # rest)
      = map_option (\<lambda>bs. word_of_int (p * 4 + q div 16) # word_of_int (q mod 16 * 16 + r div 4)
          # word_of_int (r mod 4 * 64 + t) # bs) (b64_decode rest)"
  using b64_value_char [OF assms(1,2)] b64_value_char [OF assms(3,4)] b64_value_char [OF assms(5,6)]
    b64_value_char [OF assms(7,8)] by (simp_all only: b64_decode.simps option.case prod.case simp_thms if_True if_False)

lemma b64_round_trip [simp]: "b64_decode (b64_encode bs) = Some bs"
proof (induction bs rule: b64_encode.induct)
  case (2 a)
  note s = sextets [OF uint_byte [of a] uint_byte [of a] uint_byte [of a]]
  show ?case
    by (simp only: b64_encode.simps b64_decode_quad(1) [OF s(1-4) s(1,2) s(1,2)] s(13) word_of_int_uint)
next
  case (3 a b)
  note s = sextets [OF uint_byte [of a] uint_byte [of b] uint_byte [of b]]
  show ?case
    by (simp only: b64_encode.simps b64_decode_quad(2) [OF s(1,2,5-8) s(1,2)] s(14,15) word_of_int_uint)
next
  case (4 a b c bs)
  note s = sextets [OF uint_byte [of a] uint_byte [of b] uint_byte [of c]]
  show ?case
    by (simp only: b64_encode.simps b64_decode_quad(3) [OF s(1,2,5,6,9-12)] s(14,16,17) word_of_int_uint
        4 option.map)
qed simp

end
