(* ===== verification/Py_Json.thy ===== *)
theory Py_Json imports Py_Bytes "HOL-Library.List_Lexorder" begin

text \<open>
  The \<open>json\<close> module on text of code points below 256: \<open>dumps\<close> with compact separators, sorted keys and
  ASCII output, and \<open>loads\<close>. A float keeps the text of its literal. The last section proves that
  \<open>loads\<close> reads back what \<open>dumps\<close> writes for an object of texts, integers, truth values and lists of
  them, the shape of a pagination cursor and of the query it belongs to.
\<close>

section \<open>Writing\<close>

definition json_char :: "char \<Rightarrow> string" where
  "json_char c =
     (let n = code_of c in
      if n = 34 then [CHR 0x5C, CHR 0x22]
      else if n = 92 then [CHR 0x5C, CHR 0x5C]
      else if n = 8 then [CHR 0x5C, CHR ''b'']
      else if n = 9 then [CHR 0x5C, CHR ''t'']
      else if n = 10 then [CHR 0x5C, CHR ''n'']
      else if n = 12 then [CHR 0x5C, CHR ''f'']
      else if n = 13 then [CHR 0x5C, CHR ''r'']
      else if 32 \<le> n \<and> n \<le> 126 then [c]
      else [CHR 0x5C, CHR ''u''] @ hex_fixed 4 n)"

definition json_body :: "string \<Rightarrow> string" where
  "json_body s = concat (map json_char s)"

definition json_string :: "string \<Rightarrow> string" where
  "json_string s = [CHR 0x22] @ json_body s @ [CHR 0x22]"

fun join_with :: "char \<Rightarrow> string list \<Rightarrow> string" where
  "join_with c [] = []"
| "join_with c [s] = s"
| "join_with c (s # t # ss) = s @ [c] @ join_with c (t # ss)"

text \<open>\<open>dumps(v, sort_keys=True, separators=(",", ":"), default=...)\<close>\<close>

fun json_dumps :: "(pyval \<Rightarrow> string) \<Rightarrow> pyval \<Rightarrow> string" where
  "json_dumps other PNone = ''null''"
| "json_dumps other (PBool b) = (if b then ''true'' else ''false'')"
| "json_dumps other (PInt n) = str_int n"
| "json_dumps other (PFloat t) =
     (if t = ''nan'' then ''NaN'' else if t = ''inf'' then ''Infinity''
      else if t = ''-inf'' then ''-Infinity'' else t)"
| "json_dumps other (PStr s) = json_string s"
| "json_dumps other (PList xs) = [CHR ''['' ] @ join_with CHR '','' (map (json_dumps other) xs) @ [CHR '']'']"
| "json_dumps other (PDict d) =
     [CHR ''{''] @ join_with CHR '',''
        (map (\<lambda>p. json_string (fst p) @ [CHR '':''] @ snd p)
          (sort_key fst (map (\<lambda>p. (fst p, json_dumps other (snd p))) d))) @ [CHR ''}'']"
| "json_dumps other (PDecimal x) = json_string (other (PDecimal x))"
| "json_dumps other PObject = json_string (other PObject)"

section \<open>Reading\<close>

definition is_json_space :: "char \<Rightarrow> bool" where
  "is_json_space c = (let n = code_of c in n = 32 \<or> n = 9 \<or> n = 10 \<or> n = 13)"

definition skip_ws :: "string \<Rightarrow> string" where
  "skip_ws s = dropWhile is_json_space s"

definition hex4 :: "char \<Rightarrow> char \<Rightarrow> char \<Rightarrow> char \<Rightarrow> int option" where
  "hex4 a b c d =
     (if list_all is_hex_digit [a, b, c, d] then int_digits 16 0 True [a, b, c, d] else None)"

definition simple_escape :: "char \<Rightarrow> char option" where
  "simple_escape c =
     (let n = code_of c in
      if n = 34 \<or> n = 92 \<or> n = 47 then Some c
      else if c = CHR ''b'' then Some (CHR 0x08)
      else if c = CHR ''f'' then Some (CHR 0x0C)
      else if c = CHR ''n'' then Some (CHR 0x0A)
      else if c = CHR ''r'' then Some (CHR 0x0D)
      else if c = CHR ''t'' then Some (CHR 0x09)
      else None)"

text \<open>The text up to the closing quote.\<close>

function parse_str :: "string \<Rightarrow> (string \<times> string) option" where
  "parse_str [] = None"
| "parse_str (x # xs) =
     (if code_of x = 34 then Some ([], xs)
      else if code_of x < 32 then None
      else if code_of x = 92 then
        (case xs of
           [] \<Rightarrow> None
         | e # ys \<Rightarrow>
             if e = CHR ''u'' then
               (case ys of
                  a # b # c # d # zs \<Rightarrow>
                    (case hex4 a b c d of
                       None \<Rightarrow> None
                     | Some n \<Rightarrow>
                         if n < 256 then map_option (\<lambda>(t, r). (char_of n # t, r)) (parse_str zs) else None)
                | _ \<Rightarrow> None)
             else (case simple_escape e of
                 None \<Rightarrow> None
               | Some k \<Rightarrow> map_option (\<lambda>(t, r). (k # t, r)) (parse_str ys)))
      else map_option (\<lambda>(t, r). (x # t, r)) (parse_str xs))"
  by pat_completeness auto
termination by (relation "measure length") auto

declare parse_str.simps [simp del]

text \<open>\<open>-?(0|[1-9]\\d*)(\\.\\d+)?([eE][-+]?\\d+)?\<close>\<close>

definition json_exponent :: "string \<Rightarrow> string \<times> string" where
  "json_exponent s =
     (case s of
        e # r \<Rightarrow>
          if e = CHR ''e'' \<or> e = CHR ''E'' then
            let sign = (case r of c # _ \<Rightarrow> if c = CHR ''-'' \<or> c = CHR ''+'' then [c] else [] | [] \<Rightarrow> []);
                r' = drop (length sign) r; ds = takeWhile is_digit r'
            in if ds = [] then ([], s) else (e # sign @ ds, dropWhile is_digit r')
          else ([], s)
      | [] \<Rightarrow> ([], []))"

definition json_fraction :: "string \<Rightarrow> string \<times> string" where
  "json_fraction s =
     (case s of
        p # r \<Rightarrow>
          if p = CHR ''.'' \<and> takeWhile is_digit r \<noteq> [] then (p # takeWhile is_digit r, dropWhile is_digit r)
          else ([], s)
      | [] \<Rightarrow> ([], []))"

definition json_unsigned :: "string \<Rightarrow> string \<Rightarrow> (pyval \<times> string) option" where
  "json_unsigned sign r =
     (let digits = takeWhile is_digit r;
          ip = (case digits of c # _ \<Rightarrow> if c = CHR ''0'' then [c] else digits | [] \<Rightarrow> []);
          (frac, r2) = json_fraction (drop (length ip) r);
          (ex, r3) = json_exponent r2
      in if ip = [] then None
         else if frac = [] \<and> ex = [] then map_option (\<lambda>n. (PInt n, r3)) (py_int (sign @ ip) 10)
         else Some (PFloat (sign @ ip @ frac @ ex), r3))"

definition json_number :: "string \<Rightarrow> (pyval \<times> string) option" where
  "json_number s =
     (case s of
        c # r \<Rightarrow> if c = CHR ''-'' then json_unsigned [c] r else json_unsigned [] s
      | [] \<Rightarrow> None)"

fun json_value :: "nat \<Rightarrow> string \<Rightarrow> (pyval \<times> string) option"
  and json_elements :: "nat \<Rightarrow> pyval list \<Rightarrow> string \<Rightarrow> (pyval \<times> string) option"
  and json_members :: "nat \<Rightarrow> (string \<times> pyval) list \<Rightarrow> string \<Rightarrow> (pyval \<times> string) option" where
  "json_value 0 s = None"
| "json_value (Suc n) s =
     (case s of
        [] \<Rightarrow> None
      | c # r \<Rightarrow>
          if code_of c = 34 then map_option (\<lambda>(t, r'). (PStr t, r')) (parse_str r)
          else if c = CHR ''{'' then
            (case skip_ws r of
               [] \<Rightarrow> None
             | d # r2 \<Rightarrow> if d = CHR ''}'' then Some (PDict [], r2) else json_members n [] (d # r2))
          else if c = CHR ''['' then
            (case skip_ws r of
               [] \<Rightarrow> None
             | d # r2 \<Rightarrow> if d = CHR '']'' then Some (PList [], r2) else json_elements n [] (d # r2))
          else if starts_with ''null'' s then Some (PNone, drop 4 s)
          else if starts_with ''true'' s then Some (PBool True, drop 4 s)
          else if starts_with ''false'' s then Some (PBool False, drop 5 s)
          else if starts_with ''NaN'' s then Some (PFloat ''nan'', drop 3 s)
          else if starts_with ''Infinity'' s then Some (PFloat ''inf'', drop 8 s)
          else if starts_with ''-Infinity'' s then Some (PFloat ''-inf'', drop 9 s)
          else json_number s)"
| "json_elements 0 acc s = None"
| "json_elements (Suc n) acc s =
     (case json_value n s of
        None \<Rightarrow> None
      | Some (v, r) \<Rightarrow>
          (case skip_ws r of
             [] \<Rightarrow> None
           | d # r2 \<Rightarrow>
               if d = CHR '']'' then Some (PList (acc @ [v]), r2)
               else if d = CHR '','' then json_elements n (acc @ [v]) (skip_ws r2)
               else None))"
| "json_members 0 acc s = None"
| "json_members (Suc n) acc s =
     (case s of
        [] \<Rightarrow> None
      | q # r \<Rightarrow>
          if code_of q \<noteq> 34 then None
          else (case parse_str r of
              None \<Rightarrow> None
            | Some (k, r1) \<Rightarrow>
                (case skip_ws r1 of
                   [] \<Rightarrow> None
                 | col # r2 \<Rightarrow>
                     if col \<noteq> CHR '':'' then None
                     else (case json_value n (skip_ws r2) of
                         None \<Rightarrow> None
                       | Some (v, r3) \<Rightarrow>
                           (case skip_ws r3 of
                              [] \<Rightarrow> None
                            | d # r4 \<Rightarrow>
                                if d = CHR ''}'' then Some (PDict (dict_set k v acc), r4)
                                else if d = CHR '','' then json_members n (dict_set k v acc) (skip_ws r4)
                                else None)))))"

declare json_value.simps(2) [simp del]

text \<open>\<open>json.loads\<close>; \<open>None\<close> is the ValueError. Each call consumes text, so its length bounds the depth.\<close>

definition json_loads :: "string \<Rightarrow> pyval option" where
  "json_loads s =
     (case json_value (2 * length s + 2) (skip_ws s) of
        None \<Rightarrow> None
      | Some (v, r) \<Rightarrow> if skip_ws r = [] then Some v else None)"

section \<open>Reading back what was written\<close>

lemma hex4_hex_fixed:
  assumes "0 \<le> n" "n < 65536"
  shows "\<exists>a b c d. hex_fixed 4 n = [a, b, c, d] \<and> hex4 a b c d = Some n"
proof -
  obtain a b c d where h: "hex_fixed 4 n = [a, b, c, d]"
    using length_hex_fixed [of 4 n] by (auto simp: numeral_eq_Suc length_Suc_conv)
  have "list_all is_hex_digit [a, b, c, d]" using list_all_hex_fixed [of 4 n] by (simp only: h)
  moreover have "int_digits 16 0 True [a, b, c, d] = Some n"
    using int_digits_hex_fixed [of 0 True 4 n] assms by (simp only: h) simp
  ultimately show ?thesis using h by (simp add: hex4_def)
qed

lemma char_by_code: "code_of c = n \<Longrightarrow> c = char_of n"
  by auto

lemma char_of_special:
  "char_of (34 :: int) = CHR 0x22" "char_of (92 :: int) = CHR 0x5C" "char_of (8 :: int) = CHR 0x08"
  "char_of (9 :: int) = CHR 0x09" "char_of (10 :: int) = CHR 0x0A" "char_of (12 :: int) = CHR 0x0C"
  "char_of (13 :: int) = CHR 0x0D"
proof -
  have "code_of (CHR 0x22) = 34" "code_of (CHR 0x5C) = 92" "code_of (CHR 0x08) = 8" "code_of (CHR 0x09) = 9"
    "code_of (CHR 0x0A) = 10" "code_of (CHR 0x0C) = 12" "code_of (CHR 0x0D) = 13" by simp_all
  then show "char_of (34 :: int) = CHR 0x22" "char_of (92 :: int) = CHR 0x5C" "char_of (8 :: int) = CHR 0x08"
    "char_of (9 :: int) = CHR 0x09" "char_of (10 :: int) = CHR 0x0A" "char_of (12 :: int) = CHR 0x0C"
    "char_of (13 :: int) = CHR 0x0D" by (metis char_of_code)+
qed

lemma parse_json_char:
  "parse_str (json_char c @ more) = map_option (\<lambda>(t, r). (c # t, r)) (parse_str more)"
proof -
  define n where "n = code_of c"
  have n: "0 \<le> n" "n < 256" "c = char_of n" using code_of_bounds [of c] by (simp_all add: n_def)
  consider (special) "n \<in> {34, 92, 8, 9, 10, 12, 13}"
    | (plain) "n \<notin> {34, 92, 8, 9, 10, 12, 13}" "32 \<le> n" "n \<le> 126"
    | (escape) "n \<notin> {34, 92, 8, 9, 10, 12, 13}" "\<not> (32 \<le> n \<and> n \<le> 126)" by blast
  then show ?thesis
  proof cases
    case special
    then show ?thesis using n(3)
      by (elim insertE emptyE)
        (simp_all add: json_char_def parse_str.simps simple_escape_def Let_def char_of_special)
  next
    case plain
    then show ?thesis by (simp add: json_char_def parse_str.simps n_def [symmetric] Let_def)
  next
    case escape
    obtain a b c' d where h: "hex_fixed 4 n = [a, b, c', d]" "hex4 a b c' d = Some n"
      using hex4_hex_fixed [of n] n by auto
    have "json_char c = [CHR 0x5C, CHR ''u'', a, b, c', d]"
      using escape h(1) by (auto simp: json_char_def n_def [symmetric] Let_def)
    then show ?thesis using h(2) n by (simp add: parse_str.simps)
  qed
qed

lemma parse_str_body: "parse_str (json_body s @ CHR 0x22 # rest) = Some (s, rest)"
  by (induction s) (simp_all add: json_body_def parse_json_char, simp add: parse_str.simps)

lemma dec_digits_no_zero: "0 < n \<Longrightarrow> hd (dec_digits n) \<noteq> CHR ''0''"
proof (induction n rule: dec_digits.induct)
  case (1 n)
  show ?case
  proof (cases "n < 10")
    case True
    then have "code_of (digit_char n) \<noteq> code_of CHR ''0''" using 1(2) by (simp add: digit_char_value)
    then show ?thesis using True by (auto simp: dec_digits.simps [of n])
  next
    case False
    then have "0 < n div 10" by linarith
    then show ?thesis using 1 False by (simp add: dec_digits.simps [of n])
  qed
qed

text \<open>Texts, integers and truth values, lists of them, and what may follow them.\<close>

definition scalar :: "pyval \<Rightarrow> bool" where
  "scalar v = (case v of PStr _ \<Rightarrow> True | PInt k \<Rightarrow> length (dec_digits \<bar>k\<bar>) \<le> 4300 | PBool _ \<Rightarrow> True | _ \<Rightarrow> False)"

fun flat :: "pyval \<Rightarrow> bool" where
  "flat (PList xs) \<longleftrightarrow> (\<forall>x\<in>set xs. scalar x)"
| "flat v \<longleftrightarrow> scalar v"

fun width :: "pyval \<Rightarrow> nat" where
  "width (PList xs) = length xs"
| "width v = 0"

lemma flat_scalar: "scalar v \<Longrightarrow> flat v"
  by (cases v) (simp_all add: scalar_def)

lemma json_tail:
  "json_fraction (d # rest) = ([], d # rest)" "json_exponent (d # rest) = ([], d # rest)" "\<not> is_digit d"
  if "d = CHR '','' \<or> d = CHR ''}'' \<or> d = CHR '']''"
  using that by (auto simp: json_fraction_def json_exponent_def is_digit_def)

lemma json_number_str_int:
  assumes "length (dec_digits \<bar>k\<bar>) \<le> 4300" "d = CHR '','' \<or> d = CHR ''}'' \<or> d = CHR '']''"
  shows "json_number (str_int k @ d # rest) = Some (PInt k, d # rest)"
proof -
  define ds where "ds = dec_digits \<bar>k\<bar>"
  have all: "list_all is_digit ds" "ds \<noteq> []" by (simp_all add: ds_def dec_digits_all)
  then have take: "takeWhile is_digit (ds @ d # rest) = ds"
    using json_tail(3) [OF assms(2)] by (simp add: takeWhile_append2 list_all_iff)
  have ip: "(case ds of c # _ \<Rightarrow> if c = CHR ''0'' then [c] else ds | [] \<Rightarrow> []) = ds"
  proof (cases "k = 0")
    case True
    then show ?thesis by (simp add: ds_def dec_digits.simps digit_char_def)
  next
    case False
    then have "hd ds \<noteq> CHR ''0''" unfolding ds_def by (intro dec_digits_no_zero) simp
    then show ?thesis by (cases ds) auto
  qed
  have core: "json_unsigned sign (ds @ d # rest) = map_option (\<lambda>n. (PInt n, d # rest)) (py_int (sign @ ds) 10)" for sign
    using all json_tail [OF assms(2)] unfolding json_unsigned_def take Let_def ip by simp
  have int: "py_int (str_int k) 10 = Some k" using assms(1) by (rule py_int_str_int)
  show ?thesis
  proof (cases "k < 0")
    case True
    then have "str_int k = CHR ''-'' # ds" by (simp add: str_int_def ds_def)
    then show ?thesis using int core [of "''-''"] by (simp add: json_number_def)
  next
    case False
    then have k: "str_int k = ds" by (simp add: str_int_def ds_def)
    obtain c cs where "ds = c # cs" using all by (cases ds) auto
    then show ?thesis using int core [of "[]"] all k by (simp add: json_number_def digit_facts)
  qed
qed

text \<open>One value, and the members of an object.\<close>

lemma json_value_scalar:
  assumes "scalar v" "d = CHR '','' \<or> d = CHR ''}'' \<or> d = CHR '']''"
  shows "json_value (Suc n) (json_dumps other v @ d # rest) = Some (v, d # rest)"
proof (cases v)
  case (PStr s)
  then show ?thesis by (simp add: json_string_def parse_str_body json_value.simps(2))
next
  case (PInt k)
  have len: "length (dec_digits \<bar>k\<bar>) \<le> 4300" using assms(1) PInt by (simp add: scalar_def)
  have all: "list_all is_digit (dec_digits \<bar>k\<bar>)" by (simp add: dec_digits_all)
  obtain c cs where cs: "str_int k @ d # rest = c # cs" by (cases "str_int k") (auto simp: str_int_def)
  have c: "c = CHR ''-'' \<and> (\<exists>e es. cs = e # es \<and> is_digit e) \<or> is_digit c"
  proof (cases "k < 0")
    case True
    then show ?thesis using cs all by (cases "dec_digits (- k)") (auto simp: str_int_def)
  next
    case False
    then show ?thesis using cs all by (cases "dec_digits k") (auto simp: str_int_def)
  qed
  have "code_of c \<noteq> 34" "c \<noteq> CHR ''{''" "c \<noteq> CHR ''[''" "c \<noteq> CHR ''n''" "c \<noteq> CHR ''t''" "c \<noteq> CHR ''f''"
    "c \<noteq> CHR ''N''" "c \<noteq> CHR ''I''"
    using c by (auto simp: is_digit_def)
  moreover have "\<not> starts_with ''-Infinity'' (c # cs)" using c by (auto simp: is_digit_def)
  ultimately have num: "json_value (Suc n) (c # cs) = json_number (c # cs)"
    by (auto simp: json_value.simps(2))
  show ?thesis
    by (simp only: PInt json_dumps.simps cs num)
      (simp only: cs [symmetric] json_number_str_int [OF len assms(2)])
next
  case (PBool b)
  then show ?thesis by (simp add: json_value.simps(2))
qed (use assms in \<open>simp_all add: scalar_def\<close>)

lemma skip_ws_id: "\<not> is_json_space c \<Longrightarrow> skip_ws (c # s) = c # s"
  by (simp add: skip_ws_def)

lemma json_spaces [simp]:
  "\<not> is_json_space CHR '',''" "\<not> is_json_space CHR ''}''" "\<not> is_json_space CHR '':''"
  "\<not> is_json_space CHR ''{''" "\<not> is_json_space CHR 0x22" "\<not> is_json_space CHR ''[''" "\<not> is_json_space CHR '']''"
  "\<not> is_json_space CHR ''t''" "\<not> is_json_space CHR ''f''"
  by (simp_all add: is_json_space_def)

lemma skip_ws_scalar: "scalar v \<Longrightarrow> skip_ws (json_dumps other v @ s) = json_dumps other v @ s"
proof (cases v)
  case (PInt k)
  have "\<not> is_json_space c" if "is_digit c" for c
    using digit_facts(6) [OF that] by (auto simp: is_json_space_def is_space_def Let_def)
  moreover have "\<not> is_json_space CHR ''-''" by (simp add: is_json_space_def)
  moreover have "list_all is_digit (dec_digits \<bar>k\<bar>)" by (simp add: dec_digits_all)
  ultimately show ?thesis
    by (cases "dec_digits \<bar>k\<bar>") (auto simp: PInt str_int_def skip_ws_id)
qed (auto simp: scalar_def json_string_def skip_ws_id)

lemma json_elements_scalar:
  assumes "\<forall>x\<in>set xs. scalar x" "xs \<noteq> []" "length xs < n"
  shows "json_elements n acc (join_with CHR '','' (map (json_dumps other) xs) @ CHR '']'' # rest)
    = Some (PList (acc @ xs), rest)"
  using assms
proof (induction xs arbitrary: acc n)
  case (Cons x xs)
  obtain m where n: "n = Suc (Suc m)" using Cons.prems(3) by (cases n; cases "n - 1") auto
  have x: "scalar x" using Cons.prems(1) by simp
  show ?case
  proof (cases xs)
    case Nil
    then show ?thesis using json_value_scalar [OF x, of "CHR '']''" m other rest] by (simp add: n skip_ws_id)
  next
    case (Cons y ys)
    let ?more = "join_with CHR '','' (map (json_dumps other) xs) @ CHR '']'' # rest"
    have IH: "json_elements (Suc m) (acc @ [x]) ?more = Some (PList ((acc @ [x]) @ xs), rest)"
      by (rule Cons.IH) (use Cons.prems n Cons in auto)
    have y: "scalar y" using Cons.prems(1) Cons by simp
    have "skip_ws ?more = ?more"
      using skip_ws_scalar [OF y] by (cases ys) (simp_all add: Cons)
    moreover have "join_with CHR '','' (map (json_dumps other) (x # xs)) @ CHR '']'' # rest
        = json_dumps other x @ CHR '','' # ?more" by (simp add: Cons)
    ultimately show ?thesis using json_value_scalar [OF x, of "CHR '',''" m other ?more] IH
      by (simp add: n skip_ws_id)
  qed
qed simp

lemma flat_cases:
  assumes "flat v"
  obtains (scalar) "scalar v" "width v = 0" | (list) xs where "v = PList xs" "\<forall>x\<in>set xs. scalar x"
  using assms by (cases v) simp_all

lemma json_value_flat:
  assumes "flat v" "d = CHR '','' \<or> d = CHR ''}''" "width v < n"
  shows "json_value (Suc n) (json_dumps other v @ d # rest) = Some (v, d # rest)"
  using assms(1)
proof (cases rule: flat_cases)
  case scalar
  then show ?thesis using json_value_scalar assms(2) by blast
next
  case (list xs)
  let ?body = "join_with CHR '','' (map (json_dumps other) xs) @ CHR '']'' # d # rest"
  show ?thesis
  proof (cases xs)
    case Nil
    then show ?thesis by (simp add: list(1) json_value.simps(2) skip_ws_id)
  next
    case (Cons x ys)
    have x: "scalar x" using list(2) Cons by simp
    then have sk: "skip_ws ?body = ?body" using skip_ws_scalar [of x] by (cases ys) (simp_all add: Cons)
    have "is_digit (hd (dec_digits k))" if "0 \<le> k" for k
      using dec_digits_all [OF that] by (cases "dec_digits k") simp_all
    then have "hd (dec_digits k) \<noteq> CHR '']''" if "0 \<le> k" for k
      using that json_tail(3) [of "CHR '']''"] by metis
    then have "json_dumps other x \<noteq> [] \<and> hd (json_dumps other x) \<noteq> CHR '']''"
      using x by (cases x) (auto simp: scalar_def json_string_def str_int_def hd_append)
    then obtain c cs where c: "?body = c # cs" "c \<noteq> CHR '']''"
      by (cases "json_dumps other x"; cases ys) (auto simp: Cons)
    have "json_elements n [] ?body = Some (PList xs, d # rest)"
      using json_elements_scalar [of xs n "[]" other "d # rest"] assms(3) list Cons by simp
    then show ?thesis using sk c by (simp add: list(1) json_value.simps(2))
  qed
qed

lemma skip_ws_flat: "flat v \<Longrightarrow> skip_ws (json_dumps other v @ s) = json_dumps other v @ s"
  by (cases v rule: flat_cases) (use skip_ws_scalar in \<open>simp_all add: skip_ws_id\<close>)

definition json_member :: "(pyval \<Rightarrow> string) \<Rightarrow> string \<times> pyval \<Rightarrow> string" where
  "json_member other p = json_string (fst p) @ [CHR '':''] @ json_dumps other (snd p)"

lemma dict_set_new: "k \<notin> set (map fst d) \<Longrightarrow> dict_set k v d = d @ [(k, v)]"
  by (induction d) auto

lemma json_members_flat:
  assumes "\<forall>p\<in>set ps. flat (snd p) \<and> width (snd p) + length ps + 1 < n" "ps \<noteq> []" "distinct (map fst (acc @ ps))"
  shows "json_members n acc (join_with CHR '','' (map (json_member other) ps) @ CHR ''}'' # rest)
    = Some (PDict (acc @ ps), rest)"
  using assms
proof (induction ps arbitrary: acc n)
  case (Cons p ps)
  obtain k v where p: "p = (k, v)" by (cases p)
  obtain m where n: "n = Suc (Suc m)" using Cons.prems(1) by (cases n; cases "n - 1") (auto simp: p)
  have v: "flat v" and w: "width v < m" and new: "dict_set k v acc = acc @ [(k, v)]"
    using Cons.prems(1,3) p n dict_set_new [of k acc v] by auto
  show ?case
  proof (cases ps)
    case Nil
    then show ?thesis using v new json_value_flat [OF v _ w, of "CHR ''}''" other rest] skip_ws_flat [OF v]
      by (simp add: p n json_member_def json_string_def parse_str_body skip_ws_id)
  next
    case (Cons q qs)
    have IH: "json_members (Suc m) (acc @ [(k, v)]) (join_with CHR '','' (map (json_member other) ps) @ CHR ''}'' # rest)
      = Some (PDict ((acc @ [(k, v)]) @ ps), rest)"
      by (rule Cons.IH) (use Cons.prems p n Cons in auto)
    obtain t where t: "join_with CHR '','' (map (json_member other) ps) = CHR 0x22 # t"
      by (cases qs) (auto simp: Cons json_member_def json_string_def)
    have "join_with CHR '','' (map (json_member other) (p # ps)) @ CHR ''}'' # rest
      = CHR 0x22 # json_body k @ CHR 0x22 # CHR '':'' # json_dumps other v @ CHR '','' # CHR 0x22 # t @ CHR ''}'' # rest"
      using t by (simp add: Cons json_member_def json_string_def p)
    then show ?thesis
      using v new json_value_flat [OF v _ w, of "CHR '',''" other "CHR 0x22 # t @ CHR ''}'' # rest"]
        skip_ws_flat [OF v] IH t
      by (simp add: p n parse_str_body skip_ws_id)
  qed
qed simp

lemma insort_key_map: "insort_key f (g x) (map g xs) = map g (insort_key (\<lambda>y. f (g y)) x xs)"
  by (induction xs) auto

lemma sort_key_map: "sort_key f (map g xs) = map g (sort_key (\<lambda>y. f (g y)) xs)"
  by (induction xs) (simp_all add: insort_key_map)

lemma json_dumps_object:
  "json_dumps other (PDict d) =
     [CHR ''{''] @ join_with CHR '','' (map (json_member other) (sort_key fst d)) @ [CHR ''}'']"
proof -
  have "json_member other = (\<lambda>p. json_string (fst p) @ [CHR '':''] @ json_dumps other (snd p))"
    by (simp add: fun_eq_iff json_member_def)
  then show ?thesis by (simp add: sort_key_map comp_def)
qed

lemma length_join_with: "length ss \<le> Suc (length (join_with c ss))"
  by (induction c ss rule: join_with.induct) auto

lemma length_join_with_member: "s \<in> set ss \<Longrightarrow> length s \<le> length (join_with c ss)"
  by (induction c ss rule: join_with.induct) auto

lemma width_le_text: "width v \<le> length (json_dumps other v)"
proof (cases v)
  case (PList xs)
  then show ?thesis using length_join_with [of "map (json_dumps other) xs" "CHR '',''"] by simp
qed simp_all

lemma json_round_trip:
  assumes "\<forall>p\<in>set d. flat (snd p)" "distinct (map fst d)"
  shows "json_loads (json_dumps other (PDict d)) = Some (PDict (sort_key fst d))"
proof (cases "d = []")
  case True
  then show ?thesis by (simp add: json_loads_def skip_ws_id numeral_eq_Suc json_value.simps(2)) (simp add: skip_ws_def)
next
  case False
  let ?ps = "sort_key fst d"
  let ?body = "join_with CHR '','' (map (json_member other) ?ps)"
  have ps: "\<forall>p\<in>set ?ps. flat (snd p)" "distinct (map fst ([] @ ?ps))"
    using assms by (auto simp: distinct_map intro: inj_on_subset)
  have ne: "?ps \<noteq> []" using False by (metis set_empty set_sort)
  obtain t where t: "?body = CHR 0x22 # t"
    using ne by (cases ?ps; cases "tl ?ps") (auto simp: json_member_def json_string_def)
  have len: "length ?ps \<le> Suc (length ?body)"
    using length_join_with [of "map (json_member other) ?ps" "CHR '',''"] by simp
  have wid: "width (snd p) \<le> length ?body" if "p \<in> set ?ps" for p
  proof -
    have "length (json_member other p) \<le> length ?body" using that by (intro length_join_with_member) auto
    moreover have "width (snd p) \<le> length (json_member other p)"
      using width_le_text [of "snd p" other] by (simp add: json_member_def)
    ultimately show ?thesis by linarith
  qed
  define N where "N = Suc (2 * length ?body + 4)"
  have m: "json_members N [] (?body @ CHR ''}'' # []) = Some (PDict ?ps, [])"
    using json_members_flat [OF _ ne ps(2), of N other "[]"] ps(1) len wid by (fastforce simp: N_def)
  have "json_value (Suc N) (CHR ''{'' # ?body @ CHR ''}'' # []) = Some (PDict ?ps, [])"
    using m t by (simp add: json_value.simps(2) skip_ws_id del: json_members.simps)
  moreover have "2 * length (CHR ''{'' # ?body @ CHR ''}'' # []) + 2 = Suc N" by (simp add: N_def)
  moreover have "json_dumps other (PDict d) = CHR ''{'' # ?body @ CHR ''}'' # []" by (simp only: json_dumps_object) simp
  ultimately show ?thesis unfolding json_loads_def by (simp add: skip_ws_id) (simp add: skip_ws_def)
qed

end
