(* ===== verification/Paginator.thy ===== *)
theory Paginator imports Prelude Py_Text begin

text \<open>
  \<open>polymarket/pagination.py\<close>: pages, the generator behind \<open>Paginator.__iter__\<close>, and the loop that drains
  a paginator into a list. The function that fetches a page is a parameter. A generator is the value
  of the state in which it is suspended; the drain loop may not end, since a server can issue new
  cursors for ever, so it is a partial function and its termination is proved where it holds. The
  asynchronous classes have the same text.
\<close>

section \<open>Pages and generators\<close>

record 'a page =
  page_items :: "'a list"
  has_more :: bool
  next_cursor :: "string option"
  total_count :: "int option"
  limit_reached :: bool

type_synonym ('w, 'a) fetch = "string option \<Rightarrow> ('w, 'a page) eff"

definition take_next_cursor :: "'a page \<Rightarrow> string list \<Rightarrow> (string \<times> string list) res" where
  "take_next_cursor page requested =
     (case next_cursor page of
        None \<Rightarrow> Raise UnexpectedResponseError
      | Some cursor \<Rightarrow>
          if cursor \<in> set requested then Raise UnexpectedResponseError
          else Ok (cursor, cursor # requested))"

text \<open>A generator about to fetch, suspended at the \<open>yield\<close> of a page, or exhausted.\<close>

datatype 'a generator =
    Fetch "string option" "string list"
  | Yielded "'a page" "string list"
  | Exhausted

definition start_pages :: "string option \<Rightarrow> 'a generator" where
  "start_pages initial = Fetch initial (case initial of None \<Rightarrow> [] | Some c \<Rightarrow> [c])"

text \<open>One call of \<open>next\<close>: a page, the end (\<open>None\<close>), or an exception, which also exhausts the generator.\<close>

definition fetch_page ::
  "('w, 'a) fetch \<Rightarrow> string option \<Rightarrow> string list \<Rightarrow> 'w \<Rightarrow> ('a page option res \<times> 'a generator) \<times> 'w" where
  "fetch_page fetch cursor requested w =
     (case fetch cursor w of
        (Inl e, w') \<Rightarrow> ((Raise e, Exhausted), w')
      | (Inr page, w') \<Rightarrow> ((Ok (Some page), Yielded page requested), w'))"

fun next_page ::
  "('w, 'a) fetch \<Rightarrow> 'a generator \<Rightarrow> 'w \<Rightarrow> ('a page option res \<times> 'a generator) \<times> 'w" where
  "next_page fetch Exhausted w = ((Ok None, Exhausted), w)"
| "next_page fetch (Fetch cursor requested) w = fetch_page fetch cursor requested w"
| "next_page fetch (Yielded page requested) w =
     (if limit_reached page \<or> \<not> has_more page then ((Ok None, Exhausted), w)
      else case take_next_cursor page requested of
          Inl e \<Rightarrow> ((Raise e, Exhausted), w)
        | Inr (cursor, requested') \<Rightarrow> fetch_page fetch (Some cursor) requested' w)"

section \<open>Paginators\<close>

datatype paginator = Paginator "string option" | EmptyPaginator

definition empty_page :: "'a page" where
  "empty_page = \<lparr>page_items = [], has_more = False, next_cursor = None, total_count = None, limit_reached = False\<rparr>"

fun first_page :: "('w, 'a) fetch \<Rightarrow> paginator \<Rightarrow> ('w, 'a page) eff" where
  "first_page fetch (Paginator initial) = fetch initial"
| "first_page fetch EmptyPaginator = pureS empty_page"

text \<open>
  The result of \<open>from_cursor\<close> with the fetch function the new paginator uses: that of an empty
  paginator stays the empty one.
\<close>

fun from_cursor :: "paginator \<Rightarrow> string option \<Rightarrow> paginator" where
  "from_cursor p None = EmptyPaginator"
| "from_cursor p (Some c) = Paginator (Some c)"

definition fetch_of_cursor :: "('w, 'a) fetch \<Rightarrow> paginator \<Rightarrow> ('w, 'a) fetch" where
  "fetch_of_cursor fetch p = (case p of Paginator _ \<Rightarrow> fetch | EmptyPaginator \<Rightarrow> (\<lambda>_. pureS empty_page))"

fun iter_pages :: "paginator \<Rightarrow> 'a generator" where
  "iter_pages (Paginator initial) = start_pages initial"
| "iter_pages EmptyPaginator = Exhausted"

section \<open>Draining\<close>

text \<open>The loop over the items of one page; \<open>True\<close> when an item was left out because of the limit.\<close>

fun take_items :: "int option \<Rightarrow> 'a list \<Rightarrow> 'a list \<Rightarrow> 'a list \<times> bool" where
  "take_items bound out [] = (out, False)"
| "take_items bound out (x # xs) =
     (case bound of
        Some n \<Rightarrow> if n \<le> int (length out) then (out, True) else take_items bound (out @ [x]) xs
      | None \<Rightarrow> take_items bound (out @ [x]) xs)"

partial_function (option) drain_pages ::
  "('w, 'a) fetch \<Rightarrow> int option \<Rightarrow> 'a list \<Rightarrow> 'a generator \<Rightarrow> 'w
     \<Rightarrow> (('a list \<times> bool \<times> bool) res \<times> 'w) option" where
  "drain_pages fetch bound out g w =
     (case next_page fetch g w of
        ((Inl e, _), w') \<Rightarrow> Some (Inl e, w')
      | ((Inr None, _), w') \<Rightarrow> Some (Inr (out, False, False), w')
      | ((Inr (Some page), g'), w') \<Rightarrow>
          (case take_items bound out (page_items page) of
             (out', left_out) \<Rightarrow>
               if left_out then Some (Inr (out', True, limit_reached page), w')
               else if limit_reached page then Some (Inr (out', True, True), w')
               else if \<not> has_more page then Some (Inr (out', False, False), w')
               else drain_pages fetch bound out' g' w'))"

definition drain_paginator ::
  "('w, 'a) fetch \<Rightarrow> int option \<Rightarrow> paginator \<Rightarrow> 'w \<Rightarrow> (('a list \<times> bool \<times> bool) res \<times> 'w) option" where
  "drain_paginator fetch bound p w =
     (case bound of
        Some n \<Rightarrow>
          if n < 0 then Some (Raise UserInputError, w)
          else if n = 0 then Some (Ok ([], False, False), w)
          else drain_pages fetch bound [] (iter_pages p) w
      | None \<Rightarrow> drain_pages fetch bound [] (iter_pages p) w)"

section \<open>Runs of the generator\<close>

text \<open>
  \<open>page_run fetch g w cs ps g' w'\<close>: successive calls of \<open>next\<close> from \<open>g\<close> in world \<open>w\<close> request the cursors
  \<open>cs\<close> and yield the pages \<open>ps\<close>.
\<close>

fun cursor_of :: "'a generator \<Rightarrow> string option" where
  "cursor_of (Fetch c r) = c"
| "cursor_of (Yielded p r) = next_cursor p"
| "cursor_of Exhausted = None"

fun requested_of :: "'a generator \<Rightarrow> string list" where
  "requested_of (Fetch c r) = r"
| "requested_of (Yielded p r) = r"
| "requested_of Exhausted = []"

inductive page_run ::
  "('w, 'a) fetch \<Rightarrow> 'a generator \<Rightarrow> 'w \<Rightarrow> string option list \<Rightarrow> 'a page list \<Rightarrow> 'a generator \<Rightarrow> 'w \<Rightarrow> bool"
  for fetch where
  stop: "page_run fetch g w [] [] g w"
| more: "next_page fetch g w = ((Ok (Some p), g'), w') \<Longrightarrow> page_run fetch g' w' cs ps g'' w'' \<Longrightarrow>
    page_run fetch g w (cursor_of g # cs) (p # ps) g'' w''"

inductive_cases page_run_elim: "page_run fetch g w cs ps g' w'"

lemma next_page_Some:
  assumes "next_page fetch g w = ((Ok (Some p), g'), w')"
  obtains (first) c r where "g = Fetch c r" "fetch c w = (Ok p, w')" "g' = Yielded p r"
  | (resume) q r c where "g = Yielded q r" "has_more q" "\<not> limit_reached q" "next_cursor q = Some c"
      "c \<notin> set r" "fetch (Some c) w = (Ok p, w')" "g' = Yielded p (c # r)"
  using assms
  by (cases g)
    (auto simp: fetch_page_def take_next_cursor_def split: prod.splits sum.splits if_splits option.splits)

text \<open>The cursors of a run that has started are new, present and distinct.\<close>

lemma page_run_cursors:
  assumes "page_run fetch g w cs ps g' w'" "\<And>c r. g \<noteq> Fetch c r"
  shows "\<exists>ds. cs = map Some ds \<and> distinct ds \<and> set ds \<inter> set (requested_of g) = {}"
  using assms
proof (induction rule: page_run.induct)
  case (more g w p g' w' cs ps g'' w'')
  from more.hyps(1) show ?case
  proof (cases rule: next_page_Some)
    case (first c r)
    then show ?thesis using more.prems by blast
  next
    case (resume q r c)
    then obtain ds where "cs = map Some ds" "distinct ds" "set ds \<inter> set (c # r) = {}"
      using more.IH by auto
    then show ?thesis using resume by (intro exI [of _ "c # ds"]) auto
  qed
qed simp

lemma page_run_start:
  assumes "page_run fetch (start_pages initial) w cs ps g' w'" "cs \<noteq> []"
  shows "\<exists>ds. cs = initial # map Some ds \<and> distinct ds \<and> (\<forall>c. initial = Some c \<longrightarrow> c \<notin> set ds)"
  using assms(1)
proof (cases rule: page_run.cases)
  case (more p g1 w1 cs' ps')
  from more(3) have g1: "g1 = Yielded p (case initial of None \<Rightarrow> [] | Some c \<Rightarrow> [c])"
    by (cases rule: next_page_Some) (auto simp: start_pages_def)
  obtain ds where "cs' = map Some ds" "distinct ds" "set ds \<inter> set (requested_of g1) = {}"
    using page_run_cursors [OF more(4)] g1 by auto
  then show ?thesis using more(1) g1 by (auto simp: start_pages_def)
qed (use assms in simp)

section \<open>What a drain returns\<close>

lemma take_items_None: "take_items None out xs = (out @ xs, False)"
  by (induction xs arbitrary: out) simp_all

lemma take_items_Some:
  "int (length out) \<le> n \<Longrightarrow>
     take_items (Some n) out xs = (take (nat n) (out @ xs), n < int (length (out @ xs)))"
proof (induction xs arbitrary: out)
  case (Cons x xs)
  show ?case
  proof (cases "n \<le> int (length out)")
    case True
    then have "nat n = length out" using Cons.prems by linarith
    then show ?thesis using True by simp
  next
    case False
    then show ?thesis using Cons.IH [of "out @ [x]"] by simp
  qed
qed simp

definition fits_bound :: "int option \<Rightarrow> 'a list \<Rightarrow> bool" where
  "fits_bound bound out = (case bound of None \<Rightarrow> True | Some n \<Rightarrow> int (length out) \<le> n)"

definition cut_to :: "int option \<Rightarrow> 'a list \<Rightarrow> 'a list" where
  "cut_to bound xs = (case bound of None \<Rightarrow> xs | Some n \<Rightarrow> take (nat n) xs)"

lemma take_items_eq:
  "fits_bound bound out \<Longrightarrow> take_items bound out xs = (cut_to bound (out @ xs), \<not> fits_bound bound (out @ xs))"
  by (cases bound) (auto simp: fits_bound_def cut_to_def take_items_None take_items_Some)

lemma cut_to_fits: "fits_bound bound xs \<Longrightarrow> cut_to bound xs = xs"
  by (cases bound) (auto simp: fits_bound_def cut_to_def)

definition all_items :: "'a page list \<Rightarrow> 'a list" where
  "all_items ps = concat (map page_items ps)"

lemma all_items_simps [simp]: "all_items [] = []" "all_items (p # ps) = page_items p @ all_items ps"
  by (simp_all add: all_items_def)

definition continuing :: "'a generator \<Rightarrow> bool" where
  "continuing g \<longleftrightarrow> (case g of Fetch c r \<Rightarrow> True | Yielded p r \<Rightarrow> has_more p \<and> \<not> limit_reached p | Exhausted \<Rightarrow> False)"

text \<open>
  The items returned are those of the pages fetched, cut at the limit. Without the truncation mark
  nothing was left out and the last page fetched said there was no more; with it, an item was left
  out or the depth limit was reached.
\<close>

definition drained ::
  "('w, 'a) fetch \<Rightarrow> int option \<Rightarrow> 'a list \<Rightarrow> 'a generator \<Rightarrow> 'w
     \<Rightarrow> 'a list \<Rightarrow> bool \<Rightarrow> bool \<Rightarrow> 'w \<Rightarrow> bool" where
  "drained fetch bound out g w items truncated reached w' \<longleftrightarrow>
     (\<exists>cs ps g'. page_run fetch g w cs ps g' w' \<and> ps \<noteq> []
       \<and> items = cut_to bound (out @ all_items ps)
       \<and> (if truncated then \<not> fits_bound bound (out @ all_items ps) \<or> reached
          else fits_bound bound (out @ all_items ps) \<and> \<not> reached \<and> \<not> has_more (last ps))
       \<and> (reached \<longrightarrow> limit_reached (last ps)))"

lemma next_page_continuing:
  assumes "next_page fetch g w = ((r, g'), w')" "continuing g"
  shows "r \<noteq> Ok None \<and> (\<forall>p. r = Ok (Some p) \<longrightarrow> (\<exists>q. g' = Yielded p q))"
  using assms
  by (cases g) (auto simp: continuing_def fetch_page_def split: prod.splits sum.splits)

lemma drained_one:
  assumes "next_page fetch g w = ((Ok (Some p), g'), w')" "items = cut_to bound (out @ page_items p)"
    and "if truncated then \<not> fits_bound bound (out @ page_items p) \<or> reached
      else fits_bound bound (out @ page_items p) \<and> \<not> reached \<and> \<not> has_more p"
    and "reached \<longrightarrow> limit_reached p"
  shows "drained fetch bound out g w items truncated reached w'"
  unfolding drained_def
  using page_run.more [OF assms(1) page_run.stop] assms(2-4)
  by (intro exI [of _ "[cursor_of g]"] exI [of _ "[p]"] exI [of _ g'])
    (auto split: if_splits)

lemma drained_more:
  assumes "next_page fetch g w = ((Ok (Some p), g'), w1)"
    and "drained fetch bound (out @ page_items p) g' w1 items truncated reached w'"
  shows "drained fetch bound out g w items truncated reached w'"
proof -
  obtain cs ps g'' where run: "page_run fetch g' w1 cs ps g'' w'" "ps \<noteq> []"
    and rest: "items = cut_to bound ((out @ page_items p) @ all_items ps)"
      "if truncated then \<not> fits_bound bound ((out @ page_items p) @ all_items ps) \<or> reached
       else fits_bound bound ((out @ page_items p) @ all_items ps) \<and> \<not> reached \<and> \<not> has_more (last ps)"
      "reached \<longrightarrow> limit_reached (last ps)"
    using assms(2) unfolding drained_def by blast
  show ?thesis unfolding drained_def
    using page_run.more [OF assms(1) run(1)] run(2) rest
    by (intro exI [of _ "cursor_of g # cs"] exI [of _ "p # ps"] exI [of _ g''])
    (auto split: if_splits)
qed

definition drain_post ::
  "('w, 'a) fetch \<Rightarrow> int option \<Rightarrow> 'a list \<Rightarrow> 'a generator \<Rightarrow> 'w
     \<Rightarrow> ('a list \<times> bool \<times> bool) res \<times> 'w \<Rightarrow> bool" where
  "drain_post fetch bound out g w y \<longleftrightarrow>
     (\<forall>items truncated reached w'. y = (Ok (items, truncated, reached), w') \<longrightarrow> fits_bound bound out \<longrightarrow>
        continuing g \<longrightarrow> drained fetch bound out g w items truncated reached w')"

lemma drain_step:
  assumes IH: "\<And>fetch bound out g w y. self fetch bound out g w = Some y \<Longrightarrow> drain_post fetch bound out g w y"
    and body: "(case next_page fetch g w of
        ((Inl e, _), w') \<Rightarrow> Some (Inl e, w')
      | ((Inr None, _), w') \<Rightarrow> Some (Inr (out, False, False), w')
      | ((Inr (Some page), g'), w') \<Rightarrow>
          (case take_items bound out (page_items page) of
             (out', left_out) \<Rightarrow>
               if left_out then Some (Inr (out', True, limit_reached page), w')
               else if limit_reached page then Some (Inr (out', True, True), w')
               else if \<not> has_more page then Some (Inr (out', False, False), w')
               else self fetch bound out' g' w')) = Some y"
  shows "drain_post fetch bound out g w y"
  unfolding drain_post_def
proof (intro allI impI)
  fix items truncated reached w'
  assume y: "y = (Ok (items, truncated, reached), w')" and out: "fits_bound bound out" and g: "continuing g"
  obtain r g1 w1 where n: "next_page fetch g w = ((r, g1), w1)" by (cases "next_page fetch g w") auto
  obtain p where r: "r = Ok (Some p)"
    using body y next_page_continuing [OF n g] by (cases r) (auto simp: n split: option.splits)
  note body = body [unfolded n r y, simplified]
  show "drained fetch bound out g w items truncated reached w'"
  proof (cases "\<not> fits_bound bound (out @ page_items p) \<or> limit_reached p \<or> \<not> has_more p")
    case False
    then have "continuing g1" using next_page_continuing [OF n g] r by (auto simp: continuing_def)
    moreover have "self fetch bound (out @ page_items p) g1 w1 = Some (Ok (items, truncated, reached), w')"
      using False body by (simp add: take_items_eq [OF out] cut_to_fits)
    ultimately show ?thesis
      using IH False by (intro drained_more [OF n [unfolded r]]) (auto simp: drain_post_def)
  next
    case True
    then have w: "w1 = w'" using body by (auto simp: take_items_eq [OF out] split: if_splits)
    show ?thesis using True body
      by (intro drained_one [OF n [unfolded r w]]) (auto simp: take_items_eq [OF out] cut_to_fits split: if_splits)
  qed
qed

lemma drain_pages_post: "drain_pages fetch bound out g w = Some y \<Longrightarrow> drain_post fetch bound out g w y"
  by (rule drain_pages.raw_induct [of drain_post]) (rule drain_step)

section \<open>Termination\<close>

text \<open>
  The loop ends when the server draws its cursors from a finite set: each further request uses up
  one of them.
\<close>

definition cursors_from :: "string set \<Rightarrow> ('w, 'a) fetch \<Rightarrow> bool" where
  "cursors_from S fetch \<longleftrightarrow>
     (\<forall>c w p w'. fetch c w = (Ok p, w') \<longrightarrow> (\<forall>d. next_cursor p = Some d \<longrightarrow> d \<in> S))"

lemma drain_pages_end:
  assumes "\<And>p g1 w1 out'. next_page fetch g w = ((Ok (Some p), g1), w1) \<Longrightarrow> has_more p \<Longrightarrow> \<not> limit_reached p \<Longrightarrow>
    \<exists>y. drain_pages fetch bound out' g1 w1 = Some y"
  shows "\<exists>y. drain_pages fetch bound out g w = Some y"
proof -
  obtain r g1 w1 where n: "next_page fetch g w = ((r, g1), w1)" by (cases "next_page fetch g w") auto
  show ?thesis
  proof (cases "\<exists>p. r = Ok (Some p)")
    case False
    then show ?thesis
      by (cases r) (auto simp: drain_pages.simps [of fetch bound out g w] n split: option.splits)
  next
    case True
    then obtain p where r: "r = Ok (Some p)" by blast
    obtain out' l where "take_items bound out (page_items p) = (out', l)"
      by (cases "take_items bound out (page_items p)") auto
    then show ?thesis using assms [OF n [unfolded r], of out']
      by (auto simp: drain_pages.simps [of fetch bound out g w] n r)
  qed
qed

lemma drain_yielded_end:
  assumes S: "finite S" "cursors_from S fetch"
  shows "(\<forall>d. next_cursor p = Some d \<longrightarrow> d \<in> S) \<Longrightarrow> \<exists>y. drain_pages fetch bound out (Yielded p r) w = Some y"
proof (induction "card (S - set r)" arbitrary: p r out w rule: less_induct)
  case less
  show ?case
  proof (rule drain_pages_end)
    fix q g1 w1 out'
    assume n: "next_page fetch (Yielded p r) w = ((Ok (Some q), g1), w1)"
    from n show "\<exists>y. drain_pages fetch bound out' g1 w1 = Some y"
    proof (cases rule: next_page_Some)
      case (resume p' r' c)
      then have c: "c \<in> S" "c \<notin> set r" using less.prems by auto
      have "S - set (c # r) \<subset> S - set r" using c by auto
      then have "card (S - set (c # r)) < card (S - set r)" using S(1) by (intro psubset_card_mono) auto
      moreover have "\<forall>d. next_cursor q = Some d \<longrightarrow> d \<in> S" using S(2) resume unfolding cursors_from_def by blast
      ultimately show ?thesis using less.hyps [of "c # r" q out' w1] resume by auto
    qed simp
  qed
qed

lemma drain_pages_terminates:
  assumes "finite S" "cursors_from S fetch"
  shows "\<exists>y. drain_pages fetch bound out (start_pages initial) w = Some y"
proof (rule drain_pages_end)
  fix p g1 w1 out'
  assume "next_page fetch (start_pages initial) w = ((Ok (Some p), g1), w1)"
  then show "\<exists>y. drain_pages fetch bound out' g1 w1 = Some y"
  proof (cases rule: next_page_Some)
    case (first c r)
    then have "\<forall>d. next_cursor p = Some d \<longrightarrow> d \<in> S" using assms(2) unfolding cursors_from_def by blast
    then show ?thesis using drain_yielded_end [OF assms] first by auto
  qed (simp add: start_pages_def)
qed

end
