(* ===== verification/Cursors.thy ===== *)
theory Cursors imports Py_Json Paginator begin

text \<open>
  \<open>_internal/pagination.py\<close>: the cursors the SDK hands out. A cursor is the base64 text of a JSON
  object with a version, the service, the path, a fingerprint of the query and a position. The
  SHA-256 digest in hexadecimal is the parameter \<open>sha256_hex\<close>; \<open>str\<close> of an object JSON cannot write
  is the parameter \<open>str_of\<close>.
\<close>

section \<open>Definitions\<close>

type_synonym base_params = "(string \<times> pyval) list"

definition CURSOR_VERSION :: int where "CURSOR_VERSION = 1"

definition FINGERPRINT_LEN :: nat where "FINGERPRINT_LEN = 12"

definition fingerprint_query ::
  "(byte list \<Rightarrow> string) \<Rightarrow> (pyval \<Rightarrow> string) \<Rightarrow> base_params option \<Rightarrow> string" where
  "fingerprint_query sha256_hex str_of base_params =
     take FINGERPRINT_LEN (sha256_hex (utf8_encode
       (json_dumps str_of (PDict (case base_params of None \<Rightarrow> [] | Some ps \<Rightarrow> ps)))))"

definition seal :: "(string \<times> pyval) list \<Rightarrow> string" where
  "seal payload = b64_encode (utf8_encode (json_dumps (\<lambda>_. []) (PDict payload)))"

definition encode_offset_cursor :: "string \<Rightarrow> string \<Rightarrow> string \<Rightarrow> int \<Rightarrow> int \<Rightarrow> string res" where
  "encode_offset_cursor service path fingerprint offset page_size =
     (if path = [] then Raise UserInputError
      else if offset < 0 then Raise UserInputError
      else if page_size < 1 then Raise UserInputError
      else Ok (seal
        [(''v'', PInt CURSOR_VERSION), (''svc'', PStr service), (''p'', PStr path),
         (''f'', PStr fingerprint), (''o'', PInt offset), (''s'', PInt page_size)]))"

definition encode_keyset_cursor :: "string \<Rightarrow> string \<Rightarrow> string \<Rightarrow> string \<Rightarrow> string res" where
  "encode_keyset_cursor service path fingerprint server_cursor =
     (if path = [] then Raise UserInputError
      else if server_cursor = [] then Raise UserInputError
      else Ok (seal
        [(''v'', PInt CURSOR_VERSION), (''svc'', PStr service), (''p'', PStr path),
         (''f'', PStr fingerprint), (''k'', PStr server_cursor)]))"

definition encode_page_cursor :: "string \<Rightarrow> string \<Rightarrow> string \<Rightarrow> int \<Rightarrow> int \<Rightarrow> string res" where
  "encode_page_cursor service path fingerprint page page_size =
     (if path = [] then Raise UserInputError
      else if page < 1 then Raise UserInputError
      else if page_size < 1 then Raise UserInputError
      else Ok (seal
        [(''v'', PInt CURSOR_VERSION), (''svc'', PStr service), (''p'', PStr path),
         (''f'', PStr fingerprint), (''pg'', PInt page), (''s'', PInt page_size)]))"

text \<open>The JSON object inside a cursor.\<close>

definition unseal :: "string \<Rightarrow> (string \<times> pyval) list res" where
  "unseal cursor =
     (case b64_decode cursor of
        None \<Rightarrow> Raise UserInputError
      | Some bs \<Rightarrow>
          (case utf8_decode bs of
             None \<Rightarrow> Raise UserInputError
           | Some t \<Rightarrow>
               (case json_loads t of
                  Some (PDict payload) \<Rightarrow> Ok payload
                | _ \<Rightarrow> Raise UserInputError)))"

text \<open>
  \<open>version == 1\<close>: \<open>True\<close> equals 1, and a float literal does when it rounds to the double 1.0, whose
  neighbours are \<open>2^-53\<close> below and \<open>2^-52\<close> above.
\<close>

definition version_matches :: "pyval \<Rightarrow> bool" where
  "version_matches v =
     (case v of
        PInt n \<Rightarrow> n = CURSOR_VERSION
      | PBool b \<Rightarrow> b
      | PFloat t \<Rightarrow>
          (case parse_decimal t of
             Some (Dec c e) \<Rightarrow> 1 - 1 / 2 ^ 54 \<le> dval (Dec c e) \<and> dval (Dec c e) \<le> 1 + 1 / 2 ^ 53
           | _ \<Rightarrow> False)
      | _ \<Rightarrow> False)"

definition open_cursor :: "string \<Rightarrow> string \<Rightarrow> string \<Rightarrow> string \<Rightarrow> (string \<times> pyval) list res" where
  "open_cursor cursor expected_service expected_path expected_fingerprint =
     bindE (unseal cursor) (\<lambda>payload.
     if \<not> version_matches (dict_get ''v'' payload) then Raise UserInputError
     else if dict_get ''svc'' payload \<noteq> PStr expected_service then Raise UserInputError
     else if dict_get ''p'' payload \<noteq> PStr expected_path then Raise UserInputError
     else if dict_get ''f'' payload \<noteq> PStr expected_fingerprint then Raise UserInputError
     else Ok payload)"

text \<open>An \<open>int\<close> that is not a \<open>bool\<close> and at least \<open>least\<close>.\<close>

definition int_at_least :: "int \<Rightarrow> pyval \<Rightarrow> int res" where
  "int_at_least least v =
     (case v of PInt n \<Rightarrow> if n < least then Raise UserInputError else Ok n | _ \<Rightarrow> Raise UserInputError)"

definition decode_offset_cursor :: "string \<Rightarrow> string \<Rightarrow> string \<Rightarrow> string \<Rightarrow> (int \<times> int) res" where
  "decode_offset_cursor cursor service path fingerprint =
     bindE (open_cursor cursor service path fingerprint) (\<lambda>payload.
     bindE (int_at_least 0 (dict_get ''o'' payload)) (\<lambda>raw_offset.
     bindE (int_at_least 1 (dict_get ''s'' payload)) (\<lambda>raw_page_size.
     Ok (raw_offset, raw_page_size))))"

definition decode_keyset_cursor :: "string \<Rightarrow> string \<Rightarrow> string \<Rightarrow> string \<Rightarrow> string res" where
  "decode_keyset_cursor cursor service path fingerprint =
     bindE (open_cursor cursor service path fingerprint) (\<lambda>payload.
     case dict_get ''k'' payload of
       PStr s \<Rightarrow> if s = [] then Raise UserInputError else Ok s
     | _ \<Rightarrow> Raise UserInputError)"

definition decode_page_cursor :: "string \<Rightarrow> string \<Rightarrow> string \<Rightarrow> string \<Rightarrow> (int \<times> int) res" where
  "decode_page_cursor cursor service path fingerprint =
     bindE (open_cursor cursor service path fingerprint) (\<lambda>payload.
     bindE (int_at_least 1 (dict_get ''pg'' payload)) (\<lambda>raw_page.
     bindE (int_at_least 1 (dict_get ''s'' payload)) (\<lambda>raw_page_size.
     Ok (raw_page, raw_page_size))))"

definition cursor_path :: "string \<Rightarrow> string res" where
  "cursor_path cursor =
     bindE (unseal cursor) (\<lambda>payload.
     case dict_get ''p'' payload of
       PStr s \<Rightarrow> if s = [] then Raise UserInputError else Ok s
     | _ \<Rightarrow> Raise UserInputError)"

definition compute_offset_page ::
  "string \<Rightarrow> string \<Rightarrow> string \<Rightarrow> int \<Rightarrow> int \<Rightarrow> 'a list \<Rightarrow> ('a list \<Rightarrow> int) option \<Rightarrow> int option \<Rightarrow> 'a page res" where
  "compute_offset_page service path fingerprint offset page_size items page_fill max_offset =
     (let filled = (case page_fill of Some f \<Rightarrow> f items | None \<Rightarrow> int (length items));
          more = page_size \<le> filled in
      bindE (if more
             then map_ok Some (encode_offset_cursor service path fingerprint (offset + page_size) page_size)
             else Ok None) (\<lambda>cursor.
      Ok \<lparr>page_items = items, has_more = more, next_cursor = cursor, total_count = None,
          limit_reached = (case max_offset of None \<Rightarrow> False | Some m \<Rightarrow> more \<and> m < offset + page_size)\<rparr>))"

definition compute_keyset_page ::
  "string \<Rightarrow> string \<Rightarrow> string \<Rightarrow> 'a list \<Rightarrow> string option \<Rightarrow> 'a page res" where
  "compute_keyset_page service path fingerprint items server_next_cursor =
     bindE (case server_next_cursor of
              None \<Rightarrow> Ok None
            | Some c \<Rightarrow> map_ok Some (encode_keyset_cursor service path fingerprint c)) (\<lambda>cursor.
     Ok \<lparr>page_items = items, has_more = (cursor \<noteq> None), next_cursor = cursor, total_count = None,
         limit_reached = False\<rparr>)"

record 'a page_payload =
  pp_items :: 'a
  pp_has_more :: bool
  pp_total_count :: "int option"

definition compute_page_based_page ::
  "string \<Rightarrow> string \<Rightarrow> string \<Rightarrow> int \<Rightarrow> int \<Rightarrow> 'a page_payload \<Rightarrow> 'a page res" where
  "compute_page_based_page service path fingerprint page page_size payload =
     bindE (if pp_has_more payload
            then map_ok Some (encode_page_cursor service path fingerprint (page + 1) page_size)
            else Ok None) (\<lambda>cursor.
     Ok \<lparr>page_items = [pp_items payload], has_more = pp_has_more payload, next_cursor = cursor,
         total_count = pp_total_count payload, limit_reached = False\<rparr>)"

section \<open>Sealing and unsealing\<close>

lemma map_of_sort_key:
  assumes "distinct (map fst d)"
  shows "map_of (sort_key fst d) = map_of d"
proof (rule map_of_eqI)
  show "set (map fst (sort_key fst d)) = set (map fst d)" by simp
  have "distinct (map fst (sort_key fst d))"
    using assms by (auto simp: distinct_map intro: inj_on_subset)
  then show "\<forall>k\<in>set (map fst (sort_key fst d)). map_of (sort_key fst d) k = map_of d k"
    using assms by (auto simp: map_of_eq_Some_iff)
qed

text \<open>A number that a cursor can carry: \<open>int\<close> reads at most 4300 digits.\<close>

definition short_int :: "int \<Rightarrow> bool" where
  "short_int n \<longleftrightarrow> length (dec_digits \<bar>n\<bar>) \<le> 4300"

lemma unseal_seal:
  assumes "\<forall>p\<in>set d. scalar (snd p)" "distinct (map fst d)"
  shows "\<exists>d'. unseal (seal d) = Ok d' \<and> map_of d' = map_of d"
  using json_round_trip [of d] map_of_sort_key [OF assms(2)] assms flat_scalar
  by (simp add: unseal_def seal_def)

lemma dict_get_cong: "map_of d' = map_of d \<Longrightarrow> dict_get k d' = dict_get k d"
  by (simp add: dict_get_def)

lemma short_intI: "0 \<le> n \<Longrightarrow> n < 10 ^ 100 \<Longrightarrow> short_int n"
  using length_dec_digits [of n 100] by (simp add: short_int_def)

lemma short_int_1: "short_int 1"
  by (simp add: short_int_def dec_digits.simps)

lemma open_cursor_seal:
  assumes "\<forall>p\<in>set d. scalar (snd p)" "distinct (map fst d)"
    and "dict_get ''v'' d = PInt 1" "dict_get ''svc'' d = PStr svc" "dict_get ''p'' d = PStr path"
      "dict_get ''f'' d = PStr fp"
  shows "\<exists>d'. open_cursor (seal d) svc' path' fp' =
      (if svc' = svc \<and> path' = path \<and> fp' = fp then Ok d' else Raise UserInputError) \<and> map_of d' = map_of d"
proof -
  obtain d' where d': "unseal (seal d) = Ok d'" "map_of d' = map_of d"
    using unseal_seal [OF assms(1,2)] by blast
  then show ?thesis using assms(3-6)
    by (intro exI [of _ d'])
      (auto simp: open_cursor_def dict_get_cong [OF d'(2)] version_matches_def CURSOR_VERSION_def)
qed

lemma scalar_simps [simp]: "scalar (PStr s)" "scalar (PInt n) \<longleftrightarrow> short_int n" "scalar (PBool b)"
  by (simp_all add: scalar_def short_int_def)

lemma decode_offset_encode:
  assumes "encode_offset_cursor svc path fp offset n = Ok c" "short_int offset" "short_int n"
  shows "decode_offset_cursor c svc' path' fp' =
    (if svc' = svc \<and> path' = path \<and> fp' = fp then Ok (offset, n) else Raise UserInputError)"
proof -
  let ?d = "[(''v'', PInt CURSOR_VERSION), (''svc'', PStr svc), (''p'', PStr path),
         (''f'', PStr fp), (''o'', PInt offset), (''s'', PInt n)]"
  have c: "c = seal ?d" "0 \<le> offset" "1 \<le> n"
    using assms(1) by (auto simp: encode_offset_cursor_def split: if_splits)
  have sc: "\<forall>p\<in>set ?d. scalar (snd p)" using assms(2,3) short_int_1 by (simp add: CURSOR_VERSION_def)
  obtain d' where "open_cursor c svc' path' fp' =
      (if svc' = svc \<and> path' = path \<and> fp' = fp then Ok d' else Raise UserInputError)" "map_of d' = map_of ?d"
    using open_cursor_seal [OF sc, of svc path fp svc' path' fp'] c(1)
    by (auto simp: dict_get_def CURSOR_VERSION_def)
  then show ?thesis using c(2,3)
    by (simp add: decode_offset_cursor_def int_at_least_def dict_get_def)
qed

lemma decode_keyset_encode:
  assumes "encode_keyset_cursor svc path fp k = Ok c"
  shows "decode_keyset_cursor c svc' path' fp' =
    (if svc' = svc \<and> path' = path \<and> fp' = fp then Ok k else Raise UserInputError)"
proof -
  let ?d = "[(''v'', PInt CURSOR_VERSION), (''svc'', PStr svc), (''p'', PStr path),
         (''f'', PStr fp), (''k'', PStr k)]"
  have c: "c = seal ?d" "k \<noteq> []"
    using assms(1) by (auto simp: encode_keyset_cursor_def split: if_splits)
  have sc: "\<forall>p\<in>set ?d. scalar (snd p)" using short_int_1 by (simp add: CURSOR_VERSION_def)
  obtain d' where "open_cursor c svc' path' fp' =
      (if svc' = svc \<and> path' = path \<and> fp' = fp then Ok d' else Raise UserInputError)" "map_of d' = map_of ?d"
    using open_cursor_seal [OF sc, of svc path fp svc' path' fp'] c(1)
    by (auto simp: dict_get_def CURSOR_VERSION_def)
  then show ?thesis using c(2) by (simp add: decode_keyset_cursor_def dict_get_def)
qed

lemma decode_page_encode:
  assumes "encode_page_cursor svc path fp pg n = Ok c" "short_int pg" "short_int n"
  shows "decode_page_cursor c svc' path' fp' =
    (if svc' = svc \<and> path' = path \<and> fp' = fp then Ok (pg, n) else Raise UserInputError)"
proof -
  let ?d = "[(''v'', PInt CURSOR_VERSION), (''svc'', PStr svc), (''p'', PStr path),
         (''f'', PStr fp), (''pg'', PInt pg), (''s'', PInt n)]"
  have c: "c = seal ?d" "1 \<le> pg" "1 \<le> n"
    using assms(1) by (auto simp: encode_page_cursor_def split: if_splits)
  have sc: "\<forall>p\<in>set ?d. scalar (snd p)" using assms(2,3) short_int_1 by (simp add: CURSOR_VERSION_def)
  obtain d' where "open_cursor c svc' path' fp' =
      (if svc' = svc \<and> path' = path \<and> fp' = fp then Ok d' else Raise UserInputError)" "map_of d' = map_of ?d"
    using open_cursor_seal [OF sc, of svc path fp svc' path' fp'] c(1)
    by (auto simp: dict_get_def CURSOR_VERSION_def)
  then show ?thesis using c(2,3)
    by (simp add: decode_page_cursor_def int_at_least_def dict_get_def)
qed

end
