(* ===== verification/Dispatch.thy ===== *)
theory Dispatch imports Cursors begin

text \<open>
  \<open>_internal/dispatch.py\<close>, \<open>_internal/request.py\<close> and \<open>_internal/retry.py\<close>: how a request or a
  paginated listing is carried out. The transport of each service is the parameter \<open>get_json\<close>, the
  fingerprint of the query (\<open>Cursors.fingerprint_query\<close>) the parameter \<open>fp\<close>. The asynchronous twins
  have the same steps. The last section composes the cursors, the fetch function and the drain loop:
  it proves that draining an offset listing yields the rows of the server, each once, in order.
\<close>

section \<open>Rate-limit retries\<close>

record rate_limit_retry =
  rl_retries :: int
  rl_max_delay_seconds :: rat

definition DATA_READ_RETRY :: rate_limit_retry where
  "DATA_READ_RETRY = \<lparr>rl_retries = 2, rl_max_delay_seconds = 5\<rparr>"

definition retry_after :: "int option \<Rightarrow> int" where
  "retry_after after = (case after of Some s \<Rightarrow> s | None \<Rightarrow> 1)"

definition may_retry :: "rate_limit_retry option \<Rightarrow> int \<Rightarrow> int \<Rightarrow> bool" where
  "may_retry retry attempt delay =
     (case retry of
        None \<Rightarrow> False
      | Some r \<Rightarrow> attempt < rl_retries r \<and> of_int delay \<le> rl_max_delay_seconds r)"

text \<open>The attempts left of the \<open>for\<close> loop; \<open>sleep\<close> advances the world.\<close>

fun retry_attempts ::
  "(int \<Rightarrow> 'w \<Rightarrow> 'w) \<Rightarrow> ('w, 'a) eff \<Rightarrow> rate_limit_retry option \<Rightarrow> int \<Rightarrow> nat \<Rightarrow> ('w, 'a) eff" where
  "retry_attempts sleep call retry attempt 0 w = (Raise RuntimeError, w)"
| "retry_attempts sleep call retry attempt (Suc k) w =
     (case call w of
        (Inl (RateLimitError after), w') \<Rightarrow>
          if may_retry retry attempt (retry_after after)
          then retry_attempts sleep call retry (attempt + 1) k (sleep (max 0 (retry_after after)) w')
          else (Raise (RateLimitError after), w')
      | r \<Rightarrow> r)"

definition run_with_rate_limit_retry ::
  "(int \<Rightarrow> 'w \<Rightarrow> 'w) \<Rightarrow> ('w, 'a) eff \<Rightarrow> rate_limit_retry option \<Rightarrow> ('w, 'a) eff" where
  "run_with_rate_limit_retry sleep call retry =
     retry_attempts sleep call retry 0
       (nat ((case retry of None \<Rightarrow> 0 | Some r \<Rightarrow> rl_retries r) + 1))"

section \<open>Requests\<close>

datatype service = Gamma | Data | Rfq

fun service_name :: "service \<Rightarrow> string" where
  "service_name Gamma = ''gamma''"
| "service_name Data = ''data''"
| "service_name Rfq = ''rfq''"

type_synonym 'w transport = "string \<Rightarrow> (string \<times> pyval) list \<Rightarrow> ('w, pyval) eff"

record 'w transports =
  gamma_transport :: "'w transport"
  data_transport :: "'w transport"
  rfq_transport :: "'w transport"

definition transport_for :: "'w transports \<Rightarrow> service \<Rightarrow> 'w transport" where
  "transport_for ctx s =
     (case s of Gamma \<Rightarrow> gamma_transport ctx | Data \<Rightarrow> data_transport ctx | Rfq \<Rightarrow> rfq_transport ctx)"

record 'a request_spec =
  rs_service :: service
  rs_path :: string
  rs_parse :: "pyval \<Rightarrow> 'a res"
  rs_params :: "(string \<times> pyval) list"
  rs_retry :: "rate_limit_retry option"

record 'a offset_spec =
  os_service :: service
  os_path :: string
  os_parse_items :: "pyval \<Rightarrow> 'a list res"
  os_base_params :: "base_params option"
  os_max_page_size :: "int option"
  os_max_offset :: "int option"
  os_page_fill :: "('a list \<Rightarrow> int) option"

record 'a keyset_payload =
  kp_items :: "'a list"
  kp_server_next_cursor :: "string option"

record 'a keyset_spec =
  ks_service :: service
  ks_path :: string
  ks_parse_page :: "pyval \<Rightarrow> 'a keyset_payload res"
  ks_base_params :: "base_params option"
  ks_cursor_param :: string
  ks_max_page_size :: "int option"
  ks_retry :: "rate_limit_retry option"

record 'a page_spec =
  ps_service :: service
  ps_path :: string
  ps_parse_page :: "pyval \<Rightarrow> 'a page_payload res"
  ps_base_params :: "base_params option"

definition dispatch :: "(int \<Rightarrow> 'w \<Rightarrow> 'w) \<Rightarrow> 'w transports \<Rightarrow> 'a request_spec \<Rightarrow> ('w, 'a) eff" where
  "dispatch sleep ctx spec =
     bindS (run_with_rate_limit_retry sleep
              (transport_for ctx (rs_service spec) (rs_path spec) (rs_params spec)) (rs_retry spec)) (\<lambda>payload.
     liftS (rs_parse spec payload))"

definition params_of :: "base_params option \<Rightarrow> base_params" where
  "params_of ps = (case ps of None \<Rightarrow> [] | Some d \<Rightarrow> d)"

definition exceeds :: "int option \<Rightarrow> int \<Rightarrow> bool" where
  "exceeds most n = (case most of None \<Rightarrow> False | Some m \<Rightarrow> m < n)"

definition check_offset_window :: "'a offset_spec \<Rightarrow> int \<Rightarrow> int \<Rightarrow> unit res" where
  "check_offset_window spec offset page_size =
     (if exceeds (os_max_page_size spec) page_size then Raise UserInputError
      else if exceeds (os_max_offset spec) offset then Raise PaginationLimitError
      else Ok ())"

definition offset_fetch ::
  "(base_params option \<Rightarrow> string) \<Rightarrow> 'w transports \<Rightarrow> 'a offset_spec \<Rightarrow> int \<Rightarrow> ('w, 'a) fetch" where
  "offset_fetch fp ctx spec page_size cursor =
     bindS (liftS (case cursor of
              Some c \<Rightarrow> decode_offset_cursor c (service_name (os_service spec)) (os_path spec)
                          (fp (os_base_params spec))
            | None \<Rightarrow> Ok (0, page_size))) (\<lambda>(offset, effective_size).
     bindS (liftS (check_offset_window spec offset effective_size)) (\<lambda>_.
     bindS (transport_for ctx (os_service spec) (os_path spec)
              (dict_set ''offset'' (PInt offset)
                (dict_set ''limit'' (PInt effective_size) (params_of (os_base_params spec))))) (\<lambda>payload.
     bindS (liftS (os_parse_items spec payload)) (\<lambda>items.
     liftS (compute_offset_page (service_name (os_service spec)) (os_path spec) (fp (os_base_params spec))
              offset effective_size items (os_page_fill spec) (os_max_offset spec))))))"

definition paginate_offset ::
  "(base_params option \<Rightarrow> string) \<Rightarrow> 'w transports \<Rightarrow> 'a offset_spec \<Rightarrow> int \<Rightarrow> string option
     \<Rightarrow> (('w, 'a) fetch \<times> paginator) res" where
  "paginate_offset fp ctx spec page_size initial_cursor =
     (if page_size < 1 then Raise UserInputError
      else if exceeds (os_max_page_size spec) page_size then Raise UserInputError
      else Ok (offset_fetch fp ctx spec page_size, Paginator initial_cursor))"

definition keyset_fetch ::
  "(int \<Rightarrow> 'w \<Rightarrow> 'w) \<Rightarrow> (base_params option \<Rightarrow> string) \<Rightarrow> 'w transports \<Rightarrow> 'a keyset_spec \<Rightarrow> int \<Rightarrow> ('w, 'a) fetch" where
  "keyset_fetch sleep fp ctx spec page_size cursor =
     bindS (liftS (case cursor of
              Some c \<Rightarrow> map_ok Some (decode_keyset_cursor c (service_name (ks_service spec)) (ks_path spec)
                          (fp (ks_base_params spec)))
            | None \<Rightarrow> Ok None)) (\<lambda>server_cursor.
     let limited = dict_set ''limit'' (PInt page_size) (params_of (ks_base_params spec));
         params = (case server_cursor of
             Some c \<Rightarrow> dict_set (ks_cursor_param spec) (PStr c) limited | None \<Rightarrow> limited)
     in bindS (run_with_rate_limit_retry sleep
                 (transport_for ctx (ks_service spec) (ks_path spec) params) (ks_retry spec)) (\<lambda>payload.
        bindS (liftS (ks_parse_page spec payload)) (\<lambda>keyset_page.
        liftS (compute_keyset_page (service_name (ks_service spec)) (ks_path spec) (fp (ks_base_params spec))
                 (kp_items keyset_page) (kp_server_next_cursor keyset_page)))))"

definition paginate_keyset ::
  "(int \<Rightarrow> 'w \<Rightarrow> 'w) \<Rightarrow> (base_params option \<Rightarrow> string) \<Rightarrow> 'w transports \<Rightarrow> 'a keyset_spec \<Rightarrow> pyval \<Rightarrow> string option
     \<Rightarrow> (('w, 'a) fetch \<times> paginator) res" where
  "paginate_keyset sleep fp ctx spec page_size initial_cursor =
     (case page_size of
        PInt n \<Rightarrow>
          if n < 1 then Raise UserInputError
          else if exceeds (ks_max_page_size spec) n then Raise UserInputError
          else Ok (keyset_fetch sleep fp ctx spec n, Paginator initial_cursor)
      | _ \<Rightarrow> Raise UserInputError)"

definition page_fetch ::
  "(base_params option \<Rightarrow> string) \<Rightarrow> 'w transports \<Rightarrow> 'a page_spec \<Rightarrow> int \<Rightarrow> int \<Rightarrow> ('w, 'a) fetch" where
  "page_fetch fp ctx spec page_size initial_page cursor =
     bindS (liftS (case cursor of
              Some c \<Rightarrow> decode_page_cursor c (service_name (ps_service spec)) (ps_path spec)
                          (fp (ps_base_params spec))
            | None \<Rightarrow> Ok (initial_page, page_size))) (\<lambda>(page, effective_size).
     bindS (transport_for ctx (ps_service spec) (ps_path spec)
              (dict_set ''limit_per_type'' (PInt effective_size)
                (dict_set ''page'' (PInt page) (params_of (ps_base_params spec))))) (\<lambda>payload.
     bindS (liftS (ps_parse_page spec payload)) (\<lambda>page_payload.
     liftS (compute_page_based_page (service_name (ps_service spec)) (ps_path spec) (fp (ps_base_params spec))
              page effective_size page_payload))))"

definition paginate_page_based ::
  "(base_params option \<Rightarrow> string) \<Rightarrow> 'w transports \<Rightarrow> 'a page_spec \<Rightarrow> int \<Rightarrow> int \<Rightarrow> string option
     \<Rightarrow> (('w, 'a) fetch \<times> paginator) res" where
  "paginate_page_based fp ctx spec page_size initial_page initial_cursor =
     (if page_size < 1 then Raise UserInputError
      else if initial_page < 1 then Raise UserInputError
      else Ok (page_fetch fp ctx spec page_size initial_page, Paginator initial_cursor))"

definition keyset_or_offset_fetch ::
  "('w, 'a) fetch \<Rightarrow> ('w, 'a) fetch \<Rightarrow> string \<Rightarrow> ('w, 'a) fetch" where
  "keyset_or_offset_fetch keyset offset offset_path cursor =
     (case cursor of
        None \<Rightarrow> first_page keyset (Paginator None)
      | Some c \<Rightarrow>
          bindS (liftS (cursor_path c)) (\<lambda>p.
          if p = offset_path then first_page offset (from_cursor (Paginator None) (Some c))
          else first_page keyset (from_cursor (Paginator None) (Some c))))"

definition paginate_keyset_or_resume_offset ::
  "(int \<Rightarrow> 'w \<Rightarrow> 'w) \<Rightarrow> (base_params option \<Rightarrow> string) \<Rightarrow> 'w transports \<Rightarrow> 'a keyset_spec \<Rightarrow> 'a offset_spec
     \<Rightarrow> int \<Rightarrow> (('w, 'a) fetch \<times> paginator) res" where
  "paginate_keyset_or_resume_offset sleep fp ctx keyset_spec offset_spec page_size =
     bindE (paginate_keyset sleep fp ctx keyset_spec (PInt page_size) None) (\<lambda>(keyset, _).
     bindE (paginate_offset fp ctx offset_spec page_size None) (\<lambda>(offset, _).
     Ok (keyset_or_offset_fetch keyset offset (os_path offset_spec), Paginator None)))"

section \<open>Retries end\<close>

text \<open>With a nonnegative count of retries the loop never runs out of attempts.\<close>

lemma retry_attempts_exhausted:
  assumes "\<And>r. retry = Some r \<Longrightarrow> rl_retries r < attempt + int k" "retry = None \<Longrightarrow> 0 < k" "0 < k"
    and "\<And>w. fst (call w) \<noteq> Raise RuntimeError"
  shows "fst (retry_attempts sleep call retry attempt k w) \<noteq> Raise RuntimeError"
  using assms(1-3)
proof (induction k arbitrary: attempt w)
  case (Suc k)
  obtain r w' where c: "call w = (r, w')" by (cases "call w")
  show ?case
  proof (cases "\<exists>a. r = Raise (RateLimitError a) \<and> may_retry retry attempt (retry_after a)")
    case True
    then obtain a where a: "r = Raise (RateLimitError a)" "may_retry retry attempt (retry_after a)" by blast
    then obtain q where q: "retry = Some q" "attempt < rl_retries q"
      by (auto simp: may_retry_def split: option.splits)
    have "0 < k" using Suc.prems(1) [OF q(1)] q(2) by linarith
    then have "fst (retry_attempts sleep call retry (attempt + 1) k (sleep (max 0 (retry_after a)) w')) \<noteq> Raise RuntimeError"
      using Suc.prems(1) q(1) by (intro Suc.IH) auto
    then show ?thesis using a by (simp add: c)
  next
    case False
    then show ?thesis using assms(4) [of w] c by (auto split: sum.splits py_error.splits)
  qed
qed simp

section \<open>An offset listing is complete\<close>

text \<open>A server that answers \<open>limit\<close> and \<open>offset\<close> with that slice of its rows.\<close>

definition serves_rows :: "'w transports \<Rightarrow> 'a offset_spec \<Rightarrow> 'a list \<Rightarrow> bool" where
  "serves_rows ctx spec rows \<longleftrightarrow>
     (\<forall>params w n k. dict_get ''limit'' params = PInt n \<longrightarrow> dict_get ''offset'' params = PInt k \<longrightarrow>
        (\<exists>payload w'. transport_for ctx (os_service spec) (os_path spec) params w = (Ok payload, w')
           \<and> os_parse_items spec payload = Ok (take (nat n) (drop (nat k) rows))))"

definition plain_listing :: "'a offset_spec \<Rightarrow> int \<Rightarrow> 'a list \<Rightarrow> bool" where
  "plain_listing spec n rows \<longleftrightarrow>
     os_path spec \<noteq> [] \<and> os_max_offset spec = None \<and> os_page_fill spec = None
     \<and> 1 \<le> n \<and> \<not> exceeds (os_max_page_size spec) n \<and> int (length rows) + n < 10 ^ 100"

definition offset_cursor_at :: "(base_params option \<Rightarrow> string) \<Rightarrow> 'a offset_spec \<Rightarrow> string \<Rightarrow> int \<Rightarrow> int \<Rightarrow> bool" where
  "offset_cursor_at fp spec c k n \<longleftrightarrow>
     decode_offset_cursor c (service_name (os_service spec)) (os_path spec) (fp (os_base_params spec)) = Ok (k, n)"

lemma offset_fetch_slice:
  assumes srv: "serves_rows ctx spec rows" and spec: "plain_listing spec n rows"
    and k: "0 \<le> k" "k \<le> int (length rows)"
    and cur: "case cursor of None \<Rightarrow> k = 0 | Some c \<Rightarrow> offset_cursor_at fp spec c k n"
  shows "\<exists>page w'. offset_fetch fp ctx spec n cursor w = (Ok page, w')
    \<and> page_items page = take (nat n) (drop (nat k) rows)
    \<and> (has_more page \<longleftrightarrow> k + n \<le> int (length rows)) \<and> \<not> limit_reached page
    \<and> (has_more page \<longrightarrow> (\<exists>c. next_cursor page = Some c \<and> offset_cursor_at fp spec c (k + n) n))"
proof -
  let ?svc = "service_name (os_service spec)" and ?fp = "fp (os_base_params spec)"
  let ?items = "take (nat n) (drop (nat k) rows)"
  let ?params = "dict_set ''offset'' (PInt k) (dict_set ''limit'' (PInt n) (params_of (os_base_params spec)))"
  have n: "1 \<le> n" "os_path spec \<noteq> []" "os_max_offset spec = None" "os_page_fill spec = None"
    "\<not> exceeds (os_max_page_size spec) n" using spec by (auto simp: plain_listing_def)
  have dec: "(case cursor of Some c \<Rightarrow> decode_offset_cursor c ?svc (os_path spec) ?fp | None \<Rightarrow> Ok (0, n)) = Ok (k, n)"
    using cur by (cases cursor) (auto simp: offset_cursor_at_def)
  have "dict_get ''limit'' ?params = PInt n" "dict_get ''offset'' ?params = PInt k" by (simp_all add: dict_get_def)
  then obtain payload w' where call: "transport_for ctx (os_service spec) (os_path spec) ?params w = (Ok payload, w')"
      "os_parse_items spec payload = Ok ?items"
    using srv unfolding serves_rows_def by blast
  have full: "n \<le> int (length ?items) \<longleftrightarrow> k + n \<le> int (length rows)" using k n by auto
  obtain c where c: "encode_offset_cursor ?svc (os_path spec) ?fp (k + n) n = Ok c"
    using n k by (auto simp: encode_offset_cursor_def)
  have at: "offset_cursor_at fp spec c (k + n) n" if "k + n \<le> int (length rows)"
  proof -
    have "short_int (k + n)" "short_int n"
      using k n that spec by (auto simp: plain_listing_def intro!: short_intI)
    then show ?thesis unfolding offset_cursor_at_def by (simp add: decode_offset_encode [OF c])
  qed
  show ?thesis using dec call n full c at
    by (auto simp: offset_fetch_def bindS_app check_offset_window_def exceeds_def compute_offset_page_def)
qed

lemma drain_offset:
  assumes srv: "serves_rows ctx spec rows" and spec: "plain_listing spec n rows"
  shows "0 \<le> k \<Longrightarrow> k \<le> int (length rows) \<Longrightarrow>
      (case cursor of None \<Rightarrow> k = 0 | Some c \<Rightarrow> offset_cursor_at fp spec c k n) \<Longrightarrow>
      \<forall>d\<in>set requested. \<exists>j\<le>k. offset_cursor_at fp spec d j n \<Longrightarrow>
      next_page (offset_fetch fp ctx spec n) g w = fetch_page (offset_fetch fp ctx spec n) cursor requested w \<Longrightarrow>
      \<exists>w'. drain_pages (offset_fetch fp ctx spec n) None (take (nat k) rows) g w
        = Some (Ok (rows, False, False), w')"
proof (induction "nat (int (length rows) - k)" arbitrary: k cursor requested g w rule: less_induct)
  case less
  let ?fetch = "offset_fetch fp ctx spec n"
  have n: "1 \<le> n" using spec by (simp add: plain_listing_def)
  obtain page w1 where page: "?fetch cursor w = (Ok page, w1)" "page_items page = take (nat n) (drop (nat k) rows)"
      "has_more page \<longleftrightarrow> k + n \<le> int (length rows)" "\<not> limit_reached page"
      "has_more page \<longrightarrow> (\<exists>c. next_cursor page = Some c \<and> offset_cursor_at fp spec c (k + n) n)"
    using offset_fetch_slice [OF srv spec less.prems(1-3)] by metis
  have next_p: "next_page ?fetch g w = ((Ok (Some page), Yielded page requested), w1)"
    using less.prems(5) page(1) by (simp add: fetch_page_def)
  have out: "take (nat k) rows @ page_items page = take (nat (k + n)) rows"
    using less.prems(1) n by (simp add: page(2) nat_add_distrib take_add)
  show ?case
  proof (cases "has_more page")
    case False
    then have "take (nat (k + n)) rows = rows" using page(3) by simp
    then show ?thesis
      using False page(4) next_p out
      by (simp add: drain_pages.simps [of ?fetch None "take (nat k) rows" g w] take_items_None)
  next
    case True
    then obtain c where c: "next_cursor page = Some c" "offset_cursor_at fp spec c (k + n) n" using page(5) by blast
    have new: "c \<notin> set requested"
    proof
      assume "c \<in> set requested"
      then obtain j where "j \<le> k" "offset_cursor_at fp spec c j n" using less.prems(4) by blast
      then show False using c(2) n by (simp add: offset_cursor_at_def)
    qed
    have "\<exists>w'. drain_pages ?fetch None (take (nat (k + n)) rows) (Yielded page requested) w1
        = Some (Ok (rows, False, False), w')"
    proof (rule less.hyps [where cursor = "Some c" and requested = "c # requested"])
      show "nat (int (length rows) - (k + n)) < nat (int (length rows) - k)" using True page(3) n by simp
      show "0 \<le> k + n" "k + n \<le> int (length rows)" using less.prems(1) n True page(3) by simp_all
      show "\<forall>d\<in>set (c # requested). \<exists>j\<le>k + n. offset_cursor_at fp spec d j n"
      proof
        fix d assume "d \<in> set (c # requested)"
        then consider "d = c" | "d \<in> set requested" by auto
        then show "\<exists>j\<le>k + n. offset_cursor_at fp spec d j n"
        proof cases
          case 2
          then obtain j where "j \<le> k" "offset_cursor_at fp spec d j n" using less.prems(4) by blast
          then show ?thesis using n by (intro exI [of _ j]) simp
        qed (use c(2) in auto)
      qed
      show "next_page ?fetch (Yielded page requested) w1 = fetch_page ?fetch (Some c) (c # requested) w1"
        using True page(4) c(1) new by (simp add: take_next_cursor_def)
    qed (use c in simp)
    then show ?thesis
      using True page(4) next_p out
      by (simp add: drain_pages.simps [of ?fetch None "take (nat k) rows" g w] take_items_None)
  qed
qed

end
