(* ===== verification/Account_Api.thy ===== *)
theory Account_Api imports Dispatch Protocol_Ids begin

text \<open>
  The requests of the CLOB account and market endpoints: \<open>actions/_cursor.py\<close>, \<open>actions/account.py\<close>,
  \<open>actions/clob.py\<close>, \<open>actions/orders/cancel.py\<close> and \<open>actions/order_heartbeats.py\<close>. A request is a path
  and its parameters. The validation of response items by pydantic is a parameter.
\<close>

type_synonym request = "string \<times> (string \<times> pyval) list"

section \<open>Server cursors\<close>

definition END_CURSOR :: string where "END_CURSOR = ''LTE=''"

definition validate_cursor :: "pyval \<Rightarrow> pyval res" where
  "validate_cursor value =
     (if value = PNone then Ok PNone
      else if \<not> py_truthy value then Raise UserInputError
      else Ok value)"

definition next_cursor_or_none :: "pyval \<Rightarrow> string option res" where
  "next_cursor_or_none raw =
     (case raw of
        PNone \<Rightarrow> Ok None
      | PStr s \<Rightarrow>
          if s = END_CURSOR then Ok None
          else if s = [] then Raise UnexpectedResponseError
          else Ok (Some s)
      | _ \<Rightarrow> Raise UnexpectedResponseError)"

definition optional_int :: "(string \<times> pyval) list \<Rightarrow> string \<Rightarrow> int option res" where
  "optional_int payload key =
     (case map_of payload key of
        None \<Rightarrow> Ok None
      | Some PNone \<Rightarrow> Ok None
      | Some (PInt n) \<Rightarrow> Ok (Some n)
      | Some _ \<Rightarrow> Raise UnexpectedResponseError)"

section \<open>Account requests\<close>

definition validate_asset_type :: "string \<Rightarrow> unit res" where
  "validate_asset_type asset_type =
     (if asset_type \<in> {''COLLATERAL'', ''CONDITIONAL'', ''CONDITIONAL-V2''} then Ok ()
      else Raise UserInputError)"

definition add_optional :: "(string \<times> pyval) list \<Rightarrow> string \<Rightarrow> pyval \<Rightarrow> (string \<times> pyval) list res" where
  "add_optional params key value =
     (case value of
        PNone \<Rightarrow> Ok params
      | PStr _ \<Rightarrow> Ok (dict_set key value params)
      | PInt _ \<Rightarrow> Ok (dict_set key value params)
      | PFloat _ \<Rightarrow> Ok (dict_set key value params)
      | PBool _ \<Rightarrow> Ok (dict_set key value params)
      | _ \<Rightarrow> Raise UserInputError)"

text \<open>\<open>if value is not None: _add_optional(params, key, require_nonempty(key, value))\<close>\<close>

definition add_nonempty :: "string \<Rightarrow> pyval \<Rightarrow> (string \<times> pyval) list \<Rightarrow> (string \<times> pyval) list res" where
  "add_nonempty key value params =
     (if value = PNone then Ok params
      else bindE (require_nonempty value) (\<lambda>s. add_optional params key (PStr s)))"

definition add_resolved_asset :: "string \<Rightarrow> pyval \<Rightarrow> pyval \<Rightarrow> (string \<times> pyval) list \<Rightarrow> (string \<times> pyval) list res" where
  "add_resolved_asset key asset_id token_id params =
     bindE (resolve_optional_asset_id asset_id token_id) (\<lambda>resolved.
     case resolved of None \<Rightarrow> Ok params | Some a \<Rightarrow> add_optional params key (PStr a))"

definition add_cursor :: "pyval \<Rightarrow> (string \<times> pyval) list \<Rightarrow> (string \<times> pyval) list res" where
  "add_cursor cursor params =
     bindE (validate_cursor cursor) (\<lambda>c. if c = PNone then Ok params else add_optional params ''next_cursor'' c)"

definition build_list_open_orders_request ::
  "pyval \<Rightarrow> pyval \<Rightarrow> pyval \<Rightarrow> pyval \<Rightarrow> pyval \<Rightarrow> request res" where
  "build_list_open_orders_request asset_id token_id ident market cursor =
     bindE (add_resolved_asset ''asset_id'' asset_id token_id []) (\<lambda>params.
     bindE (add_nonempty ''id'' ident params) (\<lambda>params.
     bindE (add_nonempty ''market'' market params) (\<lambda>params.
     bindE (add_cursor cursor params) (\<lambda>params.
     Ok (''/data/orders'', params)))))"

definition build_list_account_trades_request ::
  "pyval \<Rightarrow> pyval \<Rightarrow> pyval \<Rightarrow> pyval \<Rightarrow> pyval \<Rightarrow> pyval \<Rightarrow> pyval \<Rightarrow> pyval \<Rightarrow> request res" where
  "build_list_account_trades_request asset_id token_id ident market maker_address after before cursor =
     bindE (add_resolved_asset ''asset_id'' asset_id token_id []) (\<lambda>params.
     bindE (add_nonempty ''id'' ident params) (\<lambda>params.
     bindE (add_nonempty ''market'' market params) (\<lambda>params.
     bindE (add_nonempty ''maker_address'' maker_address params) (\<lambda>params.
     bindE (add_nonempty ''after'' after params) (\<lambda>params.
     bindE (add_nonempty ''before'' before params) (\<lambda>params.
     bindE (add_cursor cursor params) (\<lambda>params.
     Ok (''/data/trades'', params))))))))"

text \<open>A page of items under \<open>data\<close> with a server cursor; \<open>adapter\<close> validates the items.\<close>

definition parse_cursor_page :: "(pyval \<Rightarrow> 'a list option) \<Rightarrow> pyval \<Rightarrow> 'a page res" where
  "parse_cursor_page adapter data =
     (case data of
        PDict payload \<Rightarrow>
          (case adapter (dict_get ''data'' payload) of
             None \<Rightarrow> Raise UnexpectedResponseError
           | Some items \<Rightarrow>
               bindE (next_cursor_or_none (dict_get ''next_cursor'' payload)) (\<lambda>cursor.
               Ok \<lparr>page_items = items, has_more = (cursor \<noteq> None), next_cursor = cursor,
                   total_count = None, limit_reached = False\<rparr>))
      | _ \<Rightarrow> Raise UnexpectedResponseError)"

definition parse_open_orders_page :: "(pyval \<Rightarrow> 'a list option) \<Rightarrow> pyval \<Rightarrow> 'a page res" where
  "parse_open_orders_page adapter data = parse_cursor_page adapter data"

definition parse_account_trades_page :: "(pyval \<Rightarrow> 'a list option) \<Rightarrow> pyval \<Rightarrow> 'a page res" where
  "parse_account_trades_page adapter data = parse_cursor_page adapter data"

definition build_closed_only_mode_request :: request where
  "build_closed_only_mode_request = (''/auth/ban-status/closed-only'', [])"

definition parse_closed_only_mode :: "pyval \<Rightarrow> bool res" where
  "parse_closed_only_mode data =
     (case data of
        PDict d \<Rightarrow> (case dict_get ''closed_only'' d of PBool b \<Rightarrow> Ok b | _ \<Rightarrow> Raise UnexpectedResponseError)
      | _ \<Rightarrow> Raise UnexpectedResponseError)"

definition build_get_order_request :: "pyval \<Rightarrow> request res" where
  "build_get_order_request order_id =
     map_ok (\<lambda>validated. (''/data/order/'' @ validated, [])) (require_nonempty order_id)"

definition build_notifications_request :: "int \<Rightarrow> request" where
  "build_notifications_request signature_type = (''/notifications'', [(''signature_type'', PInt signature_type)])"

definition notification_id :: "pyval \<Rightarrow> string res" where
  "notification_id entry =
     (case entry of
        PStr s \<Rightarrow> require_nonempty entry
      | PInt n \<Rightarrow> if 4300 < ndigits \<bar>n\<bar> then Raise ValueError else Ok (str_int n)
      | _ \<Rightarrow> Raise UserInputError)"

definition build_drop_notifications_request :: "pyval \<Rightarrow> int \<Rightarrow> request res" where
  "build_drop_notifications_request ids signature_type =
     (case ids of
        PStr _ \<Rightarrow> Raise UserInputError
      | _ \<Rightarrow>
          if \<not> py_truthy ids then Raise UserInputError
          else
            bindE (py_iter ids) (\<lambda>entries.
            bindE (traverseE notification_id entries) (\<lambda>validated.
            Ok (''/notifications'',
                [(''ids'', PStr (join_with CHR '','' validated)), (''signature_type'', PInt signature_type)]))))"

definition balance_allowance_params :: "string \<Rightarrow> pyval \<Rightarrow> pyval \<Rightarrow> int \<Rightarrow> (string \<times> pyval) list res" where
  "balance_allowance_params asset_type asset_id token_id signature_type =
     bindE (validate_asset_type asset_type) (\<lambda>_.
     bindE (resolve_optional_asset_id asset_id token_id) (\<lambda>resolved.
     Ok ([(''asset_type'', PStr asset_type), (''signature_type'', PInt signature_type)]
         @ (case resolved of None \<Rightarrow> [] | Some a \<Rightarrow> [(''token_id'', PStr a)]))))"

definition build_balance_allowance_request :: "string \<Rightarrow> pyval \<Rightarrow> pyval \<Rightarrow> int \<Rightarrow> request res" where
  "build_balance_allowance_request asset_type asset_id token_id signature_type =
     map_ok (Pair ''/balance-allowance'') (balance_allowance_params asset_type asset_id token_id signature_type)"

definition build_update_balance_allowance_request :: "string \<Rightarrow> pyval \<Rightarrow> pyval \<Rightarrow> int \<Rightarrow> request res" where
  "build_update_balance_allowance_request asset_type asset_id token_id signature_type =
     map_ok (Pair ''/balance-allowance/update'')
       (balance_allowance_params asset_type asset_id token_id signature_type)"

section \<open>Market requests\<close>

definition single_asset_request :: "string \<Rightarrow> pyval \<Rightarrow> pyval \<Rightarrow> request res" where
  "single_asset_request path asset_id token_id =
     map_ok (\<lambda>resolved. (path, [(''token_id'', PStr resolved)])) (resolve_asset_id asset_id token_id)"

definition build_midpoint_request :: "pyval \<Rightarrow> pyval \<Rightarrow> request res" where
  "build_midpoint_request asset_id token_id = single_asset_request ''/midpoint'' asset_id token_id"

definition build_spread_request :: "pyval \<Rightarrow> pyval \<Rightarrow> request res" where
  "build_spread_request asset_id token_id = single_asset_request ''/spread'' asset_id token_id"

definition build_last_trade_price_request :: "pyval \<Rightarrow> pyval \<Rightarrow> request res" where
  "build_last_trade_price_request asset_id token_id = single_asset_request ''/last-trade-price'' asset_id token_id"

text \<open>A POST of one object per asset.\<close>

definition many_assets_request :: "string \<Rightarrow> pyval \<Rightarrow> pyval \<Rightarrow> (string \<times> pyval) res" where
  "many_assets_request path asset_ids token_ids =
     map_ok (\<lambda>validated. (path, PList (map (\<lambda>tid. PDict [(''token_id'', PStr tid)]) validated)))
       (resolve_asset_ids asset_ids token_ids)"

definition build_midpoints_request :: "pyval \<Rightarrow> pyval \<Rightarrow> (string \<times> pyval) res" where
  "build_midpoints_request asset_ids token_ids = many_assets_request ''/midpoints'' asset_ids token_ids"

definition build_spreads_request :: "pyval \<Rightarrow> pyval \<Rightarrow> (string \<times> pyval) res" where
  "build_spreads_request asset_ids token_ids = many_assets_request ''/spreads'' asset_ids token_ids"

definition build_order_books_request :: "pyval \<Rightarrow> pyval \<Rightarrow> (string \<times> pyval) res" where
  "build_order_books_request asset_ids token_ids = many_assets_request ''/books'' asset_ids token_ids"

definition build_last_trade_prices_request :: "pyval \<Rightarrow> pyval \<Rightarrow> (string \<times> pyval) res" where
  "build_last_trade_prices_request asset_ids token_ids =
     many_assets_request ''/last-trades-prices'' asset_ids token_ids"

definition require_side :: "pyval \<Rightarrow> unit res" where
  "require_side side = (if side \<in> {PStr ''BUY'', PStr ''SELL''} then Ok () else Raise UserInputError)"

definition build_price_request :: "pyval \<Rightarrow> pyval \<Rightarrow> pyval \<Rightarrow> request res" where
  "build_price_request asset_id token_id side =
     bindE (resolve_asset_id asset_id token_id) (\<lambda>validated.
     bindE (require_side side) (\<lambda>_.
     Ok (''/price'', [(''token_id'', PStr validated), (''side'', side)])))"

text \<open>The argument of \<open>get_prices\<close>: a sequence whose elements may be anything.\<close>

datatype price_request = PriceRequest pyval pyval | NotAPriceRequest

datatype price_requests = TextOrSingle | RequestSequence "price_request list"

definition validate_price_request :: "price_request \<Rightarrow> (string \<times> pyval) res" where
  "validate_price_request raw =
     (case raw of
        NotAPriceRequest \<Rightarrow> Raise UserInputError
      | PriceRequest asset_id side \<Rightarrow>
          bindE (case asset_id of PStr _ \<Rightarrow> require_nonempty asset_id | _ \<Rightarrow> Raise UserInputError) (\<lambda>a.
          bindE (require_side side) (\<lambda>_. Ok (a, side))))"

definition build_prices_request :: "price_requests \<Rightarrow> (string \<times> pyval) res" where
  "build_prices_request requests =
     (case requests of
        TextOrSingle \<Rightarrow> Raise UserInputError
      | RequestSequence rs \<Rightarrow>
          if rs = [] then Raise UserInputError
          else map_ok (\<lambda>validated. (''/prices'',
                 PList (map (\<lambda>r. PDict [(''token_id'', PStr (fst r)), (''side'', snd r)]) validated)))
               (traverseE validate_price_request rs))"

section \<open>Cancellation and heartbeats\<close>

definition MAX_CANCEL_BATCH :: nat where "MAX_CANCEL_BATCH = 3000"

definition build_cancel_order_request :: "pyval \<Rightarrow> request res" where
  "build_cancel_order_request order_id =
     map_ok (\<lambda>validated. (''/order'', [(''orderID'', PStr validated)])) (require_nonempty order_id)"

definition build_cancel_orders_request :: "pyval \<Rightarrow> (string \<times> string list) res" where
  "build_cancel_orders_request order_ids =
     (case order_ids of
        PStr _ \<Rightarrow> Raise UserInputError
      | _ \<Rightarrow>
          bindE (py_iter order_ids) (\<lambda>items.
          if items = [] then Raise UserInputError
          else if MAX_CANCEL_BATCH < length items then Raise UserInputError
          else map_ok (Pair ''/orders'') (traverseE require_nonempty items)))"

definition build_cancel_all_request :: "string \<times> pyval" where
  "build_cancel_all_request = (''/cancel-all'', PNone)"

definition build_cancel_market_orders_request :: "pyval \<Rightarrow> pyval \<Rightarrow> pyval \<Rightarrow> request res" where
  "build_cancel_market_orders_request market asset_id token_id =
     bindE (resolve_optional_asset_id asset_id token_id) (\<lambda>resolved.
     if market = PNone \<and> resolved = None then Raise UserInputError
     else
       bindE (if market = PNone then Ok [] else map_ok (\<lambda>m. [(''market'', PStr m)]) (require_nonempty market))
         (\<lambda>m.
       Ok (''/cancel-market-orders'',
           (case resolved of None \<Rightarrow> [] | Some a \<Rightarrow> [(''asset_id'', PStr a)]) @ m)))"

definition build_send_order_heartbeat_request :: "pyval \<Rightarrow> request res" where
  "build_send_order_heartbeat_request heartbeat_id =
     (case heartbeat_id of
        PStr s \<Rightarrow> Ok (''/v1/heartbeats'', [(''heartbeat_id'', heartbeat_id)])
      | _ \<Rightarrow> Raise UserInputError)"

section \<open>What a request holds\<close>

lemma require_nonempty_Ok: "require_nonempty x = Ok y \<longleftrightarrow> x = PStr y \<and> y \<noteq> []"
  by (cases x) (auto simp: require_nonempty_def)

lemma traverse_nonempty: "traverseE require_nonempty xs = Ok ys \<Longrightarrow> xs = map PStr ys \<and> [] \<notin> set ys"
  by (induction xs arbitrary: ys) (auto simp: require_nonempty_Ok bindE_def split: sum.splits)

lemma cancel_ids_ok:
  assumes "bindE (py_iter v) (\<lambda>items.
      if items = [] then Raise UserInputError
      else if MAX_CANCEL_BATCH < length items then Raise UserInputError
      else map_ok (Pair ''/orders'') (traverseE require_nonempty items)) = Ok (path, ids)"
  shows "path = ''/orders'' \<and> ids \<noteq> [] \<and> length ids \<le> 3000 \<and> [] \<notin> set ids \<and> py_iter v = Ok (map PStr ids)"
proof (cases "py_iter v")
  case (Inr xs)
  then show ?thesis
    using assms by (auto simp: MAX_CANCEL_BATCH_def map_ok_def bindE_def split: if_splits sum.splits dest!: traverse_nonempty)
qed (use assms in simp)

lemma build_cancel_orders_ok:
  assumes "build_cancel_orders_request v = Ok (path, ids)"
  shows "path = ''/orders'' \<and> ids \<noteq> [] \<and> length ids \<le> 3000 \<and> [] \<notin> set ids \<and> py_iter v = Ok (map PStr ids)
    \<and> (\<forall>s. v \<noteq> PStr s)"
proof (cases "\<exists>s. v = PStr s")
  case True
  then show ?thesis using assms by (auto simp: build_cancel_orders_request_def)
next
  case False
  then have "build_cancel_orders_request v = bindE (py_iter v) (\<lambda>items.
      if items = [] then Raise UserInputError
      else if MAX_CANCEL_BATCH < length items then Raise UserInputError
      else map_ok (Pair ''/orders'') (traverseE require_nonempty items))"
    by (cases v) (simp_all add: build_cancel_orders_request_def)
  then show ?thesis using cancel_ids_ok [of v path ids] assms False by simp
qed

end
