(* ===== verification/Order_Properties.thy ===== *)
theory Order_Properties imports Metadata_Cache Account_Api begin

text \<open>
  What the order pipeline promises, stated over the model of the previous theories: from the
  parameters a caller gives, through the metadata cache, to the integer amounts of the draft that
  is signed. Each property is followed by an instance on which its hypotheses hold.
\<close>

section \<open>A small world for the instances\<close>

text \<open>
  A server with one market of two tokens on a 0.01 grid; the clock stands still and no flight is
  started by another client.
\<close>

definition demo_market_json :: pyval where
  "demo_market_json = PDict
     [(''nr'', PBool False),
      (''t'', PList [PDict [(''t'', PStr ''7'')], PDict [(''t'', PStr ''8'')]]),
      (''mts'', PFloat ''0.01'')]"

definition demo_json :: "unit get_json" where
  "demo_json path params w =
     (if path = ''/markets-by-token/7'' then
        (Ok (PDict [(''condition_id'', PStr (''0x'' @ replicate 64 CHR ''1''))]), w)
      else (Ok demo_market_json, w))"

definition demo_platform :: "unit platform" where
  "demo_platform = \<lparr>clock = (\<lambda>_. 0), get_json_of = demo_json,
     as_decimal_of = (\<lambda>_. Raise ValueError), join_condition = (\<lambda>_ s. (Raise RuntimeError, s)),
     join_market = (\<lambda>_ s. (Raise RuntimeError, s)), join_fee = (\<lambda>_ s. (Raise RuntimeError, s))\<rparr>"

definition demo_context :: order_context where
  "demo_context = \<lparr>environment_config_of = PRODUCTION, ctx_wallet = ''0xAB'', ctx_wallet_type = EOA,
     ctx_signer_address = ''0xAB''\<rparr>"

definition demo_limit :: limit_params where
  "demo_limit = \<lparr>lp_asset_id = ''7'', lp_price = Dec 56 (-2), lp_size = Dec 21045 (-3), lp_side = BUY,
     lp_post_only = False, lp_expiration = None, lp_builder_code = None\<rparr>"

definition demo_result where
  "demo_result = prepare_limit_order_draft (resolve_market demo_platform) (fetch_current_market demo_platform)
     demo_context demo_limit (initial_metadata ())"

lemma demo_draft: "fst demo_result = Ok \<lparr>draft_chain_id = 137,
         draft_exchange_address = ''0xe3333700cA9d93003F00f0F71f8515005F6c00Aa'',
         draft_expiration = 0, draft_funder_address = ''0xAB'', offered_amount = 11782400,
         draft_order_type = GTC, draft_side = BUY, draft_signer = ''0xAB'',
         requested_amount = 21040000, draft_asset_id = ''7'', draft_builder_code = None\<rparr>"
  by code_simp

text \<open>The shares and the collateral of a draft, in base units.\<close>

definition draft_shares :: "order_draft \<Rightarrow> int" where
  "draft_shares d = (if draft_side d = BUY then requested_amount d else offered_amount d)"

definition draft_collateral :: "order_draft \<Rightarrow> int" where
  "draft_collateral d = (if draft_side d = BUY then offered_amount d else requested_amount d)"

section \<open>Limit orders\<close>

lemma limit_draft_amounts:
  assumes "build_limit_order_draft ctx params p m = Ok d"
    and "valid_tick (mkt_tick_size m)" "fits p" "on_tick_grid (mkt_tick_size m) p"
    and "fits (lp_size params)" "0 < dval (lp_size params)" "dval (lp_size params) < 10 ^ 15"
  shows "draft_shares d = 10000 * \<lfloor>dval (lp_size params) * 100\<rfloor>
    \<and> of_int (draft_collateral d) = of_int (draft_shares d) * dval p"
  using limit_amounts [OF assms(2-7), of "lp_side params"] assms(1)
  by (auto simp: build_limit_order_draft_def draft_shares_def draft_collateral_def split: if_splits)

lemma limit_draft_identity:
  assumes "build_limit_order_draft ctx params p m = Ok d"
  shows "draft_asset_id d = lp_asset_id params \<and> draft_side d = lp_side params
    \<and> draft_funder_address d = ctx_wallet ctx \<and> draft_signer d = ctx_signer_address ctx
    \<and> resolve_order_exchange_address (environment_config_of ctx) (lp_asset_id params) (mkt_neg_risk m)
        = Ok (draft_exchange_address d)"
  using assms by (auto simp: build_limit_order_draft_def)

text \<open>C1: A limit order drafted through the metadata cache is for the requested asset, of the market that
  the cache then holds for it: that market contains the asset, its grid contains the price, the shares are
  the size cut to two decimals and the collateral is exactly shares times price, with no rounding against
  either side; and the exchange is the one for such markets.\<close>

theorem limit_order_draft_exact:
  assumes "prepare_limit_order_draft (resolve_market P) (fetch_current_market P) ctx params s = (Ok d, s')"
    and "metadata_ok s" "\<And>m. cached_market s' (lp_asset_id params) = Some m \<Longrightarrow> fits (mkt_tick_size m)"
    and "fits (lp_price params)" "fits (lp_size params)" "0 < dval (lp_size params)" "dval (lp_size params) < 10 ^ 15"
  shows "metadata_ok s' \<and> draft_asset_id d = lp_asset_id params \<and> draft_side d = lp_side params
    \<and> draft_funder_address d = ctx_wallet ctx
    \<and> (\<exists>m. cached_market s' (lp_asset_id params) = Some m \<and> market_ok m \<and> lp_asset_id params \<in> set (mkt_token_ids m)
        \<and> on_tick_grid (mkt_tick_size m) (lp_price params)
        \<and> resolve_order_exchange_address (environment_config_of ctx) (lp_asset_id params) (mkt_neg_risk m)
            = Ok (draft_exchange_address d))
    \<and> draft_shares d = 10000 * \<lfloor>dval (lp_size params) * 100\<rfloor>
    \<and> of_int (draft_collateral d) = of_int (draft_shares d) * dval (lp_price params)"
proof -
  obtain m where m: "metadata_ok s'" "cached_market s' (lp_asset_id params) = Some m" "market_ok m"
      "lp_asset_id params \<in> set (mkt_token_ids m)"
      "validate_price_on_tick_grid (lp_price params) (mkt_tick_size m) = Ok (lp_price params)"
      "build_limit_order_draft ctx params (lp_price params) m = Ok d"
    using metadata.prepare_limit_draft [OF assms(1,2)] by blast
  have t: "valid_tick (mkt_tick_size m)" using market_ok_tick [OF m(3) assms(3) [OF m(2)]] .
  have g: "on_tick_grid (mkt_tick_size m) (lp_price params)"
    using m(5) validate_price_on_tick_grid_eq [OF t] assms(4) by (auto split: if_splits)
  show ?thesis
    using m g limit_draft_identity [OF m(6)] limit_draft_amounts [OF m(6) t assms(4) g assms(5-7)] by blast
qed

theorem limit_order_draft_exact_witness:
  "\<exists>d m. fst demo_result = Ok d \<and> draft_asset_id d = ''7'' \<and> metadata_ok (snd demo_result)
     \<and> cached_market (snd demo_result) ''7'' = Some m \<and> on_tick_grid (mkt_tick_size m) (Dec 56 (-2))
     \<and> draft_shares d = 21040000"
proof -
  obtain d where d: "fst demo_result = Ok d" using demo_draft by blast
  have run: "prepare_limit_order_draft (resolve_market demo_platform) (fetch_current_market demo_platform)
      demo_context demo_limit (initial_metadata ()) = (Ok d, snd demo_result)"
    using d by (cases demo_result) (simp add: demo_result_def)
  have "map_option mkt_tick_size (cached_market (snd demo_result) ''7'') = Some (Dec 1 (-2))" by code_simp
  then have fit: "fits (mkt_tick_size m)" if "cached_market (snd demo_result) (lp_asset_id demo_limit) = Some m" for m
    using that by (simp add: demo_limit_def)
  have p: "lp_asset_id demo_limit = ''7''" "lp_price demo_limit = Dec 56 (-2)" "lp_size demo_limit = Dec 21045 (-3)"
    by (simp_all add: demo_limit_def)
  have "fits (lp_price demo_limit)" "fits (lp_size demo_limit)" "0 < dval (lp_size demo_limit)"
    "dval (lp_size demo_limit) < 10 ^ 15" "\<lfloor>dval (lp_size demo_limit) * 100\<rfloor> = 2104"
    by (simp_all add: demo_limit_def power_int_minus p10_nat floor_eq_iff)
  with limit_order_draft_exact [OF run metadata_ok_initial fit] d show ?thesis unfolding p by auto
qed

section \<open>Prices\<close>

lemma valid_tick_inverse:
  assumes "valid_tick t"
  obtains n :: int where "2 \<le> n" "dval t = 1 / of_int n"
proof -
  have "dval t = 1 / of_int 10 \<or> dval t = 1 / of_int 100 \<or> dval t = 1 / of_int 200 \<or> dval t = 1 / of_int 400
      \<or> dval t = 1 / of_int 1000 \<or> dval t = 1 / of_int 10000"
    using assms by (simp add: valid_tick_def)
  then show thesis using that by (elim disjE) (auto simp del: of_int_numeral)
qed

lemma grid_steps:
  assumes "t = 1 / of_int n" "2 \<le> n"
  shows "(t \<le> p \<and> p \<le> 1 - t \<and> (\<exists>k::int. p = of_int k * t)) = (\<exists>k\<ge>1. k < n \<and> (p :: rat) = of_int k / of_int n)"
proof -
  have n: "(0 :: rat) < of_int n" using assms(2) by simp
  have "t \<le> of_int k * t \<longleftrightarrow> 1 \<le> k" for k :: int
    using n by (simp add: assms(1) divide_le_eq)
  moreover have "of_int k * t \<le> 1 - t \<longleftrightarrow> k < n" for k :: int
  proof -
    have "of_int k * t \<le> 1 - t \<longleftrightarrow> of_int (k + 1) \<le> (of_int n :: rat)"
      using n by (simp add: assms(1) field_simps)
    also have "\<dots> \<longleftrightarrow> k < n" by (simp only: of_int_le_iff) linarith
    finally show ?thesis .
  qed
  ultimately show ?thesis by (auto simp: assms(1))
qed

text \<open>C2: A price is accepted exactly when it is k/n, with 1/n the tick of the market and 0 < k < n;
  it is then returned as given, and every other price is the caller's error.\<close>

theorem price_accepted_iff_on_grid:
  assumes "valid_tick t" "wide p"
  shows "\<exists>n\<ge>2. dval t = 1 / of_int n
    \<and> validate_price_on_tick_grid p t =
        (if \<exists>k\<ge>1. k < n \<and> dval p = of_int k / of_int n then Ok p else Raise UserInputError)"
proof -
  obtain n :: int where n: "2 \<le> n" "dval t = 1 / of_int n" by (rule valid_tick_inverse [OF assms(1)])
  then have "on_tick_grid t p = (\<exists>k\<ge>1. k < n \<and> dval p = of_int k / of_int n)"
    unfolding on_tick_grid_def by (rule grid_steps [rotated])
  then show ?thesis using n validate_price_on_tick_grid_eq [OF assms] by auto
qed

theorem price_accepted_iff_on_grid_witness:
  "\<exists>n\<ge>2. dval (Dec 25 (-4)) = 1 / of_int n
    \<and> validate_price_on_tick_grid (Dec 1 (-2)) (Dec 25 (-4)) =
        (if \<exists>k\<ge>1. k < n \<and> dval (Dec 1 (-2)) = of_int k / of_int n then Ok (Dec 1 (-2)) else Raise UserInputError)"
  by (rule price_accepted_iff_on_grid) (simp_all add: valid_tick_def power_int_minus p10_nat)

section \<open>Market orders\<close>

lemma floor_quotient_bounds:
  fixes q x u :: rat
  assumes "0 < u" "q = x / u"
  shows "of_int \<lfloor>q\<rfloor> * u \<le> x" "x < (of_int \<lfloor>q\<rfloor> + 1) * u"
proof -
  have "of_int \<lfloor>q\<rfloor> * u \<le> q * u" "q * u < (of_int \<lfloor>q\<rfloor> + 1) * u"
    using assms(1) floor_correct [of q] by (simp_all add: mult_right_mono mult_strict_right_mono del: of_int_floor_le)
  moreover have "q * u = x" using assms by simp
  ultimately show "of_int \<lfloor>q\<rfloor> * u \<le> x" "x < (of_int \<lfloor>q\<rfloor> + 1) * u" by simp_all
qed

lemma scale_bounds:
  fixes s u m A P U p :: rat
  assumes "s * u \<le> m * (A * A)" "m * (A * A) < (s + 1) * u" "A * P = 1" "U * A = 10000" "0 < U" "0 < P" "p = u * P"
  shows "s * U * p \<le> 10000 * m" "10000 * m < (s * U + U) * p"
proof -
  have c: "m * (A * A) * (U * P) = 10000 * m" using assms(3,4) by algebra
  have pos: "0 < U * P" using assms(5,6) by simp
  have "s * u * (U * P) \<le> m * (A * A) * (U * P)" using assms(1) pos by (intro mult_right_mono) simp_all
  then show "s * U * p \<le> 10000 * m" unfolding c assms(7) by (simp add: ac_simps)
  have "m * (A * A) * (U * P) < (s + 1) * u * (U * P)" using assms(2) pos by (intro mult_strict_right_mono)
  then show "10000 * m < (s * U + U) * p" unfolding c assms(7) by (simp add: algebra_simps)
qed

text \<open>The decimals of prices on a market are no more than its tick needs.\<close>

lemma valid_tick_decimals:
  assumes "valid_tick t" "resolve_rounding_config t = Ok c"
  shows "\<not> on_grid (cfg_price c - 1) (dval t)"
proof
  assume "on_grid (cfg_price c - 1) (dval t)"
  then obtain n :: int where n: "dval t * p10 (cfg_price c - 1) = of_int n" using on_grid_unit by blast
  have f: "is_finite t" "t \<noteq> DNaN True" using assms(1) by (cases t; simp add: valid_tick_def)+
  consider "dval t = 1/10" | "dval t = 1/100" | "dval t = 1/200" | "dval t = 1/400"
    | "dval t = 1/1000" | "dval t = 1/10000"
    using assms(1) by (auto simp: valid_tick_def)
  then have "dval t * p10 (cfg_price c - 1) = 1 / 10 \<or> dval t * p10 (cfg_price c - 1) = 1 / 2
      \<or> dval t * p10 (cfg_price c - 1) = 5 / 2"
    by cases (use assms(2) f in \<open>simp_all add: resolve_rounding_config_def rounding_by_tick_def p10_nat\<close>, auto simp: p10_nat)
  then have "(of_int (10 * n) :: rat) = of_int 1 \<or> (of_int (2 * n) :: rat) = of_int 1 \<or> (of_int (2 * n) :: rat) = of_int 5"
    unfolding n by auto
  then have "10 * n = 1 \<or> 2 * n = 1 \<or> 2 * n = 5" unfolding of_int_eq_iff .
  then show False by presburger
qed

lemma largest_multiple:
  assumes "0 < (unit :: int)" "unit dvd s" "unit dvd n" "0 < (p :: rat)" "d < of_int (s + unit) * p" "of_int n * p \<le> d"
  shows "n \<le> s"
proof (rule ccontr)
  assume "\<not> n \<le> s"
  then have "unit \<le> n - s" using assms(1-3) by (intro zdvd_imp_le) auto
  then have "(of_int (s + unit) :: rat) \<le> of_int n" by simp
  then have "of_int (s + unit) * p \<le> of_int n * p" using assms(4) by (intro mult_right_mono) auto
  then show False using assms(5,6) by simp
qed

text \<open>C3: The amounts of a market BUY at a price on the tick grid: the dollars are the amount cut to
  cents, and the shares are the most that keep dollars per share at or above the price, so that an ask
  resting exactly there can be taken. The most is meant in the precision of the market, which is two
  decimals more than the \<open>k\<close> that its tick has: in millionths, the multiples of \<open>10 ^ (4 - k)\<close>.\<close>

theorem market_buy_reaches_price:
  assumes "valid_tick t" "fits p" "on_tick_grid t p" "fits a" "1 / 100 \<le> dval a" "dval a \<le> 10 ^ 8"
  shows "\<exists>shares k. compute_market_order_amounts a p BUY t = Ok (10000 * \<lfloor>dval a * 100\<rfloor>, shares)
    \<and> 1 \<le> k \<and> k \<le> 4 \<and> on_grid k (dval t) \<and> \<not> on_grid (k - 1) (dval t) \<and> 10 ^ nat (4 - k) dvd shares
    \<and> of_int shares * dval p \<le> of_int (10000 * \<lfloor>dval a * 100\<rfloor>)
    \<and> of_int (10000 * \<lfloor>dval a * 100\<rfloor>) < of_int (shares + 10 ^ nat (4 - k)) * dval p
    \<and> (\<forall>n. 10 ^ nat (4 - k) dvd n \<and> of_int n * dval p \<le> of_int (10000 * \<lfloor>dval a * 100\<rfloor>) \<longrightarrow> n \<le> shares)"
proof -
  obtain c where c: "resolve_rounding_config t = Ok c" "cfg_size c = 2" "cfg_amount c = cfg_price c + 2"
      "1 \<le> cfg_price c" "cfg_price c \<le> 4" "on_grid (cfg_price c) (dval t)"
    by (rule valid_tick_cases [OF assms(1)])
  define k where "k = cfg_price c"
  define u where "u = \<lfloor>dval p * p10 k\<rfloor>"
  define m where "m = \<lfloor>dval a * 100\<rfloor>"
  define s where "s = \<lfloor>of_int m * p10 (2 * k) / of_int u :: rat\<rfloor>"
  define unit :: int where "unit = 10 ^ nat (4 - k)"
  have t: "0 < dval t" using assms(1) by (auto simp: valid_tick_def)
  have tp: "dval t \<le> dval p" "dval p \<le> 1 - dval t" using assms(3) by (simp_all add: on_tick_grid_def)
  obtain j :: int where "dval p = of_int j * dval t" using assms(3) by (auto simp: on_tick_grid_def)
  then have "on_grid k (dval p)" using c(6) on_grid_of_int_mult k_def by auto
  then obtain v where "dval p * p10 k = of_int v" using on_grid_unit by blast
  then have u: "dval p * p10 k = of_int u" by (simp add: u_def)
  have "0 < dval p * p10 k" using t tp by (intro mult_pos_pos) auto
  then have upos: "0 < u" using u by simp
  have b: "of_int s * of_int u \<le> of_int m * p10 (2 * k)" "of_int m * p10 (2 * k) < (of_int s + 1) * of_int u"
    unfolding s_def by (rule floor_quotient_bounds; use upos in simp)+
  have unit: "(of_int unit :: rat) = p10 (4 - k)" using c(5) by (simp add: unit_def k_def p10_nat)
  have p: "dval p = of_int u * p10 (- k)" using u by (simp add: power_int_minus field_simps)
  have A: "p10 (2 * k) = p10 k * p10 k" using p10_add [of k k] by simp
  have "p10 k * p10 (- k) = 1" using p10_add [of k "- k"] by simp
  moreover have "of_int unit * p10 k = 10000" using p10_add [of "4 - k" k] by (simp add: unit p10_nat)
  ultimately have "of_int s * of_int unit * dval p \<le> 10000 * of_int m"
      "10000 * of_int m < (of_int s * of_int unit + of_int unit) * dval p"
    using scale_bounds [of "of_int s" "of_int u" "of_int m" "p10 k" "p10 (- k)" "of_int unit" "dval p"] b p
    by (simp_all add: A unit)
  moreover have "compute_market_order_amounts a p BUY t = Ok (10000 * m, s * unit)"
    using market_buy_amounts [OF assms(1) c(1) assms(2) tp assms(4-6)]
    by (simp add: m_def s_def unit_def u_def k_def)
  moreover have "0 < unit" by (simp add: unit_def)
  ultimately have all: "compute_market_order_amounts a p BUY t = Ok (10000 * m, s * unit)"
      "of_int (s * unit) * dval p \<le> of_int (10000 * m)" "of_int (10000 * m) < of_int (s * unit + unit) * dval p" "0 < unit"
    by simp_all
  have "n \<le> s * unit" if "unit dvd n" "of_int n * dval p \<le> of_int (10000 * m)" for n
    using largest_multiple [OF all(4) _ that(1) _ all(3) that(2)] t tp by simp
  then show ?thesis unfolding m_def [symmetric]
    using all c(4-6) valid_tick_decimals [OF assms(1) c(1)]
    by (intro exI [of _ "s * unit"] exI [of _ k] conjI) (simp_all add: k_def unit_def)
qed

theorem market_buy_reaches_price_witness:
  "\<exists>shares k. compute_market_order_amounts (Dec 10 0) (Dec 33 (-2)) BUY (Dec 1 (-2)) = Ok (10000000, shares)
    \<and> on_grid k (1 / 100) \<and> \<not> on_grid (k - 1) (1 / 100) \<and> 10 ^ nat (4 - k) dvd shares
    \<and> of_int shares * dval (Dec 33 (-2)) \<le> of_int 10000000
    \<and> of_int 10000000 < of_int (shares + 10 ^ nat (4 - k)) * dval (Dec 33 (-2))"
proof -
  have g: "on_tick_grid (Dec 1 (-2)) (Dec 33 (-2))"
    unfolding on_tick_grid_def by (auto simp: power_int_minus p10_nat intro: exI [of _ 33])
  have "dval (Dec 1 (-2)) = 1 / 100" "10000 * \<lfloor>dval (Dec 10 0) * 100\<rfloor> = 10000000"
    by (simp_all add: power_int_minus p10_nat)
  note v = this
  have "valid_tick (Dec 1 (-2))" "fits (Dec 33 (-2))" "fits (Dec 10 0)" "1 / 100 \<le> dval (Dec 10 0)" "dval (Dec 10 0) \<le> 10 ^ 8"
    by (simp_all add: valid_tick_def power_int_minus p10_nat)
  from market_buy_reaches_price [OF this(1,2) g this(3-5)] show ?thesis unfolding v by blast
qed

text \<open>The amounts of a market SELL at a price on the tick grid: the shares are the size cut to two
  decimals and the least proceeds are exactly shares times price.\<close>

theorem market_sell_exact:
  assumes "valid_tick t" "fits p" "on_tick_grid t p" "fits a" "0 \<le> dval a" "dval a < 10 ^ 15"
  shows "\<exists>proceeds. compute_market_order_amounts a p SELL t = Ok (10000 * \<lfloor>dval a * 100\<rfloor>, proceeds)
    \<and> of_int proceeds = of_int (10000 * \<lfloor>dval a * 100\<rfloor>) * dval p"
proof -
  obtain c where c: "resolve_rounding_config t = Ok c" "on_grid (cfg_price c) (dval t)"
    by (rule valid_tick_cases [OF assms(1)])
  obtain j :: int where "dval p = of_int j * dval t" using assms(3) by (auto simp: on_tick_grid_def)
  then have "on_grid (cfg_price c) (dval p)" using c(2) on_grid_of_int_mult by auto
  then obtain v where "dval p * p10 (cfg_price c) = of_int v" using on_grid_unit by blast
  then have u: "of_int \<lfloor>dval p * p10 (cfg_price c)\<rfloor> = dval p * p10 (cfg_price c)" by simp
  obtain col where col: "compute_market_order_amounts a p SELL t = Ok (10000 * \<lfloor>dval a * 100\<rfloor>, col)"
      "of_int col * p10 (cfg_price c) = of_int (10000 * \<lfloor>dval a * 100\<rfloor>) * (dval p * p10 (cfg_price c))"
    using market_sell_amounts [OF assms(1) c(1) assms(2) _ _ assms(4-6)] assms(3) u
    by (auto simp: on_tick_grid_def)
  then have "of_int col = of_int (10000 * \<lfloor>dval a * 100\<rfloor>) * dval p"
    using p10_nonzero [of "cfg_price c"] by simp
  with col(1) show ?thesis by blast
qed

theorem market_sell_exact_witness:
  "\<exists>proceeds. compute_market_order_amounts (Dec 1234567 (-4)) (Dec 42 (-2)) SELL (Dec 1 (-2))
      = Ok (123450000, proceeds) \<and> of_int proceeds = of_int 123450000 * dval (Dec 42 (-2))"
proof -
  have g: "on_tick_grid (Dec 1 (-2)) (Dec 42 (-2))"
    unfolding on_tick_grid_def by (auto simp: power_int_minus p10_nat intro: exI [of _ 42])
  have f: "\<lfloor>1234567 / 100 :: rat\<rfloor> = 12345" by (rule floor_unique) simp_all
  show ?thesis using market_sell_exact [of "Dec 1 (-2)" "Dec 42 (-2)" "Dec 1234567 (-4)"] g
    by (simp add: valid_tick_def power_int_minus p10_nat f)
qed

lemma fee_source_ok:
  "metadata_ok s \<Longrightarrow> resolve_builder_taker_fee_rate P c s = (r, s') \<Longrightarrow> metadata_ok s'"
  by (auto simp: resolve_builder_taker_fee_rate_def split: option.splits if_splits dest: fee_get_ok)

text \<open>C4: A market BUY with a price limit, prepared through the metadata cache, never encodes dollars per
  share at or above the next price of the finest grid: rounding cannot lift a resting ask above the
  limit, whatever the fees and the tick size. Both amounts are positive.\<close>

theorem protected_buy_respects_limit:
  assumes "prepare_market_order_draft dpow (resolve_market P) (fetch_current_market P) price_source
      (resolve_builder_taker_fee_rate P) ctx params s = (Ok d, s')"
    and "metadata_ok s" "mp_side params = BUY" "mp_max_price params = Some limit"
  shows "metadata_ok s' \<and> 0 < offered_amount d \<and> 0 < requested_amount d
    \<and> of_int (offered_amount d) / of_int (requested_amount d) < dval limit + 1 / 10000
    \<and> (\<exists>m. market_ok m \<and> mp_asset_id params \<in> set (mkt_token_ids m)
        \<and> validate_price_on_tick_grid limit (mkt_tick_size m) = Ok limit)"
proof -
  have run: "prepare_protected_market_order_draft dpow (resolve_market P) (fetch_current_market P)
      (resolve_builder_taker_fee_rate P) ctx params s = (Ok d, s')"
    using assms(1,3,4) by (simp add: prepare_market_order_draft_def has_protected_price_def)
  obtain m rate where m: "metadata_ok s'" "market_ok m" "mp_asset_id params \<in> set (mkt_token_ids m)"
      "build_protected_market_order_draft dpow ctx params m rate = Ok d"
    using metadata.prepare_protected_draft [OF run assms(2)] fee_source_ok by blast
  then show ?thesis using build_protected_buy [OF m(4) assms(3)] assms(4)
    by (auto simp: field_simps)
qed

definition demo_market :: market_params where
  "demo_market = \<lparr>mp_asset_id = ''7'', mp_side = BUY, mp_order_type = FOK, mp_amount = Some (Dec 10 0),
     mp_shares = None, mp_max_spend = None, mp_max_price = Some (Dec 33 (-2)), mp_min_price = None,
     mp_builder_code = None\<rparr>"

definition demo_market_result where
  "demo_market_result = prepare_market_order_draft (\<lambda>_ _. Raise InvalidOperation) (resolve_market demo_platform)
     (fetch_current_market demo_platform) (\<lambda>_ _ _ _ w. (Raise RuntimeError, w))
     (resolve_builder_taker_fee_rate demo_platform) demo_context demo_market (initial_metadata ())"

lemma demo_market_draft:
  "map_ok (\<lambda>d. (offered_amount d, requested_amount d)) (fst demo_market_result) = Ok (10000000, 30303000)"
  by code_simp

theorem protected_buy_respects_limit_witness:
  "\<exists>d. fst demo_market_result = Ok d \<and> 0 < requested_amount d
    \<and> of_int (offered_amount d) / of_int (requested_amount d) < dval (Dec 33 (-2)) + 1 / 10000"
proof -
  obtain d where d: "fst demo_market_result = Ok d"
    using demo_market_draft by (cases "fst demo_market_result") (auto simp: map_ok_def)
  have "prepare_market_order_draft (\<lambda>_ _. Raise InvalidOperation) (resolve_market demo_platform)
     (fetch_current_market demo_platform) (\<lambda>_ _ _ _ w. (Raise RuntimeError, w))
     (resolve_builder_taker_fee_rate demo_platform) demo_context demo_market (initial_metadata ())
     = (Ok d, snd demo_market_result)"
    using d by (cases demo_market_result) (simp add: demo_market_result_def)
  from protected_buy_respects_limit [OF this metadata_ok_initial, of "Dec 33 (-2)"] d show ?thesis
    by (simp add: demo_market_def)
qed

section \<open>Prices from the book\<close>

text \<open>
  The levels up to and with a key first cover the target: those before it do not suffice.
\<close>

definition marginal ::
  "(order_book_level \<Rightarrow> rat) \<Rightarrow> (order_book_level \<Rightarrow> rat) \<Rightarrow> order_book_level list \<Rightarrow> rat \<Rightarrow> rat \<Rightarrow> bool" where
  "marginal key v ls target p \<longleftrightarrow>
     target \<le> (\<Sum>l\<leftarrow>filter (level_at_most key p) ls. v l) \<and> (\<Sum>l\<leftarrow>filter (level_below key p) ls. v l) < target"

lemma sum_list_filter_rev: "(\<Sum>l\<leftarrow>filter P (rev ls). (v l :: rat)) = (\<Sum>l\<leftarrow>filter P ls. v l)"
  by (simp add: rev_filter [symmetric] sum_list_rev rev_map [symmetric])

lemma sum_list_map_rev: "(\<Sum>l\<leftarrow>rev ls. (v l :: rat)) = (\<Sum>l\<leftarrow>ls. v l)"
  by (simp add: rev_map [symmetric] sum_list_rev)

lemma level_cost_nonneg: "book_level l \<Longrightarrow> 0 \<le> cost l"
  by (auto simp: cost_def book_level_def intro: mult_nonneg_nonneg plain_nonneg)

lemma level_size_nonneg: "book_level l \<Longrightarrow> 0 \<le> dval (level_size l)"
  by (auto simp: book_level_def intro: plain_nonneg)

text \<open>Both walks, from the best level at the end of the list.\<close>

lemma walk_marginal:
  assumes "sorted (map key (rev ls))" "\<forall>l\<in>set ls. 0 \<le> v l" "ls \<noteq> []" "0 < t"
  shows "case first_reaching v t (rev ls) of
      None \<Rightarrow> (\<Sum>l\<leftarrow>ls. v l) < t
    | Some l \<Rightarrow> l \<in> set ls \<and> \<not> (\<Sum>l\<leftarrow>ls. v l) < t \<and> marginal key v ls t (key l)"
proof (cases "first_reaching v t (rev ls)")
  case None
  then show ?thesis using first_reaching_None [of "rev ls" v t] assms(2,3) by (simp add: sum_list_map_rev)
next
  case (Some l)
  have "marginal key v ls t (key l)"
    using first_reaching_marginal [OF Some assms(1)] assms(2,4)
    by (simp add: marginal_def sum_list_filter_rev)
  moreover have "\<not> (\<Sum>l\<leftarrow>ls. v l) < t"
    using first_reaching_None [of "rev ls" v t] assms(2,3) Some by (simp add: sum_list_map_rev)
  ultimately show ?thesis using Some first_reaching_member [OF Some] by simp
qed

text \<open>C5: The price of a market BUY of a dollar amount on a book with its best ask last: without asks,
  or when a fill-or-kill order exceeds the book, there is not enough liquidity; a larger fill-and-kill
  order gets the worst ask; any other gets the marginal price, at which the cheaper asks alone do not
  suffice and those up to it do.\<close>

theorem market_buy_price_is_marginal:
  assumes "\<forall>l\<in>set asks. book_level l" "sorted (map ask_key (rev asks))"
    and "(\<Sum>l\<leftarrow>asks. cost l) < 10 ^ 18" "is_finite amount" "0 < dval amount"
  shows "case calculate_buy_market_price asks amount ot of
      Inl e \<Rightarrow> e = InsufficientLiquidityError
        \<and> (asks = [] \<or> ot = FOK \<and> (\<Sum>l\<leftarrow>asks. cost l) < dval amount)
    | Inr p \<Rightarrow> asks \<noteq> []
        \<and> (if (\<Sum>l\<leftarrow>asks. cost l) < dval amount then ot \<noteq> FOK \<and> p = level_price (hd asks)
           else marginal ask_key cost asks (dval amount) (dval p))"
proof (cases "asks = []")
  case False
  have walk: "walk_levels level_cost amount (dec_of_int 0) (rev asks)
      = Ok (map_option level_price (first_reaching cost (dval amount) (rev asks)))"
    using assms(1,3,4) by (intro buy_walk) (simp_all add: sum_list_map_rev)
  show ?thesis
    using walk_marginal [OF assms(2) _ False assms(5), of cost] assms(1) level_cost_nonneg False walk
    by (cases "first_reaching cost (dval amount) (rev asks)")
      (simp_all add: calculate_buy_market_price_def ask_key_def)
qed (simp add: calculate_buy_market_price_def)

definition demo_asks :: "order_book_level list" where
  "demo_asks = [\<lparr>level_price = Dec 60 (-2), level_size = Dec 100 0\<rparr>,
     \<lparr>level_price = Dec 55 (-2), level_size = Dec 20 0\<rparr>, \<lparr>level_price = Dec 50 (-2), level_size = Dec 10 0\<rparr>]"

lemma demo_asks_ok:
  "\<forall>l\<in>set demo_asks. book_level l" "sorted (map ask_key (rev demo_asks))" "(\<Sum>l\<leftarrow>demo_asks. cost l) = 76"
  by (simp_all add: demo_asks_def ask_key_def book_level_def cost_def power_int_minus p10_nat)

theorem market_buy_price_is_marginal_witness:
  "\<exists>p. calculate_buy_market_price demo_asks (Dec 10 0) FAK = Ok p \<and> marginal ask_key cost demo_asks 10 (dval p)"
proof -
  have "calculate_buy_market_price demo_asks (Dec 10 0) FAK = Ok (Dec 55 (-2))"
    unfolding demo_asks_def by code_simp
  then show ?thesis
    using market_buy_price_is_marginal [OF demo_asks_ok(1,2), of "Dec 10 0" FAK] demo_asks_ok(3) by simp
qed

text \<open>The price of a market SELL of a number of shares, on a book with its best bid last, is the
  marginal bid in the same sense: the higher bids alone do not take the shares, and those down to it
  do; a fill-and-kill order larger than the book gets the lowest bid.\<close>

theorem market_sell_price_is_marginal:
  assumes "\<forall>l\<in>set bids. book_level l" "sorted (map bid_key (rev bids))"
    and "(\<Sum>l\<leftarrow>bids. dval (level_size l)) < 10 ^ 18" "is_finite shares" "0 < dval shares"
  shows "case calculate_sell_market_price bids shares ot of
      Inl e \<Rightarrow> e = InsufficientLiquidityError
        \<and> (bids = [] \<or> ot = FOK \<and> (\<Sum>l\<leftarrow>bids. dval (level_size l)) < dval shares)
    | Inr p \<Rightarrow> bids \<noteq> []
        \<and> (if (\<Sum>l\<leftarrow>bids. dval (level_size l)) < dval shares then ot \<noteq> FOK \<and> p = level_price (hd bids)
           else marginal bid_key (\<lambda>l. dval (level_size l)) bids (dval shares) (- dval p))"
proof (cases "bids = []")
  case False
  let ?v = "\<lambda>l. dval (level_size l)"
  have walk: "walk_levels (\<lambda>l. Ok (level_size l)) shares (dec_of_int 0) (rev bids)
      = Ok (map_option level_price (first_reaching ?v (dval shares) (rev bids)))"
    using assms(1,3,4) by (intro sell_walk) (simp_all add: sum_list_map_rev)
  show ?thesis
    using walk_marginal [OF assms(2) _ False assms(5), of ?v] assms(1) level_size_nonneg False walk
    by (cases "first_reaching ?v (dval shares) (rev bids)")
      (simp_all add: calculate_sell_market_price_def bid_key_def)
qed (simp add: calculate_sell_market_price_def)

definition demo_bids :: "order_book_level list" where
  "demo_bids = [\<lparr>level_price = Dec 40 (-2), level_size = Dec 100 0\<rparr>,
     \<lparr>level_price = Dec 45 (-2), level_size = Dec 20 0\<rparr>, \<lparr>level_price = Dec 49 (-2), level_size = Dec 10 0\<rparr>]"

lemma demo_bids_ok:
  "\<forall>l\<in>set demo_bids. book_level l" "sorted (map bid_key (rev demo_bids))"
    "(\<Sum>l\<leftarrow>demo_bids. dval (level_size l)) = 130"
  by (simp_all add: demo_bids_def bid_key_def book_level_def power_int_minus p10_nat)

theorem market_sell_price_is_marginal_witness:
  "\<exists>p. calculate_sell_market_price demo_bids (Dec 25 0) FOK = Ok p
    \<and> marginal bid_key (\<lambda>l. dval (level_size l)) demo_bids 25 (- dval p)"
proof -
  have "calculate_sell_market_price demo_bids (Dec 25 0) FOK = Ok (Dec 45 (-2))"
    unfolding demo_bids_def by code_simp
  then show ?thesis
    using market_sell_price_is_marginal [OF demo_bids_ok(1,2), of "Dec 25 0" FOK] demo_bids_ok(3) by simp
qed

end
