(* ===== verification/Cache_Properties.thy ===== *)
theory Cache_Properties imports Metadata_Cache Order_Properties begin

text \<open>
  What the metadata cache promises: one load per key at a time, no lost waiter, bounded staleness,
  tasks that are never left behind, and answers that the next call repeats without the network.
\<close>

section \<open>Threads\<close>

lemma loading_registered:
  "flights_ok s \<Longrightarrow> fs_threads s i = Loading k f \<Longrightarrow> map_of (cache_inflight (fs_cache s)) k = Some f"
  by (auto simp: flights_ok_def flights_registered_def loading_def)

text \<open>C6: In every state that threads of one cache can reach, at most one of them runs the loader of a
  key.\<close>

theorem one_loader_per_key:
  assumes "reachable_flights ttl s" "fs_threads s i = Loading k f" "fs_threads s j = Loading k g"
  shows "i = j \<and> f = g"
proof -
  have ok: "flights_ok s" by (rule reachable_flights_ok [OF assms(1)])
  have "f = g" using loading_registered [OF ok assms(2)] loading_registered [OF ok assms(3)] by simp
  moreover have "owns (fs_threads s i) f" "owns (fs_threads s j) g" using assms(2,3) by auto
  ultimately show ?thesis using ok unfolding flights_ok_def owners_unique_def by blast
qed

definition demo_flight :: "(nat, nat) flight_state" where
  "demo_flight = thread_get 1 5 False (thread_get 0 5 False initial_flights)"

lemma demo_flight_reachable: "reachable_flights (Some 10) demo_flight"
  unfolding demo_flight_def
  by (rule reachable_flights.step [OF reachable_flights.step [OF reachable_flights.init flight_step.get] flight_step.get])
    (simp_all add: initial_flights_def thread_get_def begin_get_def empty_cache_def)

lemma demo_flight_threads: "fs_threads demo_flight 0 = Loading 5 0" "fs_threads demo_flight 1 = Waiting 0"
  by (simp_all add: demo_flight_def initial_flights_def thread_get_def begin_get_def empty_cache_def)

theorem one_loader_per_key_witness:
  "\<exists>i. fs_threads demo_flight i = Loading 5 0 \<and> (\<forall>j g. fs_threads demo_flight j = Loading 5 g \<longrightarrow> j = 0)"
  using one_loader_per_key [OF demo_flight_reachable demo_flight_threads(1)] demo_flight_threads(1) by blast

text \<open>Some steps of the threads.\<close>

inductive flight_steps :: "rat option \<Rightarrow> ('k, 'v) flight_state \<Rightarrow> ('k, 'v) flight_state \<Rightarrow> bool" for ttl where
  stay: "flight_steps ttl s s"
| more: "flight_step ttl s s' \<Longrightarrow> flight_steps ttl s' s'' \<Longrightarrow> flight_steps ttl s s''"

lemma waiter_of_completed:
  assumes "fs_threads s i = Waiting f" "fs_futures s f = Some r"
  shows "\<exists>s'. flight_steps ttl s s' \<and> fs_threads s' i = Returned r"
proof (intro exI conjI)
  show "flight_steps ttl s (thread_wake i r s)"
    by (rule flight_steps.more [OF flight_step.wake [OF assms] flight_steps.stay])
qed (simp add: thread_wake_def)

lemma waiter_of_publisher:
  assumes "fs_threads s i = Waiting f" "fs_threads s j = Publishing f r"
  shows "\<exists>s'. flight_steps ttl s s' \<and> fs_threads s' i = Returned r"
proof -
  let ?s = "thread_publish j f r s"
  have "i \<noteq> j" using assms by auto
  then have "fs_threads ?s i = Waiting f" "fs_futures ?s f = Some r"
    using assms by (simp_all add: thread_publish_def)
  then show ?thesis using waiter_of_completed flight_step.publish [OF assms(2)] flight_steps.more by blast
qed

lemma waiter_of_loader:
  assumes "fs_threads s i = Waiting f" "fs_threads s j = Loading k f"
  shows "\<exists>s'. flight_steps ttl s s' \<and> fs_threads s' i = Returned r"
proof -
  let ?s = "thread_loaded ttl j k f r s"
  have "i \<noteq> j" using assms by auto
  then have "fs_threads ?s i = Waiting f" "fs_threads ?s j = Publishing f r"
    using assms by (simp_all add: thread_loaded_def)
  then show ?thesis using waiter_of_publisher flight_step.loaded [OF assms(2)] flight_steps.more by blast
qed

text \<open>C7: No waiter is lost: whenever a thread waits for another's load, the steps left to the owner of
  that load and then its own wake-up return it, whatever the load gives.\<close>

theorem waiter_can_return:
  assumes "reachable_flights ttl s" "fs_threads s i = Waiting f"
  shows "\<exists>s' r. flight_steps ttl s s' \<and> fs_threads s' i = Returned r"
proof -
  have "fs_futures s f \<noteq> None \<or> owned (fs_threads s) f"
    using reachable_flights_ok [OF assms(1)] assms(2) unfolding flights_ok_def waiters_served_def by blast
  then consider r where "fs_futures s f = Some r" | j k where "fs_threads s j = Loading k f"
    | j r where "fs_threads s j = Publishing f r"
    by (auto simp: owned_def owns_def)
  then show ?thesis
    using waiter_of_completed [OF assms(2)] waiter_of_loader [OF assms(2)] waiter_of_publisher [OF assms(2)]
    by cases blast+
qed

theorem waiter_can_return_witness: "\<exists>s' r. flight_steps (Some 10) demo_flight s' \<and> fs_threads s' 1 = Returned r"
  by (rule waiter_can_return [OF demo_flight_reachable demo_flight_threads(2)])

section \<open>Staleness\<close>

text \<open>A cached answer is never older than the time to live: in every reachable state a hit is an entry
  that has not expired and that expires within one such period from now.\<close>

theorem hit_is_recent:
  assumes "reachable_flights (Some ttl) s" "begin_get (fs_now s) force k (fs_cache s) = (Hit v, c)"
  shows "\<not> force \<and> c = fs_cache s
    \<and> (\<exists>entry t. map_of (cache_values c) k = Some entry \<and> cv_value entry = v
        \<and> cv_expires_at entry = Some t \<and> fs_now s < t \<and> t \<le> fs_now s + ttl)"
proof (cases rule: begin_get_cases [of "fs_cache s" k force "fs_now s"])
  case (hit cached)
  moreover obtain t where "cv_expires_at cached = Some t" "t \<le> fs_now s + ttl"
    using reachable_expiry [OF assms(1)] hit(1) unfolding expiry_ok_def by fastforce
  ultimately show ?thesis using assms(2) by (auto simp: fresh_def)
qed (use assms(2) in auto)

definition demo_stored :: "(nat, nat) flight_state" where
  "demo_stored = (let s = initial_flights in s\<lparr>fs_cache := cache_set (Some 10) (fs_now s) 5 3 (fs_cache s)\<rparr>)"

theorem hit_is_recent_witness:
  "\<exists>entry. map_of (cache_values (fs_cache demo_stored)) 5 = Some entry \<and> cv_value entry = 3"
proof -
  have r: "reachable_flights (Some 10) demo_stored"
    unfolding demo_stored_def Let_def
    by (rule reachable_flights.step [OF reachable_flights.init flight_step.set_value])
  have h: "begin_get (fs_now demo_stored) False 5 (fs_cache demo_stored) = (Hit 3, fs_cache demo_stored)"
    by (simp add: demo_stored_def Let_def initial_flights_def empty_cache_def cache_set_def begin_get_def fresh_def)
  show ?thesis using hit_is_recent [OF r h] by blast
qed

section \<open>Tasks\<close>

text \<open>The asynchronous cache registers exactly its running loads: a registered task is a load of
  that key which has neither ended nor been cancelled, and every such load is registered, so that after
  \<open>close\<close> a new call starts a new task even while cancelled ones still unwind.\<close>

theorem registered_tasks_are_running:
  assumes "reachable_tasks ttl s"
  shows "map_of (cache_inflight (ts_cache s)) k = Some t \<longleftrightarrow> ts_tasks s t = Some (Running k)"
  using reachable_tasks_ok [OF assms] by (simp add: tasks_ok_def)

definition demo_tasks :: "(nat, nat) task_state" where
  "demo_tasks = task_get 5 False (task_close (task_get 5 False initial_tasks))"

theorem registered_tasks_are_running_witness:
  "ts_tasks demo_tasks 0 = Some (Cancelling 5) \<and> ts_tasks demo_tasks 1 = Some (Running 5)
    \<and> map_of (cache_inflight (ts_cache demo_tasks)) 5 = Some 1"
proof -
  have r: "reachable_tasks None demo_tasks"
    unfolding demo_tasks_def
    by (rule reachable_tasks.step [OF reachable_tasks.step [OF reachable_tasks.step
          [OF reachable_tasks.init task_step.get] task_step.close] task_step.get])
  have t: "ts_tasks demo_tasks 0 = Some (Cancelling 5)" "ts_tasks demo_tasks 1 = Some (Running 5)"
    by (simp_all add: demo_tasks_def initial_tasks_def task_get_def task_close_def cache_close_def
        begin_get_def empty_cache_def cancel_task_def)
  show ?thesis using registered_tasks_are_running [OF r, of 5 1] t by simp
qed

section \<open>Markets\<close>

text \<open>What a call of \<open>get\<close> leaves behind when it answers: an entry that the next call hits.\<close>

lemma sync_get_repeat:
  assumes "map_of (cache_values (sel s)) key = Some entry" "fresh (now s) entry"
  shows "sync_get sel upd ttl now join key load False s = (Ok (cv_value entry), s)"
  using assms by (simp add: sync_get_def begin_get_def)

lemma finish_get_value:
  "map_of (cache_values (finish_get ttl now key f (Ok v) c)) key
     = Some \<lparr>cv_value = v, cv_expires_at = map_option (\<lambda>t. now + t) ttl\<rparr>"
  by (simp add: finish_get_def end_flight_def cache_set_def map_of_dict_set)

lemma now_of_upd [simp]:
  "now_of P (set_conditions c s) = now_of P s" "now_of P (set_markets k s) = now_of P s"
  by (simp_all add: now_of_def set_conditions_def set_markets_def)

lemma ms_upd [simp]:
  "ms_conditions (set_conditions c s) = c" "ms_markets (set_conditions c s) = ms_markets s"
  "ms_conditions (set_markets k s) = ms_conditions s" "ms_markets (set_markets k s) = k"
  by (simp_all add: set_conditions_def set_markets_def)

text \<open>The conditions of tokens are kept without expiry.\<close>

definition lasting :: "('k, 'v) cache \<Rightarrow> bool" where
  "lasting c \<longleftrightarrow> (\<forall>k e. map_of (cache_values c) k = Some e \<longrightarrow> cv_expires_at e = None)"

definition holds :: "('k, 'v) cache \<Rightarrow> 'k \<Rightarrow> 'v \<Rightarrow> bool" where
  "holds c k v \<longleftrightarrow> lasting c \<and> (\<exists>e. map_of (cache_values c) k = Some e \<and> cv_value e = v)"

lemma lasting_set: "lasting c \<Longrightarrow> lasting (cache_set None now k v c)"
  by (auto simp: lasting_def cache_set_def)

lemma holds_set: "holds c k v \<Longrightarrow> holds (cache_set None now k' v c) k v"
  using lasting_set [of c now k' v] by (auto simp: holds_def cache_set_def)

lemma holds_fold_set: "holds c k v \<Longrightarrow> holds (fold (\<lambda>t. cache_set None now t v) ts c) k v"
  by (induction ts arbitrary: c) (simp_all add: holds_set)

lemma lasting_finish: "lasting c \<Longrightarrow> lasting (finish_get None now k f r c)"
  by (cases r) (auto simp: finish_get_def end_flight_def lasting_def cache_set_def)

lemma condition_get_holds:
  assumes "sync_get ms_conditions set_conditions None (now_of P) j token (on_net m) False s = (Ok cid, s')"
    and "cache_inflight (ms_conditions s) = []" "lasting (ms_conditions s)"
  shows "holds (ms_conditions s') token cid"
  using assms(1,2)
proof (cases rule: sync_get_cases)
  case (hit e)
  then show ?thesis using assms(3) by (auto simp: holds_def)
next
  case (load s1)
  have "ms_conditions s1 = (ms_conditions s)\<lparr>cache_inflight := [(token, cache_next (ms_conditions s))],
      cache_next := Suc (cache_next (ms_conditions s))\<rparr>"
    using on_net_Pair [OF load(1)] by (auto simp: set_conditions_def)
  then have "lasting (ms_conditions s1)" using assms(3) by (simp add: lasting_def)
  then show ?thesis using load(2) by (simp add: holds_def lasting_finish finish_get_value)
qed

lemma load_market_conditions:
  assumes "load_market P cid s = (Ok m, s')"
  shows "\<exists>now. ms_conditions s' = fold (\<lambda>t. cache_set None now t cid) (mkt_token_ids m) (ms_conditions s)"
  using assms
  by (auto simp: load_market_def bindS_app on_net_def set_conditions_def split: prod.splits sum.splits)

lemma market_get_holds:
  assumes "sync_get ms_markets set_markets (Some METADATA_TTL_S) (now_of P) j cid (load_market P cid) False s = (Ok m, s')"
    and "cache_inflight (ms_markets s) = []" "holds (ms_conditions s) token cid"
  shows "holds (ms_conditions s') token cid
    \<and> (\<exists>e. map_of (cache_values (ms_markets s')) cid = Some e \<and> cv_value e = m \<and> fresh (now_of P s') e)"
  using assms(1,2)
proof (cases rule: sync_get_cases)
  case (hit e)
  then show ?thesis using assms(3) by auto
next
  case (load s1)
  obtain now where "ms_conditions s1 = fold (\<lambda>t. cache_set None now t cid) (mkt_token_ids m) (ms_conditions s)"
    using load_market_conditions [OF load(1)] by auto
  then have "holds (ms_conditions s1) token cid" using assms(3) by (simp add: holds_fold_set)
  then show ?thesis using load(2) by (simp add: finish_get_value fresh_def METADATA_TTL_S_def)
qed

lemma resolve_market_steps:
  assumes "resolve_market P token s = (Ok m, s')"
  obtains cid s1 where
    "sync_get ms_conditions set_conditions None (now_of P) (join_condition P) token
       (on_net (resolve_condition_by_token (get_json_of P) (PStr token))) False s = (Ok cid, s1)"
    "sync_get ms_markets set_markets (Some METADATA_TTL_S) (now_of P) (join_market P) cid
       (load_market P cid) False s1 = (Ok m, s')"
    "token \<in> set (mkt_token_ids m)"
  using assms unfolding resolve_market_def resolve_market_with_def
  by (auto simp: bindS_eq_Ok split: if_splits)

text \<open>A market that was just resolved is resolved again from the cache: the same market, no request
  and no change of state, as long as the clock does not move.\<close>

theorem resolve_market_repeats:
  assumes "metadata_ok s" "lasting (ms_conditions s)" "resolve_market P token s = (Ok m, s')"
  shows "resolve_market P token s' = (Ok m, s') \<and> metadata_ok s' \<and> lasting (ms_conditions s')
    \<and> token \<in> set (mkt_token_ids m)"
proof -
  obtain cid s1 where steps:
    "sync_get ms_conditions set_conditions None (now_of P) (join_condition P) token
       (on_net (resolve_condition_by_token (get_json_of P) (PStr token))) False s = (Ok cid, s1)"
    "sync_get ms_markets set_markets (Some METADATA_TTL_S) (now_of P) (join_market P) cid
       (load_market P cid) False s1 = (Ok m, s')"
    "token \<in> set (mkt_token_ids m)"
    using resolve_market_steps [OF assms(3)] by blast
  have ok1: "metadata_ok s1" by (rule condition_get_ok [OF steps(1) assms(1)])
  have "cache_inflight (ms_conditions s) = []" using assms(1) by (simp add: metadata_ok_def quiet_def)
  from condition_get_holds [OF steps(1) this assms(2)] have 1: "holds (ms_conditions s1) token cid" .
  have "cache_inflight (ms_markets s1) = []" using ok1 by (simp add: metadata_ok_def quiet_def)
  from market_get_holds [OF steps(2) this 1] obtain e where 2: "holds (ms_conditions s') token cid"
    "map_of (cache_values (ms_markets s')) cid = Some e" "cv_value e = m" "fresh (now_of P s') e"
    by blast
  obtain c where c: "map_of (cache_values (ms_conditions s')) token = Some c" "cv_value c = cid" "fresh (now_of P s') c"
    using 2(1) by (auto simp: holds_def lasting_def fresh_def)
  have "resolve_market P token s' = (Ok m, s')"
    unfolding resolve_market_def resolve_market_with_def
    using sync_get_repeat [of ms_conditions s' token c "now_of P"] sync_get_repeat [of ms_markets s' cid e "now_of P"]
      c 2 steps(3) by (simp add: bindS_app)
  moreover have "metadata_ok s'" using resolve_market_with_ok [OF _ assms(1)] assms(3) unfolding resolve_market_def by blast
  ultimately show ?thesis using 2(1) steps(3) by (simp add: holds_def)
qed

lemma demo_resolves: "map_ok mkt_tick_size (fst (resolve_market demo_platform ''7'' (initial_metadata ()))) = Ok (Dec 1 (-2))"
  by code_simp

theorem resolve_market_repeats_witness:
  "\<exists>m s'. resolve_market demo_platform ''7'' (initial_metadata ()) = (Ok m, s')
    \<and> resolve_market demo_platform ''7'' s' = (Ok m, s') \<and> ''7'' \<in> set (mkt_token_ids m)"
proof -
  obtain m s' where r: "resolve_market demo_platform ''7'' (initial_metadata ()) = (Ok m, s')"
    using demo_resolves by (cases "resolve_market demo_platform ''7'' (initial_metadata ())")
      (auto simp: map_ok_def bindE_def split: sum.splits)
  have "lasting (ms_conditions (initial_metadata ()))" by (simp add: lasting_def initial_metadata_def empty_cache_def)
  from resolve_market_repeats [OF metadata_ok_initial this r] r show ?thesis by blast
qed

end
