(* ===== verification/Paging_Properties.thy ===== *)
theory Paging_Properties imports Dispatch begin

text \<open>
  What pagination promises: the shape and the end of a drain, cursors that are never requested twice,
  the round trip of the three kinds of cursors, and complete offset listings.
\<close>

section \<open>Draining\<close>

definition demo_fetch :: "(unit, nat) fetch" where
  "demo_fetch cursor w =
     (if cursor = None then
        (Ok \<lparr>page_items = [1, 2], has_more = True, next_cursor = Some ''a'', total_count = None, limit_reached = False\<rparr>, w)
      else
        (Ok \<lparr>page_items = [3], has_more = False, next_cursor = None, total_count = None, limit_reached = False\<rparr>, w))"

lemma demo_drain:
  "drain_paginator demo_fetch (Some 2) (Paginator None) () = Some (Ok ([1, 2], True, False), ())"
  "drain_paginator demo_fetch (Some 3) (Paginator None) () = Some (Ok ([1, 2, 3], False, False), ())"
  by (simp_all add: drain_paginator_def drain_pages.simps demo_fetch_def start_pages_def fetch_page_def
      take_next_cursor_def)

text \<open>C8: A drain returns the items of the pages it fetched, in order, cut at the limit. Without the
  truncation mark nothing was cut and the last page fetched was the last of the listing, even when the
  limit falls on the end of a page; with it, an item was left out or the server's depth limit was
  reached.\<close>

theorem drain_returns_the_pages:
  fixes fetch :: "('w, 'a) fetch"
  assumes "drain_paginator fetch bound (Paginator initial) w = Some (Ok (items, truncated, reached), w')"
    and "bound \<noteq> Some 0"
  shows "\<exists>cs ps g'. page_run fetch (start_pages initial) w cs ps g' w' \<and> ps \<noteq> []
    \<and> items = cut_to bound (all_items ps)
    \<and> (truncated \<longrightarrow> \<not> fits_bound bound (all_items ps) \<or> limit_reached (last ps))
    \<and> (\<not> truncated \<longrightarrow> items = all_items ps \<and> \<not> has_more (last ps))
    \<and> (reached \<longrightarrow> limit_reached (last ps))"
proof -
  have run: "drain_pages fetch bound [] (start_pages initial) w = Some (Ok (items, truncated, reached), w')"
    using assms by (cases bound) (simp_all add: drain_paginator_def split: if_splits)
  have bound: "fits_bound bound ([] :: 'a list)"
    using assms by (cases bound) (simp_all add: drain_paginator_def fits_bound_def split: if_splits)
  have go: "continuing (start_pages initial)" by (simp add: continuing_def start_pages_def)
  have "drained fetch bound [] (start_pages initial) w items truncated reached w'"
    using drain_pages_post [OF run, unfolded drain_post_def, rule_format, OF refl bound go] .
  then obtain cs ps g' where d: "page_run fetch (start_pages initial) w cs ps g' w'" "ps \<noteq> []"
      "items = cut_to bound (all_items ps)"
      "if truncated then \<not> fits_bound bound (all_items ps) \<or> reached
       else fits_bound bound (all_items ps) \<and> \<not> reached \<and> \<not> has_more (last ps)"
      "reached \<longrightarrow> limit_reached (last ps)"
    unfolding drained_def append_Nil by blast
  from d(4,5) have "truncated \<longrightarrow> \<not> fits_bound bound (all_items ps) \<or> limit_reached (last ps)"
      "\<not> truncated \<longrightarrow> fits_bound bound (all_items ps) \<and> \<not> has_more (last ps)"
    by (auto split: if_splits)
  with d(1-3,5) cut_to_fits [of bound "all_items ps"] show ?thesis by blast
qed

theorem drain_returns_the_pages_witness:
  "\<exists>cs ps g'. page_run demo_fetch (start_pages None) () cs ps g' () \<and> [1, 2] = cut_to (Some 2) (all_items ps)
    \<and> (\<not> fits_bound (Some 2) (all_items ps) \<or> limit_reached (last ps))"
proof -
  have "Some (2::int) \<noteq> Some 0" by simp
  from drain_returns_the_pages [OF demo_drain(1) this] show ?thesis by blast
qed

text \<open>C9: A drain ends, with a result or an error, whenever the server draws its cursors from a finite
  set, since every further request uses up a cursor that no earlier one had.\<close>

theorem drain_terminates:
  assumes "finite S" "cursors_from S fetch"
  shows "\<exists>r w'. drain_paginator fetch bound (Paginator initial) w = Some (r, w')"
proof -
  obtain y where y: "drain_pages fetch bound [] (start_pages initial) w = Some y"
    using drain_pages_terminates [OF assms] by blast
  then show ?thesis by (cases y) (auto simp: drain_paginator_def split: option.split)
qed

theorem drain_terminates_witness: "\<exists>r w'. drain_paginator demo_fetch None (Paginator None) () = Some (r, w')"
  by (rule drain_terminates [of "{''a''}"]) (auto simp: cursors_from_def demo_fetch_def split: if_splits)

text \<open>C10: A paginator never requests the same cursor twice: the requests of one run of the generator are
  the initial one followed by distinct new cursors.\<close>

theorem cursors_requested_once:
  assumes "page_run fetch (start_pages initial) w cs ps g' w'"
  shows "distinct cs"
proof (cases "cs = []")
  case False
  then obtain ds where "cs = initial # map Some ds" "distinct ds" "\<forall>c. initial = Some c \<longrightarrow> c \<notin> set ds"
    using page_run_start [OF assms] by blast
  then show ?thesis by (cases initial) (auto simp: distinct_map)
qed simp

theorem cursors_requested_once_witness:
  "\<exists>cs ps g'. page_run demo_fetch (start_pages None) () cs ps g' () \<and> distinct cs \<and> length cs = 2"
proof -
  have "\<exists>ps g'. page_run demo_fetch (start_pages None) () [None, Some ''a''] ps g' ()"
    using page_run.more [of demo_fetch "start_pages None" "()", OF _ page_run.more [OF _ page_run.stop]]
    by (fastforce simp: start_pages_def fetch_page_def demo_fetch_def take_next_cursor_def)
  then show ?thesis using cursors_requested_once by fastforce
qed

section \<open>Cursors\<close>

text \<open>The text a query stands for: its parameters as JSON. Queries are dicts of texts, integers, truth
  values and tuples of them; they are the same when they hold the same values under the same keys, in
  whatever order.\<close>

definition query_ok :: "base_params option \<Rightarrow> bool" where
  "query_ok q \<longleftrightarrow> (\<forall>p\<in>set (params_of q). flat (snd p)) \<and> distinct (map fst (params_of q))"

definition query_text :: "(pyval \<Rightarrow> string) \<Rightarrow> base_params option \<Rightarrow> string" where
  "query_text str_of q = json_dumps str_of (PDict (params_of q))"

definition same_query :: "base_params option \<Rightarrow> base_params option \<Rightarrow> bool" where
  "same_query q q' \<longleftrightarrow> map_of (params_of q) = map_of (params_of q')"

text \<open>Two different texts with the same first twelve digits of the digest.\<close>

definition digests_collide :: "(byte list \<Rightarrow> string) \<Rightarrow> string \<Rightarrow> string \<Rightarrow> bool" where
  "digests_collide sha256_hex t t' \<longleftrightarrow>
     t \<noteq> t' \<and> take 12 (sha256_hex (utf8_encode t)) = take 12 (sha256_hex (utf8_encode t'))"

lemma sort_keys_unique:
  fixes d d' :: "(string \<times> 'a) list"
  assumes "map_of d = map_of d'" "distinct (map fst d)" "distinct (map fst d')"
  shows "sort_key fst d = sort_key fst d'"
proof (rule map_sorted_distinct_set_unique)
  have e: "set d = set d'" using assms map_of_inject_set by blast
  then show "set (sort_key fst d) = set (sort_key fst d')" by simp
  show "inj_on fst (set (sort_key fst d) \<union> set (sort_key fst d'))"
    using assms(2) e by (simp add: distinct_map)
qed (use assms in \<open>simp_all add: distinct_map\<close>)

lemma query_text_eq:
  assumes "query_ok q" "query_ok q'"
  shows "query_text str_of q = query_text str_of q' \<longleftrightarrow> same_query q q'"
proof
  assume t: "query_text str_of q = query_text str_of q'"
  have read: "json_loads (query_text str_of r) = Some (PDict (sort_key fst (params_of r)))" if "query_ok r" for r
    using that json_round_trip unfolding query_ok_def query_text_def by blast
  have "sort_key fst (params_of q) = sort_key fst (params_of q')"
    using read [OF assms(1)] read [OF assms(2)] unfolding t by simp
  with assms show "same_query q q'" unfolding query_ok_def same_query_def by (metis map_of_sort_key)
next
  assume "same_query q q'"
  then have "sort_key fst (params_of q) = sort_key fst (params_of q')"
    using assms by (intro sort_keys_unique) (simp_all add: query_ok_def same_query_def)
  then show "query_text str_of q = query_text str_of q'"
    unfolding query_text_def json_dumps_object by (simp only:)
qed

lemma fingerprint_query_eq:
  assumes "query_ok q" "query_ok q'"
  shows "fingerprint_query sha256_hex str_of q' = fingerprint_query sha256_hex str_of q
    \<longleftrightarrow> same_query q q' \<or> digests_collide sha256_hex (query_text str_of q) (query_text str_of q')"
proof -
  have f: "fingerprint_query sha256_hex str_of r = take 12 (sha256_hex (utf8_encode (query_text str_of r)))" for r
    by (simp add: fingerprint_query_def FINGERPRINT_LEN_def query_text_def params_of_def split: option.splits)
  show ?thesis using query_text_eq [OF assms, of str_of] by (auto simp: f digests_collide_def)
qed

text \<open>C11: A cursor opens, with the service, the endpoint and the query that minted it, to exactly what was
  put into it, in whatever order the query's parameters are given. Another service, another endpoint or
  another query refuses it as the caller's error, unless the texts of the two queries have the same first
  twelve digits of their SHA-256 digests, which are all that a cursor keeps of its query. This holds of
  the three kinds of cursors.\<close>

theorem cursors_round_trip:
  assumes "encode_offset_cursor svc path (fingerprint_query sha256_hex str_of q) offset n = Ok c1"
    and "encode_page_cursor svc path (fingerprint_query sha256_hex str_of q) pg n = Ok c2"
    and "encode_keyset_cursor svc path (fingerprint_query sha256_hex str_of q) key = Ok c3"
    and "short_int offset" "short_int n" "short_int pg" "query_ok q" "query_ok q'"
  shows "decode_offset_cursor c1 svc' path' (fingerprint_query sha256_hex str_of q')
      = (if svc' = svc \<and> path' = path
            \<and> (same_query q q' \<or> digests_collide sha256_hex (query_text str_of q) (query_text str_of q'))
         then Ok (offset, n) else Raise UserInputError)
    \<and> decode_page_cursor c2 svc' path' (fingerprint_query sha256_hex str_of q')
      = (if svc' = svc \<and> path' = path
            \<and> (same_query q q' \<or> digests_collide sha256_hex (query_text str_of q) (query_text str_of q'))
         then Ok (pg, n) else Raise UserInputError)
    \<and> decode_keyset_cursor c3 svc' path' (fingerprint_query sha256_hex str_of q')
      = (if svc' = svc \<and> path' = path
            \<and> (same_query q q' \<or> digests_collide sha256_hex (query_text str_of q) (query_text str_of q'))
         then Ok key else Raise UserInputError)"
  unfolding fingerprint_query_eq [OF assms(7,8), symmetric]
  using decode_offset_encode [OF assms(1,4,5)] decode_page_encode [OF assms(2,6,5)]
    decode_keyset_encode [OF assms(3)] by blast

definition demo_query :: "string \<Rightarrow> base_params option" where
  "demo_query market = Some [(''market'', PStr market), (''ids'', PList [PInt 4, PInt 5]), (''live'', PBool True)]"

theorem cursors_round_trip_witness:
  "\<exists>c. encode_offset_cursor ''data'' ''/trades'' (fingerprint_query (\<lambda>bs. bytes_hex (rev bs)) (\<lambda>_. []) (demo_query ''0x1'')) 100 50 = Ok c
    \<and> decode_offset_cursor c ''data'' ''/trades''
        (fingerprint_query (\<lambda>bs. bytes_hex (rev bs)) (\<lambda>_. []) (map_option rev (demo_query ''0x1''))) = Ok (100, 50)
    \<and> decode_offset_cursor c ''data'' ''/trades''
        (fingerprint_query (\<lambda>bs. bytes_hex (rev bs)) (\<lambda>_. []) (demo_query ''0x2'')) = Raise UserInputError
    \<and> decode_offset_cursor c ''gamma'' ''/trades''
        (fingerprint_query (\<lambda>bs. bytes_hex (rev bs)) (\<lambda>_. []) (demo_query ''0x1'')) = Raise UserInputError"
proof -
  let ?sha = "\<lambda>bs. bytes_hex (rev bs)" and ?f = "fingerprint_query (\<lambda>bs. bytes_hex (rev bs)) (\<lambda>_. []) (demo_query ''0x1'')"
  obtain c1 c2 c3 where e: "encode_offset_cursor ''data'' ''/trades'' ?f 100 50 = Ok c1"
      "encode_page_cursor ''data'' ''/trades'' ?f 1 50 = Ok c2" "encode_keyset_cursor ''data'' ''/trades'' ?f ''k'' = Ok c3"
    by (simp add: encode_offset_cursor_def encode_page_cursor_def encode_keyset_cursor_def)
  have i: "short_int 100" "short_int 50" "short_int 1" "short_int 4" "short_int 5" by (rule short_intI; simp)+
  have ok: "query_ok (demo_query m)" "query_ok (map_option rev (demo_query m))" for m
    using i by (simp_all add: query_ok_def demo_query_def params_of_def)
  have same: "same_query (demo_query ''0x1'') (map_option rev (demo_query ''0x1''))"
    "\<not> same_query (demo_query ''0x1'') (demo_query ''0x2'')"
    by (auto simp: same_query_def demo_query_def params_of_def fun_eq_iff)
  have "digests_collide ?sha (query_text (\<lambda>_. []) (demo_query ''0x1'')) (query_text (\<lambda>_. []) (demo_query ''0x2'')) = False"
    by code_simp
  with cursors_round_trip [OF e i(1-3) ok(1,1)] cursors_round_trip [OF e i(1-3) ok(1,2)] same e(1)
  show ?thesis by simp
qed

section \<open>Offset listings\<close>

text \<open>Draining an offset listing of a server that serves slices of its rows yields all the rows, each
  once and in order, and claims no truncation.\<close>

theorem offset_listing_complete:
  assumes "serves_rows ctx spec rows" "plain_listing spec n rows"
    and "paginate_offset fp ctx spec n None = Ok (fetch, p)"
  shows "\<exists>w'. drain_paginator fetch None p w = Some (Ok (rows, False, False), w')"
proof -
  have f: "fetch = offset_fetch fp ctx spec n" "p = Paginator None"
    using assms(3) by (auto simp: paginate_offset_def split: if_splits)
  have "\<exists>w'. drain_pages (offset_fetch fp ctx spec n) None (take (nat 0) rows) (start_pages None) w
      = Some (Ok (rows, False, False), w')"
    by (rule drain_offset [OF assms(1,2), where cursor = None and requested = "[]"])
      (simp_all add: start_pages_def)
  then show ?thesis by (simp add: f drain_paginator_def)
qed

definition demo_rows :: "int list" where "demo_rows = [4, 5, 6]"

definition demo_listing :: "string \<Rightarrow> (string \<times> pyval) list \<Rightarrow> (unit, pyval) eff" where
  "demo_listing path params w =
     (case (dict_get ''limit'' params, dict_get ''offset'' params) of
        (PInt n, PInt k) \<Rightarrow> (Ok (PList (map PInt (take (nat n) (drop (nat k) demo_rows)))), w)
      | _ \<Rightarrow> (Raise UnexpectedResponseError, w))"

definition demo_transports :: "unit transports" where
  "demo_transports = \<lparr>gamma_transport = demo_listing, data_transport = demo_listing, rfq_transport = demo_listing\<rparr>"

definition demo_items :: "pyval \<Rightarrow> int list res" where
  "demo_items v = (case v of
     PList xs \<Rightarrow> traverseE (\<lambda>x. case x of PInt n \<Rightarrow> Ok n | _ \<Rightarrow> Raise UnexpectedResponseError) xs
   | _ \<Rightarrow> Raise UnexpectedResponseError)"

definition demo_spec :: "int offset_spec" where
  "demo_spec = \<lparr>os_service = Data, os_path = ''/trades'', os_parse_items = demo_items, os_base_params = None,
     os_max_page_size = Some 500, os_max_offset = None, os_page_fill = None\<rparr>"

lemma demo_listing_ok: "serves_rows demo_transports demo_spec demo_rows" "plain_listing demo_spec 2 demo_rows"
proof -
  have "demo_items (PList (map PInt xs)) = Ok xs" for xs
    by (induction xs) (simp_all add: demo_items_def)
  then show "serves_rows demo_transports demo_spec demo_rows"
    by (simp add: serves_rows_def demo_transports_def demo_spec_def transport_for_def demo_listing_def)
qed (simp add: plain_listing_def demo_spec_def demo_rows_def exceeds_def)

theorem offset_listing_complete_witness:
  "\<exists>fetch p w'. paginate_offset (\<lambda>_. ''f'') demo_transports demo_spec 2 None = Ok (fetch, p)
    \<and> drain_paginator fetch None p () = Some (Ok (demo_rows, False, False), w')"
proof -
  have p: "paginate_offset (\<lambda>_. ''f'') demo_transports demo_spec 2 None
      = Ok (offset_fetch (\<lambda>_. ''f'') demo_transports demo_spec 2, Paginator None)"
    by (simp add: paginate_offset_def demo_spec_def exceeds_def)
  show ?thesis using offset_listing_complete [OF demo_listing_ok p] p by blast
qed

section \<open>Retries\<close>

text \<open>\<open>attempt_at sleep call n w v\<close>: the loop from \<open>w\<close> makes its attempt number \<open>n\<close> in world \<open>v\<close>.\<close>

inductive attempt_at :: "(int \<Rightarrow> 'w \<Rightarrow> 'w) \<Rightarrow> ('w, 'a) eff \<Rightarrow> int \<Rightarrow> 'w \<Rightarrow> 'w \<Rightarrow> bool" for sleep call where
  first_try: "attempt_at sleep call 0 w w"
| next_try: "call w = (Raise (RateLimitError a), w1) \<Longrightarrow>
    attempt_at sleep call n (sleep (max 0 (retry_after a)) w1) v \<Longrightarrow> attempt_at sleep call (n + 1) w v"

definition retry_budget :: "rate_limit_retry option \<Rightarrow> int" where
  "retry_budget retry = (case retry of None \<Rightarrow> 0 | Some q \<Rightarrow> rl_retries q)"

lemma retry_attempts_outcome:
  assumes "retry_attempts sleep call retry attempt k w = (r, w')" "0 < k" "attempt + int k = retry_budget retry + 1"
  shows "\<exists>n v. attempt_at sleep call n w v \<and> call v = (r, w') \<and> 0 \<le> n \<and> n < int k
    \<and> (\<forall>a. r = Raise (RateLimitError a) \<longrightarrow> \<not> may_retry retry (attempt + n) (retry_after a))"
  using assms
proof (induction k arbitrary: attempt w)
  case (Suc k)
  obtain r1 w1 where c: "call w = (r1, w1)" by (cases "call w")
  show ?case
  proof (cases "\<exists>a. r1 = Raise (RateLimitError a) \<and> may_retry retry attempt (retry_after a)")
    case True
    then obtain a where a: "r1 = Raise (RateLimitError a)" "may_retry retry attempt (retry_after a)" by blast
    then have "attempt < retry_budget retry" by (auto simp: may_retry_def retry_budget_def split: option.splits)
    then have k: "0 < k" "attempt + 1 + int k = retry_budget retry + 1" using Suc.prems(3) by simp_all
    have "retry_attempts sleep call retry (attempt + 1) k (sleep (max 0 (retry_after a)) w1) = (r, w')"
      using Suc.prems(1) a c by simp
    from Suc.IH [OF this k] obtain n v where n: "attempt_at sleep call n (sleep (max 0 (retry_after a)) w1) v"
      "call v = (r, w')" "0 \<le> n" "n < int k"
      "\<forall>a. r = Raise (RateLimitError a) \<longrightarrow> \<not> may_retry retry (attempt + 1 + n) (retry_after a)" by blast
    have "attempt_at sleep call (n + 1) w v" using attempt_at.next_try c a(1) n(1) by metis
    with n show ?thesis by (intro exI [of _ "n + 1"] exI [of _ v]) (simp add: ac_simps)
  next
    case False
    then have "r = r1 \<and> w' = w1" using Suc.prems(1) c by (auto split: sum.splits py_error.splits if_splits)
    with False c show ?thesis
      by (intro exI [of _ 0] exI [of _ w]) (auto intro: attempt_at.first_try)
  qed
qed simp

text \<open>A call under the rate-limit policy makes at most the allowed retries after the first attempt
  and returns the outcome of its last attempt unchanged; a rate-limit error is returned only when the
  policy forbids another attempt. The loop never runs out of attempts.\<close>

theorem retry_returns_last_attempt:
  assumes "0 \<le> retry_budget retry" "run_with_rate_limit_retry sleep call retry w = (r, w')"
  shows "\<exists>n v. attempt_at sleep call n w v \<and> call v = (r, w') \<and> 0 \<le> n \<and> n \<le> retry_budget retry
    \<and> (\<forall>a. r = Raise (RateLimitError a) \<longrightarrow> \<not> may_retry retry n (retry_after a))"
proof -
  let ?k = "nat (retry_budget retry + 1)"
  have run: "retry_attempts sleep call retry 0 ?k w = (r, w')"
    using assms(2) by (simp add: run_with_rate_limit_retry_def retry_budget_def)
  have k: "0 < ?k" "0 + int ?k = retry_budget retry + 1" using assms(1) by simp_all
  obtain n v where "attempt_at sleep call n w v" "call v = (r, w')" "0 \<le> n" "n < int ?k"
      "\<forall>a. r = Raise (RateLimitError a) \<longrightarrow> \<not> may_retry retry (0 + n) (retry_after a)"
    using retry_attempts_outcome [OF run k] by blast
  then show ?thesis using assms(1) by (intro exI [of _ n] exI [of _ v]) auto
qed

definition demo_call :: "(nat, nat) eff" where
  "demo_call w = (if w = 0 then (Raise (RateLimitError (Some 1)), 1) else (Ok w, w))"

theorem retry_returns_last_attempt_witness:
  "\<exists>n v. attempt_at (\<lambda>_ w. w) demo_call n 0 v \<and> demo_call v = (Ok 1, 1) \<and> n \<le> 2"
proof -
  have "run_with_rate_limit_retry (\<lambda>_ w. w) demo_call (Some DATA_READ_RETRY) 0 = (Ok 1, 1)"
    by code_simp
  moreover have "retry_budget (Some DATA_READ_RETRY) = 2" by (simp add: retry_budget_def DATA_READ_RETRY_def)
  ultimately show ?thesis using retry_returns_last_attempt [of "Some DATA_READ_RETRY"] by fastforce
qed

end
