(* ===== verification/Input_Properties.thy ===== *)
theory Input_Properties imports Account_Api Market_Data Cache_Properties begin

text \<open>
  What the validators let through: identifiers of the second protocol version, condition ids, base-unit
  amounts, batches of cancellations, and the market records read from the server.
\<close>

section \<open>Identifiers\<close>

text \<open>A position id, given in decimal or hexadecimal, decodes exactly when its top byte is a
  supported module and its last byte an outcome; then the condition id is its first 31 bytes in
  hexadecimal, and it is itself a valid condition id.\<close>

theorem decode_position_id:
  assumes "parse_position_id s = Ok v"
  shows "decode_v2_outcome_position_id s =
     (if v div 2 ^ 248 \<in> {1, 2, 3} \<and> v mod 256 \<in> {0, 1}
      then Ok \<lparr>dec_condition_id = ''0x'' @ hex_fixed 62 (v div 256), dec_outcome_index = v mod 256\<rparr>
      else Raise UserInputError)
   \<and> to_condition_id (''0x'' @ hex_fixed 62 (v div 256)) = Ok (''0x'' @ hex_fixed 62 (v div 256))"
  using decode_v2_value [OF assms] condition_id_of_hex by blast

definition demo_position :: int where "demo_position = 2 ^ 249 + 5 * 256 + 1"

theorem decode_position_id_witness:
  "\<exists>d. decode_v2_outcome_position_id (''0x'' @ hex_fixed 64 demo_position) = Ok d
    \<and> dec_outcome_index d = 1 \<and> dec_condition_id d = ''0x'' @ hex_fixed 62 (2 ^ 241 + 5)"
proof -
  have r: "0 \<le> demo_position" "demo_position \<le> uint256_max" by (simp_all add: demo_position_def uint256_max_def)
  have "demo_position div 2 ^ 248 = 2" "demo_position mod 256 = 1" "demo_position div 256 = 2 ^ 241 + 5"
    by (simp_all add: demo_position_def)
  with decode_position_id [OF parse_position_id_hex [OF r]] show ?thesis by simp
qed

text \<open>The exchange contract of an order depends on the asset id as a number: the version 3 exchange
  when bits 40 to 103 of the id are zero, as in version 2 position ids, and otherwise the negative-risk
  or the standard exchange of the market.\<close>

theorem order_exchange_by_asset:
  assumes "parse_position_id asset = Ok v"
  shows "resolve_order_exchange_address cfg asset negative =
    Ok (if v div 2 ^ 40 mod 2 ^ 64 = 0 then exchange_v3 cfg
        else if negative then neg_risk_exchange cfg else standard_exchange cfg)"
  using assms
  by (simp add: resolve_order_exchange_address_def is_v2_position_id_def v2_mask_zero_iff resolve_exchange_address_def)

theorem order_exchange_by_asset_witness:
  "resolve_order_exchange_address PRODUCTION (''0x'' @ hex_fixed 64 (2 ^ 50)) True = Ok (neg_risk_exchange PRODUCTION)"
proof -
  have r: "0 \<le> (2 ^ 50 :: int)" "2 ^ 50 \<le> uint256_max" by (simp_all add: uint256_max_def)
  show ?thesis using order_exchange_by_asset [OF parse_position_id_hex [OF r]] by simp
qed

text \<open>Every 32-byte hexadecimal string is accepted as a builder code, unchanged. The converse
  fails: the digits are read with \<open>int(value[2:], 16)\<close>, which also accepts a second prefix and
  underscores, so a text that is no hexadecimal string passes.\<close>

theorem builder_code_check:
  "(\<forall>s. length s = 64 \<and> list_all is_hex_digit s \<longrightarrow> validate_builder_code (PStr (''0x'' @ s)) = Ok (''0x'' @ s))
    \<and> (\<exists>s. \<not> hex_pattern s \<and> validate_builder_code (PStr s) = Ok s)"
proof (intro conjI allI impI)
  fix s :: string
  assume "length s = 64 \<and> list_all is_hex_digit s"
  then show "validate_builder_code (PStr (''0x'' @ s)) = Ok (''0x'' @ s)" by (intro builder_code_ok) simp_all
next
  let ?s = "''0x0x_'' @ concat (replicate 30 ''1_'') @ ''1''"
  have "\<not> hex_pattern ?s" "validate_builder_code (PStr ?s) = Ok ?s" by code_simp+
  then show "\<exists>s. \<not> hex_pattern s \<and> validate_builder_code (PStr s) = Ok s" by blast
qed

theorem builder_code_check_witness:
  "validate_builder_code (PStr (''0x'' @ replicate 64 CHR ''a'')) = Ok (''0x'' @ replicate 64 CHR ''a'')"
  by (rule mp [OF spec [OF conjunct1 [OF builder_code_check]]])
    (simp add: list_all_iff is_hex_digit_def digit_value_def)

section \<open>Amounts\<close>

text \<open>An amount of at most six decimals, below ten sextillion units, converts to base units exactly;
  no float or rounding step changes it.\<close>

theorem base_units_exact:
  assumes "wide x" "on_grid 6 (dval x)" "\<bar>dval x\<bar> < 10 ^ 22"
  shows "\<exists>n. parse_amount x = Ok n \<and> of_int n = dval x * 10 ^ 6"
  by (rule parse_amount_on_grid [OF assms])

theorem base_units_exact_witness: "\<exists>n. parse_amount (Dec 1234567 (-6)) = Ok n \<and> of_int n = (1234567 :: rat)"
proof -
  have "on_grid 6 (dval (Dec 1234567 (-6)))" by (rule on_gridI [of _ 1234567]) simp
  with base_units_exact [of "Dec 1234567 (-6)"] show ?thesis by (simp add: power_int_minus p10_nat)
qed

section \<open>Requests and responses\<close>

text \<open>A batch of cancellations that is accepted is never a text, is not empty, has at most 3000
  entries, and its ids are the caller's strings in order, none of them empty.\<close>

theorem cancel_batch_valid:
  assumes "build_cancel_orders_request v = Ok (path, ids)"
  shows "path = ''/orders'' \<and> ids \<noteq> [] \<and> length ids \<le> 3000 \<and> [] \<notin> set ids
    \<and> py_iter v = Ok (map PStr ids) \<and> (\<forall>s. v \<noteq> PStr s)"
  using build_cancel_orders_ok [OF assms] by blast

theorem cancel_batch_valid_witness:
  "\<exists>ids. build_cancel_orders_request (PList [PStr ''a'', PStr ''b'']) = Ok (''/orders'', ids) \<and> length ids \<le> 3000"
proof -
  have "build_cancel_orders_request (PList [PStr ''a'', PStr ''b'']) = Ok (''/orders'', [''a'', ''b''])"
    by code_simp
  with cancel_batch_valid [OF this] show ?thesis by blast
qed

text \<open>C12: A market read from the server has one of the six supported tick sizes, whatever its spelling,
  and distinct token ids that are not empty.\<close>

theorem parsed_market_supported:
  assumes "parse_market_info data = Ok m"
  shows "is_finite (mkt_tick_size m) \<and> dval (mkt_tick_size m) \<in> {1/10, 1/100, 1/200, 1/400, 1/1000, 1/10000}
    \<and> is_ok (resolve_rounding_config (mkt_tick_size m))
    \<and> distinct (mkt_token_ids m) \<and> [] \<notin> set (mkt_token_ids m)"
proof -
  have m: "market_ok m" by (rule parse_market_info_ok [OF assms])
  let ?t = "mkt_tick_size m"
  have fin: "is_finite ?t" "?t \<noteq> DNaN True" using m by (auto simp: market_ok_def)
  have "\<exists>p\<in>set rounding_by_tick. deq (fst p) ?t"
    using m fin(1) by (auto simp: market_ok_def rounding_by_tick_def power_int_minus p10_nat)
  then have "find (\<lambda>p. deq (fst p) ?t) rounding_by_tick \<noteq> None" by (auto simp: find_None_iff)
  then have "is_ok (resolve_rounding_config ?t)"
    using fin(2) by (auto simp: resolve_rounding_config_def)
  with m show ?thesis by (simp add: market_ok_def)
qed

theorem parsed_market_supported_witness:
  "\<exists>m. parse_market_info demo_market_json = Ok m \<and> is_ok (resolve_rounding_config (mkt_tick_size m))"
proof -
  have "is_ok (parse_market_info demo_market_json)" by code_simp
  then obtain m where m: "parse_market_info demo_market_json = Ok m" by (auto simp: is_ok_iff)
  from parsed_market_supported [OF m] m show ?thesis by blast
qed

end
