(* ===== verification/Order_Signing.thy ===== *)
theory Order_Signing imports Orders Py_Bytes begin

text \<open>
  From a draft to a signed order: \<open>actions/orders/orders.py\<close> and \<open>typed_data.py\<close>. The hash and the
  ABI encoder come from the packages \<open>eth_utils\<close> and \<open>eth_abi\<close> and are parameters, as are the random
  salt and the clock. The last section shows that a wrapped signature can be taken apart again.
\<close>

section \<open>Orders\<close>

definition POLY_1271_SIGNATURE_TYPE :: int where "POLY_1271_SIGNATURE_TYPE = 3"

definition SALT_BITS :: nat where "SALT_BITS = 53"

text \<open>\<open>secrets.randbits(53)\<close> on a source of random numbers.\<close>

definition generate_salt :: "int \<Rightarrow> int" where
  "generate_salt r = r mod 2 ^ SALT_BITS"

definition create_unsigned_order ::
  "order_draft \<Rightarrow> string \<Rightarrow> wallet_type \<Rightarrow> int \<Rightarrow> int \<Rightarrow> unsigned_order res" where
  "create_unsigned_order draft wallet wt random now_ms =
     (let signature_type = signature_type_for wt;
          signer = (if signature_type = POLY_1271_SIGNATURE_TYPE then wallet else draft_signer draft)
      in bindE (is_v2_position_id (draft_asset_id draft)) (\<lambda>v2.
         Ok \<lparr>uo_chain_id = draft_chain_id draft,
             uo_builder = (case draft_builder_code draft of
                 None \<Rightarrow> BYTES32_ZERO | Some b \<Rightarrow> if b = [] then BYTES32_ZERO else b),
             uo_exchange_address = draft_exchange_address draft,
             uo_expiration = draft_expiration draft,
             uo_maker = draft_funder_address draft,
             uo_maker_amount = offered_amount draft,
             uo_metadata = BYTES32_ZERO,
             uo_order_type = draft_order_type draft,
             uo_salt = generate_salt random,
             uo_side = draft_side draft,
             uo_signature_type = signature_type,
             uo_signer = signer,
             uo_taker_amount = requested_amount draft,
             uo_timestamp = now_ms,
             uo_token_id = draft_asset_id draft,
             uo_protocol_version = (if v2 then V3 else V2)\<rparr>))"

definition create_signed_order :: "unsigned_order \<Rightarrow> string \<Rightarrow> bool \<Rightarrow> signed_order" where
  "create_signed_order order signature post_only =
     \<lparr>so_builder = uo_builder order, so_expiration = uo_expiration order, so_maker = uo_maker order,
      so_maker_amount = uo_maker_amount order, so_metadata = uo_metadata order,
      so_order_type = uo_order_type order, so_salt = uo_salt order, so_side = uo_side order,
      so_signature = signature, so_signature_type = uo_signature_type order, so_signer = uo_signer order,
      so_taker_amount = uo_taker_amount order, so_timestamp = uo_timestamp order,
      so_token_id = uo_token_id order, so_post_only = post_only\<rparr>"

section \<open>Typed data\<close>

record typed_field =
  tf_name :: string
  tf_type :: string

record typed_domain =
  td_name :: string
  td_version :: string
  td_chain_id :: int
  td_verifying_contract :: string

record order_message =
  om_salt :: int
  om_maker :: string
  om_signer :: string
  om_token_id :: int
  om_maker_amount :: int
  om_taker_amount :: int
  om_side :: int
  om_signature_type :: int
  om_timestamp :: int
  om_metadata :: string
  om_builder :: string

text \<open>The message: an order, or an order wrapped for a deposit wallet with the domain of the wallet.\<close>

datatype typed_message =
    OrderMessage order_message
  | TypedDataSign order_message typed_domain string

record typed_data =
  types_of :: "(string \<times> typed_field list) list"
  primary_type :: string
  domain_of :: typed_domain
  message_of :: typed_message

definition PROTOCOL_NAME :: string where "PROTOCOL_NAME = ''Polymarket CTF Exchange''"

definition DEPOSIT_WALLET_DOMAIN_NAME :: string where "DEPOSIT_WALLET_DOMAIN_NAME = ''DepositWallet''"

definition DEPOSIT_WALLET_DOMAIN_VERSION :: string where "DEPOSIT_WALLET_DOMAIN_VERSION = ''1''"

definition ORDER_TYPE_STRING :: string where
  "ORDER_TYPE_STRING =
     ''Order(uint256 salt,address maker,address signer,uint256 tokenId,uint256 makerAmount,'' @
     ''uint256 takerAmount,uint8 side,uint8 signatureType,uint256 timestamp,bytes32 metadata,bytes32 builder)''"

definition DOMAIN_TYPE_STRING :: string where
  "DOMAIN_TYPE_STRING = ''EIP712Domain(string name,string version,uint256 chainId,address verifyingContract)''"

definition fields :: "(string \<times> string) list \<Rightarrow> typed_field list" where
  "fields ps = map (\<lambda>p. \<lparr>tf_name = fst p, tf_type = snd p\<rparr>) ps"

definition EIP712_DOMAIN_FIELDS :: "typed_field list" where
  "EIP712_DOMAIN_FIELDS = fields
     [(''name'', ''string''), (''version'', ''string''), (''chainId'', ''uint256''),
      (''verifyingContract'', ''address'')]"

definition ORDER_FIELDS :: "typed_field list" where
  "ORDER_FIELDS = fields
     [(''salt'', ''uint256''), (''maker'', ''address''), (''signer'', ''address''), (''tokenId'', ''uint256''),
      (''makerAmount'', ''uint256''), (''takerAmount'', ''uint256''), (''side'', ''uint8''),
      (''signatureType'', ''uint8''), (''timestamp'', ''uint256''), (''metadata'', ''bytes32''),
      (''builder'', ''bytes32'')]"

definition TYPED_DATA_SIGN_FIELDS :: "typed_field list" where
  "TYPED_DATA_SIGN_FIELDS = fields
     [(''contents'', ''Order''), (''name'', ''string''), (''version'', ''string''), (''chainId'', ''uint256''),
      (''verifyingContract'', ''address''), (''salt'', ''bytes32'')]"

fun version_text :: "protocol_version \<Rightarrow> string" where
  "version_text V2 = ''2''"
| "version_text V3 = ''3''"

text \<open>\<open>protocol_version or order.protocol_version\<close>\<close>

definition effective_version :: "unsigned_order \<Rightarrow> string option \<Rightarrow> string" where
  "effective_version order version =
     (case version of
        None \<Rightarrow> version_text (uo_protocol_version order)
      | Some v \<Rightarrow> if v = [] then version_text (uo_protocol_version order) else v)"

definition encode_side :: "order_side \<Rightarrow> int" where
  "encode_side side = (if side = BUY then 0 else 1)"

definition int_of_token :: "string \<Rightarrow> int res" where
  "int_of_token token = (case py_int token 10 of None \<Rightarrow> Raise ValueError | Some n \<Rightarrow> Ok n)"

definition order_message_of :: "unsigned_order \<Rightarrow> order_message res" where
  "order_message_of order =
     bindE (int_of_token (uo_token_id order)) (\<lambda>token.
     Ok \<lparr>om_salt = uo_salt order, om_maker = uo_maker order, om_signer = uo_signer order,
         om_token_id = token, om_maker_amount = uo_maker_amount order,
         om_taker_amount = uo_taker_amount order, om_side = encode_side (uo_side order),
         om_signature_type = uo_signature_type order, om_timestamp = uo_timestamp order,
         om_metadata = uo_metadata order, om_builder = uo_builder order\<rparr>)"

definition exchange_domain :: "unsigned_order \<Rightarrow> string \<Rightarrow> typed_domain" where
  "exchange_domain order version =
     \<lparr>td_name = PROTOCOL_NAME, td_version = version, td_chain_id = uo_chain_id order,
      td_verifying_contract = uo_exchange_address order\<rparr>"

definition build_standard_typed_data :: "unsigned_order \<Rightarrow> string \<Rightarrow> typed_data res" where
  "build_standard_typed_data order version =
     bindE (order_message_of order) (\<lambda>message.
     Ok \<lparr>types_of = [(''EIP712Domain'', EIP712_DOMAIN_FIELDS), (''Order'', ORDER_FIELDS)],
         primary_type = ''Order'', domain_of = exchange_domain order version,
         message_of = OrderMessage message\<rparr>)"

definition build_order_typed_data :: "unsigned_order \<Rightarrow> string option \<Rightarrow> typed_data res" where
  "build_order_typed_data order protocol_version =
     (let version = effective_version order protocol_version in
      bindE (build_standard_typed_data order version) (\<lambda>standard.
      if uo_signature_type order \<noteq> POLY_1271_SIGNATURE_TYPE then Ok standard
      else
        bindE (order_message_of order) (\<lambda>contents.
        Ok \<lparr>types_of = [(''EIP712Domain'', EIP712_DOMAIN_FIELDS), (''Order'', ORDER_FIELDS),
                         (''TypedDataSign'', TYPED_DATA_SIGN_FIELDS)],
            primary_type = ''TypedDataSign'', domain_of = exchange_domain order version,
            message_of = TypedDataSign contents
              \<lparr>td_name = DEPOSIT_WALLET_DOMAIN_NAME, td_version = DEPOSIT_WALLET_DOMAIN_VERSION,
               td_chain_id = uo_chain_id order, td_verifying_contract = uo_signer order\<rparr>
              BYTES32_ZERO\<rparr>)))"

section \<open>Signatures of deposit wallets\<close>

text \<open>
  The values \<open>eth_abi\<close> encodes; \<open>AbiList\<close> holds the elements of an array, \<open>AbiTuple\<close> those of a tuple.
\<close>

datatype abi_value =
    AbiUint int
  | AbiAddress string
  | AbiBytes "byte list"
  | AbiBool bool
  | AbiString string
  | AbiList "abi_value list"
  | AbiTuple "abi_value list"

type_synonym abi_encoder = "string list \<Rightarrow> abi_value list \<Rightarrow> byte list res"
type_synonym hash_function = "byte list \<Rightarrow> byte list"

definition strip_0x :: "string \<Rightarrow> string" where
  "strip_0x value = (if starts_with ''0x'' value \<or> starts_with ''0X'' value then drop 2 value else value)"

definition hex_bytes :: "string \<Rightarrow> byte list res" where
  "hex_bytes value = (case bytes_fromhex (strip_0x value) of None \<Rightarrow> Raise ValueError | Some bs \<Rightarrow> Ok bs)"

definition app_domain_separator ::
  "hash_function \<Rightarrow> abi_encoder \<Rightarrow> unsigned_order \<Rightarrow> string \<Rightarrow> string res" where
  "app_domain_separator keccak abi_encode order version =
     bindE (abi_encode [''bytes32'', ''bytes32'', ''bytes32'', ''uint256'', ''address'']
       [AbiBytes (keccak (utf8_encode DOMAIN_TYPE_STRING)), AbiBytes (keccak (utf8_encode PROTOCOL_NAME)),
        AbiBytes (keccak (utf8_encode version)), AbiUint (uo_chain_id order),
        AbiAddress (uo_exchange_address order)]) (\<lambda>encoded.
     Ok (''0x'' @ bytes_hex (keccak encoded)))"

definition order_contents_hash :: "hash_function \<Rightarrow> abi_encoder \<Rightarrow> unsigned_order \<Rightarrow> byte list res" where
  "order_contents_hash keccak abi_encode order =
     bindE (int_of_token (uo_token_id order)) (\<lambda>token.
     bindE (hex_bytes (uo_metadata order)) (\<lambda>metadata.
     bindE (hex_bytes (uo_builder order)) (\<lambda>builder.
     map_ok keccak (abi_encode
       [''bytes32'', ''uint256'', ''address'', ''address'', ''uint256'', ''uint256'', ''uint256'',
        ''uint8'', ''uint8'', ''uint256'', ''bytes32'', ''bytes32'']
       [AbiBytes (keccak (utf8_encode ORDER_TYPE_STRING)), AbiUint (uo_salt order), AbiAddress (uo_maker order),
        AbiAddress (uo_signer order), AbiUint token, AbiUint (uo_maker_amount order),
        AbiUint (uo_taker_amount order), AbiUint (encode_side (uo_side order)),
        AbiUint (uo_signature_type order), AbiUint (uo_timestamp order), AbiBytes metadata, AbiBytes builder]))))"

definition signature_trailer :: "string \<Rightarrow> byte list \<Rightarrow> string" where
  "signature_trailer separator contents_hash =
     strip_0x separator @ bytes_hex contents_hash @ bytes_hex (utf8_encode ORDER_TYPE_STRING)
       @ hex_fixed 4 (int (length ORDER_TYPE_STRING))"

definition build_order_signature ::
  "hash_function \<Rightarrow> abi_encoder \<Rightarrow> unsigned_order \<Rightarrow> string \<Rightarrow> string option \<Rightarrow> string res" where
  "build_order_signature keccak abi_encode order signature protocol_version =
     (if uo_signature_type order = POLY_1271_SIGNATURE_TYPE then
        bindE (app_domain_separator keccak abi_encode order (effective_version order protocol_version)) (\<lambda>separator.
        bindE (order_contents_hash keccak abi_encode order) (\<lambda>contents_hash.
        Ok (signature @ signature_trailer separator contents_hash)))
      else Ok signature)"

section \<open>Taking a wrapped signature apart\<close>

text \<open>
  What a verifier of wrapped signatures does: the last four hexadecimal digits are the length of the
  type text in bytes; before it stand the text, the hash of the contents and the domain separator.
\<close>

definition last_part :: "nat \<Rightarrow> string \<Rightarrow> string \<times> string" where
  "last_part n s = (take (length s - n) s, drop (length s - n) s)"

definition unwrap_signature :: "string \<Rightarrow> (string \<times> string \<times> string \<times> string) option" where
  "unwrap_signature s =
     (case last_part 4 s of
        (s1, digits) \<Rightarrow>
          (case py_int digits 16 of
             None \<Rightarrow> None
           | Some n \<Rightarrow>
               (case last_part (2 * nat n) s1 of
                  (s2, type_hex) \<Rightarrow>
                    (case last_part 64 s2 of
                       (s3, contents_hash) \<Rightarrow>
                         (case last_part 64 s3 of
                            (signature, separator) \<Rightarrow>
                              (case bytes_fromhex type_hex of
                                 None \<Rightarrow> None
                               | Some bs \<Rightarrow>
                                   map_option (\<lambda>t. (signature, separator, contents_hash, t)) (utf8_decode bs)))))))"

lemma last_part_append: "length b = n \<Longrightarrow> last_part n (a @ b) = (a, b)"
  by (simp add: last_part_def)

lemma order_type_length: "length (utf8_encode ORDER_TYPE_STRING) = length ORDER_TYPE_STRING"
  "py_int (hex_fixed 4 (int (length ORDER_TYPE_STRING))) 16 = Some (int (length ORDER_TYPE_STRING))"
  by code_simp+

lemma unwrap_trailer:
  assumes "length contents_hash = 32" "length separator = 64"
  shows "unwrap_signature (signature @ signature_trailer (''0x'' @ separator) contents_hash)
    = Some (signature, separator, bytes_hex contents_hash, ORDER_TYPE_STRING)"
proof -
  let ?digits = "hex_fixed 4 (int (length ORDER_TYPE_STRING))" and ?type = "bytes_hex (utf8_encode ORDER_TYPE_STRING)"
  have whole: "signature @ signature_trailer (''0x'' @ separator) contents_hash
      = (((signature @ separator) @ bytes_hex contents_hash) @ ?type) @ ?digits"
    by (simp add: signature_trailer_def strip_0x_def)
  have "last_part 4 ((((signature @ separator) @ bytes_hex contents_hash) @ ?type) @ ?digits)
      = (((signature @ separator) @ bytes_hex contents_hash) @ ?type, ?digits)"
    by (rule last_part_append) simp
  moreover have "last_part (2 * nat (int (length ORDER_TYPE_STRING))) (((signature @ separator) @ bytes_hex contents_hash) @ ?type)
      = ((signature @ separator) @ bytes_hex contents_hash, ?type)"
    by (rule last_part_append) (simp add: order_type_length)
  moreover have "last_part 64 ((signature @ separator) @ bytes_hex contents_hash)
      = (signature @ separator, bytes_hex contents_hash)"
    by (rule last_part_append) (simp add: assms(1))
  moreover have "last_part 64 (signature @ separator) = (signature, separator)"
    by (rule last_part_append) (rule assms(2))
  ultimately show ?thesis
    unfolding whole unwrap_signature_def
    by (simp only: prod.case order_type_length option.case bytes_fromhex_hex utf8_round_trip option.map)
qed

text \<open>What a signature of each kind of wallet is.\<close>

lemma build_order_signature_wrapped:
  assumes "build_order_signature keccak abi order signature v = Ok s" "uo_signature_type order = POLY_1271_SIGNATURE_TYPE"
    and "\<And>x. length (keccak x) = 32"
  shows "\<exists>sep h. app_domain_separator keccak abi order (effective_version order v) = Ok (''0x'' @ sep)
    \<and> order_contents_hash keccak abi order = Ok h
    \<and> unwrap_signature s = Some (signature, sep, bytes_hex h, ORDER_TYPE_STRING)"
proof -
  obtain sep h where parts: "app_domain_separator keccak abi order (effective_version order v) = Ok sep"
      "order_contents_hash keccak abi order = Ok h" "s = signature @ signature_trailer sep h"
    using assms(1,2) by (auto simp: build_order_signature_def)
  obtain e where e: "sep = ''0x'' @ bytes_hex (keccak e)"
    using parts(1) by (auto simp: app_domain_separator_def)
  have "length h = 32" using parts(2) assms(3) by (auto simp: order_contents_hash_def map_ok_def)
  then have "unwrap_signature s = Some (signature, bytes_hex (keccak e), bytes_hex h, ORDER_TYPE_STRING)"
    unfolding parts(3) e by (rule unwrap_trailer) (simp add: assms(3))
  then show ?thesis using parts(1,2) e by blast
qed

end
