(* ===== verification/Call_Logs.thy ===== *)
theory Call_Logs imports Prelude begin

text \<open>
  Reasoning about the requests that an effectful routine makes: a part of its state is a log, and
  \<open>logs log_of Q m\<close> says that \<open>m\<close> appends calls to it that stand in the relation \<open>Q\<close> to its result.
\<close>

definition logs :: "('s \<Rightarrow> 'c list) \<Rightarrow> ('c list \<Rightarrow> 'a res \<Rightarrow> bool) \<Rightarrow> ('s, 'a) eff \<Rightarrow> bool" where
  "logs log_of Q m \<longleftrightarrow> (\<forall>s r s'. m s = (r, s') \<longrightarrow> (\<exists>calls. log_of s' = log_of s @ calls \<and> Q calls r))"

named_theorems logs_intros \<open>rules that describe the calls of a routine by those of its parts\<close>

lemma logsD: "logs log_of Q m \<Longrightarrow> m s = (r, s') \<Longrightarrow> \<exists>calls. log_of s' = log_of s @ calls \<and> Q calls r"
  by (simp add: logs_def)

lemma logs_mono: "logs log_of Q m \<Longrightarrow> (\<And>calls r. Q calls r \<Longrightarrow> R calls r) \<Longrightarrow> logs log_of R m"
  unfolding logs_def by blast

lemma logs_lift [logs_intros]: "logs log_of (\<lambda>calls r'. calls = [] \<and> r' = r) (liftS r)"
  by (auto simp: logs_def)

lemma logs_pure [logs_intros]: "logs log_of (\<lambda>calls r'. calls = [] \<and> r' = Ok x) (pureS x)"
  by (auto simp: logs_def)

lemma logs_if: "(b \<Longrightarrow> logs log_of Q m) \<Longrightarrow> (\<not> b \<Longrightarrow> logs log_of Q m') \<Longrightarrow> logs log_of Q (if b then m else m')"
  by simp

text \<open>The calls of a sequence: those of the first part, and those of the second when it runs.\<close>

lemma logs_bind [logs_intros]:
  assumes "logs log_of Q m" "\<And>x. logs log_of (R x) (f x)"
  shows "logs log_of (\<lambda>calls r. (\<exists>e. Q calls (Raise e) \<and> r = Raise e)
      \<or> (\<exists>x cs1 cs2. Q cs1 (Ok x) \<and> R x cs2 r \<and> calls = cs1 @ cs2)) (bindS m f)"
  unfolding logs_def
proof (intro allI impI)
  fix s r s'
  assume run: "bindS m f s = (r, s')"
  obtain r1 s1 where 1: "m s = (r1, s1)" by (cases "m s")
  then obtain cs1 where cs1: "log_of s1 = log_of s @ cs1" "Q cs1 r1" using logsD [OF assms(1)] by blast
  show "\<exists>calls. log_of s' = log_of s @ calls \<and> ((\<exists>e. Q calls (Raise e) \<and> r = Raise e)
      \<or> (\<exists>x cs1 cs2. Q cs1 (Ok x) \<and> R x cs2 r \<and> calls = cs1 @ cs2))"
  proof (cases r1)
    case (Inl e)
    then show ?thesis using run 1 cs1 by (auto simp: bindS_app)
  next
    case (Inr x)
    then have "f x s1 = (r, s')" using run 1 by (simp add: bindS_app)
    then obtain cs2 where "log_of s' = log_of s1 @ cs2" "R x cs2 r" using logsD [OF assms(2)] by blast
    then show ?thesis using cs1 Inr by auto
  qed
qed

text \<open>The calls of a handled routine: its own, and those of the handler when it fails.\<close>

lemma logs_try:
  assumes "logs log_of Q m" "\<And>e. logs log_of (R e) (h e)"
  shows "logs log_of (\<lambda>calls r. (\<exists>x. Q calls (Ok x) \<and> r = Ok x)
      \<or> (\<exists>e cs1 cs2. Q cs1 (Raise e) \<and> R e cs2 r \<and> calls = cs1 @ cs2)) (tryS m h)"
  unfolding logs_def
proof (intro allI impI)
  fix s r s'
  assume run: "tryS m h s = (r, s')"
  obtain r1 s1 where 1: "m s = (r1, s1)" by (cases "m s")
  then obtain cs1 where cs1: "log_of s1 = log_of s @ cs1" "Q cs1 r1" using logsD [OF assms(1)] by blast
  show "\<exists>calls. log_of s' = log_of s @ calls \<and> ((\<exists>x. Q calls (Ok x) \<and> r = Ok x)
      \<or> (\<exists>e cs1 cs2. Q cs1 (Raise e) \<and> R e cs2 r \<and> calls = cs1 @ cs2))"
  proof (cases r1)
    case (Inr x)
    then show ?thesis using run 1 cs1 by (auto simp: tryS_app)
  next
    case (Inl e)
    then have "h e s1 = (r, s')" using run 1 by (simp add: tryS_app)
    then obtain cs2 where "log_of s' = log_of s1 @ cs2" "R e cs2 r" using logsD [OF assms(2)] by blast
    then show ?thesis using cs1 Inl by auto
  qed
qed

text \<open>A routine that makes no call at all.\<close>

abbreviation silent :: "('s \<Rightarrow> 'c list) \<Rightarrow> ('s, 'a) eff \<Rightarrow> bool" where
  "silent log_of m \<equiv> logs log_of (\<lambda>calls r. calls = []) m"

lemma silent_bind: "silent log_of m \<Longrightarrow> (\<And>x. silent log_of (f x)) \<Longrightarrow> silent log_of (bindS m f)"
  by (rule logs_mono [OF logs_bind]) auto

lemma silent_lift: "silent log_of (liftS r)"
  by (simp add: logs_def)

lemma silent_pure: "silent log_of (pureS x)"
  by (simp add: logs_def)

lemma silent_try: "silent log_of m \<Longrightarrow> (\<And>e. silent log_of (h e)) \<Longrightarrow> silent log_of (tryS m h)"
  by (rule logs_mono [OF logs_try]) auto

lemma silentD: "silent log_of m \<Longrightarrow> log_of (snd (m s)) = log_of s"
  unfolding logs_def by (metis append.right_neutral prod.collapse)

lemmas silent_intros = silent_bind silent_try silent_lift silent_pure

lemma silentI: "(\<And>s. log_of (snd (m s)) = log_of s) \<Longrightarrow> silent log_of m"
  unfolding logs_def by (metis append.right_neutral snd_conv)

lemma silent_result:
  assumes "silent log_of m" "\<And>s s' x. m s = (Ok x, s') \<Longrightarrow> P x"
  shows "logs log_of (\<lambda>calls r. calls = [] \<and> (\<forall>x. r = Ok x \<longrightarrow> P x)) m"
  unfolding logs_def
proof (intro allI impI)
  fix s r s' assume m: "m s = (r, s')"
  have "log_of s' = log_of s @ []" using silentD [OF assms(1), of s] m by simp
  moreover have "P x" if "r = Ok x" for x using m that by (intro assms(2)) simp
  ultimately show "\<exists>calls. log_of s' = log_of s @ calls \<and> calls = [] \<and> (\<forall>x. r = Ok x \<longrightarrow> P x)"
    by (intro exI [of _ "[]"] conjI) simp_all
qed

end
