(* ===== verification/Order_Submit.thy ===== *)
theory Order_Submit imports Order_Signing Order_Properties Call_Logs begin

text \<open>
  Posting signed orders: \<open>actions/orders/post.py\<close>, \<open>models/clob/order_response.py\<close>,
  \<open>allowance.py\<close> and \<open>place.py\<close>, with the balance model of \<open>models/clob/account.py\<close>. The calls of the
  client that leave these files are the fields of \<open>order_client\<close>.
\<close>

section \<open>Payloads\<close>

definition MAX_BATCH :: nat where "MAX_BATCH = 15"

fun order_type_text :: "order_type \<Rightarrow> string" where
  "order_type_text GTC = ''GTC''"
| "order_type_text GTD = ''GTD''"
| "order_type_text FAK = ''FAK''"
| "order_type_text FOK = ''FOK''"

fun side_text :: "order_side \<Rightarrow> string" where
  "side_text BUY = ''BUY''"
| "side_text SELL = ''SELL''"

definition order_payload :: "signed_order \<Rightarrow> (string \<times> pyval) list" where
  "order_payload order =
     [(''builder'', PStr (so_builder order)), (''expiration'', PStr (str_int (so_expiration order))),
      (''maker'', PStr (so_maker order)), (''makerAmount'', PStr (str_int (so_maker_amount order))),
      (''metadata'', PStr (so_metadata order)), (''salt'', PInt (so_salt order)),
      (''side'', PStr (side_text (so_side order))), (''signature'', PStr (so_signature order)),
      (''signatureType'', PInt (so_signature_type order)), (''signer'', PStr (so_signer order)),
      (''takerAmount'', PStr (str_int (so_taker_amount order))),
      (''timestamp'', PStr (str_int (so_timestamp order))), (''tokenId'', PStr (so_token_id order))]"

definition build_send_order_payload :: "signed_order \<Rightarrow> string \<Rightarrow> pyval res" where
  "build_send_order_payload order owner_api_key =
     (if so_post_only order \<and> so_order_type order \<notin> {GTC, GTD} then Raise UserInputError
      else Ok (PDict ([(''deferExec'', PBool False), (''order'', PDict (order_payload order)),
                       (''orderType'', PStr (order_type_text (so_order_type order))), (''owner'', PStr owner_api_key)]
                      @ (if so_post_only order then [(''postOnly'', PBool True)] else []))))"


text \<open>The argument of \<open>post_orders\<close>: a text, or a sequence of signed orders.\<close>

datatype signed_orders = OrdersText | SignedOrders "signed_order list"

definition build_post_orders_request :: "signed_orders \<Rightarrow> string \<Rightarrow> (string \<times> pyval) res" where
  "build_post_orders_request signed_orders owner_api_key =
     (case signed_orders of
        OrdersText \<Rightarrow> Raise UserInputError
      | SignedOrders items \<Rightarrow>
          if items = [] then Raise UserInputError
          else if MAX_BATCH < length items then Raise UserInputError
          else map_ok (\<lambda>payload. (''/orders'', PList payload))
                 (traverseE (\<lambda>item. build_send_order_payload item owner_api_key) items))"

section \<open>Responses\<close>

record raw_order_response =
  ror_error_msg :: string
  ror_making_amount :: decimal
  ror_order_id :: string
  ror_status :: string
  ror_success :: bool
  ror_taking_amount :: decimal
  ror_trade_ids :: "string list"
  ror_transactions_hashes :: "string list"

datatype order_error_code =
    Unmatched | Market_Not_Ready | Not_Enough_Balance | Invalid_Nonce | Invalid_Expiration
  | Post_Only_Would_Cross | Post_Only_Mode | Fok_Not_Filled | Fak_Not_Filled | Unknown_Code

record accepted_order =
  ao_order_id :: string
  ao_status :: string
  ao_making_amount :: decimal
  ao_taking_amount :: decimal
  ao_trade_ids :: "string list"
  ao_transactions_hashes :: "string list"

datatype order_response = Accepted accepted_order | Rejected order_error_code string

definition order_post_statuses :: "string set" where
  "order_post_statuses = {''live'', ''matched'', ''delayed''}"

definition error_msg_to_code :: "(string \<times> order_error_code) list" where
  "error_msg_to_code =
     [(''the market is not yet ready to process new orders'', Market_Not_Ready),
      (''invalid nonce'', Invalid_Nonce),
      (''invalid expiration'', Invalid_Expiration),
      (''invalid post-only order: order crosses book'', Post_Only_Would_Cross),
      (''post-only mode: only post-only orders and cancels are allowed'', Post_Only_Mode),
      (''order couldn'' @ [char_of (39 :: nat)] @ ''t be fully filled. FOK orders are fully filled or killed.'', Fok_Not_Filled),
      (''no orders found to match with FAK order. FAK orders are partially filled or killed if no match is found.'',
         Fak_Not_Filled)]"

definition is_accepted :: "raw_order_response \<Rightarrow> bool" where
  "is_accepted raw \<longleftrightarrow>
     ror_success raw \<and> ror_error_msg raw = [] \<and> ror_order_id raw \<noteq> [] \<and> ror_status raw \<in> order_post_statuses"

definition infer_error_code :: "raw_order_response \<Rightarrow> order_error_code" where
  "infer_error_code raw =
     (if ror_status raw = ''unmatched'' then Unmatched
      else case map_of error_msg_to_code (ror_error_msg raw) of
          Some code \<Rightarrow> code
        | None \<Rightarrow>
            if contains ''not enough balance / allowance'' (ror_error_msg raw) then Not_Enough_Balance
            else Unknown_Code)"

definition normalize_order_response :: "raw_order_response \<Rightarrow> order_response" where
  "normalize_order_response raw =
     (if is_accepted raw then
        Accepted \<lparr>ao_order_id = ror_order_id raw, ao_status = ror_status raw,
                  ao_making_amount = ror_making_amount raw, ao_taking_amount = ror_taking_amount raw,
                  ao_trade_ids = ror_trade_ids raw, ao_transactions_hashes = ror_transactions_hashes raw\<rparr>
      else Rejected (infer_error_code raw)
             (if ror_error_msg raw = [] then ''Unknown order failure'' else ror_error_msg raw))"


definition parse_order_responses ::
  "(pyval \<Rightarrow> raw_order_response list option) \<Rightarrow> pyval \<Rightarrow> order_response list res" where
  "parse_order_responses validate_all data =
     (case validate_all data of
        None \<Rightarrow> Raise UnexpectedResponseError
      | Some raws \<Rightarrow> Ok (map normalize_order_response raws))"

section \<open>Allowances\<close>

definition parse_base_units :: "pyval \<Rightarrow> int res" where
  "parse_base_units value =
     (case value of
        PInt n \<Rightarrow> Ok n
      | PStr s \<Rightarrow> (case py_int s 10 of None \<Rightarrow> Raise ValueError | Some n \<Rightarrow> Ok n)
      | _ \<Rightarrow> Raise ValueError)"

record balance_allowance =
  ba_balance :: int
  ba_allowances :: "(string \<times> int) list"

definition parse_allowance_entry :: "string \<times> pyval \<Rightarrow> (string \<times> int) res" where
  "parse_allowance_entry p = map_ok (Pair (fst p)) (parse_base_units (snd p))"

text \<open>Every ValueError of a validator is a response of unexpected shape.\<close>

definition parse_balance_allowance :: "pyval \<Rightarrow> balance_allowance res" where
  "parse_balance_allowance data =
     (case data of
        PDict d \<Rightarrow>
          (case (parse_base_units (dict_get ''balance'' d),
                 case dict_get ''allowances'' d of
                   PDict entries \<Rightarrow> traverseE parse_allowance_entry entries
                 | _ \<Rightarrow> Raise ValueError) of
             (Inr balance, Inr allowances) \<Rightarrow> Ok \<lparr>ba_balance = balance, ba_allowances = allowances\<rparr>
           | _ \<Rightarrow> Raise UnexpectedResponseError)
      | _ \<Rightarrow> Raise UnexpectedResponseError)"

definition resolve_order_balance_allowance_target :: "order_side \<Rightarrow> string \<Rightarrow> (string \<times> pyval) res" where
  "resolve_order_balance_allowance_target side asset_id =
     (if side = BUY then Ok (''COLLATERAL'', PNone)
      else bindE (is_v2_position_id asset_id) (\<lambda>v2.
        Ok (if v2 then ''CONDITIONAL-V2'' else ''CONDITIONAL'', PStr asset_id)))"

definition balance_allowance_request_for_side :: "wallet_type \<Rightarrow> order_side \<Rightarrow> string \<Rightarrow> request res" where
  "balance_allowance_request_for_side wt side asset_id =
     bindE (resolve_order_balance_allowance_target side asset_id) (\<lambda>(asset_type, resolved).
     build_balance_allowance_request asset_type resolved PNone (signature_type_for wt))"

definition allowance_for_spender :: "(string \<times> int) list \<Rightarrow> string \<Rightarrow> int" where
  "allowance_for_spender allowances spender =
     (case find (\<lambda>p. lower (fst p) = lower spender) allowances of None \<Rightarrow> 0 | Some p \<Rightarrow> snd p)"

section \<open>Clients\<close>

record 'w order_client =
  oc_context :: order_context
  oc_api_key :: string
  oc_post_json :: "string \<Rightarrow> pyval \<Rightarrow> ('w, pyval) eff"
  oc_get_json :: "string \<Rightarrow> (string \<times> pyval) list \<Rightarrow> ('w, pyval) eff"
  oc_get_bytes :: "string \<Rightarrow> (string \<times> pyval) list \<Rightarrow> ('w, unit) eff"
  oc_resolve_market :: "'w market_source"
  oc_approve_erc20 :: "string \<Rightarrow> string \<Rightarrow> ('w, nat) eff"
  oc_approve_erc1155 :: "string \<Rightarrow> string \<Rightarrow> ('w, nat) eff"
  oc_wait :: "nat \<Rightarrow> ('w, unit) eff"
  oc_validate :: "pyval \<Rightarrow> raw_order_response option"

definition fetch_current_order_allowance ::
  "'w order_client \<Rightarrow> order_side \<Rightarrow> string \<Rightarrow> string \<Rightarrow> ('w, int) eff" where
  "fetch_current_order_allowance client side asset_id spender =
     bindS (liftS (balance_allowance_request_for_side (ctx_wallet_type (oc_context client)) side asset_id)) (\<lambda>(path, params).
     bindS (oc_get_json client path params) (\<lambda>data.
     bindS (liftS (parse_balance_allowance data)) (\<lambda>balance.
     pureS (allowance_for_spender (ba_allowances balance) spender))))"

definition fetch_current_allowance :: "'w order_client \<Rightarrow> order_draft \<Rightarrow> string \<Rightarrow> ('w, int) eff" where
  "fetch_current_allowance client draft spender =
     fetch_current_order_allowance client (draft_side draft) (draft_asset_id draft) spender"


section \<open>Recovery from a missing allowance\<close>







section \<open>What a client is asked to do\<close>

text \<open>A client that keeps a log of the calls made on it, in order.\<close>

datatype client_call =
    Posted string pyval
  | Read string "(string \<times> pyval) list"
  | Refreshed string "(string \<times> pyval) list"
  | Resolved string
  | Approved_Erc20 string string
  | Approved_Erc1155 string string
  | Awaited nat








fun is_post :: "client_call \<Rightarrow> bool" where
  "is_post (Posted path j) = True"
| "is_post _ = False"


definition no_posts :: "client_call list \<Rightarrow> bool" where
  "no_posts calls \<longleftrightarrow> filter is_post calls = []"

lemma no_posts_simps [simp]:
  "no_posts []" "no_posts (c # cs) \<longleftrightarrow> \<not> is_post c \<and> no_posts cs" "no_posts (cs @ ds) \<longleftrightarrow> no_posts cs \<and> no_posts ds"
  by (simp_all add: no_posts_def)

















section \<open>What is signed is what is posted\<close>

definition posted_order :: "pyval \<Rightarrow> (string \<times> pyval) list" where
  "posted_order payload = (case payload of
     PDict d \<Rightarrow> (case dict_get ''order'' d of PDict x \<Rightarrow> x | _ \<Rightarrow> []) | _ \<Rightarrow> [])"

lemma posted_order_payload:
  "build_send_order_payload x key = Ok payload \<Longrightarrow> posted_order payload = order_payload x"
  by (auto simp: build_send_order_payload_def posted_order_def dict_get_def split: if_splits)

text \<open>The reader of a posted order at the other end: each field of the message that was signed, under its
  key and in its form, the numbers beyond 53 bits as decimal texts and the side by its name.\<close>

definition int_text :: "pyval \<Rightarrow> int option" where
  "int_text v = (case v of PStr s \<Rightarrow> py_int s 10 | _ \<Rightarrow> None)"

definition side_number :: "pyval \<Rightarrow> int option" where
  "side_number v = (if v = PStr ''BUY'' then Some 0 else if v = PStr ''SELL'' then Some 1 else None)"

definition server_message :: "(string \<times> pyval) list \<Rightarrow> order_message option" where
  "server_message d =
     (case (dict_get ''salt'' d, dict_get ''signatureType'' d, dict_get ''maker'' d, dict_get ''signer'' d,
            dict_get ''metadata'' d, dict_get ''builder'' d) of
        (PInt salt, PInt signature_type, PStr maker, PStr signer, PStr metadata, PStr builder) \<Rightarrow>
          (case (int_text (dict_get ''tokenId'' d), int_text (dict_get ''makerAmount'' d),
                 int_text (dict_get ''takerAmount'' d), int_text (dict_get ''timestamp'' d), side_number (dict_get ''side'' d)) of
             (Some token, Some maker_amount, Some taker_amount, Some timestamp, Some side) \<Rightarrow>
               Some \<lparr>om_salt = salt, om_maker = maker, om_signer = signer, om_token_id = token,
                     om_maker_amount = maker_amount, om_taker_amount = taker_amount, om_side = side,
                     om_signature_type = signature_type, om_timestamp = timestamp, om_metadata = metadata,
                     om_builder = builder\<rparr>
           | _ \<Rightarrow> None)
      | _ \<Rightarrow> None)"

text \<open>The message of an order whose token reads as \<open>token\<close>.\<close>

definition signed_message :: "unsigned_order \<Rightarrow> int \<Rightarrow> order_message" where
  "signed_message u token =
     \<lparr>om_salt = uo_salt u, om_maker = uo_maker u, om_signer = uo_signer u, om_token_id = token,
      om_maker_amount = uo_maker_amount u, om_taker_amount = uo_taker_amount u, om_side = encode_side (uo_side u),
      om_signature_type = uo_signature_type u, om_timestamp = uo_timestamp u, om_metadata = uo_metadata u,
      om_builder = uo_builder u\<rparr>"

lemma typed_data_message:
  assumes "build_order_typed_data u None = Ok td"
  obtains token where "py_int (uo_token_id u) 10 = Some token"
    "message_of td = (if uo_signature_type u = 3
       then TypedDataSign (signed_message u token) \<lparr>td_name = ''DepositWallet'', td_version = ''1'',
              td_chain_id = uo_chain_id u, td_verifying_contract = uo_signer u\<rparr> BYTES32_ZERO
       else OrderMessage (signed_message u token))"
    "td_chain_id (domain_of td) = uo_chain_id u" "td_verifying_contract (domain_of td) = uo_exchange_address u"
proof -
  obtain token where token: "py_int (uo_token_id u) 10 = Some token"
    using assms
    by (auto simp: build_order_typed_data_def build_standard_typed_data_def order_message_of_def int_of_token_def Let_def
        split: option.splits)
  have m: "order_message_of u = Ok (signed_message u token)"
    by (simp add: order_message_of_def int_of_token_def token signed_message_def)
  show thesis
    using assms that [OF token]
    by (cases "uo_signature_type u = 3")
       (auto simp: build_order_typed_data_def build_standard_typed_data_def m Let_def POLY_1271_SIGNATURE_TYPE_def
         exchange_domain_def DEPOSIT_WALLET_DOMAIN_NAME_def DEPOSIT_WALLET_DOMAIN_VERSION_def)
qed

lemma unsigned_of_draft:
  assumes "create_unsigned_order draft wallet wt random now = Ok u"
  shows "uo_chain_id u = draft_chain_id draft" "uo_exchange_address u = draft_exchange_address draft"
    "uo_expiration u = draft_expiration draft" "uo_maker u = draft_funder_address draft"
    "uo_maker_amount u = offered_amount draft" "uo_taker_amount u = requested_amount draft"
    "uo_metadata u = BYTES32_ZERO" "0 \<le> uo_salt u" "uo_salt u < 2 ^ 53" "uo_side u = draft_side draft"
    "uo_signature_type u = signature_type_for wt" "uo_timestamp u = now" "uo_token_id u = draft_asset_id draft"
    "uo_signer u = (if wt = DEPOSIT_WALLET then wallet else draft_signer draft)"
    "uo_builder u = (if draft_builder_code draft \<in> {None, Some []} then BYTES32_ZERO else the (draft_builder_code draft))"
proof -
  obtain v2 where v2: "is_v2_position_id (draft_asset_id draft) = Ok v2"
    using assms by (auto simp: create_unsigned_order_def Let_def)
  note u = assms [unfolded create_unsigned_order_def Let_def v2 bindE_Inr, THEN sum.inject(2) [THEN iffD1], symmetric]
  show "uo_chain_id u = draft_chain_id draft" "uo_exchange_address u = draft_exchange_address draft"
    "uo_expiration u = draft_expiration draft" "uo_maker u = draft_funder_address draft"
    "uo_maker_amount u = offered_amount draft" "uo_taker_amount u = requested_amount draft"
    "uo_metadata u = BYTES32_ZERO" "0 \<le> uo_salt u" "uo_salt u < 2 ^ 53" "uo_side u = draft_side draft"
    "uo_signature_type u = signature_type_for wt" "uo_timestamp u = now" "uo_token_id u = draft_asset_id draft"
    by (simp_all add: u generate_salt_def SALT_BITS_def)
  show "uo_signer u = (if wt = DEPOSIT_WALLET then wallet else draft_signer draft)"
    by (cases wt) (simp_all add: u POLY_1271_SIGNATURE_TYPE_def)
  show "uo_builder u = (if draft_builder_code draft \<in> {None, Some []} then BYTES32_ZERO else the (draft_builder_code draft))"
    by (cases "draft_builder_code draft") (simp_all add: u)
qed

lemma int_text_str_int: "0 \<le> n \<Longrightarrow> n < 10 ^ 100 \<Longrightarrow> int_text (PStr (str_int n)) = Some n"
  using length_dec_digits [of n 100] by (simp add: int_text_def py_int_str_int)

lemma server_reads_order:
  assumes "0 \<le> so_maker_amount x" "so_maker_amount x < 10 ^ 100" "0 \<le> so_taker_amount x" "so_taker_amount x < 10 ^ 100"
    and "0 \<le> so_timestamp x" "so_timestamp x < 10 ^ 100" "py_int (so_token_id x) 10 = Some token"
  shows "server_message (order_payload x) = Some
    \<lparr>om_salt = so_salt x, om_maker = so_maker x, om_signer = so_signer x, om_token_id = token,
     om_maker_amount = so_maker_amount x, om_taker_amount = so_taker_amount x, om_side = encode_side (so_side x),
     om_signature_type = so_signature_type x, om_timestamp = so_timestamp x, om_metadata = so_metadata x,
     om_builder = so_builder x\<rparr>"
proof -
  have "side_number (PStr (side_text (so_side x))) = Some (encode_side (so_side x))"
    by (cases "so_side x") (simp_all add: side_number_def encode_side_def)
  moreover have "int_text (PStr (so_token_id x)) = Some token" using assms(7) by (simp add: int_text_def)
  ultimately show ?thesis
    using assms(1-6) by (simp add: server_message_def order_payload_def dict_get_def int_text_str_int)
qed

text \<open>C14: The typed data that the wallet signs and the payload that is posted describe one order. Read back
  field by field, the posted order is exactly the message that was signed, which a deposit wallet signs
  inside the domain of the wallet; its maker, signer, token, amounts, side, kind of signature, time,
  metadata and builder are those of the draft and the account; and beside it are posted the signature and
  the expiration. The domain is that of the draft's chain and exchange.\<close>

theorem signed_is_posted:
  assumes "create_unsigned_order draft wallet wt random now = Ok u" "build_order_typed_data u None = Ok td"
    and "build_send_order_payload (create_signed_order u signature po) key = Ok payload"
    and "0 \<le> offered_amount draft" "offered_amount draft < 10 ^ 100" "0 \<le> requested_amount draft"
      "requested_amount draft < 10 ^ 100" "0 \<le> now" "now < 10 ^ 100"
  shows "\<exists>m. server_message (posted_order payload) = Some m
    \<and> message_of td = (if wt = DEPOSIT_WALLET
        then TypedDataSign m \<lparr>td_name = ''DepositWallet'', td_version = ''1'', td_chain_id = draft_chain_id draft,
               td_verifying_contract = wallet\<rparr> BYTES32_ZERO
        else OrderMessage m)
    \<and> om_maker m = draft_funder_address draft
    \<and> om_signer m = (if wt = DEPOSIT_WALLET then wallet else draft_signer draft)
    \<and> py_int (draft_asset_id draft) 10 = Some (om_token_id m)
    \<and> om_maker_amount m = offered_amount draft \<and> om_taker_amount m = requested_amount draft
    \<and> om_side m = (if draft_side draft = BUY then 0 else 1)
    \<and> om_signature_type m = signature_type_for wt \<and> om_timestamp m = now \<and> om_metadata m = BYTES32_ZERO
    \<and> om_builder m = (if draft_builder_code draft \<in> {None, Some []} then BYTES32_ZERO else the (draft_builder_code draft))
    \<and> 0 \<le> om_salt m \<and> om_salt m < 2 ^ 53
    \<and> dict_get ''signature'' (posted_order payload) = PStr signature
    \<and> dict_get ''expiration'' (posted_order payload) = PStr (str_int (draft_expiration draft))
    \<and> td_chain_id (domain_of td) = draft_chain_id draft
    \<and> td_verifying_contract (domain_of td) = draft_exchange_address draft"
proof -
  let ?x = "create_signed_order u signature po"
  note u = unsigned_of_draft [OF assms(1)]
  obtain token where token: "py_int (uo_token_id u) 10 = Some token"
    and td: "message_of td = (if uo_signature_type u = 3
       then TypedDataSign (signed_message u token) \<lparr>td_name = ''DepositWallet'', td_version = ''1'',
              td_chain_id = uo_chain_id u, td_verifying_contract = uo_signer u\<rparr> BYTES32_ZERO
       else OrderMessage (signed_message u token))"
      "td_chain_id (domain_of td) = uo_chain_id u" "td_verifying_contract (domain_of td) = uo_exchange_address u"
    using typed_data_message [OF assms(2)] .
  have payload: "posted_order payload = order_payload ?x" by (rule posted_order_payload [OF assms(3)])
  have m: "server_message (posted_order payload) = Some (signed_message u token)"
    unfolding payload using assms(4-9) token u(5,6,12)
    by (subst server_reads_order [of _ token]) (simp_all add: create_signed_order_def signed_message_def)
  have type: "uo_signature_type u = 3 \<longleftrightarrow> wt = DEPOSIT_WALLET" using u(11) by (cases wt) simp_all
  have signed: "message_of td = (if wt = DEPOSIT_WALLET
        then TypedDataSign (signed_message u token) \<lparr>td_name = ''DepositWallet'', td_version = ''1'',
               td_chain_id = draft_chain_id draft, td_verifying_contract = wallet\<rparr> BYTES32_ZERO
        else OrderMessage (signed_message u token))"
    using td(1) type u(1,14) by simp
  have beside: "dict_get ''signature'' (posted_order payload) = PStr signature"
    "dict_get ''expiration'' (posted_order payload) = PStr (str_int (draft_expiration draft))"
    using u(3) by (simp_all add: payload order_payload_def dict_get_def create_signed_order_def)
  show ?thesis
    by (intro exI [of _ "signed_message u token"] conjI)
      (use m signed beside u(8,9) token in \<open>simp_all only: signed_message_def order_message.simps u td(2,3) encode_side_def\<close>)
qed

definition demo_order_draft :: order_draft where
  "demo_order_draft = \<lparr>draft_chain_id = 137, draft_exchange_address = ''0xE1'', draft_expiration = 0,
     draft_funder_address = ''0xAB'', offered_amount = 11782400, draft_order_type = GTC, draft_side = BUY,
     draft_signer = ''0xCD'', requested_amount = 21040000, draft_asset_id = ''7'', draft_builder_code = None\<rparr>"

definition demo_signing :: "wallet_type \<Rightarrow> (unsigned_order \<times> typed_data \<times> pyval) res" where
  "demo_signing wt =
     bindE (create_unsigned_order demo_order_draft ''0xAB'' wt 12345 1700000000000) (\<lambda>u.
     bindE (build_order_typed_data u None) (\<lambda>td.
     bindE (build_send_order_payload (create_signed_order u ''0xsig'' True) ''key'') (\<lambda>payload.
     Ok (u, td, payload))))"

lemma demo_signs: "is_ok (demo_signing DEPOSIT_WALLET)"
  by code_simp

lemma demo_signing_parts:
  obtains u td payload where
    "create_unsigned_order demo_order_draft ''0xAB'' DEPOSIT_WALLET 12345 1700000000000 = Ok u"
    "build_order_typed_data u None = Ok td"
    "build_send_order_payload (create_signed_order u ''0xsig'' True) ''key'' = Ok payload"
proof -
  obtain x where "demo_signing DEPOSIT_WALLET = Ok x" using demo_signs by (auto simp: is_ok_iff)
  then show thesis using that by (auto simp: demo_signing_def)
qed

theorem signed_is_posted_witness:
  "\<exists>u td payload m d. build_order_typed_data u None = Ok td
    \<and> build_send_order_payload (create_signed_order u ''0xsig'' True) ''key'' = Ok payload
    \<and> server_message (posted_order payload) = Some m \<and> message_of td = TypedDataSign m d BYTES32_ZERO
    \<and> td_verifying_contract d = ''0xAB'' \<and> om_maker m = ''0xAB'' \<and> om_maker_amount m = 11782400"
proof -
  obtain u td payload where d:
    "create_unsigned_order demo_order_draft ''0xAB'' DEPOSIT_WALLET 12345 1700000000000 = Ok u"
    "build_order_typed_data u None = Ok td"
    "build_send_order_payload (create_signed_order u ''0xsig'' True) ''key'' = Ok payload"
    by (rule demo_signing_parts)
  have a: "0 \<le> offered_amount demo_order_draft" "offered_amount demo_order_draft < 10 ^ 100"
    "0 \<le> requested_amount demo_order_draft" "requested_amount demo_order_draft < 10 ^ 100"
    "0 \<le> (1700000000000 :: int)" "(1700000000000 :: int) < 10 ^ 100"
    "offered_amount demo_order_draft = 11782400" "draft_funder_address demo_order_draft = ''0xAB''"
    by (simp_all add: demo_order_draft_def)
  show ?thesis using signed_is_posted [OF d a(1-6)] d(2,3) a(7,8) by fastforce
qed

text \<open>C15: A signature for a deposit wallet can be taken apart by a verifier: from the end, the length of
  the type text, the text, the hash of the contents and the domain separator, and what is left is the
  signature of the owner's key.\<close>

theorem wrapped_signature_unwraps:
  assumes "build_order_signature keccak abi order signature v = Ok s" "uo_signature_type order = 3"
    and "\<And>x. length (keccak x) = 32"
  shows "\<exists>sep h. app_domain_separator keccak abi order (effective_version order v) = Ok (''0x'' @ sep)
    \<and> order_contents_hash keccak abi order = Ok h
    \<and> unwrap_signature s = Some (signature, sep, bytes_hex h, ORDER_TYPE_STRING)"
  by (rule build_order_signature_wrapped [OF assms(1) _ assms(3)])
    (simp add: assms(2) POLY_1271_SIGNATURE_TYPE_def)

theorem wrapped_signature_unwraps_witness:
  "\<exists>order s sep h. build_order_signature (\<lambda>_. replicate 32 0) (\<lambda>_ _. Ok []) order ''0xsig'' None = Ok s
    \<and> unwrap_signature s = Some (''0xsig'', sep, h, ORDER_TYPE_STRING)"
proof -
  obtain u where u: "create_unsigned_order demo_order_draft ''0xAB'' DEPOSIT_WALLET 12345 1700000000000 = Ok u"
    by (rule demo_signing_parts)
  then have t: "uo_signature_type u = 3" by (auto simp: create_unsigned_order_def Let_def)
  have "map_ok (\<lambda>_. ()) (bindE (create_unsigned_order demo_order_draft ''0xAB'' DEPOSIT_WALLET 12345 1700000000000)
      (\<lambda>u. build_order_signature (\<lambda>_. replicate 32 0) (\<lambda>_ _. Ok []) u ''0xsig'' None)) = Ok ()"
    by code_simp
  then obtain s where s: "build_order_signature (\<lambda>_. replicate 32 0) (\<lambda>_ _. Ok []) u ''0xsig'' None = Ok s"
    using u by (auto simp: map_ok_def)
  have "length (replicate 32 0 :: byte list) = 32" by simp
  then obtain sep h where "unwrap_signature s = Some (''0xsig'', sep, bytes_hex h, ORDER_TYPE_STRING)"
    using wrapped_signature_unwraps [OF s t] by blast
  with s show ?thesis by blast
qed

end
