(* ===== verification/Settlement.thy ===== *)
theory Settlement imports Order_Submit begin

text \<open>
  \<open>actions/orders/settlement.py\<close>: waiting until every fill of an accepted order has reached a terminal
  outcome. The loop may run for ever if the clock never advances; it is a partial function, and its end
  is proved under the laws of the monotonic clock.
\<close>

section \<open>Definitions\<close>

text \<open>The fields of a trade that the loop reads; the transaction hash is optional.\<close>

record clob_trade =
  tr_id :: string
  tr_status :: string
  tr_transaction_hash :: "string option"

record 'w settlement_client =
  sc_get_json :: "string \<Rightarrow> (string \<times> pyval) list \<Rightarrow> ('w, pyval) eff"
  sc_parse_trades :: "pyval \<Rightarrow> clob_trade list option"
  sc_monotonic :: "'w \<Rightarrow> rat"
  sc_sleep :: "rat \<Rightarrow> 'w \<Rightarrow> 'w"

definition SETTLEMENT_TIMEOUT_S :: rat where "SETTLEMENT_TIMEOUT_S = 30"

definition SETTLEMENT_POLL_DELAY_S :: rat where "SETTLEMENT_POLL_DELAY_S = 1 / 4"

definition is_trade_settled :: "clob_trade \<Rightarrow> bool" where
  "is_trade_settled t \<longleftrightarrow> tr_status t \<in> {''CONFIRMED'', ''FAILED''}"

definition is_failed_trade :: "clob_trade \<Rightarrow> bool" where
  "is_failed_trade t \<longleftrightarrow> tr_status t = ''FAILED''"

type_synonym settled = "(string \<times> clob_trade) list"

definition pending_trade_ids :: "string list \<Rightarrow> settled \<Rightarrow> string list" where
  "pending_trade_ids trade_ids settled = filter (\<lambda>i. map_of settled i = None) trade_ids"

definition record_settled_trades :: "string list \<Rightarrow> clob_trade list \<Rightarrow> settled \<Rightarrow> settled" where
  "record_settled_trades trade_ids trades settled =
     fold (\<lambda>t s. if tr_id t \<in> set trade_ids \<and> is_trade_settled t then dict_set (tr_id t) t s else s)
       trades settled"

definition collect_settlement_hashes :: "string list \<Rightarrow> settled \<Rightarrow> string option list res" where
  "collect_settlement_hashes trade_ids settled =
     (let trades = List.map_filter (map_of settled) trade_ids in
      if trades \<noteq> [] \<and> list_all is_failed_trade trades then Raise TransactionFailedError
      else Ok (fromkeys (map tr_transaction_hash (filter (\<lambda>t. \<not> is_failed_trade t) trades))))"

text \<open>The requests of one round, one per trade that was pending when the round began.\<close>

fun poll_trades :: "'w settlement_client \<Rightarrow> string list \<Rightarrow> string list \<Rightarrow> settled \<Rightarrow> ('w, settled) eff" where
  "poll_trades c trade_ids [] settled = pureS settled"
| "poll_trades c trade_ids (i # is) settled =
     bindS (liftS (build_list_account_trades_request PNone PNone (PStr i) PNone PNone PNone PNone PNone)) (\<lambda>(path, params).
     bindS (sc_get_json c path params) (\<lambda>data.
     bindS (liftS (parse_account_trades_page (sc_parse_trades c) data)) (\<lambda>page.
     poll_trades c trade_ids is (record_settled_trades trade_ids (page_items page) settled))))"

partial_function (option) settle_loop ::
  "'w settlement_client \<Rightarrow> string list \<Rightarrow> rat \<Rightarrow> settled \<Rightarrow> 'w \<Rightarrow> (settled res \<times> 'w) option" where
  "settle_loop c trade_ids deadline settled w =
     (case poll_trades c trade_ids (pending_trade_ids trade_ids settled) settled w of
        (Inl e, w1) \<Rightarrow> Some (Raise e, w1)
      | (Inr settled1, w1) \<Rightarrow>
          if length settled1 = length trade_ids then Some (Ok settled1, w1)
          else if deadline \<le> sc_monotonic c w1 then Some (Raise TimeoutError, w1)
          else settle_loop c trade_ids deadline settled1 (sc_sleep c SETTLEMENT_POLL_DELAY_S w1))"

definition wait_for_order_fill_settlement ::
  "'w settlement_client \<Rightarrow> accepted_order \<Rightarrow> rat \<Rightarrow> 'w \<Rightarrow> (string option list res \<times> 'w) option" where
  "wait_for_order_fill_settlement c order timeout_s w =
     (let trade_ids = fromkeys (ao_trade_ids order) in
      if trade_ids = [] then Some (Ok (map Some (ao_transactions_hashes order)), w)
      else
        (case settle_loop c trade_ids (sc_monotonic c w + timeout_s) [] w of
           None \<Rightarrow> None
         | Some (Inl e, w') \<Rightarrow> Some (Raise e, w')
         | Some (Inr settled, w') \<Rightarrow> Some (collect_settlement_hashes trade_ids settled, w')))"

section \<open>What is recorded\<close>

text \<open>The record holds, per requested id, a settled trade with that id.\<close>

definition settled_ok :: "string list \<Rightarrow> settled \<Rightarrow> bool" where
  "settled_ok trade_ids settled \<longleftrightarrow> dict_ok settled
     \<and> (\<forall>i t. map_of settled i = Some t \<longrightarrow> i \<in> set trade_ids \<and> tr_id t = i \<and> is_trade_settled t)"

lemma settled_ok_Nil: "settled_ok ids []"
  by (simp add: settled_ok_def)

lemma settled_ok_set:
  "settled_ok ids s \<Longrightarrow> tr_id t \<in> set ids \<Longrightarrow> is_trade_settled t \<Longrightarrow> settled_ok ids (dict_set (tr_id t) t s)"
  by (auto simp: settled_ok_def)

lemma settled_ok_record: "settled_ok ids s \<Longrightarrow> settled_ok ids (record_settled_trades ids ts s)"
  unfolding record_settled_trades_def
  by (induction ts arbitrary: s) (simp_all add: settled_ok_set)

lemma settled_ok_poll:
  "settled_ok ids s \<Longrightarrow> poll_trades c ids is s w = (Ok s', w') \<Longrightarrow> settled_ok ids s'"
  by (induction c ids "is" s arbitrary: w rule: poll_trades.induct)
    (auto simp: bindS_app settled_ok_record split: prod.splits sum.splits)

text \<open>The keys are among the ids, so the two lengths agree exactly when every id is settled.\<close>

lemma settled_complete:
  assumes "settled_ok ids s" "distinct ids" "length s = length ids"
  shows "\<forall>i\<in>set ids. map_of s i \<noteq> None"
proof -
  have d: "distinct (map fst s)" using assms(1) by (simp add: settled_ok_def dict_ok_def)
  have "set (map fst s) \<subseteq> set ids"
  proof
    fix i assume "i \<in> set (map fst s)"
    then obtain t where "map_of s i = Some t" by (metis map_of_eq_None_iff option.exhaust set_map)
    then show "i \<in> set ids" using assms(1) by (simp add: settled_ok_def)
  qed
  moreover have "card (set (map fst s)) = card (set ids)"
    using distinct_card [OF d] distinct_card [OF assms(2)] assms(3) by simp
  ultimately have "set (map fst s) = set ids" by (intro card_subset_eq) simp_all
  then show ?thesis by (simp add: map_of_eq_None_iff)
qed

definition settle_post :: "string list \<Rightarrow> settled \<Rightarrow> settled res \<times> 'w \<Rightarrow> bool" where
  "settle_post ids s y \<longleftrightarrow> (\<forall>s'. fst y = Ok s' \<longrightarrow> settled_ok ids s \<longrightarrow> settled_ok ids s' \<and> length s' = length ids)"

lemma settle_step:
  assumes IH: "\<And>c ids deadline s w y. self c ids deadline s w = Some y \<Longrightarrow> settle_post ids s y"
    and body: "(case poll_trades c ids (pending_trade_ids ids s) s w of
        (Inl e, w1) \<Rightarrow> Some (Raise e, w1)
      | (Inr s1, w1) \<Rightarrow>
          if length s1 = length ids then Some (Ok s1, w1)
          else if deadline \<le> sc_monotonic c w1 then Some (Raise TimeoutError, w1)
          else self c ids deadline s1 (sc_sleep c SETTLEMENT_POLL_DELAY_S w1)) = Some y"
  shows "settle_post ids s y"
proof -
  obtain r w1 where p: "poll_trades c ids (pending_trade_ids ids s) s w = (r, w1)"
    by (cases "poll_trades c ids (pending_trade_ids ids s) s w")
  show ?thesis
  proof (cases r)
    case (Inl e)
    then show ?thesis using body p by (auto simp: settle_post_def)
  next
    case (Inr s1)
    have ok: "settled_ok ids s \<Longrightarrow> settled_ok ids s1" using p Inr settled_ok_poll by auto
    show ?thesis
    proof (cases "length s1 = length ids \<or> deadline \<le> sc_monotonic c w1")
      case True
      then have "y = (Ok s1, w1) \<and> length s1 = length ids \<or> y = (Raise TimeoutError, w1)"
        using body by (auto simp: p Inr split: if_splits)
      then show ?thesis using ok by (auto simp: settle_post_def)
    next
      case False
      then have "self c ids deadline s1 (sc_sleep c SETTLEMENT_POLL_DELAY_S w1) = Some y" using body p Inr by simp
      from IH [OF this] show ?thesis using ok by (simp add: settle_post_def)
    qed
  qed
qed

lemma settle_loop_post: "settle_loop c ids deadline s w = Some y \<Longrightarrow> settle_post ids s y"
  by (rule settle_loop.raw_induct [of "\<lambda>c ids deadline s w y. settle_post ids s y"]) (rule settle_step)

section \<open>The outcome\<close>

lemma map_filter_all:
  "\<forall>i\<in>set ids. m i \<noteq> None \<Longrightarrow> List.map_filter m ids = map (\<lambda>i. the (m i)) ids"
  by (induction ids) (auto simp: List.map_filter_def)

text \<open>The same client with the answers of the server written down, in the order in which they came.\<close>

definition logged_settlement :: "'w settlement_client \<Rightarrow> ('w \<times> pyval list) settlement_client" where
  "logged_settlement c = \<lparr>
     sc_get_json = (\<lambda>path ps w. case sc_get_json c path ps (fst w) of
         (Inr v, w') \<Rightarrow> (Ok v, (w', snd w @ [v]))
       | (Inl e, w') \<Rightarrow> (Raise e, (w', snd w))),
     sc_parse_trades = sc_parse_trades c,
     sc_monotonic = (\<lambda>w. sc_monotonic c (fst w)),
     sc_sleep = (\<lambda>d w. (sc_sleep c d (fst w), snd w))\<rparr>"

text \<open>The trades that answers report, and the last final one among them for a trade id.\<close>

definition reported :: "'w settlement_client \<Rightarrow> pyval list \<Rightarrow> clob_trade list" where
  "reported c answers = concat (map (\<lambda>v. case parse_account_trades_page (sc_parse_trades c) v of
     Inr page \<Rightarrow> page_items page | Inl _ \<Rightarrow> []) answers)"

definition last_outcome :: "'w settlement_client \<Rightarrow> pyval list \<Rightarrow> string \<Rightarrow> clob_trade option" where
  "last_outcome c answers i =
     find (\<lambda>t. tr_id t = i \<and> tr_status t \<in> {''CONFIRMED'', ''FAILED''}) (rev (reported c answers))"

lemma reported_simps [simp]: "reported c [] = []" "reported c (xs @ ys) = reported c xs @ reported c ys"
  by (simp_all add: reported_def)

lemma record_append: "record_settled_trades ids (xs @ ys) s = record_settled_trades ids ys (record_settled_trades ids xs s)"
  by (simp add: record_settled_trades_def)

lemma map_of_record:
  "i \<in> set ids \<Longrightarrow> map_of (record_settled_trades ids ts s) i
     = (case find (\<lambda>t. tr_id t = i \<and> tr_status t \<in> {''CONFIRMED'', ''FAILED''}) (rev ts) of
          None \<Rightarrow> map_of s i | Some t \<Rightarrow> Some t)"
proof (induction ts rule: rev_induct)
  case (snoc t ts)
  then show ?case by (auto simp: record_settled_trades_def is_trade_settled_def)
qed (simp add: record_settled_trades_def)

lemma poll_logged:
  "poll_trades (logged_settlement c) ids is s (w, past) = (Ok s', (w', past')) \<Longrightarrow>
     \<exists>new. past' = past @ new \<and> s' = record_settled_trades ids (reported c new) s"
proof (induction "is" arbitrary: s w past)
  case Nil
  then show ?case by (simp add: record_settled_trades_def)
next
  case (Cons i "is")
  obtain path ps where req: "build_list_account_trades_request PNone PNone (PStr i) PNone PNone PNone PNone PNone = Ok (path, ps)"
    using Cons.prems by (auto simp: bindS_app split: sum.splits)
  obtain v w1 where g: "sc_get_json c path ps w = (Ok v, w1)"
    using Cons.prems
    by (cases "sc_get_json c path ps w"; cases "fst (sc_get_json c path ps w)")
       (auto simp: bindS_app req logged_settlement_def)
  obtain page where page: "parse_account_trades_page (sc_parse_trades c) v = Ok page"
    using Cons.prems
    by (cases "parse_account_trades_page (sc_parse_trades c) v") (auto simp: bindS_app req g logged_settlement_def)
  have "poll_trades (logged_settlement c) ids is (record_settled_trades ids (page_items page) s) (w1, past @ [v])
      = (Ok s', (w', past'))"
    using Cons.prems by (simp add: bindS_app req g page) (simp add: logged_settlement_def g page bindS_app)
  from Cons.IH [OF this] obtain new where "past' = (past @ [v]) @ new"
    "s' = record_settled_trades ids (reported c new) (record_settled_trades ids (page_items page) s)" by blast
  moreover have "reported c (v # new) = page_items page @ reported c new" by (simp add: reported_def page)
  ultimately show ?case by (intro exI [of _ "v # new"]) (simp add: record_append)
qed

definition logged_post ::
  "('w \<times> pyval list) settlement_client \<Rightarrow> string list \<Rightarrow> settled \<Rightarrow> 'w \<times> pyval list \<Rightarrow>
     settled res \<times> ('w \<times> pyval list) \<Rightarrow> bool" where
  "logged_post lc ids s w y \<longleftrightarrow> (\<forall>c s'. lc = logged_settlement c \<longrightarrow> fst y = Ok s' \<longrightarrow>
     (\<exists>new. snd (snd y) = snd w @ new \<and> s' = record_settled_trades ids (reported c new) s))"

lemma logged_step:
  assumes IH: "\<And>c ids deadline s w y. self c ids deadline s w = Some y \<Longrightarrow> logged_post c ids s w y"
    and body: "(case poll_trades c ids (pending_trade_ids ids s) s w of
        (Inl e, w1) \<Rightarrow> Some (Raise e, w1)
      | (Inr s1, w1) \<Rightarrow>
          if length s1 = length ids then Some (Ok s1, w1)
          else if deadline \<le> sc_monotonic c w1 then Some (Raise TimeoutError, w1)
          else self c ids deadline s1 (sc_sleep c SETTLEMENT_POLL_DELAY_S w1)) = Some y"
  shows "logged_post c ids s w y"
  unfolding logged_post_def
proof (intro allI impI)
  fix c0 s' assume c: "c = logged_settlement c0" and y: "fst y = Ok s'"
  obtain r w1 where p: "poll_trades c ids (pending_trade_ids ids s) s w = (r, w1)"
    by (cases "poll_trades c ids (pending_trade_ids ids s) s w")
  obtain s1 where r: "r = Ok s1" using body y p by (cases r) auto
  obtain new where new: "snd w1 = snd w @ new" "s1 = record_settled_trades ids (reported c0 new) s"
    using poll_logged [of c0 ids "pending_trade_ids ids s" s "fst w" "snd w" s1 "fst w1" "snd w1"] p r c by auto
  show "\<exists>new. snd (snd y) = snd w @ new \<and> s' = record_settled_trades ids (reported c0 new) s"
  proof (cases "length s1 = length ids \<or> deadline \<le> sc_monotonic c w1")
    case True
    then have "y = (Ok s1, w1)" using body y p r by (auto split: if_splits)
    then show ?thesis using new y by auto
  next
    case False
    then have "self c ids deadline s1 (sc_sleep c SETTLEMENT_POLL_DELAY_S w1) = Some y" using body p r by simp
    from IH [OF this] obtain new' where "snd (snd y) = snd (sc_sleep c SETTLEMENT_POLL_DELAY_S w1) @ new'"
      "s' = record_settled_trades ids (reported c0 new') s1"
      using c y unfolding logged_post_def by blast
    then show ?thesis using new by (intro exI [of _ "new @ new'"]) (simp add: c logged_settlement_def record_append)
  qed
qed

lemma settle_loop_logged: "settle_loop c ids deadline s w = Some y \<Longrightarrow> logged_post c ids s w y"
  by (rule settle_loop.raw_induct [of "\<lambda>c ids deadline s w y. logged_post c ids s w y"]) (rule logged_step)

text \<open>C16: When waiting for a matched order returns hashes, the server has reported a final outcome,
  confirmed or failed, for every fill of the order, and the hashes are those that its last final report
  gives for the confirmed fills, each once. There is at least one, since an order all of whose fills failed
  is an error. The answers are all that the server sent, in their order.\<close>

theorem settlement_hashes:
  assumes "wait_for_order_fill_settlement (logged_settlement c) order timeout (w, []) = Some (Ok hashes, (w', answers))"
    and "ao_trade_ids order \<noteq> []"
  shows "(\<forall>i\<in>set (ao_trade_ids order). last_outcome c answers i \<noteq> None)
    \<and> set hashes = {tr_transaction_hash t | t. tr_status t = ''CONFIRMED''
        \<and> (\<exists>i\<in>set (ao_trade_ids order). last_outcome c answers i = Some t)}
    \<and> distinct hashes \<and> hashes \<noteq> []"
proof -
  let ?ids = "fromkeys (ao_trade_ids order)" and ?c = "logged_settlement c"
  have ne: "?ids \<noteq> []" using assms(2) by (metis set_empty set_fromkeys)
  obtain s where s: "settle_loop ?c ?ids (sc_monotonic ?c (w, []) + timeout) [] (w, []) = Some (Ok s, (w', answers))"
      "collect_settlement_hashes ?ids s = Ok hashes"
    using assms(1) ne by (auto simp: wait_for_order_fill_settlement_def Let_def split: option.splits sum.splits)
  have ok: "settled_ok ?ids s" "length s = length ?ids"
    using settle_loop_post [OF s(1)] settled_ok_Nil by (auto simp: settle_post_def)
  have all: "\<forall>i\<in>set ?ids. map_of s i \<noteq> None" by (rule settled_complete [OF ok(1) _ ok(2)]) simp
  have rec: "s = record_settled_trades ?ids (reported c answers) []"
    using settle_loop_logged [OF s(1)] by (auto simp: logged_post_def)
  have last: "last_outcome c answers i = map_of s i" if "i \<in> set ?ids" for i
    unfolding last_outcome_def rec map_of_record [OF that] by (simp split: option.splits)
  have failed: "tr_status t = ''CONFIRMED'' \<longleftrightarrow> \<not> is_failed_trade t" if "map_of s i = Some t" for i t
    using that ok(1) by (auto simp: settled_ok_def is_trade_settled_def is_failed_trade_def)
  have trades: "List.map_filter (map_of s) ?ids = map (\<lambda>i. the (map_of s i)) ?ids" by (rule map_filter_all [OF all])
  have h: "\<not> list_all is_failed_trade (map (\<lambda>i. the (map_of s i)) ?ids)"
    "hashes = fromkeys (map tr_transaction_hash (filter (\<lambda>t. \<not> is_failed_trade t) (map (\<lambda>i. the (map_of s i)) ?ids)))"
    using s(2) ne by (auto simp: collect_settlement_hashes_def trades Let_def split: if_splits)
  have set_h: "set hashes = {tr_transaction_hash t | t. tr_status t = ''CONFIRMED''
        \<and> (\<exists>i\<in>set (ao_trade_ids order). last_outcome c answers i = Some t)}"
  proof (intro set_eqI iffI)
    fix x assume "x \<in> set hashes"
    then obtain i where i: "i \<in> set ?ids" "\<not> is_failed_trade (the (map_of s i))" "x = tr_transaction_hash (the (map_of s i))"
      unfolding h(2) by auto
    obtain t where t: "map_of s i = Some t" using all i(1) by blast
    have "tr_status t = ''CONFIRMED''" "last_outcome c answers i = Some t" "x = tr_transaction_hash t"
      using failed [OF t] last [OF i(1)] i t by simp_all
    then show "x \<in> {tr_transaction_hash t | t. tr_status t = ''CONFIRMED''
        \<and> (\<exists>i\<in>set (ao_trade_ids order). last_outcome c answers i = Some t)}" using i(1) by auto
  next
    fix x assume "x \<in> {tr_transaction_hash t | t. tr_status t = ''CONFIRMED''
        \<and> (\<exists>i\<in>set (ao_trade_ids order). last_outcome c answers i = Some t)}"
    then obtain t i where i: "x = tr_transaction_hash t" "tr_status t = ''CONFIRMED''" "i \<in> set ?ids"
      "last_outcome c answers i = Some t" by auto
    have t: "map_of s i = Some t" using i(4) last [OF i(3)] by simp
    then have "t \<in> set (filter (\<lambda>t. \<not> is_failed_trade t) (map (\<lambda>i. the (map_of s i)) ?ids))"
      using failed [OF t] i(2,3) by (auto intro!: image_eqI [of _ _ i])
    then show "x \<in> set hashes" unfolding h(2) i(1) set_fromkeys set_map by (rule imageI)
  qed
  have "hashes \<noteq> []"
  proof -
    obtain i where i: "i \<in> set ?ids" "\<not> is_failed_trade (the (map_of s i))" using h(1) by (auto simp: list_all_iff)
    then have "tr_transaction_hash (the (map_of s i)) \<in> set hashes" unfolding h(2) by auto
    then show ?thesis by auto
  qed
  moreover have "distinct hashes" by (simp add: h(2))
  ultimately show ?thesis using set_h all last by simp
qed

section \<open>The end of the loop\<close>

text \<open>The laws of the clock: requests do not turn it back, and a sleep takes its time.\<close>

definition clock_advances :: "'w settlement_client \<Rightarrow> bool" where
  "clock_advances c \<longleftrightarrow>
     (\<forall>path ps w. sc_monotonic c w \<le> sc_monotonic c (snd (sc_get_json c path ps w)))
   \<and> (\<forall>d w. sc_monotonic c w + d \<le> sc_monotonic c (sc_sleep c d w))"

lemma poll_clock: "clock_advances c \<Longrightarrow> sc_monotonic c w \<le> sc_monotonic c (snd (poll_trades c ids is s w))"
proof (induction c ids "is" s arbitrary: w rule: poll_trades.induct)
  case (2 c ids i "is" s)
  show ?case
  proof (cases "build_list_account_trades_request PNone PNone (PStr i) PNone PNone PNone PNone PNone")
    case (Inr req)
    obtain path ps where req: "req = (path, ps)" by (cases req)
    obtain r w1 where g: "sc_get_json c path ps w = (r, w1)" by (cases "sc_get_json c path ps w")
    have le: "sc_monotonic c w \<le> sc_monotonic c w1" using 2(2) g unfolding clock_advances_def by (metis snd_conv)
    show ?thesis
    proof (cases "bindE r (parse_account_trades_page (sc_parse_trades c))")
      case (Inl e)
      then have "snd (poll_trades c ids (i # is) s w) = w1"
        by (cases r) (simp_all add: bindS_app Inr req g)
      then show ?thesis using le by simp
    next
      case page: (Inr page)
      then have "poll_trades c ids (i # is) s w = poll_trades c ids is (record_settled_trades ids (page_items page) s) w1"
        by (cases r) (simp_all add: bindS_app Inr req g)
      then show ?thesis using le 2 page by (metis order.trans)
    qed
  qed (simp add: bindS_app)
qed simp

lemma settle_loop_ends:
  assumes "clock_advances c"
  shows "deadline \<le> sc_monotonic c w + of_nat n / 4 \<Longrightarrow> \<exists>y. settle_loop c ids deadline s w = Some y"
proof (induction n arbitrary: s w)
  case 0
  then show ?case using poll_clock [OF assms, of w ids "pending_trade_ids ids s" s]
    by (subst settle_loop.simps) (auto split: prod.splits sum.splits)
next
  case (Suc n)
  obtain r w1 where p: "poll_trades c ids (pending_trade_ids ids s) s w = (r, w1)"
    by (cases "poll_trades c ids (pending_trade_ids ids s) s w")
  have "sc_monotonic c w1 + 1/4 \<le> sc_monotonic c (sc_sleep c SETTLEMENT_POLL_DELAY_S w1)"
    using assms unfolding clock_advances_def SETTLEMENT_POLL_DELAY_S_def by blast
  moreover have "sc_monotonic c w \<le> sc_monotonic c w1"
    using poll_clock [OF assms, of w ids "pending_trade_ids ids s" s] p by simp
  ultimately have "deadline \<le> sc_monotonic c (sc_sleep c SETTLEMENT_POLL_DELAY_S w1) + of_nat n / 4"
    using Suc.prems by (simp add: add_divide_distrib)
  from Suc.IH [OF this] have "\<exists>y. settle_loop c ids deadline (projr r) (sc_sleep c SETTLEMENT_POLL_DELAY_S w1) = Some y" .
  then show ?case by (subst settle_loop.simps) (auto simp: p split: sum.splits)
qed

text \<open>C17: Waiting for settlement ends, with hashes or an error, whenever the clock advances: at the latest
  in the round after the deadline.\<close>

theorem settlement_terminates:
  assumes "clock_advances c"
  shows "\<exists>r w'. wait_for_order_fill_settlement c order timeout w = Some (r, w')"
proof -
  obtain n :: nat where n: "timeout * 4 \<le> of_nat n" using real_arch_simple by blast
  have "sc_monotonic c w + timeout \<le> sc_monotonic c w + of_nat n / 4" using n by simp
  then have "\<exists>y. settle_loop c (fromkeys (ao_trade_ids order)) (sc_monotonic c w + timeout) [] w = Some y"
    by (rule settle_loop_ends [OF assms])
  then obtain r w' where "settle_loop c (fromkeys (ao_trade_ids order)) (sc_monotonic c w + timeout) [] w = Some (r, w')"
    by auto
  then show ?thesis by (cases r) (simp_all add: wait_for_order_fill_settlement_def Let_def)
qed

text \<open>A server that fails one trade and confirms the others, and a clock that requests do not advance.\<close>

definition demo_settlement :: "rat settlement_client" where
  "demo_settlement = \<lparr>
     sc_get_json = (\<lambda>_ ps w. (Ok (PDict [(''data'', PList [dict_get ''id'' ps]), (''next_cursor'', PStr ''LTE='')]), w)),
     sc_parse_trades = (\<lambda>v. case v of PList [PStr i] \<Rightarrow>
        Some [\<lparr>tr_id = i, tr_status = (if i = ''a'' then ''FAILED'' else ''CONFIRMED''), tr_transaction_hash = Some (''0x'' @ i)\<rparr>]
      | _ \<Rightarrow> None),
     sc_monotonic = (\<lambda>w. w), sc_sleep = (\<lambda>d w. w + d)\<rparr>"

definition demo_accepted :: accepted_order where
  "demo_accepted = \<lparr>ao_order_id = ''1'', ao_status = ''matched'', ao_making_amount = Dec 1 0, ao_taking_amount = Dec 1 0,
     ao_trade_ids = [''a'', ''b'', ''b''], ao_transactions_hashes = []\<rparr>"

lemma demo_poll:
  "poll_trades (logged_settlement demo_settlement) [''a'', ''b''] [''a'', ''b''] [] (0, [])
    = (Ok [(''a'', \<lparr>tr_id = ''a'', tr_status = ''FAILED'', tr_transaction_hash = Some ''0xa''\<rparr>),
           (''b'', \<lparr>tr_id = ''b'', tr_status = ''CONFIRMED'', tr_transaction_hash = Some ''0xb''\<rparr>)],
       (0, [PDict [(''data'', PList [PStr ''a'']), (''next_cursor'', PStr ''LTE='')],
            PDict [(''data'', PList [PStr ''b'']), (''next_cursor'', PStr ''LTE='')]]))"
  by code_simp

lemma demo_settles:
  "wait_for_order_fill_settlement (logged_settlement demo_settlement) demo_accepted 30 (0, [])
     = Some (Ok [Some ''0xb''], (0, [PDict [(''data'', PList [PStr ''a'']), (''next_cursor'', PStr ''LTE='')],
            PDict [(''data'', PList [PStr ''b'']), (''next_cursor'', PStr ''LTE='')]]))"
proof -
  have ids: "fromkeys (ao_trade_ids demo_accepted) = [''a'', ''b'']" by (simp add: demo_accepted_def)
  have "pending_trade_ids [''a'', ''b''] [] = [''a'', ''b'']" by (simp add: pending_trade_ids_def)
  note loop = settle_loop.simps [of "logged_settlement demo_settlement" "[''a'', ''b'']" 30 "[]" "(0, [])",
    unfolded this demo_poll prod.case sum.case]
  have "sc_monotonic (logged_settlement demo_settlement) (0, []) + 30 = 30"
    by (simp add: demo_settlement_def logged_settlement_def)
  then show ?thesis unfolding wait_for_order_fill_settlement_def ids Let_def
    by (simp add: loop collect_settlement_hashes_def is_failed_trade_def List.map_filter_def)
qed

theorem settlement_hashes_witness:
  "\<exists>answers. wait_for_order_fill_settlement (logged_settlement demo_settlement) demo_accepted 30 (0, [])
      = Some (Ok [Some ''0xb''], (0, answers))
    \<and> {Some ''0xb''} = {tr_transaction_hash t | t. tr_status t = ''CONFIRMED''
        \<and> (\<exists>i\<in>{''a'', ''b''}. last_outcome demo_settlement answers i = Some t)}"
proof -
  have ids: "ao_trade_ids demo_accepted \<noteq> []" "set (ao_trade_ids demo_accepted) = {''a'', ''b''}"
    by (simp_all add: demo_accepted_def)
  note h = settlement_hashes [OF demo_settles ids(1), unfolded ids(2)]
  show ?thesis
    by (rule exI, rule conjI [OF demo_settles]) (use conjunct1 [OF conjunct2 [OF h]] in \<open>simp only: list.set\<close>)
qed

theorem settlement_terminates_witness:
  "\<exists>r w'. wait_for_order_fill_settlement demo_settlement demo_accepted 30 0 = Some (r, w')"
  by (rule settlement_terminates) (simp add: clock_advances_def demo_settlement_def)

end
