(* ===== verification/Subscription_Handle.thy ===== *)
theory Subscription_Handle imports Prelude "HOL-Library.Sublist" begin

text \<open>
  The two queues events wait in before a consumer reads them: \<open>AsyncSubscriptionHandle\<close> of
  \<open>_internal/streams/handle.py\<close>, one per subscription, and \<open>MergedSubscriptionHandle\<close> of
  \<open>_internal/streams/merged_handle.py\<close>, which pumps several handles into one. Both keep a bounded
  \<open>asyncio.Queue\<close> whose oldest item makes room for a new one. The locale \<open>drop_oldest\<close> states what
  this policy promises, and is interpreted on both.

  The calls of a handle run to completion between two points where the event loop may switch, so
  each is one step; a consumer that would have to wait is the outcome \<open>Blocked\<close>.
\<close>

section \<open>Queues that drop their oldest item\<close>

definition keep_last :: "nat \<Rightarrow> 'a list \<Rightarrow> 'a list" where
  "keep_last n xs = drop (length xs - n) xs"

lemma length_keep_last [simp]: "length (keep_last n xs) = min n (length xs)"
  by (simp add: keep_last_def)

lemma keep_last_append_keep_last: "keep_last n (keep_last n xs @ ys) = keep_last n (xs @ ys)"
  by (cases "length xs \<le> n") (auto simp: keep_last_def add.commute)

lemma subseq_keep_last: "subseq (keep_last n xs) xs"
  unfolding keep_last_def by (rule suffix_imp_subseq) (rule suffix_drop)

lemma keep_last_all [simp]: "length xs \<le> n \<Longrightarrow> keep_last n xs = xs"
  by (simp add: keep_last_def)

text \<open>\<open>put\<close> adds an item to a queue of bounded length, whose \<open>items\<close> wait in order and whose lost items
  are counted.\<close>

locale drop_oldest =
  fixes put :: "'i \<Rightarrow> 'q \<Rightarrow> 'q"
    and items :: "'q \<Rightarrow> 'i list"
    and bound lost :: "'q \<Rightarrow> nat"
    and open_queue :: "'q \<Rightarrow> bool"
  assumes items_put: "open_queue q \<Longrightarrow> items (put x q) = keep_last (bound q) (items q @ [x])"
    and lost_put: "open_queue q \<Longrightarrow> lost (put x q) = lost q + (if length (items q) < bound q then 0 else 1)"
    and bound_put: "open_queue q \<Longrightarrow> bound (put x q) = bound q"
    and open_put: "open_queue q \<Longrightarrow> open_queue (put x q)"
    and fits: "open_queue q \<Longrightarrow> length (items q) \<le> bound q"
begin

lemma put_all:
  assumes "open_queue q"
  shows "items (fold put xs q) = keep_last (bound q) (items q @ xs)"
    and "lost (fold put xs q) = lost q + (length (items q) + length xs - bound q)"
    and "open_queue (fold put xs q)" "bound (fold put xs q) = bound q"
proof -
  have "items (fold put xs q) = keep_last (bound q) (items q @ xs)
      \<and> lost (fold put xs q) = lost q + (length (items q) + length xs - bound q)
      \<and> open_queue (fold put xs q) \<and> bound (fold put xs q) = bound q"
    using assms
  proof (induction xs arbitrary: q)
    case Nil
    then show ?case using fits [of q] by simp
  next
    case (Cons x xs)
    have "length (items (put x q)) = min (bound q) (Suc (length (items q)))"
      by (simp add: items_put [OF Cons.prems])
    then show ?case
      using Cons.IH [OF open_put [OF Cons.prems, of x]] fits [OF Cons.prems]
      by (auto simp: bound_put lost_put items_put keep_last_append_keep_last Cons.prems)
  qed
  then show "items (fold put xs q) = keep_last (bound q) (items q @ xs)"
    and "lost (fold put xs q) = lost q + (length (items q) + length xs - bound q)"
    and "open_queue (fold put xs q)" "bound (fold put xs q) = bound q" by simp_all
qed

end

section \<open>asyncio.Queue\<close>

text \<open>\<open>put_nowait\<close> and \<open>get_nowait\<close>, with \<open>None\<close> for \<open>QueueFull\<close> and \<open>QueueEmpty\<close>.\<close>

definition put_nowait :: "nat \<Rightarrow> 'i \<Rightarrow> 'i list \<Rightarrow> 'i list option" where
  "put_nowait maxsize x q = (if length q < maxsize then Some (q @ [x]) else None)"

definition get_nowait :: "'i list \<Rightarrow> ('i \<times> 'i list) option" where
  "get_nowait q = (case q of [] \<Rightarrow> None | x # r \<Rightarrow> Some (x, r))"

datatype 'e item = Event 'e | EndItem

fun pending :: "'e item list \<Rightarrow> 'e list" where
  "pending [] = []"
| "pending (Event e # q) = e # pending q"
| "pending (EndItem # q) = pending q"

lemma pending_append [simp]: "pending (q @ r) = pending q @ pending r"
  by (induction q rule: pending.induct) simp_all

lemma pending_map_Event [simp]: "pending (map Event es) = es"
  by (induction es) simp_all

text \<open>What a consumer sees of \<open>__anext__\<close>: an item, the end of the iteration, or nothing yet.\<close>

datatype 'e received = Item 'e | Stopped | Failed py_error | Blocked

definition end_of_stream :: "py_error option \<Rightarrow> 'e received" where
  "end_of_stream error = (case error of None \<Rightarrow> Stopped | Some e \<Rightarrow> Failed e)"

section \<open>The handle of a subscription\<close>

record 'e handle =
  h_queue :: "'e item list"
  h_maxsize :: nat
  h_ended :: bool
  h_dropped :: nat
  h_end_error :: "py_error option"

definition new_handle :: "int \<Rightarrow> 'e handle res" where
  "new_handle queue_size =
     (if queue_size \<le> 0 then Raise ValueError
      else Ok \<lparr>h_queue = [], h_maxsize = nat queue_size, h_ended = False, h_dropped = 0, h_end_error = None\<rparr>)"

definition push :: "'e \<Rightarrow> 'e handle \<Rightarrow> 'e handle" where
  "push event h =
     (if h_ended h then h
      else case put_nowait (h_maxsize h) (Event event) (h_queue h) of
        Some q \<Rightarrow> h\<lparr>h_queue := q\<rparr>
      | None \<Rightarrow>
          let h = (case get_nowait (h_queue h) of
                     None \<Rightarrow> h
                   | Some (_, q) \<Rightarrow> h\<lparr>h_queue := q, h_dropped := h_dropped h + 1\<rparr>)
          in case put_nowait (h_maxsize h) (Event event) (h_queue h) of
               Some q \<Rightarrow> h\<lparr>h_queue := q\<rparr>
             | None \<Rightarrow> h\<lparr>h_dropped := h_dropped h + 1\<rparr>)"

text \<open>A last \<open>put_nowait\<close> outside a \<open>try\<close> cannot find the queue full, because an item was just taken
  out (lemma \<open>end_handle_ok\<close>); it is written with the queue left as it is in that case.\<close>

definition put_end :: "'e handle \<Rightarrow> 'e handle" where
  "put_end h = (case put_nowait (h_maxsize h) EndItem (h_queue h) of Some q \<Rightarrow> h\<lparr>h_queue := q\<rparr> | None \<Rightarrow> h)"

definition end_handle :: "py_error option \<Rightarrow> bool \<Rightarrow> 'e handle \<Rightarrow> 'e handle" where
  "end_handle error discard_pending h =
     (let h = (if discard_pending then h\<lparr>h_queue := []\<rparr> else h) in
      if h_ended h then (if discard_pending then put_end h else h)
      else
        let h = h\<lparr>h_ended := True, h_end_error := error\<rparr> in
        case put_nowait (h_maxsize h) EndItem (h_queue h) of
          Some q \<Rightarrow> h\<lparr>h_queue := q\<rparr>
        | None \<Rightarrow>
            put_end (case get_nowait (h_queue h) of
                       None \<Rightarrow> h
                     | Some (_, q) \<Rightarrow> h\<lparr>h_queue := q, h_dropped := h_dropped h + 1\<rparr>))"

definition anext :: "'e handle \<Rightarrow> 'e received \<times> 'e handle" where
  "anext h =
     (if h_ended h \<and> h_queue h = [] then (end_of_stream (h_end_error h), h)
      else case get_nowait (h_queue h) of
        None \<Rightarrow> (Blocked, h)
      | Some (Event e, q) \<Rightarrow> (Item e, h\<lparr>h_queue := q\<rparr>)
      | Some (EndItem, q) \<Rightarrow> (end_of_stream (h_end_error h), h\<lparr>h_queue := q\<rparr>))"

text \<open>What \<open>close\<close> leaves behind, once the callback of its owner has run.\<close>

definition do_close :: "'e handle \<Rightarrow> 'e handle" where
  "do_close h = end_handle None True h"

text \<open>A handle has room, holds events in their order and, once it has ended, at most the end mark
  after them.\<close>

definition handle_ok :: "'e handle \<Rightarrow> bool" where
  "handle_ok h \<longleftrightarrow>
     0 < h_maxsize h \<and> length (h_queue h) \<le> h_maxsize h
     \<and> (h_queue h = map Event (pending (h_queue h))
        \<or> h_ended h \<and> h_queue h = map Event (pending (h_queue h)) @ [EndItem])"

lemma handle_ok_cases:
  assumes "handle_ok h"
  obtains (waiting) es where "h_queue h = map Event es" "pending (h_queue h) = es" "length es \<le> h_maxsize h"
  | (marked) es where "h_ended h" "h_queue h = map Event es @ [EndItem]" "pending (h_queue h) = es"
      "length es < h_maxsize h"
  using assms unfolding handle_ok_def by (metis Suc_le_eq length_append_singleton length_map)

lemma handle_ok_open: "handle_ok h \<Longrightarrow> \<not> h_ended h \<Longrightarrow> h_queue h = map Event (pending (h_queue h))"
  by (auto simp: handle_ok_def)

lemma new_handle_ok: "new_handle n = Ok h \<Longrightarrow> handle_ok h \<and> \<not> h_ended h \<and> h_maxsize h = nat n"
  by (auto simp: new_handle_def handle_ok_def split: if_splits)

lemma push_open:
  assumes "handle_ok h" "\<not> h_ended h"
  shows "push e h = h\<lparr>h_queue := map Event (keep_last (h_maxsize h) (pending (h_queue h) @ [e])),
    h_dropped := h_dropped h + (if length (pending (h_queue h)) < h_maxsize h then 0 else 1)\<rparr>"
proof -
  obtain es where es: "h_queue h = map Event es" "pending (h_queue h) = es" "length es \<le> h_maxsize h"
    using assms by (auto elim: handle_ok_cases)
  have "0 < h_maxsize h" using assms(1) by (simp add: handle_ok_def)
  with es assms(2) show ?thesis
    by (cases es) (auto simp: push_def put_nowait_def get_nowait_def keep_last_def)
qed

lemma push_ended [simp]: "h_ended h \<Longrightarrow> push e h = h"
  by (simp add: push_def)

lemma push_ok [simp, intro]: "handle_ok h \<Longrightarrow> handle_ok (push e h)"
proof (cases "h_ended h")
  case False
  assume h: "handle_ok h"
  then have "handle_ok (h\<lparr>h_queue := map Event (keep_last (h_maxsize h) es), h_dropped := d\<rparr>)" for es d
    by (simp add: handle_ok_def)
  then show ?thesis by (simp only: push_open [OF h False])
qed simp

lemma h_ended_push [simp]: "handle_ok h \<Longrightarrow> h_ended (push e h) = h_ended h"
  by (cases "h_ended h") (simp_all add: push_open)

interpretation handle: drop_oldest push "\<lambda>h. pending (h_queue h)" h_maxsize h_dropped
  "\<lambda>h. handle_ok h \<and> \<not> h_ended h"
proof unfold_locales
  fix h :: "'e handle" assume h: "handle_ok h \<and> \<not> h_ended h"
  then show "length (pending (h_queue h)) \<le> h_maxsize h"
    by (metis handle_ok_cases order.strict_implies_order)
  fix e
  show "handle_ok (push e h) \<and> \<not> h_ended (push e h)" using h push_ok [of h e] by (simp add: push_open)
qed (simp_all add: push_open)

lemma end_handle_ok:
  assumes "handle_ok h"
  shows "handle_ok (end_handle error discard h)" "h_ended (end_handle error discard h)"
proof -
  have pos: "0 < h_maxsize h" using assms by (simp add: handle_ok_def)
  show "handle_ok (end_handle error discard h)"
    using assms pos
    by (cases h rule: handle_ok_cases; cases "pending (h_queue h)")
       (auto simp: end_handle_def put_end_def put_nowait_def get_nowait_def handle_ok_def Let_def)
  show "h_ended (end_handle error discard h)"
    by (auto simp: end_handle_def put_end_def Let_def split: option.splits)
qed

text \<open>Ending an open handle without discarding: at most one event is lost, to make room.\<close>

lemma end_handle_pending:
  assumes "handle_ok h" "\<not> h_ended h"
  shows "pending (h_queue (end_handle error False h)) = keep_last (h_maxsize h - 1) (pending (h_queue h))"
    and "h_dropped (end_handle error False h)
      = h_dropped h + (if length (pending (h_queue h)) < h_maxsize h then 0 else 1)"
    and "h_end_error (end_handle error False h) = error"
proof -
  obtain es where es: "h_queue h = map Event es" "pending (h_queue h) = es" "length es \<le> h_maxsize h"
    using assms by (auto elim: handle_ok_cases)
  have "0 < h_maxsize h" using assms(1) by (simp add: handle_ok_def)
  with es assms(2)
  have "pending (h_queue (end_handle error False h)) = keep_last (h_maxsize h - 1) es
      \<and> h_dropped (end_handle error False h) = h_dropped h + (if length es < h_maxsize h then 0 else 1)
      \<and> h_end_error (end_handle error False h) = error"
    by (cases es) (auto simp: end_handle_def put_end_def put_nowait_def get_nowait_def keep_last_def Let_def)
  then show "pending (h_queue (end_handle error False h)) = keep_last (h_maxsize h - 1) (pending (h_queue h))"
    and "h_dropped (end_handle error False h)
      = h_dropped h + (if length (pending (h_queue h)) < h_maxsize h then 0 else 1)"
    and "h_end_error (end_handle error False h) = error" using es(2) by simp_all
qed

lemma end_handle_again: "h_ended h \<Longrightarrow> end_handle error False h = h"
  by (simp add: end_handle_def)

lemma do_close_pending [simp]: "pending (h_queue (do_close h)) = []" "h_dropped (do_close h) = h_dropped h"
  by (auto simp: do_close_def end_handle_def put_end_def put_nowait_def get_nowait_def Let_def split: option.splits)

lemma anext_cases:
  assumes "handle_ok h"
  obtains (item) e es where "pending (h_queue h) = e # es" "fst (anext h) = Item e"
      "pending (h_queue (snd (anext h))) = es" "h_dropped (snd (anext h)) = h_dropped h"
      "h_end_error (snd (anext h)) = h_end_error h"
  | (ended) "h_ended h" "pending (h_queue h) = []" "fst (anext h) = end_of_stream (h_end_error h)"
      "snd (anext h) = h\<lparr>h_queue := []\<rparr>"
  | (wait) "\<not> h_ended h" "pending (h_queue h) = []" "anext h = (Blocked, h)"
  using assms
proof (cases h rule: handle_ok_cases)
  case (waiting es)
  then show thesis
    using item ended wait by (cases es) (auto simp: anext_def get_nowait_def)
next
  case (marked es)
  then show thesis using item ended by (cases es) (auto simp: anext_def get_nowait_def)
qed

lemma anext_ok: "handle_ok h \<Longrightarrow> handle_ok (snd (anext h)) \<and> h_ended (snd (anext h)) = h_ended h
    \<and> h_maxsize (snd (anext h)) = h_maxsize h"
proof -
  assume h: "handle_ok h"
  then have pos: "0 < h_maxsize h" by (simp add: handle_ok_def)
  from h show ?thesis
  proof (cases h rule: handle_ok_cases)
    case (waiting es)
    with h show ?thesis
      by (cases es) (auto simp: anext_def get_nowait_def handle_ok_def)
  next
    case (marked es)
    with h pos show ?thesis
      by (cases es) (auto simp: anext_def get_nowait_def handle_ok_def)
  qed
qed

section \<open>Runs of a handle\<close>

text \<open>The calls a stream manager and a consumer make on one handle, with what the handle accepted,
  what the consumer received, and how many waiting events a close threw away.\<close>

datatype 'e handle_call = Push 'e | EndStream "py_error option" | Receive | CloseHandle

record 'e handle_run =
  r_handle :: "'e handle"
  r_accepted :: "'e list"
  r_received :: "'e list"
  r_discarded :: nat

fun apply_call :: "'e handle_call \<Rightarrow> 'e handle_run \<Rightarrow> 'e handle_run" where
  "apply_call (Push e) r = r\<lparr>r_handle := push e (r_handle r),
     r_accepted := (if h_ended (r_handle r) then r_accepted r else r_accepted r @ [e])\<rparr>"
| "apply_call (EndStream error) r = r\<lparr>r_handle := end_handle error False (r_handle r)\<rparr>"
| "apply_call Receive r =
     (case anext (r_handle r) of
        (Item e, h) \<Rightarrow> r\<lparr>r_handle := h, r_received := r_received r @ [e]\<rparr>
      | (_, h) \<Rightarrow> r\<lparr>r_handle := h\<rparr>)"
| "apply_call CloseHandle r = r\<lparr>r_handle := do_close (r_handle r),
     r_discarded := r_discarded r + length (pending (h_queue (r_handle r)))\<rparr>"

definition start_run :: "'e handle \<Rightarrow> 'e handle_run" where
  "start_run h = \<lparr>r_handle = h, r_accepted = [], r_received = [], r_discarded = 0\<rparr>"

definition run_ok :: "'e handle_run \<Rightarrow> bool" where
  "run_ok r \<longleftrightarrow> handle_ok (r_handle r)
     \<and> subseq (r_received r @ pending (h_queue (r_handle r))) (r_accepted r)
     \<and> length (r_accepted r) = length (r_received r) + length (pending (h_queue (r_handle r)))
         + h_dropped (r_handle r) + r_discarded r"

lemma subseq_shorten: "subseq (xs @ ys) zs \<Longrightarrow> subseq ys' ys \<Longrightarrow> subseq (xs @ ys') zs"
  by (meson list_emb_append_mono subseq_order.dual_order.refl subseq_order.dual_order.trans)

lemma run_ok_push:
  assumes "run_ok r"
  shows "run_ok (apply_call (Push e) r)"
proof (cases "h_ended (r_handle r)")
  case False
  let ?h = "r_handle r"
  let ?p = "pending (h_queue ?h)"
  have ok: "handle_ok ?h" using assms by (simp add: run_ok_def)
  have "subseq ((r_received r @ ?p) @ [e]) (r_accepted r @ [e])"
    using assms by (intro list_emb_append_mono) (auto simp: run_ok_def)
  then have s: "subseq (r_received r @ keep_last (h_maxsize ?h) (?p @ [e])) (r_accepted r @ [e])"
    using subseq_shorten [OF _ subseq_keep_last] by simp
  have "length ?p \<le> h_maxsize ?h" using handle.fits ok False by blast
  then show ?thesis using assms s False push_ok [OF ok, of e]
    by (simp add: run_ok_def push_open [OF ok False] min_def)
qed (use assms in \<open>simp add: run_ok_def\<close>)

lemma run_ok_end:
  assumes "run_ok r"
  shows "run_ok (apply_call (EndStream error) r)"
proof (cases "h_ended (r_handle r)")
  case False
  let ?h = "r_handle r"
  have ok: "handle_ok ?h" using assms by (simp add: run_ok_def)
  have "length (pending (h_queue ?h)) \<le> h_maxsize ?h" "0 < h_maxsize ?h"
    using handle.fits ok False by (blast, simp add: handle_ok_def)
  then show ?thesis
    using assms end_handle_ok(1) [OF ok]
      subseq_shorten [OF _ subseq_keep_last, of "r_received r" "pending (h_queue ?h)" "r_accepted r"]
    by (auto simp: run_ok_def end_handle_pending [OF ok False])
qed (use assms in \<open>simp add: run_ok_def end_handle_again\<close>)

lemma run_ok_call: "run_ok r \<Longrightarrow> run_ok (apply_call c r)"
proof (cases c)
  case Receive
  assume r: "run_ok r"
  then have ok: "handle_ok (r_handle r)" by (simp add: run_ok_def)
  obtain o' h where a: "anext (r_handle r) = (o', h)" by (cases "anext (r_handle r)")
  from ok show ?thesis
  proof (cases "r_handle r" rule: anext_cases)
    case (item e es)
    with r a Receive anext_ok [OF ok] show ?thesis by (simp add: run_ok_def)
  next
    case ended
    with r a Receive anext_ok [OF ok] show ?thesis
      by (cases "h_end_error (r_handle r)") (auto simp: run_ok_def end_of_stream_def)
  next
    case wait
    with r a Receive show ?thesis by (simp add: run_ok_def)
  qed
next
  case CloseHandle
  assume r: "run_ok r"
  have "subseq (r_received r) (r_accepted r)"
    using r subseq_shorten [of "r_received r" "pending (h_queue (r_handle r))" "r_accepted r" "[]"] by (simp add: run_ok_def)
  with r CloseHandle show ?thesis
    by (simp add: run_ok_def end_handle_ok do_close_def [symmetric]) (simp add: do_close_def end_handle_ok)
qed (simp_all add: run_ok_push run_ok_end del: apply_call.simps)

lemma run_ok_calls: "run_ok r \<Longrightarrow> run_ok (fold apply_call cs r)"
  by (induction cs arbitrary: r) (simp_all add: run_ok_call)

lemma run_ok_start: "handle_ok h \<Longrightarrow> h_queue h = [] \<Longrightarrow> h_dropped h = 0 \<Longrightarrow> run_ok (start_run h)"
  by (simp add: run_ok_def start_run_def)

fun receive_times :: "nat \<Rightarrow> 'e handle \<Rightarrow> 'e received list" where
  "receive_times 0 h = []"
| "receive_times (Suc k) h = (let (r, h') = anext h in r # receive_times k h')"

lemma receive_times_ended:
  "handle_ok h \<Longrightarrow> h_ended h \<Longrightarrow> receive_times k h =
    map Item (take k (pending (h_queue h))) @ replicate (k - length (pending (h_queue h))) (end_of_stream (h_end_error h))"
proof (induction k arbitrary: h)
  case (Suc k)
  have ok: "handle_ok (snd (anext h))" "h_ended (snd (anext h))"
    using anext_ok [OF Suc.prems(1)] Suc.prems(2) by auto
  note IH = Suc.IH [OF ok]
  from Suc.prems(1) show ?case
  proof (cases h rule: anext_cases)
    case (item e es)
    with IH show ?thesis by (cases "anext h") simp
  next
    case ended
    with IH show ?thesis by (cases "anext h") simp
  qed (use Suc.prems in simp)
qed simp

section \<open>Merging handles\<close>

text \<open>The stages of \<open>close\<close>: the task that closes is created, closes the children, then stops the
  pumps and clears the queue.\<close>

datatype closing = NotClosing | CloseRequested | ChildrenClosed | Closed

record 'e merged =
  g_handles :: "'e handle list"
  g_pumping :: "bool list"
  g_queue :: "'e item list"
  g_maxsize :: nat
  g_dropped :: nat
  g_first_error :: "py_error option"
  g_closing :: closing

definition new_merged :: "'e handle list \<Rightarrow> int \<Rightarrow> 'e merged res" where
  "new_merged handles queue_size =
     (if handles = [] then Raise ValueError
      else if queue_size \<le> 0 then Raise ValueError
      else Ok \<lparr>g_handles = handles, g_pumping = map (\<lambda>_. True) handles, g_queue = [],
                g_maxsize = nat queue_size, g_dropped = 0, g_first_error = None, g_closing = NotClosing\<rparr>)"

definition open_pumps :: "'e merged \<Rightarrow> nat" where
  "open_pumps g = length (filter id (g_pumping g))"

definition put_or_drop :: "'e \<Rightarrow> 'e merged \<Rightarrow> 'e merged" where
  "put_or_drop event g =
     (case put_nowait (g_maxsize g) (Event event) (g_queue g) of
        Some q \<Rightarrow> g\<lparr>g_queue := q\<rparr>
      | None \<Rightarrow>
          let g = (case get_nowait (g_queue g) of
                     None \<Rightarrow> g
                   | Some (_, q) \<Rightarrow> g\<lparr>g_queue := q, g_dropped := g_dropped g + 1\<rparr>)
          in case put_nowait (g_maxsize g) (Event event) (g_queue g) of
               Some q \<Rightarrow> g\<lparr>g_queue := q\<rparr>
             | None \<Rightarrow> g\<lparr>g_dropped := g_dropped g + 1\<rparr>)"

definition enqueue_end :: "'e merged \<Rightarrow> 'e merged" where
  "enqueue_end g =
     (case put_nowait (g_maxsize g) EndItem (g_queue g) of
        Some q \<Rightarrow> g\<lparr>g_queue := q\<rparr>
      | None \<Rightarrow>
          let g = (case get_nowait (g_queue g) of
                     None \<Rightarrow> g
                   | Some (_, q) \<Rightarrow> g\<lparr>g_queue := q, g_dropped := g_dropped g + 1\<rparr>)
          in case put_nowait (g_maxsize g) EndItem (g_queue g) of Some q \<Rightarrow> g\<lparr>g_queue := q\<rparr> | None \<Rightarrow> g)"

text \<open>The \<open>except\<close> and \<open>finally\<close> clauses of a pump.\<close>

definition record_failure :: "py_error \<Rightarrow> 'e merged \<Rightarrow> 'e merged" where
  "record_failure e g =
     (if g_first_error g = None
      then g\<lparr>g_first_error := Some e,
             g_closing := (if g_closing g = NotClosing then CloseRequested else g_closing g)\<rparr>
      else g)"

definition finish_pump :: "nat \<Rightarrow> 'e merged \<Rightarrow> 'e merged" where
  "finish_pump i g =
     (let g = g\<lparr>g_pumping := (g_pumping g)[i := False]\<rparr> in
      if open_pumps g = 0 then enqueue_end g else g)"

definition pump :: "nat \<Rightarrow> 'e merged \<Rightarrow> 'e merged option" where
  "pump i g =
     (if i < length (g_pumping g) \<and> i < length (g_handles g) \<and> g_pumping g ! i then
        (case anext (g_handles g ! i) of
           (Item e, h) \<Rightarrow> Some (put_or_drop e (g\<lparr>g_handles := (g_handles g)[i := h]\<rparr>))
         | (Stopped, h) \<Rightarrow> Some (finish_pump i (g\<lparr>g_handles := (g_handles g)[i := h]\<rparr>))
         | (Failed e, h) \<Rightarrow> Some (finish_pump i (record_failure e (g\<lparr>g_handles := (g_handles g)[i := h]\<rparr>)))
         | (Blocked, h) \<Rightarrow> None)
      else None)"

definition merged_anext :: "'e merged \<Rightarrow> 'e received \<times> 'e merged" where
  "merged_anext g =
     (if g_closing g = Closed \<or> (open_pumps g = 0 \<and> g_queue g = []) then (end_of_stream (g_first_error g), g)
      else case get_nowait (g_queue g) of
        None \<Rightarrow> (Blocked, g)
      | Some (Event e, q) \<Rightarrow> (Item e, g\<lparr>g_queue := q\<rparr>)
      | Some (EndItem, q) \<Rightarrow> (end_of_stream (g_first_error g), g\<lparr>g_queue := q\<rparr>))"

definition merged_close :: "'e merged \<Rightarrow> 'e merged" where
  "merged_close g = (if g_closing g = NotClosing then g\<lparr>g_closing := CloseRequested\<rparr> else g)"

definition close_children :: "'e merged \<Rightarrow> 'e merged option" where
  "close_children g =
     (if g_closing g = CloseRequested
      then Some (g\<lparr>g_handles := map do_close (g_handles g), g_closing := ChildrenClosed\<rparr>) else None)"

definition stop_pumps :: "'e merged \<Rightarrow> 'e merged" where
  "stop_pumps g = fold finish_pump (filter (\<lambda>i. g_pumping g ! i) [0..<length (g_pumping g)]) g"

definition finish_close :: "'e merged \<Rightarrow> 'e merged option" where
  "finish_close g =
     (if g_closing g = ChildrenClosed
      then let g = stop_pumps g in Some (enqueue_end (g\<lparr>g_closing := Closed, g_queue := []\<rparr>)) else None)"

section \<open>Lemmas on merged handles\<close>

definition merged_ok :: "'e merged \<Rightarrow> bool" where
  "merged_ok g \<longleftrightarrow>
     0 < g_maxsize g \<and> length (g_queue g) \<le> g_maxsize g
     \<and> (g_queue g = map Event (pending (g_queue g))
        \<or> open_pumps g = 0 \<and> g_queue g = map Event (pending (g_queue g)) @ [EndItem])
     \<and> (\<forall>h\<in>set (g_handles g). handle_ok h)
     \<and> (\<forall>e. g_first_error g = Some e \<longrightarrow> g_closing g \<noteq> NotClosing
          \<and> (\<exists>h\<in>set (g_handles g). h_ended h \<and> h_end_error h = Some e))
     \<and> (g_closing g = Closed \<longrightarrow> open_pumps g = 0)"

lemma open_pumps_pos: "i < length (g_pumping g) \<Longrightarrow> g_pumping g ! i \<Longrightarrow> 0 < open_pumps g"
  unfolding open_pumps_def by (metis filter_empty_conv id_apply length_greater_0_conv nth_mem)

lemma merged_queue_open:
  "merged_ok g \<Longrightarrow> 0 < open_pumps g \<Longrightarrow> g_queue g = map Event (pending (g_queue g))"
  by (auto simp: merged_ok_def)

lemma put_or_drop_eq:
  assumes "0 < g_maxsize g" "g_queue g = map Event es" "length es \<le> g_maxsize g"
  shows "put_or_drop e g = g\<lparr>g_queue := map Event (keep_last (g_maxsize g) (es @ [e])),
    g_dropped := g_dropped g + (if length es < g_maxsize g then 0 else 1)\<rparr>"
  using assms by (cases es) (auto simp: put_or_drop_def put_nowait_def get_nowait_def keep_last_def)

lemma enqueue_end_eq:
  assumes "0 < g_maxsize g" "g_queue g = map Event es" "length es \<le> g_maxsize g"
  shows "enqueue_end g = g\<lparr>g_queue := map Event (keep_last (g_maxsize g - 1) es) @ [EndItem],
    g_dropped := g_dropped g + (if length es < g_maxsize g then 0 else 1)\<rparr>"
  using assms by (cases es) (auto simp: enqueue_end_def put_nowait_def get_nowait_def keep_last_def)

text \<open>While a pump runs, a merged handle is a queue that drops its oldest item, like its children.\<close>

interpretation merged: drop_oldest put_or_drop "\<lambda>g. pending (g_queue g)" g_maxsize g_dropped
  "\<lambda>g. merged_ok g \<and> 0 < open_pumps g"
proof unfold_locales
  fix g :: "'e merged" and e assume g: "merged_ok g \<and> 0 < open_pumps g"
  then have q: "g_queue g = map Event (pending (g_queue g))" using merged_queue_open by blast
  from g q show len: "length (pending (g_queue g)) \<le> g_maxsize g"
    by (metis length_map merged_ok_def)
  have pos: "0 < g_maxsize g" using g by (simp add: merged_ok_def)
  note eq = put_or_drop_eq [OF pos q len, of e]
  show "pending (g_queue (put_or_drop e g)) = keep_last (g_maxsize g) (pending (g_queue g) @ [e])"
    "g_dropped (put_or_drop e g) = g_dropped g + (if length (pending (g_queue g)) < g_maxsize g then 0 else 1)"
    "g_maxsize (put_or_drop e g) = g_maxsize g" by (simp_all add: eq)
  show "merged_ok (put_or_drop e g) \<and> 0 < open_pumps (put_or_drop e g)"
    using g by (simp add: eq merged_ok_def open_pumps_def)
qed

lemma open_pumps_finish: "i < length (g_pumping g) \<Longrightarrow> g_pumping g ! i \<Longrightarrow>
    open_pumps (g\<lparr>g_pumping := (g_pumping g)[i := False]\<rparr>) = open_pumps g - 1"
proof -
  assume i: "i < length (g_pumping g)" "g_pumping g ! i"
  have "length (filter id (xs[i := False])) = length (filter id xs) - 1" if "i < length xs" "xs ! i" for xs
    using that
  proof (induction xs arbitrary: i)
    case (Cons x xs)
    then show ?case
      by (cases i) (auto, metis Suc_pred filter_empty_conv id_apply length_greater_0_conv nth_mem)
  qed simp
  with i show ?thesis by (simp add: open_pumps_def)
qed

lemma finish_pump_ok:
  assumes "merged_ok g" "i < length (g_pumping g)" "g_pumping g ! i"
  shows "merged_ok (finish_pump i g)" "open_pumps (finish_pump i g) = open_pumps g - 1"
    "g_first_error (finish_pump i g) = g_first_error g" "g_closing (finish_pump i g) = g_closing g"
    "g_handles (finish_pump i g) = g_handles g" "g_maxsize (finish_pump i g) = g_maxsize g"
    "g_pumping (finish_pump i g) = (g_pumping g)[i := False]"
proof -
  let ?g = "g\<lparr>g_pumping := (g_pumping g)[i := False]\<rparr>"
  have q: "g_queue g = map Event (pending (g_queue g))"
    using merged_queue_open [OF assms(1) open_pumps_pos [OF assms(2,3)]] .
  have len: "length (pending (g_queue g)) \<le> g_maxsize g" and pos: "0 < g_maxsize g"
    using assms(1) q by (metis length_map merged_ok_def, simp add: merged_ok_def)
  have eq: "enqueue_end ?g = ?g\<lparr>g_queue := map Event (keep_last (g_maxsize g - 1) (pending (g_queue g))) @ [EndItem],
      g_dropped := g_dropped g + (if length (pending (g_queue g)) < g_maxsize g then 0 else 1)\<rparr>"
    using enqueue_end_eq [of ?g "pending (g_queue g)"] q len pos by simp
  have o1: "open_pumps ?g = open_pumps g - 1" using open_pumps_finish [OF assms(2,3)] .
  have ne: "g_closing g \<noteq> Closed"
    using assms(1) open_pumps_pos [OF assms(2,3)] by (auto simp: merged_ok_def)
  have upd: "open_pumps (g'\<lparr>g_queue := a, g_dropped := b\<rparr>) = open_pumps g'" for g' :: "'a merged" and a b
    by (simp add: open_pumps_def)
  show "open_pumps (finish_pump i g) = open_pumps g - 1"
    by (simp add: finish_pump_def Let_def o1 eq upd del: Nat.diff_is_0_eq')
  show "g_first_error (finish_pump i g) = g_first_error g" "g_closing (finish_pump i g) = g_closing g"
    "g_handles (finish_pump i g) = g_handles g" "g_maxsize (finish_pump i g) = g_maxsize g"
    "g_pumping (finish_pump i g) = (g_pumping g)[i := False]"
    by (simp_all add: finish_pump_def Let_def eq)
  show "merged_ok (finish_pump i g)"
  proof (cases "open_pumps ?g = 0")
    case True
    then have f: "finish_pump i g = enqueue_end ?g" by (simp add: finish_pump_def Let_def)
    have "open_pumps (enqueue_end ?g) = 0" using True by (simp add: eq upd)
    then show ?thesis using assms(1) pos ne unfolding f by (auto simp: merged_ok_def eq upd)
  next
    case False
    then have f: "finish_pump i g = ?g" by (simp add: finish_pump_def Let_def)
    show ?thesis using assms(1) q ne unfolding f merged_ok_def by auto
  qed
qed

text \<open>What may happen to a merged handle: a manager pushes to or ends a child, a pump moves on, the
  consumer receives, someone closes, and the task that closes takes its two stages.\<close>

datatype 'e merged_event =
    ChildPush nat 'e
  | ChildEnd nat "py_error option"
  | Pump nat
  | MergedReceive
  | CloseMerged
  | CloseChildren
  | FinishClose

definition with_child :: "nat \<Rightarrow> ('e handle \<Rightarrow> 'e handle) \<Rightarrow> 'e merged \<Rightarrow> 'e merged option" where
  "with_child i f g =
     (if i < length (g_handles g) then Some (g\<lparr>g_handles := (g_handles g)[i := f (g_handles g ! i)]\<rparr>) else None)"

fun merged_step :: "'e merged_event \<Rightarrow> 'e merged \<Rightarrow> 'e merged option" where
  "merged_step (ChildPush i e) g = with_child i (push e) g"
| "merged_step (ChildEnd i error) g = with_child i (end_handle error False) g"
| "merged_step (Pump i) g = pump i g"
| "merged_step MergedReceive g = Some (snd (merged_anext g))"
| "merged_step CloseMerged g = Some (merged_close g)"
| "merged_step CloseChildren g = close_children g"
| "merged_step FinishClose g = finish_close g"

fun merged_run :: "'e merged_event list \<Rightarrow> 'e merged \<Rightarrow> 'e merged option" where
  "merged_run [] g = Some g"
| "merged_run (e # es) g = (case merged_step e g of None \<Rightarrow> None | Some g' \<Rightarrow> merged_run es g')"

text \<open>Nothing that happens to a handle makes it unsound, or takes its end back.\<close>

definition handle_kept :: "'e handle \<Rightarrow> 'e handle \<Rightarrow> bool" where
  "handle_kept h h' \<longleftrightarrow> handle_ok h'
     \<and> (h_ended h \<longrightarrow> h_ended h' \<and> h_end_error h' = h_end_error h)"

lemma handle_kept_intros:
  assumes "handle_ok h"
  shows "handle_kept h (push e h)" "handle_kept h (end_handle error discard h)"
    "handle_kept h (do_close h)" "handle_kept h (snd (anext h))"
proof -
  have "h_ended h \<Longrightarrow> h_end_error (end_handle error discard h) = h_end_error h" for error discard
    by (auto simp: end_handle_def put_end_def Let_def split: option.splits)
  with assms show "handle_kept h (push e h)" "handle_kept h (end_handle error discard h)"
    "handle_kept h (do_close h)"
    by (auto simp: handle_kept_def end_handle_ok do_close_def)
  show "handle_kept h (snd (anext h))"
    using assms anext_ok [OF assms] by (cases h rule: anext_cases) (auto simp: handle_kept_def)
qed

lemma merged_ok_handles:
  assumes "merged_ok g" "list_all2 handle_kept (g_handles g) hs"
  shows "merged_ok (g\<lparr>g_handles := hs\<rparr>)"
proof -
  have 1: "\<forall>h\<in>set hs. handle_ok h"
    using assms(2) by (auto simp: list_all2_conv_all_nth in_set_conv_nth handle_kept_def)
  have 2: "\<exists>h\<in>set hs. h_ended h \<and> h_end_error h = Some e"
    if "\<exists>h\<in>set (g_handles g). h_ended h \<and> h_end_error h = Some e" for e
    using that assms(2) by (fastforce simp: list_all2_conv_all_nth in_set_conv_nth handle_kept_def)
  show ?thesis using assms(1) 1 2 by (auto simp: merged_ok_def open_pumps_def)
qed

lemma list_all2_kept_update:
  assumes "merged_ok g" "i < length (g_handles g)" "handle_kept (g_handles g ! i) h"
  shows "list_all2 handle_kept (g_handles g) ((g_handles g)[i := h])"
proof -
  have "handle_kept x x" if "x \<in> set (g_handles g)" for x
    using assms(1) that by (auto simp: merged_ok_def handle_kept_def)
  then show ?thesis using assms(2,3) by (auto simp: list_all2_conv_all_nth nth_list_update)
qed

lemma child_ok: "merged_ok g \<Longrightarrow> i < length (g_handles g) \<Longrightarrow> handle_ok (g_handles g ! i)"
  by (simp add: merged_ok_def)

lemma with_child_ok:
  assumes "merged_ok g" "with_child i f g = Some g'" "\<And>h. handle_ok h \<Longrightarrow> handle_kept h (f h)"
  shows "merged_ok g'" "g_first_error g' = g_first_error g" "g_closing g' = g_closing g"
proof -
  have i: "i < length (g_handles g)" and g': "g' = g\<lparr>g_handles := (g_handles g)[i := f (g_handles g ! i)]\<rparr>"
    using assms(2) by (auto simp: with_child_def split: if_splits)
  show "merged_ok g'" unfolding g'
    by (rule merged_ok_handles [OF assms(1) list_all2_kept_update [OF assms(1) i assms(3) [OF child_ok [OF assms(1) i]]]])
  show "g_first_error g' = g_first_error g" "g_closing g' = g_closing g" by (simp_all add: g')
qed

lemma stop_pumps_ok:
  assumes "merged_ok g"
  shows "merged_ok (stop_pumps g)" "open_pumps (stop_pumps g) = 0"
    "g_first_error (stop_pumps g) = g_first_error g" "g_handles (stop_pumps g) = g_handles g"
    "g_closing (stop_pumps g) = g_closing g" "g_maxsize (stop_pumps g) = g_maxsize g"
proof -
  have gen: "merged_ok (fold finish_pump is g) \<and> g_first_error (fold finish_pump is g) = g_first_error g
      \<and> g_handles (fold finish_pump is g) = g_handles g \<and> g_closing (fold finish_pump is g) = g_closing g
      \<and> g_maxsize (fold finish_pump is g) = g_maxsize g
      \<and> length (g_pumping (fold finish_pump is g)) = length (g_pumping g)
      \<and> (\<forall>j<length (g_pumping g). g_pumping (fold finish_pump is g) ! j = (g_pumping g ! j \<and> j \<notin> set is))"
    if "merged_ok g" "distinct is" "\<forall>i\<in>set is. i < length (g_pumping g) \<and> g_pumping g ! i" for "is" and g :: "'a merged"
    using that
  proof (induction "is" arbitrary: g)
    case (Cons i "is")
    then have i: "i < length (g_pumping g)" "g_pumping g ! i" by simp_all
    note f = finish_pump_ok [OF Cons.prems(1) i]
    have d: "i \<notin> set is" using Cons.prems(2) by simp
    then have "\<forall>j\<in>set is. j < length (g_pumping (finish_pump i g)) \<and> g_pumping (finish_pump i g) ! j"
      using Cons.prems(3) by (auto simp: f nth_list_update)
    from Cons.IH [OF f(1) _ this] Cons.prems(2) d show ?case
      by (simp add: f) (metis nth_list_update_eq nth_list_update_neq)
  qed simp
  let ?is = "filter (\<lambda>i. g_pumping g ! i) [0..<length (g_pumping g)]"
  have G: "merged_ok (stop_pumps g) \<and> g_first_error (stop_pumps g) = g_first_error g
      \<and> g_handles (stop_pumps g) = g_handles g \<and> g_closing (stop_pumps g) = g_closing g
      \<and> g_maxsize (stop_pumps g) = g_maxsize g
      \<and> length (g_pumping (stop_pumps g)) = length (g_pumping g)
      \<and> (\<forall>j<length (g_pumping g). g_pumping (stop_pumps g) ! j = (g_pumping g ! j \<and> j \<notin> set ?is))"
    unfolding stop_pumps_def by (rule gen [OF assms]) auto
  then show "merged_ok (stop_pumps g)"
    "g_first_error (stop_pumps g) = g_first_error g" "g_handles (stop_pumps g) = g_handles g"
    "g_closing (stop_pumps g) = g_closing g" "g_maxsize (stop_pumps g) = g_maxsize g" by blast+
  have "\<forall>j<length (g_pumping (stop_pumps g)). \<not> g_pumping (stop_pumps g) ! j" using G by auto
  then show "open_pumps (stop_pumps g) = 0"
    by (auto simp: open_pumps_def filter_empty_conv in_set_conv_nth)
qed

definition not_undone :: "'e merged \<Rightarrow> 'e merged \<Rightarrow> bool" where
  "not_undone g g' \<longleftrightarrow> (g_first_error g \<noteq> None \<longrightarrow> g_first_error g' = g_first_error g)"

lemma record_failure_ok:
  assumes "merged_ok g" "h \<in> set (g_handles g)" "h_ended h" "h_end_error h = Some e"
  shows "merged_ok (record_failure e g)" "not_undone g (record_failure e g)"
    "g_pumping (record_failure e g) = g_pumping g"
  using assms by (auto simp: record_failure_def merged_ok_def open_pumps_def not_undone_def)

lemma pump_ok:
  assumes "merged_ok g" "pump i g = Some g'"
  shows "merged_ok g' \<and> not_undone g g'"
proof -
  obtain r h where a: "anext (g_handles g ! i) = (r, h)" by (cases "anext (g_handles g ! i)")
  have i: "i < length (g_pumping g)" "i < length (g_handles g)" "g_pumping g ! i"
    using assms(2) by (auto simp: pump_def split: if_splits)
  let ?g = "g\<lparr>g_handles := (g_handles g)[i := h]\<rparr>"
  have ok: "handle_ok (g_handles g ! i)" using child_ok assms(1) i(2) by blast
  have kept: "handle_kept (g_handles g ! i) h" using handle_kept_intros(4) [OF ok] a by simp
  have g: "merged_ok ?g" using merged_ok_handles [OF assms(1) list_all2_kept_update [OF assms(1) i(2) kept]] .
  show ?thesis
  proof (cases r)
    case (Item e)
    have "0 < open_pumps g" using open_pumps_pos [OF i(1,3)] .
    then have "0 < open_pumps ?g" by (simp add: open_pumps_def)
    then have "merged_ok (put_or_drop e ?g)" using merged.open_put [of ?g e] g by blast
    moreover have "g_first_error (put_or_drop e ?g) = g_first_error g"
      by (auto simp: put_or_drop_def Let_def split: option.splits)
    ultimately show ?thesis using assms(2) a i Item by (auto simp: pump_def not_undone_def)
  next
    case Stopped
    then show ?thesis using assms(2) a i finish_pump_ok [OF g, of i] by (auto simp: pump_def not_undone_def)
  next
    case (Failed e)
    from ok have h: "h_ended h \<and> h_end_error h = Some e"
      using a Failed kept unfolding handle_kept_def
      by (cases "g_handles g ! i" rule: anext_cases) (auto simp: end_of_stream_def split: option.splits)
    have "h \<in> set (g_handles ?g)" using i by (simp add: set_update_memI)
    note r = record_failure_ok [OF g this conjunct1 [OF h] conjunct2 [OF h]]
    have p: "i < length (g_pumping (record_failure e ?g))" "g_pumping (record_failure e ?g) ! i"
      using i r(3) by simp_all
    show ?thesis using assms(2) a i Failed finish_pump_ok [OF r(1) p] r(2)
      by (auto simp: pump_def not_undone_def)
  next
    case Blocked
    then show ?thesis using assms(2) a i by (simp add: pump_def)
  qed
qed

lemma merged_queue_cases:
  assumes "merged_ok g"
  obtains (empty) "g_queue g = []"
  | (event) e q where "g_queue g = Event e # q"
  | (mark) "g_queue g = [EndItem]" "open_pumps g = 0"
  using assms unfolding merged_ok_def
  by (cases "pending (g_queue g)") auto

lemma merged_ok_tail:
  assumes "merged_ok g" "g_queue g = x # q"
  shows "merged_ok (g\<lparr>g_queue := q\<rparr>)"
proof -
  have "q = map Event (pending q) \<or> open_pumps g = 0 \<and> q = map Event (pending q) @ [EndItem]"
    using assms(1)
    by (cases g rule: merged_queue_cases) (use assms in \<open>auto simp: merged_ok_def\<close>)
  then show ?thesis using assms unfolding merged_ok_def by (auto simp: open_pumps_def)
qed

lemma merged_anext_ok:
  assumes "merged_ok g"
  shows "merged_ok (snd (merged_anext g)) \<and> not_undone g (snd (merged_anext g))
    \<and> open_pumps (snd (merged_anext g)) = open_pumps g \<and> g_closing (snd (merged_anext g)) = g_closing g
    \<and> g_first_error (snd (merged_anext g)) = g_first_error g"
  using assms
  by (cases g rule: merged_queue_cases)
     (use assms merged_ok_tail [OF assms] in \<open>auto simp: merged_anext_def get_nowait_def not_undone_def open_pumps_def\<close>)

lemma finish_close_ok:
  assumes "merged_ok g" "finish_close g = Some g'"
  shows "merged_ok g' \<and> not_undone g g'"
proof -
  note s = stop_pumps_ok [OF assms(1)]
  let ?g = "(stop_pumps g)\<lparr>g_closing := Closed, g_queue := []\<rparr>"
  have pos: "0 < g_maxsize ?g" using s(1) by (simp add: merged_ok_def)
  have c: "g' = enqueue_end ?g" using assms(2) by (auto simp: finish_close_def Let_def split: if_splits)
  have e: "enqueue_end ?g = ?g\<lparr>g_queue := [EndItem], g_dropped := g_dropped ?g\<rparr>"
    using pos by (subst enqueue_end_eq [of _ "[]"]) auto
  have "open_pumps ?g = 0" using s(2) by (simp add: open_pumps_def)
  then show ?thesis using s(1,3) pos unfolding c e by (auto simp: merged_ok_def not_undone_def open_pumps_def)
qed

lemma merged_step_ok:
  assumes "merged_ok g" "merged_step e g = Some g'"
  shows "merged_ok g' \<and> not_undone g g'"
proof (cases e)
  case (ChildPush i x)
  with assms with_child_ok [OF assms(1), of i "push x" g'] show ?thesis
    by (auto simp: handle_kept_intros not_undone_def)
next
  case (ChildEnd i x)
  with assms with_child_ok [OF assms(1), of i "end_handle x False" g'] show ?thesis
    by (auto simp: handle_kept_intros not_undone_def)
next
  case CloseChildren
  have "list_all2 handle_kept (g_handles g) (map do_close (g_handles g))"
    using assms(1) by (auto simp: list_all2_conv_all_nth merged_ok_def handle_kept_intros)
  from merged_ok_handles [OF assms(1) this] CloseChildren assms show ?thesis
    by (auto simp: close_children_def merged_ok_def not_undone_def open_pumps_def split: if_splits)
next
  case CloseMerged
  have "merged_ok (g\<lparr>g_closing := CloseRequested\<rparr>)" if "g_closing g = NotClosing"
    using assms(1) that by (auto simp: merged_ok_def open_pumps_def)
  with CloseMerged assms show ?thesis by (auto simp: merged_close_def not_undone_def)
next
  case (Pump i)
  then show ?thesis using assms pump_ok by simp
next
  case MergedReceive
  then show ?thesis using assms merged_anext_ok by auto
next
  case FinishClose
  then show ?thesis using assms finish_close_ok by simp
qed

lemma merged_run_ok:
  "merged_ok g \<Longrightarrow> merged_run es g = Some g' \<Longrightarrow> merged_ok g' \<and> not_undone g g'"
proof (induction es arbitrary: g)
  case (Cons e es)
  then obtain g1 where "merged_step e g = Some g1" "merged_run es g1 = Some g'"
    by (auto split: option.splits)
  with Cons merged_step_ok show ?case unfolding not_undone_def by metis
qed (simp add: not_undone_def)

lemma new_merged_ok:
  "new_merged hs n = Ok g \<Longrightarrow> \<forall>h\<in>set hs. handle_ok h \<Longrightarrow> merged_ok g \<and> g_first_error g = None"
  by (auto simp: new_merged_def merged_ok_def split: if_splits)

fun merged_receive_times :: "nat \<Rightarrow> 'e merged \<Rightarrow> 'e received list" where
  "merged_receive_times 0 g = []"
| "merged_receive_times (Suc k) g = (let (r, g') = merged_anext g in r # merged_receive_times k g')"

text \<open>Once its pumps have stopped, a merged handle yields what waits in its queue and then its end.\<close>

lemma merged_receive_stopped:
  "merged_ok g \<Longrightarrow> open_pumps g = 0 \<Longrightarrow> g_closing g \<noteq> Closed \<Longrightarrow> merged_receive_times k g =
    map Item (take k (pending (g_queue g))) @ replicate (k - length (pending (g_queue g))) (end_of_stream (g_first_error g))"
proof (induction k arbitrary: g)
  case (Suc k)
  obtain r g' where a: "merged_anext g = (r, g')" by (cases "merged_anext g")
  note k = merged_anext_ok [OF Suc.prems(1), unfolded a snd_conv]
  have "merged_ok g'" "open_pumps g' = 0" "g_closing g' \<noteq> Closed" "g_first_error g' = g_first_error g"
    using k Suc.prems by auto
  then have IH: "merged_receive_times k g' = map Item (take k (pending (g_queue g')))
      @ replicate (k - length (pending (g_queue g'))) (end_of_stream (g_first_error g))"
    using Suc.IH by simp
  from Suc.prems(1) show ?case
    by (cases g rule: merged_queue_cases)
       (use a IH Suc.prems(2,3) in \<open>auto simp: merged_anext_def get_nowait_def\<close>)
qed simp

lemma merged_receive_closed:
  "g_closing g = Closed \<Longrightarrow> merged_receive_times k g = replicate k (end_of_stream (g_first_error g))"
  by (induction k) (simp_all add: merged_anext_def)

text \<open>A pump that stopped before the handle was closed met the end of its child, and did not hide an
  error there.\<close>

definition pumps_heed :: "'e merged \<Rightarrow> bool" where
  "pumps_heed g \<longleftrightarrow> length (g_pumping g) = length (g_handles g)
     \<and> (g_closing g \<noteq> Closed \<longrightarrow> (\<forall>i<length (g_handles g). \<not> g_pumping g ! i \<longrightarrow>
          h_ended (g_handles g ! i) \<and> (h_end_error (g_handles g ! i) \<noteq> None \<longrightarrow> g_first_error g \<noteq> None)))"

lemma pumps_heed_handles:
  assumes "pumps_heed g" "list_all2 handle_kept (g_handles g) (g_handles g')"
    "g_pumping g' = g_pumping g" "g_first_error g' = g_first_error g" "g_closing g' = Closed \<longrightarrow> g_closing g = Closed"
    "g_closing g = Closed \<longrightarrow> g_closing g' = Closed"
  shows "pumps_heed g'"
  using assms unfolding pumps_heed_def handle_kept_def by (auto simp: list_all2_conv_all_nth)

lemma pump_ended:
  assumes "merged_ok g" "i < length (g_handles g)" "i < length (g_pumping g)" "g_pumping g ! i"
    "h_ended (g_handles g ! i)" "pending (h_queue (g_handles g ! i)) = []"
  defines "g1 \<equiv> g\<lparr>g_handles := (g_handles g)[i := (g_handles g ! i)\<lparr>h_queue := []\<rparr>]\<rparr>"
  shows "pump i g = Some (finish_pump i
      (case h_end_error (g_handles g ! i) of None \<Rightarrow> g1 | Some e \<Rightarrow> record_failure e g1))"
  using child_ok [OF assms(1,2)]
proof (cases "g_handles g ! i" rule: anext_cases)
  case ended
  then have "anext (g_handles g ! i) = (end_of_stream (h_end_error (g_handles g ! i)), (g_handles g ! i)\<lparr>h_queue := []\<rparr>)"
    by (simp add: prod_eq_iff)
  then show ?thesis using assms(2-4) by (simp add: pump_def g1_def end_of_stream_def split: option.splits)
qed (use assms in auto)

lemma record_failure_simps:
  "g_first_error (record_failure e g) = (if g_first_error g = None then Some e else g_first_error g)"
  "g_handles (record_failure e g) = g_handles g" "g_pumping (record_failure e g) = g_pumping g"
  "g_closing (record_failure e g) = Closed \<longleftrightarrow> g_closing g = Closed"
  by (auto simp: record_failure_def)

lemma finish_pump_simps:
  "g_first_error (finish_pump i g) = g_first_error g" "g_handles (finish_pump i g) = g_handles g"
  "g_closing (finish_pump i g) = g_closing g" "g_pumping (finish_pump i g) = (g_pumping g)[i := False]"
  by (simp_all add: finish_pump_def enqueue_end_def Let_def split: option.splits)

lemma put_or_drop_simps:
  "g_first_error (put_or_drop e g) = g_first_error g" "g_handles (put_or_drop e g) = g_handles g"
  "g_closing (put_or_drop e g) = g_closing g" "g_pumping (put_or_drop e g) = g_pumping g"
  by (simp_all add: put_or_drop_def Let_def split: option.splits)

lemma merged_anext_simps:
  "g_first_error (snd (merged_anext g)) = g_first_error g" "g_handles (snd (merged_anext g)) = g_handles g"
  "g_closing (snd (merged_anext g)) = g_closing g" "g_pumping (snd (merged_anext g)) = g_pumping g"
  by (simp_all add: merged_anext_def split: option.splits item.splits)

lemma pump_heeds:
  assumes "merged_ok g" "pumps_heed g" "pump i g = Some g'"
  shows "pumps_heed g'"
proof -
  have i: "i < length (g_pumping g)" "i < length (g_handles g)" "g_pumping g ! i"
    using assms(3) by (auto simp: pump_def split: if_splits)
  note ok = child_ok [OF assms(1) i(2)]
  show ?thesis using ok
  proof (cases "g_handles g ! i" rule: anext_cases)
    case (item e es)
    let ?g = "g\<lparr>g_handles := (g_handles g)[i := snd (anext (g_handles g ! i))]\<rparr>"
    have "list_all2 handle_kept (g_handles g) (g_handles ?g)"
      using list_all2_kept_update [OF assms(1) i(2) handle_kept_intros(4) [OF ok]] by simp
    then have "pumps_heed ?g" by (rule pumps_heed_handles [OF assms(2)]) simp_all
    moreover have "g' = put_or_drop e ?g"
      using assms(3) i item(2) by (simp add: pump_def split: prod.splits)
    ultimately show ?thesis by (simp add: pumps_heed_def put_or_drop_simps)
  next
    case ended
    let ?h = "(g_handles g ! i)\<lparr>h_queue := []\<rparr>"
    let ?g = "g\<lparr>g_handles := (g_handles g)[i := ?h]\<rparr>"
    have g': "g' = finish_pump i (case h_end_error (g_handles g ! i) of None \<Rightarrow> ?g | Some e \<Rightarrow> record_failure e ?g)"
      using pump_ended [OF assms(1) i(2,1,3) ended(1,2)] assms(3) by simp
    show ?thesis using assms(2) i ended(1)
      by (cases "h_end_error (g_handles g ! i)")
         (auto simp: g' pumps_heed_def finish_pump_simps record_failure_simps nth_list_update)
  next
    case wait
    then show ?thesis using assms(3) i by (simp add: pump_def)
  qed
qed

lemma finish_close_heeds:
  assumes "pumps_heed g" "finish_close g = Some g'"
  shows "pumps_heed g'"
proof -
  have "length (g_pumping (fold finish_pump is g)) = length (g_pumping g)
      \<and> g_handles (fold finish_pump is g) = g_handles g" for "is" and g :: "'a merged"
    by (induction "is" arbitrary: g) (simp_all add: finish_pump_simps)
  then have "length (g_pumping (stop_pumps g)) = length (g_handles (stop_pumps g))"
    using assms(1) by (simp add: stop_pumps_def pumps_heed_def)
  then show ?thesis using assms(2)
    by (auto simp: finish_close_def Let_def pumps_heed_def enqueue_end_def split: if_splits option.splits)
qed

lemma with_child_heeds:
  assumes "merged_ok g" "pumps_heed g" "with_child i f g = Some g'" "\<And>h. handle_ok h \<Longrightarrow> handle_kept h (f h)"
  shows "pumps_heed g'"
proof -
  have i: "i < length (g_handles g)" and g': "g' = g\<lparr>g_handles := (g_handles g)[i := f (g_handles g ! i)]\<rparr>"
    using assms(3) by (auto simp: with_child_def split: if_splits)
  show ?thesis unfolding g'
    by (rule pumps_heed_handles [OF assms(2)])
      (use list_all2_kept_update [OF assms(1) i assms(4) [OF child_ok [OF assms(1) i]]] in simp_all)
qed

lemma merged_step_heeds:
  assumes "merged_ok g" "pumps_heed g" "merged_step e g = Some g'"
  shows "pumps_heed g'"
proof (cases e)
  case CloseChildren
  have "list_all2 handle_kept (g_handles g) (map do_close (g_handles g))"
    using assms(1) by (auto simp: list_all2_conv_all_nth merged_ok_def handle_kept_intros)
  with CloseChildren assms(2,3) show ?thesis
    by (intro pumps_heed_handles [OF assms(2)]) (auto simp: close_children_def split: if_splits)
next
  case (Pump i)
  then show ?thesis using assms pump_heeds by simp
next
  case FinishClose
  then show ?thesis using assms finish_close_heeds by simp
next
  case MergedReceive
  then show ?thesis using assms(2,3) by (auto simp: pumps_heed_def merged_anext_simps)
next
  case CloseMerged
  then show ?thesis using assms(2,3) by (auto simp: pumps_heed_def merged_close_def split: if_splits)
next
  case (ChildPush i x)
  then show ?thesis using assms with_child_heeds [of g i "push x" g'] handle_kept_intros(1) by (metis merged_step.simps(1))
next
  case (ChildEnd i x)
  then show ?thesis using assms with_child_heeds [of g i "end_handle x False" g'] handle_kept_intros(2) by (metis merged_step.simps(2))
qed

lemma merged_run_heeds:
  "merged_ok g \<Longrightarrow> pumps_heed g \<Longrightarrow> merged_run es g = Some g' \<Longrightarrow> pumps_heed g'"
proof (induction es arbitrary: g)
  case (Cons e es)
  then obtain g1 where "merged_step e g = Some g1" "merged_run es g1 = Some g'"
    by (auto split: option.splits)
  with Cons merged_step_ok merged_step_heeds show ?case by blast
qed simp

lemma new_merged_heeds: "new_merged hs n = Ok g \<Longrightarrow> pumps_heed g"
  by (auto simp: new_merged_def pumps_heed_def split: if_splits)

text \<open>A pump whose child has failed, and that has read what still waited there, records the failure.\<close>

lemma failed_child_recorded:
  assumes "merged_ok g" "pumps_heed g" "i < length (g_handles g)" "g_pumping g ! i"
    "h_ended (g_handles g ! i)" "h_end_error (g_handles g ! i) = Some e" "pending (h_queue (g_handles g ! i)) = []"
  shows "\<exists>g'. merged_step (Pump i) g = Some g' \<and> \<not> g_pumping g' ! i \<and> g_closing g' \<noteq> NotClosing
    \<and> g_first_error g' = (if g_first_error g = None then Some e else g_first_error g)"
proof -
  let ?g = "g\<lparr>g_handles := (g_handles g)[i := (g_handles g ! i)\<lparr>h_queue := []\<rparr>]\<rparr>"
  have l: "i < length (g_pumping g)" using assms(2,3) by (simp add: pumps_heed_def)
  have p: "pump i g = Some (finish_pump i (record_failure e ?g))"
    using pump_ended [OF assms(1,3) l assms(4,5,7)] assms(6) by simp
  have "g_closing (record_failure e ?g) \<noteq> NotClosing"
    using assms(1) by (auto simp: record_failure_def merged_ok_def)
  then show ?thesis using l by (simp add: p finish_pump_simps record_failure_simps)
qed

end
