(* ===== verification/Stream_Protocols.thy ===== *)
theory Stream_Protocols imports Py_Bytes "HOL-Library.List_Lexorder" begin

text \<open>
  How the stream managers tell a server what their subscribers want:
  \<open>_internal/streams/clob/market_protocol.py\<close>, \<open>clob/user_protocol.py\<close>, \<open>perps/market_protocol.py\<close> and
  \<open>rtds/protocol.py\<close>. Each derives one server state from all subscriptions, builds the frame that
  opens a connection and the frames that lead from one state to another, and decides which events
  belong to a subscription.

  Next to each protocol stands a specification of the server it talks to: what it streams after a
  frame. The locale \<open>stream_protocol\<close> states the contract between frames and server, and is
  interpreted on the market, perpetuals and real-time data protocols.
\<close>

section \<open>The contract of a protocol\<close>

text \<open>
  \<open>view\<close> is what the server streams on a connection, \<open>serves view subs\<close> that it streams all that the
  subscriptions ask for. Opening frames reach that from an empty view; update frames carry it from
  one list of subscriptions to another, and already the first few of them do no harm to the
  subscriptions there were when subscriptions are only added, so an update cut short leaves the
  older subscribers served.
\<close>

locale stream_protocol =
  fixes derive :: "'s list \<Rightarrow> 'st"
    and initial :: "'st \<Rightarrow> 'f list"
    and updates :: "'st \<Rightarrow> 'st \<Rightarrow> 'f list"
    and receive :: "'f \<Rightarrow> 'v \<Rightarrow> 'v"
    and fresh :: 'v
    and serves :: "'v \<Rightarrow> 's list \<Rightarrow> bool"
    and valid :: "'s \<Rightarrow> bool"
  assumes initial_serves: "list_all valid subs \<Longrightarrow> serves (fold receive (initial (derive subs)) fresh) subs"
    and updates_serve: "list_all valid subs \<Longrightarrow> list_all valid subs' \<Longrightarrow> serves v subs \<Longrightarrow>
      serves (fold receive (updates (derive subs) (derive subs')) v) subs'"
    and prefix_serves: "list_all valid subs \<Longrightarrow> valid s \<Longrightarrow> serves v subs \<Longrightarrow>
      serves (fold receive (take n (updates (derive subs) (derive (subs @ [s])))) v) subs"
    and nothing_served: "serves v []"
    and serves_fewer: "serves v (subs @ [s]) \<Longrightarrow> serves v subs"
begin

text \<open>Any sequence of changes to the subscriptions, each announced by its update frames, leaves the
  server streaming what is wanted at the end.\<close>

fun announce :: "'s list list \<Rightarrow> 's list \<Rightarrow> 'v \<Rightarrow> 'v" where
  "announce [] subs v = v"
| "announce (subs' # rest) subs v = announce rest subs' (fold receive (updates (derive subs) (derive subs')) v)"

lemma announced_serves:
  "list_all valid subs \<Longrightarrow> list_all (list_all valid) changes \<Longrightarrow> serves v subs \<Longrightarrow>
    serves (announce changes subs v) (last (subs # changes))"
proof (induction changes arbitrary: subs v)
  case (Cons subs' rest)
  then have "serves (announce rest subs' (fold receive (updates (derive subs) (derive subs')) v)) (last (subs' # rest))"
    by (intro Cons.IH updates_serve) simp_all
  then show ?case by simp
qed simp

end

text \<open>A prefix of updates that first add and then remove.\<close>

lemma prefix_two_parts:
  assumes "P v" "P (fold r (as @ bs) v)" "length as \<le> 1" "length bs \<le> 1" "\<forall>f\<in>set as. P (r f v)"
  shows "P (fold r (take n (as @ bs)) v)"
proof -
  have "length as = 0 \<or> length as = 1" "length bs = 0 \<or> length bs = 1" using assms(3,4) by linarith+
  then have "as = [] \<or> (\<exists>a. as = [a])" "bs = [] \<or> (\<exists>b. bs = [b])"
    by (auto simp: length_Suc_conv)
  moreover have "n = 0 \<or> n = 1 \<or> (\<exists>m. n = Suc (Suc m))" by (cases n; cases "n - 1") auto
  ultimately show ?thesis using assms(1,2,5) by auto
qed

section \<open>The market channel of the order book\<close>

record market_subscription =
  ms_token_ids :: "string list"
  ms_custom_feature_enabled :: bool

record market_server_state =
  mss_asset_ids :: "string list"
  mss_custom_feature_enabled :: bool

definition market_derive_state :: "market_subscription list \<Rightarrow> market_server_state" where
  "market_derive_state subs =
     (case fold (\<lambda>sub (assets, custom). (assets \<union> set (ms_token_ids sub), custom \<or> ms_custom_feature_enabled sub))
             subs ({}, False) of
        (assets, custom) \<Rightarrow>
          \<lparr>mss_asset_ids = sorted_list_of_set assets, mss_custom_feature_enabled = custom\<rparr>)"

definition py_strs :: "string list \<Rightarrow> pyval" where
  "py_strs ss = PList (map PStr ss)"

definition market_initial_frame :: "market_server_state \<Rightarrow> pyval" where
  "market_initial_frame state = PDict [
     (''type'', PStr ''market''),
     (''assets_ids'', py_strs (mss_asset_ids state)),
     (''custom_feature_enabled'', PBool (mss_custom_feature_enabled state))]"

definition market_subscribe_update :: "string list \<Rightarrow> bool \<Rightarrow> pyval" where
  "market_subscribe_update asset_ids custom_feature_enabled = PDict [
     (''operation'', PStr ''subscribe''),
     (''assets_ids'', py_strs asset_ids),
     (''custom_feature_enabled'', PBool custom_feature_enabled)]"

definition market_unsubscribe_update :: "string list \<Rightarrow> pyval" where
  "market_unsubscribe_update asset_ids = PDict [
     (''operation'', PStr ''unsubscribe''), (''assets_ids'', py_strs asset_ids)]"

definition market_diff_frames :: "market_server_state \<Rightarrow> market_server_state \<Rightarrow> pyval list" where
  "market_diff_frames before after =
     (let before_assets = set (mss_asset_ids before);
          after_assets = set (mss_asset_ids after);
          added = sorted_list_of_set (after_assets - before_assets);
          removed = sorted_list_of_set (before_assets - after_assets)
      in (if added \<noteq> [] then [market_subscribe_update added (mss_custom_feature_enabled after)]
          else if mss_custom_feature_enabled before \<noteq> mss_custom_feature_enabled after \<and> mss_asset_ids after \<noteq> []
          then [market_subscribe_update [hd (mss_asset_ids after)] (mss_custom_feature_enabled after)]
          else [])
         @ (if removed \<noteq> [] then [market_unsubscribe_update removed] else []))"

text \<open>The events of the channel, with the fields their matchers read.\<close>

datatype market_event =
    MarketBookEvent string
  | MarketPriceChangeEvent "string list"
  | MarketLastTradePriceEvent string
  | MarketTickSizeChangeEvent string
  | MarketBestBidAskEvent string
  | NewMarketEvent
  | MarketResolvedEvent "string list option"

fun market_match_for :: "market_subscription \<Rightarrow> market_event \<Rightarrow> bool" where
  "market_match_for sub (MarketPriceChangeEvent token_ids) = list_ex (\<lambda>t. t \<in> set (ms_token_ids sub)) token_ids"
| "market_match_for sub NewMarketEvent = ms_custom_feature_enabled sub"
| "market_match_for sub (MarketResolvedEvent token_ids) =
     (if \<not> ms_custom_feature_enabled sub then False
      else list_ex (\<lambda>t. t \<in> set (ms_token_ids sub)) (case token_ids of None \<Rightarrow> [] | Some ts \<Rightarrow> ts))"
| "market_match_for sub (MarketBestBidAskEvent t) = (ms_custom_feature_enabled sub \<and> t \<in> set (ms_token_ids sub))"
| "market_match_for sub (MarketBookEvent t) = (t \<in> set (ms_token_ids sub))"
| "market_match_for sub (MarketLastTradePriceEvent t) = (t \<in> set (ms_token_ids sub))"
| "market_match_for sub (MarketTickSizeChangeEvent t) = (t \<in> set (ms_token_ids sub))"

text \<open>The server's side, as a specification: the assets it streams on a connection and whether the
  additional events are on. The flag of an update is applied before its assets are looked at, as the
  comment in \<open>diff_state_frames\<close> has it.\<close>

record market_view =
  mv_assets :: "string set"
  mv_custom :: bool

definition strs_of :: "pyval \<Rightarrow> string set" where
  "strs_of v = (case v of PList vs \<Rightarrow> set (List.map_filter (\<lambda>v. case v of PStr s \<Rightarrow> Some s | _ \<Rightarrow> None) vs) | _ \<Rightarrow> {})"

definition market_receive :: "pyval \<Rightarrow> market_view \<Rightarrow> market_view" where
  "market_receive frame view =
     (case frame of
        PDict d \<Rightarrow>
          (let ids = strs_of (dict_get ''assets_ids'' d);
               custom = (dict_get ''custom_feature_enabled'' d = PBool True)
           in if dict_get ''type'' d = PStr ''market'' then \<lparr>mv_assets = ids, mv_custom = custom\<rparr>
              else if dict_get ''operation'' d = PStr ''subscribe''
              then \<lparr>mv_assets = mv_assets view \<union> ids, mv_custom = custom\<rparr>
              else if dict_get ''operation'' d = PStr ''unsubscribe''
              then view\<lparr>mv_assets := mv_assets view - ids\<rparr>
              else view)
      | _ \<Rightarrow> view)"

text \<open>What the server streams on a connection, as far as the matchers can tell.\<close>

fun market_streams :: "market_view \<Rightarrow> market_event \<Rightarrow> bool" where
  "market_streams view (MarketPriceChangeEvent token_ids) = list_ex (\<lambda>t. t \<in> mv_assets view) token_ids"
| "market_streams view NewMarketEvent = mv_custom view"
| "market_streams view (MarketResolvedEvent token_ids) =
     (mv_custom view \<and> list_ex (\<lambda>t. t \<in> mv_assets view) (case token_ids of None \<Rightarrow> [] | Some ts \<Rightarrow> ts))"
| "market_streams view (MarketBestBidAskEvent t) = (mv_custom view \<and> t \<in> mv_assets view)"
| "market_streams view (MarketBookEvent t) = (t \<in> mv_assets view)"
| "market_streams view (MarketLastTradePriceEvent t) = (t \<in> mv_assets view)"
| "market_streams view (MarketTickSizeChangeEvent t) = (t \<in> mv_assets view)"

definition market_serves :: "market_view \<Rightarrow> market_subscription list \<Rightarrow> bool" where
  "market_serves view subs \<longleftrightarrow> (\<forall>sub\<in>set subs. set (ms_token_ids sub) \<subseteq> mv_assets view
     \<and> (ms_custom_feature_enabled sub \<longrightarrow> mv_custom view))"

lemma market_serves_events:
  assumes "market_serves view subs" "sub \<in> set subs" "market_match_for sub event"
  shows "market_streams view event"
  using assms
  by (cases event) (auto simp: market_serves_def list_ex_iff split: if_splits option.splits)

lemma market_derive_eq:
  "market_derive_state subs = \<lparr>mss_asset_ids = sorted_list_of_set (\<Union>sub\<in>set subs. set (ms_token_ids sub)),
    mss_custom_feature_enabled = (\<exists>sub\<in>set subs. ms_custom_feature_enabled sub)\<rparr>"
proof -
  have "fold (\<lambda>sub (assets, custom). (assets \<union> set (ms_token_ids sub), custom \<or> ms_custom_feature_enabled sub)) subs (a, c)
      = (a \<union> (\<Union>sub\<in>set subs. set (ms_token_ids sub)), c \<or> (\<exists>sub\<in>set subs. ms_custom_feature_enabled sub))" for a c
    by (induction subs arbitrary: a c) auto
  then show ?thesis by (simp add: market_derive_state_def)
qed

lemma strs_of_py_strs [simp]: "strs_of (py_strs ss) = set ss"
  by (simp add: strs_of_def py_strs_def List.map_filter_def comp_def)

lemma market_receive_frames [simp]:
  "market_receive (market_initial_frame st) v = \<lparr>mv_assets = set (mss_asset_ids st), mv_custom = mss_custom_feature_enabled st\<rparr>"
  "market_receive (market_subscribe_update ids c) v = \<lparr>mv_assets = mv_assets v \<union> set ids, mv_custom = c\<rparr>"
  "market_receive (market_unsubscribe_update ids) v = v\<lparr>mv_assets := mv_assets v - set ids\<rparr>"
  by (auto simp: market_receive_def market_initial_frame_def market_subscribe_update_def
      market_unsubscribe_update_def dict_get_def)

text \<open>What \<open>subscribe\<close> of the manager accepts.\<close>

definition market_valid :: "market_subscription \<Rightarrow> bool" where
  "market_valid sub \<longleftrightarrow> ms_token_ids sub \<noteq> [] \<and> [] \<notin> set (ms_token_ids sub)"

lemma market_diff_parts:
  fixes before after :: market_server_state
  defines "A \<equiv> set (mss_asset_ids before)" and "B \<equiv> set (mss_asset_ids after)"
  obtains ups downs where "market_diff_frames before after = ups @ downs"
    "downs = [] \<and> A \<subseteq> B \<or> (\<exists>ids. downs = [market_unsubscribe_update ids] \<and> set ids = A - B)"
    "ups = [] \<and> B \<subseteq> A \<and> (mss_custom_feature_enabled before = mss_custom_feature_enabled after \<or> B = {})
     \<or> (\<exists>ids. ups = [market_subscribe_update ids (mss_custom_feature_enabled after)] \<and> B - A \<subseteq> set ids \<and> set ids \<subseteq> B)"
proof
  let ?added = "sorted_list_of_set (B - A)" and ?removed = "sorted_list_of_set (A - B)"
  let ?ups = "if ?added \<noteq> [] then [market_subscribe_update ?added (mss_custom_feature_enabled after)]
          else if mss_custom_feature_enabled before \<noteq> mss_custom_feature_enabled after \<and> mss_asset_ids after \<noteq> []
          then [market_subscribe_update [hd (mss_asset_ids after)] (mss_custom_feature_enabled after)] else []"
  let ?downs = "if ?removed \<noteq> [] then [market_unsubscribe_update ?removed] else []"
  have fin: "finite A" "finite B" by (simp_all add: A_def B_def)
  show "market_diff_frames before after = ?ups @ ?downs"
    by (simp add: market_diff_frames_def Let_def A_def B_def)
  show "?downs = [] \<and> A \<subseteq> B \<or> (\<exists>ids. ?downs = [market_unsubscribe_update ids] \<and> set ids = A - B)"
  proof (cases "A \<subseteq> B")
    case True
    then have "?removed = []" by (metis Diff_eq_empty_iff sorted_list_of_set_empty)
    with True show ?thesis by simp
  next
    case False
    then have "?downs = [market_unsubscribe_update ?removed]" "set ?removed = A - B" using fin by simp_all
    then show ?thesis by blast
  qed
  have hd: "hd (mss_asset_ids after) \<in> B" if "mss_asset_ids after \<noteq> []" using that by (simp add: B_def)
  show "?ups = [] \<and> B \<subseteq> A \<and> (mss_custom_feature_enabled before = mss_custom_feature_enabled after \<or> B = {})
     \<or> (\<exists>ids. ?ups = [market_subscribe_update ids (mss_custom_feature_enabled after)] \<and> B - A \<subseteq> set ids \<and> set ids \<subseteq> B)"
  proof (cases "B \<subseteq> A")
    case True
    then have "?added = []" by (metis Diff_eq_empty_iff sorted_list_of_set_empty)
    with True hd show ?thesis by (auto simp: B_def)
  next
    case False
    then have "?added \<noteq> []" using fin by simp
    with fin show ?thesis by auto
  qed
qed

lemma market_serves_derived:
  "market_serves v subs \<longleftrightarrow> set (mss_asset_ids (market_derive_state subs)) \<subseteq> mv_assets v
    \<and> (mss_custom_feature_enabled (market_derive_state subs) \<longrightarrow> mv_custom v)"
  by (auto simp: market_serves_def market_derive_eq)

lemma market_assets_empty:
  "list_all market_valid subs \<Longrightarrow> set (mss_asset_ids (market_derive_state subs)) = {} \<Longrightarrow> subs = []"
  by (cases subs) (auto simp: market_derive_eq market_valid_def)

interpretation market: stream_protocol market_derive_state "\<lambda>st. [market_initial_frame st]" market_diff_frames
  market_receive "\<lparr>mv_assets = {}, mv_custom = False\<rparr>" market_serves market_valid
proof unfold_locales
  fix subs :: "market_subscription list"
  show "market_serves (fold market_receive [market_initial_frame (market_derive_state subs)]
      \<lparr>mv_assets = {}, mv_custom = False\<rparr>) subs"
    by (simp add: market_serves_derived)
next
  fix subs subs' v
  assume valid: "list_all market_valid subs" "list_all market_valid subs'" and v: "market_serves v subs"
  let ?a = "market_derive_state subs" and ?b = "market_derive_state subs'"
  have none: "\<not> mss_custom_feature_enabled ?b" if "set (mss_asset_ids ?b) = {}"
    using market_assets_empty [OF valid(2) that] by (simp add: market_derive_eq)
  obtain ups downs where d: "market_diff_frames ?a ?b = ups @ downs"
    "downs = [] \<and> set (mss_asset_ids ?a) \<subseteq> set (mss_asset_ids ?b)
      \<or> (\<exists>ids. downs = [market_unsubscribe_update ids] \<and> set ids = set (mss_asset_ids ?a) - set (mss_asset_ids ?b))"
    "ups = [] \<and> set (mss_asset_ids ?b) \<subseteq> set (mss_asset_ids ?a)
       \<and> (mss_custom_feature_enabled ?a = mss_custom_feature_enabled ?b \<or> set (mss_asset_ids ?b) = {})
     \<or> (\<exists>ids. ups = [market_subscribe_update ids (mss_custom_feature_enabled ?b)]
         \<and> set (mss_asset_ids ?b) - set (mss_asset_ids ?a) \<subseteq> set ids \<and> set ids \<subseteq> set (mss_asset_ids ?b))"
    by (rule market_diff_parts [of ?a ?b])
  have up: "set (mss_asset_ids ?b) \<subseteq> mv_assets (fold market_receive ups v)
      \<and> (mss_custom_feature_enabled ?b \<longrightarrow> mv_custom (fold market_receive ups v))"
    using d(3)
  proof (elim disjE exE conjE)
    fix ids assume ids: "ups = [market_subscribe_update ids (mss_custom_feature_enabled ?b)]"
      "set (mss_asset_ids ?b) - set (mss_asset_ids ?a) \<subseteq> set ids"
    have "set (mss_asset_ids ?a) \<subseteq> mv_assets v" using v by (simp add: market_serves_derived)
    with ids(2) have "set (mss_asset_ids ?b) \<subseteq> mv_assets v \<union> set ids" by blast
    then show ?thesis by (simp add: ids(1))
  qed (use v none in \<open>auto simp: market_serves_derived\<close>)
  show "market_serves (fold market_receive (market_diff_frames ?a ?b) v) subs'"
    using d(2) up unfolding market_serves_derived d(1) by auto
next
  fix subs s v n
  assume v: "market_serves v subs"
  let ?a = "market_derive_state subs" and ?b = "market_derive_state (subs @ [s])"
  have sub: "set (mss_asset_ids ?a) \<subseteq> set (mss_asset_ids ?b)"
    and flag: "mss_custom_feature_enabled ?a \<Longrightarrow> mss_custom_feature_enabled ?b"
    by (auto simp: market_derive_eq)
  have "market_serves (fold market_receive fs v) subs" if "set fs \<subseteq> set (market_diff_frames ?a ?b)" for fs
    using that v
  proof (induction fs arbitrary: v)
    case (Cons f fs)
    have "f \<in> set (market_diff_frames ?a ?b)" using Cons.prems(1) by simp
    then have "market_serves (market_receive f v) subs"
      using Cons.prems(2) sub flag unfolding market_serves_derived
      by (rule_tac market_diff_parts [of ?a ?b]) auto
    then show ?case using Cons.IH Cons.prems(1) by simp
  qed simp
  then show "market_serves (fold market_receive (take n (market_diff_frames ?a ?b)) v) subs"
    using set_take_subset by metis
qed (simp_all add: market_serves_def)

section \<open>The channels of the perpetuals stream\<close>

datatype perps_spec =
    PerpsTradesSpec int
  | PerpsBboSpec int
  | PerpsBookSpec int
  | PerpsCandlesSpec int string
  | PerpsTickersSpec "int option"
  | PerpsStatisticsSpec "int option"

fun channel_for :: "perps_spec \<Rightarrow> string" where
  "channel_for (PerpsTradesSpec i) = ''trades::'' @ str_int i"
| "channel_for (PerpsBboSpec i) = ''bbo::'' @ str_int i"
| "channel_for (PerpsBookSpec i) = ''book::'' @ str_int i"
| "channel_for (PerpsCandlesSpec i interval) = ''klines::'' @ str_int i @ ''::'' @ interval"
| "channel_for (PerpsTickersSpec i) = (case i of None \<Rightarrow> ''tickers::all'' | Some i \<Rightarrow> ''tickers::'' @ str_int i)"
| "channel_for (PerpsStatisticsSpec i) =
     (case i of None \<Rightarrow> ''statistics::all'' | Some i \<Rightarrow> ''statistics::'' @ str_int i)"

text \<open>The five local variables of \<open>derive_state\<close> and one round of its loop.\<close>

record perps_wanted =
  pw_channels :: "string set"
  pw_ticker_ids :: "int set"
  pw_statistic_ids :: "int set"
  pw_all_tickers :: bool
  pw_all_statistics :: bool

fun perps_want :: "perps_spec \<Rightarrow> perps_wanted \<Rightarrow> perps_wanted" where
  "perps_want (PerpsTickersSpec i) w =
     (case i of None \<Rightarrow> w\<lparr>pw_all_tickers := True\<rparr> | Some i \<Rightarrow> w\<lparr>pw_ticker_ids := insert i (pw_ticker_ids w)\<rparr>)"
| "perps_want (PerpsStatisticsSpec i) w =
     (case i of None \<Rightarrow> w\<lparr>pw_all_statistics := True\<rparr>
      | Some i \<Rightarrow> w\<lparr>pw_statistic_ids := insert i (pw_statistic_ids w)\<rparr>)"
| "perps_want spec w = w\<lparr>pw_channels := insert (channel_for spec) (pw_channels w)\<rparr>"

definition perps_derive_state :: "perps_spec list \<Rightarrow> string set" where
  "perps_derive_state specs =
     (let w = fold perps_want specs \<lparr>pw_channels = {}, pw_ticker_ids = {}, pw_statistic_ids = {},
                pw_all_tickers = False, pw_all_statistics = False\<rparr>
      in pw_channels w
         \<union> (if pw_all_tickers w then {''tickers::all''} else (\<lambda>i. ''tickers::'' @ str_int i) ` pw_ticker_ids w)
         \<union> (if pw_all_statistics w then {''statistics::all''}
            else (\<lambda>i. ''statistics::'' @ str_int i) ` pw_statistic_ids w))"

definition build_channel_frame :: "int \<Rightarrow> string \<Rightarrow> string list \<Rightarrow> pyval" where
  "build_channel_frame request_id operation channels = PDict [
     (''id'', PInt request_id), (''req'', PStr operation), (''chs'', py_strs (sort channels))]"

definition diff_channels :: "string set \<Rightarrow> string set \<Rightarrow> string list \<times> string list" where
  "diff_channels before after = (sorted_list_of_set (after - before), sorted_list_of_set (before - after))"

text \<open>\<open>_send_channel_frames\<close> and \<open>_send_subscribe\<close> of the manager: what is sent, without the request
  numbers, which the server only echoes.\<close>

datatype channel_request = SubChannels "string list" | UnsubChannels "string list"

definition channel_requests :: "string list \<times> string list \<Rightarrow> channel_request list" where
  "channel_requests d = (case d of (added, removed) \<Rightarrow>
     (if added \<noteq> [] then [SubChannels added] else []) @ (if removed \<noteq> [] then [UnsubChannels removed] else []))"

definition perps_initial :: "string set \<Rightarrow> channel_request list" where
  "perps_initial state = (if state \<noteq> {} then [SubChannels (sorted_list_of_set state)] else [])"

fun perps_receive :: "channel_request \<Rightarrow> string set \<Rightarrow> string set" where
  "perps_receive (SubChannels chs) view = view \<union> set chs"
| "perps_receive (UnsubChannels chs) view = view - set chs"

fun all_channel :: "perps_spec \<Rightarrow> string" where
  "all_channel (PerpsTickersSpec i) = ''tickers::all''"
| "all_channel (PerpsStatisticsSpec i) = ''statistics::all''"
| "all_channel spec = channel_for spec"

text \<open>A subscription is served by its own channel or by the channel of all instruments.\<close>

definition perps_serves :: "string set \<Rightarrow> perps_spec list \<Rightarrow> bool" where
  "perps_serves view specs \<longleftrightarrow> (\<forall>s\<in>set specs. channel_for s \<in> view \<or> all_channel s \<in> view)"

definition wants_tickers :: "perps_spec list \<Rightarrow> bool" where
  "wants_tickers specs \<longleftrightarrow> PerpsTickersSpec None \<in> set specs"

definition wants_statistics :: "perps_spec list \<Rightarrow> bool" where
  "wants_statistics specs \<longleftrightarrow> PerpsStatisticsSpec None \<in> set specs"

fun plain_spec :: "perps_spec \<Rightarrow> bool" where
  "plain_spec (PerpsTickersSpec i) = False"
| "plain_spec (PerpsStatisticsSpec i) = False"
| "plain_spec s = True"

lemma perps_want_fold:
  "fold perps_want specs w = \<lparr>pw_channels = pw_channels w \<union> channel_for ` set (filter plain_spec specs),
     pw_ticker_ids = pw_ticker_ids w \<union> {i. PerpsTickersSpec (Some i) \<in> set specs},
     pw_statistic_ids = pw_statistic_ids w \<union> {i. PerpsStatisticsSpec (Some i) \<in> set specs},
     pw_all_tickers = (pw_all_tickers w \<or> wants_tickers specs),
     pw_all_statistics = (pw_all_statistics w \<or> wants_statistics specs)\<rparr>"
proof (induction specs arbitrary: w)
  case (Cons s specs)
  show ?case unfolding fold_Cons o_apply Cons.IH
    by (cases s) (auto simp: wants_tickers_def wants_statistics_def split: option.splits)
qed (auto simp: wants_tickers_def wants_statistics_def)

lemma perps_derive_eq:
  "perps_derive_state specs = channel_for ` set (filter plain_spec specs)
     \<union> (if wants_tickers specs then {''tickers::all''}
        else (\<lambda>i. ''tickers::'' @ str_int i) ` {i. PerpsTickersSpec (Some i) \<in> set specs})
     \<union> (if wants_statistics specs then {''statistics::all''}
        else (\<lambda>i. ''statistics::'' @ str_int i) ` {i. PerpsStatisticsSpec (Some i) \<in> set specs})"
  by (simp add: perps_derive_state_def perps_want_fold Let_def)

lemma str_int_not_all: "str_int i \<noteq> ''all''"
proof
  assume a: "str_int i = ''all''"
  have "is_digit (hd (dec_digits i)) \<or> i < 0"
    using dec_digits_all [of i] dec_digits_nonempty [of i] by (cases "dec_digits i") auto
  with a show False by (auto simp: str_int_def is_digit_def split: if_splits)
qed

lemma perps_derived_covers:
  assumes "s \<in> set specs"
  shows "channel_for s \<in> perps_derive_state specs \<or> all_channel s \<in> perps_derive_state specs"
proof (cases s)
  case (PerpsTickersSpec i)
  with assms show ?thesis
    by (cases i) (auto simp: perps_derive_eq wants_tickers_def)
next
  case (PerpsStatisticsSpec i)
  with assms show ?thesis
    by (cases i) (auto simp: perps_derive_eq wants_statistics_def)
qed (use assms in \<open>auto simp: perps_derive_eq intro!: image_eqI [where x = s]\<close>)

text \<open>Which subscriptions a derived channel can come from.\<close>

lemma ticker_channel_derived:
  "''tickers::'' @ x \<in> perps_derive_state specs \<longleftrightarrow>
    (if wants_tickers specs then x = ''all'' else \<exists>i. x = str_int i \<and> PerpsTickersSpec (Some i) \<in> set specs)"
proof -
  have "''tickers::'' @ x \<noteq> channel_for s" if "plain_spec s" for s using that by (cases s) auto
  then show ?thesis by (auto simp: perps_derive_eq image_iff)
qed

lemma statistics_channel_derived:
  "''statistics::'' @ x \<in> perps_derive_state specs \<longleftrightarrow>
    (if wants_statistics specs then x = ''all'' else \<exists>i. x = str_int i \<and> PerpsStatisticsSpec (Some i) \<in> set specs)"
proof -
  have "''statistics::'' @ x \<noteq> channel_for s" if "plain_spec s" for s using that by (cases s) auto
  then show ?thesis by (auto simp: perps_derive_eq image_iff)
qed

lemma plain_channel_derived:
  assumes "plain_spec s"
  shows "channel_for s \<in> perps_derive_state specs \<longleftrightarrow> channel_for s \<in> channel_for ` set (filter plain_spec specs)"
proof -
  have "channel_for s \<noteq> ''tickers::'' @ x" "channel_for s \<noteq> ''statistics::'' @ x" for x
    using assms by (cases s; simp)+
  from this(1) [of "''all''"] this(2) [of "''all''"] this(1,2) [of "str_int _"] show ?thesis
    unfolding perps_derive_eq by auto
qed

lemma perps_plain_kept:
  assumes "perps_serves view subs" "plain_spec s" "channel_for s \<in> perps_derive_state subs"
  shows "channel_for s \<in> view"
proof -
  obtain s' where s': "s' \<in> set subs" "plain_spec s'" "channel_for s = channel_for s'"
    using assms plain_channel_derived [OF assms(2), of subs] by auto
  have "all_channel s' = channel_for s'" using s'(2) by (cases s') auto
  then show ?thesis using assms(1) s' by (force simp: perps_serves_def)
qed

lemma perps_kept:
  assumes v: "perps_serves view subs" and c: "c \<in> perps_derive_state subs"
    and s: "c = channel_for s \<or> c = all_channel s"
  shows "c \<in> view \<or> all_channel s \<in> view \<and> all_channel s \<notin> perps_derive_state subs"
proof (cases s)
  case (PerpsTickersSpec i)
  define x where "x = (case i of None \<Rightarrow> ''all'' | Some i \<Rightarrow> str_int i)"
  have "channel_for s = ''tickers::'' @ x" by (simp add: PerpsTickersSpec x_def split: option.splits)
  then consider "c = ''tickers::all''" | "c = ''tickers::'' @ x" using s PerpsTickersSpec by auto
  then obtain y where y: "c = ''tickers::'' @ y" by cases auto
  show ?thesis
  proof (cases "wants_tickers subs")
    case True
    then have "PerpsTickersSpec None \<in> set subs" "c = ''tickers::all''"
      using c y ticker_channel_derived [of y subs] by (auto simp: wants_tickers_def)
    then show ?thesis using v by (force simp: perps_serves_def)
  next
    case False
    then obtain i' where "PerpsTickersSpec (Some i') \<in> set subs" "c = ''tickers::'' @ str_int i'"
      using c y ticker_channel_derived [of y subs] by auto
    then have "c \<in> view \<or> ''tickers::all'' \<in> view" using v by (force simp: perps_serves_def)
    moreover have "''tickers::all'' \<notin> perps_derive_state subs"
      using ticker_channel_derived [of "''all''" subs] False str_int_not_all by auto
    ultimately show ?thesis by (simp add: PerpsTickersSpec)
  qed
next
  case (PerpsStatisticsSpec i)
  define x where "x = (case i of None \<Rightarrow> ''all'' | Some i \<Rightarrow> str_int i)"
  have "channel_for s = ''statistics::'' @ x" by (simp add: PerpsStatisticsSpec x_def split: option.splits)
  then consider "c = ''statistics::all''" | "c = ''statistics::'' @ x" using s PerpsStatisticsSpec by auto
  then obtain y where y: "c = ''statistics::'' @ y" by cases auto
  show ?thesis
  proof (cases "wants_statistics subs")
    case True
    then have "PerpsStatisticsSpec None \<in> set subs" "c = ''statistics::all''"
      using c y statistics_channel_derived [of y subs] by (auto simp: wants_statistics_def)
    then show ?thesis using v by (force simp: perps_serves_def)
  next
    case False
    then obtain i' where "PerpsStatisticsSpec (Some i') \<in> set subs" "c = ''statistics::'' @ str_int i'"
      using c y statistics_channel_derived [of y subs] by auto
    then have "c \<in> view \<or> ''statistics::all'' \<in> view" using v by (force simp: perps_serves_def)
    moreover have "''statistics::all'' \<notin> perps_derive_state subs"
      using statistics_channel_derived [of "''all''" subs] False str_int_not_all by auto
    ultimately show ?thesis by (simp add: PerpsStatisticsSpec)
  qed
qed (use perps_plain_kept [OF v, of s] c s in auto)

interpretation perps: stream_protocol perps_derive_state perps_initial "\<lambda>a b. channel_requests (diff_channels a b)"
  perps_receive "{}" perps_serves "\<lambda>_. True"
proof unfold_locales
  have fin: "finite (perps_derive_state subs)" for subs
  proof -
    have "finite {i. f (Some i) \<in> set subs}" if "inj f" for f :: "int option \<Rightarrow> perps_spec"
      using finite_vimageI [of "set subs" "\<lambda>i. f (Some i)"] that by (auto simp: vimage_def inj_def)
    then show ?thesis by (simp add: perps_derive_eq inj_def)
  qed
  have eq: "fold perps_receive (channel_requests (diff_channels (perps_derive_state a) (perps_derive_state b))) v
      = (v \<union> (perps_derive_state b - perps_derive_state a)) - (perps_derive_state a - perps_derive_state b)" for a b v
  proof -
    have 1: "fold perps_receive (if cs \<noteq> [] then [SubChannels cs] else []) v = v \<union> set cs" for cs v by simp
    have 2: "fold perps_receive (if cs \<noteq> [] then [UnsubChannels cs] else []) v = v - set cs" for cs v by simp
    show ?thesis
      unfolding channel_requests_def diff_channels_def split fold_append o_apply 1 2 using fin by simp
  qed
  fix subs :: "perps_spec list"
  show "perps_serves (fold perps_receive (perps_initial (perps_derive_state subs)) {}) subs"
  proof (cases "perps_derive_state subs = {}")
    case True
    have "subs = []"
    proof (cases subs)
      case (Cons s rest)
      then show ?thesis using perps_derived_covers [of s subs] True by simp
    qed simp
    then show ?thesis by (simp add: perps_serves_def)
  next
    case False
    with fin show ?thesis using perps_derived_covers [of _ subs] by (simp add: perps_initial_def perps_serves_def)
  qed
  fix subs' v assume v: "perps_serves v subs"
  have serve: "perps_serves (fold perps_receive (channel_requests (diff_channels (perps_derive_state subs) (perps_derive_state subs'))) v) subs'"
    for subs'
    unfolding perps_serves_def eq
  proof
    fix s assume "s \<in> set subs'"
    then obtain c where c: "c = channel_for s \<or> c = all_channel s" "c \<in> perps_derive_state subs'"
      using perps_derived_covers by blast
    then show "channel_for s \<in> v \<union> (perps_derive_state subs' - perps_derive_state subs) - (perps_derive_state subs - perps_derive_state subs')
        \<or> all_channel s \<in> v \<union> (perps_derive_state subs' - perps_derive_state subs) - (perps_derive_state subs - perps_derive_state subs')"
      using perps_kept [OF v _ c(1)] by blast
  qed
  then show "perps_serves (fold perps_receive (channel_requests (diff_channels (perps_derive_state subs) (perps_derive_state subs'))) v) subs'" .
  fix s n
  let ?fs = "channel_requests (diff_channels (perps_derive_state subs) (perps_derive_state (subs @ [s])))"
  have whole: "perps_serves (fold perps_receive ?fs v) subs"
    using serve [of "subs @ [s]"] by (simp add: perps_serves_def)
  have "perps_serves (perps_receive (SubChannels chs) v) subs" for chs
    using v unfolding perps_serves_def by auto
  then show "perps_serves (fold perps_receive (take n ?fs) v) subs"
    using v whole unfolding channel_requests_def diff_channels_def split
    by (intro prefix_two_parts [where P = "\<lambda>v. perps_serves v subs"]) simp_all
qed (simp_all add: perps_serves_def)

text \<open>Which events a subscription of the perpetuals stream receives.\<close>

datatype perps_event =
    PerpsTradeEvent string
  | PerpsBboEvent int
  | PerpsBookEvent int
  | PerpsTickerEvent int
  | PerpsStatisticEvent int
  | PerpsCandleEvent int string

fun perps_match_for :: "perps_spec \<Rightarrow> perps_event \<Rightarrow> bool" where
  "perps_match_for (PerpsTradesSpec i) (PerpsTradeEvent channel) = (channel = channel_for (PerpsTradesSpec i))"
| "perps_match_for (PerpsCandlesSpec i interval) (PerpsCandleEvent j interval') = (j = i \<and> interval' = interval)"
| "perps_match_for (PerpsTickersSpec i) (PerpsTickerEvent j) = (i = None \<or> i = Some j)"
| "perps_match_for (PerpsStatisticsSpec i) (PerpsStatisticEvent j) = (i = None \<or> i = Some j)"
| "perps_match_for (PerpsBboSpec i) (PerpsBboEvent j) = (j = i)"
| "perps_match_for (PerpsBookSpec i) (PerpsBookEvent j) = (j = i)"
| "perps_match_for _ _ = False"

end
