(* ===== verification/Stream_Manager.thy ===== *)
theory Stream_Manager imports Subscription_Handle Stream_Protocols begin

text \<open>
  The stream managers: \<open>_internal/streams/registry.py\<close>, \<open>reconnect.py\<close>, \<open>_internal/ws/backoff.py\<close>, the
  connection of \<open>_internal/ws/connection.py\<close> as far as a manager sees it, and the managers built from
  them, which are one program up to their protocol: \<open>clob/market.py\<close>, \<open>clob/user.py\<close>,
  \<open>perps/market.py\<close> and \<open>rtds/manager.py\<close>. A protocol is a record of its functions; one that has to
  fetch credentials before its opening frame says so.

  The routines run as tasks on one event loop and give way only where they wait, so each step goes
  from one such point to the next, and the lock that serialises them is the owner of a phase. What the
  server streams on an open socket is a specification variable that the sent frames change.
\<close>

section \<open>Delays between attempts\<close>

definition DEFAULT_BASE_DELAY_S :: rat where "DEFAULT_BASE_DELAY_S = 1 / 4"

definition DEFAULT_MAX_DELAY_S :: rat where "DEFAULT_MAX_DELAY_S = 30"

definition jittered_backoff :: "int \<Rightarrow> rat \<Rightarrow> rat \<Rightarrow> rat \<Rightarrow> rat res" where
  "jittered_backoff attempt base_s max_s draw =
     (if attempt < 0 then Raise ValueError
      else if base_s \<le> 0 then Raise ValueError
      else if max_s < base_s then Raise ValueError
      else
        let bounded_attempt = min attempt 64;
            cap = min (base_s * 2 ^ nat bounded_attempt) max_s
        in Ok (draw * cap))"

lemma jittered_backoff_bounds:
  assumes "jittered_backoff attempt base_s max_s draw = Ok delay" "0 \<le> draw" "draw < 1"
  shows "0 \<le> delay" "delay < max_s"
proof -
  let ?cap = "min (base_s * 2 ^ nat (min attempt 64)) max_s"
  have d: "delay = draw * ?cap" and pos: "0 < base_s" "base_s \<le> max_s"
    using assms(1) by (auto simp: jittered_backoff_def Let_def split: if_splits)
  have cap: "0 < ?cap" "?cap \<le> max_s" using pos by auto
  from assms cap show "0 \<le> delay" by (simp add: d)
  have "draw * ?cap < 1 * ?cap" using assms(3) cap(1) by (intro mult_strict_right_mono)
  then show "delay < max_s" using cap(2) by (simp add: d)
qed

section \<open>The registry of subscriptions\<close>

text \<open>The entries name their handles by number; the handles themselves, which consumers hold too, are a
  list. A matcher may raise, and then the entry does not receive the event.\<close>

type_synonym 's entries = "(nat \<times> 's) list"

definition registry_add :: "'s \<Rightarrow> nat \<Rightarrow> 's entries \<Rightarrow> 's entries" where
  "registry_add sub h entries = entries @ [(h, sub)]"

fun remove_handle :: "nat \<Rightarrow> 's entries \<Rightarrow> bool \<times> 's entries" where
  "remove_handle h [] = (False, [])"
| "remove_handle h ((h', sub) # entries) =
     (if h' = h then (True, entries)
      else case remove_handle h entries of (removed, rest) \<Rightarrow> (removed, (h', sub) # rest))"

definition server_state :: "('s list \<Rightarrow> 'st) \<Rightarrow> 's entries \<Rightarrow> 'st" where
  "server_state derive entries = derive (map snd entries)"

definition update_handle :: "nat \<Rightarrow> ('e handle \<Rightarrow> 'e handle) \<Rightarrow> 'e handle list \<Rightarrow> 'e handle list" where
  "update_handle h f hs = hs[h := f (hs ! h)]"

definition dispatch_event :: "('s \<Rightarrow> 'e \<Rightarrow> bool res) \<Rightarrow> 'e \<Rightarrow> 's entries \<Rightarrow> 'e handle list \<Rightarrow> 'e handle list" where
  "dispatch_event matcher event entries hs =
     fold (\<lambda>(h, sub) hs. case matcher sub event of
             Inl _ \<Rightarrow> hs
           | Inr matched \<Rightarrow> if matched then update_handle h (push event) hs else hs) entries hs"

definition end_all :: "py_error option \<Rightarrow> 's entries \<Rightarrow> 'e handle list \<Rightarrow> 'e handle list" where
  "end_all error entries hs = fold (\<lambda>(h, sub) hs. update_handle h (end_handle error False) hs) entries hs"

lemma update_handle_simps [simp]:
  "length (update_handle h f hs) = length hs"
  "h < length hs \<Longrightarrow> update_handle h f hs ! h = f (hs ! h)"
  "h \<noteq> i \<Longrightarrow> update_handle h f hs ! i = hs ! i"
  by (simp_all add: update_handle_def)

lemma remove_handle_eq:
  "distinct (map fst entries) \<Longrightarrow>
    remove_handle h entries = (h \<in> fst ` set entries, filter (\<lambda>p. fst p \<noteq> h) entries)"
proof (induction entries)
  case (Cons p entries)
  have "filter (\<lambda>p. fst p \<noteq> h) entries = entries" if "h \<notin> fst ` set entries"
    using that by (intro filter_True) auto
  with Cons show ?case by (cases p) auto
qed simp

lemma dispatch_event_Cons:
  "dispatch_event matcher event ((h, sub) # entries) hs = dispatch_event matcher event entries
     (if matcher sub event = Ok True then update_handle h (push event) hs else hs)"
  by (cases "matcher sub event") (auto simp: dispatch_event_def)

lemma length_dispatch_event [simp]: "length (dispatch_event matcher event entries hs) = length hs"
proof (induction entries arbitrary: hs)
  case (Cons p entries)
  then show ?case by (cases p) (simp add: dispatch_event_Cons)
qed (simp add: dispatch_event_def)

lemma length_end_all [simp]: "length (end_all error entries hs) = length hs"
proof (induction entries arbitrary: hs)
  case (Cons p entries)
  then show ?case by (cases p) (simp add: end_all_def)
qed (simp add: end_all_def)

text \<open>Dispatching an event pushes it once to each registered handle whose matcher accepts it, and leaves
  every other handle as it is.\<close>

lemma dispatch_event_nth:
  assumes "distinct (map fst entries)" "\<forall>h\<in>fst ` set entries. h < length hs"
  shows "dispatch_event matcher event entries hs ! i =
    (if \<exists>sub. (i, sub) \<in> set entries \<and> matcher sub event = Ok True then push event (hs ! i) else hs ! i)"
  using assms
proof (induction entries arbitrary: hs)
  case (Cons p entries)
  obtain h sub where p: "p = (h, sub)" by (cases p)
  let ?hs = "if matcher sub event = Ok True then update_handle h (push event) hs else hs"
  have IH: "dispatch_event matcher event entries ?hs ! i =
    (if \<exists>sub. (i, sub) \<in> set entries \<and> matcher sub event = Ok True then push event (?hs ! i) else ?hs ! i)"
    using Cons.prems by (intro Cons.IH) (auto simp: p)
  show ?case
  proof (cases "i = h")
    case True
    then have "\<nexists>sub. (i, sub) \<in> set entries" using Cons.prems(1) p by (force simp: image_iff)
    then show ?thesis using IH True Cons.prems(2) by (auto simp: p dispatch_event_Cons)
  next
    case False
    then have "(\<exists>sub. (i, sub) \<in> set (p # entries) \<and> matcher sub event = Ok True)
        \<longleftrightarrow> (\<exists>sub. (i, sub) \<in> set entries \<and> matcher sub event = Ok True)" by (auto simp: p)
    then show ?thesis using IH False unfolding p dispatch_event_Cons by (simp only:) auto
  qed
qed (simp add: dispatch_event_def)

lemma end_all_nth:
  assumes "distinct (map fst entries)" "\<forall>h\<in>fst ` set entries. h < length hs"
  shows "end_all error entries hs ! i =
    (if i \<in> fst ` set entries then end_handle error False (hs ! i) else hs ! i)"
  using assms
proof (induction entries arbitrary: hs)
  case (Cons p entries)
  obtain h sub where p: "p = (h, sub)" by (cases p)
  have IH: "end_all error entries (update_handle h (end_handle error False) hs) ! i =
    (if i \<in> fst ` set entries then end_handle error False (update_handle h (end_handle error False) hs ! i)
     else update_handle h (end_handle error False) hs ! i)"
    using Cons.prems by (intro Cons.IH) (auto simp: p)
  have e: "end_all error (p # entries) hs = end_all error entries (update_handle h (end_handle error False) hs)"
    by (simp add: p end_all_def)
  show ?case
  proof (cases "i = h")
    case True
    then have "i \<notin> fst ` set entries" using Cons.prems(1) p by auto
    then show ?thesis using IH True Cons.prems(2) unfolding e by (simp add: p)
  next
    case False
    then show ?thesis using IH unfolding e by (simp add: p)
  qed
qed (simp add: end_all_def)

section \<open>The state of a manager\<close>

record ('s, 'st, 'f, 'v, 'e) protocol =
  pr_derive :: "'s list \<Rightarrow> 'st"
  pr_initial :: "'st \<Rightarrow> 'f list"
  pr_updates :: "'st \<Rightarrow> 'st \<Rightarrow> 'f list"
  pr_matcher :: "'s \<Rightarrow> 'e \<Rightarrow> bool res"
  pr_accepts :: "'s \<Rightarrow> bool"
  pr_credentialed :: bool
  pr_receive :: "'f \<Rightarrow> 'v \<Rightarrow> 'v"
  pr_fresh :: 'v

text \<open>The socket of the connection: none, open and streaming a view, or closed by the server while the
  reader has yet to notice.\<close>

datatype 'v socket = NoSocket | Open 'v | Stale

datatype 's waiter = WaitSubscribe nat 's | WaitClose nat | WaitReconnect

text \<open>Who holds \<open>_send_lock\<close>, and where it waits.\<close>

datatype ('st, 'f) holder =
    Free
  | Connecting nat 'st 'st
  | FetchingCredentials nat 'st
  | SendingSubscribe nat "'f list"
  | SendingClose nat "'f list"
  | Reconnecting
  | RefetchingCredentials

record ('s, 'st, 'f, 'v, 'e) manager =
  mg_entries :: "'s entries"
  mg_handles :: "'e handle list"
  mg_socket :: "'v socket"
  mg_timer :: bool
  mg_attempt :: nat
  mg_stopped :: bool
  mg_closed :: bool
  mg_shutting :: bool
  mg_holder :: "('st, 'f) holder"
  mg_waiting :: "'s waiter list"
  mg_reporting :: nat
  mg_queue_size :: int

text \<open>\<open>mg_reporting\<close> counts the readers that gave up their socket and have still to call
  \<open>on_connection_lost\<close>; \<open>mg_shutting\<close> that \<open>close\<close> of the manager has still to close the connection.\<close>

definition new_manager :: "int \<Rightarrow> ('s, 'st, 'f, 'v, 'e) manager res" where
  "new_manager queue_size =
     (if queue_size \<le> 0 then Raise ValueError
      else Ok \<lparr>mg_entries = [], mg_handles = [], mg_socket = NoSocket, mg_timer = False, mg_attempt = 0,
                mg_stopped = False, mg_closed = False, mg_shutting = False, mg_holder = Free, mg_waiting = [],
                mg_reporting = 0, mg_queue_size = queue_size\<rparr>)"

definition should_reconnect :: "('s, 'st, 'f, 'v, 'e) manager \<Rightarrow> bool" where
  "should_reconnect m \<longleftrightarrow> \<not> mg_closed m \<and> mg_entries m \<noteq> []"

definition schedule :: "('s, 'st, 'f, 'v, 'e) manager \<Rightarrow> ('s, 'st, 'f, 'v, 'e) manager" where
  "schedule m =
     (if mg_stopped m \<or> mg_timer m \<or> \<not> should_reconnect m then m
      else m\<lparr>mg_attempt := mg_attempt m + 1, mg_timer := True\<rparr>)"

definition cancel_pending :: "('s, 'st, 'f, 'v, 'e) manager \<Rightarrow> ('s, 'st, 'f, 'v, 'e) manager" where
  "cancel_pending m = m\<lparr>mg_timer := False, mg_attempt := 0\<rparr>"

definition scheduler_reset :: "('s, 'st, 'f, 'v, 'e) manager \<Rightarrow> ('s, 'st, 'f, 'v, 'e) manager" where
  "scheduler_reset m = m\<lparr>mg_attempt := 0\<rparr>"

text \<open>\<open>aclose\<close> of the scheduler.\<close>

definition scheduler_close :: "('s, 'st, 'f, 'v, 'e) manager \<Rightarrow> ('s, 'st, 'f, 'v, 'e) manager" where
  "scheduler_close m = m\<lparr>mg_stopped := True, mg_timer := False\<rparr>"

text \<open>\<open>send\<close> of the connection: false, and no effect, unless the socket is open.\<close>

definition is_open :: "('s, 'st, 'f, 'v, 'e) manager \<Rightarrow> bool" where
  "is_open m = (case mg_socket m of Open _ \<Rightarrow> True | _ \<Rightarrow> False)"

definition send ::
  "('s, 'st, 'f, 'v, 'e) protocol \<Rightarrow> 'f \<Rightarrow> ('s, 'st, 'f, 'v, 'e) manager \<Rightarrow> bool \<times> ('s, 'st, 'f, 'v, 'e) manager" where
  "send p frame m =
     (case mg_socket m of Open v \<Rightarrow> (True, m\<lparr>mg_socket := Open (pr_receive p frame v)\<rparr>) | _ \<Rightarrow> (False, m))"

definition send_initial ::
  "('s, 'st, 'f, 'v, 'e) protocol \<Rightarrow> 'st \<Rightarrow> ('s, 'st, 'f, 'v, 'e) manager \<Rightarrow> ('s, 'st, 'f, 'v, 'e) manager" where
  "send_initial p state m = fold (\<lambda>f m. snd (send p f m)) (pr_initial p state) m"

text \<open>\<open>close\<close> of the connection: the socket is claimed before its reader could report the loss.\<close>

definition close_connection :: "('s, 'st, 'f, 'v, 'e) manager \<Rightarrow> ('s, 'st, 'f, 'v, 'e) manager" where
  "close_connection m = m\<lparr>mg_socket := NoSocket\<rparr>"

section \<open>The steps of a manager\<close>

text \<open>
  \<open>subscribe\<close> is cut where it waits: for the lock, for the connection, for credentials and after each
  frame. \<open>begin_subscribe\<close> runs from the lock to the connection, \<open>subscribed_reused\<close> and
  \<open>subscribed_opened\<close> from there on, and \<open>rollback\<close> is the \<open>except\<close> clause.
\<close>

definition begin_subscribe ::
  "('s, 'st, 'f, 'v, 'e) protocol \<Rightarrow> nat \<Rightarrow> 's \<Rightarrow> ('s, 'st, 'f, 'v, 'e) manager \<Rightarrow> ('s, 'st, 'f, 'v, 'e) manager" where
  "begin_subscribe p h sub m =
     (let before = server_state (pr_derive p) (mg_entries m);
          m = m\<lparr>mg_entries := registry_add sub h (mg_entries m)\<rparr>;
          after = server_state (pr_derive p) (mg_entries m)
      in m\<lparr>mg_holder := Connecting h before after\<rparr>)"

definition rollback :: "nat \<Rightarrow> ('s, 'st, 'f, 'v, 'e) manager \<Rightarrow> ('s, 'st, 'f, 'v, 'e) manager" where
  "rollback h m =
     (let m = m\<lparr>mg_entries := snd (remove_handle h (mg_entries m)),
                mg_handles := update_handle h (end_handle None False) (mg_handles m), mg_holder := Free\<rparr>
      in if mg_entries m = [] \<and> is_open m then close_connection (cancel_pending m) else m)"

definition subscribed_opened ::
  "('s, 'st, 'f, 'v, 'e) protocol \<Rightarrow> nat \<Rightarrow> 'st \<Rightarrow> ('s, 'st, 'f, 'v, 'e) manager \<Rightarrow> ('s, 'st, 'f, 'v, 'e) manager" where
  "subscribed_opened p h after m =
     (let m = cancel_pending m in
      if pr_credentialed p then m\<lparr>mg_holder := FetchingCredentials h after\<rparr>
      else (send_initial p after m)\<lparr>mg_holder := SendingSubscribe h []\<rparr>)"

text \<open>\<open>_on_handle_close\<close>, up to its first frame, and the end of the handle that follows it.\<close>

definition finish_handle_close :: "nat \<Rightarrow> ('s, 'st, 'f, 'v, 'e) manager \<Rightarrow> ('s, 'st, 'f, 'v, 'e) manager" where
  "finish_handle_close h m = m\<lparr>mg_handles := update_handle h do_close (mg_handles m), mg_holder := Free\<rparr>"

definition begin_close ::
  "('s, 'st, 'f, 'v, 'e) protocol \<Rightarrow> nat \<Rightarrow> ('s, 'st, 'f, 'v, 'e) manager \<Rightarrow> ('s, 'st, 'f, 'v, 'e) manager" where
  "begin_close p h m =
     (let before = server_state (pr_derive p) (mg_entries m) in
      case remove_handle h (mg_entries m) of (removed, entries) \<Rightarrow>
        let m = m\<lparr>mg_entries := entries\<rparr> in
        if \<not> removed then finish_handle_close h m
        else if mg_entries m = [] then finish_handle_close h (close_connection (cancel_pending m))
        else m\<lparr>mg_holder := SendingClose h (pr_updates p before (server_state (pr_derive p) (mg_entries m)))\<rparr>)"

text \<open>\<open>_reconnect\<close>, before and after it has a connection.\<close>

definition begin_reconnect :: "('s, 'st, 'f, 'v, 'e) manager \<Rightarrow> ('s, 'st, 'f, 'v, 'e) manager" where
  "begin_reconnect m = (if \<not> should_reconnect m then m\<lparr>mg_holder := Free\<rparr> else m\<lparr>mg_holder := Reconnecting\<rparr>)"

definition reconnected ::
  "('s, 'st, 'f, 'v, 'e) protocol \<Rightarrow> bool \<Rightarrow> ('s, 'st, 'f, 'v, 'e) manager \<Rightarrow> ('s, 'st, 'f, 'v, 'e) manager" where
  "reconnected p reused m =
     (if mg_closed m then (close_connection m)\<lparr>mg_holder := Free\<rparr>
      else if reused then m\<lparr>mg_holder := Free\<rparr>
      else
        let m = scheduler_reset m in
        if pr_credentialed p then m\<lparr>mg_holder := RefetchingCredentials\<rparr>
        else (send_initial p (server_state (pr_derive p) (mg_entries m)) m)\<lparr>mg_holder := Free\<rparr>)"

definition take_lock ::
  "('s, 'st, 'f, 'v, 'e) protocol \<Rightarrow> 's waiter \<Rightarrow> ('s, 'st, 'f, 'v, 'e) manager \<Rightarrow> ('s, 'st, 'f, 'v, 'e) manager" where
  "take_lock p waiter m =
     (case waiter of
        WaitSubscribe h sub \<Rightarrow> begin_subscribe p h sub m
      | WaitClose h \<Rightarrow> begin_close p h m
      | WaitReconnect \<Rightarrow> begin_reconnect m)"

definition manager_close :: "('s, 'st, 'f, 'v, 'e) manager \<Rightarrow> ('s, 'st, 'f, 'v, 'e) manager" where
  "manager_close m =
     (if mg_closed m then m
      else
        let m = scheduler_close (m\<lparr>mg_closed := True\<rparr>) in
        m\<lparr>mg_handles := end_all None (mg_entries m) (mg_handles m), mg_entries := [], mg_shutting := True\<rparr>)"

text \<open>A consumer holds a handle once \<open>subscribe\<close> has returned it.\<close>

definition subscribing :: "('s, 'st, 'f, 'v, 'e) manager \<Rightarrow> nat set" where
  "subscribing m = (case mg_holder m of
       Connecting h before after \<Rightarrow> {h}
     | FetchingCredentials h after \<Rightarrow> {h}
     | SendingSubscribe h frames \<Rightarrow> {h}
     | _ \<Rightarrow> {})"

fun subscribers_waiting :: "'s waiter list \<Rightarrow> (nat \<times> 's) list" where
  "subscribers_waiting [] = []"
| "subscribers_waiting (WaitSubscribe h sub # ws) = (h, sub) # subscribers_waiting ws"
| "subscribers_waiting (_ # ws) = subscribers_waiting ws"

definition handed_out :: "('s, 'st, 'f, 'v, 'e) manager \<Rightarrow> nat \<Rightarrow> bool" where
  "handed_out m h \<longleftrightarrow> h < length (mg_handles m) \<and> h \<notin> subscribing m
     \<and> h \<notin> fst ` set (subscribers_waiting (mg_waiting m))"

text \<open>Closing the connection waits for an attempt to connect that is under way.\<close>

definition is_connecting :: "('s, 'st, 'f, 'v, 'e) manager \<Rightarrow> bool" where
  "is_connecting m = (case mg_holder m of Connecting h before after \<Rightarrow> True | Reconnecting \<Rightarrow> True | _ \<Rightarrow> False)"

text \<open>The calls of users, the answers of the network and of the source of credentials, and the turns of
  the tasks that wait.\<close>

datatype ('s, 'e) happening =
    SubscribeCall 's
  | CloseHandleCall nat
  | CloseManagerCall
  | ConnectionShut
  | LockTaken
  | SocketReused
  | SocketOpened
  | ConnectRefused
  | SubscribeCancelled
  | CredentialsFetched
  | CredentialsFailed
  | FrameSent
  | LockReleased
  | SocketDropped
  | ReaderStopped
  | LossReported
  | TimerFired
  | MessageRead 'e

fun manager_step ::
  "('s, 'st, 'f, 'v, 'e) protocol \<Rightarrow> ('s, 'e) happening \<Rightarrow> ('s, 'st, 'f, 'v, 'e) manager \<Rightarrow> ('s, 'st, 'f, 'v, 'e) manager option" where
  "manager_step p (SubscribeCall sub) m =
     (if mg_closed m \<or> \<not> pr_accepts p sub then None
      else case new_handle (mg_queue_size m) of
        Inl _ \<Rightarrow> None
      | Inr h \<Rightarrow> Some (m\<lparr>mg_waiting := mg_waiting m @ [WaitSubscribe (length (mg_handles m)) sub],
                        mg_handles := mg_handles m @ [h]\<rparr>))"
| "manager_step p (CloseHandleCall h) m =
     (if handed_out m h then Some (m\<lparr>mg_waiting := mg_waiting m @ [WaitClose h]\<rparr>) else None)"
| "manager_step p CloseManagerCall m = Some (manager_close m)"
| "manager_step p ConnectionShut m =
     (if mg_shutting m \<and> \<not> is_connecting m
      then Some ((close_connection m)\<lparr>mg_shutting := False\<rparr>) else None)"
| "manager_step p LockTaken m =
     (case (mg_holder m, mg_waiting m) of
        (Free, waiter # rest) \<Rightarrow> Some (take_lock p waiter (m\<lparr>mg_waiting := rest\<rparr>))
      | _ \<Rightarrow> None)"
| "manager_step p SocketReused m =
     (if is_open m
      then (case mg_holder m of
              Connecting h before after \<Rightarrow> Some (m\<lparr>mg_holder := SendingSubscribe h (pr_updates p before after)\<rparr>)
            | Reconnecting \<Rightarrow> Some (reconnected p True m)
            | _ \<Rightarrow> None)
      else None)"
| "manager_step p SocketOpened m =
     (if \<not> is_open m
      then (case mg_holder m of
              Connecting h before after \<Rightarrow> Some (subscribed_opened p h after (m\<lparr>mg_socket := Open (pr_fresh p)\<rparr>))
            | Reconnecting \<Rightarrow> Some (reconnected p False (m\<lparr>mg_socket := Open (pr_fresh p)\<rparr>))
            | _ \<Rightarrow> None)
      else None)"
| "manager_step p ConnectRefused m =
     (if \<not> is_open m
      then (case mg_holder m of
              Connecting h before after \<Rightarrow> Some (rollback h (close_connection m))
            | Reconnecting \<Rightarrow> Some (schedule ((close_connection m)\<lparr>mg_holder := Free\<rparr>))
            | _ \<Rightarrow> None)
      else None)"
| "manager_step p SubscribeCancelled m =
     (case mg_holder m of
        Connecting h before after \<Rightarrow> Some (rollback h (if is_open m then m else close_connection m))
      | FetchingCredentials h after \<Rightarrow> Some (rollback h m)
      | SendingSubscribe h frames \<Rightarrow> Some (rollback h m)
      | _ \<Rightarrow> None)"
| "manager_step p CredentialsFetched m =
     (case mg_holder m of
        FetchingCredentials h after \<Rightarrow> Some ((send_initial p after m)\<lparr>mg_holder := SendingSubscribe h []\<rparr>)
      | RefetchingCredentials \<Rightarrow>
          Some ((send_initial p (server_state (pr_derive p) (mg_entries m)) m)\<lparr>mg_holder := Free\<rparr>)
      | _ \<Rightarrow> None)"
| "manager_step p CredentialsFailed m =
     (case mg_holder m of
        FetchingCredentials h after \<Rightarrow> Some (rollback h m)
      | RefetchingCredentials \<Rightarrow> Some (schedule ((close_connection m)\<lparr>mg_holder := Free\<rparr>))
      | _ \<Rightarrow> None)"
| "manager_step p FrameSent m =
     (case mg_holder m of
        SendingSubscribe h (f # fs) \<Rightarrow> Some ((snd (send p f m))\<lparr>mg_holder := SendingSubscribe h fs\<rparr>)
      | SendingClose h (f # fs) \<Rightarrow>
          (case send p f m of
             (True, m) \<Rightarrow> Some (m\<lparr>mg_holder := SendingClose h fs\<rparr>)
           | (False, m) \<Rightarrow> Some (finish_handle_close h m))
      | _ \<Rightarrow> None)"
| "manager_step p LockReleased m =
     (case mg_holder m of
        SendingSubscribe h [] \<Rightarrow> Some (m\<lparr>mg_holder := Free\<rparr>)
      | SendingClose h [] \<Rightarrow> Some (finish_handle_close h m)
      | _ \<Rightarrow> None)"
| "manager_step p SocketDropped m = (if is_open m then Some (m\<lparr>mg_socket := Stale\<rparr>) else None)"
| "manager_step p ReaderStopped m =
     (if mg_socket m = Stale then Some (m\<lparr>mg_socket := NoSocket, mg_reporting := mg_reporting m + 1\<rparr>) else None)"
| "manager_step p LossReported m =
     (if 0 < mg_reporting m
      then let m = m\<lparr>mg_reporting := mg_reporting m - 1\<rparr> in Some (if mg_closed m then m else schedule m)
      else None)"
| "manager_step p TimerFired m =
     (if mg_timer m
      then let m = m\<lparr>mg_timer := False\<rparr> in
           Some (if mg_stopped m \<or> \<not> should_reconnect m then m
                 else m\<lparr>mg_waiting := mg_waiting m @ [WaitReconnect]\<rparr>)
      else None)"
| "manager_step p (MessageRead event) m =
     (if mg_socket m \<noteq> NoSocket
      then Some (m\<lparr>mg_handles := dispatch_event (pr_matcher p) event (mg_entries m) (mg_handles m)\<rparr>) else None)"

fun manager_run ::
  "('s, 'st, 'f, 'v, 'e) protocol \<Rightarrow> ('s, 'e) happening list \<Rightarrow> ('s, 'st, 'f, 'v, 'e) manager \<Rightarrow> ('s, 'st, 'f, 'v, 'e) manager option" where
  "manager_run p [] m = Some m"
| "manager_run p (e # es) m = (case manager_step p e m of None \<Rightarrow> None | Some m' \<Rightarrow> manager_run p es m')"

text \<open>The one happening after which subscribers may be left without a connection and without an attempt
  at one: a \<open>subscribe\<close> that had to give up a stale socket and then failed to connect.\<close>

definition strands :: "('s, 'e) happening \<Rightarrow> ('s, 'st, 'f, 'v, 'e) manager \<Rightarrow> bool" where
  "strands e m \<longleftrightarrow> mg_socket m = Stale \<and> e \<in> {ConnectRefused, SubscribeCancelled}
     \<and> (\<exists>h before after. mg_holder m = Connecting h before after)"

inductive managed :: "('s, 'st, 'f, 'v, 'e) protocol \<Rightarrow> bool \<Rightarrow> ('s, 'st, 'f, 'v, 'e) manager \<Rightarrow> bool" for p where
  managed_new: "new_manager queue_size = Ok m \<Longrightarrow> managed p False m"
| managed_step: "managed p stranded m \<Longrightarrow> manager_step p e m = Some m' \<Longrightarrow> managed p (stranded \<or> strands e m) m'"

section \<open>The registry and its handles stay sound\<close>

text \<open>The subscribers that are registered or wait to be: distinct, accepted, and with handles that have
  not ended.\<close>

definition live_subscribers :: "('s, 'st, 'f, 'v, 'e) manager \<Rightarrow> (nat \<times> 's) list" where
  "live_subscribers m = mg_entries m @ subscribers_waiting (mg_waiting m)"

definition registry_sound :: "('s, 'st, 'f, 'v, 'e) protocol \<Rightarrow> ('s, 'st, 'f, 'v, 'e) manager \<Rightarrow> bool" where
  "registry_sound p m \<longleftrightarrow>
     distinct (map fst (live_subscribers m))
     \<and> (\<forall>(h, sub)\<in>set (live_subscribers m).
          h < length (mg_handles m) \<and> \<not> h_ended (mg_handles m ! h) \<and> pr_accepts p sub)
     \<and> (\<forall>h\<in>set (mg_handles m). handle_ok h)
     \<and> mg_stopped m = mg_closed m
     \<and> (\<forall>h. WaitClose h \<in> set (mg_waiting m) \<longrightarrow> h < length (mg_handles m)
          \<and> h \<notin> fst ` set (subscribers_waiting (mg_waiting m)))"

definition holder_sound :: "('s, 'st, 'f, 'v, 'e) manager \<Rightarrow> bool" where
  "holder_sound m \<longleftrightarrow>
     (\<forall>h\<in>subscribing m. h < length (mg_handles m) \<and> h \<notin> fst ` set (subscribers_waiting (mg_waiting m))
          \<and> (mg_entries m = [] \<or> (\<exists>old sub. mg_entries m = old @ [(h, sub)])))
     \<and> (\<forall>h fs. mg_holder m = SendingClose h fs \<longrightarrow> h < length (mg_handles m)
          \<and> h \<notin> fst ` set (live_subscribers m))"

lemma subscribers_waiting_append [simp]:
  "subscribers_waiting (ws @ ws') = subscribers_waiting ws @ subscribers_waiting ws'"
  by (induction ws rule: subscribers_waiting.induct) simp_all

lemma send_simps [simp]:
  "mg_entries (snd (send p f m)) = mg_entries m" "mg_handles (snd (send p f m)) = mg_handles m"
  "mg_holder (snd (send p f m)) = mg_holder m" "mg_waiting (snd (send p f m)) = mg_waiting m"
  "mg_closed (snd (send p f m)) = mg_closed m" "mg_stopped (snd (send p f m)) = mg_stopped m"
  "mg_timer (snd (send p f m)) = mg_timer m" "mg_reporting (snd (send p f m)) = mg_reporting m"
  "mg_queue_size (snd (send p f m)) = mg_queue_size m"
  by (simp_all add: send_def split: socket.splits)

lemma send_initial_simps [simp]:
  "mg_entries (send_initial p st m) = mg_entries m" "mg_handles (send_initial p st m) = mg_handles m"
  "mg_holder (send_initial p st m) = mg_holder m" "mg_waiting (send_initial p st m) = mg_waiting m"
  "mg_closed (send_initial p st m) = mg_closed m" "mg_stopped (send_initial p st m) = mg_stopped m"
  "mg_timer (send_initial p st m) = mg_timer m" "mg_reporting (send_initial p st m) = mg_reporting m"
  "mg_queue_size (send_initial p st m) = mg_queue_size m"
proof -
  have "mg_entries (fold (\<lambda>f m. snd (send p f m)) fs m) = mg_entries m
    \<and> mg_handles (fold (\<lambda>f m. snd (send p f m)) fs m) = mg_handles m
    \<and> mg_holder (fold (\<lambda>f m. snd (send p f m)) fs m) = mg_holder m
    \<and> mg_waiting (fold (\<lambda>f m. snd (send p f m)) fs m) = mg_waiting m
    \<and> mg_closed (fold (\<lambda>f m. snd (send p f m)) fs m) = mg_closed m
    \<and> mg_stopped (fold (\<lambda>f m. snd (send p f m)) fs m) = mg_stopped m
    \<and> mg_timer (fold (\<lambda>f m. snd (send p f m)) fs m) = mg_timer m
    \<and> mg_reporting (fold (\<lambda>f m. snd (send p f m)) fs m) = mg_reporting m
    \<and> mg_queue_size (fold (\<lambda>f m. snd (send p f m)) fs m) = mg_queue_size m" for fs
    by (induction fs arbitrary: m) simp_all
  then show "mg_entries (send_initial p st m) = mg_entries m" "mg_handles (send_initial p st m) = mg_handles m"
    "mg_holder (send_initial p st m) = mg_holder m" "mg_waiting (send_initial p st m) = mg_waiting m"
    "mg_closed (send_initial p st m) = mg_closed m" "mg_stopped (send_initial p st m) = mg_stopped m"
    "mg_timer (send_initial p st m) = mg_timer m" "mg_reporting (send_initial p st m) = mg_reporting m"
    "mg_queue_size (send_initial p st m) = mg_queue_size m"
    by (simp_all add: send_initial_def)
qed

lemma send_initial_socket:
  "mg_socket m = Open v \<Longrightarrow> mg_socket (send_initial p st m) = Open (fold (pr_receive p) (pr_initial p st) v)"
proof -
  have "mg_socket (fold (\<lambda>f m. snd (send p f m)) fs m) = Open (fold (pr_receive p) fs v)"
    if "mg_socket m = Open v" for fs and v and m
    using that by (induction fs arbitrary: m v) (simp_all add: send_def)
  then show "mg_socket m = Open v \<Longrightarrow> mg_socket (send_initial p st m) = Open (fold (pr_receive p) (pr_initial p st) v)"
    by (simp add: send_initial_def)
qed

lemma registry_sound_cong:
  assumes "mg_entries m' = mg_entries m" "mg_handles m' = mg_handles m" "mg_waiting m' = mg_waiting m"
    "mg_stopped m' = mg_stopped m" "mg_closed m' = mg_closed m"
  shows "registry_sound p m' \<longleftrightarrow> registry_sound p m"
  using assms by (simp add: registry_sound_def live_subscribers_def)

lemma holder_sound_cong:
  assumes "mg_entries m' = mg_entries m" "mg_handles m' = mg_handles m" "mg_waiting m' = mg_waiting m"
    "mg_holder m' = mg_holder m"
  shows "holder_sound m' \<longleftrightarrow> holder_sound m"
  using assms by (simp add: holder_sound_def subscribing_def live_subscribers_def)

lemma holder_sound_free [simp]:
  "mg_holder m = Free \<Longrightarrow> holder_sound m" "mg_holder m = Reconnecting \<Longrightarrow> holder_sound m"
  "mg_holder m = RefetchingCredentials \<Longrightarrow> holder_sound m"
  by (simp_all add: holder_sound_def subscribing_def)

lemma registry_sound_drop:
  assumes m: "registry_sound p m" and h: "h < length (mg_handles m)" "h \<notin> fst ` set (subscribers_waiting (mg_waiting m))"
    and f: "\<And>x. handle_ok x \<Longrightarrow> handle_ok (f x)"
    and m': "mg_entries m' = filter (\<lambda>q. fst q \<noteq> h) (mg_entries m)" "mg_handles m' = update_handle h f (mg_handles m)"
      "mg_waiting m' = mg_waiting m" "mg_stopped m' = mg_stopped m" "mg_closed m' = mg_closed m"
  shows "registry_sound p m'"
proof -
  have live: "set (live_subscribers m') = set (live_subscribers m) - {q. fst q = h}"
    using h(2) by (auto simp: live_subscribers_def m' image_iff)
  have "distinct (map fst (live_subscribers m'))"
    using m by (auto simp: registry_sound_def live_subscribers_def m' distinct_map_filter image_iff)
  moreover have "\<forall>(i, sub)\<in>set (live_subscribers m').
      i < length (mg_handles m') \<and> \<not> h_ended (mg_handles m' ! i) \<and> pr_accepts p sub"
    using m unfolding registry_sound_def live m' by auto
  moreover have "\<forall>x\<in>set (mg_handles m'). handle_ok x"
  proof
    fix x assume "x \<in> set (mg_handles m')"
    then obtain i where "i < length (mg_handles m)" "x = mg_handles m' ! i" by (auto simp: in_set_conv_nth m')
    then show "handle_ok x" using m f by (cases "i = h") (auto simp: registry_sound_def m')
  qed
  ultimately show ?thesis using m by (simp add: registry_sound_def m')
qed

lemma distinct_entries: "registry_sound p m \<Longrightarrow> distinct (map fst (mg_entries m))"
  by (simp add: registry_sound_def live_subscribers_def)

lemma rollback_sound:
  assumes "registry_sound p m" "h < length (mg_handles m)" "h \<notin> fst ` set (subscribers_waiting (mg_waiting m))"
  shows "registry_sound p (rollback h m)" "mg_holder (rollback h m) = Free"
    "mg_entries (rollback h m) = filter (\<lambda>q. fst q \<noteq> h) (mg_entries m)"
    "mg_timer (rollback h m) = (mg_timer m \<and> \<not> (mg_entries (rollback h m) = [] \<and> is_open m))"
    "mg_closed (rollback h m) = mg_closed m" "mg_waiting (rollback h m) = mg_waiting m"
    "mg_reporting (rollback h m) = mg_reporting m"
    "mg_socket (rollback h m) = (if mg_entries (rollback h m) = [] \<and> is_open m then NoSocket else mg_socket m)"
proof -
  have e: "snd (remove_handle h (mg_entries m)) = filter (\<lambda>q. fst q \<noteq> h) (mg_entries m)"
    using remove_handle_eq [OF distinct_entries [OF assms(1)]] by simp
  show E: "mg_entries (rollback h m) = filter (\<lambda>q. fst q \<noteq> h) (mg_entries m)"
    "mg_holder (rollback h m) = Free" "mg_closed (rollback h m) = mg_closed m"
    "mg_waiting (rollback h m) = mg_waiting m" "mg_reporting (rollback h m) = mg_reporting m"
    by (simp_all add: rollback_def Let_def e close_connection_def cancel_pending_def)
  show "mg_timer (rollback h m) = (mg_timer m \<and> \<not> (mg_entries (rollback h m) = [] \<and> is_open m))"
    "mg_socket (rollback h m) = (if mg_entries (rollback h m) = [] \<and> is_open m then NoSocket else mg_socket m)"
    by (simp_all add: rollback_def Let_def e close_connection_def cancel_pending_def is_open_def)
  have "mg_handles (rollback h m) = update_handle h (end_handle None False) (mg_handles m)"
    "mg_stopped (rollback h m) = mg_stopped m"
    by (simp_all add: rollback_def Let_def e close_connection_def cancel_pending_def)
  from registry_sound_drop [OF assms end_handle_ok(1) E(1) this(1) E(4) this(2) E(3)]
  show "registry_sound p (rollback h m)" .
qed

lemma finish_handle_close_sound:
  assumes "registry_sound p m" "h < length (mg_handles m)" "h \<notin> fst ` set (live_subscribers m)"
  shows "registry_sound p (finish_handle_close h m)"
proof -
  have "filter (\<lambda>q. fst q \<noteq> h) (mg_entries m) = mg_entries m"
    using assms(3) by (intro filter_True) (auto simp: live_subscribers_def)
  then show ?thesis
    using assms by (intro registry_sound_drop [OF assms(1,2), of do_close])
      (auto simp: finish_handle_close_def live_subscribers_def do_close_def end_handle_ok)
qed

lemma begin_close_sound:
  assumes m: "registry_sound p m" and h: "h < length (mg_handles m)" "h \<notin> fst ` set (subscribers_waiting (mg_waiting m))"
  shows "registry_sound p (begin_close p h m) \<and> holder_sound (begin_close p h m)"
proof -
  let ?es = "filter (\<lambda>q. fst q \<noteq> h) (mg_entries m)"
  let ?m = "m\<lparr>mg_entries := ?es\<rparr>"
  have r: "remove_handle h (mg_entries m) = (h \<in> fst ` set (mg_entries m), ?es)"
    using remove_handle_eq [OF distinct_entries [OF m]] .
  have "update_handle h (\<lambda>x. x) (mg_handles m) = mg_handles m" by (simp add: update_handle_def)
  then have s: "registry_sound p ?m"
    using registry_sound_drop [OF m h, of "\<lambda>x. x" ?m] by simp
  have out: "h \<notin> fst ` set (live_subscribers ?m)" using h(2) by (auto simp: live_subscribers_def)
  have f: "registry_sound p (finish_handle_close h m')" if "mg_entries m' = ?es" "mg_handles m' = mg_handles m"
    "mg_waiting m' = mg_waiting m" "mg_stopped m' = mg_stopped m" "mg_closed m' = mg_closed m" for m'
    using that s h(1) out registry_sound_cong [of m' ?m p]
    by (intro finish_handle_close_sound) (simp_all add: live_subscribers_def)
  consider "h \<notin> fst ` set (mg_entries m)" | "h \<in> fst ` set (mg_entries m)" "?es = []"
    | "h \<in> fst ` set (mg_entries m)" "?es \<noteq> []" by blast
  then show ?thesis
  proof cases
    case 1
    then have "begin_close p h m = finish_handle_close h ?m" by (simp add: begin_close_def r Let_def)
    then show ?thesis using f [of ?m] by (simp add: finish_handle_close_def)
  next
    case 2
    then have b: "begin_close p h m = finish_handle_close h (close_connection (cancel_pending ?m))"
      by (simp only: begin_close_def r Let_def) simp
    show ?thesis using f [of "close_connection (cancel_pending ?m)"]
      unfolding b by (simp add: finish_handle_close_def close_connection_def cancel_pending_def)
  next
    case 3
    then have b: "begin_close p h m = ?m\<lparr>mg_holder := SendingClose h (pr_updates p (server_state (pr_derive p) (mg_entries m))
        (server_state (pr_derive p) ?es))\<rparr>"
      by (simp only: begin_close_def r Let_def) simp
    show ?thesis using s h(1) out unfolding b
      by (simp add: holder_sound_def subscribing_def live_subscribers_def registry_sound_def)
  qed
qed

lemma subscribe_call_sound:
  assumes m: "registry_sound p m" "holder_sound m" and h: "handle_ok x" "\<not> h_ended x" "pr_accepts p sub"
    and m': "m' = m\<lparr>mg_waiting := mg_waiting m @ [WaitSubscribe (length (mg_handles m)) sub], mg_handles := mg_handles m @ [x]\<rparr>"
  shows "registry_sound p m' \<and> holder_sound m'"
proof -
  have live: "live_subscribers m' = live_subscribers m @ [(length (mg_handles m), sub)]"
    by (simp add: live_subscribers_def m')
  have below: "\<forall>(i, s)\<in>set (live_subscribers m). i < length (mg_handles m)"
    using m(1) by (auto simp: registry_sound_def)
  then have fresh: "length (mg_handles m) \<notin> fst ` set (live_subscribers m)" by auto
  have below': "\<forall>i\<in>fst ` set (subscribers_waiting (mg_waiting m)). i < length (mg_handles m)"
    using below by (auto simp: live_subscribers_def)
  have "registry_sound p m'"
    using m(1) h fresh below unfolding registry_sound_def live
    by (auto simp: m' nth_append less_Suc_eq)
  moreover have "holder_sound m'"
    using m(2) fresh unfolding holder_sound_def live by (auto simp: m' subscribing_def)
  ultimately show ?thesis ..
qed

lemma take_lock_sound:
  assumes m: "registry_sound p m" "mg_holder m = Free" and w: "mg_waiting m = waiter # rest"
  shows "registry_sound p (take_lock p waiter (m\<lparr>mg_waiting := rest\<rparr>)) \<and> holder_sound (take_lock p waiter (m\<lparr>mg_waiting := rest\<rparr>))"
proof (cases waiter)
  case (WaitSubscribe h sub)
  let ?m = "take_lock p waiter (m\<lparr>mg_waiting := rest\<rparr>)"
  have live: "live_subscribers ?m = mg_entries m @ [(h, sub)] @ subscribers_waiting rest"
    "live_subscribers m = mg_entries m @ (h, sub) # subscribers_waiting rest"
    by (simp_all add: live_subscribers_def w WaitSubscribe take_lock_def begin_subscribe_def registry_add_def Let_def)
  have "registry_sound p ?m"
    using m(1) unfolding registry_sound_def live
    by (auto simp: w WaitSubscribe take_lock_def begin_subscribe_def Let_def)
  moreover have "h < length (mg_handles m)" "h \<notin> fst ` set (subscribers_waiting rest)"
    using m(1) unfolding registry_sound_def live by auto
  then have "holder_sound ?m"
    by (simp add: holder_sound_def subscribing_def take_lock_def WaitSubscribe begin_subscribe_def registry_add_def Let_def)
  ultimately show ?thesis ..
next
  case (WaitClose h)
  have "registry_sound p (m\<lparr>mg_waiting := rest\<rparr>)"
    using m(1) by (simp add: registry_sound_def live_subscribers_def w WaitClose)
  moreover have "h < length (mg_handles m)" "h \<notin> fst ` set (subscribers_waiting rest)"
    using m(1) by (simp_all add: registry_sound_def w WaitClose)
  ultimately show ?thesis using begin_close_sound [of p "m\<lparr>mg_waiting := rest\<rparr>" h]
    by (simp add: take_lock_def WaitClose)
next
  case WaitReconnect
  have "registry_sound p (m\<lparr>mg_waiting := rest\<rparr>)"
    using m(1) by (simp add: registry_sound_def live_subscribers_def w WaitReconnect)
  then show ?thesis
    by (simp add: take_lock_def WaitReconnect begin_reconnect_def)
       (simp add: registry_sound_def live_subscribers_def)
qed

lemma manager_close_sound:
  assumes "registry_sound p m" "holder_sound m"
  shows "registry_sound p (manager_close m) \<and> holder_sound (manager_close m)"
proof (cases "mg_closed m")
  case True
  then show ?thesis using assms by (simp add: manager_close_def)
next
  case False
  let ?m = "manager_close m"
  have m': "mg_entries ?m = []" "mg_handles ?m = end_all None (mg_entries m) (mg_handles m)"
    "mg_waiting ?m = mg_waiting m" "mg_stopped ?m" "mg_closed ?m" "mg_holder ?m = mg_holder m"
    using False by (simp_all add: manager_close_def scheduler_close_def Let_def)
  have d: "distinct (map fst (mg_entries m))" "\<forall>h\<in>fst ` set (mg_entries m). h < length (mg_handles m)"
    using assms(1) by (auto simp: registry_sound_def live_subscribers_def)
  note nth = end_all_nth [OF d, of None]
  have live: "live_subscribers ?m = subscribers_waiting (mg_waiting m)" by (simp add: live_subscribers_def m')
  have disj: "fst ` set (mg_entries m) \<inter> fst ` set (subscribers_waiting (mg_waiting m)) = {}"
    using assms(1) by (simp add: registry_sound_def live_subscribers_def)
  have "\<forall>(h, sub)\<in>set (live_subscribers ?m). h < length (mg_handles ?m)
      \<and> \<not> h_ended (mg_handles ?m ! h) \<and> pr_accepts p sub"
  proof clarify
    fix h sub assume w: "(h, sub) \<in> set (live_subscribers ?m)"
    then have "h \<in> fst ` set (subscribers_waiting (mg_waiting m))" by (force simp: live)
    with disj have "h \<notin> fst ` set (mg_entries m)" by blast
    then have "mg_handles ?m ! h = mg_handles m ! h" by (simp add: m' nth)
    moreover have "h < length (mg_handles m) \<and> \<not> h_ended (mg_handles m ! h) \<and> pr_accepts p sub"
      using assms(1) w unfolding live by (auto simp: registry_sound_def live_subscribers_def)
    ultimately show "h < length (mg_handles ?m) \<and> \<not> h_ended (mg_handles ?m ! h) \<and> pr_accepts p sub"
      by (simp add: m')
  qed
  moreover have "\<forall>x\<in>set (mg_handles ?m). handle_ok x"
  proof
    fix x assume "x \<in> set (mg_handles ?m)"
    then obtain i where "i < length (mg_handles m)" "x = mg_handles ?m ! i" by (auto simp: in_set_conv_nth m')
    then show "handle_ok x" using assms(1) by (auto simp: registry_sound_def m' nth end_handle_ok)
  qed
  moreover have "distinct (map fst (live_subscribers ?m))"
    using assms(1) unfolding live by (simp add: registry_sound_def live_subscribers_def)
  ultimately have "registry_sound p ?m" using assms(1) by (simp add: registry_sound_def m')
  moreover have "holder_sound ?m"
    using assms(2) unfolding holder_sound_def live
    by (auto simp: m' subscribing_def live_subscribers_def)
  ultimately show ?thesis ..
qed

lemma message_sound:
  assumes "registry_sound p m" "holder_sound m" and m': "m' = m\<lparr>mg_handles := dispatch_event mt event (mg_entries m) (mg_handles m)\<rparr>"
  shows "registry_sound p m' \<and> holder_sound m'"
proof -
  have d: "distinct (map fst (mg_entries m))" "\<forall>h\<in>fst ` set (mg_entries m). h < length (mg_handles m)"
    using assms(1) by (auto simp: registry_sound_def live_subscribers_def)
  note nth = dispatch_event_nth [OF d, of mt event]
  have "handle_ok (mg_handles m ! i)" if "i < length (mg_handles m)" for i
    using assms(1) that by (simp add: registry_sound_def)
  then have keep: "handle_ok (mg_handles m' ! i) \<and> (h_ended (mg_handles m' ! i) = h_ended (mg_handles m ! i))"
    if "i < length (mg_handles m)" for i
    using that by (simp add: m' nth)
  have len: "length (mg_handles m') = length (mg_handles m)" by (simp add: m')
  have live: "live_subscribers m' = live_subscribers m" by (simp add: live_subscribers_def m')
  have "\<forall>(i, s)\<in>set (live_subscribers m). i < length (mg_handles m)" using assms(1) by (auto simp: registry_sound_def)
  moreover have "\<forall>x\<in>set (mg_handles m'). handle_ok x"
    using keep by (auto simp: in_set_conv_nth len)
  moreover have "mg_waiting m' = mg_waiting m" "mg_stopped m' = mg_stopped m" "mg_closed m' = mg_closed m"
    by (simp_all add: m')
  moreover have "\<forall>(h, sub)\<in>set (live_subscribers m). h < length (mg_handles m)
      \<and> \<not> h_ended (mg_handles m' ! h) \<and> pr_accepts p sub"
  proof clarify
    fix h sub assume "(h, sub) \<in> set (live_subscribers m)"
    then have "h < length (mg_handles m) \<and> \<not> h_ended (mg_handles m ! h) \<and> pr_accepts p sub"
      using assms(1) by (auto simp: registry_sound_def)
    then show "h < length (mg_handles m) \<and> \<not> h_ended (mg_handles m' ! h) \<and> pr_accepts p sub"
      using keep by simp
  qed
  ultimately have "registry_sound p m'"
    using assms(1) unfolding registry_sound_def live len by simp
  moreover have "holder_sound m'"
    using assms(2) unfolding holder_sound_def live len by (simp add: m' subscribing_def)
  ultimately show ?thesis ..
qed

lemma waiting_reconnect_sound:
  assumes "registry_sound p m" "holder_sound m"
    and m': "mg_entries m' = mg_entries m" "mg_handles m' = mg_handles m" "mg_stopped m' = mg_stopped m"
      "mg_closed m' = mg_closed m" "mg_holder m' = mg_holder m"
    and w: "mg_waiting m' = mg_waiting m @ [WaitReconnect] \<or> (\<exists>h. handed_out m h \<and> mg_waiting m' = mg_waiting m @ [WaitClose h])"
  shows "registry_sound p m' \<and> holder_sound m'"
proof -
  have s: "subscribers_waiting (mg_waiting m') = subscribers_waiting (mg_waiting m)" using w by auto
  have live: "live_subscribers m' = live_subscribers m" by (simp add: live_subscribers_def s m')
  have "\<forall>h. WaitClose h \<in> set (mg_waiting m') \<longrightarrow> h < length (mg_handles m)
      \<and> h \<notin> fst ` set (subscribers_waiting (mg_waiting m))"
  proof (intro allI impI)
    fix h assume "WaitClose h \<in> set (mg_waiting m')"
    then have "WaitClose h \<in> set (mg_waiting m) \<or> handed_out m h" using w by auto
    then show "h < length (mg_handles m) \<and> h \<notin> fst ` set (subscribers_waiting (mg_waiting m))"
      using assms(1) unfolding registry_sound_def handed_out_def by metis
  qed
  then have "registry_sound p m'" using assms(1) unfolding registry_sound_def live s m' by simp
  moreover have "holder_sound m'" using assms(2) unfolding holder_sound_def live s m' by (simp add: subscribing_def m')
  ultimately show ?thesis ..
qed

lemma schedule_simps [simp]:
  "mg_entries (schedule m) = mg_entries m" "mg_handles (schedule m) = mg_handles m" "mg_waiting (schedule m) = mg_waiting m"
  "mg_stopped (schedule m) = mg_stopped m" "mg_closed (schedule m) = mg_closed m" "mg_holder (schedule m) = mg_holder m"
  "mg_socket (schedule m) = mg_socket m" "mg_reporting (schedule m) = mg_reporting m"
  by (simp_all add: schedule_def)

text \<open>Whatever happens, the registry stays sound.\<close>

lemma manager_step_sound:
  assumes m: "registry_sound p m" "holder_sound m" and step: "manager_step p e m = Some m'"
  shows "registry_sound p m' \<and> holder_sound m'"
proof (cases e)
  case (SubscribeCall sub)
  with step obtain x where x: "new_handle (mg_queue_size m) = Ok x" "pr_accepts p sub"
      "m' = m\<lparr>mg_waiting := mg_waiting m @ [WaitSubscribe (length (mg_handles m)) sub], mg_handles := mg_handles m @ [x]\<rparr>"
    by (auto split: if_splits sum.splits)
  then show ?thesis using subscribe_call_sound [OF m] new_handle_ok by blast
next
  case (CloseHandleCall h)
  then show ?thesis using step by (intro waiting_reconnect_sound [OF m]) (auto split: if_splits)
next
  case CloseManagerCall
  then show ?thesis using step manager_close_sound [OF m] by simp
next
  case LockTaken
  with step obtain w rest where w: "mg_holder m = Free" "mg_waiting m = w # rest"
    "m' = take_lock p w (m\<lparr>mg_waiting := rest\<rparr>)"
    by (auto split: holder.splits list.splits)
  then show ?thesis using take_lock_sound [OF m(1)] by blast
next
  case (MessageRead event)
  then show ?thesis using step message_sound [OF m] by (auto split: if_splits)
next
  case TimerFired
  with step consider "m' = m\<lparr>mg_timer := False\<rparr>" | "m' = m\<lparr>mg_timer := False, mg_waiting := mg_waiting m @ [WaitReconnect]\<rparr>"
    by (auto simp: Let_def split: if_splits)
  then show ?thesis
  proof cases
    case 1
    then show ?thesis using m registry_sound_cong [of m' m p] holder_sound_cong [of m' m] by simp
  next
    case 2
    then show ?thesis by (intro waiting_reconnect_sound [OF m]) simp_all
  qed
next
  case ConnectRefused
  show ?thesis
  proof (cases "mg_holder m")
    case (Connecting h b a)
    then have "m' = rollback h (close_connection m)" using step ConnectRefused by (auto split: if_splits)
    moreover have "registry_sound p (close_connection m)" using m(1) registry_sound_cong [of "close_connection m" m p]
      by (simp add: close_connection_def)
    ultimately show ?thesis using m(2) Connecting rollback_sound [of p "close_connection m" h]
      by (simp add: close_connection_def holder_sound_def subscribing_def)
  next
    case Reconnecting
    then have "m' = schedule ((close_connection m)\<lparr>mg_holder := Free\<rparr>)" using step ConnectRefused by (auto split: if_splits)
    then show ?thesis using m(1) registry_sound_cong [of m' m p] by (simp add: close_connection_def)
  qed (use step ConnectRefused in \<open>auto split: if_splits\<close>)
next
  case SubscribeCancelled
  then obtain h m1 where h: "m' = rollback h m1" "m1 = m \<or> m1 = close_connection m" "h \<in> subscribing m"
    using step by (auto simp: subscribing_def split: holder.splits if_splits)
  then have "registry_sound p m1" "mg_handles m1 = mg_handles m" "mg_waiting m1 = mg_waiting m"
    using m(1) registry_sound_cong [of m1 m p] by (auto simp: close_connection_def)
  moreover have "h < length (mg_handles m)" "h \<notin> fst ` set (subscribers_waiting (mg_waiting m))"
    using m(2) h(3) by (auto simp: holder_sound_def)
  ultimately show ?thesis using rollback_sound(1,2) [of p m1 h] h(1) by simp
next
  case CredentialsFailed
  show ?thesis
  proof (cases "mg_holder m")
    case (FetchingCredentials h a)
    then show ?thesis using step CredentialsFailed m rollback_sound [of p m h]
      by (simp add: holder_sound_def subscribing_def)
  next
    case RefetchingCredentials
    then have "m' = schedule ((close_connection m)\<lparr>mg_holder := Free\<rparr>)" using step CredentialsFailed by auto
    then show ?thesis using m(1) registry_sound_cong [of m' m p] by (simp add: close_connection_def)
  qed (use step CredentialsFailed in auto)
next
  case SocketReused
  show ?thesis
  proof (cases "mg_holder m")
    case (Connecting h b a)
    then have e: "m' = m\<lparr>mg_holder := SendingSubscribe h (pr_updates p b a)\<rparr>" using step SocketReused by (auto split: if_splits)
    then show ?thesis using m Connecting registry_sound_cong [of m' m p]
      by (simp add: holder_sound_def subscribing_def live_subscribers_def)
  next
    case Reconnecting
    then have e: "m' = reconnected p True m" using step SocketReused by (auto split: if_splits)
    then show ?thesis using m registry_sound_cong [of m' m p] by (simp add: reconnected_def close_connection_def)
  qed (use step SocketReused in \<open>auto split: if_splits\<close>)
next
  case SocketOpened
  show ?thesis
  proof (cases "mg_holder m")
    case (Connecting h b a)
    then have e: "m' = subscribed_opened p h a (m\<lparr>mg_socket := Open (pr_fresh p)\<rparr>)"
      using step SocketOpened by (auto split: if_splits)
    then show ?thesis using m Connecting registry_sound_cong [of m' m p]
      by (simp add: subscribed_opened_def cancel_pending_def Let_def holder_sound_def subscribing_def live_subscribers_def)
  next
    case Reconnecting
    then have e: "m' = reconnected p False (m\<lparr>mg_socket := Open (pr_fresh p)\<rparr>)"
      using step SocketOpened by (auto split: if_splits)
    then show ?thesis using m registry_sound_cong [of m' m p]
      by (simp add: reconnected_def close_connection_def scheduler_reset_def Let_def)
  qed (use step SocketOpened in \<open>auto split: if_splits\<close>)
next
  case FrameSent
  show ?thesis
  proof (cases "mg_holder m")
    case (SendingSubscribe h fs)
    then obtain f gs where "m' = (snd (send p f m))\<lparr>mg_holder := SendingSubscribe h gs\<rparr>"
      using step FrameSent by (cases fs) auto
    then show ?thesis using m SendingSubscribe registry_sound_cong [of m' m p]
      by (simp add: holder_sound_def subscribing_def live_subscribers_def)
  next
    case (SendingClose h fs)
    then obtain f gs where fs: "fs = f # gs" using step FrameSent by (cases fs) auto
    obtain ok m1 where s: "send p f m = (ok, m1)" by (cases "send p f m")
    have e: "mg_entries m1 = mg_entries m" "mg_handles m1 = mg_handles m" "mg_waiting m1 = mg_waiting m"
      "mg_stopped m1 = mg_stopped m" "mg_closed m1 = mg_closed m"
      using send_simps [of p f m] by (simp_all add: s)
    have r: "registry_sound p m1" using m(1) registry_sound_cong [OF e, of p] by simp
    have h: "h < length (mg_handles m1)" "h \<notin> fst ` set (live_subscribers m1)"
      using m(2) SendingClose e by (auto simp: holder_sound_def live_subscribers_def)
    show ?thesis
    proof (cases ok)
      case True
      then have "m' = m1\<lparr>mg_holder := SendingClose h gs\<rparr>" using step FrameSent SendingClose fs s by simp
      then show ?thesis using r h registry_sound_cong [of m' m1 p]
        by (simp add: holder_sound_def subscribing_def live_subscribers_def)
    next
      case False
      then have "m' = finish_handle_close h m1" using step FrameSent SendingClose fs s by simp
      then show ?thesis using finish_handle_close_sound [OF r h] by (simp add: finish_handle_close_def)
    qed
  qed (use step FrameSent in auto)
next
  case LockReleased
  show ?thesis
  proof (cases "mg_holder m")
    case (SendingSubscribe h fs)
    then have "m' = m\<lparr>mg_holder := Free\<rparr>" using step LockReleased by (cases fs) auto
    then show ?thesis using m(1) registry_sound_cong [of m' m p] by simp
  next
    case (SendingClose h fs)
    then have "m' = finish_handle_close h m" using step LockReleased by (cases fs) auto
    moreover have "h < length (mg_handles m)" "h \<notin> fst ` set (live_subscribers m)"
      using m(2) SendingClose by (auto simp: holder_sound_def)
    ultimately show ?thesis using finish_handle_close_sound [OF m(1)] by (simp add: finish_handle_close_def)
  qed (use step LockReleased in auto)
next
  case CredentialsFetched
  show ?thesis
  proof (cases "mg_holder m")
    case (FetchingCredentials h a)
    then have "m' = (send_initial p a m)\<lparr>mg_holder := SendingSubscribe h []\<rparr>" using step CredentialsFetched by simp
    then show ?thesis using m FetchingCredentials registry_sound_cong [of m' m p]
      by (simp add: holder_sound_def subscribing_def live_subscribers_def)
  next
    case RefetchingCredentials
    then have "m' = (send_initial p (server_state (pr_derive p) (mg_entries m)) m)\<lparr>mg_holder := Free\<rparr>"
      using step CredentialsFetched by simp
    then show ?thesis using m registry_sound_cong [of m' m p] by simp
  qed (use step CredentialsFetched in auto)
qed (use step m registry_sound_cong [of m' m p] holder_sound_cong [of m' m] in
  \<open>auto simp: close_connection_def Let_def split: if_splits\<close>)

lemma managed_sound: "managed p b m \<Longrightarrow> registry_sound p m \<and> holder_sound m"
proof (induction rule: managed.induct)
  case (managed_new n m)
  then show ?case
    by (auto simp: new_manager_def registry_sound_def holder_sound_def live_subscribers_def subscribing_def split: if_splits)
next
  case (managed_step b m e m')
  then show ?case using manager_step_sound by blast
qed

end
