(* ===== verification/Rtds_Protocol.thy ===== *)
theory Rtds_Protocol imports Stream_Protocols begin

text \<open>
  The real-time data protocol of \<open>_internal/streams/rtds/protocol.py\<close>: subscriptions of topics and types
  in a dictionary by key, the frames between two dictionaries, and the matchers. It interprets the
  contract \<open>stream_protocol\<close>.
\<close>

section \<open>The real-time data stream\<close>

datatype crypto_topic = CryptoBinance | CryptoChainlink

datatype twap_window = Window30 | Window60

datatype rtds_spec =
    CommentsSpec "string list option" "int option" "string option"
  | CryptoPricesSpec crypto_topic "string list option"
  | CryptoPricesChainlinkTwapSpec twap_window "string list option"
  | EquityPricesSpec string "string list option"

text \<open>A server subscription: its topic and its type.\<close>

type_synonym rtds_server_subscription = "string \<times> string"

definition subscription_key :: "rtds_server_subscription \<Rightarrow> string" where
  "subscription_key s = fst s @ '':'' @ snd s"

definition DEFAULT_COMMENT_TYPES :: "string list" where
  "DEFAULT_COMMENT_TYPES = [''comment_created'']"

text \<open>\<open>spec.types if spec.types else default\<close>\<close>

definition given_or :: "string list \<Rightarrow> string list option \<Rightarrow> string list" where
  "given_or fallback types = (case types of None \<Rightarrow> fallback | Some [] \<Rightarrow> fallback | Some ts \<Rightarrow> ts)"

fun api_topic_to_wire :: "crypto_topic \<Rightarrow> string" where
  "api_topic_to_wire CryptoBinance = ''crypto_prices''"
| "api_topic_to_wire CryptoChainlink = ''crypto_prices_chainlink''"

fun twap_wire_topic :: "twap_window \<Rightarrow> string" where
  "twap_wire_topic Window30 = ''crypto_prices_twap_thirty''"
| "twap_wire_topic Window60 = ''crypto_prices_twap_sixty''"

fun server_subscriptions_for :: "rtds_spec \<Rightarrow> rtds_server_subscription list" where
  "server_subscriptions_for (CommentsSpec types _ _) =
     map (\<lambda>t. (''comments'', t)) (given_or DEFAULT_COMMENT_TYPES types)"
| "server_subscriptions_for (CryptoPricesChainlinkTwapSpec w _) = [(twap_wire_topic w, ''update'')]"
| "server_subscriptions_for (CryptoPricesSpec topic _) = [(api_topic_to_wire topic, ''update'')]"
| "server_subscriptions_for (EquityPricesSpec _ _) = [(''equity_prices'', ''update'')]"

definition setdefault :: "'k \<Rightarrow> 'v \<Rightarrow> ('k, 'v) dict \<Rightarrow> ('k, 'v) dict" where
  "setdefault k v d = (if map_of d k = None then d @ [(k, v)] else d)"

definition rtds_derive_state :: "rtds_spec list \<Rightarrow> (string, rtds_server_subscription) dict" where
  "rtds_derive_state subs =
     fold (\<lambda>srv state. setdefault (subscription_key srv) srv state) (concat (map server_subscriptions_for subs)) []"

definition rtds_frame :: "string \<Rightarrow> rtds_server_subscription list \<Rightarrow> pyval" where
  "rtds_frame action subscriptions = PDict [
     (''action'', PStr action),
     (''subscriptions'', PList (map (\<lambda>(topic, t). PDict [(''topic'', PStr topic), (''type'', PStr t)]) subscriptions))]"

definition build_subscribe_frame :: "rtds_server_subscription list \<Rightarrow> pyval" where
  "build_subscribe_frame subscriptions = rtds_frame ''subscribe'' subscriptions"

definition build_unsubscribe_frame :: "rtds_server_subscription list \<Rightarrow> pyval" where
  "build_unsubscribe_frame subscriptions = rtds_frame ''unsubscribe'' subscriptions"

definition rtds_diff_frames ::
  "(string, rtds_server_subscription) dict \<Rightarrow> (string, rtds_server_subscription) dict \<Rightarrow> pyval list" where
  "rtds_diff_frames before after =
     (let added = map snd (filter (\<lambda>(k, s). map_of before k = None) after);
          removed = map snd (filter (\<lambda>(k, s). map_of after k = None) before)
      in (if added \<noteq> [] then [build_subscribe_frame added] else [])
         @ (if removed \<noteq> [] then [build_unsubscribe_frame removed] else []))"

definition rtds_initial :: "(string, rtds_server_subscription) dict \<Rightarrow> pyval list" where
  "rtds_initial state = (if state \<noteq> [] then [build_subscribe_frame (map snd state)] else [])"

datatype rtds_event =
    CommentCreatedEvent "int option" "string option"
  | CommentRemovedEvent "int option" "string option"
  | ReactionCreatedEvent
  | ReactionRemovedEvent
  | CryptoPricesEvent crypto_topic string
  | CryptoPricesTwapEvent twap_window string
  | EquityPricesUpdateEvent string
  | EquityPricesSubscribeEvent string

fun rtds_event_type :: "rtds_event \<Rightarrow> string" where
  "rtds_event_type (CommentCreatedEvent _ _) = ''comment_created''"
| "rtds_event_type (CommentRemovedEvent _ _) = ''comment_removed''"
| "rtds_event_type ReactionCreatedEvent = ''reaction_created''"
| "rtds_event_type ReactionRemovedEvent = ''reaction_removed''"
| "rtds_event_type (EquityPricesSubscribeEvent _) = ''subscribe''"
| "rtds_event_type _ = ''update''"

definition parent_matches :: "int option \<Rightarrow> string option \<Rightarrow> int option \<Rightarrow> string option \<Rightarrow> bool" where
  "parent_matches parent_id parent_type payload_id payload_type =
     (if (case parent_id of None \<Rightarrow> False
          | Some p \<Rightarrow> (case payload_id of None \<Rightarrow> True | Some q \<Rightarrow> str_int q \<noteq> str_int p)) then False
      else \<not> (parent_type \<noteq> None \<and> payload_type \<noteq> parent_type))"

definition comments_matcher :: "string list option \<Rightarrow> int option \<Rightarrow> string option \<Rightarrow> rtds_event \<Rightarrow> bool" where
  "comments_matcher types parent_id parent_type event =
     (let wanted = rtds_event_type event \<in> set (given_or DEFAULT_COMMENT_TYPES types);
          needs_parent_check = parent_id \<noteq> None \<or> parent_type \<noteq> None
      in case event of
           CommentCreatedEvent i t \<Rightarrow> wanted \<and> (\<not> needs_parent_check \<or> parent_matches parent_id parent_type i t)
         | CommentRemovedEvent i t \<Rightarrow> wanted \<and> (\<not> needs_parent_check \<or> parent_matches parent_id parent_type i t)
         | ReactionCreatedEvent \<Rightarrow> wanted \<and> \<not> needs_parent_check
         | ReactionRemovedEvent \<Rightarrow> wanted \<and> \<not> needs_parent_check
         | _ \<Rightarrow> False)"

text \<open>\<open>frozenset(xs) if xs else None\<close>, and its test.\<close>

definition allows :: "string list option \<Rightarrow> string \<Rightarrow> bool" where
  "allows xs x = (case xs of None \<Rightarrow> True | Some [] \<Rightarrow> True | Some ys \<Rightarrow> x \<in> set ys)"

fun rtds_matcher_for :: "rtds_spec \<Rightarrow> rtds_event \<Rightarrow> bool" where
  "rtds_matcher_for (CommentsSpec types i t) event = comments_matcher types i t event"
| "rtds_matcher_for (CryptoPricesChainlinkTwapSpec w symbols) event =
     (case event of CryptoPricesTwapEvent w' symbol \<Rightarrow> w' = w \<and> allows symbols symbol | _ \<Rightarrow> False)"
| "rtds_matcher_for (CryptoPricesSpec topic symbols) event =
     (case event of CryptoPricesEvent topic' symbol \<Rightarrow> topic' = topic \<and> allows symbols symbol | _ \<Rightarrow> False)"
| "rtds_matcher_for (EquityPricesSpec symbol types) event =
     (case event of
        EquityPricesUpdateEvent s \<Rightarrow> lower s = lower symbol \<and> allows types (rtds_event_type event)
      | EquityPricesSubscribeEvent s \<Rightarrow> lower s = lower symbol \<and> allows types (rtds_event_type event)
      | _ \<Rightarrow> False)"

text \<open>The server's side: the pairs of topic and type it streams.\<close>

definition wire_subscription :: "pyval \<Rightarrow> rtds_server_subscription option" where
  "wire_subscription v =
     (case v of
        PDict d \<Rightarrow> (case (dict_get ''topic'' d, dict_get ''type'' d) of
                     (PStr topic, PStr t) \<Rightarrow> Some (topic, t) | _ \<Rightarrow> None)
      | _ \<Rightarrow> None)"

definition wire_subscriptions :: "pyval \<Rightarrow> rtds_server_subscription set" where
  "wire_subscriptions v = (case v of PList vs \<Rightarrow> set (List.map_filter wire_subscription vs) | _ \<Rightarrow> {})"

definition rtds_receive :: "pyval \<Rightarrow> rtds_server_subscription set \<Rightarrow> rtds_server_subscription set" where
  "rtds_receive frame view =
     (case frame of
        PDict d \<Rightarrow>
          (if dict_get ''action'' d = PStr ''subscribe'' then view \<union> wire_subscriptions (dict_get ''subscriptions'' d)
           else if dict_get ''action'' d = PStr ''unsubscribe'' then view - wire_subscriptions (dict_get ''subscriptions'' d)
           else view)
      | _ \<Rightarrow> view)"

definition rtds_serves :: "rtds_server_subscription set \<Rightarrow> rtds_spec list \<Rightarrow> bool" where
  "rtds_serves view subs \<longleftrightarrow> (\<forall>sub\<in>set subs. set (server_subscriptions_for sub) \<subseteq> view)"

lemma rtds_receive_frames [simp]:
  "rtds_receive (build_subscribe_frame ss) view = view \<union> set ss"
  "rtds_receive (build_unsubscribe_frame ss) view = view - set ss"
proof -
  have w: "wire_subscription (PDict [(''topic'', PStr a), (''type'', PStr b)]) = Some (a, b)" for a b
    by (simp add: wire_subscription_def dict_get_def)
  have "List.map_filter wire_subscription (map (\<lambda>(topic, t). PDict [(''topic'', PStr topic), (''type'', PStr t)]) ss) = ss"
    by (induction ss) (auto simp: w)
  then have "wire_subscriptions (PList (map (\<lambda>(topic, t). PDict [(''topic'', PStr topic), (''type'', PStr t)]) ss)) = set ss"
    by (simp add: wire_subscriptions_def)
  then show "rtds_receive (build_subscribe_frame ss) view = view \<union> set ss"
    "rtds_receive (build_unsubscribe_frame ss) view = view - set ss"
    by (simp_all add: rtds_receive_def build_subscribe_frame_def build_unsubscribe_frame_def rtds_frame_def dict_get_def)
qed

lemma key_injective:
  "CHR '':'' \<notin> set a \<Longrightarrow> CHR '':'' \<notin> set b \<Longrightarrow> subscription_key (a, x) = subscription_key (b, y) \<Longrightarrow> a = b \<and> x = y"
  unfolding subscription_key_def
proof (induction a arbitrary: b)
  case Nil
  then show ?case by (cases b) auto
next
  case (Cons c a)
  then show ?case by (cases b) auto
qed

definition keyed :: "(string, rtds_server_subscription) dict \<Rightarrow> bool" where
  "keyed d \<longleftrightarrow> (\<forall>(k, s)\<in>set d. k = subscription_key s \<and> CHR '':'' \<notin> set (fst s))"

lemma server_topics: "(topic, t) \<in> set (server_subscriptions_for sub) \<Longrightarrow> CHR '':'' \<notin> set topic"
proof (induction sub rule: server_subscriptions_for.induct)
  case (2 w u)
  then show ?case by (cases w) auto
next
  case (3 topic' u)
  then show ?case by (cases topic') auto
qed auto

lemma fold_setdefault:
  assumes "keyed d" "\<forall>s\<in>set ss. CHR '':'' \<notin> set (fst s)"
  shows "keyed (fold (\<lambda>s d. setdefault (subscription_key s) s d) ss d)
    \<and> snd ` set (fold (\<lambda>s d. setdefault (subscription_key s) s d) ss d) = snd ` set d \<union> set ss"
  using assms
proof (induction ss arbitrary: d)
  case (Cons s ss)
  have k: "keyed (setdefault (subscription_key s) s d)"
    using Cons.prems unfolding keyed_def setdefault_def by simp
  have "snd ` set (setdefault (subscription_key s) s d) = insert s (snd ` set d)"
  proof (cases "map_of d (subscription_key s)")
    case (Some s')
    then have m: "(subscription_key s, s') \<in> set d" by (rule map_of_SomeD)
    then have "subscription_key s' = subscription_key s" "CHR '':'' \<notin> set (fst s')"
      using Cons.prems(1) by (auto simp: keyed_def)
    then have "fst s' = fst s \<and> snd s' = snd s"
      using Cons.prems(2) by (intro key_injective) simp_all
    then have "s' = s" by (simp add: prod_eq_iff)
    then have "s \<in> snd ` set d" using rev_image_eqI [OF m, of s snd] by simp
    then have "insert s (snd ` set d) = snd ` set d" by blast
    then show ?thesis using Some by (simp add: setdefault_def)
  qed (simp add: setdefault_def)
  moreover have "\<forall>s\<in>set ss. CHR '':'' \<notin> set (fst s)" using Cons.prems(2) by simp
  ultimately show ?case using Cons.IH [OF k] by simp
qed simp

lemma rtds_derived:
  "keyed (rtds_derive_state subs)"
  "snd ` set (rtds_derive_state subs) = (\<Union>sub\<in>set subs. set (server_subscriptions_for sub))"
proof -
  have "\<forall>s\<in>set (concat (map server_subscriptions_for subs)). CHR '':'' \<notin> set (fst s)"
    by (auto dest: server_topics)
  from fold_setdefault [OF _ this, of "[]"]
  show "keyed (rtds_derive_state subs)"
    "snd ` set (rtds_derive_state subs) = (\<Union>sub\<in>set subs. set (server_subscriptions_for sub))"
    unfolding rtds_derive_state_def by (simp_all add: keyed_def)
qed

lemma rtds_serves_derived: "rtds_serves view subs \<longleftrightarrow> snd ` set (rtds_derive_state subs) \<subseteq> view"
  unfolding rtds_derived by (auto simp: rtds_serves_def)

lemma keyed_lookup:
  assumes "keyed d" "CHR '':'' \<notin> set (fst s)"
  shows "map_of d (subscription_key s) = None \<longleftrightarrow> s \<notin> snd ` set d"
proof
  assume none: "map_of d (subscription_key s) = None"
  show "s \<notin> snd ` set d"
  proof
    assume "s \<in> snd ` set d"
    then obtain k where "(k, s) \<in> set d" by auto
    moreover from this have "k = subscription_key s" using assms(1) by (auto simp: keyed_def)
    ultimately show False using none by (metis map_of_eq_None_iff image_eqI fst_conv)
  qed
next
  assume s: "s \<notin> snd ` set d"
  show "map_of d (subscription_key s) = None"
  proof (cases "map_of d (subscription_key s)")
    case (Some s')
    then have m: "(subscription_key s, s') \<in> set d" by (rule map_of_SomeD)
    then have "subscription_key s = subscription_key s'" "CHR '':'' \<notin> set (fst s')"
      using assms(1) by (auto simp: keyed_def)
    then have "fst s = fst s' \<and> snd s = snd s'" using assms(2) by (intro key_injective) simp_all
    then have "s = s'" by (simp add: prod_eq_iff)
    with s show ?thesis using rev_image_eqI [OF m, of s snd] by simp
  qed simp
qed

lemma keyed_missing:
  assumes "keyed before" "keyed after"
  shows "snd ` set (filter (\<lambda>(k, s). map_of before k = None) after) = snd ` set after - snd ` set before"
proof -
  have "map_of before k = None \<longleftrightarrow> s \<notin> snd ` set before" if "(k, s) \<in> set after" for k s
  proof -
    from that assms(2) have "k = subscription_key s" "CHR '':'' \<notin> set (fst s)" by (auto simp: keyed_def)
    then show ?thesis using keyed_lookup [OF assms(1)] by simp
  qed
  then have "set (filter (\<lambda>(k, s). map_of before k = None) after) = {(k, s) \<in> set after. s \<notin> snd ` set before}"
    by auto
  then show ?thesis by (auto simp: image_iff)
qed

lemma rtds_diff_eq:
  assumes "keyed before" "keyed after"
  shows "fold rtds_receive (rtds_diff_frames before after) v =
    (v \<union> (snd ` set after - snd ` set before)) - (snd ` set before - snd ` set after)"
proof -
  let ?added = "map snd (filter (\<lambda>(k, s). map_of before k = None) after)"
  let ?removed = "map snd (filter (\<lambda>(k, s). map_of after k = None) before)"
  have "fold rtds_receive (rtds_diff_frames before after) v = (v \<union> set ?added) - set ?removed"
  proof -
    have 1: "fold rtds_receive (if ss \<noteq> [] then [build_subscribe_frame ss] else []) v = v \<union> set ss" for ss v by simp
    have 2: "fold rtds_receive (if ss \<noteq> [] then [build_unsubscribe_frame ss] else []) v = v - set ss" for ss v by simp
    show ?thesis unfolding rtds_diff_frames_def Let_def fold_append o_apply 1 2 ..
  qed
  then show ?thesis unfolding set_map keyed_missing [OF assms] keyed_missing [OF assms(2,1)] .
qed

interpretation rtds: stream_protocol rtds_derive_state rtds_initial rtds_diff_frames rtds_receive "{}" rtds_serves "\<lambda>_. True"
proof unfold_locales
  fix subs :: "rtds_spec list"
  show "rtds_serves (fold rtds_receive (rtds_initial (rtds_derive_state subs)) {}) subs"
    unfolding rtds_serves_derived by (simp add: rtds_initial_def)
  fix subs' v assume v: "rtds_serves v subs"
  have serve: "rtds_serves (fold rtds_receive (rtds_diff_frames (rtds_derive_state subs) (rtds_derive_state subs')) v) subs'" for subs'
    using v unfolding rtds_serves_derived rtds_diff_eq [OF rtds_derived(1) rtds_derived(1)] by blast
  then show "rtds_serves (fold rtds_receive (rtds_diff_frames (rtds_derive_state subs) (rtds_derive_state subs')) v) subs'" .
  fix s n
  let ?fs = "rtds_diff_frames (rtds_derive_state subs) (rtds_derive_state (subs @ [s]))"
  have whole: "rtds_serves (fold rtds_receive ?fs v) subs"
    using serve [of "subs @ [s]"] by (simp add: rtds_serves_def)
  have "rtds_serves (v \<union> S) subs" for S
    using v unfolding rtds_serves_def by (simp add: le_supI1)
  then show "rtds_serves (fold rtds_receive (take n ?fs) v) subs"
    using v whole unfolding rtds_diff_frames_def Let_def
    by (intro prefix_two_parts [where P = "\<lambda>v. rtds_serves v subs"]) simp_all
qed (simp_all add: rtds_serves_def)


end
