(* ===== verification/User_Protocol.thy ===== *)
theory User_Protocol imports Stream_Protocols begin

text \<open>
  The protocol of the authenticated user channel, \<open>_internal/streams/clob/user_protocol.py\<close>. A
  subscription without markets asks for all of them, and so does an opening frame without a list;
  the server restricts the channel to the markets it has been given, so unsubscribing from the last
  one leaves all of them.
\<close>

record api_key_creds =
  ak_key :: string
  ak_secret :: string
  ak_passphrase :: string

record user_subscription =
  us_markets :: "string list"

definition is_all_markets :: "user_subscription \<Rightarrow> bool" where
  "is_all_markets sub = (length (us_markets sub) = 0)"

record user_server_state =
  uss_include_all_markets :: bool
  uss_markets :: "string list"

definition user_derive_state :: "user_subscription list \<Rightarrow> user_server_state" where
  "user_derive_state subs =
     (case fold (\<lambda>sub (include_all, markets).
                   if is_all_markets sub then (True, markets) else (include_all, markets \<union> set (us_markets sub)))
             subs (False, {}) of
        (include_all, markets) \<Rightarrow>
          if include_all then \<lparr>uss_include_all_markets = True, uss_markets = []\<rparr>
          else \<lparr>uss_include_all_markets = False, uss_markets = sorted_list_of_set markets\<rparr>)"

definition user_initial_frame :: "user_server_state \<Rightarrow> api_key_creds \<Rightarrow> pyval" where
  "user_initial_frame state credentials = PDict (
     [(''type'', PStr ''user''),
      (''auth'', PDict [(''apiKey'', PStr (ak_key credentials)), (''secret'', PStr (ak_secret credentials)),
                        (''passphrase'', PStr (ak_passphrase credentials))])]
     @ (if \<not> uss_include_all_markets state then [(''markets'', py_strs (uss_markets state))] else []))"

definition user_subscribe_update :: "string list \<Rightarrow> pyval" where
  "user_subscribe_update markets = PDict [(''operation'', PStr ''subscribe''), (''markets'', py_strs markets)]"

definition user_unsubscribe_update :: "string list \<Rightarrow> pyval" where
  "user_unsubscribe_update markets = PDict [(''operation'', PStr ''unsubscribe''), (''markets'', py_strs markets)]"

definition user_diff_frames :: "user_server_state \<Rightarrow> user_server_state \<Rightarrow> pyval list" where
  "user_diff_frames before after =
     (if uss_include_all_markets after then
        (if \<not> uss_include_all_markets before \<and> uss_markets before \<noteq> []
         then [user_unsubscribe_update (uss_markets before)] else [])
      else if uss_include_all_markets before then
        (if uss_markets after \<noteq> [] then [user_subscribe_update (uss_markets after)] else [])
      else
        let before_set = set (uss_markets before);
            after_set = set (uss_markets after);
            added = sorted_list_of_set (after_set - before_set);
            removed = sorted_list_of_set (before_set - after_set)
        in (if added \<noteq> [] then [user_subscribe_update added] else [])
           @ (if removed \<noteq> [] then [user_unsubscribe_update removed] else []))"

text \<open>All events of the channel carry the market they are about.\<close>

definition user_matcher_for :: "user_subscription \<Rightarrow> string \<Rightarrow> bool" where
  "user_matcher_for sub market =
     (if is_all_markets sub then True else lower market \<in> set (map lower (us_markets sub)))"

text \<open>The server's side: the markets the channel is restricted to; the empty set restricts nothing.\<close>

definition user_receive :: "pyval \<Rightarrow> string set \<Rightarrow> string set" where
  "user_receive frame view =
     (case frame of
        PDict d \<Rightarrow>
          (if dict_get ''type'' d = PStr ''user'' then strs_of (dict_get ''markets'' d)
           else if dict_get ''operation'' d = PStr ''subscribe'' then view \<union> strs_of (dict_get ''markets'' d)
           else if dict_get ''operation'' d = PStr ''unsubscribe'' then view - strs_of (dict_get ''markets'' d)
           else view)
      | _ \<Rightarrow> view)"

definition user_view :: "user_subscription list \<Rightarrow> string set" where
  "user_view subs = (if list_ex is_all_markets subs then {} else (\<Union>sub\<in>set subs. set (us_markets sub)))"

lemma user_receive_frames [simp]:
  "user_receive (user_initial_frame st c) v = (if uss_include_all_markets st then {} else set (uss_markets st))"
  "user_receive (user_subscribe_update ms) v = v \<union> set ms"
  "user_receive (user_unsubscribe_update ms) v = v - set ms"
  by (simp_all add: user_receive_def user_initial_frame_def user_subscribe_update_def user_unsubscribe_update_def dict_get_def)
     (simp add: strs_of_def)

lemma user_derive_eq:
  "user_derive_state subs = (if list_ex is_all_markets subs then \<lparr>uss_include_all_markets = True, uss_markets = []\<rparr>
    else \<lparr>uss_include_all_markets = False, uss_markets = sorted_list_of_set (\<Union>sub\<in>set subs. set (us_markets sub))\<rparr>)"
proof -
  have "fold (\<lambda>sub (include_all, markets).
      if is_all_markets sub then (True, markets) else (include_all, markets \<union> set (us_markets sub))) subs (b, ms)
    = (b \<or> list_ex is_all_markets subs, ms \<union> (\<Union>sub\<in>set subs. set (us_markets sub)))" for b ms
    by (induction subs arbitrary: b ms) (auto simp: is_all_markets_def)
  then show ?thesis by (simp add: user_derive_state_def)
qed

lemma user_view_derived:
  "(if uss_include_all_markets (user_derive_state subs) then {} else set (uss_markets (user_derive_state subs))) = user_view subs"
  by (simp add: user_derive_eq user_view_def)

definition adding :: "string list \<Rightarrow> pyval list" where
  "adding ms = (if ms \<noteq> [] then [user_subscribe_update ms] else [])"

definition dropping :: "string list \<Rightarrow> pyval list" where
  "dropping ms = (if ms \<noteq> [] then [user_unsubscribe_update ms] else [])"

lemma adding_dropping [simp]:
  "fold user_receive (adding ms) v = v \<union> set ms" "fold user_receive (dropping ms) v = v - set ms"
  "length (adding ms) \<le> 1" "length (dropping ms) \<le> 1"
  by (simp_all add: adding_def dropping_def)

lemma restricted_updates:
  assumes "\<not> uss_include_all_markets before" "\<not> uss_include_all_markets after"
  shows "user_diff_frames before after =
    adding (sorted_list_of_set (set (uss_markets after) - set (uss_markets before)))
    @ dropping (sorted_list_of_set (set (uss_markets before) - set (uss_markets after)))"
  using assms by (simp only: user_diff_frames_def Let_def adding_def dropping_def if_False)

text \<open>The frames between two lists of subscriptions take the server exactly from one view to the other.\<close>

lemma user_updates_exact:
  "fold user_receive (user_diff_frames (user_derive_state subs) (user_derive_state subs')) (user_view subs) = user_view subs'"
proof (cases "uss_include_all_markets (user_derive_state subs) \<or> uss_include_all_markets (user_derive_state subs')")
  case False
  let ?A = "set (uss_markets (user_derive_state subs))" and ?B = "set (uss_markets (user_derive_state subs'))"
  have "user_view subs = ?A" "user_view subs' = ?B"
    using False user_view_derived [of subs] user_view_derived [of subs'] by simp_all
  moreover have "(?A \<union> (?B - ?A)) - (?A - ?B) = ?B" by blast
  moreover have "fold user_receive (user_diff_frames (user_derive_state subs) (user_derive_state subs')) v
      = (v \<union> (?B - ?A)) - (?A - ?B)" for v
    using False by (simp add: restricted_updates)
  ultimately show ?thesis by (simp only:)
qed (auto simp: user_diff_frames_def user_derive_eq user_view_def split: if_splits)

text \<open>While a channel stays restricted, no update opens it to all markets on the way.\<close>

lemma user_updates_stay_restricted:
  assumes "user_view subs \<noteq> {}" "user_view subs' \<noteq> {}"
  shows "fold user_receive (take n (user_diff_frames (user_derive_state subs) (user_derive_state subs'))) (user_view subs) \<noteq> {}"
proof -
  have n: "\<not> uss_include_all_markets (user_derive_state subs)" "\<not> uss_include_all_markets (user_derive_state subs')"
    using assms by (auto simp: user_view_def user_derive_eq split: if_splits)
  have "fold user_receive (user_diff_frames (user_derive_state subs) (user_derive_state subs')) (user_view subs) \<noteq> {}"
    using assms(2) by (simp add: user_updates_exact)
  then show ?thesis
    using assms(1) unfolding restricted_updates [OF n]
    by (intro prefix_two_parts [where P = "\<lambda>v. v \<noteq> {}"]) (simp_all only: adding_dropping, auto simp: adding_def)
qed

end
