(* ===== verification/Stream_Service.thy ===== *)
theory Stream_Service imports Stream_Manager Rtds_Protocol User_Protocol begin

text \<open>
  What the stream managers promise: whenever no one holds the lock, an open socket streams at least what
  the registered subscribers asked for (proved once for every protocol that keeps the contract
  \<open>stream_protocol\<close>), and subscribers without a connection have an attempt under way, except after the
  one happening that \<open>strands\<close> names.
\<close>

section \<open>Open sockets serve the registered subscribers\<close>

definition subscriptions :: "('s, 'st, 'f, 'v, 'e) manager \<Rightarrow> 's list" where
  "subscriptions m = map snd (mg_entries m)"

text \<open>What the frames still to be sent achieve, by the holder of the lock. A subscription that is being
  added may still be rolled back, so after each frame the older ones are served.\<close>

definition holder_serves ::
  "('s, 'st, 'f, 'v, 'e) protocol \<Rightarrow> ('v \<Rightarrow> 's list \<Rightarrow> bool) \<Rightarrow> ('s, 'st, 'f, 'v, 'e) manager \<Rightarrow> bool" where
  "holder_serves p serves m =
     (case mg_holder m of
        Free \<Rightarrow> (\<forall>v. mg_socket m = Open v \<longrightarrow> serves v (subscriptions m))
      | Reconnecting \<Rightarrow> (\<forall>v. mg_socket m = Open v \<longrightarrow> serves v (subscriptions m))
      | Connecting h before after \<Rightarrow> mg_entries m = []
          \<or> (\<exists>old sub. mg_entries m = old @ [(h, sub)]
               \<and> before = pr_derive p (map snd old) \<and> after = pr_derive p (map snd old @ [sub])
               \<and> (\<forall>v. mg_socket m = Open v \<longrightarrow> serves v (map snd old)))
      | SendingSubscribe h fs \<Rightarrow> mg_entries m = []
          \<or> (\<exists>old sub. mg_entries m = old @ [(h, sub)]
               \<and> (\<forall>v. mg_socket m = Open v \<longrightarrow> serves (fold (pr_receive p) fs v) (map snd old @ [sub])
                    \<and> (\<forall>n. serves (fold (pr_receive p) (take n fs) v) (map snd old))))
      | SendingClose h fs \<Rightarrow> (\<forall>v. mg_socket m = Open v \<longrightarrow> serves (fold (pr_receive p) fs v) (subscriptions m))
      | FetchingCredentials h after \<Rightarrow> False
      | RefetchingCredentials \<Rightarrow> False)"

lemma holder_serves_closed_socket:
  "\<forall>v. mg_socket m \<noteq> Open v \<Longrightarrow> mg_holder m \<in> {Free, Reconnecting} \<Longrightarrow> holder_serves p serves m"
  by (auto simp: holder_serves_def)

text \<open>A step that leaves the registry, the socket and the holder alone keeps the promise.\<close>

lemma holder_serves_cong:
  "mg_entries m' = mg_entries m \<Longrightarrow> mg_socket m' = mg_socket m \<Longrightarrow> mg_holder m' = mg_holder m \<Longrightarrow>
    holder_serves p serves m' = holder_serves p serves m"
  by (simp add: holder_serves_def subscriptions_def split: holder.splits)

lemma holder_serves_socket_lost:
  "mg_entries m' = mg_entries m \<Longrightarrow> \<forall>v. mg_socket m' \<noteq> Open v \<Longrightarrow> mg_holder m' = mg_holder m \<Longrightarrow>
    holder_serves p serves m \<Longrightarrow> holder_serves p serves m'"
  by (auto simp: holder_serves_def subscriptions_def split: holder.splits)

lemma is_open_iff: "is_open m \<longleftrightarrow> (\<exists>v. mg_socket m = Open v)"
  by (simp add: is_open_def split: socket.splits)

lemma filter_last_entry:
  "distinct (map fst (old @ [(h, sub)])) \<Longrightarrow> filter (\<lambda>q. fst q \<noteq> h) (old @ [(h, sub)]) = old"
  by (auto simp: filter_id_conv)

text \<open>A record of functions that keeps the contract and needs no credentials.\<close>

definition speaks ::
  "('s, 'st, 'f, 'v, 'e) protocol \<Rightarrow> ('s list \<Rightarrow> 'st) \<Rightarrow> ('st \<Rightarrow> 'f list) \<Rightarrow> ('st \<Rightarrow> 'st \<Rightarrow> 'f list) \<Rightarrow>
     ('f \<Rightarrow> 'v \<Rightarrow> 'v) \<Rightarrow> 'v \<Rightarrow> ('s \<Rightarrow> bool) \<Rightarrow> bool" where
  "speaks p derive initial updates receive fresh valid \<longleftrightarrow>
     pr_derive p = derive \<and> pr_initial p = initial \<and> pr_updates p = updates \<and> pr_receive p = receive
     \<and> pr_fresh p = fresh \<and> pr_accepts p = valid \<and> \<not> pr_credentialed p"

context stream_protocol
begin

lemma serves_rollback:
  assumes "registry_sound p m" "holder_sound m" "holder_serves p serves m" "h \<in> subscribing m"
    and m1: "mg_entries m1 = mg_entries m" "mg_handles m1 = mg_handles m" "mg_waiting m1 = mg_waiting m"
      "mg_stopped m1 = mg_stopped m" "mg_closed m1 = mg_closed m"
      "mg_socket m1 = mg_socket m \<or> (\<forall>v. mg_socket m1 \<noteq> Open v)"
  shows "holder_serves p serves (rollback h m1)"
proof -
  have s: "registry_sound p m1" using registry_sound_cong [OF m1(1,2,3,4,5)] assms(1) by simp
  have h: "h < length (mg_handles m1)" "h \<notin> fst ` set (subscribers_waiting (mg_waiting m1))"
    using assms(2,4) by (auto simp: holder_sound_def m1)
  note r = rollback_sound [OF s h]
  have d: "distinct (map fst (mg_entries m))" using distinct_entries [OF assms(1)] .
  have "serves v (map snd (filter (\<lambda>q. fst q \<noteq> h) (mg_entries m)))" if v: "mg_socket m1 = Open v" for v
  proof (cases "mg_entries m = []")
    case True
    then show ?thesis by (simp add: nothing_served)
  next
    case False
    then obtain old sub where e: "mg_entries m = old @ [(h, sub)]"
      using assms(2,4) by (auto simp: holder_sound_def)
    have f: "filter (\<lambda>q. fst q \<noteq> h) (mg_entries m) = old"
      using filter_last_entry [of old h sub] d unfolding e by blast
    have o: "mg_socket m = Open v" using m1(6) v by auto
    show ?thesis unfolding f
      using assms(3,4) False e o by (cases "mg_holder m")
        (auto simp: holder_serves_def subscribing_def dest!: spec [of _ v] elim!: allE [of _ "0::nat"])
  qed
  then show ?thesis using r(2) unfolding holder_serves_def
    by (auto simp: subscriptions_def r(3,8) m1 split: if_splits)
qed

lemma valid_entries: "registry_sound p m \<Longrightarrow> pr_accepts p = valid \<Longrightarrow> list_all valid (subscriptions m)"
  by (auto simp: registry_sound_def live_subscribers_def subscriptions_def list_all_iff)

lemma serves_take_lock:
  assumes sp: "speaks p derive initial updates receive fresh valid"
    and m: "registry_sound p m" "holder_serves p serves m" "mg_holder m = Free" and w: "mg_waiting m = waiter # rest"
  shows "holder_serves p serves (take_lock p waiter (m\<lparr>mg_waiting := rest\<rparr>))"
proof (cases waiter)
  case (WaitSubscribe h sub)
  then show ?thesis using m(2,3)
    by (simp add: take_lock_def begin_subscribe_def Let_def holder_serves_def registry_add_def server_state_def subscriptions_def)
next
  case WaitReconnect
  then show ?thesis using m(2,3)
    by (simp add: take_lock_def begin_reconnect_def holder_serves_def subscriptions_def)
next
  case (WaitClose h)
  let ?es = "filter (\<lambda>q. fst q \<noteq> h) (mg_entries m)"
  have r: "remove_handle h (mg_entries m) = (h \<in> fst ` set (mg_entries m), ?es)"
    using remove_handle_eq [OF distinct_entries [OF m(1)]] .
  have valid: "list_all valid (subscriptions m)"
    using valid_entries [OF m(1)] sp by (simp add: speaks_def)
  then have valid': "list_all valid (map snd ?es)" by (auto simp: subscriptions_def list_all_iff)
  have up: "serves (fold receive (updates (derive (subscriptions m)) (derive (map snd ?es))) v) (map snd ?es)"
    if "mg_socket m = Open v" for v
    using updates_serve [OF valid valid'] m(2,3) that by (simp add: holder_serves_def)
  show ?thesis
  proof (cases "h \<in> fst ` set (mg_entries m)")
    case False
    then have "?es = mg_entries m" by (intro filter_True) auto
    then show ?thesis using m(2,3) False r WaitClose
      by (simp add: take_lock_def begin_close_def finish_handle_close_def holder_serves_def subscriptions_def)
  next
    case True
    then show ?thesis
      using sp up r WaitClose m(3)
      by (simp add: take_lock_def begin_close_def finish_handle_close_def holder_serves_def subscriptions_def speaks_def
          close_connection_def cancel_pending_def server_state_def Let_def)
  qed
qed

lemma serves_subscribed:
  assumes sp: "speaks p derive initial updates receive fresh valid"
    and m: "registry_sound p m" "holder_sound m" "holder_serves p serves m" "mg_holder m = Connecting h b a"
  shows "holder_serves p serves (m\<lparr>mg_holder := SendingSubscribe h (pr_updates p b a)\<rparr>)"
    and "holder_serves p serves (subscribed_opened p h a (m\<lparr>mg_socket := Open (pr_fresh p)\<rparr>))"
proof -
  have p: "pr_derive p = derive" "pr_initial p = initial" "pr_updates p = updates" "pr_receive p = receive"
    "pr_fresh p = fresh" "pr_accepts p = valid" "\<not> pr_credentialed p" using sp by (simp_all add: speaks_def)
  have cases: "mg_entries m = [] \<or> (\<exists>old sub. mg_entries m = old @ [(h, sub)] \<and> b = derive (map snd old)
      \<and> a = derive (map snd old @ [sub]) \<and> (\<forall>v. mg_socket m = Open v \<longrightarrow> serves v (map snd old)))"
    using m(3,4) by (simp add: holder_serves_def p)
  have valid: "list_all valid (subscriptions m)" using valid_entries [OF m(1) p(6)] .
  show "holder_serves p serves (m\<lparr>mg_holder := SendingSubscribe h (pr_updates p b a)\<rparr>)"
    using cases
  proof (elim disjE exE conjE)
    fix old sub
    assume e: "mg_entries m = old @ [(h, sub)]" "b = derive (map snd old)" "a = derive (map snd old @ [sub])"
      and v: "\<forall>v. mg_socket m = Open v \<longrightarrow> serves v (map snd old)"
    have "list_all valid (map snd old)" "valid sub" "list_all valid (map snd old @ [sub])"
      using valid by (simp_all add: subscriptions_def e)
    from updates_serve [OF this(1,3)] prefix_serves [OF this(1,2)] v show ?thesis
      by (simp add: holder_serves_def e p)
  qed (simp add: holder_serves_def)
  have opened: "subscribed_opened p h a (m\<lparr>mg_socket := Open (pr_fresh p)\<rparr>)
      = (send_initial p a (cancel_pending (m\<lparr>mg_socket := Open fresh\<rparr>)))\<lparr>mg_holder := SendingSubscribe h []\<rparr>"
    using p by (simp add: subscribed_opened_def Let_def)
  have sock: "mg_socket (send_initial p a (cancel_pending (m\<lparr>mg_socket := Open fresh\<rparr>))) = Open (fold receive (initial a) fresh)"
    by (subst send_initial_socket [of _ fresh]) (simp_all add: cancel_pending_def p)
  have ents': "mg_entries (cancel_pending (m\<lparr>mg_socket := Open fresh\<rparr>)) = mg_entries m"
    by (simp add: cancel_pending_def)
  have ents: "mg_entries (send_initial p a (cancel_pending (m\<lparr>mg_socket := Open fresh\<rparr>))) = mg_entries m"
    by (simp add: cancel_pending_def)
  show "holder_serves p serves (subscribed_opened p h a (m\<lparr>mg_socket := Open (pr_fresh p)\<rparr>))"
    using cases
  proof (elim disjE exE conjE)
    fix old sub
    assume e: "mg_entries m = old @ [(h, sub)]" "a = derive (map snd old @ [sub])"
    have "list_all valid (map snd old @ [sub])" using valid by (simp add: subscriptions_def e)
    from initial_serves [OF this] have "serves (fold receive (initial a) fresh) (map snd old @ [sub])"
      "serves (fold receive (initial a) fresh) (map snd old)"
      by (simp_all only: e serves_fewer)
    then show ?thesis unfolding opened using sock ents' by (simp add: holder_serves_def e)
  qed (simp add: opened holder_serves_def ents')
qed

lemma serves_reconnected:
  assumes sp: "speaks p derive initial updates receive fresh valid"
    and m: "registry_sound p m" "holder_serves p serves m" "mg_holder m = Reconnecting"
  shows "holder_serves p serves (reconnected p True m)"
    and "holder_serves p serves (reconnected p False (m\<lparr>mg_socket := Open (pr_fresh p)\<rparr>))"
proof -
  have p: "pr_derive p = derive" "pr_initial p = initial" "pr_receive p = receive"
    "pr_fresh p = fresh" "pr_accepts p = valid" "\<not> pr_credentialed p" using sp by (simp_all add: speaks_def)
  show "holder_serves p serves (reconnected p True m)"
    using m(2,3) by (simp add: reconnected_def holder_serves_def close_connection_def subscriptions_def)
  let ?m = "scheduler_reset (m\<lparr>mg_socket := Open fresh\<rparr>)"
  let ?st = "derive (subscriptions m)"
  have sock: "mg_socket (send_initial p ?st ?m) = Open (fold receive (initial ?st) fresh)"
    by (subst send_initial_socket [of _ fresh]) (simp_all add: scheduler_reset_def p)
  have "serves (fold receive (initial ?st) fresh) (subscriptions m)"
    using initial_serves [OF valid_entries [OF m(1) p(5)]] .
  then show "holder_serves p serves (reconnected p False (m\<lparr>mg_socket := Open (pr_fresh p)\<rparr>))"
    using p sock by (simp add: reconnected_def holder_serves_def close_connection_def subscriptions_def
        server_state_def Let_def) (simp add: scheduler_reset_def)
qed

lemma serves_frame_sent:
  assumes sp: "speaks p derive initial updates receive fresh valid"
    and m: "holder_serves p serves m" and step: "manager_step p FrameSent m = Some m'"
  shows "holder_serves p serves m'"
proof (cases "mg_holder m")
  case (SendingSubscribe h fs)
  then obtain f gs where fs: "fs = f # gs" "m' = (snd (send p f m))\<lparr>mg_holder := SendingSubscribe h gs\<rparr>"
    using step by (cases fs) auto
  show ?thesis
  proof (cases "mg_entries m = []")
    case False
    then obtain old sub where e: "mg_entries m = old @ [(h, sub)]"
      and all: "\<And>v. mg_socket m = Open v \<Longrightarrow> serves (fold (pr_receive p) (f # gs) v) (map snd old @ [sub])
        \<and> (\<forall>n. serves (fold (pr_receive p) (take n (f # gs)) v) (map snd old))"
      using m SendingSubscribe fs(1) by (auto simp: holder_serves_def)
    have "serves (fold (pr_receive p) gs v') (map snd old @ [sub])
        \<and> (\<forall>n. serves (fold (pr_receive p) (take n gs) v') (map snd old))"
      if sent: "mg_socket (snd (send p f m)) = Open v'" for v'
    proof -
      obtain v where v: "mg_socket m = Open v" "v' = pr_receive p f v"
        using sent by (cases "mg_socket m") (auto simp: send_def)
      have "serves (fold (pr_receive p) (take (Suc n) (f # gs)) v) (map snd old)" for n
        using all [OF v(1)] by blast
      then show ?thesis using all [OF v(1)] by (simp add: v(2))
    qed
    then show ?thesis by (simp add: fs(2) holder_serves_def e)
  qed (simp add: fs holder_serves_def)
next
  case (SendingClose h fs)
  then obtain f gs where fs: "fs = f # gs" using step by (cases fs) auto
  show ?thesis
  proof (cases "mg_socket m")
    case (Open v)
    then have "m' = m\<lparr>mg_socket := Open (pr_receive p f v), mg_holder := SendingClose h gs\<rparr>"
      using step SendingClose fs by (simp add: send_def)
    then show ?thesis using m SendingClose fs Open by (simp add: holder_serves_def subscriptions_def)
  qed (use step SendingClose fs in \<open>auto simp: send_def finish_handle_close_def holder_serves_def\<close>)
qed (use step in auto)

lemma serves_step:
  assumes sp: "speaks p derive initial updates receive fresh valid"
    and m: "registry_sound p m" "holder_sound m" "holder_serves p serves m"
    and step: "manager_step p e m = Some m'"
  shows "holder_serves p serves m'"
proof (cases e)
  case LockTaken
  with step obtain w rest where w: "mg_holder m = Free" "mg_waiting m = w # rest"
    "m' = take_lock p w (m\<lparr>mg_waiting := rest\<rparr>)" by (auto split: holder.splits list.splits)
  then show ?thesis using serves_take_lock [OF sp m(1,3)] by blast
next
  case SocketReused
  then show ?thesis using step serves_subscribed(1) [OF sp m] serves_reconnected(1) [OF sp m(1,3)]
    by (auto split: if_splits holder.splits)
next
  case SocketOpened
  then show ?thesis using step serves_subscribed(2) [OF sp m] serves_reconnected(2) [OF sp m(1,3)]
    by (auto split: if_splits holder.splits)
next
  case FrameSent
  then show ?thesis using serves_frame_sent [OF sp m(3)] step by blast
next
  case ConnectRefused
  show ?thesis
  proof (cases "mg_holder m")
    case (Connecting h b a)
    then have "m' = rollback h (close_connection m)" using step ConnectRefused by (auto split: if_splits)
    then show ?thesis using serves_rollback [OF m, of h "close_connection m"] Connecting
      by (simp add: close_connection_def subscribing_def)
  next
    case Reconnecting
    then have "m' = schedule ((close_connection m)\<lparr>mg_holder := Free\<rparr>)" using step ConnectRefused by (auto split: if_splits)
    then show ?thesis by (simp add: holder_serves_def close_connection_def)
  qed (use step ConnectRefused in \<open>auto split: if_splits\<close>)
next
  case SubscribeCancelled
  then obtain h m1 where h: "m' = rollback h m1" "m1 = m \<or> m1 = close_connection m" "h \<in> subscribing m"
    using step by (auto simp: subscribing_def split: holder.splits if_splits)
  then show ?thesis using serves_rollback [OF m h(3), of m1] by (auto simp: close_connection_def)
next
  case CredentialsFetched
  then show ?thesis using step m(3) by (auto simp: holder_serves_def split: holder.splits)
next
  case CredentialsFailed
  then show ?thesis using step m(3) by (auto simp: holder_serves_def split: holder.splits)
next
  case LockReleased
  show ?thesis
  proof (cases "mg_holder m")
    case (SendingSubscribe h fs)
    then have "m' = m\<lparr>mg_holder := Free\<rparr>" "fs = []" using step LockReleased by (cases fs; auto)+
    then show ?thesis using m(3) SendingSubscribe by (auto simp: holder_serves_def subscriptions_def nothing_served)
  next
    case (SendingClose h fs)
    then have "m' = finish_handle_close h m" "fs = []" using step LockReleased by (cases fs; auto)+
    then show ?thesis using m(3) SendingClose by (simp add: finish_handle_close_def holder_serves_def subscriptions_def)
  qed (use step LockReleased in auto)
next
  case CloseManagerCall
  show ?thesis
  proof (cases "mg_closed m")
    case False
    then have "m' = manager_close m" "mg_entries m' = []" "mg_socket m' = mg_socket m" "mg_holder m' = mg_holder m"
      using step CloseManagerCall by (auto simp: manager_close_def scheduler_close_def Let_def)
    then show ?thesis using m(3)
      by (auto simp: holder_serves_def subscriptions_def nothing_served split: holder.splits)
  qed (use step CloseManagerCall m in \<open>simp add: manager_close_def\<close>)
next
  case ConnectionShut
  then show ?thesis using step m(3)
    by (intro holder_serves_socket_lost [OF _ _ _ m(3)]) (auto simp: close_connection_def split: if_splits)
next
  case SocketDropped
  then show ?thesis using step
    by (intro holder_serves_socket_lost [OF _ _ _ m(3)]) (auto split: if_splits)
next
  case ReaderStopped
  then show ?thesis using step
    by (intro holder_serves_socket_lost [OF _ _ _ m(3)]) (auto split: if_splits)
next
  case TimerFired
  then have "mg_entries m' = mg_entries m" "mg_socket m' = mg_socket m" "mg_holder m' = mg_holder m"
    using step by (auto simp: Let_def split: if_splits)
  then show ?thesis using m(3) holder_serves_cong by metis
next
  case LossReported
  then have "mg_entries m' = mg_entries m" "mg_socket m' = mg_socket m" "mg_holder m' = mg_holder m"
    using step by (auto simp: Let_def split: if_splits)
  then show ?thesis using m(3) holder_serves_cong by metis
next
  case (SubscribeCall x)
  then have "mg_entries m' = mg_entries m" "mg_socket m' = mg_socket m" "mg_holder m' = mg_holder m"
    using step by (auto split: if_splits sum.splits)
  then show ?thesis using m(3) holder_serves_cong by metis
next
  case (CloseHandleCall x)
  then have "mg_entries m' = mg_entries m" "mg_socket m' = mg_socket m" "mg_holder m' = mg_holder m"
    using step by (auto split: if_splits)
  then show ?thesis using m(3) holder_serves_cong by metis
next
  case (MessageRead x)
  then have "mg_entries m' = mg_entries m" "mg_socket m' = mg_socket m" "mg_holder m' = mg_holder m"
    using step by (auto split: if_splits)
  then show ?thesis using m(3) holder_serves_cong by metis
qed

text \<open>An open socket serves every registered subscription, whenever the lock is free.\<close>

lemma managed_serves:
  assumes sp: "speaks p derive initial updates receive fresh valid" and "managed p stranded m"
  shows "holder_serves p serves m"
  using assms(2)
proof (induction rule: managed.induct)
  case (managed_new n m)
  then show ?case by (auto simp: new_manager_def holder_serves_def split: if_splits)
next
  case (managed_step b m e m')
  then show ?case using serves_step [OF sp] managed_sound by blast
qed

end

section \<open>Subscribers without a connection have an attempt under way\<close>

text \<open>The entries that are not just being added by a \<open>subscribe\<close> which is connecting itself.\<close>

definition settled_entries :: "('s, 'st, 'f, 'v, 'e) manager \<Rightarrow> 's entries" where
  "settled_entries m =
     (case mg_holder m of
        Connecting h before after \<Rightarrow> filter (\<lambda>q. fst q \<noteq> h) (mg_entries m)
      | _ \<Rightarrow> mg_entries m)"

definition attempt_under_way :: "('s, 'st, 'f, 'v, 'e) manager \<Rightarrow> bool" where
  "attempt_under_way m \<longleftrightarrow> mg_timer m \<or> 0 < mg_reporting m \<or> WaitReconnect \<in> set (mg_waiting m)
     \<or> mg_holder m = Reconnecting"

definition will_reconnect :: "('s, 'st, 'f, 'v, 'e) manager \<Rightarrow> bool" where
  "will_reconnect m \<longleftrightarrow> (mg_shutting m \<longrightarrow> mg_closed m) \<and>
     (\<not> mg_closed m \<and> mg_socket m = NoSocket \<and> settled_entries m \<noteq> [] \<longrightarrow> attempt_under_way m)"

lemma will_reconnect_weaker:
  assumes "will_reconnect m" "mg_closed m' = mg_closed m" "mg_shutting m' = mg_shutting m"
    "mg_socket m' = NoSocket \<Longrightarrow> mg_socket m = NoSocket" "settled_entries m' \<noteq> [] \<Longrightarrow> settled_entries m \<noteq> []"
    "mg_timer m \<Longrightarrow> mg_timer m'" "mg_reporting m' = mg_reporting m"
    "WaitReconnect \<in> set (mg_waiting m) \<Longrightarrow> WaitReconnect \<in> set (mg_waiting m')"
    "mg_holder m = Reconnecting \<Longrightarrow> mg_holder m' = Reconnecting"
  shows "will_reconnect m'"
  using assms unfolding will_reconnect_def attempt_under_way_def by auto

lemma settled_other:
  "(\<And>h b a. mg_holder m \<noteq> Connecting h b a) \<Longrightarrow> settled_entries m = mg_entries m"
  by (simp add: settled_entries_def split: holder.splits)

lemma settled_subset: "settled_entries m \<noteq> [] \<Longrightarrow> mg_entries m \<noteq> []"
  by (auto simp: settled_entries_def split: holder.splits)

lemma rollback_will_reconnect:
  assumes m: "registry_sound p m" "holder_sound m" "will_reconnect m" "h \<in> subscribing m"
    and m1: "m1 = m \<or> (m1 = close_connection m \<and> mg_socket m \<noteq> Stale \<and> \<not> is_open m)"
  shows "will_reconnect (rollback h m1)"
proof -
  have same: "m1 = m"
    using m1 by (cases "mg_socket m") (auto simp: close_connection_def is_open_def)
  have h: "h < length (mg_handles m)" "h \<notin> fst ` set (subscribers_waiting (mg_waiting m))"
    using m(2,4) by (auto simp: holder_sound_def)
  note r = rollback_sound [OF m(1) h]
  have sh: "mg_shutting (rollback h m) = mg_shutting m"
    by (simp add: rollback_def Let_def close_connection_def cancel_pending_def)
  have e: "settled_entries (rollback h m) = filter (\<lambda>q. fst q \<noteq> h) (mg_entries m)"
    using r(2,3) by (simp add: settled_entries_def)
  have sub: "settled_entries m \<noteq> []" if "filter (\<lambda>q. fst q \<noteq> h) (mg_entries m) \<noteq> []"
    using that m(4) by (auto simp: settled_entries_def subscribing_def split: holder.splits)
  have hold: "mg_holder m \<noteq> Reconnecting" using m(4) by (auto simp: subscribing_def)
  show ?thesis
    using m(3) r sub hold unfolding same will_reconnect_def attempt_under_way_def e sh
    by (auto split: if_splits)
qed

lemma finish_handle_close_will_reconnect:
  assumes "will_reconnect m" "settled_entries m = mg_entries m" "mg_holder m \<noteq> Reconnecting"
  shows "will_reconnect (finish_handle_close h m)"
  using assms by (auto simp: will_reconnect_def finish_handle_close_def attempt_under_way_def settled_entries_def)

lemma begin_close_will_reconnect:
  assumes m: "registry_sound p m" "will_reconnect m" "mg_holder m = Free"
  shows "will_reconnect (begin_close p h m)"
proof -
  have r: "remove_handle h (mg_entries m) = (h \<in> fst ` set (mg_entries m), filter (\<lambda>q. fst q \<noteq> h) (mg_entries m))"
    using remove_handle_eq [OF distinct_entries [OF m(1)]] .
  have id: "filter (\<lambda>q. fst q \<noteq> h) (mg_entries m) = mg_entries m" if "h \<notin> fst ` set (mg_entries m)"
    using that by (intro filter_True) auto
  show ?thesis using m(2,3) id
    by (auto simp: begin_close_def r Let_def will_reconnect_def attempt_under_way_def settled_entries_def
        finish_handle_close_def close_connection_def cancel_pending_def)
qed

lemma schedule_will_reconnect:
  assumes "mg_stopped m = mg_closed m" "mg_shutting m \<longrightarrow> mg_closed m"
  shows "will_reconnect (schedule m)"
proof -
  have "mg_shutting (schedule m) = mg_shutting m" by (simp add: schedule_def)
  moreover have "mg_timer (schedule m)" if "\<not> mg_closed m" "mg_entries m \<noteq> []"
    using that assms(1) by (simp add: schedule_def should_reconnect_def)
  ultimately show ?thesis
    using assms(2) settled_subset [of "schedule m"] by (auto simp: will_reconnect_def attempt_under_way_def)
qed

lemma will_reconnect_open: "mg_socket m = Open v \<Longrightarrow> mg_shutting m \<longrightarrow> mg_closed m \<Longrightarrow> will_reconnect m"
  by (simp add: will_reconnect_def)

lemma send_shutting [simp]: "mg_shutting (snd (send p f m)) = mg_shutting m"
  by (simp add: send_def split: socket.splits)

lemma send_initial_shutting [simp]: "mg_shutting (send_initial p st m) = mg_shutting m"
proof -
  have "mg_shutting (fold (\<lambda>f m. snd (send p f m)) fs m) = mg_shutting m" for fs
    by (induction fs arbitrary: m) simp_all
  then show ?thesis by (simp add: send_initial_def)
qed

lemma send_initial_no_socket: "mg_socket (send_initial p st m) = NoSocket \<longleftrightarrow> mg_socket m = NoSocket"
proof -
  have "mg_socket (fold (\<lambda>f m. snd (send p f m)) fs m) = NoSocket \<longleftrightarrow> mg_socket m = NoSocket" for fs
    by (induction fs arbitrary: m) (simp_all add: send_def split: socket.splits)
  then show ?thesis by (simp add: send_initial_def)
qed

lemma take_lock_will_reconnect:
  assumes m: "registry_sound p m" "will_reconnect m" "mg_holder m = Free" and w: "mg_waiting m = waiter # rest"
  shows "will_reconnect (take_lock p waiter (m\<lparr>mg_waiting := rest\<rparr>))"
proof (cases waiter)
  case (WaitSubscribe h sub)
  have "h \<notin> fst ` set (mg_entries m)"
    using m(1) by (auto simp: registry_sound_def live_subscribers_def w WaitSubscribe)
  then have "filter (\<lambda>q. fst q \<noteq> h) (mg_entries m @ [(h, sub)]) = mg_entries m"
    by (auto intro!: filter_True)
  then show ?thesis using m(2,3) w
    by (simp add: take_lock_def WaitSubscribe begin_subscribe_def registry_add_def Let_def will_reconnect_def
        settled_entries_def attempt_under_way_def)
next
  case (WaitClose h)
  have "registry_sound p (m\<lparr>mg_waiting := rest\<rparr>)"
    using m(1) by (simp add: registry_sound_def live_subscribers_def w WaitClose)
  moreover have "will_reconnect (m\<lparr>mg_waiting := rest\<rparr>)"
    using m(2,3) w WaitClose by (simp add: will_reconnect_def attempt_under_way_def settled_entries_def)
  ultimately show ?thesis using begin_close_will_reconnect [of p "m\<lparr>mg_waiting := rest\<rparr>" h] m(3)
    by (simp add: take_lock_def WaitClose)
next
  case WaitReconnect
  then show ?thesis using m(2,3)
    by (auto simp: take_lock_def begin_reconnect_def should_reconnect_def will_reconnect_def
        attempt_under_way_def settled_entries_def)
qed

lemma will_reconnect_step:
  assumes m: "registry_sound p m" "holder_sound m" "will_reconnect m" and ns: "\<not> strands e m"
    and step: "manager_step p e m = Some m'"
  shows "will_reconnect m'"
proof -
  have shut: "mg_shutting m \<longrightarrow> mg_closed m" using m(3) by (simp add: will_reconnect_def)
  have stop: "mg_stopped m = mg_closed m" using m(1) by (simp add: registry_sound_def)
  show ?thesis
  proof (cases e)
    case (SubscribeCall sub)
    then show ?thesis using step
      by (intro will_reconnect_weaker [OF m(3)]) (auto simp: settled_entries_def split: if_splits sum.splits holder.splits)
  next
    case (CloseHandleCall h)
    then show ?thesis using step
      by (intro will_reconnect_weaker [OF m(3)]) (auto simp: settled_entries_def split: if_splits holder.splits)
  next
    case (MessageRead x)
    then show ?thesis using step
      by (intro will_reconnect_weaker [OF m(3)]) (auto simp: settled_entries_def split: if_splits holder.splits)
  next
    case CloseManagerCall
    then show ?thesis using step m(3) by (auto simp: manager_close_def scheduler_close_def Let_def will_reconnect_def split: if_splits)
  next
    case ConnectionShut
    then show ?thesis using step shut by (auto simp: close_connection_def will_reconnect_def split: if_splits)
  next
    case LockTaken
    with step obtain w rest where w: "mg_holder m = Free" "mg_waiting m = w # rest"
      "m' = take_lock p w (m\<lparr>mg_waiting := rest\<rparr>)" by (auto split: holder.splits list.splits)
    then show ?thesis using take_lock_will_reconnect [OF m(1,3)] by blast
  next
    case SocketDropped
    then show ?thesis using step shut by (auto simp: will_reconnect_def split: if_splits)
  next
    case ReaderStopped
    then show ?thesis using step shut by (auto simp: will_reconnect_def attempt_under_way_def split: if_splits)
  next
    case LossReported
    let ?m = "m\<lparr>mg_reporting := mg_reporting m - 1\<rparr>"
    have "m' = (if mg_closed m then ?m else schedule ?m)" using step LossReported by (auto simp: Let_def split: if_splits)
    then show ?thesis using schedule_will_reconnect [of ?m] stop shut by (auto simp: will_reconnect_def)
  next
    case TimerFired
    then have "m' = m\<lparr>mg_timer := False\<rparr> \<and> (mg_closed m \<or> mg_entries m = [])
        \<or> m' = m\<lparr>mg_timer := False, mg_waiting := mg_waiting m @ [WaitReconnect]\<rparr>"
      using step stop by (auto simp: Let_def should_reconnect_def split: if_splits)
    then show ?thesis using shut settled_subset [of m']
      by (auto simp: will_reconnect_def attempt_under_way_def)
  next
    case SocketReused
    show ?thesis
    proof (cases "mg_holder m")
      case (Connecting h b a)
      then have "m' = m\<lparr>mg_holder := SendingSubscribe h (pr_updates p b a)\<rparr>" "is_open m"
        using step SocketReused by (auto split: if_splits)
      then show ?thesis using shut by (auto simp: will_reconnect_def is_open_iff)
    next
      case Reconnecting
      then have "m' = reconnected p True m" "is_open m" using step SocketReused by (auto split: if_splits)
      then show ?thesis using shut
        by (auto simp: will_reconnect_def is_open_iff reconnected_def close_connection_def)
    qed (use step SocketReused in \<open>auto split: if_splits\<close>)
  next
    case SocketOpened
    show ?thesis
    proof (cases "mg_holder m")
      case (Connecting h b a)
      then have e: "m' = subscribed_opened p h a (m\<lparr>mg_socket := Open (pr_fresh p)\<rparr>)"
        using step SocketOpened by (auto split: if_splits)
      have "mg_shutting m' = mg_shutting m" "mg_closed m' = mg_closed m" "mg_socket m' \<noteq> NoSocket"
        unfolding e subscribed_opened_def Let_def
        by (simp_all add: cancel_pending_def send_initial_no_socket)
      then show ?thesis using shut by (simp add: will_reconnect_def)
    next
      case Reconnecting
      then have e: "m' = reconnected p False (m\<lparr>mg_socket := Open (pr_fresh p)\<rparr>)"
        using step SocketOpened by (auto split: if_splits)
      have "mg_shutting m' = mg_shutting m" "mg_closed m' = mg_closed m" "mg_closed m \<or> mg_socket m' \<noteq> NoSocket"
        unfolding e reconnected_def Let_def
        by (simp_all add: close_connection_def scheduler_reset_def send_initial_no_socket)
      then show ?thesis using shut by (auto simp: will_reconnect_def)
    qed (use step SocketOpened in \<open>auto split: if_splits\<close>)
  next
    case ConnectRefused
    show ?thesis
    proof (cases "mg_holder m")
      case (Connecting h b a)
      then have "m' = rollback h (close_connection m)" "\<not> is_open m" using step ConnectRefused by (auto split: if_splits)
      moreover have "mg_socket m \<noteq> Stale" using ns ConnectRefused Connecting by (simp add: strands_def)
      ultimately show ?thesis using rollback_will_reconnect [OF m, of h] Connecting by (simp add: subscribing_def)
    next
      case Reconnecting
      then have "m' = schedule ((close_connection m)\<lparr>mg_holder := Free\<rparr>)" using step ConnectRefused by (auto split: if_splits)
      then show ?thesis using schedule_will_reconnect [of "(close_connection m)\<lparr>mg_holder := Free\<rparr>"] stop shut
        by (simp add: close_connection_def)
    qed (use step ConnectRefused in \<open>auto split: if_splits\<close>)
  next
    case SubscribeCancelled
    show ?thesis
    proof (cases "mg_holder m")
      case (Connecting h b a)
      then have "m' = rollback h (if is_open m then m else close_connection m)" using step SubscribeCancelled by simp
      moreover have "mg_socket m \<noteq> Stale" using ns SubscribeCancelled Connecting by (simp add: strands_def)
      ultimately show ?thesis using rollback_will_reconnect [OF m, of h "if is_open m then m else close_connection m"] Connecting
        by (auto simp: subscribing_def)
    qed (use step SubscribeCancelled rollback_will_reconnect [OF m] in \<open>auto simp: subscribing_def\<close>)
  next
    case CredentialsFailed
    show ?thesis
    proof (cases "mg_holder m")
      case RefetchingCredentials
      then have "m' = schedule ((close_connection m)\<lparr>mg_holder := Free\<rparr>)" using step CredentialsFailed by auto
      then show ?thesis using schedule_will_reconnect [of "(close_connection m)\<lparr>mg_holder := Free\<rparr>"] stop shut
        by (simp add: close_connection_def)
    qed (use step CredentialsFailed rollback_will_reconnect [OF m] in \<open>auto simp: subscribing_def\<close>)
  next
    case CredentialsFetched
    then show ?thesis using step
      by (intro will_reconnect_weaker [OF m(3)])
         (auto simp: settled_entries_def send_initial_no_socket split: holder.splits)
  next
    case LockReleased
    show ?thesis
    proof (cases "mg_holder m")
      case (SendingSubscribe h fs)
      then have "m' = m\<lparr>mg_holder := Free\<rparr>" using step LockReleased by (cases fs) auto
      then show ?thesis using SendingSubscribe
        by (intro will_reconnect_weaker [OF m(3)]) (auto simp: settled_entries_def)
    next
      case (SendingClose h fs)
      then have "m' = finish_handle_close h m" using step LockReleased by (cases fs) auto
      then show ?thesis using SendingClose finish_handle_close_will_reconnect [OF m(3)] by (simp add: settled_entries_def)
    qed (use step LockReleased in auto)
  next
    case FrameSent
    show ?thesis
    proof (cases "mg_holder m")
      case (SendingSubscribe h fs)
      then obtain f gs where "m' = (snd (send p f m))\<lparr>mg_holder := SendingSubscribe h gs\<rparr>"
        using step FrameSent by (cases fs) auto
      then show ?thesis using SendingSubscribe
        by (intro will_reconnect_weaker [OF m(3)]) (auto simp: settled_entries_def send_def split: socket.splits)
    next
      case (SendingClose h fs)
      then obtain f gs where fs: "fs = f # gs" using step FrameSent by (cases fs) auto
      show ?thesis
      proof (cases "mg_socket m")
        case (Open v)
        then have "m' = m\<lparr>mg_socket := Open (pr_receive p f v), mg_holder := SendingClose h gs\<rparr>"
          using step FrameSent SendingClose fs by (simp add: send_def)
        then show ?thesis using shut by (simp add: will_reconnect_def)
      qed (use step FrameSent SendingClose fs finish_handle_close_will_reconnect [OF m(3)] in
        \<open>auto simp: send_def settled_entries_def\<close>)
    qed (use step FrameSent in auto)
  qed
qed

lemma managed_will_reconnect: "managed p stranded m \<Longrightarrow> \<not> stranded \<Longrightarrow> will_reconnect m"
proof (induction rule: managed.induct)
  case (managed_new n m)
  then show ?case by (auto simp: new_manager_def will_reconnect_def settled_entries_def split: if_splits)
next
  case (managed_step b m e m')
  then show ?case using will_reconnect_step managed_sound by blast
qed

text \<open>Runs from a new manager.\<close>

lemma managed_run:
  "managed p stranded m \<Longrightarrow> manager_run p es m = Some m' \<Longrightarrow> \<exists>stranded'. managed p stranded' m'"
proof (induction es arbitrary: stranded m)
  case (Cons e es)
  then show ?case by (auto split: option.splits intro: managed_step)
qed auto

end
