(* ===== verification/Stream_Properties.thy ===== *)
theory Stream_Properties imports Stream_Service begin

text \<open>
  The properties of the streams, on the protocols of the four managers, with their witnesses and with
  the traces that lead a manager into a state it does not leave.
\<close>

section \<open>The protocols as records\<close>

definition market_protocol ::
  "(market_subscription, market_server_state, pyval, market_view, market_event) protocol" where
  "market_protocol = \<lparr>pr_derive = market_derive_state, pr_initial = (\<lambda>st. [market_initial_frame st]),
     pr_updates = market_diff_frames, pr_matcher = (\<lambda>sub event. Ok (market_match_for sub event)),
     pr_accepts = market_valid, pr_credentialed = False, pr_receive = market_receive,
     pr_fresh = \<lparr>mv_assets = {}, mv_custom = False\<rparr>\<rparr>"

definition perps_protocol :: "(perps_spec, string set, channel_request, string set, perps_event) protocol" where
  "perps_protocol = \<lparr>pr_derive = perps_derive_state, pr_initial = perps_initial,
     pr_updates = (\<lambda>a b. channel_requests (diff_channels a b)),
     pr_matcher = (\<lambda>spec event. Ok (perps_match_for spec event)), pr_accepts = (\<lambda>_. True),
     pr_credentialed = False, pr_receive = perps_receive, pr_fresh = {}\<rparr>"

definition rtds_protocol ::
  "(rtds_spec, (string, rtds_server_subscription) dict, pyval, rtds_server_subscription set, rtds_event) protocol" where
  "rtds_protocol = \<lparr>pr_derive = rtds_derive_state, pr_initial = rtds_initial, pr_updates = rtds_diff_frames,
     pr_matcher = (\<lambda>spec event. Ok (rtds_matcher_for spec event)), pr_accepts = (\<lambda>_. True),
     pr_credentialed = False, pr_receive = rtds_receive, pr_fresh = {}\<rparr>"

text \<open>The user manager fetches \<open>credentials\<close> for its opening frame; \<open>None\<close> is a connection the server has
  not been given any on.\<close>

definition user_receive_opt :: "pyval \<Rightarrow> string set option \<Rightarrow> string set option" where
  "user_receive_opt frame view =
     (case frame of
        PDict d \<Rightarrow> if dict_get ''type'' d = PStr ''user'' then Some (user_receive frame {})
                   else map_option (user_receive frame) view
      | _ \<Rightarrow> view)"

definition user_protocol ::
  "api_key_creds \<Rightarrow> (user_subscription, user_server_state, pyval, string set option, string) protocol" where
  "user_protocol credentials = \<lparr>pr_derive = user_derive_state, pr_initial = (\<lambda>st. [user_initial_frame st credentials]),
     pr_updates = user_diff_frames, pr_matcher = (\<lambda>sub market. Ok (user_matcher_for sub market)),
     pr_accepts = (\<lambda>sub. [] \<notin> set (us_markets sub)), pr_credentialed = True, pr_receive = user_receive_opt,
     pr_fresh = None\<rparr>"

lemmas protocol_defs = market_protocol_def perps_protocol_def rtds_protocol_def user_protocol_def

lemma protocols_speak:
  "speaks market_protocol market_derive_state (\<lambda>st. [market_initial_frame st]) market_diff_frames market_receive
     \<lparr>mv_assets = {}, mv_custom = False\<rparr> market_valid"
  "speaks perps_protocol perps_derive_state perps_initial (\<lambda>a b. channel_requests (diff_channels a b)) perps_receive {} (\<lambda>_. True)"
  "speaks rtds_protocol rtds_derive_state rtds_initial rtds_diff_frames rtds_receive {} (\<lambda>_. True)"
  by (simp_all add: speaks_def protocol_defs)

text \<open>A trace without a failed connection strands nobody.\<close>

lemma managed_run_calm:
  "managed p False m \<Longrightarrow> manager_run p es m = Some m' \<Longrightarrow> ConnectRefused \<notin> set es \<Longrightarrow>
    SubscribeCancelled \<notin> set es \<Longrightarrow> managed p False m'"
proof (induction es arbitrary: m)
  case (Cons e es)
  then obtain m1 where m1: "manager_step p e m = Some m1" "manager_run p es m1 = Some m'"
    by (auto split: option.splits)
  have "\<not> strands e m" using Cons.prems(3,4) by (auto simp: strands_def)
  then have "managed p False m1" using managed_step [OF Cons.prems(1) m1(1)] by simp
  then show ?case using Cons.IH m1(2) Cons.prems(3,4) by simp
qed simp

lemma managed_from_new:
  "(case new_manager n of Inr m \<Rightarrow> manager_run p es m | Inl _ \<Rightarrow> None) = Some m' \<Longrightarrow> \<exists>b. managed p b m'"
  using managed_run [OF managed_new] by (auto split: sum.splits)

lemma managed_from_new_calm:
  "(case new_manager n of Inr m \<Rightarrow> manager_run p es m | Inl _ \<Rightarrow> None) = Some m' \<Longrightarrow>
    ConnectRefused \<notin> set es \<Longrightarrow> SubscribeCancelled \<notin> set es \<Longrightarrow> managed p False m'"
  using managed_run_calm [OF managed_new] by (auto split: sum.splits)

section \<open>Subscription handles\<close>

lemma new_handle_eq:
  "new_handle n = Ok h \<Longrightarrow> handle_ok h \<and> \<not> h_ended h \<and> h_maxsize h = nat n \<and> h_queue h = [] \<and> h_dropped h = 0"
  using new_handle_ok [of n h] unfolding new_handle_def by (cases "n \<le> 0") auto

lemma new_handle_run_ok: "new_handle n = Ok h \<Longrightarrow> run_ok (start_run h)"
  using new_handle_eq by (blast intro: run_ok_start)

text \<open>A handle and a merged handle for the witnesses.\<close>

definition demo_handle :: "nat handle" where
  "demo_handle = \<lparr>h_queue = [], h_maxsize = 2, h_ended = False, h_dropped = 0, h_end_error = None\<rparr>"

definition demo_merged :: "nat merged" where
  "demo_merged = \<lparr>g_handles = [demo_handle, demo_handle], g_pumping = [True, True], g_queue = [], g_maxsize = 3,
     g_dropped = 0, g_first_error = None, g_closing = NotClosing\<rparr>"

lemma demo_handles: "new_handle 2 = Ok demo_handle" "new_merged [demo_handle, demo_handle] 3 = Ok demo_merged"
  by (simp_all add: new_handle_def new_merged_def demo_handle_def demo_merged_def)

lemma demo_merged_ok: "merged_ok demo_merged" "0 < open_pumps demo_merged"
  using new_merged_ok [OF demo_handles(2)] new_handle_ok [OF demo_handles(1)]
  by (auto simp: open_pumps_def demo_merged_def)

text \<open>C30: A handle delivers events in the order it accepted them: what the consumer received and what
  still waits is a subsequence of what was pushed, every event pushed was received, waits, was counted as
  dropped or was thrown away by a close, and no more wait than the queue has room for.\<close>

theorem handle_delivers_in_order:
  assumes "new_handle n = Ok h" "r = fold apply_call calls (start_run h)"
  shows "subseq (r_received r @ pending (h_queue (r_handle r))) (r_accepted r)
    \<and> length (r_accepted r) = length (r_received r) + length (pending (h_queue (r_handle r)))
        + h_dropped (r_handle r) + r_discarded r
    \<and> length (h_queue (r_handle r)) \<le> h_maxsize (r_handle r)"
proof -
  have "run_ok r" unfolding assms(2) by (intro run_ok_calls new_handle_run_ok [OF assms(1)])
  then show ?thesis by (simp add: run_ok_def handle_ok_def)
qed

theorem handle_delivers_in_order_witness:
  "let r = fold apply_call [Push (1::nat), Push 2, Push 3, Receive, Push 4, EndStream None, Receive]
        (start_run demo_handle)
   in subseq (r_received r @ pending (h_queue (r_handle r))) (r_accepted r)
     \<and> r_received r = [2, 4] \<and> r_accepted r = [1, 2, 3, 4]"
proof -
  let ?r = "fold apply_call [Push (1::nat), Push 2, Push 3, Receive, Push 4, EndStream None, Receive] (start_run demo_handle)"
  from handle_delivers_in_order [OF demo_handles(1) refl, of "[Push (1::nat), Push 2, Push 3, Receive, Push 4, EndStream None, Receive]"]
  have "subseq (r_received ?r @ pending (h_queue (r_handle ?r))) (r_accepted ?r)" by blast
  moreover have "r_received ?r = [2, 4] \<and> r_accepted ?r = [1, 2, 3, 4]" by code_simp
  ultimately show ?thesis unfolding Let_def by blast
qed

text \<open>C31: Whatever backlog builds up, the queues keep the newest events, in order, and count the others
  as dropped: the queue of an open handle and, while a child still runs, the queue of a merged handle.\<close>

theorem queues_keep_the_newest:
  assumes "new_handle n = Ok h" "merged_ok g" "0 < open_pumps g"
  shows "pending (h_queue (fold push es h)) = keep_last (nat n) es
    \<and> h_dropped (fold push es h) = length es - nat n
    \<and> pending (g_queue (fold put_or_drop es g)) = keep_last (g_maxsize g) (pending (g_queue g) @ es)
    \<and> g_dropped (fold put_or_drop es g) = g_dropped g + (length (pending (g_queue g)) + length es - g_maxsize g)"
proof -
  note h = new_handle_eq [OF assms(1)]
  have "pending (h_queue (fold push es h)) = keep_last (nat n) es"
    "h_dropped (fold push es h) = length es - nat n"
    using handle.put_all(1,2) [of h es] h by simp_all
  moreover have "pending (g_queue (fold put_or_drop es g)) = keep_last (g_maxsize g) (pending (g_queue g) @ es)"
    "g_dropped (fold put_or_drop es g) = g_dropped g + (length (pending (g_queue g)) + length es - g_maxsize g)"
    using merged.put_all(1,2) [of g es] assms(2,3) by blast+
  ultimately show ?thesis by blast
qed

theorem queues_keep_the_newest_witness:
  "pending (h_queue (fold push [1, 2, 3] demo_handle)) = [2, 3]
    \<and> pending (g_queue (fold put_or_drop [1, 2, 3, 4] demo_merged)) = [2, 3, 4]"
  using queues_keep_the_newest [OF demo_handles(1) demo_merged_ok, of "[1, 2, 3]"]
    queues_keep_the_newest [OF demo_handles(1) demo_merged_ok, of "[1, 2, 3, 4]"]
  by (simp add: keep_last_def) (simp add: demo_merged_def)

text \<open>A consumer of a handle that has ended receives the events that still wait, in order, and then
  the end, or the error the stream ended with, again and again; it never waits.\<close>

theorem ended_handle_drains:
  assumes "new_handle n = Ok h" "r = fold apply_call calls (start_run h)" "h_ended (r_handle r)"
  shows "receive_times k (r_handle r) = map Item (take k (pending (h_queue (r_handle r))))
    @ replicate (k - length (pending (h_queue (r_handle r)))) (end_of_stream (h_end_error (r_handle r)))"
proof -
  have "run_ok r" unfolding assms(2) by (intro run_ok_calls new_handle_run_ok [OF assms(1)])
  then have "handle_ok (r_handle r)" by (simp add: run_ok_def)
  then show ?thesis using assms(3) by (rule receive_times_ended)
qed

theorem ended_handle_drains_witness:
  "receive_times 3 (end_handle (Some TransportError) False (push 7 demo_handle))
    = [Item 7, Failed TransportError, Failed TransportError]"
proof -
  let ?r = "fold apply_call [Push (7::nat), EndStream (Some TransportError)] (start_run demo_handle)"
  have "h_ended (r_handle ?r)" "r_handle ?r = end_handle (Some TransportError) False (push (7::nat) demo_handle)"
    "pending (h_queue (r_handle ?r)) = [7]" "h_end_error (r_handle ?r) = Some TransportError" by code_simp+
  then show ?thesis
    using ended_handle_drains [OF demo_handles(1), of ?r "[Push (7::nat), EndStream (Some TransportError)]" 3]
    by (simp add: end_of_stream_def numeral_3_eq_3)
qed

text \<open>C32: A merged handle ends with the first failure of its children. A pump that meets the end of a
  child that failed, having passed on what still waited there, records that failure unless it has one
  already, stops and sets the handle to close without waiting for the other children; so until the handle
  is closed, no pump has stopped at a failed child while no error is recorded. The error recorded is one that
  a child ended with, nothing that happens later replaces it, and a consumer of a closed merged handle meets
  it at once, while one whose pumps have all stopped receives what still waits and then meets it.\<close>

theorem merged_ends_with_first_failure:
  assumes "new_merged hs n = Ok g0" "\<forall>h\<in>set hs. handle_ok h" "merged_run es g0 = Some g"
  shows "(\<forall>i e. i < length (g_handles g) \<and> g_pumping g ! i \<and> h_ended (g_handles g ! i)
          \<and> h_end_error (g_handles g ! i) = Some e \<and> pending (h_queue (g_handles g ! i)) = [] \<longrightarrow>
        (\<exists>g'. merged_step (Pump i) g = Some g' \<and> \<not> g_pumping g' ! i \<and> g_closing g' \<noteq> NotClosing
          \<and> g_first_error g' = (if g_first_error g = None then Some e else g_first_error g)))
    \<and> (\<forall>i<length (g_handles g). g_closing g \<noteq> Closed \<and> \<not> g_pumping g ! i \<longrightarrow>
        h_ended (g_handles g ! i) \<and> (h_end_error (g_handles g ! i) \<noteq> None \<longrightarrow> g_first_error g \<noteq> None))
    \<and> (\<forall>e. g_first_error g = Some e \<longrightarrow>
        (\<exists>h\<in>set (g_handles g). h_ended h \<and> h_end_error h = Some e) \<and> g_closing g \<noteq> NotClosing
        \<and> (\<forall>es' g'. merged_run es' g = Some g' \<longrightarrow> g_first_error g' = Some e))
    \<and> (g_closing g = Closed \<longrightarrow> merged_receive_times k g = replicate k (end_of_stream (g_first_error g)))
    \<and> (g_closing g \<noteq> Closed \<and> open_pumps g = 0 \<longrightarrow>
         merged_receive_times k g = map Item (take k (pending (g_queue g)))
           @ replicate (k - length (pending (g_queue g))) (end_of_stream (g_first_error g)))"
proof -
  have ok0: "merged_ok g0" using new_merged_ok [OF assms(1,2)] by blast
  have ok: "merged_ok g" using merged_run_ok [OF ok0 assms(3)] by blast
  have heeds: "pumps_heed g" using merged_run_heeds [OF ok0 new_merged_heeds [OF assms(1)] assms(3)] .
  have "g_first_error g' = Some e" if "g_first_error g = Some e" "merged_run es' g = Some g'" for e es' g'
    using merged_run_ok [OF ok that(2)] that(1) by (simp add: not_undone_def)
  moreover have "\<forall>i e. i < length (g_handles g) \<and> g_pumping g ! i \<and> h_ended (g_handles g ! i)
      \<and> h_end_error (g_handles g ! i) = Some e \<and> pending (h_queue (g_handles g ! i)) = [] \<longrightarrow>
      (\<exists>g'. merged_step (Pump i) g = Some g' \<and> \<not> g_pumping g' ! i \<and> g_closing g' \<noteq> NotClosing
        \<and> g_first_error g' = (if g_first_error g = None then Some e else g_first_error g))"
    using failed_child_recorded [OF ok heeds] by blast
  ultimately show ?thesis using ok heeds merged_receive_closed merged_receive_stopped [OF ok]
    unfolding merged_ok_def pumps_heed_def by blast
qed

theorem merged_ends_with_first_failure_witness:
  "(\<exists>g g'. merged_run [ChildPush 0 7, ChildEnd 1 (Some TransportError), Pump 0] demo_merged = Some g
      \<and> merged_step (Pump 1) g = Some g' \<and> g_first_error g' = Some TransportError)
   \<and> (\<exists>g. merged_run [ChildPush 0 7, ChildEnd 1 (Some TransportError), Pump 0, Pump 1, CloseChildren, FinishClose]
        demo_merged = Some g
      \<and> g_first_error g = Some TransportError
      \<and> merged_receive_times 2 g = [Failed TransportError, Failed TransportError])"
proof (intro conjI)
  have ok: "\<forall>h\<in>set [demo_handle, demo_handle]. handle_ok h" using new_handle_ok [OF demo_handles(1)] by simp
  let ?ps = "[ChildPush 0 7, ChildEnd 1 (Some TransportError), Pump 0]"
  have "map_option (\<lambda>g. (1 < length (g_handles g), g_pumping g ! 1, h_ended (g_handles g ! 1), h_end_error (g_handles g ! 1),
      pending (h_queue (g_handles g ! 1)), g_first_error g)) (merged_run ?ps demo_merged)
      = Some (True, True, True, Some TransportError, [], None)" by code_simp
  then obtain g where g: "merged_run ?ps demo_merged = Some g" "1 < length (g_handles g) \<and> g_pumping g ! 1
      \<and> h_ended (g_handles g ! 1) \<and> h_end_error (g_handles g ! 1) = Some TransportError
      \<and> pending (h_queue (g_handles g ! 1)) = []" "g_first_error g = None" by auto
  show "\<exists>g g'. merged_run ?ps demo_merged = Some g \<and> merged_step (Pump 1) g = Some g' \<and> g_first_error g' = Some TransportError"
    using merged_ends_with_first_failure [OF demo_handles(2) ok g(1), of 0] g by (metis (full_types))
  let ?es = "[ChildPush 0 7, ChildEnd 1 (Some TransportError), Pump 0, Pump 1, CloseChildren, FinishClose]"
  have "map_option (\<lambda>g. (g_first_error g, g_closing g)) (merged_run ?es demo_merged) = Some (Some TransportError, Closed)"
    by code_simp
  then obtain g where g: "merged_run ?es demo_merged = Some g" "g_first_error g = Some TransportError" "g_closing g = Closed"
    by auto
  have "merged_receive_times 2 g = replicate 2 (end_of_stream (g_first_error g))"
    using merged_ends_with_first_failure [OF demo_handles(2) ok g(1), of 2] g(3) by blast
  then show "\<exists>g. merged_run ?es demo_merged = Some g \<and> g_first_error g = Some TransportError
      \<and> merged_receive_times 2 g = [Failed TransportError, Failed TransportError]"
    using g by (auto simp: end_of_stream_def numeral_2_eq_2)
qed

section \<open>Managers\<close>

lemma holder_free_serves:
  "holder_serves p serves m \<Longrightarrow> mg_holder m = Free \<Longrightarrow> mg_socket m = Open v \<Longrightarrow> serves v (map snd (mg_entries m))"
  by (simp add: holder_serves_def subscriptions_def)

text \<open>C33: Every event a market subscriber asked for reaches it. Whenever no one holds the lock of the market
  manager and its socket is open, the server streams each event that the matcher of a registered
  subscription accepts, and reading it pushes it to the handle of that subscription, which has not
  ended, once; handles whose subscriptions do not match it stay as they are.\<close>

theorem market_events_reach_subscribers:
  assumes "managed market_protocol stranded m" "mg_holder m = Free" "mg_socket m = Open view"
    and "(h, sub) \<in> set (mg_entries m)" "market_match_for sub event"
  shows "market_streams view event
    \<and> (\<exists>m'. manager_step market_protocol (MessageRead event) m = Some m'
        \<and> pending (h_queue (mg_handles m' ! h))
            = keep_last (h_maxsize (mg_handles m ! h)) (pending (h_queue (mg_handles m ! h)) @ [event])
        \<and> (\<forall>i. (\<nexists>s. (i, s) \<in> set (mg_entries m) \<and> market_match_for s event) \<longrightarrow>
             mg_handles m' ! i = mg_handles m ! i))"
proof -
  have sound: "registry_sound market_protocol m" using managed_sound assms(1) by blast
  have "market_serves view (map snd (mg_entries m))"
    using holder_free_serves [OF market.managed_serves [OF protocols_speak(1) assms(1)] assms(2,3)] .
  moreover have "sub \<in> set (map snd (mg_entries m))" using assms(4) by force
  ultimately have "market_streams view event" using market_serves_events assms(5) by blast
  moreover have d: "distinct (map fst (mg_entries m))" "\<forall>h\<in>fst ` set (mg_entries m). h < length (mg_handles m)"
    using sound by (auto simp: registry_sound_def live_subscribers_def)
  have "h < length (mg_handles m)" using d(2) assms(4) by force
  then have ok: "handle_ok (mg_handles m ! h)" "\<not> h_ended (mg_handles m ! h)"
    using sound assms(4) by (auto simp: registry_sound_def live_subscribers_def)
  let ?m = "m\<lparr>mg_handles := dispatch_event (\<lambda>sub event. Ok (market_match_for sub event)) event (mg_entries m) (mg_handles m)\<rparr>"
  have "manager_step market_protocol (MessageRead event) m = Some ?m"
    using assms(3) by (simp add: market_protocol_def)
  moreover have "pending (h_queue (mg_handles ?m ! h))
      = keep_last (h_maxsize (mg_handles m ! h)) (pending (h_queue (mg_handles m ! h)) @ [event])"
    using assms(4,5) ok by (auto simp: dispatch_event_nth [OF d] handle.items_put)
  moreover have "\<forall>i. (\<nexists>s. (i, s) \<in> set (mg_entries m) \<and> market_match_for s event) \<longrightarrow> mg_handles ?m ! i = mg_handles m ! i"
    using dispatch_event_nth [OF d, of "\<lambda>sub event. Ok (market_match_for sub event)" event] by auto
  ultimately show ?thesis by blast
qed

text \<open>Two market subscriptions, one with the additional events.\<close>

definition demo_subs :: "market_subscription list" where
  "demo_subs = [\<lparr>ms_token_ids = [''11'', ''22''], ms_custom_feature_enabled = False\<rparr>,
     \<lparr>ms_token_ids = [''22''], ms_custom_feature_enabled = True\<rparr>]"

definition demo_happenings :: "(market_subscription, market_event) happening list" where
  "demo_happenings = [SubscribeCall (demo_subs ! 0), SubscribeCall (demo_subs ! 1), LockTaken, SocketOpened,
     LockReleased, LockTaken, SocketReused, FrameSent, LockReleased]"

theorem market_events_reach_subscribers_witness:
  "\<exists>m view. managed market_protocol False m \<and> mg_socket m = Open view \<and> market_streams view (MarketBestBidAskEvent ''22'')"
proof -
  let ?r = "case new_manager 8 of Inr m \<Rightarrow> manager_run market_protocol demo_happenings m | Inl _ \<Rightarrow> None"
  have "map_option (\<lambda>m. (mg_entries m, mg_holder m = Free, is_open m)) ?r
      = Some ([(0, demo_subs ! 0), (1, demo_subs ! 1)], True, True)"
    by code_simp
  then obtain m where m: "?r = Some m" "mg_entries m = [(0, demo_subs ! 0), (1, demo_subs ! 1)]" "mg_holder m = Free" "is_open m"
    by auto
  then obtain view where v: "mg_socket m = Open view" by (auto simp: is_open_iff)
  have c: "managed market_protocol False m"
    using managed_from_new_calm [OF m(1)] by (simp add: demo_happenings_def)
  have "(1, demo_subs ! 1) \<in> set (mg_entries m)" "market_match_for (demo_subs ! 1) (MarketBestBidAskEvent ''22'')"
    by (simp_all add: m(2) demo_subs_def)
  from market_events_reach_subscribers [OF c m(3) v this] c v show ?thesis by blast
qed

text \<open>C34: Whenever no one holds the lock of a perpetuals or real-time data manager and its socket is open,
  the server streams a channel for every registered subscription, through all changes to the
  subscriptions, lost sockets and failed attempts.\<close>

theorem channels_reach_subscribers:
  assumes "managed perps_protocol stranded m" "mg_holder m = Free" "mg_socket m = Open view"
    and "managed rtds_protocol stranded' m'" "mg_holder m' = Free" "mg_socket m' = Open view'"
  shows "(\<forall>(h, spec)\<in>set (mg_entries m). channel_for spec \<in> view \<or> all_channel spec \<in> view)
    \<and> (\<forall>(h, spec)\<in>set (mg_entries m'). set (server_subscriptions_for spec) \<subseteq> view')"
proof -
  have "perps_serves view (map snd (mg_entries m))"
    by (rule holder_free_serves [OF perps.managed_serves [OF protocols_speak(2) assms(1)] assms(2,3)])
  moreover have "rtds_serves view' (map snd (mg_entries m'))"
    by (rule holder_free_serves [OF rtds.managed_serves [OF protocols_speak(3) assms(4)] assms(5,6)])
  ultimately show ?thesis unfolding perps_serves_def rtds_serves_def by force
qed

definition demo_perps_happenings :: "(perps_spec, perps_event) happening list" where
  "demo_perps_happenings = [SubscribeCall (PerpsTickersSpec (Some 5)), LockTaken, SocketOpened, LockReleased,
     SubscribeCall (PerpsTickersSpec None), LockTaken, SocketReused, FrameSent, FrameSent, LockReleased,
     CloseHandleCall 1, LockTaken, FrameSent, FrameSent, LockReleased]"

definition demo_rtds_happenings :: "(rtds_spec, rtds_event) happening list" where
  "demo_rtds_happenings = [SubscribeCall (CommentsSpec None None None), LockTaken, SocketOpened, LockReleased]"

theorem channels_reach_subscribers_witness:
  "\<exists>m m' view view'. managed perps_protocol False m \<and> mg_entries m = [(0, PerpsTickersSpec (Some 5))]
      \<and> mg_socket m = Open view \<and> (''tickers::5'' \<in> view \<or> ''tickers::all'' \<in> view)
      \<and> managed rtds_protocol False m' \<and> mg_socket m' = Open view' \<and> (''comments'', ''comment_created'') \<in> view'"
proof -
  let ?r = "case new_manager 8 of Inr m \<Rightarrow> manager_run perps_protocol demo_perps_happenings m | Inl _ \<Rightarrow> None"
  let ?r' = "case new_manager 8 of Inr m \<Rightarrow> manager_run rtds_protocol demo_rtds_happenings m | Inl _ \<Rightarrow> None"
  have "map_option (\<lambda>m. (mg_entries m, mg_holder m = Free, is_open m)) ?r = Some ([(0, PerpsTickersSpec (Some 5))], True, True)"
    by code_simp
  then obtain m where m: "?r = Some m" "mg_entries m = [(0, PerpsTickersSpec (Some 5))]" "mg_holder m = Free" "is_open m"
    by auto
  have "map_option (\<lambda>m. (mg_entries m, mg_holder m = Free, is_open m)) ?r' = Some ([(0, CommentsSpec None None None)], True, True)"
    by code_simp
  then obtain m' where m': "?r' = Some m'" "mg_entries m' = [(0, CommentsSpec None None None)]" "mg_holder m' = Free" "is_open m'"
    by auto
  obtain view view' where v: "mg_socket m = Open view" "mg_socket m' = Open view'"
    using m(4) m'(4) by (auto simp: is_open_iff)
  have c: "managed perps_protocol False m" "managed rtds_protocol False m'"
    using managed_from_new_calm [OF m(1)] managed_from_new_calm [OF m'(1)]
    by (simp_all add: demo_perps_happenings_def demo_rtds_happenings_def)
  have five: "str_int 5 = ''5''" by code_simp
  note channels_reach_subscribers [OF c(1) m(3) v(1) c(2) m'(3) v(2)]
  then have "''tickers::5'' \<in> view \<or> ''tickers::all'' \<in> view" "(''comments'', ''comment_created'') \<in> view'"
    by (simp_all add: m(2) m'(2) five given_or_def DEFAULT_COMMENT_TYPES_def)
  with c v m(2) show ?thesis by blast
qed

text \<open>The update frames of the user channel take the server exactly from the markets of the old
  subscriptions to those of the new ones, where no market stands for all of them; and while the channel
  is restricted before and after, no prefix of the frames opens it to all markets.\<close>

theorem user_frames_exact:
  "fold user_receive (user_diff_frames (user_derive_state subs) (user_derive_state subs')) (user_view subs)
      = user_view subs'
    \<and> (user_view subs = {} \<or> user_view subs' = {}
       \<or> fold user_receive (take n (user_diff_frames (user_derive_state subs) (user_derive_state subs'))) (user_view subs) \<noteq> {})"
  using user_updates_exact user_updates_stay_restricted by blast

theorem user_frames_exact_witness:
  "fold user_receive (take 1 (user_diff_frames (user_derive_state [\<lparr>us_markets = [''a'']\<rparr>])
      (user_derive_state [\<lparr>us_markets = [''b'']\<rparr>]))) {''a''} \<noteq> {}"
proof -
  have "user_view [\<lparr>us_markets = [''a'']\<rparr>] = {''a''}" "user_view [\<lparr>us_markets = [''b'']\<rparr>] = {''b''}"
    by (simp_all add: user_view_def is_all_markets_def)
  with user_frames_exact [of "[\<lparr>us_markets = [''a'']\<rparr>]" "[\<lparr>us_markets = [''b'']\<rparr>]" 1] show ?thesis by simp
qed

text \<open>C35: Subscribers are never left without a connection and without an attempt at one: while a manager
  of any protocol is not closed, no one holds its lock and it has entries but no socket, a reconnect is
  scheduled, waits for the lock, or will be scheduled by a reader that has still to report the loss. This
  holds as long as no \<open>subscribe\<close> that gave up a stale socket has failed to open another.\<close>

theorem subscribers_reconnect:
  assumes "managed p False m" "\<not> mg_closed m" "mg_holder m = Free" "mg_entries m \<noteq> []" "mg_socket m = NoSocket"
  shows "mg_timer m \<or> 0 < mg_reporting m \<or> WaitReconnect \<in> set (mg_waiting m)"
  using managed_will_reconnect [OF assms(1)] assms(2-)
  by (simp add: will_reconnect_def settled_entries_def attempt_under_way_def)

theorem subscribers_reconnect_witness:
  "\<exists>m. managed market_protocol False m \<and> mg_socket m = NoSocket \<and> mg_entries m \<noteq> []
      \<and> (mg_timer m \<or> 0 < mg_reporting m \<or> WaitReconnect \<in> set (mg_waiting m))"
proof -
  let ?es = "demo_happenings @ [SocketDropped, ReaderStopped, LossReported]"
  let ?r = "case new_manager 8 of Inr m \<Rightarrow> manager_run market_protocol ?es m | Inl _ \<Rightarrow> None"
  have "map_option (\<lambda>m. (mg_entries m \<noteq> [], mg_holder m = Free, mg_socket m = NoSocket, mg_closed m)) ?r
      = Some (True, True, True, False)" by code_simp
  then obtain m where m: "?r = Some m" "mg_entries m \<noteq> []" "mg_holder m = Free" "mg_socket m = NoSocket" "\<not> mg_closed m"
    by auto
  have "managed market_protocol False m" using managed_from_new_calm [OF m(1)] by (simp add: demo_happenings_def)
  with subscribers_reconnect [OF this m(5,3,2,4)] m show ?thesis by blast
qed

section \<open>States a manager does not leave\<close>

text \<open>The calls of users; every other happening is the work of the manager or of the network.\<close>

fun client_call :: "('s, 'e) happening \<Rightarrow> bool" where
  "client_call (SubscribeCall sub) \<longleftrightarrow> True"
| "client_call (CloseHandleCall h) \<longleftrightarrow> True"
| "client_call CloseManagerCall \<longleftrightarrow> True"
| "client_call _ \<longleftrightarrow> False"

fun closes_handle :: "('s, 'e) happening \<Rightarrow> bool" where
  "closes_handle (CloseHandleCall h) \<longleftrightarrow> True"
| "closes_handle _ \<longleftrightarrow> False"

text \<open>Whatever happens among the allowed happenings, the manager keeps to the states that \<open>Q\<close> names.\<close>

definition stays ::
  "('s, 'st, 'f, 'v, 'e) protocol \<Rightarrow> (('s, 'e) happening \<Rightarrow> bool) \<Rightarrow> (('s, 'st, 'f, 'v, 'e) manager \<Rightarrow> bool) \<Rightarrow>
     ('s, 'st, 'f, 'v, 'e) manager \<Rightarrow> bool" where
  "stays p allowed Q m \<longleftrightarrow> (\<forall>es m'. list_all allowed es \<longrightarrow> manager_run p es m = Some m' \<longrightarrow> Q m')"

lemma staysI:
  assumes "I m" "\<And>e m m'. I m \<Longrightarrow> allowed e \<Longrightarrow> manager_step p e m = Some m' \<Longrightarrow> I m'" "\<And>m. I m \<Longrightarrow> Q m"
  shows "stays p allowed Q m"
proof -
  have "I m'" if "I m" "list_all allowed es" "manager_run p es m = Some m'" for es m m'
    using that
  proof (induction es arbitrary: m)
    case (Cons e es)
    then obtain m1 where "manager_step p e m = Some m1" "manager_run p es m1 = Some m'"
      by (auto split: option.splits)
    then show ?case using Cons assms(2) [of m e m1] by simp
  qed simp
  then show ?thesis using assms(1,3) unfolding stays_def by blast
qed

text \<open>With the lock free, no one waiting, no socket and no attempt, only users can make a manager move.\<close>

lemma idle_without_socket_stays:
  assumes "mg_holder m = Free" "mg_waiting m = []" "mg_socket m = NoSocket" "\<not> attempt_under_way m" "\<not> mg_shutting m"
  shows "stays p (\<lambda>e. \<not> client_call e) (\<lambda>m'. m' = m) m"
proof (rule staysI [where I = "\<lambda>m'. m' = m"])
  fix e m1 m'
  assume "m1 = m" "\<not> client_call e" "manager_step p e m1 = Some m'"
  then show "m' = m" using assms by (cases e) (auto simp: attempt_under_way_def is_open_def)
qed simp_all

text \<open>With the lock free, no one waiting and a socket that stays open, only messages are read.\<close>

lemma idle_with_socket_stays:
  assumes "mg_holder m = Free" "mg_waiting m = []" "mg_socket m = Open v" "\<not> attempt_under_way m" "\<not> mg_shutting m"
  shows "stays p (\<lambda>e. \<not> client_call e \<and> e \<noteq> SocketDropped)
      (\<lambda>m'. mg_socket m' = Open v \<and> mg_entries m' = mg_entries m \<and> \<not> attempt_under_way m') m"
proof (rule staysI [where I = "\<lambda>m'. mg_holder m' = Free \<and> mg_waiting m' = [] \<and> mg_socket m' = Open v
    \<and> \<not> attempt_under_way m' \<and> \<not> mg_shutting m' \<and> mg_entries m' = mg_entries m"])
  fix e m1 m'
  assume "mg_holder m1 = Free \<and> mg_waiting m1 = [] \<and> mg_socket m1 = Open v \<and> \<not> attempt_under_way m1
      \<and> \<not> mg_shutting m1 \<and> mg_entries m1 = mg_entries m"
    and "\<not> client_call e \<and> e \<noteq> SocketDropped" "manager_step p e m1 = Some m'"
  then show "mg_holder m' = Free \<and> mg_waiting m' = [] \<and> mg_socket m' = Open v \<and> \<not> attempt_under_way m'
      \<and> \<not> mg_shutting m' \<and> mg_entries m' = mg_entries m"
    by (cases e) (auto simp: attempt_under_way_def is_open_def)
qed (use assms in simp_all)

text \<open>A closed manager with an open socket keeps it until the peer drops it or a handle is closed.\<close>

lemma closed_with_socket_stays:
  assumes "mg_holder m = Free" "mg_waiting m = []" "is_open m" "mg_closed m" "mg_stopped m" "\<not> mg_shutting m"
  shows "stays p (\<lambda>e. \<not> closes_handle e \<and> e \<noteq> SocketDropped)
      (\<lambda>m'. mg_closed m' \<and> is_open m' \<and> mg_entries m' = mg_entries m) m"
proof (rule staysI [where I = "\<lambda>m'. mg_holder m' = Free \<and> mg_waiting m' = [] \<and> is_open m' \<and> mg_closed m'
    \<and> mg_stopped m' \<and> \<not> mg_shutting m' \<and> mg_entries m' = mg_entries m"])
  fix e m1 m'
  assume "mg_holder m1 = Free \<and> mg_waiting m1 = [] \<and> is_open m1 \<and> mg_closed m1 \<and> mg_stopped m1
      \<and> \<not> mg_shutting m1 \<and> mg_entries m1 = mg_entries m"
    and "\<not> closes_handle e \<and> e \<noteq> SocketDropped" "manager_step p e m1 = Some m'"
  then show "mg_holder m' = Free \<and> mg_waiting m' = [] \<and> is_open m' \<and> mg_closed m' \<and> mg_stopped m'
      \<and> \<not> mg_shutting m' \<and> mg_entries m' = mg_entries m"
    by (cases e) (auto simp: is_open_def manager_close_def Let_def split: if_splits)
qed (use assms in simp_all)

text \<open>C36: Three ways in which subscribers and managers are left in a state that no step of the manager's
  own leaves. A \<open>subscribe\<close> that finds a stale socket closes it, which keeps its reader from reporting the
  loss, and when the new connection is refused the older subscribers have no socket and no attempt: until a
  user calls again, nothing happens at all. On the user channel, a \<open>subscribe\<close> that opens the connection has
  cancelled the pending reconnect, and when fetching credentials fails the older subscribers are left on an
  open connection that was never given any: until a user calls again or the peer drops that connection, it
  stays as it is. And a \<open>subscribe\<close> that waits for the lock while the manager closes opens a connection of the
  closed manager: until the peer drops it or a handle is closed, it stays open with its subscribers, also
  when \<open>close\<close> is called again.\<close>

theorem stranded_states:
  "(\<exists>stranded m. managed market_protocol stranded m \<and> mg_entries m \<noteq> [] \<and> \<not> mg_closed m
      \<and> mg_socket m = NoSocket \<and> stays market_protocol (\<lambda>e. \<not> client_call e) (\<lambda>m'. m' = m) m)
    \<and> (\<exists>stranded m. managed (user_protocol \<lparr>ak_key = ''k'', ak_secret = ''s'', ak_passphrase = ''p''\<rparr>) stranded m
      \<and> mg_entries m \<noteq> [] \<and> \<not> mg_closed m
      \<and> stays (user_protocol \<lparr>ak_key = ''k'', ak_secret = ''s'', ak_passphrase = ''p''\<rparr>)
          (\<lambda>e. \<not> client_call e \<and> e \<noteq> SocketDropped)
          (\<lambda>m'. mg_socket m' = Open None \<and> mg_entries m' = mg_entries m \<and> \<not> attempt_under_way m') m)
    \<and> (\<exists>stranded m. managed market_protocol stranded m \<and> mg_entries m \<noteq> [] \<and> mg_closed m \<and> is_open m
      \<and> manager_step market_protocol CloseManagerCall m = Some m
      \<and> stays market_protocol (\<lambda>e. \<not> closes_handle e \<and> e \<noteq> SocketDropped)
          (\<lambda>m'. mg_closed m' \<and> is_open m' \<and> mg_entries m' = mg_entries m) m)"
proof (intro conjI)
  let ?a = "[SubscribeCall (demo_subs ! 0), LockTaken, SocketOpened, LockReleased, SocketDropped,
     SubscribeCall (demo_subs ! 1), LockTaken, ConnectRefused]"
  let ?r = "case new_manager 8 of Inr m \<Rightarrow> manager_run market_protocol ?a m | Inl _ \<Rightarrow> None"
  have "map_option (\<lambda>m. (mg_entries m \<noteq> [], mg_closed m, mg_holder m = Free, mg_socket m = NoSocket,
      mg_waiting m = [], attempt_under_way m, mg_shutting m)) ?r = Some (True, False, True, True, True, False, False)"
    by code_simp
  then obtain m where m: "?r = Some m" "mg_entries m \<noteq> []" "\<not> mg_closed m" "mg_holder m = Free" "mg_socket m = NoSocket"
    "mg_waiting m = []" "\<not> attempt_under_way m" "\<not> mg_shutting m" by auto
  then show "\<exists>stranded m. managed market_protocol stranded m \<and> mg_entries m \<noteq> [] \<and> \<not> mg_closed m
      \<and> mg_socket m = NoSocket \<and> stays market_protocol (\<lambda>e. \<not> client_call e) (\<lambda>m'. m' = m) m"
    using managed_from_new [OF m(1)] idle_without_socket_stays [OF m(4,6,5,7,8)] by blast
  let ?p = "user_protocol \<lparr>ak_key = ''k'', ak_secret = ''s'', ak_passphrase = ''p''\<rparr>"
  let ?b = "[SubscribeCall \<lparr>us_markets = []\<rparr>, LockTaken, SocketOpened, CredentialsFetched, LockReleased, SocketDropped,
     ReaderStopped, LossReported, SubscribeCall \<lparr>us_markets = [''m'']\<rparr>, LockTaken, SocketOpened, CredentialsFailed]"
  let ?s = "case new_manager 8 of Inr m \<Rightarrow> manager_run ?p ?b m | Inl _ \<Rightarrow> None"
  have "map_option (\<lambda>m. (mg_entries m \<noteq> [], mg_closed m, mg_holder m = Free, mg_socket m = Open None,
      mg_waiting m = [], attempt_under_way m, mg_shutting m)) ?s = Some (True, False, True, True, True, False, False)"
    by code_simp
  then obtain m where m: "?s = Some m" "mg_entries m \<noteq> []" "\<not> mg_closed m" "mg_holder m = Free" "mg_socket m = Open None"
    "mg_waiting m = []" "\<not> attempt_under_way m" "\<not> mg_shutting m" by auto
  then show "\<exists>stranded m. managed ?p stranded m \<and> mg_entries m \<noteq> [] \<and> \<not> mg_closed m
      \<and> stays ?p (\<lambda>e. \<not> client_call e \<and> e \<noteq> SocketDropped)
          (\<lambda>m'. mg_socket m' = Open None \<and> mg_entries m' = mg_entries m \<and> \<not> attempt_under_way m') m"
    using managed_from_new [OF m(1)] idle_with_socket_stays [OF m(4,6,5,7,8)] by blast
  let ?c = "[SubscribeCall (demo_subs ! 0), SubscribeCall (demo_subs ! 1), LockTaken, CloseManagerCall, SocketOpened,
     LockReleased, ConnectionShut, LockTaken, SocketOpened, LockReleased]"
  let ?t = "case new_manager 8 of Inr m \<Rightarrow> manager_run market_protocol ?c m | Inl _ \<Rightarrow> None"
  have "map_option (\<lambda>m. (mg_entries m \<noteq> [], mg_closed m, mg_shutting m, mg_holder m = Free, is_open m, mg_waiting m = [],
      mg_stopped m)) ?t = Some (True, True, False, True, True, True, True)" by code_simp
  then obtain m where m: "?t = Some m" "mg_entries m \<noteq> []" "mg_closed m" "\<not> mg_shutting m" "mg_holder m = Free"
    "is_open m" "mg_waiting m = []" "mg_stopped m" by auto
  then show "\<exists>stranded m. managed market_protocol stranded m \<and> mg_entries m \<noteq> [] \<and> mg_closed m \<and> is_open m
      \<and> manager_step market_protocol CloseManagerCall m = Some m
      \<and> stays market_protocol (\<lambda>e. \<not> closes_handle e \<and> e \<noteq> SocketDropped)
          (\<lambda>m'. mg_closed m' \<and> is_open m' \<and> mg_entries m' = mg_entries m) m"
    using managed_from_new [OF m(1)] closed_with_socket_stays [OF m(5,7,6,3,8,4)]
    by (auto simp: manager_close_def)
qed

end
