(* ===== verification/Calls.thy ===== *)
theory Calls imports Protocol_Ids Order_Signing begin

text \<open>
  \<open>relayer/calls.py\<close>: the contract calls of the SDK as call data, and the two ways to bundle them. The
  functions of the packages \<open>eth_abi\<close> and \<open>eth_utils\<close> are the fields of \<open>eth_library\<close>.
\<close>

section \<open>Libraries\<close>

record eth_library =
  keccak :: hash_function
  abi_encode :: abi_encoder
  encode_packed :: abi_encoder
  abi_decode :: "string list \<Rightarrow> byte list \<Rightarrow> abi_value list res"
  decode_hex :: "string \<Rightarrow> byte list res"
  to_checksum_address :: "string \<Rightarrow> string res"
  is_hex_address :: "string \<Rightarrow> bool"

definition hex_text :: "byte list \<Rightarrow> string" where
  "hex_text bs = ''0x'' @ bytes_hex bs"

text \<open>
  The documented inverses: hexadecimal text, and encoded values of the types given. An address comes back
  in lower case and with its prefix.
\<close>

definition canonical_address :: "string \<Rightarrow> string" where
  "canonical_address a = (let l = lower a in if starts_with ''0x'' l then l else ''0x'' @ l)"

fun canonical_value :: "abi_value \<Rightarrow> abi_value" where
  "canonical_value (AbiAddress a) = AbiAddress (canonical_address a)"
| "canonical_value (AbiList vs) = AbiList (map canonical_value vs)"
| "canonical_value (AbiTuple vs) = AbiTuple (map canonical_value vs)"
| "canonical_value v = v"

definition decodes_hex :: "eth_library \<Rightarrow> bool" where
  "decodes_hex lib \<longleftrightarrow> (\<forall>bs. decode_hex lib (hex_text bs) = Ok bs)"

definition decodes_abi :: "eth_library \<Rightarrow> bool" where
  "decodes_abi lib \<longleftrightarrow> (\<forall>types values bs.
     abi_encode lib types values = Ok bs \<longrightarrow> abi_decode lib types bs = Ok (map canonical_value values))"

section \<open>Integers as bytes\<close>

text \<open>\<open>n.to_bytes(width, "big")\<close>; a negative or too large integer is an OverflowError.\<close>

fun be_bytes :: "nat \<Rightarrow> int \<Rightarrow> byte list" where
  "be_bytes 0 n = []"
| "be_bytes (Suc k) n = be_bytes k (n div 256) @ [word_of_int n]"

definition int_to_bytes :: "nat \<Rightarrow> int \<Rightarrow> byte list res" where
  "int_to_bytes k n = (if n < 0 \<or> 256 ^ k \<le> n then Raise OverflowError else Ok (be_bytes k n))"

definition int_from_bytes :: "byte list \<Rightarrow> int" where
  "int_from_bytes bs = foldl (\<lambda>n b. n * 256 + uint b) 0 bs"

lemma length_be_bytes [simp]: "length (be_bytes k n) = k"
  by (induction k n rule: be_bytes.induct) simp_all

lemma be_bytes_value:
  "0 \<le> n \<Longrightarrow> n < 256 ^ k \<Longrightarrow> foldl (\<lambda>n b. n * 256 + uint b) 0 (be_bytes k n) = n"
proof (induction k n rule: be_bytes.induct)
  case (2 k n)
  then have "0 \<le> n div 256" "n div 256 < 256 ^ k" by simp_all
  then have "foldl (\<lambda>n b. n * 256 + uint b) 0 (be_bytes (Suc k) n) = n div 256 * 256 + n mod 256"
    using 2 by (simp add: uint_word_of_int)
  then show ?case by simp
qed simp

lemma int_to_bytes_round_trip: "int_to_bytes k n = Ok bs \<Longrightarrow> int_from_bytes bs = n \<and> length bs = k"
  by (auto simp: int_to_bytes_def int_from_bytes_def be_bytes_value split: if_splits)

section \<open>Calls\<close>

record transaction_call =
  tc_to :: string
  tc_data :: string
  tc_value :: int

definition selector :: "eth_library \<Rightarrow> string \<Rightarrow> byte list" where
  "selector lib signature = take 4 (keccak lib (utf8_encode signature))"

definition ZERO_BYTES32 :: "byte list" where "ZERO_BYTES32 = replicate 32 0"

definition BINARY_PARTITION :: abi_value where "BINARY_PARTITION = AbiList [AbiUint 1, AbiUint 2]"

definition expect_uint256 :: "pyval \<Rightarrow> int res" where
  "expect_uint256 amount =
     (case amount of
        PInt n \<Rightarrow> if n < 0 then Raise UserInputError else if uint256_max < n then Raise UserInputError else Ok n
      | _ \<Rightarrow> Raise UserInputError)"

definition position_id_uint256 :: "string \<Rightarrow> int res" where
  "position_id_uint256 position_id =
     (case py_int position_id 10 of None \<Rightarrow> Raise UserInputError | Some n \<Rightarrow> expect_uint256 (PInt n))"

definition condition_id_bytes :: "string \<Rightarrow> byte list res" where
  "condition_id_bytes condition_id =
     (case bytes_fromhex (strip_0x condition_id) of
        None \<Rightarrow> Raise UserInputError
      | Some raw \<Rightarrow> if length raw \<noteq> 32 then Raise UserInputError else Ok raw)"

definition protocol_v2_condition_id_bytes :: "string \<Rightarrow> byte list res" where
  "protocol_v2_condition_id_bytes condition_id =
     (let normalized = lower condition_id;
          hex_value = (if starts_with ''0x'' normalized then drop 2 normalized else []);
          hex_value = (if length hex_value = 64 \<and> (ends_with ''00'' hex_value \<or> ends_with ''01'' hex_value)
                       then take (length hex_value - 2) hex_value else hex_value)
      in if length hex_value \<noteq> 62 then Raise UserInputError
         else (case bytes_fromhex hex_value of None \<Rightarrow> Raise UserInputError | Some bs \<Rightarrow> Ok bs))"

definition contract_call ::
  "eth_library \<Rightarrow> string \<Rightarrow> string \<Rightarrow> string list \<Rightarrow> abi_value list \<Rightarrow> transaction_call res" where
  "contract_call lib to signature types values =
     map_ok (\<lambda>encoded. \<lparr>tc_to = to, tc_data = hex_text (selector lib signature @ encoded), tc_value = 0\<rparr>)
       (abi_encode lib types values)"

definition erc20_approval_call :: "eth_library \<Rightarrow> string \<Rightarrow> string \<Rightarrow> pyval \<Rightarrow> transaction_call res" where
  "erc20_approval_call lib token_address spender amount =
     bindE (expect_uint256 amount) (\<lambda>n.
     contract_call lib token_address ''approve(address,uint256)'' [''address'', ''uint256'']
       [AbiAddress spender, AbiUint n])"

definition authorize_session_signer_call :: "eth_library \<Rightarrow> string \<Rightarrow> string \<Rightarrow> pyval \<Rightarrow> transaction_call res" where
  "authorize_session_signer_call lib wallet_address session_signer valid_until =
     bindE (expect_uint256 valid_until) (\<lambda>n.
     contract_call lib wallet_address ''authorizeSessionSigner(address,uint256)'' [''address'', ''uint256'']
       [AbiAddress session_signer, AbiUint n])"

definition revoke_session_signer_call :: "eth_library \<Rightarrow> string \<Rightarrow> string \<Rightarrow> transaction_call res" where
  "revoke_session_signer_call lib wallet_address session_signer =
     contract_call lib wallet_address ''revokeSessionSigner(address)'' [''address''] [AbiAddress session_signer]"

definition erc20_allowance_call :: "eth_library \<Rightarrow> string \<Rightarrow> string \<Rightarrow> string \<Rightarrow> transaction_call res" where
  "erc20_allowance_call lib token_address owner spender =
     contract_call lib token_address ''allowance(address,address)'' [''address'', ''address'']
       [AbiAddress owner, AbiAddress spender]"

definition erc20_transfer_call :: "eth_library \<Rightarrow> string \<Rightarrow> string \<Rightarrow> pyval \<Rightarrow> transaction_call res" where
  "erc20_transfer_call lib token_address recipient amount =
     bindE (expect_uint256 amount) (\<lambda>n.
     contract_call lib token_address ''transfer(address,uint256)'' [''address'', ''uint256'']
       [AbiAddress recipient, AbiUint n])"

definition erc1155_set_approval_for_all_call ::
  "eth_library \<Rightarrow> string \<Rightarrow> string \<Rightarrow> bool \<Rightarrow> transaction_call res" where
  "erc1155_set_approval_for_all_call lib token_address operator approved =
     contract_call lib token_address ''setApprovalForAll(address,bool)'' [''address'', ''bool'']
       [AbiAddress operator, AbiBool approved]"

definition erc1155_balance_of_call :: "eth_library \<Rightarrow> string \<Rightarrow> string \<Rightarrow> string \<Rightarrow> transaction_call res" where
  "erc1155_balance_of_call lib token_address owner token_id =
     bindE (position_id_uint256 token_id) (\<lambda>n.
     contract_call lib token_address ''balanceOf(address,uint256)'' [''address'', ''uint256'']
       [AbiAddress owner, AbiUint n])"

definition erc1155_balance_of_batch_call ::
  "eth_library \<Rightarrow> string \<Rightarrow> string list \<Rightarrow> string list \<Rightarrow> transaction_call res" where
  "erc1155_balance_of_batch_call lib token_address owners token_ids =
     (if length owners \<noteq> length token_ids then Raise UserInputError
      else bindE (traverseE position_id_uint256 token_ids) (\<lambda>ids.
        contract_call lib token_address ''balanceOfBatch(address[],uint256[])'' [''address[]'', ''uint256[]'']
          [AbiList (map AbiAddress owners), AbiList (map AbiUint ids)]))"

definition erc1155_is_approved_for_all_call ::
  "eth_library \<Rightarrow> string \<Rightarrow> string \<Rightarrow> string \<Rightarrow> transaction_call res" where
  "erc1155_is_approved_for_all_call lib token_address owner operator =
     contract_call lib token_address ''isApprovedForAll(address,address)'' [''address'', ''address'']
       [AbiAddress owner, AbiAddress operator]"

definition ctf_split_position_call ::
  "eth_library \<Rightarrow> string \<Rightarrow> string \<Rightarrow> string \<Rightarrow> pyval \<Rightarrow> transaction_call res" where
  "ctf_split_position_call lib target collateral condition_id amount =
     bindE (expect_uint256 amount) (\<lambda>n.
     bindE (condition_id_bytes condition_id) (\<lambda>condition.
     contract_call lib target ''splitPosition(address,bytes32,bytes32,uint256[],uint256)''
       [''address'', ''bytes32'', ''bytes32'', ''uint256[]'', ''uint256'']
       [AbiAddress collateral, AbiBytes ZERO_BYTES32, AbiBytes condition, BINARY_PARTITION, AbiUint n]))"

definition ctf_merge_positions_call ::
  "eth_library \<Rightarrow> string \<Rightarrow> string \<Rightarrow> string \<Rightarrow> pyval \<Rightarrow> transaction_call res" where
  "ctf_merge_positions_call lib target collateral condition_id amount =
     bindE (expect_uint256 amount) (\<lambda>n.
     bindE (condition_id_bytes condition_id) (\<lambda>condition.
     contract_call lib target ''mergePositions(address,bytes32,bytes32,uint256[],uint256)''
       [''address'', ''bytes32'', ''bytes32'', ''uint256[]'', ''uint256'']
       [AbiAddress collateral, AbiBytes ZERO_BYTES32, AbiBytes condition, BINARY_PARTITION, AbiUint n]))"

definition ctf_redeem_positions_call ::
  "eth_library \<Rightarrow> string \<Rightarrow> string \<Rightarrow> string \<Rightarrow> transaction_call res" where
  "ctf_redeem_positions_call lib ctf collateral condition_id =
     bindE (condition_id_bytes condition_id) (\<lambda>condition.
     contract_call lib ctf ''redeemPositions(address,bytes32,bytes32,uint256[])''
       [''address'', ''bytes32'', ''bytes32'', ''uint256[]'']
       [AbiAddress collateral, AbiBytes ZERO_BYTES32, AbiBytes condition, BINARY_PARTITION])"

definition router_split_call :: "eth_library \<Rightarrow> string \<Rightarrow> string \<Rightarrow> pyval \<Rightarrow> transaction_call res" where
  "router_split_call lib router condition_id amount =
     bindE (expect_uint256 amount) (\<lambda>n.
     bindE (protocol_v2_condition_id_bytes condition_id) (\<lambda>condition.
     contract_call lib router ''split(bytes31,uint256)'' [''bytes31'', ''uint256''] [AbiBytes condition, AbiUint n]))"

definition router_merge_call :: "eth_library \<Rightarrow> string \<Rightarrow> string \<Rightarrow> pyval \<Rightarrow> transaction_call res" where
  "router_merge_call lib router condition_id amount =
     bindE (expect_uint256 amount) (\<lambda>n.
     bindE (protocol_v2_condition_id_bytes condition_id) (\<lambda>condition.
     contract_call lib router ''merge(bytes31,uint256)'' [''bytes31'', ''uint256''] [AbiBytes condition, AbiUint n]))"

definition router_redeem_call :: "eth_library \<Rightarrow> string \<Rightarrow> string \<Rightarrow> int \<Rightarrow> pyval \<Rightarrow> transaction_call res" where
  "router_redeem_call lib router condition_id outcome_index amount =
     (if outcome_index \<notin> {0, 1} then Raise UserInputError
      else bindE (expect_uint256 amount) (\<lambda>n.
        bindE (protocol_v2_condition_id_bytes condition_id) (\<lambda>condition.
        contract_call lib router ''redeem(bytes31,uint256,uint256)'' [''bytes31'', ''uint256'', ''uint256'']
          [AbiBytes condition, AbiUint outcome_index, AbiUint n])))"

definition combinatorial_prepare_condition_call ::
  "eth_library \<Rightarrow> string \<Rightarrow> pyval list \<Rightarrow> transaction_call res" where
  "combinatorial_prepare_condition_call lib combinatorial_module_address legs =
     bindE (traverseE expect_uint256 legs) (\<lambda>ns.
     contract_call lib combinatorial_module_address ''prepareCondition(uint256[])'' [''uint256[]'']
       [AbiList (map AbiUint ns)])"

section \<open>Return data\<close>

definition decode_return_data :: "eth_library \<Rightarrow> string \<Rightarrow> string \<Rightarrow> abi_value res" where
  "decode_return_data lib data abi_type =
     (case bindE (decode_hex lib data) (abi_decode lib [abi_type]) of
        Inl e \<Rightarrow> Raise UnexpectedResponseError
      | Inr [v] \<Rightarrow> Ok v
      | Inr _ \<Rightarrow> Raise UnexpectedResponseError)"

text \<open>The casts of the code; the library returns values of the type asked for.\<close>

definition expect_uint :: "abi_value \<Rightarrow> int res" where
  "expect_uint v = (case v of AbiUint n \<Rightarrow> Ok n | _ \<Rightarrow> Raise TypeError)"

definition decode_erc20_allowance_result :: "eth_library \<Rightarrow> string \<Rightarrow> int res" where
  "decode_erc20_allowance_result lib data = bindE (decode_return_data lib data ''uint256'') expect_uint"

definition decode_erc1155_balance_of_result :: "eth_library \<Rightarrow> string \<Rightarrow> int res" where
  "decode_erc1155_balance_of_result lib data = bindE (decode_return_data lib data ''uint256'') expect_uint"

definition decode_erc1155_balance_of_batch_result :: "eth_library \<Rightarrow> string \<Rightarrow> int list res" where
  "decode_erc1155_balance_of_batch_result lib data =
     bindE (decode_return_data lib data ''uint256[]'') (\<lambda>v.
     case v of AbiList vs \<Rightarrow> traverseE expect_uint vs | _ \<Rightarrow> Raise UnexpectedResponseError)"

definition decode_erc1155_is_approved_for_all_result :: "eth_library \<Rightarrow> string \<Rightarrow> bool res" where
  "decode_erc1155_is_approved_for_all_result lib data =
     bindE (decode_return_data lib data ''bool'') (\<lambda>v. case v of AbiBool b \<Rightarrow> Ok b | _ \<Rightarrow> Raise TypeError)"

section \<open>Bundles\<close>

definition PROXY_TYPE_CODE_CALL :: int where "PROXY_TYPE_CODE_CALL = 1"

definition INNER_OPERATION_CALL :: byte where "INNER_OPERATION_CALL = 0"

definition proxy_tuple :: "eth_library \<Rightarrow> transaction_call \<Rightarrow> abi_value res" where
  "proxy_tuple lib call =
     map_ok (\<lambda>data. AbiTuple [AbiUint PROXY_TYPE_CODE_CALL, AbiAddress (tc_to call), AbiUint (tc_value call), AbiBytes data])
       (decode_hex lib (tc_data call))"

definition encode_proxy_call :: "eth_library \<Rightarrow> transaction_call list \<Rightarrow> string res" where
  "encode_proxy_call lib calls =
     (if calls = [] then Raise UserInputError
      else bindE (traverseE (proxy_tuple lib) calls) (\<lambda>tuples.
        bindE (abi_encode lib [''(uint8,address,uint256,bytes)[]''] [AbiList tuples]) (\<lambda>encoded_args.
        Ok (hex_text (selector lib ''proxy((uint8,address,uint256,bytes)[])'' @ encoded_args)))))"

definition pack_call :: "eth_library \<Rightarrow> transaction_call \<Rightarrow> byte list res" where
  "pack_call lib call =
     bindE (decode_hex lib (tc_to call)) (\<lambda>to_bytes.
     if length to_bytes \<noteq> 20 then Raise UserInputError
     else
       bindE (decode_hex lib (tc_data call)) (\<lambda>data_bytes.
       bindE (int_to_bytes 32 (tc_value call)) (\<lambda>value_bytes.
       bindE (int_to_bytes 32 (int (length data_bytes))) (\<lambda>length_bytes.
       Ok ([INNER_OPERATION_CALL] @ to_bytes @ value_bytes @ length_bytes @ data_bytes)))))"

definition encode_safe_multisend_call :: "eth_library \<Rightarrow> transaction_call list \<Rightarrow> string res" where
  "encode_safe_multisend_call lib calls =
     (if calls = [] then Raise UserInputError
      else bindE (traverseE (pack_call lib) calls) (\<lambda>parts.
        bindE (abi_encode lib [''bytes''] [AbiBytes (concat parts)]) (\<lambda>encoded.
        Ok (hex_text (selector lib ''multiSend(bytes)'' @ encoded)))))"

section \<open>What the multisend contract executes\<close>

text \<open>
  The contract walks over the packed bytes: one byte of operation, the address, the value and the length
  of the data in 32 bytes each, then the data.
\<close>

record executed_call =
  ec_operation :: byte
  ec_to :: "byte list"
  ec_value :: int
  ec_data :: "byte list"

function unpack_calls :: "byte list \<Rightarrow> executed_call list option" where
  "unpack_calls bs =
     (case bs of
        [] \<Rightarrow> Some []
      | operation # rest \<Rightarrow>
          if length rest < 84 then None
          else
            let n = nat (int_from_bytes (take 32 (drop 52 rest))) in
            if length rest < 84 + n then None
            else map_option (\<lambda>calls. \<lparr>ec_operation = operation, ec_to = take 20 rest,
                     ec_value = int_from_bytes (take 32 (drop 20 rest)), ec_data = take n (drop 84 rest)\<rparr> # calls)
                   (unpack_calls (drop (84 + n) rest)))"
  by pat_completeness auto
termination by (relation "measure length") auto

declare unpack_calls.simps [simp del]

text \<open>The call that a transaction call stands for.\<close>

definition executes :: "eth_library \<Rightarrow> transaction_call \<Rightarrow> executed_call \<Rightarrow> bool" where
  "executes lib call e \<longleftrightarrow>
     ec_operation e = INNER_OPERATION_CALL \<and> decode_hex lib (tc_to call) = Ok (ec_to e) \<and> length (ec_to e) = 20
     \<and> ec_value e = tc_value call \<and> decode_hex lib (tc_data call) = Ok (ec_data e)"

lemma unpack_packed:
  assumes "pack_call lib call = Ok part"
  shows "\<exists>e. executes lib call e \<and> unpack_calls (part @ rest) = map_option ((#) e) (unpack_calls rest)"
proof -
  from assms obtain to data v l where parts:
    "decode_hex lib (tc_to call) = Ok to" "length to = 20" "decode_hex lib (tc_data call) = Ok data"
    "int_to_bytes 32 (tc_value call) = Ok v" "int_to_bytes 32 (int (length data)) = Ok l"
    "part = INNER_OPERATION_CALL # to @ v @ l @ data"
    by (auto simp: pack_call_def split: if_splits)
  note v = int_to_bytes_round_trip [OF parts(4)] and l = int_to_bytes_round_trip [OF parts(5)]
  let ?e = "\<lparr>ec_operation = INNER_OPERATION_CALL, ec_to = to, ec_value = tc_value call, ec_data = data\<rparr>"
  have "take 32 (drop 20 (to @ v @ l @ data @ rest)) = v" "take 32 (drop 52 (to @ v @ l @ data @ rest)) = l"
    "drop 84 (to @ v @ l @ data @ rest) = data @ rest" "take 20 (to @ v @ l @ data @ rest) = to"
    "drop (84 + length data) (to @ v @ l @ data @ rest) = rest"
    using parts(2) v l by simp_all
  then have "unpack_calls (part @ rest) = map_option ((#) ?e) (unpack_calls rest)"
    using parts(2) v l
    by (simp add: parts(6) unpack_calls.simps [of "INNER_OPERATION_CALL # to @ v @ l @ data @ rest"])
  moreover have "executes lib call ?e" using parts by (simp add: executes_def)
  ultimately show ?thesis by blast
qed

lemma unpack_all_packed:
  "traverseE (pack_call lib) calls = Ok parts \<Longrightarrow>
     \<exists>es. unpack_calls (concat parts) = Some es \<and> list_all2 (executes lib) calls es"
proof (induction calls arbitrary: parts)
  case Nil
  then show ?case by (simp add: unpack_calls.simps)
next
  case (Cons call calls)
  then obtain p ps where p: "pack_call lib call = Ok p" "traverseE (pack_call lib) calls = Ok ps" "parts = p # ps" by auto
  with Cons.IH obtain es where "unpack_calls (concat ps) = Some es" "list_all2 (executes lib) calls es" by blast
  with unpack_packed [OF p(1), of "concat ps"] p(3) show ?case by auto
qed

end
