(* ===== verification/Json_Rpc.thy ===== *)
theory Json_Rpc imports Protocol_Ids Py_Json "HOL-Library.Multiset" begin

text \<open>
  \<open>eoa/rpc.py\<close>: the JSON-RPC client of an Ethereum node. Requests are numbered; a batch that the node
  refuses with a server error is halved until single calls remain. The transport is a parameter. The
  two clients of the file differ only in the order in which the halves of a refused batch are sent;
  the model follows \<open>SyncJsonRpcClient\<close>.
\<close>

section \<open>Texts of Python values\<close>

text \<open>\<open>repr\<close> and \<open>json.dumps\<close> of the values that JSON can hold, with the separators of their defaults.\<close>

definition is_printable :: "char \<Rightarrow> bool" where
  "is_printable c = (let n = code_of c in (32 \<le> n \<and> n \<le> 126) \<or> (161 \<le> n \<and> n \<noteq> 173))"

definition repr_char :: "char \<Rightarrow> char \<Rightarrow> string" where
  "repr_char quote c =
     (let n = code_of c in
      if c = quote \<or> n = 92 then [CHR 0x5C, c]
      else if n = 9 then [CHR 0x5C, CHR ''t'']
      else if n = 10 then [CHR 0x5C, CHR ''n'']
      else if n = 13 then [CHR 0x5C, CHR ''r'']
      else if is_printable c then [c]
      else [CHR 0x5C, CHR ''x''] @ hex_fixed 2 n)"

definition py_repr_str :: "string \<Rightarrow> string" where
  "py_repr_str s =
     (let quote = (if CHR 0x27 \<in> set s \<and> CHR 0x22 \<notin> set s then CHR 0x22 else CHR 0x27)
      in [quote] @ concat (map (repr_char quote) s) @ [quote])"

fun comma_list :: "string list \<Rightarrow> string" where
  "comma_list [] = []"
| "comma_list [s] = s"
| "comma_list (s # t # ss) = s @ '', '' @ comma_list (t # ss)"

fun py_repr :: "pyval \<Rightarrow> string" where
  "py_repr PNone = ''None''"
| "py_repr (PBool b) = (if b then ''True'' else ''False'')"
| "py_repr (PInt n) = str_int n"
| "py_repr (PFloat t) = t"
| "py_repr (PStr s) = py_repr_str s"
| "py_repr (PList xs) = ''['' @ comma_list (map py_repr xs) @ '']''"
| "py_repr (PDict d) = ''{'' @ comma_list (map (\<lambda>p. py_repr_str (fst p) @ '': '' @ py_repr (snd p)) d) @ ''}''"
| "py_repr (PDecimal x) = []"
| "py_repr PObject = []"

fun py_str :: "pyval \<Rightarrow> string" where
  "py_str (PStr s) = s"
| "py_str v = py_repr v"

text \<open>\<open>json.dumps\<close> with its defaults; a value that it does not know is a TypeError.\<close>

fun json_text :: "pyval \<Rightarrow> string res" where
  "json_text (PList xs) =
     bindE (traverseE json_text xs) (\<lambda>ts. Ok (''['' @ comma_list ts @ '']''))"
| "json_text (PDict d) =
     bindE (traverseE (\<lambda>p. bindE (json_text (snd p)) (\<lambda>t. Ok (json_string (fst p) @ '': '' @ t))) d)
       (\<lambda>ts. Ok (''{'' @ comma_list ts @ ''}''))"
| "json_text (PDecimal x) = Raise TypeError"
| "json_text PObject = Raise TypeError"
| "json_text v = Ok (json_dumps (\<lambda>_. []) v)"

section \<open>Errors of the node\<close>

definition JSON_RPC_REVERT_CODES :: "int set" where
  "JSON_RPC_REVERT_CODES = {3, -32000, -32003, -32015, -32603}"

definition JSON_RPC_REVERT_TOKENS :: "string list" where
  "JSON_RPC_REVERT_TOKENS = [''execution reverted'', ''revert'', ''invalid opcode'']"

definition stringify_error_data :: "pyval \<Rightarrow> string" where
  "stringify_error_data data =
     (case data of
        PNone \<Rightarrow> []
      | PStr s \<Rightarrow> s
      | _ \<Rightarrow> (case json_text data of Inl e \<Rightarrow> [] | Inr t \<Rightarrow> t))"

definition is_json_rpc_contract_revert :: "py_error \<Rightarrow> bool" where
  "is_json_rpc_contract_revert error =
     (case error of
        JsonRpcCallError method code message data \<Rightarrow>
          code \<in> JSON_RPC_REVERT_CODES
          \<and> list_ex (\<lambda>token. contains token (lower (message @ '' '' @ data))) JSON_RPC_REVERT_TOKENS
      | _ \<Rightarrow> False)"

definition extract_error_fields :: "pyval \<Rightarrow> int \<times> string \<times> pyval" where
  "extract_error_fields err =
     (case err of
        PDict d \<Rightarrow>
          ((case dict_get ''code'' d of PInt n \<Rightarrow> n | _ \<Rightarrow> 0),
           (case dict_get ''message'' d of PStr s \<Rightarrow> s | _ \<Rightarrow> py_repr (PDict d)),
           dict_get ''data'' d)
      | _ \<Rightarrow> (0, py_str err, PNone))"

definition parse_rpc_response :: "string \<Rightarrow> pyval \<Rightarrow> pyval res" where
  "parse_rpc_response method raw =
     (case raw of
        PDict response \<Rightarrow>
          (case map_of response ''error'' of
             Some err \<Rightarrow>
               (let (code, message, data) = extract_error_fields err
                in Raise (JsonRpcCallError method code message (stringify_error_data data)))
           | None \<Rightarrow> Ok (dict_get ''result'' response))
      | _ \<Rightarrow> Raise UnexpectedResponseError)"

definition is_rpc_hex_string :: "string \<Rightarrow> bool" where
  "is_rpc_hex_string value \<longleftrightarrow> starts_with ''0x'' value \<and> list_all is_hex_digit (drop 2 value)"

definition parse_eth_call_result :: "pyval \<Rightarrow> string res" where
  "parse_eth_call_result result =
     (case result of
        PStr s \<Rightarrow> if is_rpc_hex_string s then Ok s else Raise UnexpectedResponseError
      | _ \<Rightarrow> Raise UnexpectedResponseError)"

definition hex_to_int :: "pyval \<Rightarrow> int res" where
  "hex_to_int value =
     (case value of
        PStr s \<Rightarrow> (case py_int s 16 of None \<Rightarrow> Raise UnexpectedResponseError | Some n \<Rightarrow> Ok n)
      | _ \<Rightarrow> Raise UnexpectedResponseError)"

definition parse_block_timestamp :: "pyval \<Rightarrow> int res" where
  "parse_block_timestamp result =
     (case result of
        PDict block \<Rightarrow> hex_to_int (dict_get ''timestamp'' block)
      | _ \<Rightarrow> Raise UnexpectedResponseError)"

text \<open>The responses of a batch by their number, and the result of each request in request order.\<close>

type_synonym json_object = "(string \<times> pyval) list"

fun index_responses :: "pyval list \<Rightarrow> (int, json_object) dict \<Rightarrow> (int, json_object) dict res" where
  "index_responses [] by_id = Ok by_id"
| "index_responses (item # items) by_id =
     (case item of
        PDict response \<Rightarrow>
          (case dict_get ''id'' response of
             PInt raw_id \<Rightarrow>
               if map_of by_id raw_id \<noteq> None then Raise UnexpectedResponseError
               else index_responses items (dict_set raw_id response by_id)
           | _ \<Rightarrow> Raise UnexpectedResponseError)
      | _ \<Rightarrow> Raise UnexpectedResponseError)"

definition response_of_envelope :: "(int, json_object) dict \<Rightarrow> json_object \<Rightarrow> string res" where
  "response_of_envelope by_id envelope =
     (case dict_get ''id'' envelope of
        PInt raw_id \<Rightarrow>
          (case map_of by_id raw_id of
             None \<Rightarrow> Raise UnexpectedResponseError
           | Some response \<Rightarrow> bindE (parse_rpc_response ''eth_call'' (PDict response)) parse_eth_call_result)
      | _ \<Rightarrow> Raise RuntimeError)"

definition parse_eth_call_batch_response :: "pyval \<Rightarrow> json_object list \<Rightarrow> string list res" where
  "parse_eth_call_batch_response raw envelopes =
     (case raw of
        PList items \<Rightarrow> bindE (index_responses items []) (\<lambda>by_id. traverseE (response_of_envelope by_id) envelopes)
      | _ \<Rightarrow> Raise UnexpectedResponseError)"

section \<open>The client\<close>

record 'w rpc_client =
  rpc_id :: int
  rpc_verified_chain_id :: "int option"
  rpc_world :: 'w

type_synonym ('w, 'a) rpc = "('w rpc_client, 'a) eff"
type_synonym 'w post_json = "pyval \<Rightarrow> ('w, pyval) eff"

definition rpc_post :: "'w post_json \<Rightarrow> pyval \<Rightarrow> ('w, pyval) rpc" where
  "rpc_post post v = (\<lambda>c. case post v (rpc_world c) of (r, w) \<Rightarrow> (r, c\<lparr>rpc_world := w\<rparr>))"

definition envelope_of :: "int \<Rightarrow> string \<Rightarrow> pyval list \<Rightarrow> json_object" where
  "envelope_of n method params =
     [(''jsonrpc'', PStr ''2.0''), (''id'', PInt n), (''method'', PStr method), (''params'', PList params)]"

definition build_envelope :: "string \<Rightarrow> pyval list \<Rightarrow> ('w, json_object) rpc" where
  "build_envelope method params = (\<lambda>c. let n = rpc_id c + 1 in (Ok (envelope_of n method params), c\<lparr>rpc_id := n\<rparr>))"

definition rpc_call :: "'w post_json \<Rightarrow> string \<Rightarrow> pyval list \<Rightarrow> ('w, pyval) rpc" where
  "rpc_call post method params =
     bindS (build_envelope method params) (\<lambda>envelope.
     bindS (rpc_post post (PDict envelope)) (\<lambda>raw.
     liftS (parse_rpc_response method raw)))"

definition rpc_int :: "'w post_json \<Rightarrow> string \<Rightarrow> pyval list \<Rightarrow> ('w, int) rpc" where
  "rpc_int post method params = bindS (rpc_call post method params) (\<lambda>result. liftS (hex_to_int result))"

definition eth_chain_id :: "'w post_json \<Rightarrow> ('w, int) rpc" where
  "eth_chain_id post = rpc_int post ''eth_chainId'' []"

definition eth_get_transaction_count :: "'w post_json \<Rightarrow> string \<Rightarrow> ('w, int) rpc" where
  "eth_get_transaction_count post address =
     rpc_int post ''eth_getTransactionCount'' [PStr address, PStr ''pending'']"

definition eth_gas_price :: "'w post_json \<Rightarrow> ('w, int) rpc" where
  "eth_gas_price post = rpc_int post ''eth_gasPrice'' []"

definition eth_estimate_gas :: "'w post_json \<Rightarrow> json_object \<Rightarrow> ('w, int) rpc" where
  "eth_estimate_gas post tx = rpc_int post ''eth_estimateGas'' [PDict tx]"

definition eth_get_latest_block_timestamp :: "'w post_json \<Rightarrow> ('w, int) rpc" where
  "eth_get_latest_block_timestamp post =
     bindS (rpc_call post ''eth_getBlockByNumber'' [PStr ''latest'', PBool False]) (\<lambda>result.
     liftS (parse_block_timestamp result))"

definition eth_send_raw_transaction :: "'w post_json \<Rightarrow> string \<Rightarrow> ('w, string) rpc" where
  "eth_send_raw_transaction post signed_hex =
     bindS (rpc_call post ''eth_sendRawTransaction'' [PStr signed_hex]) (\<lambda>result.
     liftS (case result of PStr s \<Rightarrow> Ok s | _ \<Rightarrow> Raise UnexpectedResponseError))"

definition eth_get_transaction_receipt :: "'w post_json \<Rightarrow> string \<Rightarrow> ('w, json_object option) rpc" where
  "eth_get_transaction_receipt post tx_hash =
     bindS (rpc_call post ''eth_getTransactionReceipt'' [PStr tx_hash]) (\<lambda>result.
     liftS (case result of
        PNone \<Rightarrow> Ok None
      | PDict d \<Rightarrow> Ok (Some d)
      | _ \<Rightarrow> Raise UnexpectedResponseError))"

definition verify_chain_id :: "'w post_json \<Rightarrow> int \<Rightarrow> ('w, unit) rpc" where
  "verify_chain_id post expected = (\<lambda>c.
     case rpc_verified_chain_id c of
       Some n \<Rightarrow> (if n \<noteq> expected then Raise UserInputError else Ok (), c)
     | None \<Rightarrow>
         (case eth_chain_id post c of
            (Inl e, c1) \<Rightarrow> (Raise e, c1)
          | (Inr actual, c1) \<Rightarrow>
              if actual \<noteq> expected then (Raise UserInputError, c1)
              else (Ok (), c1\<lparr>rpc_verified_chain_id := Some actual\<rparr>)))"

definition call_params :: "string \<Rightarrow> string \<times> string \<Rightarrow> pyval list" where
  "call_params block request = [PDict [(''to'', PStr (fst request)), (''data'', PStr (snd request))], PStr block]"

definition eth_call :: "'w post_json \<Rightarrow> string \<Rightarrow> string \<Rightarrow> string \<Rightarrow> ('w, string) rpc" where
  "eth_call post to data block =
     bindS (rpc_call post ''eth_call'' (call_params block (to, data))) (\<lambda>result.
     liftS (parse_eth_call_result result))"

fun build_envelopes :: "string \<Rightarrow> (string \<times> string) list \<Rightarrow> ('w, json_object list) rpc" where
  "build_envelopes block [] = pureS []"
| "build_envelopes block (r # rs) =
     bindS (build_envelope ''eth_call'' (call_params block r)) (\<lambda>e.
     bindS (build_envelopes block rs) (\<lambda>es. pureS (e # es)))"

definition post_eth_call_batch ::
  "'w post_json \<Rightarrow> (string \<times> string) list \<Rightarrow> string \<Rightarrow> ('w, string list) rpc" where
  "post_eth_call_batch post requests block =
     bindS (build_envelopes block requests) (\<lambda>envelopes.
     bindS (rpc_post post (PList (map PDict envelopes))) (\<lambda>raw.
     liftS (parse_eth_call_batch_response raw envelopes)))"

definition is_server_error :: "py_error \<Rightarrow> bool" where
  "is_server_error e \<longleftrightarrow> (case rejection e of Some (status, _) \<Rightarrow> 500 \<le> status | None \<Rightarrow> False)"

text \<open>
  \<open>eth_call_batch\<close> returns before it would split an empty list, and the halves of two or more requests
  are not empty.
\<close>

function eth_call_batch_with_split ::
  "'w post_json \<Rightarrow> string \<Rightarrow> (string \<times> string) list \<Rightarrow> 'w rpc_client \<Rightarrow> string list res \<times> 'w rpc_client" where
  "eth_call_batch_with_split post block requests c =
     (if length requests < 2 then
        (case requests of
           [] \<Rightarrow> (Ok [], c)
         | (to, data) # _ \<Rightarrow> bindS (eth_call post to data block) (\<lambda>r. pureS [r]) c)
      else
        tryS (post_eth_call_batch post requests block) (\<lambda>error.
          if \<not> is_server_error error then failS error
          else
            (let midpoint = (length requests + 1) div 2 in
             bindS (eth_call_batch_with_split post block (take midpoint requests)) (\<lambda>left.
             bindS (eth_call_batch_with_split post block (drop midpoint requests)) (\<lambda>right.
             pureS (left @ right))))) c)"
  by pat_completeness auto
termination by (relation "measure (\<lambda>(post, block, requests, c). length requests)") auto

declare eth_call_batch_with_split.simps [simp del]

definition eth_call_batch ::
  "'w post_json \<Rightarrow> (string \<times> string) list \<Rightarrow> string \<Rightarrow> ('w, string list) rpc" where
  "eth_call_batch post requests block =
     (if requests = [] then pureS [] else eth_call_batch_with_split post block requests)"

section \<open>Nodes\<close>

text \<open>
  The behaviour of a node, for the contract a block is asked about. A call is a numbered request.
  An honest node may refuse anything and may answer in any order; what it answers is true of the call
  whose number it repeats. A node with a capacity answers every single call and every batch up to that
  size, and refuses larger ones with a server error.
\<close>

type_synonym node_answers = "string \<Rightarrow> string \<times> string \<Rightarrow> string"
type_synonym numbered_call = "int \<times> string \<times> string"

definition eth_call_envelope :: "string \<Rightarrow> numbered_call \<Rightarrow> json_object" where
  "eth_call_envelope block call = envelope_of (fst call) ''eth_call'' (call_params block (snd call))"

definition responds_to :: "node_answers \<Rightarrow> string \<Rightarrow> numbered_call \<Rightarrow> pyval \<Rightarrow> bool" where
  "responds_to answer block call v \<longleftrightarrow>
     (\<exists>d. v = PDict d \<and> dict_get ''id'' d = PInt (fst call)
        \<and> (map_of d ''error'' = None \<longrightarrow> dict_get ''result'' d = PStr (answer block (snd call))))"

definition serves_call :: "node_answers \<Rightarrow> string \<Rightarrow> numbered_call \<Rightarrow> pyval \<Rightarrow> bool" where
  "serves_call answer block call v \<longleftrightarrow>
     (\<exists>d. v = PDict d \<and> dict_get ''id'' d = PInt (fst call) \<and> map_of d ''error'' = None
        \<and> dict_get ''result'' d = PStr (answer block (snd call)))"

definition honest_node :: "node_answers \<Rightarrow> 'w post_json \<Rightarrow> bool" where
  "honest_node answer post \<longleftrightarrow>
     (\<forall>block call w v w'. post (PDict (eth_call_envelope block call)) w = (Ok v, w') \<longrightarrow> responds_to answer block call v)
   \<and> (\<forall>block calls w v w'. post (PList (map (\<lambda>call. PDict (eth_call_envelope block call)) calls)) w = (Ok v, w') \<longrightarrow>
        (\<exists>items. v = PList items \<and> (\<forall>item\<in>set items. \<exists>call\<in>set calls. responds_to answer block call item)))"

definition node_capacity :: "nat \<Rightarrow> node_answers \<Rightarrow> 'w post_json \<Rightarrow> bool" where
  "node_capacity k answer post \<longleftrightarrow>
     (\<forall>block call w. \<exists>v w'. post (PDict (eth_call_envelope block call)) w = (Ok v, w') \<and> serves_call answer block call v)
   \<and> (\<forall>block calls w.
        if length calls \<le> k then
          (\<exists>items items' w'. post (PList (map (\<lambda>call. PDict (eth_call_envelope block call)) calls)) w = (Ok (PList items), w')
             \<and> mset items' = mset items \<and> list_all2 (serves_call answer block) calls items')
        else
          (\<exists>e w'. post (PList (map (\<lambda>call. PDict (eth_call_envelope block call)) calls)) w = (Raise e, w')
             \<and> is_server_error e))"

section \<open>Requests and their numbers\<close>

fun numbered :: "int \<Rightarrow> 'a list \<Rightarrow> (int \<times> 'a) list" where
  "numbered n [] = []"
| "numbered n (x # xs) = (n, x) # numbered (n + 1) xs"

lemma numbered_snd [simp]: "map snd (numbered n xs) = xs"
  by (induction n xs rule: numbered.induct) simp_all

lemma length_numbered [simp]: "length (numbered n xs) = length xs"
  by (induction n xs rule: numbered.induct) simp_all

lemma numbered_ge: "p \<in> set (numbered n xs) \<Longrightarrow> n \<le> fst p"
  by (induction n xs rule: numbered.induct) auto

lemma distinct_numbered: "distinct (map fst (numbered n xs))"
  by (induction n xs rule: numbered.induct) (auto dest: numbered_ge)

lemma build_envelopes_numbered:
  "build_envelopes block rs c =
     (Ok (map (eth_call_envelope block) (numbered (rpc_id c + 1) rs)), c\<lparr>rpc_id := rpc_id c + int (length rs)\<rparr>)"
  by (induction block rs arbitrary: c rule: build_envelopes.induct)
    (simp_all add: bindS_app build_envelope_def eth_call_envelope_def Let_def algebra_simps)

lemma envelope_number [simp]: "dict_get ''id'' (eth_call_envelope block call) = PInt (fst call)"
  by (simp add: eth_call_envelope_def envelope_of_def dict_get_def)

section \<open>Matching responses with requests\<close>

lemma index_responses_sound:
  "index_responses items acc = Ok by_id \<Longrightarrow> map_of by_id i = Some d \<Longrightarrow>
     map_of acc i = Some d \<or> PDict d \<in> set items \<and> dict_get ''id'' d = PInt i"
proof (induction items acc rule: index_responses.induct)
  case (2 item items acc)
  from 2(2) obtain e n where e: "item = PDict e" "dict_get ''id'' e = PInt n" "map_of acc n = None"
    "index_responses items (dict_set n e acc) = Ok by_id" by (auto split: pyval.splits if_splits)
  have "map_of (dict_set n e acc) i = Some d \<or> PDict d \<in> set items \<and> dict_get ''id'' d = PInt i"
    using 2(1) [OF e(1,2) _ e(4) 2(3)] e(3) by simp
  then show ?case using e(1,2) by (auto split: if_splits)
qed simp

lemma index_responses_complete:
  "list_all2 (\<lambda>n v. \<exists>d. v = PDict d \<and> dict_get ''id'' d = PInt n) ns items \<Longrightarrow> distinct ns \<Longrightarrow>
     \<forall>n\<in>set ns. map_of acc n = None \<Longrightarrow>
     \<exists>by_id. index_responses items acc = Ok by_id
       \<and> (\<forall>n d. PDict d \<in> set items \<longrightarrow> dict_get ''id'' d = PInt n \<longrightarrow> map_of by_id n = Some d)
       \<and> (\<forall>n d. map_of acc n = Some d \<longrightarrow> map_of by_id n = Some d)"
proof (induction ns items arbitrary: acc rule: list_all2_induct)
  case Nil
  then show ?case by simp
next
  case (Cons n ns item items)
  from Cons.hyps(1) obtain d where d: "item = PDict d" "dict_get ''id'' d = PInt n" by blast
  have "\<forall>m\<in>set ns. map_of (dict_set n d acc) m = None" using Cons.prems by auto
  from Cons.IH [OF _ this] Cons.prems(1) obtain by_id where
    by_id: "index_responses items (dict_set n d acc) = Ok by_id"
      "\<forall>m e. PDict e \<in> set items \<longrightarrow> dict_get ''id'' e = PInt m \<longrightarrow> map_of by_id m = Some e"
      "\<forall>m e. map_of (dict_set n d acc) m = Some e \<longrightarrow> map_of by_id m = Some e" by auto
  have "index_responses (item # items) acc = Ok by_id" using by_id(1) d Cons.prems(2) by simp
  moreover have "map_of by_id n = Some d" using by_id(3) by simp
  moreover have "map_of by_id m = Some e" if "map_of acc m = Some e" for m e
    using that by_id(3) Cons.prems(2) by (cases "m = n") auto
  ultimately show ?case using by_id(2) d by auto
qed

lemma response_aligned:
  assumes "responds_to answer block call (PDict d)"
    and ok: "bindE (parse_rpc_response ''eth_call'' (PDict d)) parse_eth_call_result = Ok r"
  shows "r = answer block (snd call)"
proof (cases "map_of d ''error''")
  case None
  then have "parse_rpc_response ''eth_call'' (PDict d) = Ok (PStr (answer block (snd call)))"
    using assms(1) by (auto simp: responds_to_def parse_rpc_response_def)
  then show ?thesis using ok by (auto simp: parse_eth_call_result_def split: if_splits)
next
  case (Some err)
  then show ?thesis using ok by (cases "extract_error_fields err") (simp add: parse_rpc_response_def)
qed

text \<open>Whatever the order of the responses, each result is that of its own request.\<close>

lemma batch_response_aligned:
  assumes items: "\<forall>item\<in>set items. \<exists>call\<in>set calls. responds_to answer block call item"
    and distinct: "distinct (map fst calls)"
    and ok: "parse_eth_call_batch_response (PList items) (map (eth_call_envelope block) calls) = Ok rs"
  shows "rs = map (\<lambda>call. answer block (snd call)) calls"
proof -
  from ok obtain by_id where by_id: "index_responses items [] = Ok by_id"
    and all2: "list_all2 (\<lambda>e r. response_of_envelope by_id e = Ok r) (map (eth_call_envelope block) calls) rs"
    by (auto simp: parse_eth_call_batch_response_def traverseE_all2)
  have "r = answer block (snd call)"
    if "call \<in> set calls" "response_of_envelope by_id (eth_call_envelope block call) = Ok r" for call r
  proof -
    from that(2) obtain d where d: "map_of by_id (fst call) = Some d"
      and r: "bindE (parse_rpc_response ''eth_call'' (PDict d)) parse_eth_call_result = Ok r"
      by (auto simp: response_of_envelope_def simp del: bindE_eq_Inr split: option.splits)
    from index_responses_sound [OF by_id d] have "PDict d \<in> set items" "dict_get ''id'' d = PInt (fst call)" by auto
    moreover from this(1) items obtain call' where "call' \<in> set calls" "responds_to answer block call' (PDict d)" by blast
    moreover from calculation have "fst call' = fst call" by (auto simp: responds_to_def)
    moreover have "call' = call"
      using calculation that(1) distinct by (auto simp: distinct_map dest: inj_onD)
    ultimately show ?thesis using response_aligned [OF _ r] by blast
  qed
  with all2 have "list_all2 (\<lambda>call r. r = answer block (snd call)) calls rs"
    unfolding list_all2_map1 by (auto elim: list.rel_mono_strong)
  then show ?thesis by (induction rule: list_all2_induct) simp_all
qed

lemma list_all2_flip: "list_all2 R xs ys \<Longrightarrow> list_all2 (\<lambda>y x. R x y) ys xs"
  by (induction rule: list_all2_induct) simp_all

lemma list_all2_reorder:
  assumes "list_all2 R xs ys" "mset ys' = mset ys"
  shows "\<exists>xs'. list_all2 R xs' ys' \<and> mset xs' = mset xs"
  using list_all2_reorder_left_invariance [OF list_all2_flip [OF assms(1)] assms(2)]
  by (auto dest: list_all2_flip)

lemma batch_response_served:
  assumes served: "list_all2 (serves_call answer block) calls items'" "mset items' = mset items"
    and distinct: "distinct (map fst calls)" and hex: "\<And>r. is_rpc_hex_string (answer block r)"
  shows "parse_eth_call_batch_response (PList items) (map (eth_call_envelope block) calls)
     = Ok (map (\<lambda>call. answer block (snd call)) calls)"
proof -
  obtain calls' where calls': "list_all2 (serves_call answer block) calls' items" "mset calls' = mset calls"
    using list_all2_reorder [OF served(1)] served(2) by metis
  have "list_all2 (\<lambda>n v. \<exists>d. v = PDict d \<and> dict_get ''id'' d = PInt n) (map fst calls') items"
    unfolding list_all2_map1 using calls'(1) by (rule list_all2_mono) (auto simp: serves_call_def)
  moreover have "distinct (map fst calls')"
    using distinct calls'(2) by (metis mset_eq_imp_distinct_iff mset_map)
  ultimately obtain by_id where by_id: "index_responses items [] = Ok by_id"
    "\<forall>n d. PDict d \<in> set items \<longrightarrow> dict_get ''id'' d = PInt n \<longrightarrow> map_of by_id n = Some d"
    using index_responses_complete [of "map fst calls'" items "[]"] by auto
  have "response_of_envelope by_id (eth_call_envelope block call) = Ok (answer block (snd call))"
    if "call \<in> set calls" for call
  proof -
    from that calls'(2) have "call \<in> set calls'" by (metis set_mset_mset)
    then obtain i where "i < length calls'" "call = calls' ! i" by (auto simp: in_set_conv_nth)
    then obtain item where "item \<in> set items" "serves_call answer block call item"
      using calls'(1) by (metis list_all2_conv_all_nth nth_mem)
    then show ?thesis using by_id(2) hex [of "snd call"]
      by (auto simp: serves_call_def response_of_envelope_def parse_rpc_response_def parse_eth_call_result_def)
  qed
  then have "traverseE (response_of_envelope by_id) (map (eth_call_envelope block) calls)
      = Ok (map (\<lambda>call. answer block (snd call)) calls)"
    by (induction calls) simp_all
  then show ?thesis by (simp add: parse_eth_call_batch_response_def by_id(1))
qed

section \<open>Calls and batches\<close>

lemma eth_call_unfold:
  "eth_call post to data block c =
     (case post (PDict (eth_call_envelope block (rpc_id c + 1, to, data))) (rpc_world c) of
        (Inl e, w) \<Rightarrow> (Raise e, c\<lparr>rpc_id := rpc_id c + 1, rpc_world := w\<rparr>)
      | (Inr v, w) \<Rightarrow> (bindE (parse_rpc_response ''eth_call'' v) parse_eth_call_result,
                     c\<lparr>rpc_id := rpc_id c + 1, rpc_world := w\<rparr>))"
  by (auto simp: eth_call_def rpc_call_def bindS_app build_envelope_def rpc_post_def eth_call_envelope_def Let_def
      bindE_def split: prod.splits sum.splits)

lemma post_batch_unfold:
  "post_eth_call_batch post rs block c =
     (let calls = numbered (rpc_id c + 1) rs in
      case post (PList (map (\<lambda>call. PDict (eth_call_envelope block call)) calls)) (rpc_world c) of
        (Inl e, w) \<Rightarrow> (Raise e, c\<lparr>rpc_id := rpc_id c + int (length rs), rpc_world := w\<rparr>)
      | (Inr v, w) \<Rightarrow> (parse_eth_call_batch_response v (map (eth_call_envelope block) calls),
                     c\<lparr>rpc_id := rpc_id c + int (length rs), rpc_world := w\<rparr>))"
  by (simp add: post_eth_call_batch_def bindS_app build_envelopes_numbered rpc_post_def Let_def comp_def
      split: prod.split sum.split)

lemma honest_call:
  assumes "honest_node answer post" "eth_call post to data block c = (Ok r, c')"
  shows "r = answer block (to, data)"
proof -
  let ?call = "(rpc_id c + 1, to, data)"
  from assms(2) obtain v w where v: "post (PDict (eth_call_envelope block ?call)) (rpc_world c) = (Ok v, w)"
    "bindE (parse_rpc_response ''eth_call'' v) parse_eth_call_result = Ok r"
    by (auto simp: eth_call_unfold simp del: bindE_eq_Inr split: prod.splits sum.splits)
  then have "responds_to answer block ?call v" using assms(1) unfolding honest_node_def by blast
  then obtain d where "v = PDict d" "responds_to answer block ?call (PDict d)" by (auto simp: responds_to_def)
  then show ?thesis using response_aligned [of answer block ?call d r] v(2) by simp
qed

lemma honest_batch:
  assumes "honest_node answer post" "post_eth_call_batch post rs block c = (Ok ts, c')"
  shows "ts = map (answer block) rs"
proof -
  let ?calls = "numbered (rpc_id c + 1) rs"
  from assms(2) obtain v w where
    v: "post (PList (map (\<lambda>call. PDict (eth_call_envelope block call)) ?calls)) (rpc_world c) = (Ok v, w)"
      "parse_eth_call_batch_response v (map (eth_call_envelope block) ?calls) = Ok ts"
    by (auto simp: post_batch_unfold Let_def split: prod.splits sum.splits)
  then obtain items where "v = PList items"
    "\<forall>item\<in>set items. \<exists>call\<in>set ?calls. responds_to answer block call item"
    using assms(1) unfolding honest_node_def by meson
  with v(2) have "ts = map (\<lambda>call. answer block (snd call)) ?calls"
    using batch_response_aligned distinct_numbered by blast
  also have "\<dots> = map (answer block) (map snd ?calls)" by (simp only: map_map comp_def)
  finally show ?thesis by (simp only: numbered_snd)
qed

lemma honest_split:
  "honest_node answer post \<Longrightarrow> eth_call_batch_with_split post block requests c = (Ok rs, c') \<Longrightarrow>
     rs = map (answer block) requests"
proof (induction post block requests c arbitrary: rs c' rule: eth_call_batch_with_split.induct)
  case (1 post block requests c)
  show ?case
  proof (cases "length requests < 2")
    case True
    then show ?thesis using 1(3,4)
      by (auto simp: eth_call_batch_with_split.simps [of post block requests] bindS_eq_Ok honest_call
          split: list.splits prod.splits)
  next
    case False
    obtain r c1 where r: "post_eth_call_batch post requests block c = (r, c1)"
      by (cases "post_eth_call_batch post requests block c")
    show ?thesis
    proof (cases r)
      case (Inr ts)
      then have "rs = ts" using 1(4) False r
        by (simp add: eth_call_batch_with_split.simps [of post block requests] tryS_app)
      then show ?thesis using honest_batch [OF 1(3)] r Inr by blast
    next
      case (Inl e)
      let ?m = "(length requests + 1) div 2"
      have "is_server_error e"
        using 1(4) False r Inl
        by (auto simp: eth_call_batch_with_split.simps [of post block requests] tryS_app split: if_splits)
      then obtain left c2 right where parts:
        "eth_call_batch_with_split post block (take ?m requests) c1 = (Ok left, c2)"
        "eth_call_batch_with_split post block (drop ?m requests) c2 = (Ok right, c')" "rs = left @ right"
        using 1(4) False r Inl
        by (auto simp: eth_call_batch_with_split.simps [of post block requests] tryS_app bindS_eq_Ok Let_def)
      have "left = map (answer block) (take ?m requests)" "right = map (answer block) (drop ?m requests)"
        using 1(1) [OF False, of e _ ?m] 1(2) [OF False, of e _ ?m] 1(3) parts(1,2) r Inl \<open>is_server_error e\<close>
        by blast+
      then show ?thesis using parts(3) by (simp flip: map_append)
    qed
  qed
qed

lemma honest_eth_call_batch:
  "honest_node answer post \<Longrightarrow> eth_call_batch post requests block c = (Ok rs, c') \<Longrightarrow>
     rs = map (answer block) requests"
  by (auto simp: eth_call_batch_def dest: honest_split split: if_splits)

lemma served_call:
  assumes "node_capacity k answer post" "is_rpc_hex_string (answer block (to, data))"
  shows "\<exists>c'. eth_call post to data block c = (Ok (answer block (to, data)), c')"
proof -
  let ?call = "(rpc_id c + 1, to, data)"
  obtain v w where "post (PDict (eth_call_envelope block ?call)) (rpc_world c) = (Ok v, w)"
    "serves_call answer block ?call v"
    using assms(1) unfolding node_capacity_def by blast
  with assms(2) show ?thesis
    by (auto simp: eth_call_unfold serves_call_def parse_rpc_response_def parse_eth_call_result_def)
qed

lemma served_batch:
  assumes "node_capacity k answer post" "\<And>r. is_rpc_hex_string (answer block r)"
  shows "length rs \<le> k \<Longrightarrow> \<exists>c'. post_eth_call_batch post rs block c = (Ok (map (answer block) rs), c')"
    and "k < length rs \<Longrightarrow> \<exists>e c'. post_eth_call_batch post rs block c = (Raise e, c') \<and> is_server_error e"
proof -
  let ?calls = "numbered (rpc_id c + 1) rs"
  let ?body = "PList (map (\<lambda>call. PDict (eth_call_envelope block call)) ?calls)"
  have batch: "if length ?calls \<le> k then
      (\<exists>items items' w'. post ?body (rpc_world c) = (Ok (PList items), w')
         \<and> mset items' = mset items \<and> list_all2 (serves_call answer block) ?calls items')
    else (\<exists>e w'. post ?body (rpc_world c) = (Raise e, w') \<and> is_server_error e)"
    using assms(1) unfolding node_capacity_def by blast
  have answers: "map (\<lambda>call. answer block (snd call)) ?calls = map (answer block) rs"
    using map_map [of "answer block" snd ?calls] by (simp only: numbered_snd comp_def)
  {
    assume "length rs \<le> k"
    then obtain items items' w' where post: "post ?body (rpc_world c) = (Ok (PList items), w')"
      and served: "list_all2 (serves_call answer block) ?calls items'" "mset items' = mset items"
      using batch by auto
    then show "\<exists>c'. post_eth_call_batch post rs block c = (Ok (map (answer block) rs), c')"
      using batch_response_served [OF served distinct_numbered assms(2)] answers
      by (simp add: post_batch_unfold Let_def)
  next
    assume "k < length rs"
    then show "\<exists>e c'. post_eth_call_batch post rs block c = (Raise e, c') \<and> is_server_error e"
      using batch by (auto simp: post_batch_unfold Let_def)
  }
qed

lemma served_split:
  "node_capacity k answer post \<Longrightarrow> (\<And>r. is_rpc_hex_string (answer block r)) \<Longrightarrow>
     \<exists>c'. eth_call_batch_with_split post block requests c = (Ok (map (answer block) requests), c')"
proof (induction post block requests c rule: eth_call_batch_with_split.induct)
  case (1 post block requests c)
  note cap = 1(3) and hex = 1(4)
  consider (one) "length requests < 2" | (whole) "2 \<le> length requests" "length requests \<le> k"
    | (halved) "2 \<le> length requests" "k < length requests" by linarith
  then show ?case
  proof cases
    case one
    then consider "requests = []" | to data where "requests = [(to, data)]" by (cases requests) auto
    then show ?thesis
    proof cases
      case 2
      then show ?thesis using served_call [OF cap, of block to data c] hex
        by (auto simp: eth_call_batch_with_split.simps [of post block "[(to, data)]"] bindS_app)
    qed (simp add: eth_call_batch_with_split.simps [of post block "[]"])
  next
    case whole
    with served_batch(1) [OF cap hex whole(2), of c] show ?thesis
      by (auto simp: eth_call_batch_with_split.simps [of post block requests] tryS_app)
  next
    case halved
    let ?m = "(length requests + 1) div 2"
    obtain e c1 where e: "post_eth_call_batch post requests block c = (Raise e, c1)" "is_server_error e"
      using served_batch(2) [OF cap hex halved(2), of c] by blast
    obtain c2 where left: "eth_call_batch_with_split post block (take ?m requests) c1
        = (Ok (map (answer block) (take ?m requests)), c2)"
      using 1(1) [OF _ e(1) _ refl cap hex, of c1] halved(1) e(2) by (meson not_less)
    obtain c3 where right: "eth_call_batch_with_split post block (drop ?m requests) c2
        = (Ok (map (answer block) (drop ?m requests)), c3)"
      using 1(2) [OF _ e(1) _ refl cap hex, of c2] halved(1) e(2) by (meson not_less)
    have "eth_call_batch_with_split post block requests c = (Ok (map (answer block) requests), c3)"
      using halved(1) e left right
      by (simp add: eth_call_batch_with_split.simps [of post block requests] tryS_app bindS_app Let_def
          flip: map_append)
    then show ?thesis ..
  qed
qed

end
