(* ===== verification/Wallets.thy ===== *)
theory Wallets imports Calls Json_Rpc Orders begin

text \<open>
  \<open>_internal/wallet.py\<close>: the addresses of the wallets that belong to a signer, the kind of a wallet, and
  the signatures of session keys.
\<close>

section \<open>Addresses\<close>

datatype signer_type = OWNER | SESSION_KEY

record account_classification =
  acl_signer_type :: signer_type
  acl_wallet_type :: wallet_type

definition ZERO_ADDRESS :: string where
  "ZERO_ADDRESS = ''0x'' @ replicate 40 (CHR ''0'')"

definition proxy_bytecode_text :: "string \<Rightarrow> string \<Rightarrow> string" where
  "proxy_bytecode_text factory impl =
     ''3d3d606380380380913d393d73'' @ factory
     @ ''5af4602a57600080fd5b602d8060366000396000f3363d3d373d3d3d363d73'' @ impl
     @ ''5af43d82803e903d91602b57fd5bf352e831dd''
     @ ''0000000000000000000000000000000000000000000000000000000000000020''
     @ ''0000000000000000000000000000000000000000000000000000000000000000''"

text \<open>Constants of the contracts, as the bytes of their hexadecimal texts.\<close>

definition hex_constant :: "string \<Rightarrow> byte list" where
  "hex_constant s = (case bytes_fromhex s of None \<Rightarrow> [] | Some bs \<Rightarrow> bs)"

definition ERC1967_CONST1 :: "byte list" where
  "ERC1967_CONST1 = hex_constant ''cc3735a920a3ca505d382bbc545af43d6000803e6038573d6000fd5b3d6000f3''"

definition ERC1967_CONST2 :: "byte list" where
  "ERC1967_CONST2 = hex_constant ''5155f3363d3d373d3d363d7f360894a13ba1a3210667c828492db98dca3e2076''"

definition ERC1967_PREFIX_BASE :: int where "ERC1967_PREFIX_BASE = 0x61003D3D8160233D3973"

definition ERC1967_BEACON_CONST1 :: "byte list" where
  "ERC1967_BEACON_CONST1 = hex_constant ''b3582b35133d50545afa5036515af43d6000803e604d573d6000fd5b3d6000f3''"

definition ERC1967_BEACON_CONST2 :: "byte list" where
  "ERC1967_BEACON_CONST2 = hex_constant ''1b60e01b36527fa3f0ad74e5423aebfd80d3ef4346578335a9a72aeaee59ff6c''"

definition ERC1967_BEACON_CONST3 :: "byte list" where
  "ERC1967_BEACON_CONST3 = hex_constant ''60195155f3363d3d373d3d363d602036600436635c60da''"

definition ERC1967_BEACON_PREFIX_BASE :: int where "ERC1967_BEACON_PREFIX_BASE = 0x6100523D8160233D3973"

definition FACTORY_BEACON_SELECTOR :: string where "FACTORY_BEACON_SELECTOR = ''0x49493a4d''"

definition SESSION_SIGNER_MAGIC_BYTES :: "byte list" where
  "SESSION_SIGNER_MAGIC_BYTES = hex_constant ''6492649264926492649264926492649264926492649264926492649264926492''"

definition rjust32 :: "byte list \<Rightarrow> byte list" where
  "rjust32 bs = replicate (32 - length bs) 0 @ bs"

definition create2 :: "eth_library \<Rightarrow> string \<Rightarrow> byte list \<Rightarrow> byte list \<Rightarrow> string res" where
  "create2 lib factory salt bytecode_hash =
     bindE (hex_bytes factory) (\<lambda>factory_bytes.
     to_checksum_address lib (hex_text (drop 12 (keccak lib ([255] @ factory_bytes @ salt @ bytecode_hash)))))"

definition derive_proxy_wallet_address :: "eth_library \<Rightarrow> string \<Rightarrow> wallet_derivation \<Rightarrow> string res" where
  "derive_proxy_wallet_address lib signer config =
     bindE (case bytes_fromhex (proxy_bytecode_text (lower (strip_0x (proxy_factory config)))
                  (lower (strip_0x (proxy_implementation config)))) of
              None \<Rightarrow> Raise ValueError
            | Some bytecode \<Rightarrow> Ok bytecode) (\<lambda>bytecode.
     bindE (encode_packed lib [''address''] [AbiAddress signer]) (\<lambda>packed.
     create2 lib (proxy_factory config) (keccak lib packed) (keccak lib bytecode)))"

definition derive_safe_wallet_address :: "eth_library \<Rightarrow> string \<Rightarrow> wallet_derivation \<Rightarrow> string res" where
  "derive_safe_wallet_address lib signer config =
     bindE (hex_bytes (safe_init_code_hash config)) (\<lambda>bytecode_hash.
     bindE (abi_encode lib [''address''] [AbiAddress signer]) (\<lambda>encoded.
     create2 lib (safe_factory config) (keccak lib encoded) bytecode_hash))"

definition deposit_wallet_args :: "eth_library \<Rightarrow> string \<Rightarrow> wallet_derivation \<Rightarrow> byte list res" where
  "deposit_wallet_args lib signer config =
     bindE (hex_bytes signer) (\<lambda>signer_bytes.
     abi_encode lib [''address'', ''bytes32'']
       [AbiAddress (deposit_wallet_factory config), AbiBytes (rjust32 signer_bytes)])"

definition init_code_prefix :: "int \<Rightarrow> byte list \<Rightarrow> byte list res" where
  "init_code_prefix base args = int_to_bytes 10 (base + int (length args) * 2 ^ 56)"

definition uups_deposit_init_code_hash :: "eth_library \<Rightarrow> string \<Rightarrow> byte list \<Rightarrow> byte list res" where
  "uups_deposit_init_code_hash lib implementation args =
     bindE (init_code_prefix ERC1967_PREFIX_BASE args) (\<lambda>prefix_bytes.
     bindE (hex_bytes implementation) (\<lambda>impl_bytes.
     Ok (keccak lib (prefix_bytes @ impl_bytes @ hex_constant ''6009'' @ ERC1967_CONST2 @ ERC1967_CONST1 @ args))))"

definition beacon_deposit_init_code_hash :: "eth_library \<Rightarrow> string \<Rightarrow> byte list \<Rightarrow> byte list res" where
  "beacon_deposit_init_code_hash lib beacon args =
     bindE (init_code_prefix ERC1967_BEACON_PREFIX_BASE args) (\<lambda>prefix_bytes.
     bindE (hex_bytes beacon) (\<lambda>beacon_bytes.
     Ok (keccak lib (prefix_bytes @ beacon_bytes @ ERC1967_BEACON_CONST3 @ ERC1967_BEACON_CONST2
           @ ERC1967_BEACON_CONST1 @ args))))"

definition derive_uups_deposit_wallet_address :: "eth_library \<Rightarrow> string \<Rightarrow> wallet_derivation \<Rightarrow> string res" where
  "derive_uups_deposit_wallet_address lib signer config =
     bindE (deposit_wallet_args lib signer config) (\<lambda>args.
     bindE (uups_deposit_init_code_hash lib (deposit_wallet_implementation config) args) (\<lambda>bytecode_hash.
     create2 lib (deposit_wallet_factory config) (keccak lib args) bytecode_hash))"

definition derive_beacon_deposit_wallet_address :: "eth_library \<Rightarrow> string \<Rightarrow> wallet_derivation \<Rightarrow> string res" where
  "derive_beacon_deposit_wallet_address lib signer config =
     bindE (deposit_wallet_args lib signer config) (\<lambda>args.
     bindE (beacon_deposit_init_code_hash lib (deposit_wallet_beacon config) args) (\<lambda>bytecode_hash.
     create2 lib (deposit_wallet_factory config) (keccak lib args) bytecode_hash))"

section \<open>The factory in use\<close>

definition decode_address_return_data :: "eth_library \<Rightarrow> string \<Rightarrow> string res" where
  "decode_address_return_data lib data =
     (if length data < 66 then Ok ZERO_ADDRESS
      else case to_checksum_address lib (''0x'' @ drop (length data - 40) data) of
          Inl ValueError \<Rightarrow> Ok ZERO_ADDRESS
        | r \<Rightarrow> r)"

definition get_deposit_wallet_factory_beacon ::
  "eth_library \<Rightarrow> 'w post_json \<Rightarrow> string \<Rightarrow> ('w, string) rpc" where
  "get_deposit_wallet_factory_beacon lib post factory = (\<lambda>c.
     case eth_call post factory FACTORY_BEACON_SELECTOR ''latest'' c of
       (Inl error, c') \<Rightarrow> (if is_json_rpc_contract_revert error then Ok ZERO_ADDRESS else Raise error, c')
     | (Inr data, c') \<Rightarrow> (decode_address_return_data lib data, c'))"

definition is_beacon_deposit_wallet_factory :: "eth_library \<Rightarrow> 'w post_json \<Rightarrow> string \<Rightarrow> ('w, bool) rpc" where
  "is_beacon_deposit_wallet_factory lib post factory =
     bindS (get_deposit_wallet_factory_beacon lib post factory) (\<lambda>beacon. pureS (lower beacon \<noteq> ZERO_ADDRESS))"

definition derive_current_deposit_wallet_address ::
  "eth_library \<Rightarrow> 'w post_json \<Rightarrow> string \<Rightarrow> wallet_derivation \<Rightarrow> ('w, string) rpc" where
  "derive_current_deposit_wallet_address lib post signer config =
     bindS (is_beacon_deposit_wallet_factory lib post (deposit_wallet_factory config)) (\<lambda>beacon.
     liftS (if beacon then derive_beacon_deposit_wallet_address lib signer config
            else derive_uups_deposit_wallet_address lib signer config))"

section \<open>Classification\<close>

definition checksum_or_input_error :: "eth_library \<Rightarrow> string \<Rightarrow> string res" where
  "checksum_or_input_error lib address =
     (case to_checksum_address lib address of Inl ValueError \<Rightarrow> Raise UserInputError | r \<Rightarrow> r)"

definition try_classify_wallet_type ::
  "eth_library \<Rightarrow> string \<Rightarrow> string \<Rightarrow> wallet_derivation \<Rightarrow> wallet_type option res" where
  "try_classify_wallet_type lib signer wallet config =
     bindE (checksum_or_input_error lib signer) (\<lambda>signer_checksum.
     bindE (checksum_or_input_error lib wallet) (\<lambda>wallet_checksum.
     if wallet_checksum = signer_checksum then Ok (Some EOA)
     else
       bindE (derive_beacon_deposit_wallet_address lib signer_checksum config) (\<lambda>beacon.
       if wallet_checksum = beacon then Ok (Some DEPOSIT_WALLET)
       else
         bindE (derive_uups_deposit_wallet_address lib signer_checksum config) (\<lambda>uups.
         if wallet_checksum = uups then Ok (Some DEPOSIT_WALLET)
         else
           bindE (derive_proxy_wallet_address lib signer_checksum config) (\<lambda>proxy.
           if wallet_checksum = proxy then Ok (Some POLY_PROXY)
           else
             bindE (derive_safe_wallet_address lib signer_checksum config) (\<lambda>safe.
             if wallet_checksum = safe then Ok (Some GNOSIS_SAFE) else Ok None))))))"

definition classify_account ::
  "eth_library \<Rightarrow> string \<Rightarrow> string \<Rightarrow> wallet_derivation \<Rightarrow> account_classification res" where
  "classify_account lib signer wallet config =
     bindE (try_classify_wallet_type lib signer wallet config) (\<lambda>found.
     Ok (case found of
           Some wt \<Rightarrow> \<lparr>acl_signer_type = OWNER, acl_wallet_type = wt\<rparr>
         | None \<Rightarrow> \<lparr>acl_signer_type = SESSION_KEY, acl_wallet_type = DEPOSIT_WALLET\<rparr>))"

definition classify_wallet_type :: "eth_library \<Rightarrow> string \<Rightarrow> string \<Rightarrow> wallet_derivation \<Rightarrow> wallet_type res" where
  "classify_wallet_type lib signer wallet config =
     map_ok acl_wallet_type (classify_account lib signer wallet config)"

section \<open>Signatures of session keys\<close>

definition wrap_deposit_wallet_session_signer_signature :: "eth_library \<Rightarrow> string \<Rightarrow> string \<Rightarrow> string res" where
  "wrap_deposit_wallet_session_signer_signature lib session_signer signature =
     bindE (hex_bytes session_signer) (\<lambda>signer_bytes.
     bindE (hex_bytes signature) (\<lambda>signature_bytes.
     bindE (abi_encode lib [''bytes32'', ''bytes32'', ''bytes'']
              [AbiBytes (rjust32 signer_bytes), AbiBytes ZERO_BYTES32, AbiBytes signature_bytes]) (\<lambda>payload.
     Ok (hex_text (payload @ SESSION_SIGNER_MAGIC_BYTES)))))"

definition wrap_deposit_wallet_signature :: "eth_library \<Rightarrow> string \<Rightarrow> signer_type \<Rightarrow> string \<Rightarrow> string res" where
  "wrap_deposit_wallet_signature lib signer signer_type signature =
     (if signer_type = OWNER then Ok signature
      else bindE (to_checksum_address lib signer) (\<lambda>address.
        wrap_deposit_wallet_session_signer_signature lib address signature))"

text \<open>
  What the wallet contract reads: the magic suffix tells the wrapped form, the words before it hold the
  session signer and its signature.
\<close>

definition unwrap_session_signature :: "eth_library \<Rightarrow> string \<Rightarrow> (byte list \<times> byte list) option" where
  "unwrap_session_signature lib signature =
     (case hex_bytes signature of
        Inl e \<Rightarrow> None
      | Inr raw \<Rightarrow>
          let n = length raw - 32 in
          if length raw < 32 \<or> drop n raw \<noteq> SESSION_SIGNER_MAGIC_BYTES then None
          else case abi_decode lib [''bytes32'', ''bytes32'', ''bytes''] (take n raw) of
              Inr [AbiBytes signer_id, AbiBytes z, AbiBytes inner] \<Rightarrow>
                if z = ZERO_BYTES32 then Some (drop 12 signer_id, inner) else None
            | _ \<Rightarrow> None)"

section \<open>Lemmas\<close>

lemma length_magic [simp]: "length SESSION_SIGNER_MAGIC_BYTES = 32"
  by code_simp

lemma hex_bytes_hex_text [simp]: "hex_bytes (hex_text bs) = Ok bs"
  by (simp add: hex_bytes_def hex_text_def strip_0x_def starts_with_iff)

lemma wrapped_session_signature:
  assumes lib: "decodes_abi lib"
    and wrapped: "wrap_deposit_wallet_session_signer_signature lib session_signer signature = Ok s"
    and signer: "hex_bytes session_signer = Ok a" "length a = 20"
  shows "\<exists>b. hex_bytes signature = Ok b \<and> unwrap_session_signature lib s = Some (a, b)"
proof -
  from wrapped signer obtain b payload where parts: "hex_bytes signature = Ok b"
    "abi_encode lib [''bytes32'', ''bytes32'', ''bytes''] [AbiBytes (rjust32 a), AbiBytes ZERO_BYTES32, AbiBytes b] = Ok payload"
    "s = hex_text (payload @ SESSION_SIGNER_MAGIC_BYTES)"
    by (auto simp: wrap_deposit_wallet_session_signer_signature_def)
  have "abi_decode lib [''bytes32'', ''bytes32'', ''bytes''] payload
      = Ok [AbiBytes (rjust32 a), AbiBytes ZERO_BYTES32, AbiBytes b]"
    using lib parts(2) by (simp add: decodes_abi_def)
  moreover have "drop 12 (rjust32 a) = a" using signer(2) by (simp add: rjust32_def)
  ultimately have "unwrap_session_signature lib s = Some (a, b)"
    by (simp add: unwrap_session_signature_def parts(3) Let_def)
  then show ?thesis using parts(1) by simp
qed

end
