(* ===== verification/Approvals.thy ===== *)
theory Approvals imports Wallets begin

text \<open>
  \<open>relayer/approvals.py\<close> with \<open>models/trading.py\<close> and \<open>data_envelope.py\<close>: the approvals that trading needs,
  which of them a wallet still has to grant, read from the chain or from the indexer, and the calls that
  grant them.
\<close>

section \<open>Required approvals\<close>

record erc20_trading_approval =
  e20_token_address :: string
  e20_spender :: string
  e20_amount :: int

record erc1155_trading_approval =
  e1155_token_address :: string
  e1155_operator :: string

record missing_trading_approvals =
  mta_erc20 :: "erc20_trading_approval list"
  mta_erc1155 :: "erc1155_trading_approval list"

record trading_approvals_state =
  tas_missing :: missing_trading_approvals
  tas_is_fully_approved :: bool

definition approvals_state ::
  "erc20_trading_approval list \<Rightarrow> erc1155_trading_approval list \<Rightarrow> trading_approvals_state" where
  "approvals_state missing_erc20 missing_erc1155 =
     \<lparr>tas_missing = \<lparr>mta_erc20 = missing_erc20, mta_erc1155 = missing_erc1155\<rparr>,
      tas_is_fully_approved = (missing_erc20 = [] \<and> missing_erc1155 = [])\<rparr>"

definition required_erc20 :: "environment_config \<Rightarrow> erc20_trading_approval list" where
  "required_erc20 config =
     map (\<lambda>spender. \<lparr>e20_token_address = collateral_token config, e20_spender = spender, e20_amount = uint256_max\<rparr>)
       [standard_exchange config, neg_risk_exchange config, collateral_adapter config,
        neg_risk_collateral_adapter config, protocol_v2_router config, exchange_v3 config,
        perps_deposit_contract config]"

definition required_erc1155 :: "environment_config \<Rightarrow> erc1155_trading_approval list" where
  "required_erc1155 config =
     map (\<lambda>operator. \<lparr>e1155_token_address = conditional_tokens config, e1155_operator = operator\<rparr>)
       [standard_exchange config, neg_risk_exchange config, collateral_adapter config,
        neg_risk_collateral_adapter config, auto_redeem_operator config, binary_module config,
        neg_risk_module config]
   @ map (\<lambda>operator. \<lparr>e1155_token_address = position_manager config, e1155_operator = operator\<rparr>)
       [protocol_v2_router config, exchange_v3 config, auto_redeem_operator config]"

section \<open>Reading the chain\<close>

definition build_approval_checks ::
  "eth_library \<Rightarrow> string \<Rightarrow> erc20_trading_approval list \<Rightarrow> erc1155_trading_approval list \<Rightarrow>
     (transaction_call list \<times> transaction_call list) res" where
  "build_approval_checks lib wallet erc20 erc1155 =
     bindE (traverseE (\<lambda>a. erc20_allowance_call lib (e20_token_address a) wallet (e20_spender a)) erc20) (\<lambda>checks20.
     bindE (traverseE (\<lambda>a. erc1155_is_approved_for_all_call lib (e1155_token_address a) wallet (e1155_operator a)) erc1155)
       (\<lambda>checks1155. Ok (checks20, checks1155)))"

text \<open>\<open>tuple(x for x, y in zip(xs, ys, strict=True) if f(x, y))\<close>\<close>

fun filter_zip :: "('a \<Rightarrow> 'b \<Rightarrow> bool res) \<Rightarrow> 'a list \<Rightarrow> 'b list \<Rightarrow> 'a list res" where
  "filter_zip f [] [] = Ok []"
| "filter_zip f (x # xs) (y # ys) =
     bindE (f x y) (\<lambda>b. bindE (filter_zip f xs ys) (\<lambda>rest. Ok (if b then x # rest else rest)))"
| "filter_zip f _ _ = Raise ValueError"

definition parse_trading_approvals_state ::
  "eth_library \<Rightarrow> erc20_trading_approval list \<Rightarrow> erc1155_trading_approval list \<Rightarrow> string list \<Rightarrow>
     trading_approvals_state res" where
  "parse_trading_approvals_state lib erc20 erc1155 results =
     bindE (filter_zip (\<lambda>approval result. map_ok (\<lambda>n. n < e20_amount approval) (decode_erc20_allowance_result lib result))
              erc20 (take (length erc20) results)) (\<lambda>missing_erc20.
     bindE (filter_zip (\<lambda>approval result. map_ok Not (decode_erc1155_is_approved_for_all_result lib result))
              erc1155 (drop (length erc20) results)) (\<lambda>missing_erc1155.
     Ok (approvals_state missing_erc20 missing_erc1155)))"

definition get_trading_approvals_state ::
  "eth_library \<Rightarrow> 'w post_json \<Rightarrow> string \<Rightarrow> environment_config \<Rightarrow> ('w, trading_approvals_state) rpc" where
  "get_trading_approvals_state lib post wallet config =
     bindS (liftS (checksum_or_input_error lib wallet)) (\<lambda>wallet_address.
     bindS (liftS (build_approval_checks lib wallet_address (required_erc20 config) (required_erc1155 config)))
       (\<lambda>(checks20, checks1155).
     bindS (eth_call_batch post (map (\<lambda>check. (tc_to check, tc_data check)) (checks20 @ checks1155)) ''latest'') (\<lambda>results.
     liftS (parse_trading_approvals_state lib (required_erc20 config) (required_erc1155 config) results))))"

definition build_missing_trading_approval_calls ::
  "eth_library \<Rightarrow> missing_trading_approvals \<Rightarrow> transaction_call list res" where
  "build_missing_trading_approval_calls lib missing =
     bindE (traverseE (\<lambda>a. erc20_approval_call lib (e20_token_address a) (e20_spender a) (PInt (e20_amount a)))
              (mta_erc20 missing)) (\<lambda>erc20_calls.
     bindE (traverseE (\<lambda>a. erc1155_set_approval_for_all_call lib (e1155_token_address a) (e1155_operator a) True)
              (mta_erc1155 missing)) (\<lambda>erc1155_calls.
     Ok (erc20_calls @ erc1155_calls)))"

section \<open>Reading the indexer\<close>

definition parse_data_envelope :: "(pyval \<Rightarrow> 'a res) \<Rightarrow> pyval \<Rightarrow> 'a res" where
  "parse_data_envelope parse payload =
     (case payload of
        PDict d \<Rightarrow> (case map_of d ''data'' of None \<Rightarrow> Raise UnexpectedResponseError | Some data \<Rightarrow> parse data)
      | _ \<Rightarrow> Raise UnexpectedResponseError)"

definition parse_approval_amount :: "pyval \<Rightarrow> int res" where
  "parse_approval_amount value =
     (case value of
        PStr s \<Rightarrow>
          if s = ''max'' then Ok uint256_max
          else if s = [] \<or> \<not> list_all is_digit s \<or> 78 < length s \<or> (1 < length s \<and> hd s = CHR ''0'')
          then Raise UnexpectedResponseError
          else (case py_int s 10 of
              None \<Rightarrow> Raise ValueError
            | Some amount \<Rightarrow> if uint256_max < amount then Raise UnexpectedResponseError else Ok amount)
      | _ \<Rightarrow> Raise UnexpectedResponseError)"

type_synonym approval_pair = "string \<times> string"

text \<open>A row of the index: its standard, whether it is approved, and the amount of an ERC20 row.\<close>

record indexed_row =
  ix_standard :: string
  ix_approved :: bool
  ix_amount :: "int option"

definition required_pairs ::
  "erc20_trading_approval list \<Rightarrow> erc1155_trading_approval list \<Rightarrow> approval_pair list" where
  "required_pairs erc20 erc1155 =
     map (\<lambda>a. (lower (e20_token_address a), lower (e20_spender a))) erc20
     @ map (\<lambda>a. (lower (e1155_token_address a), lower (e1155_operator a))) erc1155"

definition index_row ::
  "eth_library \<Rightarrow> approval_pair list \<Rightarrow> pyval \<Rightarrow> (approval_pair, indexed_row) dict \<Rightarrow>
     (approval_pair, indexed_row) dict res" where
  "index_row lib required raw indexed =
     (case raw of
        PDict row \<Rightarrow>
          (case (dict_get ''token'' row, dict_get ''spender'' row) of
             (PStr token, PStr spender) \<Rightarrow>
               let pair = (lower token, lower spender) in
               if pair \<notin> set required then Ok indexed
               else if \<not> is_hex_address lib token \<or> \<not> is_hex_address lib spender then Raise UnexpectedResponseError
               else (case (dict_get ''standard'' row, dict_get ''approved'' row) of
                   (PStr standard, PBool approved) \<Rightarrow>
                     if standard \<notin> {''ERC20'', ''ERC1155''} then Raise UnexpectedResponseError
                     else
                       bindE (if standard = ''ERC20''
                              then map_ok Some (parse_approval_amount (dict_get ''amount'' row)) else Ok None) (\<lambda>amount.
                       if map_of indexed pair \<noteq> None then Raise UnexpectedResponseError
                       else Ok (dict_set pair
                          \<lparr>ix_standard = standard, ix_approved = approved, ix_amount = amount\<rparr> indexed))
                 | _ \<Rightarrow> Raise UnexpectedResponseError)
           | _ \<Rightarrow> Ok indexed)
      | _ \<Rightarrow> Raise UnexpectedResponseError)"

fun index_rows ::
  "eth_library \<Rightarrow> approval_pair list \<Rightarrow> pyval list \<Rightarrow> (approval_pair, indexed_row) dict \<Rightarrow>
     (approval_pair, indexed_row) dict res" where
  "index_rows lib required [] indexed = Ok indexed"
| "index_rows lib required (raw # raws) indexed =
     bindE (index_row lib required raw indexed) (index_rows lib required raws)"

definition indexed_erc20_missing ::
  "(approval_pair, indexed_row) dict \<Rightarrow> erc20_trading_approval \<Rightarrow> bool res" where
  "indexed_erc20_missing indexed a =
     (case map_of indexed (lower (e20_token_address a), lower (e20_spender a)) of
        None \<Rightarrow> Raise UnexpectedResponseError
      | Some row \<Rightarrow>
          (case ix_amount row of
             None \<Rightarrow> Raise UnexpectedResponseError
           | Some amount \<Rightarrow>
               if ix_standard row \<noteq> ''ERC20'' then Raise UnexpectedResponseError
               else Ok (\<not> ix_approved row \<or> amount < e20_amount a)))"

definition indexed_erc1155_missing ::
  "(approval_pair, indexed_row) dict \<Rightarrow> erc1155_trading_approval \<Rightarrow> bool res" where
  "indexed_erc1155_missing indexed a =
     (case map_of indexed (lower (e1155_token_address a), lower (e1155_operator a)) of
        None \<Rightarrow> Raise UnexpectedResponseError
      | Some row \<Rightarrow>
          if ix_standard row \<noteq> ''ERC1155'' then Raise UnexpectedResponseError else Ok (\<not> ix_approved row))"

fun filterE :: "('a \<Rightarrow> bool res) \<Rightarrow> 'a list \<Rightarrow> 'a list res" where
  "filterE f [] = Ok []"
| "filterE f (x # xs) = bindE (f x) (\<lambda>b. bindE (filterE f xs) (\<lambda>rest. Ok (if b then x # rest else rest)))"

definition parse_indexed_trading_approvals ::
  "eth_library \<Rightarrow> string \<Rightarrow> environment_config \<Rightarrow> pyval \<Rightarrow> trading_approvals_state res" where
  "parse_indexed_trading_approvals lib wallet config payload =
     (case payload of
        PDict data \<Rightarrow>
          (case dict_get ''address'' data of
             PStr owner \<Rightarrow>
               if lower owner \<noteq> lower wallet then Raise UnexpectedResponseError
               else if dict_get ''chain_id'' data \<noteq> PInt (chain_id config) then Raise UnexpectedResponseError
               else (case dict_get ''contracts'' data of
                   PList contracts \<Rightarrow>
                     bindE (index_rows lib (required_pairs (required_erc20 config) (required_erc1155 config)) contracts [])
                       (\<lambda>indexed.
                     bindE (filterE (indexed_erc20_missing indexed) (required_erc20 config)) (\<lambda>missing_erc20.
                     bindE (filterE (indexed_erc1155_missing indexed) (required_erc1155 config)) (\<lambda>missing_erc1155.
                     Ok (approvals_state missing_erc20 missing_erc1155))))
                 | _ \<Rightarrow> Raise UnexpectedResponseError)
           | _ \<Rightarrow> Raise UnexpectedResponseError)
      | _ \<Rightarrow> Raise UnexpectedResponseError)"

definition build_get_trading_approvals_state_spec ::
  "eth_library \<Rightarrow> string \<Rightarrow> environment_config \<Rightarrow>
     (string \<times> (string \<times> pyval) list \<times> (pyval \<Rightarrow> trading_approvals_state res)) res" where
  "build_get_trading_approvals_state_spec lib wallet config =
     map_ok (\<lambda>wallet_address. (''/v2/approvals'', [(''user'', PStr wallet_address)],
         parse_data_envelope (parse_indexed_trading_approvals lib wallet_address config)))
       (checksum_or_input_error lib wallet)"

section \<open>The token contracts\<close>

text \<open>
  What the contracts keep, by canonical addresses, how they answer the two reads, and what the two
  grants do when the owner sends them.
\<close>

record token_state =
  ts_allowance :: "string \<Rightarrow> string \<Rightarrow> string \<Rightarrow> int"
  ts_approved :: "string \<Rightarrow> string \<Rightarrow> string \<Rightarrow> bool"

definition call_arguments :: "eth_library \<Rightarrow> string list \<Rightarrow> byte list \<Rightarrow> abi_value list" where
  "call_arguments lib types raw = (case abi_decode lib types (drop 4 raw) of Inl e \<Rightarrow> [] | Inr vs \<Rightarrow> vs)"

definition encoded_answer :: "eth_library \<Rightarrow> string \<Rightarrow> abi_value \<Rightarrow> string" where
  "encoded_answer lib t v = (case abi_encode lib [t] [v] of Inl e \<Rightarrow> ''0x'' | Inr bs \<Rightarrow> hex_text bs)"

definition contract_answer :: "eth_library \<Rightarrow> token_state \<Rightarrow> node_answers" where
  "contract_answer lib ts block request =
     (let token = canonical_address (fst request) in
      case decode_hex lib (snd request) of
        Inl e \<Rightarrow> ''0x''
      | Inr raw \<Rightarrow>
          (case call_arguments lib [''address'', ''address''] raw of
             [AbiAddress owner, AbiAddress other] \<Rightarrow>
               if take 4 raw = selector lib ''allowance(address,address)'' then
                 encoded_answer lib ''uint256'' (AbiUint (ts_allowance ts token owner other))
               else if take 4 raw = selector lib ''isApprovedForAll(address,address)'' then
                 encoded_answer lib ''bool'' (AbiBool (ts_approved ts token owner other))
               else ''0x''
           | _ \<Rightarrow> ''0x''))"

definition upd3 :: "('a \<Rightarrow> 'b \<Rightarrow> 'c \<Rightarrow> 'd) \<Rightarrow> 'a \<Rightarrow> 'b \<Rightarrow> 'c \<Rightarrow> 'd \<Rightarrow> 'a \<Rightarrow> 'b \<Rightarrow> 'c \<Rightarrow> 'd" where
  "upd3 f a b c v = (\<lambda>a' b' c'. if a' = a \<and> b' = b \<and> c' = c then v else f a' b' c')"

definition execute_grant :: "eth_library \<Rightarrow> string \<Rightarrow> transaction_call \<Rightarrow> token_state \<Rightarrow> token_state" where
  "execute_grant lib sender call ts =
     (let token = canonical_address (tc_to call); owner = canonical_address sender in
      case decode_hex lib (tc_data call) of
        Inl e \<Rightarrow> ts
      | Inr raw \<Rightarrow>
          if take 4 raw = selector lib ''approve(address,uint256)'' then
            (case call_arguments lib [''address'', ''uint256''] raw of
               [AbiAddress spender, AbiUint n] \<Rightarrow>
                 ts\<lparr>ts_allowance := upd3 (ts_allowance ts) token owner spender n\<rparr>
             | _ \<Rightarrow> ts)
          else if take 4 raw = selector lib ''setApprovalForAll(address,bool)'' then
            (case call_arguments lib [''address'', ''bool''] raw of
               [AbiAddress operator, AbiBool b] \<Rightarrow>
                 ts\<lparr>ts_approved := upd3 (ts_approved ts) token owner operator b\<rparr>
             | _ \<Rightarrow> ts)
          else ts)"

definition execute_grants :: "eth_library \<Rightarrow> string \<Rightarrow> transaction_call list \<Rightarrow> token_state \<Rightarrow> token_state" where
  "execute_grants lib sender calls ts = fold (execute_grant lib sender) calls ts"

text \<open>The approvals of a list that a wallet has not granted.\<close>

definition ungranted_erc20 :: "token_state \<Rightarrow> string \<Rightarrow> erc20_trading_approval \<Rightarrow> bool" where
  "ungranted_erc20 ts wallet a \<longleftrightarrow>
     ts_allowance ts (canonical_address (e20_token_address a)) (canonical_address wallet)
       (canonical_address (e20_spender a)) < e20_amount a"

definition ungranted_erc1155 :: "token_state \<Rightarrow> string \<Rightarrow> erc1155_trading_approval \<Rightarrow> bool" where
  "ungranted_erc1155 ts wallet a \<longleftrightarrow>
     \<not> ts_approved ts (canonical_address (e1155_token_address a)) (canonical_address wallet)
         (canonical_address (e1155_operator a))"

text \<open>What is relied on: the library inverts itself, and the selectors are four bytes and differ.\<close>

definition library_ok :: "eth_library \<Rightarrow> bool" where
  "library_ok lib \<longleftrightarrow> decodes_hex lib \<and> decodes_abi lib
     \<and> (\<forall>n. 0 \<le> n \<longrightarrow> n \<le> uint256_max \<longrightarrow> is_ok (abi_encode lib [''uint256''] [AbiUint n]))
     \<and> (\<forall>b. is_ok (abi_encode lib [''bool''] [AbiBool b]))
     \<and> (\<forall>bs. length (keccak lib bs) = 32)
     \<and> selector lib ''allowance(address,address)'' \<noteq> selector lib ''isApprovedForAll(address,address)''
     \<and> selector lib ''approve(address,uint256)'' \<noteq> selector lib ''setApprovalForAll(address,bool)''"

definition allowances_ok :: "token_state \<Rightarrow> bool" where
  "allowances_ok ts \<longleftrightarrow> (\<forall>t w s. 0 \<le> ts_allowance ts t w s \<and> ts_allowance ts t w s \<le> uint256_max)"

section \<open>Reads\<close>

lemma contract_call_data:
  assumes "library_ok lib" "contract_call lib to signature types values = Ok call"
  obtains raw where "decode_hex lib (tc_data call) = Ok raw" "take 4 raw = selector lib signature"
    "call_arguments lib types raw = map canonical_value values" "tc_to call = to"
proof -
  obtain enc where enc: "abi_encode lib types values = Ok enc"
    "call = \<lparr>tc_to = to, tc_data = hex_text (selector lib signature @ enc), tc_value = 0\<rparr>"
    using assms(2) by (auto simp: contract_call_def)
  have len: "length (selector lib signature) = 4" using assms(1) by (simp add: selector_def library_ok_def)
  have parts: "take 4 (selector lib signature @ enc) = selector lib signature"
    "drop 4 (selector lib signature @ enc) = enc" unfolding take_append drop_append len by (simp_all add: len)
  have dec: "abi_decode lib types enc = Ok (map canonical_value values)"
    using assms(1) enc(1) by (simp add: library_ok_def decodes_abi_def)
  have "decode_hex lib (tc_data call) = Ok (selector lib signature @ enc)"
    using assms(1) enc(2) by (simp add: library_ok_def decodes_hex_def)
  moreover have "call_arguments lib types (selector lib signature @ enc) = map canonical_value values"
    unfolding call_arguments_def parts(2) dec by simp
  ultimately show ?thesis using enc(2) parts(1) that by simp
qed

lemma encoded_answer_decodes:
  assumes "library_ok lib" "is_ok (abi_encode lib [t] [v])" "canonical_value v = v"
  shows "decode_return_data lib (encoded_answer lib t v) t = Ok v"
  using assms by (auto simp: is_ok_iff encoded_answer_def decode_return_data_def library_ok_def decodes_hex_def
      decodes_abi_def)

lemma read_allowance:
  assumes "library_ok lib" "allowances_ok ts"
    and "erc20_allowance_call lib token wallet spender = Ok call"
  shows "decode_erc20_allowance_result lib (contract_answer lib ts block (tc_to call, tc_data call))
    = Ok (ts_allowance ts (canonical_address token) (canonical_address wallet) (canonical_address spender))"
proof -
  obtain raw where "decode_hex lib (tc_data call) = Ok raw" "take 4 raw = selector lib ''allowance(address,address)''"
    "call_arguments lib [''address'', ''address''] raw = map canonical_value [AbiAddress wallet, AbiAddress spender]"
    "tc_to call = token"
    using contract_call_data [OF assms(1) assms(3) [unfolded erc20_allowance_call_def]] .
  then have "contract_answer lib ts block (tc_to call, tc_data call) = encoded_answer lib ''uint256''
      (AbiUint (ts_allowance ts (canonical_address token) (canonical_address wallet) (canonical_address spender)))"
    by (simp add: contract_answer_def Let_def)
  then show ?thesis using assms(1,2) encoded_answer_decodes [OF assms(1), of "''uint256''"]
    by (simp add: decode_erc20_allowance_result_def expect_uint_def library_ok_def allowances_ok_def del: bindE_eq_Inr)
qed

lemma read_approved:
  assumes "library_ok lib"
    and "erc1155_is_approved_for_all_call lib token wallet operator = Ok call"
  shows "decode_erc1155_is_approved_for_all_result lib (contract_answer lib ts block (tc_to call, tc_data call))
    = Ok (ts_approved ts (canonical_address token) (canonical_address wallet) (canonical_address operator))"
proof -
  obtain raw where "decode_hex lib (tc_data call) = Ok raw" "take 4 raw = selector lib ''isApprovedForAll(address,address)''"
    "call_arguments lib [''address'', ''address''] raw = map canonical_value [AbiAddress wallet, AbiAddress operator]"
    "tc_to call = token"
    using contract_call_data [OF assms(1) assms(2) [unfolded erc1155_is_approved_for_all_call_def]] .
  moreover have "selector lib ''isApprovedForAll(address,address)'' \<noteq> selector lib ''allowance(address,address)''"
    using assms(1) by (auto simp: library_ok_def)
  ultimately have "contract_answer lib ts block (tc_to call, tc_data call) = encoded_answer lib ''bool''
      (AbiBool (ts_approved ts (canonical_address token) (canonical_address wallet) (canonical_address operator)))"
    by (simp add: contract_answer_def Let_def)
  then show ?thesis using assms(1) encoded_answer_decodes [OF assms(1), of "''bool''"]
    by (simp add: decode_erc1155_is_approved_for_all_result_def library_ok_def del: bindE_eq_Inr)
qed

lemma filter_zip_read:
  assumes "traverseE mk xs = Ok checks" "\<And>x check. mk x = Ok check \<Longrightarrow> f x (g check) = Ok (p x)"
  shows "filter_zip f xs (map g checks) = Ok (filter p xs)"
  using assms(1) unfolding traverseE_all2
  by (induction rule: list_all2_induct) (simp_all add: assms(2))

lemma parse_approvals_read:
  assumes lib: "library_ok lib" "allowances_ok ts"
    and checks: "build_approval_checks lib w (required_erc20 config) (required_erc1155 config) = Ok (checks20, checks1155)"
  shows "parse_trading_approvals_state lib (required_erc20 config) (required_erc1155 config)
      (map (contract_answer lib ts block) (map (\<lambda>check. (tc_to check, tc_data check)) (checks20 @ checks1155)))
    = Ok (approvals_state (filter (ungranted_erc20 ts w) (required_erc20 config))
        (filter (ungranted_erc1155 ts w) (required_erc1155 config)))"
proof -
  let ?answer = "\<lambda>check. contract_answer lib ts block (tc_to check, tc_data check)"
  from checks have
    c20: "traverseE (\<lambda>a. erc20_allowance_call lib (e20_token_address a) w (e20_spender a)) (required_erc20 config) = Ok checks20"
    and c1155: "traverseE (\<lambda>a. erc1155_is_approved_for_all_call lib (e1155_token_address a) w (e1155_operator a))
        (required_erc1155 config) = Ok checks1155"
    by (auto simp: build_approval_checks_def)
  have len: "length checks20 = length (required_erc20 config)" using traverseE_length [OF c20] .
  have m20: "filter_zip (\<lambda>approval result. map_ok (\<lambda>n. n < e20_amount approval) (decode_erc20_allowance_result lib result))
      (required_erc20 config) (map ?answer checks20) = Ok (filter (ungranted_erc20 ts w) (required_erc20 config))"
    by (rule filter_zip_read [OF c20]) (simp add: read_allowance [OF lib] ungranted_erc20_def del: map_ok_eq_Inr)
  have m1155: "filter_zip (\<lambda>approval result. map_ok Not (decode_erc1155_is_approved_for_all_result lib result))
      (required_erc1155 config) (map ?answer checks1155) = Ok (filter (ungranted_erc1155 ts w) (required_erc1155 config))"
    by (rule filter_zip_read [OF c1155]) (simp add: read_approved [OF lib(1)] ungranted_erc1155_def del: map_ok_eq_Inr)
  show ?thesis using m20 m1155 by (simp add: parse_trading_approvals_state_def comp_def flip: len)
qed

lemma approvals_read:
  assumes lib: "library_ok lib" "allowances_ok ts"
    and node: "honest_node (contract_answer lib ts) post"
    and read: "get_trading_approvals_state lib post wallet config c = (Ok state, c')"
  obtains w where "to_checksum_address lib wallet = Ok w"
    "state = approvals_state (filter (ungranted_erc20 ts w) (required_erc20 config))
       (filter (ungranted_erc1155 ts w) (required_erc1155 config))"
proof -
  from read obtain w checks20 checks1155 results where
    w: "checksum_or_input_error lib wallet = Ok w"
    and checks: "build_approval_checks lib w (required_erc20 config) (required_erc1155 config) = Ok (checks20, checks1155)"
    and results: "eth_call_batch post (map (\<lambda>check. (tc_to check, tc_data check)) (checks20 @ checks1155)) ''latest'' c
        = (Ok results, c')"
    and parsed: "parse_trading_approvals_state lib (required_erc20 config) (required_erc1155 config) results = Ok state"
    unfolding get_trading_approvals_state_def by (auto simp: bindS_eq_Ok split: prod.splits)
  have "state = approvals_state (filter (ungranted_erc20 ts w) (required_erc20 config))
       (filter (ungranted_erc1155 ts w) (required_erc1155 config))"
    using parsed parse_approvals_read [OF lib checks, of "''latest''"] honest_eth_call_batch [OF node results] by simp
  moreover have "to_checksum_address lib wallet = Ok w"
    using w by (auto simp: checksum_or_input_error_def split: sum.splits py_error.splits)
  ultimately show ?thesis by (rule that [rotated])
qed

lemma list_all_bytes_hex: "list_all is_hex_digit (bytes_hex bs)"
  by (induction bs) (simp_all add: hex_byte_def list_all_hex_fixed)

lemma contract_answer_hex: "is_rpc_hex_string (contract_answer lib ts block request)"
proof -
  have hex: "is_rpc_hex_string (hex_text bs)" for bs
    by (simp add: is_rpc_hex_string_def hex_text_def starts_with_iff list_all_bytes_hex)
  then have "is_rpc_hex_string (encoded_answer lib t v)" for t v
    by (auto simp: encoded_answer_def is_rpc_hex_string_def starts_with_iff split: sum.split)
  then show ?thesis
    by (auto simp: contract_answer_def Let_def is_rpc_hex_string_def starts_with_iff
        split: sum.split list.split abi_value.split)
qed

lemma approvals_readable:
  assumes lib: "library_ok lib" "allowances_ok ts" and node: "node_capacity k (contract_answer lib ts) post"
    and wallet: "to_checksum_address lib wallet = Ok w"
    and checks: "build_approval_checks lib w (required_erc20 config) (required_erc1155 config) = Ok (checks20, checks1155)"
  shows "\<exists>state c'. get_trading_approvals_state lib post wallet config c = (Ok state, c')"
proof -
  let ?requests = "map (\<lambda>check. (tc_to check, tc_data check)) (checks20 @ checks1155)"
  obtain c' where "eth_call_batch post ?requests ''latest'' c
      = (Ok (map (contract_answer lib ts ''latest'') ?requests), c')"
    using served_split [OF node contract_answer_hex, where requests = ?requests and block = "''latest''" and c = c]
    by (cases "?requests = []") (auto simp: eth_call_batch_def)
  then show ?thesis using parse_approvals_read [OF lib checks, of "''latest''"] wallet checks
    by (simp add: get_trading_approvals_state_def bindS_app checksum_or_input_error_def)
qed

section \<open>Grants\<close>

lemma execute_approve:
  assumes "library_ok lib" "erc20_approval_call lib token spender (PInt n) = Ok call"
  shows "execute_grant lib wallet call ts = ts\<lparr>ts_allowance :=
    upd3 (ts_allowance ts) (canonical_address token) (canonical_address wallet) (canonical_address spender) n\<rparr>"
proof -
  have c: "contract_call lib token ''approve(address,uint256)'' [''address'', ''uint256''] [AbiAddress spender, AbiUint n] = Ok call"
    using assms(2) by (auto simp: erc20_approval_call_def expect_uint256_def split: if_splits)
  obtain raw where "decode_hex lib (tc_data call) = Ok raw" "take 4 raw = selector lib ''approve(address,uint256)''"
    "call_arguments lib [''address'', ''uint256''] raw = map canonical_value [AbiAddress spender, AbiUint n]" "tc_to call = token"
    using contract_call_data [OF assms(1) c] .
  then show ?thesis by (simp add: execute_grant_def Let_def)
qed

lemma execute_set_approval:
  assumes "library_ok lib" "erc1155_set_approval_for_all_call lib token operator b = Ok call"
  shows "execute_grant lib wallet call ts = ts\<lparr>ts_approved :=
    upd3 (ts_approved ts) (canonical_address token) (canonical_address wallet) (canonical_address operator) b\<rparr>"
proof -
  obtain raw where "decode_hex lib (tc_data call) = Ok raw" "take 4 raw = selector lib ''setApprovalForAll(address,bool)''"
    "call_arguments lib [''address'', ''bool''] raw = map canonical_value [AbiAddress operator, AbiBool b]" "tc_to call = token"
    using contract_call_data [OF assms(1) assms(2) [unfolded erc1155_set_approval_for_all_call_def]] .
  moreover have "selector lib ''setApprovalForAll(address,bool)'' \<noteq> selector lib ''approve(address,uint256)''"
    using assms(1) by (auto simp: library_ok_def)
  ultimately show ?thesis by (simp add: execute_grant_def Let_def)
qed

text \<open>Granting the missing approvals leaves nothing ungranted that was granted, and grants each of them.\<close>

lemma grant_erc20s:
  assumes lib: "library_ok lib"
  shows "traverseE (\<lambda>a. erc20_approval_call lib (e20_token_address a) (e20_spender a) (PInt (e20_amount a))) as = Ok calls \<Longrightarrow>
    \<forall>a\<in>set as. e20_amount a = uint256_max \<Longrightarrow> allowances_ok ts \<Longrightarrow>
    let ts' = execute_grants lib w calls ts in
      allowances_ok ts' \<and> ts_approved ts' = ts_approved ts
    \<and> (\<forall>a. e20_amount a = uint256_max \<longrightarrow> \<not> ungranted_erc20 ts w a \<longrightarrow> \<not> ungranted_erc20 ts' w a)
    \<and> (\<forall>a\<in>set as. \<not> ungranted_erc20 ts' w a)"
proof (induction as arbitrary: calls ts)
  case Nil
  then show ?case by (simp add: execute_grants_def)
next
  case (Cons a as)
  then obtain c cs where c: "erc20_approval_call lib (e20_token_address a) (e20_spender a) (PInt (e20_amount a)) = Ok c"
    "traverseE (\<lambda>a. erc20_approval_call lib (e20_token_address a) (e20_spender a) (PInt (e20_amount a))) as = Ok cs"
    "calls = c # cs" by auto
  let ?ts = "execute_grant lib w c ts"
  have ts: "?ts = ts\<lparr>ts_allowance := upd3 (ts_allowance ts) (canonical_address (e20_token_address a)) (canonical_address w)
      (canonical_address (e20_spender a)) uint256_max\<rparr>"
    using execute_approve [OF lib c(1), of w ts] Cons.prems(2) by simp
  have ok: "allowances_ok ?ts" using Cons.prems(3) by (simp add: ts allowances_ok_def upd3_def uint256_max_def)
  have kept: "\<not> ungranted_erc20 ?ts w b" if "e20_amount b = uint256_max" "\<not> ungranted_erc20 ts w b" for b
    using that by (simp add: ts ungranted_erc20_def upd3_def)
  have granted: "\<not> ungranted_erc20 ?ts w a" using Cons.prems(2) by (simp add: ts ungranted_erc20_def upd3_def)
  have "ts_approved ?ts = ts_approved ts" by (simp add: ts)
  with Cons.IH [OF c(2) _ ok] Cons.prems(2) kept granted show ?case
    by (simp add: c(3) execute_grants_def Let_def)
qed

lemma grant_erc1155s:
  assumes lib: "library_ok lib"
  shows "traverseE (\<lambda>a. erc1155_set_approval_for_all_call lib (e1155_token_address a) (e1155_operator a) True) as = Ok calls \<Longrightarrow>
    let ts' = execute_grants lib w calls ts in
      ts_allowance ts' = ts_allowance ts
    \<and> (\<forall>a. \<not> ungranted_erc1155 ts w a \<longrightarrow> \<not> ungranted_erc1155 ts' w a)
    \<and> (\<forall>a\<in>set as. \<not> ungranted_erc1155 ts' w a)"
proof (induction as arbitrary: calls ts)
  case Nil
  then show ?case by (simp add: execute_grants_def)
next
  case (Cons a as)
  then obtain c cs where c: "erc1155_set_approval_for_all_call lib (e1155_token_address a) (e1155_operator a) True = Ok c"
    "traverseE (\<lambda>a. erc1155_set_approval_for_all_call lib (e1155_token_address a) (e1155_operator a) True) as = Ok cs"
    "calls = c # cs" by auto
  let ?ts = "execute_grant lib w c ts"
  have ts: "?ts = ts\<lparr>ts_approved := upd3 (ts_approved ts) (canonical_address (e1155_token_address a)) (canonical_address w)
      (canonical_address (e1155_operator a)) True\<rparr>"
    using execute_set_approval [OF lib c(1), of w ts] .
  have kept: "\<not> ungranted_erc1155 ?ts w b" if "\<not> ungranted_erc1155 ts w b" for b
    using that by (simp add: ts ungranted_erc1155_def upd3_def)
  have granted: "\<not> ungranted_erc1155 ?ts w a" by (simp add: ts ungranted_erc1155_def upd3_def)
  have "ts_allowance ?ts = ts_allowance ts" by (simp add: ts)
  with Cons.IH [OF c(2), of ?ts] kept granted show ?case
    by (simp add: c(3) execute_grants_def Let_def)
qed

lemma execute_grants_append:
  "execute_grants lib w (cs @ ds) ts = execute_grants lib w ds (execute_grants lib w cs ts)"
  by (simp add: execute_grants_def)

lemma required_amount: "a \<in> set (required_erc20 config) \<Longrightarrow> e20_amount a = uint256_max"
  by (auto simp: required_erc20_def)

lemma missing_granted:
  assumes lib: "library_ok lib" "allowances_ok ts"
    and build: "build_missing_trading_approval_calls lib (tas_missing
      (approvals_state (filter (ungranted_erc20 ts w) (required_erc20 config))
         (filter (ungranted_erc1155 ts w) (required_erc1155 config)))) = Ok calls"
  defines "ts' \<equiv> execute_grants lib w calls ts"
  shows "allowances_ok ts' \<and> (\<forall>a\<in>set (required_erc20 config). \<not> ungranted_erc20 ts' w a)
    \<and> (\<forall>a\<in>set (required_erc1155 config). \<not> ungranted_erc1155 ts' w a)"
proof -
  from build obtain c20 c1155 where
    c: "traverseE (\<lambda>a. erc20_approval_call lib (e20_token_address a) (e20_spender a) (PInt (e20_amount a)))
        (filter (ungranted_erc20 ts w) (required_erc20 config)) = Ok c20"
      "traverseE (\<lambda>a. erc1155_set_approval_for_all_call lib (e1155_token_address a) (e1155_operator a) True)
        (filter (ungranted_erc1155 ts w) (required_erc1155 config)) = Ok c1155" "calls = c20 @ c1155"
    by (auto simp: build_missing_trading_approval_calls_def approvals_state_def)
  let ?mid = "execute_grants lib w c20 ts"
  have mid: "allowances_ok ?mid" "ts_approved ?mid = ts_approved ts"
    "\<forall>a. e20_amount a = uint256_max \<longrightarrow> \<not> ungranted_erc20 ts w a \<longrightarrow> \<not> ungranted_erc20 ?mid w a"
    "\<forall>a\<in>set (filter (ungranted_erc20 ts w) (required_erc20 config)). \<not> ungranted_erc20 ?mid w a"
    using grant_erc20s [OF lib(1) c(1) _ lib(2), of w] required_amount [of _ config] by (auto simp: Let_def)
  have final: "ts_allowance ts' = ts_allowance ?mid"
    "\<forall>a. \<not> ungranted_erc1155 ?mid w a \<longrightarrow> \<not> ungranted_erc1155 ts' w a"
    "\<forall>a\<in>set (filter (ungranted_erc1155 ts w) (required_erc1155 config)). \<not> ungranted_erc1155 ts' w a"
    using grant_erc1155s [OF lib(1) c(2), of w ?mid] by (auto simp: ts'_def c(3) execute_grants_append Let_def)
  have "\<not> ungranted_erc20 ts' w a" if "a \<in> set (required_erc20 config)" for a
    using mid(3,4) required_amount [OF that] that by (cases "ungranted_erc20 ts w a") (auto simp: ungranted_erc20_def final(1))
  moreover have "\<not> ungranted_erc1155 ts' w a" if "a \<in> set (required_erc1155 config)" for a
    using final(2,3) mid(2) that by (cases "ungranted_erc1155 ts w a") (auto simp: ungranted_erc1155_def)
  moreover have "allowances_ok ts'" using mid(1) final(1) by (simp add: allowances_ok_def)
  ultimately show ?thesis by blast
qed

end
