(* ===== verification/Positions.thy ===== *)
theory Positions imports Calls "HOL-Library.Multiset" begin

text \<open>
  \<open>relayer/positions.py\<close>: the contracts of a market's positions, amounts that can be merged, and the
  canonical form of the legs of a combination with the ids derived from it.
\<close>

section \<open>Markets and positions\<close>

record market_outcome =
  mo_position_id :: "string option"
  mo_token_id :: "string option"

record position_market =
  pm_id :: string
  pm_condition_id :: "string option"
  pm_version :: "string option"
  pm_yes :: market_outcome
  pm_no :: market_outcome
  pm_neg_risk :: "bool option"

record held_position =
  hp_condition_id :: string
  hp_outcome_index :: int
  hp_negative_risk :: bool
  hp_current_size :: decimal

type_synonym binary_positions = "held_position option \<times> held_position option"

datatype position_protocol = Ctf | V2_Protocol

record market_position_context =
  mpc_protocol :: position_protocol
  mpc_market_id :: string
  mpc_condition_id :: string
  mpc_position_erc1155_address :: string
  mpc_token_ids :: "string \<times> string"
  mpc_neg_risk :: "bool option"
  mpc_adapter_address :: "string option"

record position_contracts =
  pc_collateral_adapter :: string
  pc_neg_risk_collateral_adapter :: string
  pc_conditional_tokens :: string
  pc_neg_risk_adapter :: string
  pc_position_manager :: string

text \<open>A decimal is integral when cutting its fraction off leaves it equal.\<close>

definition parse_market_id :: "string \<Rightarrow> int res" where
  "parse_market_id market_id =
     (case parse_decimal (strip market_id) of
        None \<Rightarrow> Raise UserInputError
      | Some parsed \<Rightarrow>
          if \<not> is_finite parsed then Raise UserInputError
          else bindE (dint parsed) (\<lambda>n. if deq parsed (dec_of_int n) then Ok n else Raise UserInputError))"

definition normalize_market_position_context ::
  "position_market \<Rightarrow> position_contracts \<Rightarrow> market_position_context res" where
  "normalize_market_position_context market contracts =
     (case (pm_condition_id market, pm_version market) of
        (None, _) \<Rightarrow> Raise UnexpectedResponseError
      | (_, None) \<Rightarrow> Raise UnexpectedResponseError
      | (Some condition_id, Some version) \<Rightarrow>
          if version = ''v2'' then
            (case (mo_position_id (pm_yes market), mo_position_id (pm_no market)) of
               (Some yes, Some no) \<Rightarrow>
                 Ok \<lparr>mpc_protocol = V2_Protocol, mpc_market_id = pm_id market, mpc_condition_id = condition_id,
                     mpc_position_erc1155_address = pc_position_manager contracts, mpc_token_ids = (yes, no),
                     mpc_neg_risk = None, mpc_adapter_address = None\<rparr>
             | _ \<Rightarrow> Raise UnexpectedResponseError)
          else
            (case (mo_token_id (pm_yes market), mo_token_id (pm_no market)) of
               (Some yes, Some no) \<Rightarrow>
                 (case pm_neg_risk market of
                    None \<Rightarrow> Raise UnexpectedResponseError
                  | Some neg_risk \<Rightarrow>
                      Ok \<lparr>mpc_protocol = Ctf, mpc_market_id = pm_id market, mpc_condition_id = condition_id,
                          mpc_position_erc1155_address =
                            (if neg_risk then pc_neg_risk_adapter contracts else pc_conditional_tokens contracts),
                          mpc_token_ids = (yes, no), mpc_neg_risk = Some neg_risk,
                          mpc_adapter_address =
                            Some (if neg_risk then pc_neg_risk_collateral_adapter contracts
                                  else pc_collateral_adapter contracts)\<rparr>)
             | _ \<Rightarrow> Raise UnexpectedResponseError))"

text \<open>The loop over the positions, with the YES and the NO position found so far.\<close>

fun sort_positions :: "held_position list \<Rightarrow> binary_positions \<Rightarrow> binary_positions res" where
  "sort_positions [] found = Ok found"
| "sort_positions (p # ps) (yes, no) =
     (if hp_outcome_index p \<notin> {0, 1} then Raise UnexpectedResponseError
      else if hp_outcome_index p = 0 then
        (if yes \<noteq> None then Raise UnexpectedResponseError else sort_positions ps (Some p, no))
      else (if no \<noteq> None then Raise UnexpectedResponseError else sort_positions ps (yes, Some p)))"

definition expect_binary_positions :: "held_position list \<Rightarrow> binary_positions res" where
  "expect_binary_positions positions =
     (if positions = [] then Raise UserInputError
      else if 2 < length positions then Raise UnexpectedResponseError
      else sort_positions positions (None, None))"

text \<open>The assertion that one of the two is there holds of what \<open>expect_binary_positions\<close> returns.\<close>

definition first_position :: "binary_positions \<Rightarrow> held_position option" where
  "first_position ps = (case ps of (Some p, _) \<Rightarrow> Some p | (None, no) \<Rightarrow> no)"

definition expect_negative_risk_flag :: "binary_positions \<Rightarrow> bool res" where
  "expect_negative_risk_flag positions =
     (case first_position positions of
        None \<Rightarrow> Raise RuntimeError
      | Some first \<Rightarrow>
          (case positions of
             (Some yes, Some no) \<Rightarrow>
               if hp_negative_risk yes \<noteq> hp_negative_risk no then Raise UnexpectedResponseError
               else Ok (hp_negative_risk first)
           | _ \<Rightarrow> Ok (hp_negative_risk first)))"

definition resolve_binary_positions_condition_id :: "binary_positions \<Rightarrow> string res" where
  "resolve_binary_positions_condition_id positions =
     (case first_position positions of None \<Rightarrow> Raise RuntimeError | Some first \<Rightarrow> Ok (hp_condition_id first))"

section \<open>Amounts to merge\<close>

definition to_position_amount :: "held_position option \<Rightarrow> int \<Rightarrow> int res" where
  "to_position_amount position expected_outcome_index =
     (case position of
        None \<Rightarrow> Ok 0
      | Some p \<Rightarrow>
          if hp_outcome_index p \<noteq> expected_outcome_index then Raise UnexpectedResponseError
          else if \<not> is_finite (hp_current_size p) then Raise UnexpectedResponseError
          else
            bindE (dlt (hp_current_size p) (dec_of_int 0)) (\<lambda>negative.
            if negative then Raise UnexpectedResponseError
            else bindE (dmul (hp_current_size p) (dec_of_int 1000000)) dint))"

definition calculate_max_merge_amount :: "binary_positions \<Rightarrow> int res" where
  "calculate_max_merge_amount positions =
     bindE (to_position_amount (fst positions) 0) (\<lambda>yes_amount.
     bindE (to_position_amount (snd positions) 1) (\<lambda>no_amount.
     Ok (min yes_amount no_amount)))"

datatype merge_amount = Max_Amount | Amount int

definition choose_merge_amount :: "int \<Rightarrow> merge_amount \<Rightarrow> int res" where
  "choose_merge_amount max_amount requested =
     (if max_amount = 0 then Raise UserInputError
      else case requested of
          Max_Amount \<Rightarrow> Ok max_amount
        | Amount n \<Rightarrow>
            if n \<le> 0 then Raise UserInputError
            else if max_amount < n then Raise UserInputError
            else Ok n)"

definition resolve_merge_amount :: "binary_positions \<Rightarrow> merge_amount \<Rightarrow> int res" where
  "resolve_merge_amount positions requested =
     bindE (calculate_max_merge_amount positions) (\<lambda>max_amount.
     bindE (resolve_binary_positions_condition_id positions) (\<lambda>condition_id.
     choose_merge_amount max_amount requested))"

definition calculate_max_merge_amount_from_balances :: "int list \<Rightarrow> int res" where
  "calculate_max_merge_amount_from_balances balances =
     (case balances of [yes_amount, no_amount] \<Rightarrow> Ok (min yes_amount no_amount) | _ \<Rightarrow> Raise UnexpectedResponseError)"

definition resolve_merge_amount_from_balances :: "int list \<Rightarrow> merge_amount \<Rightarrow> int res" where
  "resolve_merge_amount_from_balances balances requested =
     bindE (calculate_max_merge_amount_from_balances balances) (\<lambda>max_amount.
     choose_merge_amount max_amount requested)"

datatype merge_target = Combo_Merge string | Condition_Merge string | Market_Merge string

record batch_merge_position_request =
  bm_target :: merge_target
  bm_amount :: merge_amount

definition merge_identifiers :: "(string \<times> pyval) list \<Rightarrow> string list" where
  "merge_identifiers request =
     filter (\<lambda>k. map_of request k \<noteq> None) [''position_id'', ''condition_id'', ''market_id'']"

definition normalize_batch_merge_position_request ::
  "(string \<times> pyval) list \<Rightarrow> batch_merge_position_request res" where
  "normalize_batch_merge_position_request request =
     (case merge_identifiers request of
        [identifier] \<Rightarrow>
          (case dict_get identifier request of
             PStr value \<Rightarrow>
               bindE (case map_of request ''amount'' of
                        None \<Rightarrow> Ok Max_Amount
                      | Some (PStr s) \<Rightarrow> if s = ''max'' then Ok Max_Amount else Raise UserInputError
                      | Some (PInt n) \<Rightarrow> Ok (Amount n)
                      | Some _ \<Rightarrow> Raise UserInputError) (\<lambda>amount.
               Ok \<lparr>bm_target = (if identifier = ''position_id'' then Combo_Merge value
                                else if identifier = ''condition_id'' then Condition_Merge value
                                else Market_Merge value),
                   bm_amount = amount\<rparr>)
           | _ \<Rightarrow> Raise UserInputError)
      | _ \<Rightarrow> Raise UserInputError)"

section \<open>Combinations\<close>

definition COMBINATORIAL_MODULE_ID :: int where "COMBINATORIAL_MODULE_ID = 3"

definition MAX_COMBO_LEGS :: nat where "MAX_COMBO_LEGS = 50"

definition parse_leg_id :: "string \<Rightarrow> int res" where
  "parse_leg_id position_id =
     (if strip position_id = [] then Raise UserInputError
      else case py_int (strip position_id) 10 of
          None \<Rightarrow> Raise UserInputError
        | Some value \<Rightarrow> if value < 0 \<or> uint256_max < value then Raise UserInputError else Ok value)"

definition decode_leg :: "string \<Rightarrow> (int \<times> string) res" where
  "decode_leg leg =
     bindE (parse_leg_id leg) (\<lambda>value.
     let encoded = hex_fixed 64 value in
     case (py_int (take 2 encoded) 16, py_int (drop 62 encoded) 16) of
       (Some module_id, Some outcome_index) \<Rightarrow>
         if module_id \<notin> {1, 2} \<or> 1 < outcome_index then Raise UserInputError
         else Ok (value, take 62 encoded)
     | _ \<Rightarrow> Raise ValueError)"

fun check_neighbours :: "(int \<times> string) list \<Rightarrow> unit res" where
  "check_neighbours (p # q # rest) =
     (if fst p = fst q then Raise UserInputError
      else if snd p = snd q then Raise UserInputError
      else check_neighbours (q # rest))"
| "check_neighbours _ = Ok ()"

definition canonicalize_combo_legs :: "string list \<Rightarrow> int list res" where
  "canonicalize_combo_legs legs =
     (if \<not> (1 \<le> length legs \<and> length legs \<le> MAX_COMBO_LEGS) then Raise UserInputError
      else
        bindE (traverseE decode_leg legs) (\<lambda>positions.
        let positions = sort_key fst positions in
        bindE (check_neighbours positions) (\<lambda>_.
        Ok (map fst positions))))"

definition derive_combo_outcome_position_ids :: "string \<Rightarrow> (string \<times> string) res" where
  "derive_combo_outcome_position_ids condition_id =
     bindE (to_condition_id condition_id) (\<lambda>normalized.
     if length normalized \<noteq> 64 then Raise UserInputError
     else case (py_int (normalized @ ''00'') 16, py_int (normalized @ ''01'') 16) of
         (Some yes, Some no) \<Rightarrow> Ok (str_int yes, str_int no)
       | _ \<Rightarrow> Raise ValueError)"

record combo_position_context =
  cpc_condition_id :: string
  cpc_position_ids :: "string \<times> string"

definition derive_combo_position_context :: "eth_library \<Rightarrow> int list \<Rightarrow> combo_position_context res" where
  "derive_combo_position_context lib legs =
     bindE (abi_encode lib [''uint256[]''] [AbiList (map AbiUint legs)]) (\<lambda>encoded_legs.
     bindE (abi_encode lib [''uint256'', ''bytes''] [AbiUint COMBINATORIAL_MODULE_ID, AbiBytes encoded_legs]) (\<lambda>encoded.
     bindE (to_combo_condition_id (''0x03'' @ drop 32 (bytes_hex (keccak lib encoded)) @ replicate 28 (CHR ''0''))) (\<lambda>condition_id.
     bindE (derive_combo_outcome_position_ids condition_id) (\<lambda>position_ids.
     Ok \<lparr>cpc_condition_id = condition_id, cpc_position_ids = position_ids\<rparr>))))"

section \<open>Canonical legs\<close>

definition leg_ok :: "int \<Rightarrow> bool" where
  "leg_ok v \<longleftrightarrow> v div 2 ^ 248 \<in> {1, 2} \<and> v mod 256 \<in> {0, 1}"

lemma parse_leg_range: "parse_leg_id s = Ok v \<Longrightarrow> 0 \<le> v \<and> v \<le> uint256_max"
  by (auto simp: parse_leg_id_def split: if_splits option.splits)

lemma decode_leg_value:
  assumes "parse_leg_id s = Ok v"
  shows "decode_leg s = (if leg_ok v then Ok (v, hex_fixed 62 (v div 256)) else Raise UserInputError)"
proof -
  have range: "0 \<le> v" "v \<le> uint256_max" using parse_leg_range [OF assms] by simp_all
  have "v mod 256 \<in> {0, 1} \<longleftrightarrow> \<not> 1 < v mod 256"
    using pos_mod_sign [of 256 v] by auto
  then show ?thesis unfolding decode_leg_def assms bindE_Inr Let_def decode_fields [OF range]
    by (simp add: leg_ok_def)
qed

lemma decode_leg_Ok:
  "decode_leg s = Ok p \<longleftrightarrow> (\<exists>v. parse_leg_id s = Ok v \<and> leg_ok v \<and> p = (v, hex_fixed 62 (v div 256)))"
proof (cases "parse_leg_id s")
  case (Inl e)
  then show ?thesis by (simp add: decode_leg_def)
next
  case (Inr v)
  then show ?thesis by (auto simp: decode_leg_value split: if_splits)
qed

lemma decode_legs_Ok:
  "traverseE decode_leg legs = Ok ps \<longleftrightarrow>
     (\<exists>vs. traverseE parse_leg_id legs = Ok vs \<and> (\<forall>v\<in>set vs. leg_ok v)
        \<and> ps = map (\<lambda>v. (v, hex_fixed 62 (v div 256))) vs)"
proof (induction legs arbitrary: ps)
  case (Cons leg legs)
  have "traverseE decode_leg (leg # legs) = Ok ps \<longleftrightarrow>
      (\<exists>p qs. decode_leg leg = Ok p \<and> traverseE decode_leg legs = Ok qs \<and> ps = p # qs)" by auto
  also have "\<dots> \<longleftrightarrow> (\<exists>v vs. parse_leg_id leg = Ok v \<and> leg_ok v \<and> traverseE parse_leg_id legs = Ok vs
      \<and> (\<forall>v\<in>set vs. leg_ok v) \<and> ps = map (\<lambda>v. (v, hex_fixed 62 (v div 256))) (v # vs))"
    unfolding Cons.IH decode_leg_Ok by auto
  also have "\<dots> \<longleftrightarrow> (\<exists>vs. traverseE parse_leg_id (leg # legs) = Ok vs \<and> (\<forall>v\<in>set vs. leg_ok v)
        \<and> ps = map (\<lambda>v. (v, hex_fixed 62 (v div 256))) vs)" by auto
  finally show ?case .
qed auto

lemma hex_fixed_inj:
  assumes "0 \<le> a" "a < 16 ^ w" "0 \<le> b" "b < 16 ^ w" "0 < w" "hex_fixed w a = hex_fixed w b"
  shows "a = b"
proof -
  have "Some (a mod 16 ^ w) = Some (b mod 16 ^ w)"
    using py_int_hex_fixed [OF assms(5), of a] py_int_hex_fixed [OF assms(5), of b] assms(6) by metis
  then show ?thesis
    using mod_pos_pos_trivial [OF assms(1,2)] mod_pos_pos_trivial [OF assms(3,4)] by (metis option.inject)
qed

lemma condition_part_range: "0 \<le> v \<Longrightarrow> v \<le> uint256_max \<Longrightarrow> 0 \<le> v div 256 \<and> v div 256 < 16 ^ 62"
  unfolding uint256_max_def by simp linarith

text \<open>In a sorted list, neighbours with different conditions mean that all conditions differ.\<close>

lemma check_neighbours_sorted:
  assumes "sorted vs" "\<forall>v\<in>set vs. 0 \<le> v \<and> v \<le> uint256_max"
  shows "check_neighbours (map (\<lambda>v. (v, hex_fixed 62 (v div 256))) vs) = Ok () \<longleftrightarrow> distinct (map (\<lambda>v. v div 256) vs)"
  using assms
proof (induction vs)
  case (Cons v vs)
  show ?case
  proof (cases vs)
    case (Cons w rest)
    have range: "0 \<le> v div 256" "v div 256 < 16 ^ 62" "0 \<le> w div 256" "w div 256 < 16 ^ 62"
      using Cons.prems(2) \<open>vs = w # rest\<close> condition_part_range [of v] condition_part_range [of w] by auto
    have differ: "hex_fixed 62 (v div 256) = hex_fixed 62 (w div 256) \<longleftrightarrow> v div 256 = w div 256"
      using hex_fixed_inj [OF range, of] by auto
    have later: "w div 256 \<le> x div 256" if "x \<in> set rest" for x
      using that Cons.prems(1) \<open>vs = w # rest\<close> by (intro zdiv_mono1) auto
    have "v div 256 \<le> w div 256" using Cons.prems(1) \<open>vs = w # rest\<close> by (intro zdiv_mono1) auto
    with later have "v div 256 \<noteq> w div 256 \<Longrightarrow> v div 256 \<notin> (\<lambda>x. x div 256) ` set rest" by fastforce
    then show ?thesis using Cons.IH Cons.prems \<open>vs = w # rest\<close> differ by (auto simp: image_iff)
  qed simp
qed simp

lemma parse_legs_range:
  "traverseE parse_leg_id legs = Ok vs \<Longrightarrow> \<forall>v\<in>set vs. 0 \<le> v \<and> v \<le> uint256_max"
  unfolding traverseE_all2 by (induction rule: list_all2_induct) (auto dest: parse_leg_range)

lemma sort_key_pair: "map fst (sort_key fst (map (\<lambda>v. (v, g v)) vs)) = sort vs"
  and sort_key_graph: "sort_key fst (map (\<lambda>v. (v, g v)) vs) = map (\<lambda>v. (v, g v)) (sort vs)"
  for vs :: "int list"
proof -
  have insort: "insort_key fst (v, g v) (map (\<lambda>v. (v, g v)) us) = map (\<lambda>v. (v, g v)) (insort v us)"
    for v :: int and us by (induction us) auto
  show *: "sort_key fst (map (\<lambda>v. (v, g v)) vs) = map (\<lambda>v. (v, g v)) (sort vs)"
    by (induction vs) (simp_all add: insort)
  show "map fst (sort_key fst (map (\<lambda>v. (v, g v)) vs)) = sort vs"
    unfolding * by (simp add: comp_def)
qed

lemma canonicalize_iff:
  "canonicalize_combo_legs legs = Ok vs \<longleftrightarrow>
     1 \<le> length legs \<and> length legs \<le> MAX_COMBO_LEGS
   \<and> (\<exists>us. traverseE parse_leg_id legs = Ok us \<and> (\<forall>u\<in>set us. leg_ok u)
        \<and> distinct (map (\<lambda>u. u div 256) us) \<and> vs = sort us)"
proof -
  let ?f = "\<lambda>v. (v, hex_fixed 62 (v div 256))"
  have check: "check_neighbours (sort_key fst (map ?f us)) = Ok () \<longleftrightarrow> distinct (map (\<lambda>u. u div 256) us)"
    if "traverseE parse_leg_id legs = Ok us" for us
  proof -
    have "mset (map (\<lambda>u. u div 256) (sort us)) = mset (map (\<lambda>u. u div 256) us)" by simp
    then have "distinct (map (\<lambda>u. u div 256) (sort us)) \<longleftrightarrow> distinct (map (\<lambda>u. u div 256) us)"
      by (rule mset_eq_imp_distinct_iff)
    then show ?thesis
      using check_neighbours_sorted [of "sort us"] parse_legs_range [OF that] by (simp add: sort_key_graph)
  qed
  show ?thesis
  proof (cases "1 \<le> length legs \<and> length legs \<le> MAX_COMBO_LEGS")
    case True
    then have "canonicalize_combo_legs legs = Ok vs \<longleftrightarrow>
        (\<exists>ps. traverseE decode_leg legs = Ok ps \<and> check_neighbours (sort_key fst ps) = Ok ()
           \<and> vs = map fst (sort_key fst ps))"
      by (auto simp: canonicalize_combo_legs_def Let_def)
    also have "\<dots> \<longleftrightarrow> (\<exists>us. traverseE parse_leg_id legs = Ok us \<and> (\<forall>u\<in>set us. leg_ok u)
        \<and> distinct (map (\<lambda>u. u div 256) us) \<and> vs = sort us)"
      unfolding decode_legs_Ok using check by (auto simp: sort_key_pair)
    finally show ?thesis using True by simp
  qed (auto simp: canonicalize_combo_legs_def)
qed

text \<open>The order of the legs does not matter.\<close>

lemma traverse_mset:
  assumes "traverseE f xs = Ok ys" "mset xs' = mset xs"
  shows "\<exists>ys'. traverseE f xs' = Ok ys' \<and> mset ys' = mset ys"
  using list_all2_reorder_left_invariance [of "\<lambda>x y. f x = Inr y" xs ys xs'] assms
  by (auto simp: traverseE_all2)

lemma canonicalize_order:
  assumes "canonicalize_combo_legs legs = Ok vs" "mset legs' = mset legs"
  shows "canonicalize_combo_legs legs' = Ok vs"
proof -
  from assms(1) obtain us where us: "traverseE parse_leg_id legs = Ok us" "\<forall>u\<in>set us. leg_ok u"
    "distinct (map (\<lambda>u. u div 256) us)" "vs = sort us" "1 \<le> length legs" "length legs \<le> MAX_COMBO_LEGS"
    unfolding canonicalize_iff by blast
  from traverse_mset [OF us(1) assms(2)] obtain us' where
    us': "traverseE parse_leg_id legs' = Ok us'" "mset us' = mset us" by blast
  have "distinct (map (\<lambda>u. u div 256) us')"
    using us(3) us'(2) by (metis mset_eq_imp_distinct_iff mset_map)
  moreover have "sort us' = vs" using us(4) us'(2) by (simp add: properties_for_sort)
  moreover have "\<forall>u\<in>set us'. leg_ok u" using us(2) us'(2) by (metis set_mset_mset)
  moreover have "length legs' = length legs" using assms(2) by (rule mset_eq_length)
  ultimately show ?thesis unfolding canonicalize_iff using us us'(1) by auto
qed

section \<open>The ids of a combination\<close>

lemma hex_fixed_byte: "hex_fixed (k + 2) (n * 256 + uint b) = hex_fixed k n @ hex_byte b" for b :: byte
proof -
  have b: "0 \<le> uint b" "uint b < 256" using uint_byte [of b] by simp_all
  then have "(n * 256 + uint b) div 16 div 16 = n"
    using zdiv_zmult2_eq [of 16 "n * 256 + uint b" 16] by simp
  moreover have "(n * 256 + uint b) div 16 mod 16 = uint b div 16 mod 16" "(n * 256 + uint b) mod 16 = uint b mod 16"
  proof -
    have eq: "n * 256 + uint b = uint b + (n * 16) * 16" by simp
    have "(uint b + (n * 16) * 16) div 16 = n * 16 + uint b div 16" by (rule div_mult_self1) simp
    then show "(n * 256 + uint b) div 16 mod 16 = uint b div 16 mod 16" by (simp only: eq mod_mult_self3)
    show "(n * 256 + uint b) mod 16 = uint b mod 16" by (simp only: eq mod_mult_self1)
  qed
  moreover have "hex_fixed (k + 2) v = hex_fixed k (v div 16 div 16) @ [hex_char (v div 16 mod 16), hex_char (v mod 16)]" for v
    by (simp add: add_2_eq_Suc')
  ultimately show ?thesis by (simp only: hex_byte_chars)
qed

lemma bytes_hex_fixed: "bytes_hex bs = hex_fixed (2 * length bs) (int_from_bytes bs)"
proof (induction bs rule: rev_induct)
  case (snoc b bs)
  then show ?case using hex_fixed_byte [of "2 * length bs" "int_from_bytes bs" b]
    by (simp add: int_from_bytes_def)
qed simp

lemma int_from_bytes_range: "0 \<le> int_from_bytes bs \<and> int_from_bytes bs < 256 ^ length bs"
proof (induction bs rule: rev_induct)
  case (snoc b bs)
  then have "int_from_bytes bs * 256 + uint b < (int_from_bytes bs + 1) * 256" using uint_byte [of b] by simp
  also have "\<dots> \<le> 256 ^ length bs * 256" using snoc by (intro mult_right_mono) auto
  finally show ?case using snoc uint_byte [of b] by (simp add: int_from_bytes_def)
qed (simp add: int_from_bytes_def)

lemma int_from_bytes_Cons: "int_from_bytes (b # bs) = uint b * 256 ^ length bs + int_from_bytes bs"
proof (induction bs rule: rev_induct)
  case (snoc c bs)
  then show ?case by (simp add: int_from_bytes_def algebra_simps)
qed (simp add: int_from_bytes_def)

lemma parse_position_id_str_int:
  assumes "0 \<le> n" "n \<le> uint256_max"
  shows "parse_position_id (str_int n) = Ok n"
proof -
  let ?s = "dec_digits n"
  have "n < 10 ^ 78" using assms(2) by (simp add: uint256_max_def)
  then have len: "length ?s \<le> 4300" using length_dec_digits [of n 78] assms(1) by simp
  have all: "list_all is_digit ?s" using assms(1) by (rule dec_digits_all)
  then have ends: "is_digit (hd ?s)" "is_digit (last ?s)" by (simp_all add: list_all_iff)
  then have st: "strip ?s = ?s" by (intro strip_id) (auto simp: digit_facts(6))
  have "position_base ?s = 10"
  proof -
    have "c \<notin> {CHR ''x'', CHR ''b'', CHR ''o'', CHR ''X'', CHR ''B'', CHR ''O''}" if "is_digit c" for c
      using that by (auto simp: is_digit_def)
    moreover have "lower_char c = c" if "is_digit c" for c
    proof -
      have "code_of c = int (of_char c)" by (rule of_nat_of_char [symmetric])
      then have "48 \<le> (of_char c :: nat)" "(of_char c :: nat) \<le> 57" using that unfolding is_digit_def by linarith+
      then show ?thesis by (simp add: lower_char_def Let_def)
    qed
    ultimately show ?thesis using all
      by (cases ?s; cases "tl ?s") (auto simp: position_base_def lower_def)
  qed
  then show ?thesis
    using all st assms py_int_digits [OF all _ len] digits_int_dec_digits [OF assms(1)]
    by (simp add: parse_position_id_def Let_def str_int_def position_id_pattern_def)
qed

lemma parse_leg_id_str_int:
  assumes "0 \<le> n" "n \<le> uint256_max"
  shows "parse_leg_id (str_int n) = Ok n"
proof -
  have "n < 10 ^ 78" using assms(2) by (simp add: uint256_max_def)
  then have len: "length (dec_digits n) \<le> 4300" using length_dec_digits [of n 78] assms(1) by simp
  have all: "list_all is_digit (dec_digits n)" using assms(1) by (rule dec_digits_all)
  then have "is_digit (hd (dec_digits n))" "is_digit (last (dec_digits n))" by (simp_all add: list_all_iff)
  then have "strip (dec_digits n) = dec_digits n" by (intro strip_id) (auto simp: digit_facts(6))
  then show ?thesis using assms py_int_digits [OF all _ len] digits_int_dec_digits [OF assms(1)]
    by (simp add: parse_leg_id_def str_int_def)
qed

text \<open>A condition id of 31 bytes gives two position ids that decode to it.\<close>

definition combo_condition :: "byte list \<Rightarrow> string" where
  "combo_condition cb = ''0x'' @ bytes_hex cb"

lemma derived_ids_value:
  assumes "length cb = 31"
  shows "derive_combo_outcome_position_ids (combo_condition cb)
    = Ok (str_int (int_from_bytes cb * 256), str_int (int_from_bytes cb * 256 + 1))"
proof -
  let ?N = "int_from_bytes cb"
  have hex: "bytes_hex cb = hex_fixed 62 ?N" using bytes_hex_fixed [of cb] assms by simp
  have N: "0 \<le> ?N" "?N < 256 ^ 31" using int_from_bytes_range [of cb] assms by simp_all
  have cond: "combo_condition cb = ''0x'' @ hex_fixed 62 ?N" by (simp add: combo_condition_def hex)
  have val: "py_int (combo_condition cb @ hex_byte b) 16 = Some (?N * 256 + uint b)" for b
  proof -
    have "combo_condition cb @ hex_byte b = ''0x'' @ hex_fixed 64 (?N * 256 + uint b)"
      using hex_fixed_byte [of 62 ?N b] by (simp add: cond)
    moreover have "(?N * 256 + uint b) mod 16 ^ 64 = ?N * 256 + uint b"
      using N uint_byte [of b] by (intro mod_pos_pos_trivial) simp_all
    ultimately show ?thesis
      using py_int_prefixed [of "hex_fixed 64 (?N * 256 + uint b)"] list_all_hex_fixed
        int_digits_hex_fixed [of 0 True 64 "?N * 256 + uint b"] by simp
  qed
  have "hex_byte 0 = ''00''" "hex_byte 1 = ''01''" by code_simp+
  with val [of 0] val [of 1] condition_id_of_hex [of ?N] show ?thesis
    by (simp add: derive_combo_outcome_position_ids_def cond)
qed

lemma derived_ids:
  assumes "length cb = 31" "uint (hd cb) \<in> {1, 2, 3}"
    and "derive_combo_outcome_position_ids (combo_condition cb) = Ok (yes, no)"
  shows "decode_v2_outcome_position_id yes = Ok \<lparr>dec_condition_id = combo_condition cb, dec_outcome_index = 0\<rparr>"
    and "decode_v2_outcome_position_id no = Ok \<lparr>dec_condition_id = combo_condition cb, dec_outcome_index = 1\<rparr>"
proof -
  let ?N = "int_from_bytes cb"
  have cond: "combo_condition cb = ''0x'' @ hex_fixed 62 ?N"
    using bytes_hex_fixed [of cb] assms(1) by (simp add: combo_condition_def)
  have N: "0 \<le> ?N" "?N < 256 ^ 31" using int_from_bytes_range [of cb] assms(1) by simp_all
  have ids: "yes = str_int (?N * 256)" "no = str_int (?N * 256 + 1)"
    using derived_ids_value [OF assms(1)] assms(3) by simp_all
  have range: "0 \<le> ?N * 256 + d" "?N * 256 + d \<le> uint256_max" if "d \<in> {0, 1}" for d
    using N that by (auto simp: uint256_max_def)
  have module: "(?N * 256 + d) div 2 ^ 248 \<in> {1, 2, 3}" if "d \<in> {0, 1}" for d
  proof -
    obtain b bs where cb: "cb = b # bs" "length bs = 30" using assms(1) by (cases cb) auto
    have "?N = uint b * 256 ^ 30 + int_from_bytes bs" using cb by (simp add: int_from_bytes_Cons)
    moreover have "0 \<le> int_from_bytes bs" "int_from_bytes bs < 256 ^ 30"
      using int_from_bytes_range [of bs] cb(2) by simp_all
    ultimately have "(?N * 256 + d) div 2 ^ 248 = uint b" using that by auto
    then show ?thesis using assms(2) cb(1) by simp
  qed
  have rem: "(?N * 256 + d) mod 256 = d" "(?N * 256 + d) div 256 = ?N" if "d \<in> {0, 1}" for d
    using that by auto
  have "decode_v2_outcome_position_id (str_int (?N * 256 + d)) = Ok \<lparr>dec_condition_id = combo_condition cb, dec_outcome_index = d\<rparr>"
    if "d \<in> {0, 1}" for d
    using decode_v2_value [OF parse_position_id_str_int [OF range [OF that]]] module [OF that] rem [OF that] that
    by (simp add: cond)
  from this [of 0] this [of 1] ids
  show "decode_v2_outcome_position_id yes = Ok \<lparr>dec_condition_id = combo_condition cb, dec_outcome_index = 0\<rparr>"
    "decode_v2_outcome_position_id no = Ok \<lparr>dec_condition_id = combo_condition cb, dec_outcome_index = 1\<rparr>"
    by simp_all
qed

section \<open>The condition of a combination\<close>

lemma lower_hex_digit: "0 \<le> d \<Longrightarrow> d < 16 \<Longrightarrow> lower_char (hex_char d) = hex_char d"
proof -
  assume "0 \<le> d" "d < 16"
  then have "nat d \<in> set [0..<16]" by simp
  moreover have "\<forall>n\<in>set [0..<16]. lower_char (''0123456789abcdef'' ! n) = ''0123456789abcdef'' ! n" by code_simp
  ultimately show ?thesis unfolding hex_char_def by blast
qed

lemma lower_hex_text: "lower (hex_text bs) = hex_text bs"
proof -
  have "map lower_char (bytes_hex bs) = bytes_hex bs"
    by (induction bs) (simp_all add: hex_byte_chars lower_hex_digit)
  moreover have "lower_char (CHR ''0'') = CHR ''0''" "lower_char (CHR ''x'') = CHR ''x''" by code_simp+
  ultimately show ?thesis by (simp add: lower_def hex_text_def)
qed

lemma drop_bytes_hex: "drop (2 * n) (bytes_hex bs) = bytes_hex (drop n bs)"
proof (induction bs arbitrary: n)
  case (Cons b bs)
  then show ?case by (cases n) (simp_all add: hex_byte_chars)
qed simp

lemma bytes_hex_zeros: "bytes_hex (replicate n 0) = replicate (2 * n) (CHR ''0'')"
proof -
  have "hex_byte 0 = [CHR ''0'', CHR ''0'']" by code_simp
  then show ?thesis by (induction n) simp_all
qed

definition combo_bytes :: "byte list \<Rightarrow> byte list" where
  "combo_bytes h = 3 # drop 16 h @ replicate 14 0"

lemma combo_condition_of_hash:
  assumes "length h = 32"
  shows "to_combo_condition_id (''0x03'' @ drop 32 (bytes_hex h) @ replicate 28 (CHR ''0''))
    = Ok (combo_condition (combo_bytes h))"
proof -
  have three: "hex_byte 3 = ''03''" by code_simp
  have shape: "''0x03'' @ drop 32 (bytes_hex h) @ replicate 28 (CHR ''0'') = hex_text (combo_bytes h)"
    using drop_bytes_hex [of 16 h] bytes_hex_zeros [of 14] by (simp add: combo_bytes_def hex_text_def three)
  have hex: "hex_text (combo_bytes h) = ''0x'' @ hex_fixed (2 * length (combo_bytes h)) (int_from_bytes (combo_bytes h))"
    by (simp add: hex_text_def bytes_hex_fixed)
  have "length (combo_bytes h) = 31" using assms by (simp add: combo_bytes_def)
  then have "is_hex_string (PStr (hex_text (combo_bytes h)))" "length (hex_text (combo_bytes h)) = 64"
    using condition_id_of_hex [of "int_from_bytes (combo_bytes h)"]
    by (auto simp: hex to_condition_id_def split: if_splits)
  moreover have "starts_with ''0x03'' (hex_text (combo_bytes h))"
    by (simp add: starts_with_iff combo_bytes_def hex_text_def three)
  ultimately show ?thesis unfolding shape to_combo_condition_id_def Let_def lower_hex_text
    by (simp add: combo_condition_def hex_text_def)
qed

lemma derived_context:
  assumes hash: "\<And>bs. length (keccak lib bs) = 32"
    and ctx: "derive_combo_position_context lib vs = Ok ctx"
  shows "\<exists>h. cpc_condition_id ctx = combo_condition (combo_bytes h) \<and> length h = 32
    \<and> decode_v2_outcome_position_id (fst (cpc_position_ids ctx)) = Ok \<lparr>dec_condition_id = cpc_condition_id ctx, dec_outcome_index = 0\<rparr>
    \<and> decode_v2_outcome_position_id (snd (cpc_position_ids ctx)) = Ok \<lparr>dec_condition_id = cpc_condition_id ctx, dec_outcome_index = 1\<rparr>"
proof -
  from ctx obtain encoded ids where
    "derive_combo_outcome_position_ids (combo_condition (combo_bytes (keccak lib encoded))) = Ok ids"
    "ctx = \<lparr>cpc_condition_id = combo_condition (combo_bytes (keccak lib encoded)), cpc_position_ids = ids\<rparr>"
    unfolding derive_combo_position_context_def combo_condition_of_hash [OF hash]
    by (auto simp del: split_paired_Ex)
  moreover have "length (combo_bytes h) = 31" "uint (hd (combo_bytes h)) \<in> {1, 2, 3}" if "length h = 32" for h
    using that by (simp_all add: combo_bytes_def)
  ultimately show ?thesis using hash derived_ids [of "combo_bytes (keccak lib encoded)" "fst ids" "snd ids"]
    by (intro exI [of _ "keccak lib encoded"]) simp
qed

end
