(* ===== verification/Polling.thy ===== *)
theory Polling imports Prelude begin

text \<open>
  The contract that the waiting loops of the SDK share: at most a given number of attempts with a pause
  after each one that has not decided anything. What is proved here holds for the loop on relayed
  transactions and for the one on receipts.
\<close>

locale polling =
  fixes attempt :: "('w, 'a option) eff"
    and pause :: "'w \<Rightarrow> 'w"
    and loop :: "nat \<Rightarrow> ('w, 'a) eff"
  assumes loop_0: "loop 0 w = (Raise TimeoutError, w)"
    and loop_Suc: "loop (Suc n) w =
      (case attempt w of
         (Inl e, w1) \<Rightarrow> (Raise e, w1)
       | (Inr (Some x), w1) \<Rightarrow> (Ok x, w1)
       | (Inr None, w1) \<Rightarrow> loop n (pause w1))"
begin

text \<open>\<open>undecided n w w'\<close>: \<open>n\<close> attempts in a row decide nothing and lead from \<open>w\<close> to \<open>w'\<close>.\<close>

inductive undecided :: "nat \<Rightarrow> 'w \<Rightarrow> 'w \<Rightarrow> bool" where
  none: "undecided 0 w w"
| again: "attempt w = (Ok None, w1) \<Longrightarrow> undecided n (pause w1) w2 \<Longrightarrow> undecided (Suc n) w w2"

inductive_cases undecided_SucE: "undecided (Suc n) w w'"

lemma undecided_det: "undecided n w w1 \<Longrightarrow> undecided n w w2 \<Longrightarrow> w1 = w2"
proof (induction arbitrary: rule: undecided.induct)
  case (none w)
  then show ?case by (auto elim: undecided.cases)
next
  case (again w w1 n w2')
  then show ?case by (auto elim!: undecided_SucE)
qed

text \<open>The loop ends with its first decision, and with a timeout exactly when there is none in time.\<close>

lemma loop_result:
  "loop n w = (r, w') \<longleftrightarrow>
     (undecided n w w' \<and> r = Raise TimeoutError)
   \<or> (\<exists>k w1. k < n \<and> undecided k w w1
        \<and> (attempt w1 = (map_ok Some r, w')))"
proof (induction n arbitrary: w)
  case 0
  then show ?case by (auto simp: loop_0 intro: undecided.none elim: undecided.cases)
next
  case (Suc n)
  obtain a w1 where a: "attempt w = (a, w1)" by (cases "attempt w")
  show ?case
  proof (cases "a = Ok None")
    case True
    have "(\<exists>k v. k < Suc n \<and> undecided k w v \<and> attempt v = (map_ok Some r, w'))
        \<longleftrightarrow> (\<exists>k v. k < n \<and> undecided k (pause w1) v \<and> attempt v = (map_ok Some r, w'))"
      (is "?L \<longleftrightarrow> ?R")
    proof
      assume ?L
      then obtain k v where k: "k < Suc n" "undecided k w v" "attempt v = (map_ok Some r, w')" by blast
      show ?R
      proof (cases k)
        case 0
        then have "v = w" using k(2) by (auto elim: undecided.cases)
        then show ?thesis using k(3) a True by (cases r) auto
      next
        case (Suc j)
        then have "undecided j (pause w1) v" "j < n" using k a True by (auto elim!: undecided_SucE)
        then show ?thesis using k(3) by blast
      qed
    next
      assume ?R
      then obtain k v where "k < n" "undecided k (pause w1) v" "attempt v = (map_ok Some r, w')" by blast
      then show ?L using a True by (intro exI [of _ "Suc k"]) (auto intro: undecided.again)
    qed
    moreover have "undecided (Suc n) w w' \<longleftrightarrow> undecided n (pause w1) w'"
      using a True by (auto intro: undecided.again elim!: undecided_SucE)
    ultimately show ?thesis using Suc.IH a True by (simp add: loop_Suc)
  next
    case False
    then have "undecided k w v \<Longrightarrow> k = 0 \<and> v = w" for k v
      using a by (auto elim: undecided.cases)
    moreover have "loop (Suc n) w = (r, w') \<longleftrightarrow> a = map_ok Some r \<and> w' = w1"
      using a False by (cases a; cases r) (auto simp: loop_Suc split: option.split)
    ultimately show ?thesis using a undecided.none by fastforce
  qed
qed

end

end
