(* ===== verification/Eoa_Broadcast.thy ===== *)
theory Eoa_Broadcast imports Wallets Polling begin

text \<open>
  \<open>eoa/broadcast.py\<close> and the handles of \<open>transactions.py\<close> for externally owned accounts: a transaction is
  filled in by the node, signed and sent, and its receipt is awaited.
\<close>

section \<open>Sending\<close>

function hex_digits :: "int \<Rightarrow> string" where
  "hex_digits n = (if n < 16 then [hex_char n] else hex_digits (n div 16) @ [hex_char (n mod 16)])"
  by pat_completeness auto
termination by (relation "measure nat") auto

declare hex_digits.simps [simp del]

definition py_hex :: "int \<Rightarrow> string" where
  "py_hex n = (if n < 0 then ''-0x'' @ hex_digits (- n) else ''0x'' @ hex_digits n)"

record eoa_transaction =
  et_to :: string
  et_value :: int
  et_data :: string
  et_gas :: int
  et_gas_price :: int
  et_nonce :: int
  et_chain_id :: int

record eoa_signer =
  es_address :: string
  es_sign_transaction :: "eoa_transaction \<Rightarrow> byte list res"

record eoa_transaction_handle =
  eh_transaction_hash :: string
  eh_max_polls :: int

definition sign_or_signing_error :: "'a res \<Rightarrow> 'a res" where
  "sign_or_signing_error r = (case r of Inl e \<Rightarrow> Raise SigningError | Inr x \<Rightarrow> Ok x)"

definition broadcast_eoa_call ::
  "'w post_json \<Rightarrow> eoa_signer \<Rightarrow> transaction_call \<Rightarrow> int \<Rightarrow> int \<Rightarrow> ('w, eoa_transaction_handle) rpc" where
  "broadcast_eoa_call post signer call chain max_polls =
     bindS (verify_chain_id post chain) (\<lambda>_.
     bindS (eth_get_transaction_count post (es_address signer)) (\<lambda>nonce.
     bindS (eth_gas_price post) (\<lambda>gas_price.
     bindS (eth_estimate_gas post
       [(''from'', PStr (es_address signer)), (''to'', PStr (tc_to call)),
        (''value'', PStr (py_hex (tc_value call))), (''data'', PStr (tc_data call))]) (\<lambda>gas.
     bindS (liftS (sign_or_signing_error (es_sign_transaction signer
       \<lparr>et_to = tc_to call, et_value = tc_value call, et_data = tc_data call, et_gas = gas,
        et_gas_price = gas_price, et_nonce = nonce, et_chain_id = chain\<rparr>))) (\<lambda>raw.
     bindS (eth_send_raw_transaction post (hex_text raw)) (\<lambda>tx_hash.
     pureS \<lparr>eh_transaction_hash = tx_hash, eh_max_polls = max_polls\<rparr>))))))"

section \<open>Waiting for the receipt\<close>

record transaction_outcome =
  to_transaction_hash :: string
  to_transaction_id :: "string option"

text \<open>\<open>status in (text, n)\<close>: the text, the integer, or a boolean or float equal to it.\<close>

definition status_is :: "string \<Rightarrow> int \<Rightarrow> pyval \<Rightarrow> bool" where
  "status_is text n status \<longleftrightarrow>
     (case status of
        PStr s \<Rightarrow> s = text
      | PInt m \<Rightarrow> m = n
      | PBool b \<Rightarrow> n = (if b then 1 else 0)
      | PFloat t \<Rightarrow> (case parse_decimal t of Some x \<Rightarrow> deq x (dec_of_int n) | None \<Rightarrow> False)
      | _ \<Rightarrow> False)"

definition receipt_attempt :: "'w post_json \<Rightarrow> string \<Rightarrow> ('w, transaction_outcome option) rpc" where
  "receipt_attempt post transaction_hash =
     bindS (eth_get_transaction_receipt post transaction_hash) (\<lambda>receipt.
     liftS (case receipt of
        None \<Rightarrow> Ok None
      | Some d \<Rightarrow>
          let status = dict_get ''status'' d in
          if status_is ''0x1'' 1 status then
            Ok (Some \<lparr>to_transaction_hash = transaction_hash, to_transaction_id = None\<rparr>)
          else if status_is ''0x0'' 0 status then Raise TransactionFailedError
          else Raise UnexpectedResponseError))"

fun receipt_loop ::
  "'w post_json \<Rightarrow> ('w \<Rightarrow> 'w) \<Rightarrow> string \<Rightarrow> nat \<Rightarrow> ('w, transaction_outcome) rpc" where
  "receipt_loop post sleep transaction_hash 0 c = (Raise TimeoutError, c)"
| "receipt_loop post sleep transaction_hash (Suc n) c =
     (case receipt_attempt post transaction_hash c of
        (Inl e, c1) \<Rightarrow> (Raise e, c1)
      | (Inr (Some outcome), c1) \<Rightarrow> (Ok outcome, c1)
      | (Inr None, c1) \<Rightarrow> receipt_loop post sleep transaction_hash n (c1\<lparr>rpc_world := sleep (rpc_world c1)\<rparr>))"

definition wait_for_receipt ::
  "'w post_json \<Rightarrow> ('w \<Rightarrow> 'w) \<Rightarrow> string \<Rightarrow> int \<Rightarrow> ('w, transaction_outcome) rpc" where
  "wait_for_receipt post sleep transaction_hash max_polls =
     receipt_loop post sleep transaction_hash (nat max_polls)"

definition eoa_handle_wait ::
  "'w post_json \<Rightarrow> ('w \<Rightarrow> 'w) \<Rightarrow> eoa_transaction_handle \<Rightarrow> ('w, transaction_outcome) rpc" where
  "eoa_handle_wait post sleep handle =
     wait_for_receipt post sleep (eh_transaction_hash handle) (eh_max_polls handle)"

interpretation receipts: polling "receipt_attempt post h" "\<lambda>c. c\<lparr>rpc_world := sleep (rpc_world c)\<rparr>"
  "receipt_loop post sleep h" for post sleep h
  by unfold_locales (auto split: prod.splits sum.splits option.splits)

end
