(* ===== verification/Relayer.thy ===== *)
theory Relayer imports Eoa_Broadcast begin

text \<open>
  The relayer: \<open>relayer/submit.py\<close>, \<open>poll.py\<close>, \<open>nonce.py\<close>, \<open>deployed.py\<close>, the signing modules and
  \<open>gasless.py\<close>, with the response models of \<open>models/clob/relayer.py\<close>. Batches of calls are signed for the
  kind of wallet, submitted with retries, and their transaction is polled until it is terminal.
\<close>

section \<open>Responses\<close>

datatype relayer_transaction_type = SAFE | PROXY | SAFE_CREATE | WALLET | WALLET_CREATE

fun transaction_type_text :: "relayer_transaction_type \<Rightarrow> string" where
  "transaction_type_text SAFE = ''SAFE''"
| "transaction_type_text PROXY = ''PROXY''"
| "transaction_type_text SAFE_CREATE = ''SAFE-CREATE''"
| "transaction_type_text WALLET = ''WALLET''"
| "transaction_type_text WALLET_CREATE = ''WALLET-CREATE''"

datatype relayer_transaction_state = STATE_NEW | EXECUTED | MINED | CONFIRMED | INVALID | FAILED

fun relayer_state_of :: "pyval \<Rightarrow> relayer_transaction_state res" where
  "relayer_state_of (PStr s) =
     (case map_of [(''STATE_NEW'', STATE_NEW), (''STATE_EXECUTED'', EXECUTED), (''STATE_MINED'', MINED),
                   (''STATE_CONFIRMED'', CONFIRMED), (''STATE_INVALID'', INVALID), (''STATE_FAILED'', FAILED)] s of
        None \<Rightarrow> Raise UnexpectedResponseError
      | Some st \<Rightarrow> Ok st)"
| "relayer_state_of v = Raise UnexpectedResponseError"

definition expect_text :: "pyval \<Rightarrow> string res" where
  "expect_text v = (case v of PStr s \<Rightarrow> Ok s | _ \<Rightarrow> Raise UnexpectedResponseError)"

definition expect_optional_text :: "pyval \<Rightarrow> string option res" where
  "expect_optional_text v = (case v of PNone \<Rightarrow> Ok None | PStr s \<Rightarrow> Ok (Some s) | _ \<Rightarrow> Raise UnexpectedResponseError)"

text \<open>\<open>str.isdigit\<close> also holds of the superscripts.\<close>

definition isdigit :: "string \<Rightarrow> bool" where
  "isdigit s \<longleftrightarrow> s \<noteq> [] \<and> list_all (\<lambda>c. is_digit c \<or> code_of c \<in> {178, 179, 185}) s"

record execute_params =
  xp_address :: string
  xp_nonce :: string

definition parse_execute_params :: "pyval \<Rightarrow> execute_params res" where
  "parse_execute_params data =
     (case data of
        PDict d \<Rightarrow>
          (case dict_get ''nonce'' d of
             PStr nonce \<Rightarrow>
               if \<not> isdigit nonce then Raise UnexpectedResponseError
               else map_ok (\<lambda>a. \<lparr>xp_address = a, xp_nonce = nonce\<rparr>) (expect_text (dict_get ''address'' d))
           | _ \<Rightarrow> Raise UnexpectedResponseError)
      | _ \<Rightarrow> Raise UnexpectedResponseError)"

text \<open>A transaction hash that is null or empty is none.\<close>

definition normalize_hash :: "pyval \<Rightarrow> pyval" where
  "normalize_hash h = (if h = PStr [] then PNone else h)"

record execute_response =
  xr_state :: relayer_transaction_state
  xr_transaction_hash :: "string option"
  xr_transaction_id :: string

definition parse_execute_response :: "pyval \<Rightarrow> execute_response res" where
  "parse_execute_response data =
     (case data of
        PDict d \<Rightarrow>
          bindE (relayer_state_of (dict_get ''state'' d)) (\<lambda>st.
          bindE (expect_optional_text (normalize_hash (dict_get ''transactionHash'' d))) (\<lambda>h.
          bindE (expect_text (case map_of d ''transactionID'' of Some v \<Rightarrow> v | None \<Rightarrow> dict_get ''transaction_id'' d)) (\<lambda>i.
          Ok \<lparr>xr_state = st, xr_transaction_hash = h, xr_transaction_id = i\<rparr>)))
      | _ \<Rightarrow> Raise UnexpectedResponseError)"

record gasless_transaction =
  gt_state :: relayer_transaction_state
  gt_transaction_hash :: "string option"
  gt_transaction_id :: string
  gt_error_msg :: "string option"

definition parse_gasless_transaction :: "pyval \<Rightarrow> gasless_transaction res" where
  "parse_gasless_transaction data =
     (case data of
        PDict d \<Rightarrow>
          (case map_of d ''transaction_hash'' of
             None \<Rightarrow> Raise UnexpectedResponseError
           | Some v \<Rightarrow>
               bindE (relayer_state_of (dict_get ''state'' d)) (\<lambda>st.
               bindE (expect_optional_text (normalize_hash v)) (\<lambda>h.
               bindE (expect_text (dict_get ''transaction_id'' d)) (\<lambda>i.
               bindE (expect_optional_text (dict_get ''error_msg'' d)) (\<lambda>e.
               Ok \<lparr>gt_state = st, gt_transaction_hash = h, gt_transaction_id = i, gt_error_msg = e\<rparr>)))))
      | _ \<Rightarrow> Raise UnexpectedResponseError)"

section \<open>Requests\<close>

record 'w relayer =
  rl_get_json :: "string \<Rightarrow> (string \<times> pyval) list \<Rightarrow> ('w, pyval) eff"
  rl_post_json :: "string \<Rightarrow> pyval \<Rightarrow> ('w, pyval) eff"
  rl_sleep :: "'w \<Rightarrow> 'w"
  rl_time :: "'w \<Rightarrow> int"

definition account_params :: "string \<Rightarrow> relayer_transaction_type \<Rightarrow> (string \<times> pyval) list" where
  "account_params address t = [(''address'', PStr address), (''type'', PStr (transaction_type_text t))]"

definition fetch_execute_params :: "'w relayer \<Rightarrow> string \<Rightarrow> relayer_transaction_type \<Rightarrow> ('w, execute_params) eff" where
  "fetch_execute_params relayer address t =
     bindS (rl_get_json relayer ''/v1/account/transactions/params'' (account_params address t)) (\<lambda>data.
     liftS (parse_execute_params data))"

definition fetch_relay_payload :: "'w relayer \<Rightarrow> string \<Rightarrow> relayer_transaction_type \<Rightarrow> ('w, execute_params) eff" where
  "fetch_relay_payload relayer address t =
     bindS (rl_get_json relayer ''/relay-payload'' (account_params address t)) (\<lambda>data.
     liftS (parse_execute_params data))"

text \<open>A boolean as pydantic reads it: also the integers, floats and texts that stand for one.\<close>

definition bool_texts :: "(string \<times> bool) list" where
  "bool_texts = [(''0'', False), (''off'', False), (''f'', False), (''false'', False), (''n'', False), (''no'', False),
     (''1'', True), (''on'', True), (''t'', True), (''true'', True), (''y'', True), (''yes'', True)]"

definition pydantic_bool :: "pyval \<Rightarrow> bool res" where
  "pydantic_bool v =
     (case v of
        PBool b \<Rightarrow> Ok b
      | PInt n \<Rightarrow> if n = 0 then Ok False else if n = 1 then Ok True else Raise UnexpectedResponseError
      | PFloat t \<Rightarrow> (if status_is [] 0 v then Ok False else if status_is [] 1 v then Ok True
                      else Raise UnexpectedResponseError)
      | PStr s \<Rightarrow> (case map_of bool_texts (lower s) of Some b \<Rightarrow> Ok b | None \<Rightarrow> Raise UnexpectedResponseError)
      | _ \<Rightarrow> Raise UnexpectedResponseError)"

definition fetch_deployed :: "'w relayer \<Rightarrow> string \<Rightarrow> relayer_transaction_type option \<Rightarrow> ('w, bool) eff" where
  "fetch_deployed relayer address t =
     bindS (rl_get_json relayer ''/deployed''
       ([(''address'', PStr address)] @ (case t of None \<Rightarrow> [] | Some ty \<Rightarrow> [(''type'', PStr (transaction_type_text ty))])))
     (\<lambda>data. liftS (case data of
        PDict d \<Rightarrow> pydantic_bool (dict_get ''deployed'' d)
      | _ \<Rightarrow> Raise UnexpectedResponseError))"

definition submit_gasless :: "'w relayer \<Rightarrow> pyval \<Rightarrow> ('w, execute_response) eff" where
  "submit_gasless relayer payload =
     bindS (rl_post_json relayer ''/submit'' payload) (\<lambda>data. liftS (parse_execute_response data))"

section \<open>Errors of a submission\<close>

definition GASLESS_SUBMIT_RETRY_ATTEMPTS :: nat where "GASLESS_SUBMIT_RETRY_ATTEMPTS = 10"

text \<open>The patterns are searched without regard to case; texts here hold no other case variants of ASCII letters.\<close>

definition after_token :: "string \<Rightarrow> string \<Rightarrow> string option" where
  "after_token token s = (if starts_with token (lower s) then Some (drop (length token) s) else None)"

definition after_spaces :: "string \<Rightarrow> string option" where
  "after_spaces s = (if takeWhile is_space s = [] then None else Some (dropWhile is_space s))"

definition digits_then :: "string \<Rightarrow> (string \<times> string) option" where
  "digits_then s = (if takeWhile is_digit s = [] then None else Some (takeWhile is_digit s, dropWhile is_digit s))"

definition match_nonce_mismatch :: "string \<Rightarrow> (string \<times> string) option" where
  "match_nonce_mismatch s =
     Option.bind (after_token ''batch nonce'' s) (\<lambda>s1.
     Option.bind (after_spaces s1) (\<lambda>s2.
     Option.bind (digits_then s2) (\<lambda>(submitted, s3).
     Option.bind (after_spaces s3) (\<lambda>s4.
     Option.bind (after_token ''does not match on-chain nonce'' s4) (\<lambda>s5.
     Option.bind (after_spaces s5) (\<lambda>s6.
     map_option (\<lambda>(on_chain, s7). (submitted, on_chain)) (digits_then s6)))))))"

fun search_nonce_mismatch :: "string \<Rightarrow> (string \<times> string) option" where
  "search_nonce_mismatch [] = None"
| "search_nonce_mismatch (c # cs) =
     (case match_nonce_mismatch (c # cs) of Some m \<Rightarrow> Some m | None \<Rightarrow> search_nonce_mismatch cs)"

text \<open>\<open>wallet busy.*active action\<close>: the dot stops at a line end.\<close>

fun wallet_busy :: "string \<Rightarrow> bool" where
  "wallet_busy [] = False"
| "wallet_busy (c # cs) =
     ((case after_token ''wallet busy'' (c # cs) of
         Some r \<Rightarrow> contains ''active action'' (lower (takeWhile (\<lambda>d. d \<noteq> CHR 0x0A) r))
       | None \<Rightarrow> False)
      \<or> wallet_busy cs)"

definition wallet_inflight :: "string \<Rightarrow> bool" where
  "wallet_inflight s = contains ''wallet has in-flight action'' (lower s)"

definition int_of_digits :: "string \<Rightarrow> int res" where
  "int_of_digits s = (case py_int s 10 of None \<Rightarrow> Raise ValueError | Some n \<Rightarrow> Ok n)"

definition is_retryable_submit_error :: "py_error \<Rightarrow> bool res" where
  "is_retryable_submit_error error =
     (case error of
        RateLimitError after \<Rightarrow> Ok True
      | _ \<Rightarrow>
          (case rejection error of
             None \<Rightarrow> Ok False
           | Some (status, msg) \<Rightarrow>
               if status \<noteq> 400 then Ok False
               else if wallet_busy msg \<or> wallet_inflight msg then Ok True
               else (case search_nonce_mismatch msg of
                   None \<Rightarrow> Ok False
                 | Some (submitted, on_chain) \<Rightarrow>
                     bindE (int_of_digits submitted) (\<lambda>m. bindE (int_of_digits on_chain) (\<lambda>n. Ok (m < n))))))"

definition onchain_nonce_from_submit_error :: "py_error \<Rightarrow> string option" where
  "onchain_nonce_from_submit_error error =
     (case rejection error of
        None \<Rightarrow> None
      | Some (status, msg) \<Rightarrow> if status \<noteq> 400 then None else map_option snd (search_nonce_mismatch msg))"

section \<open>Waiting for a relayed transaction\<close>

text \<open>
  \<open>None\<close> keeps the loop going; a transaction that has settled gives the outcome.
\<close>

definition terminal_outcome :: "gasless_transaction \<Rightarrow> string option \<Rightarrow> transaction_outcome option res" where
  "terminal_outcome tx fallback_hash =
     (if gt_state tx = CONFIRMED then
        (case (case gt_transaction_hash tx of Some h \<Rightarrow> Some h | None \<Rightarrow> fallback_hash) of
           None \<Rightarrow> Raise UnexpectedResponseError
         | Some h \<Rightarrow> Ok (Some \<lparr>to_transaction_hash = h, to_transaction_id = Some (gt_transaction_id tx)\<rparr>))
      else if gt_state tx \<in> {FAILED, INVALID} then Raise TransactionFailedError
      else Ok None)"

definition fetch_gasless_transaction :: "'w relayer \<Rightarrow> string \<Rightarrow> ('w, gasless_transaction) eff" where
  "fetch_gasless_transaction relayer transaction_id =
     bindS (rl_get_json relayer (''/v1/account/transactions/'' @ transaction_id) []) (\<lambda>data.
     liftS (parse_gasless_transaction data))"

definition poll_attempt :: "'w relayer \<Rightarrow> string \<Rightarrow> string option \<Rightarrow> ('w, transaction_outcome option) eff" where
  "poll_attempt relayer transaction_id fallback_hash =
     bindS (fetch_gasless_transaction relayer transaction_id) (\<lambda>tx. liftS (terminal_outcome tx fallback_hash))"

fun poll_loop :: "'w relayer \<Rightarrow> string \<Rightarrow> string option \<Rightarrow> nat \<Rightarrow> ('w, transaction_outcome) eff" where
  "poll_loop relayer transaction_id fallback_hash 0 w = (Raise TimeoutError, w)"
| "poll_loop relayer transaction_id fallback_hash (Suc n) w =
     (case poll_attempt relayer transaction_id fallback_hash w of
        (Inl e, w1) \<Rightarrow> (Raise e, w1)
      | (Inr (Some outcome), w1) \<Rightarrow> (Ok outcome, w1)
      | (Inr None, w1) \<Rightarrow> poll_loop relayer transaction_id fallback_hash n (rl_sleep relayer w1))"

definition poll_until_terminal ::
  "'w relayer \<Rightarrow> string \<Rightarrow> string option \<Rightarrow> int \<Rightarrow> ('w, transaction_outcome) eff" where
  "poll_until_terminal relayer transaction_id fallback_hash max_polls =
     poll_loop relayer transaction_id fallback_hash (nat max_polls)"

interpretation relayed: polling "poll_attempt relayer i fallback_hash" "rl_sleep relayer"
  "poll_loop relayer i fallback_hash" for relayer i fallback_hash
  by unfold_locales (auto split: prod.splits sum.splits option.splits)

record gasless_transaction_handle =
  gh_transaction_id :: string
  gh_transaction_hash :: "string option"
  gh_max_polls :: int

definition gasless_handle_wait :: "'w relayer \<Rightarrow> gasless_transaction_handle \<Rightarrow> ('w, transaction_outcome) eff" where
  "gasless_handle_wait relayer handle =
     poll_until_terminal relayer (gh_transaction_id handle) (gh_transaction_hash handle) (gh_max_polls handle)"

section \<open>Signatures\<close>

record deposit_batch =
  db_domain :: typed_domain
  db_wallet :: string
  db_nonce :: int
  db_deadline :: int
  db_calls :: "(string \<times> int \<times> byte list) list"

record safe_transaction =
  sf_chain_id :: int
  sf_verifying_contract :: string
  sf_to :: string
  sf_value :: int
  sf_data :: "byte list"
  sf_operation :: int
  sf_nonce :: int

text \<open>
  The account of \<open>eth_account\<close> that signs: typed batches, messages, and the encoding of a typed Safe
  transaction as version, header and body.
\<close>

record local_account =
  la_address :: string
  la_sign_batch :: "deposit_batch \<Rightarrow> byte list res"
  la_encode_safe :: "safe_transaction \<Rightarrow> (byte list \<times> byte list \<times> byte list) res"
  la_sign_message :: "byte list \<Rightarrow> byte list res"

definition batch_call :: "eth_library \<Rightarrow> transaction_call \<Rightarrow> (string \<times> int \<times> byte list) res" where
  "batch_call lib call = map_ok (\<lambda>data. (tc_to call, tc_value call, data)) (decode_hex lib (tc_data call))"

definition build_deposit_wallet_typed_data ::
  "eth_library \<Rightarrow> string \<Rightarrow> transaction_call list \<Rightarrow> string \<Rightarrow> string \<Rightarrow> int \<Rightarrow> deposit_batch res" where
  "build_deposit_wallet_typed_data lib wallet calls nonce deadline chain =
     bindE (int_of_digits nonce) (\<lambda>n.
     bindE (int_of_digits deadline) (\<lambda>d.
     bindE (traverseE (batch_call lib) calls) (\<lambda>cs.
     Ok \<lparr>db_domain = \<lparr>td_name = DEPOSIT_WALLET_DOMAIN_NAME, td_version = DEPOSIT_WALLET_DOMAIN_VERSION,
                       td_chain_id = chain, td_verifying_contract = wallet\<rparr>,
         db_wallet = wallet, db_nonce = n, db_deadline = d, db_calls = cs\<rparr>)))"

definition sign_deposit_wallet_batch ::
  "eth_library \<Rightarrow> local_account \<Rightarrow> string \<Rightarrow> transaction_call list \<Rightarrow> string \<Rightarrow> string \<Rightarrow> int \<Rightarrow> string res" where
  "sign_deposit_wallet_batch lib signer wallet calls nonce deadline chain =
     bindE (build_deposit_wallet_typed_data lib wallet calls nonce deadline chain) (\<lambda>typed.
     map_ok hex_text (sign_or_signing_error (la_sign_batch signer typed)))"

definition build_safe_typed_data ::
  "eth_library \<Rightarrow> string \<Rightarrow> string \<Rightarrow> string \<Rightarrow> int \<Rightarrow> int \<Rightarrow> string \<Rightarrow> int \<Rightarrow> safe_transaction res" where
  "build_safe_typed_data lib safe_address to data value operation nonce chain =
     bindE (decode_hex lib data) (\<lambda>raw.
     bindE (int_of_digits nonce) (\<lambda>n.
     Ok \<lparr>sf_chain_id = chain, sf_verifying_contract = safe_address, sf_to = to, sf_value = value, sf_data = raw,
         sf_operation = operation, sf_nonce = n\<rparr>))"

definition pack_safe_signature :: "string \<Rightarrow> string res" where
  "pack_safe_signature signature =
     (let raw = (if starts_with ''0x'' signature then drop 2 signature else signature) in
      if length raw \<noteq> 130 then Raise SigningError
      else case py_int (drop 128 raw) 16 of
          None \<Rightarrow> Raise ValueError
        | Some v \<Rightarrow>
            let packed_v = (if v \<in> {0, 1} then v + 31 else if v \<in> {27, 28} then v + 4 else v)
            in Ok (''0x'' @ take 128 raw @ hex_fixed 2 packed_v))"

definition sign_safe_transaction ::
  "eth_library \<Rightarrow> local_account \<Rightarrow> string \<Rightarrow> string \<Rightarrow> string \<Rightarrow> int \<Rightarrow> int \<Rightarrow> string \<Rightarrow> int \<Rightarrow> string res" where
  "sign_safe_transaction lib signer safe_address to data value operation nonce chain =
     bindE (build_safe_typed_data lib safe_address to data value operation nonce chain) (\<lambda>typed.
     bindE (sign_or_signing_error
       (bindE (la_encode_safe signer typed) (\<lambda>(version, header, body).
        la_sign_message signer (keccak lib ([25] @ version @ header @ body))))) (\<lambda>signature.
     pack_safe_signature (hex_text signature)))"

definition address_bytes :: "eth_library \<Rightarrow> string \<Rightarrow> byte list res" where
  "address_bytes lib value =
     bindE (decode_hex lib value) (\<lambda>bs. if length bs \<noteq> 20 then Raise ValueError else Ok bs)"

definition uint_bytes :: "string \<Rightarrow> byte list res" where
  "uint_bytes s = bindE (int_of_digits s) (int_to_bytes 32)"

type_synonym hex_address = string

definition build_proxy_transaction_hash ::
  "eth_library \<Rightarrow> hex_address \<Rightarrow> hex_address \<Rightarrow> string \<Rightarrow> string \<Rightarrow> string \<Rightarrow> string \<Rightarrow> string \<Rightarrow> hex_address \<Rightarrow> hex_address \<Rightarrow> string res" where
  "build_proxy_transaction_hash lib from_address to data relayer_fee gas_price gas_limit nonce hub relay =
     bindE (address_bytes lib from_address) (\<lambda>from_b.
     bindE (address_bytes lib to) (\<lambda>to_b.
     bindE (decode_hex lib data) (\<lambda>data_b.
     bindE (uint_bytes relayer_fee) (\<lambda>fee_b.
     bindE (uint_bytes gas_price) (\<lambda>price_b.
     bindE (uint_bytes gas_limit) (\<lambda>limit_b.
     bindE (uint_bytes nonce) (\<lambda>nonce_b.
     bindE (address_bytes lib hub) (\<lambda>hub_b.
     bindE (address_bytes lib relay) (\<lambda>relay_b.
     Ok (hex_text (keccak lib (utf8_encode ''rlx:'' @ from_b @ to_b @ data_b @ fee_b @ price_b @ limit_b
           @ nonce_b @ hub_b @ relay_b))))))))))))"

definition sign_proxy_message :: "local_account \<Rightarrow> string \<Rightarrow> string res" where
  "sign_proxy_message signer message_hash =
     map_ok hex_text (sign_or_signing_error (bindE (hex_bytes message_hash) (la_sign_message signer)))"

end
