(* ===== verification/Gasless.thy ===== *)
theory Gasless imports Relayer Call_Logs begin

text \<open>
  \<open>relayer/gasless.py\<close>: the signed envelope of a batch for each kind of wallet, and its submission. The
  synchronous and the asynchronous half of the file are the same but for the awaits.
\<close>

section \<open>Context\<close>

record 'w secure_context =
  sx_has_api_key :: bool
  sx_wallet :: string
  sx_wallet_type :: wallet_type
  sx_signer_type :: signer_type
  sx_signer :: local_account
  sx_config :: environment_config
  sx_relayer :: "'w relayer"
  sx_post_rpc :: "'w post_json"
  sx_lib :: eth_library

text \<open>The relayer and the node see the same world; the node's client keeps its own state.\<close>

definition on_world :: "('w, 'a) eff \<Rightarrow> ('w, 'a) rpc" where
  "on_world m = (\<lambda>c. case m (rpc_world c) of (r, w) \<Rightarrow> (r, c\<lparr>rpc_world := w\<rparr>))"

definition sx_address :: "'w secure_context \<Rightarrow> string" where
  "sx_address ctx = la_address (sx_signer ctx)"

definition sx_factories :: "'w secure_context \<Rightarrow> wallet_derivation" where
  "sx_factories ctx = wallet_derivation_of (sx_config ctx)"

definition DEPOSIT_WALLET_DEADLINE_S :: int where "DEPOSIT_WALLET_DEADLINE_S = 600"

definition PROXY_RELAYER_FEE :: string where "PROXY_RELAYER_FEE = ''0''"

definition PROXY_GAS_PRICE :: string where "PROXY_GAS_PRICE = ''0''"

definition PROXY_DEFAULT_GAS_LIMIT :: string where "PROXY_DEFAULT_GAS_LIMIT = ''200000''"

definition SAFE_OPERATION_CALL :: int where "SAFE_OPERATION_CALL = 0"

definition SAFE_OPERATION_DELEGATECALL :: int where "SAFE_OPERATION_DELEGATECALL = 1"

definition METADATA_MAX_LENGTH :: nat where "METADATA_MAX_LENGTH = 500"

section \<open>Envelopes\<close>

definition call_payload :: "transaction_call \<Rightarrow> pyval" where
  "call_payload c =
     PDict [(''target'', PStr (tc_to c)), (''value'', PStr (str_int (tc_value c))), (''data'', PStr (tc_data c))]"

definition build_deposit_wallet_payload ::
  "string \<Rightarrow> string \<Rightarrow> string \<Rightarrow> transaction_call list \<Rightarrow> string \<Rightarrow> string \<Rightarrow> string \<Rightarrow> string \<Rightarrow> pyval" where
  "build_deposit_wallet_payload signer_address factory wallet calls nonce deadline signature metadata =
     PDict [(''type'', PStr (transaction_type_text WALLET)), (''from'', PStr signer_address), (''to'', PStr factory),
       (''nonce'', PStr nonce), (''signature'', PStr signature), (''metadata'', PStr metadata),
       (''depositWalletParams'', PDict [(''depositWallet'', PStr wallet), (''deadline'', PStr deadline),
          (''calls'', PList (map call_payload calls))])]"

definition build_proxy_payload ::
  "hex_address \<Rightarrow> hex_address \<Rightarrow> hex_address \<Rightarrow> string \<Rightarrow> string \<Rightarrow> string \<Rightarrow> string \<Rightarrow> hex_address \<Rightarrow> hex_address \<Rightarrow> string \<Rightarrow> pyval" where
  "build_proxy_payload signer_address factory wallet data nonce signature gas_limit relay hub metadata =
     PDict [(''type'', PStr (transaction_type_text PROXY)), (''from'', PStr signer_address), (''to'', PStr factory),
       (''proxyWallet'', PStr wallet), (''data'', PStr data), (''nonce'', PStr nonce),
       (''signature'', PStr signature), (''metadata'', PStr metadata),
       (''signatureParams'', PDict [(''gasLimit'', PStr gas_limit), (''gasPrice'', PStr PROXY_GAS_PRICE),
          (''relay'', PStr relay), (''relayHub'', PStr hub), (''relayerFee'', PStr PROXY_RELAYER_FEE)])]"

definition build_safe_payload ::
  "string \<Rightarrow> string \<Rightarrow> string \<Rightarrow> string \<Rightarrow> int \<Rightarrow> int \<Rightarrow> string \<Rightarrow> string \<Rightarrow> string \<Rightarrow> pyval" where
  "build_safe_payload signer_address wallet target data value operation nonce signature metadata =
     PDict ([(''type'', PStr (transaction_type_text SAFE)), (''from'', PStr signer_address), (''to'', PStr target),
       (''proxyWallet'', PStr wallet), (''data'', PStr data), (''nonce'', PStr nonce),
       (''signature'', PStr signature), (''metadata'', PStr metadata),
       (''signatureParams'', PDict [(''baseGas'', PStr ''0''), (''gasPrice'', PStr ''0''),
          (''gasToken'', PStr ZERO_ADDRESS), (''operation'', PStr (str_int operation)),
          (''refundReceiver'', PStr ZERO_ADDRESS), (''safeTxnGas'', PStr ''0'')])]
       @ (if 0 < value then [(''value'', PStr (str_int value))] else []))"

section \<open>Signing a batch\<close>

definition deposit_wallet_deadline :: "'w secure_context \<Rightarrow> ('w, string) rpc" where
  "deposit_wallet_deadline ctx = (\<lambda>c.
     let timestamp = rl_time (sx_relayer ctx) (rpc_world c) in
     if rpc_url (sx_config ctx) \<noteq> rpc_url PRODUCTION then
       bindS (eth_get_latest_block_timestamp (sx_post_rpc ctx)) (\<lambda>latest.
         pureS (str_int (max timestamp latest + DEPOSIT_WALLET_DEADLINE_S))) c
     else (Ok (str_int (timestamp + DEPOSIT_WALLET_DEADLINE_S)), c))"

record signed_deposit_wallet_batch =
  sb_nonce :: string
  sb_deadline :: string
  sb_signature :: string

definition build_signed_deposit_wallet_batch ::
  "'w secure_context \<Rightarrow> transaction_call list \<Rightarrow> string option \<Rightarrow> ('w, signed_deposit_wallet_batch) rpc" where
  "build_signed_deposit_wallet_batch ctx calls given_nonce =
     bindS (case given_nonce of
              Some n \<Rightarrow> pureS n
            | None \<Rightarrow> bindS (on_world (fetch_execute_params (sx_relayer ctx) (sx_address ctx) WALLET))
                (\<lambda>params. pureS (xp_nonce params))) (\<lambda>nonce.
     bindS (deposit_wallet_deadline ctx) (\<lambda>deadline.
     bindS (liftS (sign_deposit_wallet_batch (sx_lib ctx) (sx_signer ctx) (sx_wallet ctx) calls nonce deadline
              (chain_id (sx_config ctx)))) (\<lambda>signature.
     bindS (liftS (wrap_deposit_wallet_signature (sx_lib ctx) (sx_address ctx) (sx_signer_type ctx) signature)) (\<lambda>wrapped.
     pureS \<lparr>sb_nonce = nonce, sb_deadline = deadline, sb_signature = wrapped\<rparr>))))"

definition build_signed_deposit_wallet_payload ::
  "'w secure_context \<Rightarrow> transaction_call list \<Rightarrow> string \<Rightarrow> string option \<Rightarrow> ('w, pyval) rpc" where
  "build_signed_deposit_wallet_payload ctx calls metadata given_nonce =
     bindS (build_signed_deposit_wallet_batch ctx calls given_nonce) (\<lambda>batch.
     pureS (build_deposit_wallet_payload (sx_address ctx) (deposit_wallet_factory (sx_factories ctx)) (sx_wallet ctx)
       calls (sb_nonce batch) (sb_deadline batch) (sb_signature batch) metadata))"

definition estimate_proxy_gas_limit :: "'w secure_context \<Rightarrow> string \<Rightarrow> string \<Rightarrow> string \<Rightarrow> ('w, string) rpc" where
  "estimate_proxy_gas_limit ctx from_address to data =
     tryS (bindS (eth_estimate_gas (sx_post_rpc ctx)
             [(''from'', PStr from_address), (''to'', PStr to), (''data'', PStr data)]) (\<lambda>estimated.
           pureS (str_int estimated)))
       (\<lambda>error. pureS PROXY_DEFAULT_GAS_LIMIT)"

definition build_signed_proxy_payload ::
  "'w secure_context \<Rightarrow> transaction_call list \<Rightarrow> string \<Rightarrow> ('w, pyval) rpc" where
  "build_signed_proxy_payload ctx calls metadata =
     bindS (on_world (fetch_relay_payload (sx_relayer ctx) (sx_address ctx) PROXY)) (\<lambda>params.
     let to = proxy_factory (sx_factories ctx); relay = xp_address params in
     bindS (liftS (encode_proxy_call (sx_lib ctx) calls)) (\<lambda>data.
     bindS (estimate_proxy_gas_limit ctx (sx_address ctx) to data) (\<lambda>gas_limit.
     bindS (liftS (build_proxy_transaction_hash (sx_lib ctx) (sx_address ctx) to data PROXY_RELAYER_FEE
              PROXY_GAS_PRICE gas_limit (xp_nonce params) (relay_hub (sx_config ctx)) relay)) (\<lambda>hash.
     bindS (liftS (sign_proxy_message (sx_signer ctx) hash)) (\<lambda>signature.
     pureS (build_proxy_payload (sx_address ctx) to (sx_wallet ctx) data (xp_nonce params) signature gas_limit relay
       (relay_hub (sx_config ctx)) metadata))))))"

definition resolve_safe_call ::
  "eth_library \<Rightarrow> string \<Rightarrow> transaction_call list \<Rightarrow> (string \<times> string \<times> int \<times> int) res" where
  "resolve_safe_call lib multisend calls =
     (case calls of
        [c] \<Rightarrow> Ok (tc_to c, tc_data c, tc_value c, SAFE_OPERATION_CALL)
      | _ \<Rightarrow> map_ok (\<lambda>data. (multisend, data, 0, SAFE_OPERATION_DELEGATECALL)) (encode_safe_multisend_call lib calls))"

definition build_signed_safe_payload ::
  "'w secure_context \<Rightarrow> transaction_call list \<Rightarrow> string \<Rightarrow> ('w, pyval) rpc" where
  "build_signed_safe_payload ctx calls metadata =
     bindS (on_world (fetch_execute_params (sx_relayer ctx) (sx_address ctx) SAFE)) (\<lambda>params.
     bindS (liftS (resolve_safe_call (sx_lib ctx) (safe_multisend (sx_config ctx)) calls)) (\<lambda>(target, data, value, operation).
     bindS (liftS (sign_safe_transaction (sx_lib ctx) (sx_signer ctx) (sx_wallet ctx) target data value operation
              (xp_nonce params) (chain_id (sx_config ctx)))) (\<lambda>signature.
     pureS (build_safe_payload (sx_address ctx) (sx_wallet ctx) target data value operation (xp_nonce params)
       signature metadata))))"

definition build_signed_payload_for_wallet_type ::
  "'w secure_context \<Rightarrow> transaction_call list \<Rightarrow> string \<Rightarrow> ('w, pyval) rpc" where
  "build_signed_payload_for_wallet_type ctx calls metadata =
     (case sx_wallet_type ctx of
        DEPOSIT_WALLET \<Rightarrow> build_signed_deposit_wallet_payload ctx calls metadata None
      | POLY_PROXY \<Rightarrow> build_signed_proxy_payload ctx calls metadata
      | GNOSIS_SAFE \<Rightarrow> build_signed_safe_payload ctx calls metadata
      | EOA \<Rightarrow> failS UserInputError)"

section \<open>Submission\<close>

definition submit_payload :: "'w secure_context \<Rightarrow> pyval \<Rightarrow> ('w, execute_response) rpc" where
  "submit_payload ctx payload = on_world (submit_gasless (sx_relayer ctx) payload)"

definition submit_for_wallet_type ::
  "'w secure_context \<Rightarrow> transaction_call list \<Rightarrow> string \<Rightarrow> ('w, execute_response) rpc" where
  "submit_for_wallet_type ctx calls metadata =
     bindS (build_signed_payload_for_wallet_type ctx calls metadata) (\<lambda>payload.
     tryS (submit_payload ctx payload) (\<lambda>error.
       case onchain_nonce_from_submit_error error of
         None \<Rightarrow> failS error
       | Some nonce \<Rightarrow>
           if sx_wallet_type ctx \<noteq> DEPOSIT_WALLET then failS error
           else
             bindS (build_signed_deposit_wallet_payload ctx calls metadata (Some nonce)) (\<lambda>payload.
             submit_payload ctx payload)))"

definition gasless_handle :: "'w secure_context \<Rightarrow> execute_response \<Rightarrow> gasless_transaction_handle" where
  "gasless_handle ctx response =
     \<lparr>gh_transaction_id = xr_transaction_id response, gh_transaction_hash = xr_transaction_hash response,
      gh_max_polls = relayer_max_polls (sx_config ctx)\<rparr>"

text \<open>\<open>n\<close> counts the retries that are left.\<close>

fun submit_loop ::
  "'w secure_context \<Rightarrow> ('w, execute_response) rpc \<Rightarrow> nat \<Rightarrow> ('w, gasless_transaction_handle) rpc" where
  "submit_loop ctx submit n c =
     (case submit c of
        (Inr response, c1) \<Rightarrow> (Ok (gasless_handle ctx response), c1)
      | (Inl error, c1) \<Rightarrow>
          (case n of
             0 \<Rightarrow> (Raise error, c1)
           | Suc m \<Rightarrow>
               (case is_retryable_submit_error error of
                  Inl e \<Rightarrow> (Raise e, c1)
                | Inr False \<Rightarrow> (Raise error, c1)
                | Inr True \<Rightarrow> submit_loop ctx submit m (c1\<lparr>rpc_world := rl_sleep (sx_relayer ctx) (rpc_world c1)\<rparr>))))"

declare submit_loop.simps [simp del]

definition submit_gasless_with_retry ::
  "'w secure_context \<Rightarrow> ('w, execute_response) rpc \<Rightarrow> ('w, gasless_transaction_handle) rpc" where
  "submit_gasless_with_retry ctx submit = submit_loop ctx submit GASLESS_SUBMIT_RETRY_ATTEMPTS"

definition prepare_gasless_transaction ::
  "'w secure_context \<Rightarrow> transaction_call list \<Rightarrow> string \<Rightarrow> ('w, gasless_transaction_handle) rpc" where
  "prepare_gasless_transaction ctx calls metadata =
     (if \<not> sx_has_api_key ctx then failS UserInputError
      else if sx_wallet_type ctx = EOA then failS UserInputError
      else if calls = [] then failS UserInputError
      else if METADATA_MAX_LENGTH < length metadata then failS UserInputError
      else submit_gasless_with_retry ctx (submit_for_wallet_type ctx calls metadata))"

definition submit_deposit_wallet_create :: "'w secure_context \<Rightarrow> string \<Rightarrow> ('w, gasless_transaction_handle) rpc" where
  "submit_deposit_wallet_create ctx metadata =
     (if \<not> sx_has_api_key ctx then failS UserInputError
      else if METADATA_MAX_LENGTH < length metadata then failS UserInputError
      else
        bindS (submit_payload ctx (PDict [(''type'', PStr (transaction_type_text WALLET_CREATE)),
          (''from'', PStr (sx_address ctx)), (''to'', PStr (deposit_wallet_factory (sx_factories ctx))),
          (''metadata'', PStr metadata)])) (\<lambda>response.
        pureS (gasless_handle ctx response)))"

section \<open>What is posted\<close>

text \<open>
  A context whose world keeps the submissions to the relayer with their results; nothing else in it
  changes.
\<close>

type_synonym submission_log = "(pyval \<times> pyval res) list"

definition logging_relayer :: "'w relayer \<Rightarrow> ('w \<times> submission_log) relayer" where
  "logging_relayer relayer =
     \<lparr>rl_get_json = (\<lambda>path params. beside (rl_get_json relayer path params)),
      rl_post_json = (\<lambda>path payload (w, log).
        case rl_post_json relayer path payload w of (r, w') \<Rightarrow> (r, (w', log @ [(payload, r)]))),
      rl_sleep = map_prod (rl_sleep relayer) id,
      rl_time = (\<lambda>s. rl_time relayer (fst s))\<rparr>"

definition logging :: "'w secure_context \<Rightarrow> ('w \<times> submission_log) secure_context" where
  "logging ctx =
     \<lparr>sx_has_api_key = sx_has_api_key ctx, sx_wallet = sx_wallet ctx, sx_wallet_type = sx_wallet_type ctx,
      sx_signer_type = sx_signer_type ctx, sx_signer = sx_signer ctx, sx_config = sx_config ctx,
      sx_relayer = logging_relayer (sx_relayer ctx), sx_post_rpc = (\<lambda>v. beside (sx_post_rpc ctx v)),
      sx_lib = sx_lib ctx\<rparr>"

definition submissions :: "('w \<times> submission_log) rpc_client \<Rightarrow> submission_log" where
  "submissions c = snd (rpc_world c)"

lemma logging_simps [simp]:
  "sx_has_api_key (logging ctx) = sx_has_api_key ctx" "sx_wallet (logging ctx) = sx_wallet ctx"
  "sx_wallet_type (logging ctx) = sx_wallet_type ctx" "sx_signer_type (logging ctx) = sx_signer_type ctx"
  "sx_signer (logging ctx) = sx_signer ctx" "sx_config (logging ctx) = sx_config ctx"
  "sx_relayer (logging ctx) = logging_relayer (sx_relayer ctx)"
  "sx_post_rpc (logging ctx) = (\<lambda>v. beside (sx_post_rpc ctx v))" "sx_lib (logging ctx) = sx_lib ctx"
  "sx_address (logging ctx) = sx_address ctx" "sx_factories (logging ctx) = sx_factories ctx"
  "gasless_handle (logging ctx) = gasless_handle ctx"
  by (auto simp: logging_def sx_address_def sx_factories_def gasless_handle_def fun_eq_iff)

text \<open>
  An envelope is signed for a batch when its fields are the ones that the signature was made for.
\<close>

definition signed_batch_payload :: "'w secure_context \<Rightarrow> transaction_call list \<Rightarrow> string \<Rightarrow> pyval \<Rightarrow> bool" where
  "signed_batch_payload ctx calls metadata payload \<longleftrightarrow>
     (\<exists>nonce deadline signature wrapped.
        sign_deposit_wallet_batch (sx_lib ctx) (sx_signer ctx) (sx_wallet ctx) calls nonce deadline
          (chain_id (sx_config ctx)) = Ok signature
      \<and> wrap_deposit_wallet_signature (sx_lib ctx) (sx_address ctx) (sx_signer_type ctx) signature = Ok wrapped
      \<and> payload = build_deposit_wallet_payload (sx_address ctx) (deposit_wallet_factory (sx_factories ctx))
          (sx_wallet ctx) calls nonce deadline wrapped metadata)"

definition signed_proxy_payload :: "'w secure_context \<Rightarrow> transaction_call list \<Rightarrow> string \<Rightarrow> pyval \<Rightarrow> bool" where
  "signed_proxy_payload ctx calls metadata payload \<longleftrightarrow>
     (\<exists>data gas_limit nonce relay hash signature.
        encode_proxy_call (sx_lib ctx) calls = Ok data
      \<and> build_proxy_transaction_hash (sx_lib ctx) (sx_address ctx) (proxy_factory (sx_factories ctx)) data
          PROXY_RELAYER_FEE PROXY_GAS_PRICE gas_limit nonce (relay_hub (sx_config ctx)) relay = Ok hash
      \<and> sign_proxy_message (sx_signer ctx) hash = Ok signature
      \<and> payload = build_proxy_payload (sx_address ctx) (proxy_factory (sx_factories ctx)) (sx_wallet ctx) data
          nonce signature gas_limit relay (relay_hub (sx_config ctx)) metadata)"

definition signed_safe_payload :: "'w secure_context \<Rightarrow> transaction_call list \<Rightarrow> string \<Rightarrow> pyval \<Rightarrow> bool" where
  "signed_safe_payload ctx calls metadata payload \<longleftrightarrow>
     (\<exists>target data value operation nonce signature.
        resolve_safe_call (sx_lib ctx) (safe_multisend (sx_config ctx)) calls = Ok (target, data, value, operation)
      \<and> sign_safe_transaction (sx_lib ctx) (sx_signer ctx) (sx_wallet ctx) target data value operation nonce
          (chain_id (sx_config ctx)) = Ok signature
      \<and> payload = build_safe_payload (sx_address ctx) (sx_wallet ctx) target data value operation nonce signature
          metadata)"

definition signed_payload :: "'w secure_context \<Rightarrow> transaction_call list \<Rightarrow> string \<Rightarrow> pyval \<Rightarrow> bool" where
  "signed_payload ctx calls metadata payload =
     (case sx_wallet_type ctx of
        DEPOSIT_WALLET \<Rightarrow> signed_batch_payload ctx calls metadata payload
      | POLY_PROXY \<Rightarrow> signed_proxy_payload ctx calls metadata payload
      | GNOSIS_SAFE \<Rightarrow> signed_safe_payload ctx calls metadata payload
      | EOA \<Rightarrow> False)"

text \<open>Only a submission is logged.\<close>

lemma silent_rpc_call: "silent submissions (rpc_call (\<lambda>v. beside (post v)) method params)"
  by (rule silentI) (simp add: rpc_call_def bindS_app build_envelope_def rpc_post_def beside_def submissions_def
      Let_def split: prod.split sum.split)

lemma silent_deadline: "silent submissions (deposit_wallet_deadline (logging ctx))"
proof (rule silentI)
  fix c :: "('a \<times> submission_log) rpc_client"
  have "silent submissions (bindS (eth_get_latest_block_timestamp (\<lambda>v. beside (sx_post_rpc ctx v))) (\<lambda>latest. pureS (f latest)))"
    for f :: "int \<Rightarrow> string"
    unfolding eth_get_latest_block_timestamp_def by (intro silent_intros silent_rpc_call)
  then show "submissions (snd (deposit_wallet_deadline (logging ctx) c)) = submissions c"
    by (simp add: deposit_wallet_deadline_def Let_def silentD)
qed

lemma silent_gas_limit: "silent submissions (estimate_proxy_gas_limit (logging ctx) from_address to data)"
  unfolding estimate_proxy_gas_limit_def eth_estimate_gas_def rpc_int_def logging_simps
  by (intro silent_intros silent_rpc_call)

lemma silent_get_json: "silent submissions (on_world (bindS (rl_get_json (logging_relayer relayer) path params) (\<lambda>data. liftS (f data))))"
  by (rule silentI) (simp add: on_world_def logging_relayer_def beside_def bindS_app submissions_def
      split: prod.split sum.split)

lemma silent_params:
  "silent submissions (on_world (fetch_execute_params (logging_relayer relayer) address t))"
  "silent submissions (on_world (fetch_relay_payload (logging_relayer relayer) address t))"
  unfolding fetch_execute_params_def fetch_relay_payload_def by (rule silent_get_json)+

lemma batch_payload_calls:
  "logs submissions (\<lambda>posted r. posted = [] \<and> (\<forall>p. r = Ok p \<longrightarrow> signed_batch_payload ctx calls metadata p))
     (build_signed_deposit_wallet_payload (logging ctx) calls metadata given_nonce)"
proof (rule silent_result)
  have "silent submissions (build_signed_deposit_wallet_batch (logging ctx) calls given_nonce)"
    unfolding build_signed_deposit_wallet_batch_def logging_simps
    by (cases given_nonce) (simp_all add: silent_intros silent_params silent_deadline)
  then show "silent submissions (build_signed_deposit_wallet_payload (logging ctx) calls metadata given_nonce)"
    unfolding build_signed_deposit_wallet_payload_def by (intro silent_intros)
next
  fix c c' p
  assume "build_signed_deposit_wallet_payload (logging ctx) calls metadata given_nonce c = (Ok p, c')"
  then show "signed_batch_payload ctx calls metadata p"
    by (clarsimp simp: build_signed_deposit_wallet_payload_def build_signed_deposit_wallet_batch_def bindS_eq_Ok
        signed_batch_payload_def) blast
qed

lemma proxy_payload_calls:
  "logs submissions (\<lambda>posted r. posted = [] \<and> (\<forall>p. r = Ok p \<longrightarrow> signed_proxy_payload ctx calls metadata p))
     (build_signed_proxy_payload (logging ctx) calls metadata)"
proof (rule silent_result)
  show "silent submissions (build_signed_proxy_payload (logging ctx) calls metadata)"
    unfolding build_signed_proxy_payload_def Let_def logging_simps
    by (intro silent_intros silent_params silent_gas_limit)
next
  fix c c' p
  assume "build_signed_proxy_payload (logging ctx) calls metadata c = (Ok p, c')"
  then show "signed_proxy_payload ctx calls metadata p"
    by (clarsimp simp: build_signed_proxy_payload_def Let_def bindS_eq_Ok signed_proxy_payload_def) blast
qed

lemma safe_payload_calls:
  "logs submissions (\<lambda>posted r. posted = [] \<and> (\<forall>p. r = Ok p \<longrightarrow> signed_safe_payload ctx calls metadata p))
     (build_signed_safe_payload (logging ctx) calls metadata)"
proof (rule silent_result)
  show "silent submissions (build_signed_safe_payload (logging ctx) calls metadata)"
    unfolding build_signed_safe_payload_def logging_simps
    by (rule silent_bind [OF silent_params(1)] silent_bind [OF silent_lift])+
      (simp add: silent_intros split: prod.split)
next
  fix c c' p
  assume "build_signed_safe_payload (logging ctx) calls metadata c = (Ok p, c')"
  then show "signed_safe_payload ctx calls metadata p"
    by (clarsimp simp: build_signed_safe_payload_def bindS_eq_Ok signed_safe_payload_def) blast
qed

lemma payload_calls:
  "logs submissions (\<lambda>posted r. posted = [] \<and> (\<forall>p. r = Ok p \<longrightarrow> signed_payload ctx calls metadata p))
     (build_signed_payload_for_wallet_type (logging ctx) calls metadata)"
  using batch_payload_calls [of ctx calls metadata None] proxy_payload_calls [of ctx calls metadata]
    safe_payload_calls [of ctx calls metadata]
  by (cases "sx_wallet_type ctx")
    (simp_all add: build_signed_payload_for_wallet_type_def signed_payload_def logs_def)

lemma submit_calls:
  "logs submissions (\<lambda>posted r. \<exists>res. posted = [(payload, res)] \<and> r = bindE res parse_execute_response)
     (submit_payload (logging ctx) payload)"
  by (auto simp: logs_def submit_payload_def on_world_def submit_gasless_def logging_relayer_def submissions_def
      bindS_app split: prod.splits sum.splits)

lemma parse_execute_response_error:
  "parse_execute_response v = Raise e \<Longrightarrow> e = UnexpectedResponseError"
proof -
  have "relayer_state_of w = Raise f \<Longrightarrow> f = UnexpectedResponseError" for w f
    by (cases w) (auto split: option.splits)
  then show "parse_execute_response v = Raise e \<Longrightarrow> e = UnexpectedResponseError"
    by (auto simp: parse_execute_response_def bindE_eq_Inl expect_optional_text_def expect_text_def
        split: pyval.splits option.splits)
qed

text \<open>
  What a run of submissions may have posted: envelopes signed for the batch, of which all but the last
  were refused; a response ends the run, and what it says is the result.
\<close>

definition run_of_submissions ::
  "'w secure_context \<Rightarrow> transaction_call list \<Rightarrow> string \<Rightarrow> nat \<Rightarrow> submission_log \<Rightarrow> execute_response res \<Rightarrow> bool" where
  "run_of_submissions ctx calls metadata n posted r \<longleftrightarrow>
     length posted \<le> n
   \<and> (\<forall>(payload, res)\<in>set posted. signed_payload ctx calls metadata payload)
   \<and> (\<forall>(payload, res)\<in>set (butlast posted). \<not> is_ok res)
   \<and> (\<forall>x. posted \<noteq> [] \<longrightarrow> snd (last posted) = Ok x \<longrightarrow> r = parse_execute_response x)
   \<and> (\<forall>response. r = Ok response \<longrightarrow> posted \<noteq> [] \<and> is_ok (snd (last posted)))"

lemma run_of_submissions_append:
  assumes "run_of_submissions ctx calls metadata n posted (Raise e)" "e \<noteq> UnexpectedResponseError"
    and "run_of_submissions ctx calls metadata m posted' r"
  shows "run_of_submissions ctx calls metadata (n + m) (posted @ posted') r"
proof -
  have last: "\<not> is_ok (snd (last posted))" if "posted \<noteq> []"
    using assms(1,2) that parse_execute_response_error by (auto simp: run_of_submissions_def is_ok_iff)
  have refused: "\<not> is_ok (snd p)" if "p \<in> set posted" for p
  proof (cases "p = last posted")
    case True
    moreover have "posted \<noteq> []" using that by auto
    ultimately show ?thesis using last by simp
  next
    case False
    have "posted = butlast posted @ [last posted]" using that by (cases posted rule: rev_cases) auto
    then have "p \<in> set (butlast posted)" using that False by (metis Un_iff empty_iff insert_iff list.set set_append)
    then show ?thesis using assms(1) by (cases p) (auto simp: run_of_submissions_def)
  qed
  show ?thesis
  proof (cases "posted' = []")
    case True
    have "\<not> is_ok r" using assms(3) True by (auto simp: run_of_submissions_def is_ok_iff)
    then show ?thesis using assms(1) True last
      by (cases r) (auto simp: run_of_submissions_def is_ok_iff)
  next
    case False
    then show ?thesis using assms(1,3) refused
      by (fastforce simp: run_of_submissions_def butlast_append)
  qed
qed

lemma run_of_submissions_empty: "run_of_submissions ctx calls metadata n [] (Raise e)"
  by (simp add: run_of_submissions_def)

text \<open>One round: at most two submissions, the second after a rejection that names the on-chain nonce.\<close>

lemma run_of_submissions_more: "run_of_submissions ctx calls metadata n posted r \<Longrightarrow> n \<le> m \<Longrightarrow>
    run_of_submissions ctx calls metadata m posted r"
  by (auto simp: run_of_submissions_def)

lemma one_submission:
  "logs submissions (\<lambda>posted r. signed_payload ctx calls metadata payload \<longrightarrow> run_of_submissions ctx calls metadata 1 posted r)
     (submit_payload (logging ctx) payload)"
  by (rule logs_mono [OF submit_calls]) (auto simp: run_of_submissions_def is_ok_iff)

lemma second_submission:
  assumes "sx_wallet_type ctx = DEPOSIT_WALLET"
  shows "logs submissions (run_of_submissions ctx calls metadata 1)
     (bindS (build_signed_deposit_wallet_payload (logging ctx) calls metadata given_nonce)
        (submit_payload (logging ctx)))"
proof (rule logs_mono [OF logs_bind [OF batch_payload_calls one_submission [of ctx calls metadata]]])
  fix posted r
  assume "(\<exists>e. (posted = [] \<and> (\<forall>p. (Raise e :: pyval res) = Ok p \<longrightarrow> signed_batch_payload ctx calls metadata p)) \<and> r = Raise e)
    \<or> (\<exists>x cs1 cs2. (cs1 = [] \<and> (\<forall>p. (Ok x :: pyval res) = Ok p \<longrightarrow> signed_batch_payload ctx calls metadata p))
        \<and> (signed_payload ctx calls metadata x \<longrightarrow> run_of_submissions ctx calls metadata 1 cs2 r) \<and> posted = cs1 @ cs2)"
  then show "run_of_submissions ctx calls metadata 1 posted r"
    using assms by (auto simp: run_of_submissions_empty signed_payload_def)
qed

lemma round_of_submissions:
  "logs submissions (run_of_submissions ctx calls metadata 2) (submit_for_wallet_type (logging ctx) calls metadata)"
proof -
  let ?R = "\<lambda>e posted r. posted = [] \<and> r = Raise e
      \<or> e \<noteq> UnexpectedResponseError \<and> run_of_submissions ctx calls metadata 1 posted r"
  have handler: "logs submissions (?R e)
      (case onchain_nonce_from_submit_error e of
         None \<Rightarrow> failS e
       | Some nonce \<Rightarrow>
           if sx_wallet_type (logging ctx) \<noteq> DEPOSIT_WALLET then failS e
           else bindS (build_signed_deposit_wallet_payload (logging ctx) calls metadata (Some nonce))
                  (submit_payload (logging ctx)))" for e
  proof (cases "onchain_nonce_from_submit_error e = None \<or> sx_wallet_type ctx \<noteq> DEPOSIT_WALLET")
    case True
    then show ?thesis by (auto simp: logs_def split: option.split)
  next
    case False
    then obtain nonce where nonce: "onchain_nonce_from_submit_error e = Some nonce" "sx_wallet_type ctx = DEPOSIT_WALLET" by auto
    then have "e \<noteq> UnexpectedResponseError" by (auto simp: onchain_nonce_from_submit_error_def)
    then show ?thesis using nonce logs_mono [OF second_submission [OF nonce(2)]] by simp
  qed
  show ?thesis unfolding submit_for_wallet_type_def
  proof (rule logs_mono [OF logs_bind [OF payload_calls logs_try [OF one_submission [of ctx calls metadata] handler]]], goal_cases)
    case (1 posted r)
    have more: "run_of_submissions ctx calls metadata 2 cs r"
      if "run_of_submissions ctx calls metadata 1 cs r" for cs and r :: "execute_response res"
      using run_of_submissions_more [OF that] by simp
    have two: "run_of_submissions ctx calls metadata 2 (cs1 @ cs2) r"
      if "run_of_submissions ctx calls metadata 1 cs1 (Raise e)" "e \<noteq> UnexpectedResponseError"
        "run_of_submissions ctx calls metadata 1 cs2 r" for cs1 cs2 e
      using run_of_submissions_append [OF that] by (simp add: numeral_2_eq_2)
    from 1 show ?case
      by (elim disjE exE conjE; simp add: run_of_submissions_empty del: One_nat_def)
        (elim disjE exE conjE; simp add: more two del: One_nat_def)+
  qed
qed

text \<open>Every submission that the relayer answers is the last one, retries included.\<close>

lemma retried_submissions:
  assumes round: "logs submissions (run_of_submissions ctx calls metadata 2) submit"
  shows "submit_loop (logging ctx) submit n c = (r, c') \<Longrightarrow>
    \<exists>posted r'. submissions c' = submissions c @ posted \<and> run_of_submissions ctx calls metadata (2 * Suc n) posted r'
      \<and> (\<forall>handle. r = Ok handle \<longleftrightarrow> (\<exists>response. r' = Ok response \<and> handle = gasless_handle ctx response))"
proof (induction n arbitrary: c)
  case 0
  obtain r1 c1 where s: "submit c = (r1, c1)" by (cases "submit c")
  then obtain posted where "submissions c1 = submissions c @ posted" "run_of_submissions ctx calls metadata 2 posted r1"
    using logsD [OF round] by blast
  then show ?case using 0 s
    by (cases r1) (auto simp: submit_loop.simps [of _ _ "0 :: nat"] intro!: exI [of _ posted])
next
  case (Suc n)
  obtain r1 c1 where s: "submit c = (r1, c1)" by (cases "submit c")
  then obtain posted where posted: "submissions c1 = submissions c @ posted"
    "run_of_submissions ctx calls metadata 2 posted r1"
    using logsD [OF round] by blast
  show ?case
  proof (cases "\<exists>e. r1 = Raise e \<and> is_retryable_submit_error e = Ok True")
    case False
    then have "c' = c1" "\<forall>handle. r = Ok handle \<longleftrightarrow> (\<exists>response. r1 = Ok response \<and> handle = gasless_handle ctx response)"
      using Suc.prems s
      by (auto simp: submit_loop.simps [of _ _ "Suc n"] split: sum.splits bool.splits)
    then show ?thesis using posted run_of_submissions_more [of ctx calls metadata 2 posted r1 "2 * Suc (Suc n)"] by auto
  next
    case True
    then obtain e where e: "r1 = Raise e" "is_retryable_submit_error e = Ok True" by blast
    let ?c = "c1\<lparr>rpc_world := rl_sleep (logging_relayer (sx_relayer ctx)) (rpc_world c1)\<rparr>"
    have "submissions ?c = submissions c1" by (simp add: submissions_def logging_relayer_def)
    moreover have "submit_loop (logging ctx) submit n ?c = (r, c')"
      using Suc.prems s e by (simp add: submit_loop.simps [of _ _ "Suc n"])
    ultimately obtain posted' r' where IH: "submissions c' = submissions c1 @ posted'"
      "run_of_submissions ctx calls metadata (2 * Suc n) posted' r'"
      "\<forall>handle. r = Ok handle \<longleftrightarrow> (\<exists>response. r' = Ok response \<and> handle = gasless_handle ctx response)"
      using Suc.IH [of ?c] by auto
    have "e \<noteq> UnexpectedResponseError" using e(2) by (auto simp: is_retryable_submit_error_def)
    then have "run_of_submissions ctx calls metadata (2 + 2 * Suc n) (posted @ posted') r'"
      using run_of_submissions_append [OF _ _ IH(2)] posted(2) e(1) by blast
    then show ?thesis using posted(1) IH by (intro exI [of _ "posted @ posted'"] exI [of _ r']) simp
  qed
qed

end
