(* ===== verification/Chain_Examples.thy ===== *)
theory Chain_Examples imports Approvals Positions Gasless begin

text \<open>
  Concrete functions in place of the libraries, the node and the relayer, which satisfy what the
  theorems on wallets and transactions rely on. The encoding is a tagged one and the hash a checksum.
\<close>

section \<open>A library\<close>

definition toy_hash :: "byte list \<Rightarrow> byte list" where
  "toy_hash bs =
     (let h = foldl (\<lambda>h b. (h * 31 + uint b) mod 4294967291) 7 bs
      in be_bytes 4 h @ replicate 12 0 @ be_bytes 16 (h * 65537))"

definition toy_address :: "string \<Rightarrow> byte list option" where
  "toy_address a =
     (case bytes_fromhex (drop 2 (canonical_address a)) of
        None \<Rightarrow> None
      | Some bs \<Rightarrow> if length bs = 20 \<and> canonical_address a = hex_text bs then Some bs else None)"

fun uint_of :: "abi_value \<Rightarrow> int option" where
  "uint_of (AbiUint n) = (if 0 \<le> n \<and> n < 256 ^ 32 then Some n else None)"
| "uint_of _ = None"

definition word_at :: "byte list \<Rightarrow> nat \<Rightarrow> int" where
  "word_at bs i = int_from_bytes (take 32 (drop (32 * i) bs))"

fun toy_value :: "abi_value \<Rightarrow> byte list option" where
  "toy_value (AbiUint n) = (if 0 \<le> n \<and> n < 256 ^ 32 then Some (0 # be_bytes 32 n) else None)"
| "toy_value (AbiBool b) = Some [1, if b then 1 else 0]"
| "toy_value (AbiAddress a) = map_option ((#) 2) (toy_address a)"
| "toy_value (AbiBytes bs) =
     (if int (length bs) < 256 ^ 32 then Some (3 # be_bytes 32 (int (length bs)) @ bs) else None)"
| "toy_value (AbiList vs) =
     (if list_all (\<lambda>v. uint_of v \<noteq> None) vs \<and> int (length vs) < 256 ^ 32
      then Some (4 # be_bytes 32 (int (length vs)) @ concat (map (\<lambda>v. be_bytes 32 (the (uint_of v))) vs))
      else None)"
| "toy_value _ = None"

fun toy_encode :: "abi_value list \<Rightarrow> byte list option" where
  "toy_encode [] = Some []"
| "toy_encode (v # vs) =
     (case toy_value v of None \<Rightarrow> None | Some p \<Rightarrow> map_option ((@) p) (toy_encode vs))"

function toy_decode :: "byte list \<Rightarrow> abi_value list option" where
  "toy_decode bs =
     (case bs of
        [] \<Rightarrow> Some []
      | tag # rest \<Rightarrow>
          if tag = 0 then
            map_option ((#) (AbiUint (int_from_bytes (take 32 rest)))) (toy_decode (drop 32 rest))
          else if tag = 1 then
            map_option ((#) (AbiBool (take 1 rest = [1]))) (toy_decode (drop 1 rest))
          else if tag = 2 then
            map_option ((#) (AbiAddress (hex_text (take 20 rest)))) (toy_decode (drop 20 rest))
          else if tag = 4 then
            (let n = nat (int_from_bytes (take 32 rest)) in
             map_option ((#) (AbiList (map (AbiUint \<circ> word_at (drop 32 rest)) [0..<n]))) (toy_decode (drop (32 + 32 * n) rest)))
          else
            (let n = nat (int_from_bytes (take 32 rest)) in
             map_option ((#) (AbiBytes (take n (drop 32 rest)))) (toy_decode (drop (32 + n) rest))))"
  by pat_completeness auto
termination by (relation "measure length") auto

declare toy_decode.simps [simp del]

definition toy_checksum :: "string \<Rightarrow> string res" where
  "toy_checksum a = (case toy_address a of None \<Rightarrow> Raise ValueError | Some bs \<Rightarrow> Ok (hex_text bs))"

definition toy_library :: eth_library where
  "toy_library =
     \<lparr>keccak = toy_hash,
      abi_encode = (\<lambda>types vs. case toy_encode vs of None \<Rightarrow> Raise ValueError | Some bs \<Rightarrow> Ok bs),
      encode_packed = (\<lambda>types vs. case vs of
        [AbiAddress a] \<Rightarrow> (case toy_address a of None \<Rightarrow> Raise ValueError | Some bs \<Rightarrow> Ok bs)
      | _ \<Rightarrow> Raise ValueError),
      abi_decode = (\<lambda>types bs. case toy_decode bs of None \<Rightarrow> Raise ValueError | Some vs \<Rightarrow> Ok vs),
      decode_hex = hex_bytes,
      to_checksum_address = toy_checksum,
      is_hex_address = (\<lambda>a. toy_address a \<noteq> None)\<rparr>"

lemma uint_of_Some: "uint_of v = Some n \<Longrightarrow> v = AbiUint n \<and> 0 \<le> n \<and> n < 256 ^ 32"
  by (cases v) (auto split: if_splits)

lemma words_read:
  "list_all (\<lambda>v. uint_of v \<noteq> None) vs \<Longrightarrow>
     map (AbiUint \<circ> word_at (concat (map (\<lambda>v. be_bytes 32 (the (uint_of v))) vs) @ rest)) [0..<length vs] = vs"
proof (induction vs)
  case (Cons v vs)
  then obtain n where n: "uint_of v = Some n" by auto
  let ?bs = "concat (map (\<lambda>v. be_bytes 32 (the (uint_of v))) vs) @ rest"
  have "AbiUint (word_at (be_bytes 32 n @ ?bs) 0) = v"
    using uint_of_Some [OF n] be_bytes_value [of n 32] by (simp add: word_at_def int_from_bytes_def)
  moreover have "word_at (be_bytes 32 n @ ?bs) (Suc i) = word_at ?bs i" for i
    by (simp add: word_at_def)
  moreover have "[0..<length (v # vs)] = 0 # map Suc [0..<length vs]"
    by (simp add: upt_conv_Cons map_Suc_upt del: upt_Suc)
  ultimately show ?case using Cons n by (simp add: comp_def del: upt_Suc)
qed simp

lemma canonical_uints: "list_all (\<lambda>v. uint_of v \<noteq> None) vs \<Longrightarrow> map canonical_value vs = vs"
  by (induction vs) (auto dest!: uint_of_Some)

lemma length_words: "length (concat (map (\<lambda>v. be_bytes 32 (f v)) vs)) = 32 * length vs"
  by (induction vs) simp_all

lemma toy_decode_step:
  "toy_value v = Some p \<Longrightarrow> toy_decode (p @ rest) = map_option ((#) (canonical_value v)) (toy_decode rest)"
proof (induction v rule: toy_value.induct)
  case (1 n)
  then show ?case using be_bytes_value [of n 32]
    by (auto simp: toy_decode.simps [of "0 # be_bytes 32 n @ rest"] int_from_bytes_def split: if_splits)
next
  case (2 b)
  then show ?case by (auto simp: toy_decode.simps [of "1 # c # rest" for c])
next
  case (3 a)
  then obtain bs where "p = 2 # bs" "length bs = 20" "canonical_address a = hex_text bs"
    by (auto simp: toy_address_def split: option.splits if_splits)
  then show ?case by (auto simp: toy_decode.simps [of "2 # bs @ rest"])
next
  case (4 bs)
  then have "p = 3 # be_bytes 32 (int (length bs)) @ bs" "int (length bs) < 256 ^ 32" by (auto split: if_splits)
  moreover from this(2) have "int_from_bytes (be_bytes 32 (int (length bs))) = int (length bs)"
    using be_bytes_value [of "int (length bs)" 32] by (simp add: int_from_bytes_def)
  ultimately show ?case
    by (simp add: toy_decode.simps [of "3 # be_bytes 32 (int (length bs)) @ bs @ rest"])
next
  case (5 vs)
  let ?words = "concat (map (\<lambda>v. be_bytes 32 (the (uint_of v))) vs)"
  from 5 have p: "p = 4 # be_bytes 32 (int (length vs)) @ ?words" "int (length vs) < 256 ^ 32"
    and vs: "list_all (\<lambda>v. uint_of v \<noteq> None) vs" by (auto split: if_splits)
  have n: "int_from_bytes (be_bytes 32 (int (length vs))) = int (length vs)"
    using be_bytes_value [of "int (length vs)" 32] p(2) by (simp add: int_from_bytes_def)
  have "drop (32 + 32 * length vs) (be_bytes 32 (int (length vs)) @ ?words @ rest) = rest"
    by (simp add: length_words)
  then show ?case
    using words_read [OF vs, of rest] canonical_uints [OF vs] n
    by (simp add: p(1) Let_def toy_decode.simps [of "4 # be_bytes 32 (int (length vs)) @ ?words @ rest"])
qed simp_all

lemma toy_decode_encode: "toy_encode vs = Some bs \<Longrightarrow> toy_decode bs = Some (map canonical_value vs)"
proof (induction vs arbitrary: bs)
  case Nil
  then show ?case by (simp add: toy_decode.simps)
next
  case (Cons v vs)
  then obtain p q where "toy_value v = Some p" "toy_encode vs = Some q" "bs = p @ q" by (auto split: option.splits)
  then show ?case using Cons.IH toy_decode_step [of v p q] by simp
qed

lemma length_toy_hash [simp]: "length (toy_hash bs) = 32"
  by (simp add: toy_hash_def Let_def)

lemma toy_selectors:
  "selector toy_library ''allowance(address,address)'' \<noteq> selector toy_library ''isApprovedForAll(address,address)''"
  "selector toy_library ''approve(address,uint256)'' \<noteq> selector toy_library ''setApprovalForAll(address,bool)''"
  by code_simp+

lemma toy_library_ok: "library_ok toy_library"
  unfolding library_ok_def
proof (intro conjI toy_selectors)
  show "decodes_hex toy_library" by (simp add: decodes_hex_def toy_library_def)
  show "decodes_abi toy_library"
    by (auto simp: decodes_abi_def toy_library_def toy_decode_encode split: option.splits)
  show "\<forall>n. 0 \<le> n \<longrightarrow> n \<le> uint256_max \<longrightarrow> is_ok (abi_encode toy_library [''uint256''] [AbiUint n])"
    by (simp add: toy_library_def uint256_max_def)
  show "\<forall>b. is_ok (abi_encode toy_library [''bool''] [AbiBool b])" by (simp add: toy_library_def)
  show "\<forall>bs. length (keccak toy_library bs) = 32" by (simp add: toy_library_def)
qed

section \<open>Addresses\<close>

definition sample_address :: "byte \<Rightarrow> string" where
  "sample_address b = hex_text (replicate 20 b)"

lemma toy_address_text: "length bs = 20 \<Longrightarrow> toy_address (hex_text bs) = Some bs"
proof -
  have "canonical_address (hex_text bs) = hex_text bs"
    by (simp add: canonical_address_def Let_def lower_hex_text) (simp add: hex_text_def starts_with_iff)
  then show "length bs = 20 \<Longrightarrow> toy_address (hex_text bs) = Some bs"
    unfolding toy_address_def by (simp add: hex_text_def)
qed

lemma toy_sample_address [simp]: "toy_address (sample_address b) = Some (replicate 20 b)"
  by (simp add: sample_address_def toy_address_text)

definition sample_config :: environment_config where
  "sample_config = PRODUCTION\<lparr>collateral_token := sample_address 1, conditional_tokens := sample_address 2,
     standard_exchange := sample_address 3, neg_risk_exchange := sample_address 4,
     collateral_adapter := sample_address 5, neg_risk_collateral_adapter := sample_address 6,
     protocol_v2_router := sample_address 7, exchange_v3 := sample_address 8,
     perps_deposit_contract := sample_address 9, auto_redeem_operator := sample_address 10,
     binary_module := sample_address 11, neg_risk_module := sample_address 12,
     position_manager := sample_address 13, neg_risk_adapter := sample_address 14\<rparr>"

definition sample_wallet :: string where
  "sample_wallet = sample_address 160"

lemma sample_wallet_checksum: "to_checksum_address toy_library sample_wallet = Ok sample_wallet"
  by (simp add: toy_library_def toy_checksum_def sample_wallet_def) (simp add: sample_address_def)

lemma toy_encodes_addresses:
  "is_ok (contract_call toy_library to signature types [AbiAddress (sample_address a), AbiAddress (sample_address b)])"
  "is_ok (contract_call toy_library to signature types [AbiAddress (sample_address a), AbiUint uint256_max])"
  "is_ok (contract_call toy_library to signature types [AbiAddress (sample_address a), AbiBool v])"
  by (simp_all add: contract_call_def toy_library_def is_ok_iff uint256_max_def)

section \<open>A node\<close>

text \<open>It answers a batch of at most \<open>k\<close> calls in reverse order and refuses a larger one.\<close>

definition node_response :: "node_answers \<Rightarrow> pyval \<Rightarrow> pyval" where
  "node_response answer v =
     (case v of
        PDict e \<Rightarrow>
          (case dict_get ''params'' e of
             PList [PDict request, PStr block] \<Rightarrow>
               (case (dict_get ''to'' request, dict_get ''data'' request) of
                  (PStr to, PStr data) \<Rightarrow> PDict [(''id'', dict_get ''id'' e), (''result'', PStr (answer block (to, data)))]
                | _ \<Rightarrow> PNone)
           | _ \<Rightarrow> PNone)
      | _ \<Rightarrow> PNone)"

definition reversing_node :: "nat \<Rightarrow> node_answers \<Rightarrow> unit post_json" where
  "reversing_node k answer v w =
     (case v of
        PList calls \<Rightarrow>
          (if length calls \<le> k then Ok (PList (rev (map (node_response answer) calls)))
           else Raise (RequestRejectedError 503 ''Service Unavailable'' None None), w)
      | _ \<Rightarrow> (Ok (node_response answer v), w))"

lemma node_response_serves: "serves_call answer block call (node_response answer (PDict (eth_call_envelope block call)))"
  by (cases call) (simp add: serves_call_def node_response_def eth_call_envelope_def envelope_of_def call_params_def
      dict_get_def)

lemma serves_responds: "serves_call answer block call v \<Longrightarrow> responds_to answer block call v"
  by (auto simp: serves_call_def responds_to_def)

lemma node_response_responds:
  "responds_to answer block call (node_response answer (PDict (eth_call_envelope block call)))"
  by (rule serves_responds [OF node_response_serves])

lemma reversing_node_honest: "honest_node answer (reversing_node k answer)"
  unfolding honest_node_def
proof (intro conjI allI impI)
  fix block call w v w'
  assume "reversing_node k answer (PDict (eth_call_envelope block call)) w = (Ok v, w')"
  then have "v = node_response answer (PDict (eth_call_envelope block call))" by (simp add: reversing_node_def)
  then show "responds_to answer block call v" using node_response_responds [of answer block call] by simp
next
  fix block calls w v w'
  assume "reversing_node k answer (PList (map (\<lambda>call. PDict (eth_call_envelope block call)) calls)) w = (Ok v, w')"
  then have "v = PList (rev (map (\<lambda>call. node_response answer (PDict (eth_call_envelope block call))) calls))"
    by (auto simp: reversing_node_def comp_def split: if_splits)
  moreover have "\<exists>call\<in>set calls. responds_to answer block call item"
    if "item \<in> (\<lambda>call. node_response answer (PDict (eth_call_envelope block call))) ` set calls" for item
    using that node_response_responds [of answer block] by blast
  ultimately show "\<exists>items. v = PList items \<and> (\<forall>item\<in>set items. \<exists>call\<in>set calls. responds_to answer block call item)"
    by simp
qed

lemma reversing_node_capacity: "node_capacity k answer (reversing_node k answer)"
  unfolding node_capacity_def
proof (intro conjI allI)
  fix block call w
  show "\<exists>v w'. reversing_node k answer (PDict (eth_call_envelope block call)) w = (Ok v, w') \<and> serves_call answer block call v"
    using node_response_serves [of answer block call] by (simp add: reversing_node_def)
next
  fix block calls w
  let ?items = "map (\<lambda>call. node_response answer (PDict (eth_call_envelope block call))) calls"
  have "list_all2 (serves_call answer block) calls ?items"
    by (simp add: list_all2_conv_all_nth node_response_serves)
  then show "if length calls \<le> k then
      (\<exists>items items' w'. reversing_node k answer (PList (map (\<lambda>call. PDict (eth_call_envelope block call)) calls)) w
           = (Ok (PList items), w')
         \<and> mset items' = mset items \<and> list_all2 (serves_call answer block) calls items')
    else (\<exists>e w'. reversing_node k answer (PList (map (\<lambda>call. PDict (eth_call_envelope block call)) calls)) w = (Raise e, w')
         \<and> is_server_error e)"
    by (auto simp: reversing_node_def comp_def is_server_error_def intro!: exI [of _ ?items])
qed

definition idle_client :: "unit rpc_client" where
  "idle_client = \<lparr>rpc_id = 0, rpc_verified_chain_id = None, rpc_world = ()\<rparr>"

section \<open>Wallets\<close>

definition sample_factories :: wallet_derivation where
  "sample_factories = \<lparr>proxy_factory = sample_address 1, proxy_implementation = sample_address 2,
     safe_factory = sample_address 3, safe_init_code_hash = hex_text (replicate 32 4),
     deposit_wallet_factory = sample_address 5, deposit_wallet_implementation = sample_address 6,
     deposit_wallet_beacon = sample_address 7\<rparr>"

text \<open>A hash that keeps the code hash of a creation and otherwise counts.\<close>

definition counting_hash :: "byte list \<Rightarrow> byte list" where
  "counting_hash bs = (if length bs = 85 then drop 53 bs else replicate 31 0 @ [of_nat (length bs)])"

definition counting_library :: eth_library where
  "counting_library = toy_library\<lparr>keccak := counting_hash\<rparr>"

lemma hex_bytes_sample [simp]: "hex_bytes (sample_address b) = Ok (replicate 20 b)"
  by (simp add: sample_address_def)

lemma hex_text_inject [simp]: "hex_text a = hex_text b \<longleftrightarrow> a = b"
  by (metis hex_bytes_hex_text Inr_inject)

lemma counting_simps [simp]:
  "to_checksum_address counting_library = toy_checksum" "keccak counting_library = counting_hash"
  "length (counting_hash bs) = 32"
  by (simp_all add: counting_library_def toy_library_def counting_hash_def)

lemma counting_create2:
  "length h = 32 \<Longrightarrow> length salt = 32 \<Longrightarrow>
     create2 counting_library (sample_address b) salt h = Ok (hex_text (drop 12 h))"
  by (simp add: create2_def toy_checksum_def toy_address_text counting_hash_def)

lemma counting_args:
  "\<exists>args. deposit_wallet_args counting_library (sample_address s) sample_factories = Ok args \<and> length args = 86"
  by (simp add: deposit_wallet_args_def sample_factories_def counting_library_def toy_library_def rjust32_def)

lemma lengths:
  "length ERC1967_CONST1 = 32" "length ERC1967_CONST2 = 32" "length (hex_constant ''6009'') = 2"
  "length ERC1967_BEACON_CONST1 = 32" "length ERC1967_BEACON_CONST2 = 32" "length ERC1967_BEACON_CONST3 = 23"
  by code_simp+

lemma prefix_ok:
  "length args = 86 \<Longrightarrow> base < 2 ^ 79 \<Longrightarrow> 0 \<le> base \<Longrightarrow> \<exists>p. init_code_prefix base args = Ok p \<and> length p = 10"
  by (simp add: init_code_prefix_def int_to_bytes_def)

lemma counting_deposit_wallets:
  "derive_uups_deposit_wallet_address counting_library (sample_address s) sample_factories
     = Ok (hex_text (replicate 19 0 @ [182]))"
  "derive_beacon_deposit_wallet_address counting_library (sample_address s) sample_factories
     = Ok (hex_text (replicate 19 0 @ [203]))"
proof -
  obtain args where args: "deposit_wallet_args counting_library (sample_address s) sample_factories = Ok args"
    "length args = 86" using counting_args by blast
  obtain p where p: "init_code_prefix ERC1967_PREFIX_BASE args = Ok p" "length p = 10"
    using prefix_ok [OF args(2), of ERC1967_PREFIX_BASE] by (auto simp: ERC1967_PREFIX_BASE_def)
  obtain q where q: "init_code_prefix ERC1967_BEACON_PREFIX_BASE args = Ok q" "length q = 10"
    using prefix_ok [OF args(2), of ERC1967_BEACON_PREFIX_BASE] by (auto simp: ERC1967_BEACON_PREFIX_BASE_def)
  show "derive_uups_deposit_wallet_address counting_library (sample_address s) sample_factories
     = Ok (hex_text (replicate 19 0 @ [182]))"
    using args p by (simp add: derive_uups_deposit_wallet_address_def uups_deposit_init_code_hash_def
        sample_factories_def counting_create2) (simp add: counting_hash_def lengths)
  show "derive_beacon_deposit_wallet_address counting_library (sample_address s) sample_factories
     = Ok (hex_text (replicate 19 0 @ [203]))"
    using args q by (simp add: derive_beacon_deposit_wallet_address_def beacon_deposit_init_code_hash_def
        sample_factories_def counting_create2) (simp add: counting_hash_def lengths)
qed

lemma counting_safe:
  "derive_safe_wallet_address counting_library (sample_address s) sample_factories = Ok (sample_address 4)"
proof -
  have "\<exists>bs. abi_encode counting_library [''address''] [AbiAddress (sample_address s)] = Ok bs"
    by (simp add: counting_library_def toy_library_def)
  then show ?thesis
    by (auto simp: derive_safe_wallet_address_def sample_factories_def counting_create2)
      (simp add: sample_address_def)
qed


lemma counting_proxy:
  "derive_proxy_wallet_address counting_library (sample_address s) sample_factories
     = Ok (hex_text (replicate 19 0 @ [167]))"
proof -
  have texts: "''3d3d606380380380913d393d73'' = bytes_hex [0x3d, 0x3d, 0x60, 0x63, 0x80, 0x38, 0x03, 0x80, 0x91, 0x3d, 0x39, 0x3d, 0x73]"
    "''5af4602a57600080fd5b602d8060366000396000f3363d3d373d3d3d363d73'' = bytes_hex [0x5a, 0xf4, 0x60, 0x2a, 0x57, 0x60, 0x00, 0x80, 0xfd, 0x5b, 0x60, 0x2d, 0x80, 0x60, 0x36, 0x60, 0x00, 0x39, 0x60, 0x00, 0xf3, 0x36, 0x3d, 0x3d, 0x37, 0x3d, 0x3d, 0x3d, 0x36, 0x3d, 0x73]"
    "''5af43d82803e903d91602b57fd5bf352e831dd'' = bytes_hex [0x5a, 0xf4, 0x3d, 0x82, 0x80, 0x3e, 0x90, 0x3d, 0x91, 0x60, 0x2b, 0x57, 0xfd, 0x5b, 0xf3, 0x52, 0xe8, 0x31, 0xdd]"
    "''0000000000000000000000000000000000000000000000000000000000000020'' = bytes_hex (replicate 31 0 @ [0x20])" "''0000000000000000000000000000000000000000000000000000000000000000'' = bytes_hex (replicate 32 0)"
    by code_simp+
  have address: "lower (strip_0x (sample_address b)) = bytes_hex (replicate 20 b)" for b
    using lower_hex_text [of "replicate 20 b"] by (simp add: sample_address_def strip_0x_def hex_text_def starts_with_iff lower_def)
  show ?thesis
    unfolding derive_proxy_wallet_address_def proxy_bytecode_text_def sample_factories_def
      wallet_derivation.select_convs address texts bytes_hex_append [symmetric] bytes_fromhex_hex
    by (simp add: counting_create2) (simp add: counting_library_def toy_library_def counting_hash_def)
qed

section \<open>Calls and transactions\<close>

definition sample_calls :: "transaction_call list" where
  "sample_calls = [\<lparr>tc_to = sample_address 1, tc_data = ''0x0102'', tc_value = 0\<rparr>,
     \<lparr>tc_to = sample_address 2, tc_data = ''0x'', tc_value = 7\<rparr>]"

definition sample_legs :: "int list" where
  "sample_legs = [2 ^ 248 + 256 * 5 + 1, 2 * 2 ^ 248 + 256 * 7]"

definition nonce_relayer :: "nat relayer" where
  "nonce_relayer =
     \<lparr>rl_get_json = (\<lambda>path params n. (Ok (PDict [(''address'', PStr ''0x''), (''nonce'', PStr ''1'')]), n)),
      rl_post_json = (\<lambda>path payload n.
        (if n = 0 then Raise (RequestRejectedError 400 ''batch nonce 1 does not match on-chain nonce 2'' None None)
         else Ok (PDict [(''state'', PStr ''STATE_NEW''), (''transactionHash'', PStr []), (''transactionID'', PStr ''t'')]),
         n + 1)),
      rl_sleep = (\<lambda>n. n), rl_time = (\<lambda>n. 1000)\<rparr>"

definition sample_signer :: local_account where
  "sample_signer = \<lparr>la_address = ''0xaa'', la_sign_batch = (\<lambda>batch. Ok [7, word_of_int (db_nonce batch)]),
     la_encode_safe = (\<lambda>tx. Raise ValueError), la_sign_message = (\<lambda>bs. Ok bs)\<rparr>"

definition sample_context :: "nat secure_context" where
  "sample_context =
     \<lparr>sx_has_api_key = True, sx_wallet = ''0xbb'', sx_wallet_type = DEPOSIT_WALLET, sx_signer_type = OWNER,
      sx_signer = sample_signer, sx_config = PRODUCTION, sx_relayer = nonce_relayer,
      sx_post_rpc = (\<lambda>v n. (Raise TransportError, n)), sx_lib = toy_library\<rparr>"

definition quiet_client :: "(nat \<times> submission_log) rpc_client" where
  "quiet_client = \<lparr>rpc_id = 0, rpc_verified_chain_id = None, rpc_world = (0, [])\<rparr>"

definition sample_call :: transaction_call where
  "sample_call = \<lparr>tc_to = ''0xcc'', tc_data = ''0x01'', tc_value = 0\<rparr>"

end
