(* ===== verification/Chain_Properties.thy ===== *)
theory Chain_Properties imports Chain_Examples begin

text \<open>
  The properties of wallets and transactions: batches of reads, the submission of gasless transactions and
  the wait for them, kinds of wallets, bundled calls, approvals and combinations.
\<close>

section \<open>Reads\<close>

text \<open>C22: Results of a batch of calls belong to their requests, whatever the order in which the node
  answers, whether or not the batch had to be split, and whichever of its answers are errors: when the node
  says the truth about each request id it answers, what the batch returns is the list of the values of the
  requests.\<close>

theorem batch_calls_aligned:
  assumes "honest_node answer post" "eth_call_batch post requests block c = (Ok rs, c')"
  shows "rs = map (answer block) requests"
  using honest_eth_call_batch [OF assms] .

definition sample_answers :: node_answers where
  "sample_answers block call = ''0x'' @ drop 2 (snd call) @ ''00''"

definition sample_requests :: "(string \<times> string) list" where
  "sample_requests = [(''0xaa'', ''0x01''), (''0xbb'', ''0x02''), (''0xcc'', ''0x03'')]"

theorem batch_calls_aligned_witness:
  "map (sample_answers ''latest'') sample_requests = [''0x0100'', ''0x0200'', ''0x0300'']
   \<and> (\<exists>c'. eth_call_batch (reversing_node 2 sample_answers) sample_requests ''latest'' idle_client
        = (Ok [''0x0100'', ''0x0200'', ''0x0300''], c'))"
proof -
  obtain rs c' where run:
    "eth_call_batch (reversing_node 2 sample_answers) sample_requests ''latest'' idle_client = (Ok rs, c')"
  proof -
    have "is_ok (fst (eth_call_batch (reversing_node 2 sample_answers) sample_requests ''latest'' idle_client))"
      by code_simp
    then show ?thesis using that
      by (cases "eth_call_batch (reversing_node 2 sample_answers) sample_requests ''latest'' idle_client")
        (auto simp: is_ok_iff)
  qed
  from batch_calls_aligned [OF reversing_node_honest run]
  have "rs = map (sample_answers ''latest'') sample_requests" .
  then show ?thesis using run by (simp add: sample_answers_def sample_requests_def)
qed

text \<open>A node that refuses batches above some size with a server error is still read completely: the
  batch is halved until the parts are accepted.\<close>

theorem batch_calls_served:
  assumes "node_capacity k answer post" "\<And>block request. is_rpc_hex_string (answer block request)"
  shows "\<exists>c'. eth_call_batch post requests block c = (Ok (map (answer block) requests), c')"
  using served_split [OF assms, of block requests c] by (simp add: eth_call_batch_def)

definition terse_answers :: node_answers where
  "terse_answers block request = (if snd request = ''0x01'' then ''0x0a'' else ''0x0b'')"

theorem batch_calls_served_witness:
  "\<exists>c'. eth_call_batch (reversing_node 2 terse_answers) sample_requests ''latest'' idle_client
     = (Ok [''0x0a'', ''0x0b'', ''0x0b''], c')"
proof -
  have "is_rpc_hex_string ''0x0a''" "is_rpc_hex_string ''0x0b''" by code_simp+
  then have "is_rpc_hex_string (terse_answers block request)" for block request
    by (simp add: terse_answers_def)
  from batch_calls_served [OF reversing_node_capacity this]
  have "\<exists>c'. eth_call_batch (reversing_node 2 terse_answers) sample_requests ''latest'' idle_client
     = (Ok (map (terse_answers ''latest'') sample_requests), c')" .
  then show ?thesis by (simp add: terse_answers_def sample_requests_def)
qed

section \<open>Gasless transactions\<close>

text \<open>C18: A gasless transaction is submitted at most 22 times (eleven attempts, each at most once more with
  the nonce that the relayer named). Every envelope posted is signed for exactly this batch of calls; all
  but the last were refused; and a handle is returned exactly when the last one was accepted, with the
  transaction the relayer named for it.\<close>

theorem gasless_submissions:
  assumes "prepare_gasless_transaction (logging ctx) calls metadata c = (r, c')"
  shows "\<exists>posted. submissions c' = submissions c @ posted \<and> length posted \<le> 22
     \<and> (\<forall>(payload, response)\<in>set posted. signed_payload ctx calls metadata payload)
     \<and> (\<forall>(payload, response)\<in>set (butlast posted). \<not> is_ok response)
     \<and> (\<forall>handle. r = Ok handle \<longleftrightarrow>
          (\<exists>data response. posted \<noteq> [] \<and> snd (last posted) = Ok data
             \<and> parse_execute_response data = Ok response \<and> handle = gasless_handle ctx response))"
proof (cases "sx_has_api_key ctx \<and> sx_wallet_type ctx \<noteq> EOA \<and> calls \<noteq> [] \<and> length metadata \<le> METADATA_MAX_LENGTH")
  case True
  then have "submit_loop (logging ctx) (submit_for_wallet_type (logging ctx) calls metadata) 10 c = (r, c')"
    using assms
    by (simp add: prepare_gasless_transaction_def submit_gasless_with_retry_def GASLESS_SUBMIT_RETRY_ATTEMPTS_def)
  from retried_submissions [OF round_of_submissions this] obtain posted r' where
    posted: "submissions c' = submissions c @ posted" "run_of_submissions ctx calls metadata 22 posted r'"
    and handle: "\<forall>handle. r = Ok handle \<longleftrightarrow> (\<exists>response. r' = Ok response \<and> handle = gasless_handle ctx response)"
    by auto
  have "(\<exists>response. r' = Ok response \<and> handle = gasless_handle ctx response) \<longleftrightarrow>
      (\<exists>data response. posted \<noteq> [] \<and> snd (last posted) = Ok data
         \<and> parse_execute_response data = Ok response \<and> handle = gasless_handle ctx response)" for handle
    using posted(2) unfolding run_of_submissions_def is_ok_iff by metis
  then show ?thesis using posted handle by (intro exI [of _ posted]) (simp add: run_of_submissions_def)
next
  case False
  then have "c' = c" "\<not> is_ok r"
    using assms by (auto simp: prepare_gasless_transaction_def not_le split: if_splits)
  then show ?thesis by (intro exI [of _ "[]"]) (auto simp: is_ok_iff)
qed

theorem gasless_submissions_witness:
  "\<exists>handle c' posted. prepare_gasless_transaction (logging sample_context) [sample_call] [] quiet_client = (Ok handle, c')
     \<and> submissions c' = posted \<and> length posted = 2
     \<and> (\<forall>(payload, response)\<in>set posted. signed_payload sample_context [sample_call] [] payload)
     \<and> gh_transaction_id handle = ''t''"
proof -
  let ?run = "prepare_gasless_transaction (logging sample_context) [sample_call] [] quiet_client"
  have run: "(case fst ?run of Inl e \<Rightarrow> False | Inr handle \<Rightarrow> gh_transaction_id handle = ''t'')
      \<and> length (submissions (snd ?run)) = 2" by code_simp
  then obtain handle c' where *: "?run = (Ok handle, c')" "gh_transaction_id handle = ''t''" "length (submissions c') = 2"
    by (cases ?run) (auto split: sum.splits)
  moreover have "submissions quiet_client = []" by (simp add: submissions_def quiet_client_def)
  ultimately have "\<forall>(payload, response)\<in>set (submissions c'). signed_payload sample_context [sample_call] [] payload"
    using gasless_submissions [OF *(1)] by auto
  with * show ?thesis by (intro exI conjI) (auto intro: *)
qed

text \<open>Waiting for a gasless transaction ends with the first poll that decides it, after at most the
  configured number of polls: a confirmed one gives its outcome, a failed or invalid one and an error of the
  request give their errors, and a timeout is raised exactly when all the polls left it undecided.\<close>

theorem gasless_wait_first_decision:
  "gasless_handle_wait relayer handle w = (r, w') \<longleftrightarrow>
     (let i = gh_transaction_id handle; h = gh_transaction_hash handle; max_polls = nat (gh_max_polls handle)
      in (relayed.undecided relayer i h max_polls w w' \<and> r = Raise TimeoutError)
       \<or> (\<exists>k<max_polls. \<exists>w1. relayed.undecided relayer i h k w w1
            \<and> poll_attempt relayer i h w1 = (map_ok Some r, w')))"
  unfolding gasless_handle_wait_def poll_until_terminal_def relayed.loop_result Let_def by blast

section \<open>Kinds of wallets\<close>

text \<open>The wallets that are derived for a signer are classified as what they are. With distinct
  addresses, the signer's own address is an EOA, both forms of its deposit wallet are deposit wallets of
  the owner, its proxy and its Safe are these; and any other wallet is a deposit wallet that the signer
  uses through a session key. In particular the wallet that the current factory would deploy is found.\<close>

theorem derived_wallets_classified:
  assumes checksum: "\<forall>a c. to_checksum_address lib a = Ok c \<longrightarrow> to_checksum_address lib c = Ok c"
    and signer: "to_checksum_address lib signer = Ok s"
    and derived: "derive_beacon_deposit_wallet_address lib s config = Ok beacon"
      "derive_uups_deposit_wallet_address lib s config = Ok uups"
      "derive_proxy_wallet_address lib s config = Ok proxy"
      "derive_safe_wallet_address lib s config = Ok safe"
    and distinct: "distinct [s, beacon, uups, proxy, safe]"
  shows "classify_account lib signer signer config = Ok \<lparr>acl_signer_type = OWNER, acl_wallet_type = EOA\<rparr>
    \<and> classify_account lib signer beacon config = Ok \<lparr>acl_signer_type = OWNER, acl_wallet_type = DEPOSIT_WALLET\<rparr>
    \<and> classify_account lib signer uups config = Ok \<lparr>acl_signer_type = OWNER, acl_wallet_type = DEPOSIT_WALLET\<rparr>
    \<and> classify_account lib signer proxy config = Ok \<lparr>acl_signer_type = OWNER, acl_wallet_type = POLY_PROXY\<rparr>
    \<and> classify_account lib signer safe config = Ok \<lparr>acl_signer_type = OWNER, acl_wallet_type = GNOSIS_SAFE\<rparr>
    \<and> (\<forall>wallet w. to_checksum_address lib wallet = Ok w \<longrightarrow>
         (classify_account lib signer wallet config = Ok \<lparr>acl_signer_type = SESSION_KEY, acl_wallet_type = DEPOSIT_WALLET\<rparr>
            \<longleftrightarrow> w \<notin> {s, beacon, uups, proxy, safe}))
    \<and> (\<forall>post c current c'. derive_current_deposit_wallet_address lib post s config c = (Ok current, c') \<longrightarrow>
         classify_account lib signer current config = Ok \<lparr>acl_signer_type = OWNER, acl_wallet_type = DEPOSIT_WALLET\<rparr>)"
proof -
  have create2: "to_checksum_address lib a = Ok a" if "create2 lib f salt h = Ok a" for f salt h a
    using that checksum by (auto simp: create2_def)
  have known: "to_checksum_address lib beacon = Ok beacon" "to_checksum_address lib uups = Ok uups"
    "to_checksum_address lib proxy = Ok proxy" "to_checksum_address lib safe = Ok safe"
    using derived
    by (auto simp: derive_beacon_deposit_wallet_address_def derive_uups_deposit_wallet_address_def
        derive_proxy_wallet_address_def derive_safe_wallet_address_def create2 split: option.splits)
  have classify: "classify_account lib signer wallet config =
      Ok (if w = s then \<lparr>acl_signer_type = OWNER, acl_wallet_type = EOA\<rparr>
          else if w = beacon \<or> w = uups then \<lparr>acl_signer_type = OWNER, acl_wallet_type = DEPOSIT_WALLET\<rparr>
          else if w = proxy then \<lparr>acl_signer_type = OWNER, acl_wallet_type = POLY_PROXY\<rparr>
          else if w = safe then \<lparr>acl_signer_type = OWNER, acl_wallet_type = GNOSIS_SAFE\<rparr>
          else \<lparr>acl_signer_type = SESSION_KEY, acl_wallet_type = DEPOSIT_WALLET\<rparr>)"
    if "to_checksum_address lib wallet = Ok w" for wallet w
    using that signer derived by (simp add: classify_account_def try_classify_wallet_type_def checksum_or_input_error_def)
  have current: "current = beacon \<or> current = uups"
    if "derive_current_deposit_wallet_address lib post s config c = (Ok current, c')" for post c current c'
    using that derived by (auto simp: derive_current_deposit_wallet_address_def bindS_eq_Ok split: if_splits)
  show ?thesis
  proof (intro conjI allI impI)
    fix post c current c'
    assume "derive_current_deposit_wallet_address lib post s config c = (Ok current, c')"
    from current [OF this] show "classify_account lib signer current config
        = Ok \<lparr>acl_signer_type = OWNER, acl_wallet_type = DEPOSIT_WALLET\<rparr>"
      using known classify distinct by auto
  qed (use classify [OF signer] classify known distinct in auto)
qed
theorem derived_wallets_classified_witness:
  "classify_account counting_library (sample_address 9) (hex_text (replicate 19 0 @ [203])) sample_factories
     = Ok \<lparr>acl_signer_type = OWNER, acl_wallet_type = DEPOSIT_WALLET\<rparr>
   \<and> classify_account counting_library (sample_address 9) (sample_address 4) sample_factories
     = Ok \<lparr>acl_signer_type = OWNER, acl_wallet_type = GNOSIS_SAFE\<rparr>"
proof -
  have checksum: "\<forall>a c. to_checksum_address counting_library a = Ok c \<longrightarrow> to_checksum_address counting_library c = Ok c"
  proof (intro allI impI)
    fix a c
    assume "to_checksum_address counting_library a = Ok c"
    then obtain bs where "length bs = 20" "c = hex_text bs"
      by (auto simp: toy_checksum_def toy_address_def split: option.splits if_splits)
    then show "to_checksum_address counting_library c = Ok c" by (simp add: toy_checksum_def toy_address_text)
  qed
  have signer: "to_checksum_address counting_library (sample_address 9) = Ok (sample_address 9)"
    by (simp add: toy_checksum_def) (simp add: sample_address_def)
  have "distinct [sample_address 9, hex_text (replicate 19 0 @ [203]), hex_text (replicate 19 0 @ [182]),
      hex_text (replicate 19 0 @ [167]), sample_address 4]"
  proof -
    have "distinct [replicate 20 (9 :: byte), replicate 19 0 @ [203], replicate 19 0 @ [182], replicate 19 0 @ [167], replicate 20 4]"
      by code_simp
    moreover have "inj hex_text" by (rule injI) simp
    ultimately have "distinct (map hex_text [replicate 20 (9 :: byte), replicate 19 0 @ [203], replicate 19 0 @ [182],
        replicate 19 0 @ [167], replicate 20 4])"
      unfolding distinct_map by (blast intro: inj_on_subset)
    then show ?thesis by (simp only: list.map sample_address_def)
  qed
  from derived_wallets_classified [OF checksum signer counting_deposit_wallets(2,1) counting_proxy counting_safe this]
  show ?thesis by (elim conjE) (intro conjI)
qed

section \<open>Approvals\<close>

text \<open>C19: Approvals are read exactly and completed: against an honest node the missing approvals are
  those required ones that the wallet has not granted; there is nothing to call exactly when the wallet is
  fully approved; and once the contracts have executed the calls, every honest node says that nothing is
  missing any more.\<close>

theorem approvals_completed:
  assumes lib: "library_ok lib" and ts: "allowances_ok ts" and wallet: "to_checksum_address lib wallet = Ok w"
    and node: "honest_node (contract_answer lib ts) post"
    and read: "get_trading_approvals_state lib post wallet config c = (Ok state, c')"
    and calls: "build_missing_trading_approval_calls lib (tas_missing state) = Ok calls"
    and node': "honest_node (contract_answer lib (execute_grants lib w calls ts)) post'"
    and again: "get_trading_approvals_state lib post' wallet config d = (Ok state', d')"
  shows "tas_missing state = \<lparr>mta_erc20 = filter (ungranted_erc20 ts w) (required_erc20 config),
           mta_erc1155 = filter (ungranted_erc1155 ts w) (required_erc1155 config)\<rparr>
       \<and> (tas_is_fully_approved state \<longleftrightarrow> calls = []) \<and> tas_is_fully_approved state'"
proof -
  have state: "state = approvals_state (filter (ungranted_erc20 ts w) (required_erc20 config))
      (filter (ungranted_erc1155 ts w) (required_erc1155 config))"
    using approvals_read [OF lib ts node read] wallet by auto
  note granted = missing_granted [OF lib ts calls [unfolded state]]
  then have "allowances_ok (execute_grants lib w calls ts)" by simp
  then have "state' = approvals_state (filter (ungranted_erc20 (execute_grants lib w calls ts) w) (required_erc20 config))
      (filter (ungranted_erc1155 (execute_grants lib w calls ts) w) (required_erc1155 config))"
    using approvals_read [OF lib _ node' again] wallet by (metis Inr_inject)
  then have "tas_is_fully_approved state'"
    using granted by (simp add: approvals_state_def filter_empty_conv)
  moreover obtain c20 c1155 where
    "traverseE (\<lambda>a. erc20_approval_call lib (e20_token_address a) (e20_spender a) (PInt (e20_amount a)))
        (mta_erc20 (tas_missing state)) = Ok c20"
    "traverseE (\<lambda>a. erc1155_set_approval_for_all_call lib (e1155_token_address a) (e1155_operator a) True)
        (mta_erc1155 (tas_missing state)) = Ok c1155" "calls = c20 @ c1155"
    using calls by (auto simp: build_missing_trading_approval_calls_def)
  then have "tas_is_fully_approved state \<longleftrightarrow> calls = []"
    by (auto simp: state approvals_state_def dest!: traverseE_length simp flip: length_0_conv)
  ultimately show ?thesis by (simp add: state approvals_state_def)
qed


definition no_tokens :: token_state where
  "no_tokens = \<lparr>ts_allowance = (\<lambda>token owner spender. 0), ts_approved = (\<lambda>token owner operator. False)\<rparr>"

lemma traverseE_is_ok: "(\<And>x. x \<in> set xs \<Longrightarrow> is_ok (f x)) \<Longrightarrow> is_ok (traverseE f xs)"
  by (induction xs) (fastforce simp: is_ok_iff)+

lemma sample_checks:
  "is_ok (build_approval_checks toy_library sample_wallet (required_erc20 sample_config) (required_erc1155 sample_config))"
proof -
  have "is_ok (traverseE (\<lambda>a. erc20_allowance_call toy_library (e20_token_address a) sample_wallet (e20_spender a))
      (required_erc20 sample_config))"
    "is_ok (traverseE (\<lambda>a. erc1155_is_approved_for_all_call toy_library (e1155_token_address a) sample_wallet (e1155_operator a))
      (required_erc1155 sample_config))"
    by (rule traverseE_is_ok; auto simp: required_erc20_def required_erc1155_def sample_config_def sample_wallet_def
        erc20_allowance_call_def erc1155_is_approved_for_all_call_def toy_encodes_addresses)+
  then show ?thesis by (auto simp: build_approval_checks_def is_ok_iff)
qed

lemma sample_grants:
  "is_ok (build_missing_trading_approval_calls toy_library
     \<lparr>mta_erc20 = filter p (required_erc20 sample_config), mta_erc1155 = filter q (required_erc1155 sample_config)\<rparr>)"
proof -
  have "is_ok (erc20_approval_call toy_library (e20_token_address a) (e20_spender a) (PInt (e20_amount a)))"
    if "a \<in> set (required_erc20 sample_config)" for a
  proof -
    obtain t s where "e20_token_address a = sample_address t" "e20_spender a = sample_address s" "e20_amount a = uint256_max"
      using \<open>a \<in> set _\<close> by (auto simp: required_erc20_def sample_config_def)
    then show ?thesis by (simp add: erc20_approval_call_def expect_uint256_def toy_encodes_addresses)
      (simp add: uint256_max_def)
  qed
  then have "is_ok (traverseE (\<lambda>a. erc20_approval_call toy_library (e20_token_address a) (e20_spender a) (PInt (e20_amount a)))
      (filter p (required_erc20 sample_config)))"
    by (intro traverseE_is_ok) simp
  moreover have "is_ok (erc1155_set_approval_for_all_call toy_library (e1155_token_address a) (e1155_operator a) True)"
    if "a \<in> set (required_erc1155 sample_config)" for a
    using that by (auto simp: required_erc1155_def sample_config_def erc1155_set_approval_for_all_call_def toy_encodes_addresses)
  then have "is_ok (traverseE (\<lambda>a. erc1155_set_approval_for_all_call toy_library (e1155_token_address a) (e1155_operator a) True)
      (filter q (required_erc1155 sample_config)))"
    by (intro traverseE_is_ok) simp
  ultimately show ?thesis by (auto simp: build_missing_trading_approval_calls_def is_ok_iff)
qed

theorem approvals_completed_witness:
  "\<exists>state calls state' c'. fst (get_trading_approvals_state toy_library
        (reversing_node 4 (contract_answer toy_library no_tokens)) sample_wallet sample_config idle_client) = Ok state
    \<and> build_missing_trading_approval_calls toy_library (tas_missing state) = Ok calls
    \<and> length (mta_erc20 (tas_missing state)) = 7 \<and> calls \<noteq> []
    \<and> get_trading_approvals_state toy_library
        (reversing_node 4 (contract_answer toy_library (execute_grants toy_library sample_wallet calls no_tokens)))
        sample_wallet sample_config idle_client = (Ok state', c')
    \<and> tas_is_fully_approved state'"
proof -
  have ts: "allowances_ok no_tokens" by (simp add: allowances_ok_def no_tokens_def uint256_max_def)
  obtain checks20 checks1155 where checks: "build_approval_checks toy_library sample_wallet
      (required_erc20 sample_config) (required_erc1155 sample_config) = Ok (checks20, checks1155)"
    using sample_checks by (auto simp: is_ok_iff)
  let ?node = "\<lambda>ts. reversing_node 4 (contract_answer toy_library ts)"
  have readable: "\<exists>state c'. get_trading_approvals_state toy_library (?node ts) sample_wallet sample_config idle_client = (Ok state, c')"
    if "allowances_ok ts" for ts
    using approvals_readable [OF toy_library_ok that reversing_node_capacity sample_wallet_checksum checks] .
  from readable [OF ts] obtain state c where
    state: "get_trading_approvals_state toy_library (?node no_tokens) sample_wallet sample_config idle_client = (Ok state, c)"
    by blast
  have known: "state = approvals_state (filter (ungranted_erc20 no_tokens sample_wallet) (required_erc20 sample_config))
      (filter (ungranted_erc1155 no_tokens sample_wallet) (required_erc1155 sample_config))"
    using approvals_read [OF toy_library_ok ts reversing_node_honest state] sample_wallet_checksum by (metis Inr_inject)
  obtain calls where calls: "build_missing_trading_approval_calls toy_library (tas_missing state) = Ok calls"
    using sample_grants known by (metis approvals_state_def is_ok_iff trading_approvals_state.select_convs(1))
  have "allowances_ok (execute_grants toy_library sample_wallet calls no_tokens)"
    using missing_granted [OF toy_library_ok ts calls [unfolded known]] by simp
  from readable [OF this] obtain state' d where
    state': "get_trading_approvals_state toy_library (?node (execute_grants toy_library sample_wallet calls no_tokens))
      sample_wallet sample_config idle_client = (Ok state', d)" by blast
  note result = approvals_completed [OF toy_library_ok ts sample_wallet_checksum reversing_node_honest state calls
      reversing_node_honest state']
  moreover have "filter (ungranted_erc20 no_tokens sample_wallet) (required_erc20 sample_config) = required_erc20 sample_config"
    by (rule filter_True) (auto simp: ungranted_erc20_def no_tokens_def required_erc20_def uint256_max_def)
  then have "length (mta_erc20 (tas_missing state)) = 7" "\<not> tas_is_fully_approved state"
    by (simp_all add: known approvals_state_def) (simp_all add: required_erc20_def)
  ultimately show ?thesis using state calls state' by (intro exI [of _ state] exI [of _ calls] exI [of _ state'] exI [of _ d]) simp
qed

section \<open>Bundles of calls\<close>

text \<open>C20: A bundle for a Safe executes exactly the calls it was made of, in their order: its call data are
  the selector of \<open>multiSend(bytes)\<close> with one argument, and the contract that walks over that argument reads
  one plain call for each call of the bundle, with its target, its value and its data, and nothing else.\<close>

theorem multisend_executes_calls:
  assumes "decodes_hex lib" "decodes_abi lib" "\<And>bs. length (keccak lib bs) = 32"
    and data: "encode_safe_multisend_call lib calls = Ok data"
  shows "\<exists>raw packed executed. decode_hex lib data = Ok raw \<and> take 4 raw = selector lib ''multiSend(bytes)''
     \<and> abi_decode lib [''bytes''] (drop 4 raw) = Ok [AbiBytes packed]
     \<and> unpack_calls packed = Some executed \<and> list_all2 (executes lib) calls executed"
proof -
  from data obtain parts encoded where parts: "traverseE (pack_call lib) calls = Ok parts"
    "abi_encode lib [''bytes''] [AbiBytes (concat parts)] = Ok encoded"
    "data = hex_text (selector lib ''multiSend(bytes)'' @ encoded)"
    by (auto simp: encode_safe_multisend_call_def split: if_splits)
  have "length (selector lib s) = 4" for s using assms(3) by (simp add: selector_def)
  moreover have "abi_decode lib [''bytes''] encoded = Ok [AbiBytes (concat parts)]"
    using assms(2) parts(2) by (simp add: decodes_abi_def)
  ultimately show ?thesis using unpack_all_packed [OF parts(1)] assms(1)
    by (intro exI [of _ "selector lib ''multiSend(bytes)'' @ encoded"] exI [of _ "concat parts"])
      (auto simp: parts(3) decodes_hex_def)
qed

theorem multisend_executes_calls_witness:
  "\<exists>data raw packed executed. encode_safe_multisend_call toy_library sample_calls = Ok data
     \<and> decode_hex toy_library data = Ok raw \<and> abi_decode toy_library [''bytes''] (drop 4 raw) = Ok [AbiBytes packed]
     \<and> unpack_calls packed = Some executed \<and> map ec_value executed = [0, 7]"
proof -
  have "is_ok (encode_safe_multisend_call toy_library sample_calls)" by code_simp
  then obtain data where data: "encode_safe_multisend_call toy_library sample_calls = Ok data" by (auto simp: is_ok_iff)
  have "decodes_hex toy_library" "decodes_abi toy_library" "length (keccak toy_library bs) = 32" for bs
    using toy_library_ok by (simp_all add: library_ok_def)
  from multisend_executes_calls [OF this data] obtain raw packed executed where
    run: "decode_hex toy_library data = Ok raw" "abi_decode toy_library [''bytes''] (drop 4 raw) = Ok [AbiBytes packed]"
      "unpack_calls packed = Some executed" "list_all2 (executes toy_library) sample_calls executed" by blast
  from run(4) have "map ec_value executed = [0, 7]"
    by (auto simp: sample_calls_def list_all2_Cons1 executes_def)
  then show ?thesis using data run by (intro exI conjI)
qed

section \<open>Combinations\<close>

lemma parse_leg_id_Ok:
  assumes "leg_ok u"
  shows "parse_leg_id leg = Ok u \<longleftrightarrow> py_int (strip leg) 10 = Some u"
proof -
  have "u div 2 ^ 248 = 1 \<or> u div 2 ^ 248 = 2" using assms by (simp add: leg_ok_def)
  then have "0 \<le> u \<and> u < 3 * 2 ^ 248"
    using div_mult_mod_eq [of u "2 ^ 248"] pos_mod_sign [of "2 ^ 248" u] pos_mod_bound [of "2 ^ 248" u] by auto
  then have range: "\<not> (u < 0 \<or> uint256_max < u)" by (simp add: uint256_max_def)
  have "py_int [] 10 = None" by (simp add: py_int_def strip_def)
  with range show ?thesis by (auto simp: parse_leg_id_def split: option.splits)
qed

text \<open>The ids that legs read as, whatever the steps that checked and sorted them.\<close>

lemma canonicalize_characterised:
  "canonicalize_combo_legs legs = Ok vs \<longleftrightarrow>
     1 \<le> length legs \<and> length legs \<le> 50 \<and> sorted vs
   \<and> (\<exists>us. list_all2 (\<lambda>leg u. py_int (strip leg) 10 = Some u) legs us \<and> mset vs = mset us
        \<and> (\<forall>u\<in>set us. leg_ok u) \<and> distinct (map (\<lambda>u. u div 256) us))"
proof -
  have "traverseE parse_leg_id legs = Ok us \<longleftrightarrow> list_all2 (\<lambda>leg u. py_int (strip leg) 10 = Some u) legs us"
    if "\<forall>u\<in>set us. leg_ok u" for us
    unfolding traverseE_all2 using parse_leg_id_Ok that by (auto simp: list_all2_conv_all_nth)
  moreover have "vs = sort us \<longleftrightarrow> sorted vs \<and> mset vs = mset us" for us
    by (metis mset_sort properties_for_sort sorted_sort)
  ultimately show ?thesis unfolding canonicalize_iff MAX_COMBO_LEGS_def by blast
qed

text \<open>C21: The legs of a combination are canonical. Accepted are exactly one to fifty texts that read as
  position ids of modules one and two with the outcomes zero and one, of different conditions; the result
  holds each of the ids that the legs read as, in ascending order, so it does not depend on theirs; and the
  two position ids derived from it decode to its condition id with the outcomes zero and one.\<close>

theorem combo_canonical:
  assumes hash: "\<And>bs. length (keccak lib bs) = 32"
    and legs: "canonicalize_combo_legs legs = Ok vs" and order: "mset legs' = mset legs"
    and ctx: "derive_combo_position_context lib vs = Ok ctx"
  shows "canonicalize_combo_legs legs' = Ok vs
     \<and> (\<exists>us. list_all2 (\<lambda>leg u. py_int (strip leg) 10 = Some u) legs us \<and> mset vs = mset us)
     \<and> (\<forall>ls ws. canonicalize_combo_legs ls = Ok ws \<longleftrightarrow>
          1 \<le> length ls \<and> length ls \<le> 50 \<and> sorted ws
          \<and> (\<exists>us. list_all2 (\<lambda>leg u. py_int (strip leg) 10 = Some u) ls us \<and> mset ws = mset us
               \<and> (\<forall>u\<in>set us. u div 2 ^ 248 \<in> {1, 2} \<and> u mod 256 \<in> {0, 1})
               \<and> distinct (map (\<lambda>u. u div 256) us)))
     \<and> 1 \<le> length vs \<and> length vs \<le> 50 \<and> sorted vs \<and> distinct (map (\<lambda>v. v div 256) vs)
     \<and> (\<forall>v\<in>set vs. v div 2 ^ 248 \<in> {1, 2} \<and> v mod 256 \<in> {0, 1})
     \<and> decode_v2_outcome_position_id (fst (cpc_position_ids ctx))
         = Ok \<lparr>dec_condition_id = cpc_condition_id ctx, dec_outcome_index = 0\<rparr>
     \<and> decode_v2_outcome_position_id (snd (cpc_position_ids ctx))
         = Ok \<lparr>dec_condition_id = cpc_condition_id ctx, dec_outcome_index = 1\<rparr>"
proof (intro conjI)
  from legs [unfolded canonicalize_characterised] obtain us where n: "1 \<le> length legs" "length legs \<le> 50"
    and us: "list_all2 (\<lambda>leg u. py_int (strip leg) 10 = Some u) legs us" "mset vs = mset us"
      "\<forall>u\<in>set us. leg_ok u" "distinct (map (\<lambda>u. u div 256) us)" "sorted vs" by blast
  have m: "mset (map (\<lambda>u. u div 256) vs) = mset (map (\<lambda>u. u div 256) us)" by (simp add: us(2))
  have l: "length vs = length legs" using list_all2_lengthD [OF us(1)] mset_eq_length [OF us(2)] by simp
  show "\<exists>us. list_all2 (\<lambda>leg u. py_int (strip leg) 10 = Some u) legs us \<and> mset vs = mset us" using us by blast
  show "distinct (map (\<lambda>v. v div 256) vs)" using us(4) mset_eq_imp_distinct_iff [OF m] by blast
  show "\<forall>v\<in>set vs. v div 2 ^ 248 \<in> {1, 2} \<and> v mod 256 \<in> {0, 1}"
    using us(3) mset_eq_setD [OF us(2)] by (simp add: leg_ok_def)
  show "1 \<le> length vs" "length vs \<le> 50" "sorted vs" using n l us(5) by simp_all
qed (use canonicalize_order [OF legs order] derived_context [OF hash ctx] in
     \<open>auto simp: canonicalize_characterised leg_ok_def\<close>)

theorem combo_canonical_witness:
  "\<exists>ctx. derive_combo_position_context toy_library sample_legs = Ok ctx
     \<and> canonicalize_combo_legs (map str_int (rev sample_legs)) = Ok sample_legs
     \<and> decode_v2_outcome_position_id (fst (cpc_position_ids ctx))
         = Ok \<lparr>dec_condition_id = cpc_condition_id ctx, dec_outcome_index = 0\<rparr>"
proof -
  have "traverseE parse_leg_id (map str_int sample_legs) = Ok sample_legs"
    by (simp add: sample_legs_def parse_leg_id_str_int uint256_max_def)
  then have legs: "canonicalize_combo_legs (map str_int sample_legs) = Ok sample_legs"
    unfolding canonicalize_iff by (simp add: sample_legs_def leg_ok_def MAX_COMBO_LEGS_def)
  obtain enc where enc: "abi_encode toy_library [''uint256[]''] [AbiList (map AbiUint sample_legs)] = Ok enc"
    "int (length enc) < 256 ^ 32"
    by (simp add: toy_library_def sample_legs_def)
  have "is_ok (derive_combo_position_context toy_library sample_legs)"
    using enc(2) combo_condition_of_hash derived_ids_value
    by (simp add: derive_combo_position_context_def enc(1))
      (simp add: toy_library_def combo_bytes_def COMBINATORIAL_MODULE_ID_def)
  then obtain ctx where ctx: "derive_combo_position_context toy_library sample_legs = Ok ctx" by (auto simp: is_ok_iff)
  have "mset (map str_int (rev sample_legs)) = mset (map str_int sample_legs)" by simp
  from combo_canonical [OF _ legs this ctx] ctx show ?thesis by (simp add: toy_library_def)
qed

end
