(* ===== verification/Perps_Commands.thy ===== *)
theory Perps_Commands imports Calls begin

text \<open>
  \<open>models/perps/requests.py\<close>, \<open>actions/perps/trading.py\<close> and \<open>actions/perps/signing.py\<close>: the orders and commands of
  the perpetuals exchange. A command is signed as a positional list and sent as an object with keys; the
  last section states how the server gets the one from the other.
\<close>

section \<open>Decimals as text\<close>

text \<open>\<open>str(x)\<close> and \<open>format(x, "f")\<close> of a decimal: the digits with the point after the first \<open>p\<close> of them.\<close>

definition point_at :: "int \<Rightarrow> string \<Rightarrow> string" where
  "point_at p digits =
     (if p \<le> 0 then ''0.'' @ replicate (nat (- p)) (CHR ''0'') @ digits
      else if int (length digits) \<le> p then digits @ replicate (nat p - length digits) (CHR ''0'')
      else take (nat p) digits @ ''.'' @ drop (nat p) digits)"

definition sign_text :: "int \<Rightarrow> string" where
  "sign_text c = (if c < 0 then ''-'' else [])"

definition decimal_fixed :: "decimal \<Rightarrow> string" where
  "decimal_fixed x =
     (case x of
        DInf neg \<Rightarrow> if neg then ''-Infinity'' else ''Infinity''
      | DNaN sig \<Rightarrow> if sig then ''sNaN'' else ''NaN''
      | Dec c e \<Rightarrow>
          let digits = dec_digits \<bar>c\<bar>; e = (if c = 0 then min e 0 else e)
          in sign_text c @ point_at (e + int (length digits)) digits)"

definition decimal_text :: "decimal \<Rightarrow> string" where
  "decimal_text x =
     (case x of
        Dec c e \<Rightarrow>
          let digits = dec_digits \<bar>c\<bar>; left = e + int (length digits) in
          if e \<le> 0 \<and> -6 < left then sign_text c @ point_at left digits
          else sign_text c @ point_at 1 digits
            @ (if left = 1 then [] else ''E'' @ (if 0 < left - 1 then ''+'' else []) @ str_int (left - 1))
      | _ \<Rightarrow> decimal_fixed x)"

section \<open>Validated inputs\<close>

text \<open>\<open>str(value)\<close>; what is no text, number or boolean has none that reads as a decimal.\<close>

definition str_of_input :: "pyval \<Rightarrow> string option" where
  "str_of_input v =
     (case v of
        PStr s \<Rightarrow> Some s
      | PInt n \<Rightarrow> Some (str_int n)
      | PFloat t \<Rightarrow> Some t
      | PDecimal x \<Rightarrow> Some (decimal_text x)
      | _ \<Rightarrow> None)"

definition to_decimal_string :: "pyval \<Rightarrow> string res" where
  "to_decimal_string v =
     (case str_of_input v of
        None \<Rightarrow> Raise UserInputError
      | Some candidate \<Rightarrow>
          (case parse_decimal candidate of
             None \<Rightarrow> Raise UserInputError
           | Some parsed \<Rightarrow> if \<not> is_finite parsed then Raise UserInputError else Ok candidate))"

text \<open>\<open>re.match(r"^[0-9a-f]{32}$", value)\<close>: the dollar also matches before a final line end.\<close>

definition lower_hex_digit_char :: "char \<Rightarrow> bool" where
  "lower_hex_digit_char c \<longleftrightarrow> is_digit c \<or> c \<in> set ''abcdef''"

definition client_order_id_pattern :: "string \<Rightarrow> bool" where
  "client_order_id_pattern s \<longleftrightarrow>
     length (takeWhile lower_hex_digit_char s) = 32 \<and> dropWhile lower_hex_digit_char s \<in> {[], [CHR 0x0A]}"

definition validate_client_order_id :: "pyval \<Rightarrow> string res" where
  "validate_client_order_id v =
     (case v of PStr s \<Rightarrow> if client_order_id_pattern s then Ok s else Raise UserInputError
      | _ \<Rightarrow> Raise UserInputError)"

text \<open>A point in time: its microseconds since 1970, whether it has a time zone, and \<open>int(t.timestamp() * 1000)\<close>.\<close>

record datetime_value =
  dt_micros :: int
  dt_aware :: bool
  dt_timestamp_ms :: int

datatype time_input = Moment datetime_value | Plain pyval

definition to_epoch_ms :: "time_input \<Rightarrow> int option res" where
  "to_epoch_ms v =
     (case v of
        Moment t \<Rightarrow> Ok (Some (dt_timestamp_ms t))
      | Plain PNone \<Rightarrow> Ok None
      | Plain (PInt n) \<Rightarrow> if n < 0 then Raise UserInputError else Ok (Some n)
      | Plain _ \<Rightarrow> Raise UserInputError)"

definition max_gtd_expiry :: int where "max_gtd_expiry = 18446744073709"

definition validate_gtd_expiry :: "int \<Rightarrow> pyval \<Rightarrow> time_input \<Rightarrow> int option res" where
  "validate_gtd_expiry now time_in_force v =
     (if time_in_force \<noteq> PStr ''gtd'' then
        (if v \<noteq> Plain PNone then Raise UserInputError else Ok None)
      else
        bindE (case v of
             Moment t \<Rightarrow> if \<not> dt_aware t then Raise UserInputError else Ok (dt_micros t div 1000)
           | Plain (PInt n) \<Rightarrow> Ok n
           | Plain _ \<Rightarrow> Raise UserInputError) (\<lambda>expiry_ms.
        if max_gtd_expiry < expiry_ms then Raise UserInputError
        else if expiry_ms \<le> now then Raise UserInputError
        else Ok (Some expiry_ms)))"

record perps_order_request =
  pr_instrument_id :: pyval
  pr_side :: pyval
  pr_quantity :: pyval
  pr_time_in_force :: pyval
  pr_price :: pyval
  pr_post_only :: pyval
  pr_reduce_only :: pyval
  pr_client_order_id :: pyval
  pr_gtd_expiry :: time_input

definition instrument_id_ok :: "pyval \<Rightarrow> bool" where
  "instrument_id_ok v = (case v of PInt n \<Rightarrow> 0 \<le> n | _ \<Rightarrow> False)"

definition is_bool :: "pyval \<Rightarrow> bool" where
  "is_bool v = (case v of PBool b \<Rightarrow> True | _ \<Rightarrow> False)"

definition check_order_request :: "int \<Rightarrow> perps_order_request \<Rightarrow> perps_order_request res" where
  "check_order_request now r =
     (if \<not> instrument_id_ok (pr_instrument_id r) then Raise UserInputError
      else if pr_side r \<notin> {PStr ''BUY'', PStr ''SELL''} then Raise UserInputError
      else if pr_time_in_force r \<notin> {PStr ''gtc'', PStr ''ioc'', PStr ''fok'', PStr ''gtd''} then Raise UserInputError
      else if \<not> is_bool (pr_post_only r) then Raise UserInputError
      else if \<not> is_bool (pr_reduce_only r) then Raise UserInputError
      else
        bindE (to_decimal_string (pr_quantity r)) (\<lambda>_.
        bindE (validate_gtd_expiry now (pr_time_in_force r) (pr_gtd_expiry r)) (\<lambda>_.
        if pr_time_in_force r \<in> {PStr ''gtc'', PStr ''gtd''} \<and> pr_price r = PNone then Raise UserInputError
        else if pr_time_in_force r \<notin> {PStr ''gtc'', PStr ''gtd''} \<and> pr_post_only r = PBool True then Raise UserInputError
        else
          bindE (if pr_price r = PNone then Ok [] else to_decimal_string (pr_price r)) (\<lambda>_.
          bindE (if pr_client_order_id r = PNone then Ok [] else validate_client_order_id (pr_client_order_id r)) (\<lambda>_.
          Ok r)))))"

text \<open>\<open>re.fullmatch(r"[0-9]+(?:\.[0-9]{1,28})?", s)\<close>\<close>

definition fixed_point_text :: "string \<Rightarrow> bool" where
  "fixed_point_text s \<longleftrightarrow>
     takeWhile is_digit s \<noteq> []
   \<and> (case dropWhile is_digit s of
        [] \<Rightarrow> True
      | c # ds \<Rightarrow> c = CHR ''.'' \<and> ds \<noteq> [] \<and> length ds \<le> 28 \<and> list_all is_digit ds)"

definition max_coefficient :: int where "max_coefficient = 79228162514264337593543950335"

definition to_position_tp_sl_quantity :: "pyval \<Rightarrow> string res" where
  "to_position_tp_sl_quantity v =
     bindE (to_decimal_string v) (\<lambda>candidate.
     case parse_decimal candidate of
       Some (Dec c e) \<Rightarrow>
         (if c \<le> 0 \<or> e < -28 \<or> 28 < e \<or> 29 < int (length (dec_digits c)) + max e 0
             \<or> (case v of PStr s \<Rightarrow> \<not> fixed_point_text s | _ \<Rightarrow> False)
          then Raise UserInputError
          else if max_coefficient < c * 10 ^ nat (max e 0) then Raise UserInputError
          else Ok (case v of PStr s \<Rightarrow> candidate | _ \<Rightarrow> decimal_fixed (Dec c e)))
     | _ \<Rightarrow> Raise UserInputError)"

definition validate_trailing_stop :: "pyval \<Rightarrow> pyval \<Rightarrow> unit res" where
  "validate_trailing_stop trailing_bps activation_price =
     (if (case trailing_bps of PInt n \<Rightarrow> n < 10 \<or> 2000 < n | _ \<Rightarrow> True) then Raise UserInputError
      else if activation_price = PNone then Ok ()
      else
        bindE (to_decimal_string activation_price) (\<lambda>candidate.
        case parse_decimal candidate of
          Some (Dec c e) \<Rightarrow>
            (if e < -28 \<or> 28 < e \<or> 29 < int (length (dec_digits \<bar>c\<bar>)) + max e 0 then Raise UserInputError
             else
               let fixed = (case activation_price of PStr s \<Rightarrow> candidate | _ \<Rightarrow> decimal_fixed (Dec c e)) in
               if \<not> fixed_point_text fixed \<or> c \<le> 0
                  \<or> max_coefficient < digits_int 0 (filter (\<lambda>d. d \<noteq> CHR ''.'') fixed)
               then Raise UserInputError else Ok ())
        | _ \<Rightarrow> Raise UserInputError))"

record tp_sl_trigger =
  tt_trigger_price :: pyval
  tt_limit_price :: pyval

record position_tp_sl_trigger =
  ptt_trigger_price :: pyval
  ptt_quantity :: pyval

record trailing_stop =
  ts_trailing_bps :: pyval
  ts_activation_price :: pyval

record position_trailing_stop =
  pts_trailing_bps :: pyval
  pts_activation_price :: pyval
  pts_quantity :: pyval

definition check_tp_sl_trigger :: "tp_sl_trigger \<Rightarrow> tp_sl_trigger res" where
  "check_tp_sl_trigger t =
     bindE (to_decimal_string (tt_trigger_price t)) (\<lambda>_.
     bindE (if tt_limit_price t = PNone then Ok [] else to_decimal_string (tt_limit_price t)) (\<lambda>_. Ok t))"

definition check_position_tp_sl_trigger :: "position_tp_sl_trigger \<Rightarrow> position_tp_sl_trigger res" where
  "check_position_tp_sl_trigger t =
     bindE (to_decimal_string (ptt_trigger_price t)) (\<lambda>_.
     bindE (if ptt_quantity t = PNone then Ok [] else to_position_tp_sl_quantity (ptt_quantity t)) (\<lambda>_. Ok t))"

definition check_trailing_stop :: "trailing_stop \<Rightarrow> trailing_stop res" where
  "check_trailing_stop t =
     bindE (validate_trailing_stop (ts_trailing_bps t) (ts_activation_price t)) (\<lambda>_. Ok t)"

definition check_position_trailing_stop :: "position_trailing_stop \<Rightarrow> position_trailing_stop res" where
  "check_position_trailing_stop t =
     bindE (validate_trailing_stop (pts_trailing_bps t) (pts_activation_price t)) (\<lambda>_.
     bindE (if pts_quantity t = PNone then Ok [] else to_position_tp_sl_quantity (pts_quantity t)) (\<lambda>_. Ok t))"

record leverage_update =
  lu_instrument_id :: pyval
  lu_leverage :: pyval
  lu_cross_margin :: pyval

definition max_u32 :: int where "max_u32 = 2 ^ 32 - 1"

definition int_between :: "int \<Rightarrow> int \<Rightarrow> pyval \<Rightarrow> bool" where
  "int_between lo hi v = (case v of PInt n \<Rightarrow> lo \<le> n \<and> n \<le> hi | _ \<Rightarrow> False)"

definition check_leverage_update :: "leverage_update \<Rightarrow> leverage_update res" where
  "check_leverage_update u =
     (if \<not> int_between 0 max_u32 (lu_instrument_id u) then Raise UserInputError
      else if \<not> int_between 1 max_u32 (lu_leverage u) then Raise UserInputError
      else if \<not> is_bool (lu_cross_margin u) then Raise UserInputError
      else Ok u)"

section \<open>Commands\<close>

text \<open>
  A row of an order is positional: instrument, buy, price, quantity, time in force, post-only, reduce-only,
  client order id, trigger, expiry and builder, with \<open>None\<close> in the holes.
\<close>

record builder_attribution =
  ba_address :: string
  ba_fee_rate :: decimal

definition builder_entry :: "builder_attribution \<Rightarrow> pyval" where
  "builder_entry b = PList [PStr (ba_address b), PStr (decimal_fixed (ba_fee_rate b))]"

definition optional_text :: "pyval \<Rightarrow> pyval res" where
  "optional_text v = (if v = PNone then Ok PNone else map_ok PStr (to_decimal_string v))"

definition to_raw_order :: "int \<Rightarrow> perps_order_request \<Rightarrow> builder_attribution option \<Rightarrow> pyval list res" where
  "to_raw_order now r builder =
     bindE (validate_gtd_expiry now (pr_time_in_force r) (pr_gtd_expiry r)) (\<lambda>expiry_ms.
     bindE (optional_text (pr_price r)) (\<lambda>price.
     bindE (to_decimal_string (pr_quantity r)) (\<lambda>quantity.
     Ok ([pr_instrument_id r, PBool (pr_side r = PStr ''BUY''), price, PStr quantity, pr_time_in_force r,
          pr_post_only r, if pr_reduce_only r = PBool True then PBool True else PNone, pr_client_order_id r, PNone]
        @ (if expiry_ms \<noteq> None \<or> builder \<noteq> None
           then [case expiry_ms of None \<Rightarrow> PNone | Some n \<Rightarrow> PInt n] else [])
        @ (case builder of None \<Rightarrow> [] | Some b \<Rightarrow> [builder_entry b])))))"

datatype trigger = Fixed_Price tp_sl_trigger | Position_Price position_tp_sl_trigger
  | Trailing trailing_stop | Position_Trailing position_trailing_stop

definition trailing_row :: "pyval \<Rightarrow> pyval \<Rightarrow> string \<Rightarrow> (pyval \<times> pyval list) res" where
  "trailing_row bps activation kind =
     (if kind \<noteq> ''sl'' then Raise UserInputError
      else
        bindE (if activation = PNone then Ok PNone
               else bindE (to_decimal_string activation) (\<lambda>t.
                 case parse_decimal t of None \<Rightarrow> Raise InvalidOperation | Some x \<Rightarrow> Ok (PStr (decimal_fixed x)))) (\<lambda>act.
        Ok (PNone, [PBool True, PNone, PStr kind, bps, act])))"

definition fixed_row :: "pyval \<Rightarrow> pyval \<Rightarrow> string \<Rightarrow> (pyval \<times> pyval list) res" where
  "fixed_row trigger_price limit_price kind =
     bindE (to_decimal_string trigger_price) (\<lambda>p.
     bindE (optional_text limit_price) (\<lambda>l.
     Ok (l, [if limit_price = PNone then PBool True else PNone, PStr p, PStr kind])))"

definition to_raw_tp_sl_order ::
  "bool \<Rightarrow> pyval \<Rightarrow> string \<Rightarrow> string \<Rightarrow> trigger \<Rightarrow> builder_attribution option \<Rightarrow> pyval list res" where
  "to_raw_tp_sl_order buy instrument_id kind quantity trigger builder =
     bindE (case trigger of
          Fixed_Price t \<Rightarrow> fixed_row (tt_trigger_price t) (tt_limit_price t) kind
        | Position_Price t \<Rightarrow> fixed_row (ptt_trigger_price t) PNone kind
        | Trailing t \<Rightarrow> trailing_row (ts_trailing_bps t) (ts_activation_price t) kind
        | Position_Trailing t \<Rightarrow> trailing_row (pts_trailing_bps t) (pts_activation_price t) kind)
       (\<lambda>(limit_price, trigger_row).
     Ok ([instrument_id, PBool buy, limit_price, PStr quantity, PNone, PBool False, PBool True, PNone, PList trigger_row]
        @ (case builder of None \<Rightarrow> [] | Some b \<Rightarrow> [PNone, builder_entry b])))"

definition create_orders_op :: "pyval list list \<Rightarrow> string option \<Rightarrow> pyval list" where
  "create_orders_op rows scope =
     [PStr ''createOrders'', PList (map PList rows)] @ (case scope of None \<Rightarrow> [] | Some g \<Rightarrow> [PStr g])"

definition cancel_orders_op :: "pyval list \<Rightarrow> pyval list res" where
  "cancel_orders_op order_ids =
     (if \<not> list_all instrument_id_ok order_ids then Raise UserInputError
      else if order_ids = [] then Raise UserInputError
      else Ok [PStr ''cancelOrders'', PList order_ids])"

definition cancel_orders_by_client_id_op :: "pyval list \<Rightarrow> pyval list res" where
  "cancel_orders_by_client_id_op client_order_ids =
     bindE (traverseE validate_client_order_id client_order_ids) (\<lambda>ids.
     if ids = [] then Raise UserInputError
     else Ok [PStr ''cancelOrdersCOID'', PList (map PStr ids)])"

definition cancel_all_orders_op :: "pyval \<Rightarrow> pyval list res" where
  "cancel_all_orders_op instrument_id =
     (if instrument_id = PNone then Ok [PStr ''cancelAll'', PList []]
      else if \<not> instrument_id_ok instrument_id then Raise UserInputError
      else Ok [PStr ''cancelAll'', PList [instrument_id]])"

definition auto_cancel_op :: "pyval \<Rightarrow> pyval list res" where
  "auto_cancel_op time_ms =
     (if \<not> instrument_id_ok time_ms then Raise UserInputError
      else Ok [PStr ''autoCancel'', PList [time_ms]])"

definition update_leverage_op :: "pyval \<Rightarrow> pyval \<Rightarrow> pyval \<Rightarrow> pyval list res" where
  "update_leverage_op instrument_id leverage cross_margin =
     (if (case instrument_id of PInt n \<Rightarrow> False | _ \<Rightarrow> True) then Raise UserInputError
      else if (case leverage of PInt n \<Rightarrow> n \<le> 0 | _ \<Rightarrow> True) then Raise UserInputError
      else if \<not> is_bool cross_margin then Raise UserInputError
      else Ok [PStr ''updateLeverage'', PList [instrument_id, leverage, cross_margin]])"

definition leverage_row :: "leverage_update \<Rightarrow> pyval" where
  "leverage_row u = PList [lu_instrument_id u, lu_leverage u, lu_cross_margin u]"

definition update_leverages_op :: "leverage_update list \<Rightarrow> pyval list res" where
  "update_leverages_op items =
     (if \<not> (1 \<le> length items \<and> length items \<le> 100) then Raise UserInputError
      else if \<not> distinct (map lu_instrument_id items) then Raise UserInputError
      else Ok [PStr ''updateLeverages'', PList (map leverage_row items)])"

definition update_margin_op :: "pyval \<Rightarrow> pyval \<Rightarrow> pyval list res" where
  "update_margin_op instrument_id amount =
     (if \<not> instrument_id_ok instrument_id then Raise UserInputError
      else map_ok (\<lambda>a. [PStr ''updateMargin'', PList [instrument_id, PStr a]]) (to_decimal_string amount))"

section \<open>The body of a command\<close>

text \<open>An entry of a row; the later ones may not be there. Rows have nine entries at least.\<close>

definition entry :: "pyval list \<Rightarrow> nat \<Rightarrow> pyval" where
  "entry row i = (if i < length row then row ! i else PNone)"

definition present :: "string \<Rightarrow> pyval \<Rightarrow> (string \<times> pyval) list" where
  "present key v = (if v = PNone then [] else [(key, v)])"

definition to_trigger_body :: "pyval list \<Rightarrow> pyval" where
  "to_trigger_body trigger =
     PDict ([(''tpsl'', entry trigger 2)] @ present ''trp'' (entry trigger 1) @ present ''trail_bps'' (entry trigger 3)
       @ present ''act'' (entry trigger 4) @ present ''market'' (entry trigger 0))"

definition builder_body :: "pyval \<Rightarrow> pyval" where
  "builder_body v =
     (case v of PList [a, f] \<Rightarrow> PDict [(''address'', a), (''fee_rate'', f)] | _ \<Rightarrow> PNone)"

definition to_order_body :: "pyval list \<Rightarrow> pyval" where
  "to_order_body row =
     PDict ([(''iid'', entry row 0), (''buy'', entry row 1), (''po'', entry row 5), (''qty'', entry row 3)]
       @ present ''tif'' (entry row 4)
       @ (if entry row 6 = PBool True then [(''ro'', entry row 6)] else [])
       @ present ''p'' (entry row 2) @ present ''c'' (entry row 7)
       @ (case entry row 8 of PList tr \<Rightarrow> [(''tr'', to_trigger_body tr)] | _ \<Rightarrow> [])
       @ present ''gtd_expiry'' (entry row 9)
       @ (if entry row 10 = PNone then [] else [(''builder'', builder_body (entry row 10))]))"

definition row_of :: "pyval \<Rightarrow> pyval list" where
  "row_of v = (case v of PList xs \<Rightarrow> xs | _ \<Rightarrow> [])"

definition leverage_body :: "pyval list \<Rightarrow> pyval" where
  "leverage_body row = PDict [(''cross'', entry row 2), (''iid'', entry row 0), (''lev'', entry row 1)]"

definition to_command_body_op :: "pyval list \<Rightarrow> (string \<times> pyval) list res" where
  "to_command_body_op op =
     (let op_type = entry op 0; args = row_of (entry op 1) in
      if op_type = PStr ''createOrders'' then
        Ok ([(''type'', op_type), (''args'', PList (map (to_order_body \<circ> row_of) args))]
          @ (if 2 < length op then [(''grp'', entry op 2)] else []))
      else if op_type \<in> {PStr ''cancelOrders'', PStr ''cancelOrdersCOID''} then
        Ok [(''type'', op_type), (''args'', PList args)]
      else if op_type = PStr ''cancelAll'' then
        Ok [(''type'', op_type), (''args'', PDict (if args = [] then [] else present ''iid'' (entry args 0)))]
      else if op_type = PStr ''autoCancel'' then
        Ok [(''type'', op_type), (''args'', PDict [(''time'', entry args 0)])]
      else if op_type = PStr ''updateLeverage'' then
        Ok [(''type'', op_type), (''args'', leverage_body args)]
      else if op_type = PStr ''updateLeverages'' then
        Ok [(''type'', op_type), (''args'', PList (map (leverage_body \<circ> row_of) args))]
      else if op_type = PStr ''updateMargin'' then
        Ok [(''type'', op_type), (''args'', PDict [(''amt'', entry args 1), (''iid'', entry args 0)])]
      else Raise RuntimeError)"

section \<open>Signatures\<close>

fun compact_signable_value :: "pyval \<Rightarrow> pyval" where
  "compact_signable_value (PList xs) = PList (map compact_signable_value (filter (\<lambda>x. x \<noteq> PNone) xs))"
| "compact_signable_value v = v"

record perps_op_typed_data =
  pt_name :: string
  pt_version :: string
  pt_chain_id :: int
  pt_data :: string
  pt_salt :: int
  pt_ts :: int

definition hash_perps_op :: "eth_library \<Rightarrow> (pyval \<Rightarrow> byte list) \<Rightarrow> pyval list \<Rightarrow> string" where
  "hash_perps_op lib msgpack op = hex_text (keccak lib (msgpack (compact_signable_value (PList op))))"

definition build_perps_op_typed_data ::
  "eth_library \<Rightarrow> (pyval \<Rightarrow> byte list) \<Rightarrow> int \<Rightarrow> pyval list \<Rightarrow> int \<Rightarrow> int \<Rightarrow> perps_op_typed_data" where
  "build_perps_op_typed_data lib msgpack chain op salt timestamp_ms =
     \<lparr>pt_name = ''Polymarket'', pt_version = ''1'', pt_chain_id = chain, pt_data = hash_perps_op lib msgpack op, pt_salt = salt, pt_ts = timestamp_ms\<rparr>"

definition sign_perps_op ::
  "eth_library \<Rightarrow> (pyval \<Rightarrow> byte list) \<Rightarrow> (perps_op_typed_data \<Rightarrow> byte list res) \<Rightarrow> int \<Rightarrow> pyval list \<Rightarrow> int \<Rightarrow> int \<Rightarrow>
     string res" where
  "sign_perps_op lib msgpack sign chain op salt timestamp_ms =
     (case sign (build_perps_op_typed_data lib msgpack chain op salt timestamp_ms) of
        Inl e \<Rightarrow> Raise SigningError
      | Inr signature \<Rightarrow> Ok (hex_text signature))"

section \<open>What the server rebuilds\<close>

text \<open>
  The server has the body and checks the signature, so it has to get from the one to the other: it puts
  the values back in their order and leaves out those that are missing.
\<close>

abbreviation some_values :: "pyval list \<Rightarrow> pyval list" where
  "some_values \<equiv> filter (\<lambda>x. x \<noteq> PNone)"

definition fields :: "pyval \<Rightarrow> string list \<Rightarrow> pyval list" where
  "fields v ks = (case v of PDict d \<Rightarrow> map (\<lambda>k. dict_get k d) ks | _ \<Rightarrow> [])"

definition rebuilt_trigger :: "pyval \<Rightarrow> pyval" where
  "rebuilt_trigger v =
     (if v = PNone then PNone else PList (some_values (fields v [''market'', ''trp'', ''tpsl'', ''trail_bps'', ''act''])))"

definition rebuilt_builder :: "pyval \<Rightarrow> pyval" where
  "rebuilt_builder v = (if v = PNone then PNone else PList (fields v [''address'', ''fee_rate'']))"

definition rebuilt_row :: "pyval \<Rightarrow> pyval" where
  "rebuilt_row body =
     (case (fields body [''iid'', ''buy'', ''p'', ''qty'', ''tif'', ''po'', ''ro'', ''c''],
            fields body [''tr'', ''gtd_expiry'', ''builder'']) of
        (front, [tr, gtd, builder]) \<Rightarrow> PList (some_values (front @ [rebuilt_trigger tr, gtd, rebuilt_builder builder]))
      | _ \<Rightarrow> PNone)"

definition rebuilt_leverage :: "pyval \<Rightarrow> pyval" where
  "rebuilt_leverage body = PList (fields body [''iid'', ''lev'', ''cross''])"

definition rebuilt_op :: "(string \<times> pyval) list \<Rightarrow> pyval" where
  "rebuilt_op body =
     (let t = dict_get ''type'' body; args = dict_get ''args'' body in
      if t = PStr ''createOrders'' then
        PList (some_values [t, PList (map rebuilt_row (row_of args)), dict_get ''grp'' body])
      else if t = PStr ''cancelAll'' then PList [t, PList (some_values (fields args [''iid'']))]
      else if t = PStr ''autoCancel'' then PList [t, PList (fields args [''time''])]
      else if t = PStr ''updateLeverage'' then PList [t, rebuilt_leverage args]
      else if t = PStr ''updateLeverages'' then PList [t, PList (map rebuilt_leverage (row_of args))]
      else if t = PStr ''updateMargin'' then PList [t, PList (fields args [''iid'', ''amt''])]
      else PList [t, args])"

text \<open>The commands of the session.\<close>

inductive order_row :: "pyval list \<Rightarrow> bool" where
  order: "check_order_request now r = Ok r' \<Longrightarrow> to_raw_order now' r' builder = Ok row \<Longrightarrow> order_row row"
| fixed: "check_tp_sl_trigger t = Ok t' \<Longrightarrow> instrument_id_ok i \<Longrightarrow>
    to_raw_tp_sl_order buy i kind quantity (Fixed_Price t') builder = Ok row \<Longrightarrow> order_row row"
| position: "check_position_tp_sl_trigger pt = Ok pt' \<Longrightarrow> instrument_id_ok i \<Longrightarrow>
    to_raw_tp_sl_order buy i kind quantity (Position_Price pt') builder = Ok row \<Longrightarrow> order_row row"
| trailing: "check_trailing_stop s = Ok s' \<Longrightarrow> instrument_id_ok i \<Longrightarrow>
    to_raw_tp_sl_order buy i kind quantity (Trailing s') builder = Ok row \<Longrightarrow> order_row row"
| position_trailing: "check_position_trailing_stop ps = Ok ps' \<Longrightarrow> instrument_id_ok i \<Longrightarrow>
    to_raw_tp_sl_order buy i kind quantity (Position_Trailing ps') builder = Ok row \<Longrightarrow> order_row row"

inductive command :: "pyval list \<Rightarrow> bool" where
  create: "(\<And>row. row \<in> set rows \<Longrightarrow> order_row row) \<Longrightarrow> command (create_orders_op rows scope)"
| cancel: "cancel_orders_op ids = Ok op \<Longrightarrow> command op"
| cancel_client: "cancel_orders_by_client_id_op ids = Ok op \<Longrightarrow> command op"
| cancel_all: "cancel_all_orders_op i = Ok op \<Longrightarrow> command op"
| auto_cancel: "auto_cancel_op t = Ok op \<Longrightarrow> command op"
| leverage: "update_leverage_op i l c = Ok op \<Longrightarrow> command op"
| leverages: "(\<And>u. u \<in> set us \<Longrightarrow> check_leverage_update u = Ok u) \<Longrightarrow> update_leverages_op us = Ok op \<Longrightarrow> command op"
| margin: "update_margin_op i a = Ok op \<Longrightarrow> command op"

section \<open>Rebuilding is exact\<close>

definition plain :: "pyval \<Rightarrow> bool" where
  "plain v \<longleftrightarrow> (case v of PList xs \<Rightarrow> False | _ \<Rightarrow> True)"

lemma plain_simps [simp]: "plain PNone" "plain (PBool b)" "plain (PInt n)" "plain (PStr s)"
  by (simp_all add: plain_def)

lemma compact_plain [simp]: "plain v \<Longrightarrow> compact_signable_value v = v"
  by (cases v) (simp_all add: plain_def)

lemma compact_None [simp]: "compact_signable_value v = PNone \<longleftrightarrow> v = PNone"
  by (cases v) simp_all

lemma compact_list: "compact_signable_value (PList xs) = PList (some_values (map compact_signable_value xs))"
  by (induction xs) auto

lemma map_of_present [simp]: "map_of (present k v) k' = (if k = k' \<and> v \<noteq> PNone then Some v else None)"
  by (simp add: present_def)

lemmas body_simps = dict_get_def map_add_def if_distrib [where f = map_of] if_distribR

text \<open>The rows that the code builds.\<close>

definition row_ok :: "pyval list \<Rightarrow> bool" where
  "row_ok row \<longleftrightarrow>
     9 \<le> length row \<and> length row \<le> 11
   \<and> list_all plain (take 8 row) \<and> entry row 6 \<in> {PNone, PBool True}
   \<and> (entry row 8 = PNone
      \<or> (\<exists>tr. entry row 8 = PList tr \<and> 3 \<le> length tr \<and> length tr \<le> 5 \<and> list_all plain tr))
   \<and> plain (entry row 9)
   \<and> (entry row 10 = PNone \<or> (\<exists>a f. entry row 10 = PList [PStr a, PStr f]))"

lemma trigger_body:
  assumes "3 \<le> length tr" "length tr \<le> 5" "list_all plain tr"
  shows "rebuilt_trigger (to_trigger_body tr) = compact_signable_value (PList tr)"
proof -
  have get: "fields (to_trigger_body tr) [''market'', ''trp'', ''tpsl'', ''trail_bps'', ''act'']
      = map (entry tr) [0, 1, 2, 3, 4]"
    by (simp add: to_trigger_body_def fields_def body_simps)
  have "some_values (map (entry tr) [0, 1, 2, 3, 4]) = some_values tr"
  proof -
    consider a b c where "tr = [a, b, c]" | a b c d where "tr = [a, b, c, d]" | a b c d e where "tr = [a, b, c, d, e]"
      using assms(1,2) by (auto simp: numeral_eq_Suc length_Suc_conv le_Suc_eq)
    then show ?thesis by cases (simp_all add: entry_def)
  qed
  moreover have "map compact_signable_value tr = tr"
    using assms(3) by (induction tr) simp_all
  ultimately show ?thesis
    by (simp add: rebuilt_trigger_def get compact_list del: compact_signable_value.simps)
      (simp add: to_trigger_body_def)
qed

lemma entries_padded: "length row \<le> n \<Longrightarrow> map (entry row) [0..<n] = row @ replicate (n - length row) PNone"
  by (rule nth_equalityI) (auto simp: entry_def nth_append)

lemma row_body:
  assumes "row_ok row"
  shows "rebuilt_row (to_order_body row) = compact_signable_value (PList row)"
proof -
  have tr: "rebuilt_trigger (case entry row 8 of PList tr \<Rightarrow> to_trigger_body tr | _ \<Rightarrow> PNone)
      = compact_signable_value (entry row 8)"
  proof (cases "entry row 8 = PNone")
    case False
    then obtain tr where "entry row 8 = PList tr" "3 \<le> length tr" "length tr \<le> 5" "list_all plain tr"
      using assms by (auto simp: row_ok_def)
    then show ?thesis using trigger_body [of tr] by (simp del: compact_signable_value.simps)
  qed (simp add: rebuilt_trigger_def)
  have builder: "rebuilt_builder (if entry row 10 = PNone then PNone else builder_body (entry row 10)) = entry row 10"
    using assms by (auto simp: row_ok_def rebuilt_builder_def builder_body_def fields_def dict_get_def)
  have get: "fields (to_order_body row) [''iid'', ''buy'', ''p'', ''qty'', ''tif'', ''po'', ''ro'', ''c'']
      = map (entry row) [0, 1, 2, 3, 4, 5, 6, 7]"
    using assms by (auto simp: row_ok_def to_order_body_def fields_def body_simps split: pyval.split)
  have late: "fields (to_order_body row) [''tr'', ''gtd_expiry'', ''builder'']
      = [case entry row 8 of PList tr \<Rightarrow> to_trigger_body tr | _ \<Rightarrow> PNone, entry row 9,
         if entry row 10 = PNone then PNone else builder_body (entry row 10)]"
    by (simp add: to_order_body_def fields_def body_simps split: pyval.split)
  have entries: "some_values (map (entry row) [0, 1, 2, 3, 4, 5, 6, 7, 8, 9, 10]) = some_values row"
  proof -
    have "[0, 1, 2, 3, 4, 5, 6, 7, 8, 9, 10] = [0..<11]" by code_simp
    moreover have "map (entry row) [0..<11] = row @ replicate (11 - length row) PNone"
      using assms by (intro entries_padded) (simp add: row_ok_def)
    ultimately show ?thesis by (simp add: filter_empty_conv)
  qed
  have compacted: "map compact_signable_value (map (entry row) [0, 1, 2, 3, 4, 5, 6, 7, 8, 9, 10])
      = map (entry row) [0, 1, 2, 3, 4, 5, 6, 7] @ [compact_signable_value (entry row 8), entry row 9, entry row 10]"
  proof -
    have "plain (entry row i)" if "i < 8" for i
      using assms that by (auto simp: row_ok_def entry_def list_all_length)
    moreover have "plain (entry row 9)" using assms by (simp add: row_ok_def)
    moreover have "compact_signable_value (entry row 10) = entry row 10" using assms by (auto simp: row_ok_def)
    ultimately show ?thesis by simp
  qed
  have "some_values (map compact_signable_value row) = map compact_signable_value (some_values row)"
    by (induction row) simp_all
  also have "\<dots> = map compact_signable_value (some_values (map (entry row) [0, 1, 2, 3, 4, 5, 6, 7, 8, 9, 10]))"
    by (simp only: entries)
  also have "\<dots> = some_values (map compact_signable_value (map (entry row) [0, 1, 2, 3, 4, 5, 6, 7, 8, 9, 10]))"
    by (simp only: filter_map comp_def compact_None)
  finally have "compact_signable_value (PList row)
      = PList (some_values (map (entry row) [0, 1, 2, 3, 4, 5, 6, 7] @ [compact_signable_value (entry row 8), entry row 9, entry row 10]))"
    unfolding compact_list compacted by simp
  then show ?thesis by (simp only: rebuilt_row_def get late prod.case list.case tr builder)
qed

lemma plain_optional_text: "optional_text v = Ok t \<Longrightarrow> plain t"
  by (auto simp: optional_text_def split: if_splits)

lemma plain_instrument: "instrument_id_ok v \<Longrightarrow> plain v"
  by (cases v) (simp_all add: instrument_id_ok_def)

lemma plain_bool: "is_bool v \<Longrightarrow> plain v"
  by (cases v) (simp_all add: is_bool_def)

lemma checked_request:
  assumes "check_order_request now r = Ok r'"
  shows "r' = r \<and> plain (pr_instrument_id r) \<and> plain (pr_time_in_force r) \<and> plain (pr_post_only r)
    \<and> plain (pr_client_order_id r)"
proof -
  have "plain (pr_client_order_id r)"
    using assms by (cases "pr_client_order_id r")
      (auto simp: check_order_request_def validate_client_order_id_def split: if_splits)
  then show ?thesis using assms
    by (auto simp: check_order_request_def plain_instrument plain_bool split: if_splits)
qed

lemma raw_order_ok:
  assumes "check_order_request now r = Ok r'" "to_raw_order now' r' builder = Ok row"
  shows "row_ok row"
proof -
  note checked = checked_request [OF assms(1)]
  from assms(2) checked obtain expiry price quantity where parts:
    "validate_gtd_expiry now' (pr_time_in_force r) (pr_gtd_expiry r) = Ok expiry"
    "plain price" and row:
    "row = [pr_instrument_id r, PBool (pr_side r = PStr ''BUY''), price, PStr quantity, pr_time_in_force r,
          pr_post_only r, if pr_reduce_only r = PBool True then PBool True else PNone, pr_client_order_id r, PNone]
        @ (if expiry \<noteq> None \<or> builder \<noteq> None
           then [case expiry of None \<Rightarrow> PNone | Some n \<Rightarrow> PInt n] else [])
        @ (case builder of None \<Rightarrow> [] | Some b \<Rightarrow> [builder_entry b])"
    by (auto simp: to_raw_order_def plain_optional_text)
  show ?thesis using checked parts(2) unfolding row
    by (cases expiry; cases builder) (simp_all add: row_ok_def entry_def builder_entry_def)
qed

lemma trigger_row_ok:
  assumes "to_raw_tp_sl_order buy i kind quantity t builder = Ok row" "instrument_id_ok i"
    and "case t of Trailing s \<Rightarrow> plain (ts_trailing_bps s) | Position_Trailing s \<Rightarrow> plain (pts_trailing_bps s) | _ \<Rightarrow> True"
  shows "row_ok row"
proof -
  have fixed: "plain l \<and> length tr = 3 \<and> list_all plain tr" if "fixed_row p lp kind = Ok (l, tr)" for p lp l tr
    using that by (auto simp: fixed_row_def plain_optional_text)
  have trail: "plain l \<and> length tr = 5 \<and> list_all plain tr"
    if "trailing_row b a kind = Ok (l, tr)" "plain b" for b a l tr
    using that by (auto simp: trailing_row_def split: if_splits option.splits)
  from assms(1,3) obtain l tr where tr: "plain l" "3 \<le> length tr" "length tr \<le> 5" "list_all plain tr"
    and row: "row = [i, PBool buy, l, PStr quantity, PNone, PBool False, PBool True, PNone, PList tr]
        @ (case builder of None \<Rightarrow> [] | Some b \<Rightarrow> [PNone, builder_entry b])"
    unfolding to_raw_tp_sl_order_def by (auto dest: fixed trail split: trigger.splits)
  show ?thesis using tr plain_instrument [OF assms(2)] unfolding row
    by (cases builder) (simp_all add: row_ok_def entry_def builder_entry_def)
qed

lemma plain_bps: "validate_trailing_stop b a = Ok u \<Longrightarrow> plain b"
  by (cases b) (simp_all add: validate_trailing_stop_def)

lemma order_row_ok: "order_row row \<Longrightarrow> row_ok row"
proof (induction rule: order_row.induct)
  case (trailing s s' i buy kind quantity builder row)
  then show ?case by (intro trigger_row_ok [OF trailing(3,2)]) (auto simp: check_trailing_stop_def plain_bps)
next
  case (position_trailing ps ps' i buy kind quantity builder row)
  then show ?case
    by (intro trigger_row_ok [OF position_trailing(3,2)]) (auto simp: check_position_trailing_stop_def plain_bps)
qed (auto intro: raw_order_ok trigger_row_ok)

lemma compact_plains: "list_all plain xs \<Longrightarrow> compact_signable_value (PList xs) = PList (some_values xs)"
  by (induction xs) simp_all

lemma some_values_instruments: "list_all instrument_id_ok xs \<Longrightarrow> some_values xs = xs \<and> list_all plain xs"
  by (induction xs) (auto simp: plain_instrument instrument_id_ok_def split: pyval.splits)

lemma leverage_rebuilt:
  assumes "check_leverage_update u = Ok u"
  shows "rebuilt_leverage (leverage_body (row_of (leverage_row u))) = compact_signable_value (leverage_row u)"
proof -
  obtain i l c where u: "lu_instrument_id u = PInt i" "lu_leverage u = PInt l" "lu_cross_margin u = PBool c"
    using assms by (auto simp: check_leverage_update_def int_between_def is_bool_def split: if_splits pyval.splits)
  show ?thesis by (simp add: rebuilt_leverage_def leverage_body_def leverage_row_def row_of_def u entry_def fields_def
        dict_get_def)
qed

lemmas rebuild_simps = to_command_body_op_def entry_def row_of_def rebuilt_op_def dict_get_def

lemma rebuilt_ids:
  assumes "list_all plain xs" "some_values xs = xs" "t \<in> {PStr ''cancelOrders'', PStr ''cancelOrdersCOID''}"
  shows "\<exists>body. to_command_body_op [t, PList xs] = Ok body
    \<and> rebuilt_op body = compact_signable_value (PList [t, PList xs])"
  using assms compact_plains [of xs] by (auto simp: rebuild_simps)

lemma rebuilt_leverages:
  assumes "\<And>u. u \<in> set us \<Longrightarrow> check_leverage_update u = Ok u" "update_leverages_op us = Ok op"
  shows "\<exists>body. to_command_body_op op = Ok body \<and> rebuilt_op body = compact_signable_value (PList op)"
proof -
  have op: "op = [PStr ''updateLeverages'', PList (map leverage_row us)]"
    using assms(2) by (auto simp: update_leverages_op_def split: if_splits)
  have "map (rebuilt_leverage \<circ> leverage_body \<circ> row_of \<circ> leverage_row) us = map (compact_signable_value \<circ> leverage_row) us"
    using assms(1) leverage_rebuilt by auto
  moreover have "some_values (map (compact_signable_value \<circ> leverage_row) us) = map (compact_signable_value \<circ> leverage_row) us"
    by (induction us) (simp_all add: leverage_row_def)
  ultimately show ?thesis
    by (simp add: op rebuild_simps compact_list comp_def del: compact_signable_value.simps(1))
qed

text \<open>C23: The signature of a command covers its positional form, in which missing values are dropped, while the
  frame carries it as an object with keys. For every command the session can build, from validated orders with
  their triggers, expiry and builder to leverage and margin updates, the server that puts the values of the
  object back into their order gets exactly the list that was signed.\<close>

theorem command_rebuilt:
  assumes "command op"
  shows "\<exists>body. to_command_body_op op = Ok body \<and> rebuilt_op body = compact_signable_value (PList op)"
  using assms
proof (induction rule: command.induct)
  case (create rows scope)
  then have "map (rebuilt_row \<circ> to_order_body) rows = map (compact_signable_value \<circ> PList) rows"
    using row_body order_row_ok by auto
  then show ?case
    by (cases scope) (simp_all add: create_orders_op_def to_command_body_op_def entry_def row_of_def rebuilt_op_def
        dict_get_def compact_list comp_def del: compact_signable_value.simps)
next
  case (cancel ids op)
  then have "op = [PStr ''cancelOrders'', PList ids]" "some_values ids = ids \<and> list_all plain ids"
    using some_values_instruments [of ids] by (auto simp: cancel_orders_op_def split: if_splits)
  then show ?case by (simp only:) (rule rebuilt_ids, simp_all)
next
  case (cancel_client ids op)
  then obtain ss where op: "op = [PStr ''cancelOrdersCOID'', PList (map PStr ss)]"
    by (auto simp: cancel_orders_by_client_id_op_def split: if_splits)
  have "some_values (map PStr ss) = map PStr ss" "list_all plain (map PStr ss)" by (induction ss) auto
  then show ?case by (simp only: op) (rule rebuilt_ids, simp_all)
next
  case (cancel_all i op)
  then show ?case
    by (cases i) (auto simp: cancel_all_orders_op_def instrument_id_ok_def to_command_body_op_def entry_def row_of_def
        rebuilt_op_def dict_get_def fields_def present_def split: if_splits)
next
  case (auto_cancel t op)
  then show ?case
    by (cases t) (auto simp: auto_cancel_op_def instrument_id_ok_def to_command_body_op_def entry_def row_of_def
        rebuilt_op_def dict_get_def fields_def split: if_splits)
next
  case (leverage i l c op)
  then obtain n m b where "op = [PStr ''updateLeverage'', PList [PInt n, PInt m, PBool b]]"
    by (auto simp: update_leverage_op_def is_bool_def split: if_splits pyval.splits)
  then show ?case
    by (simp add: to_command_body_op_def entry_def row_of_def rebuilt_op_def dict_get_def rebuilt_leverage_def
        leverage_body_def fields_def)
next
  case (leverages us op)
  then show ?case by (rule rebuilt_leverages)
next
  case (margin i a op)
  then obtain n t where "op = [PStr ''updateMargin'', PList [PInt n, PStr t]]"
    by (cases i) (auto simp: update_margin_op_def instrument_id_ok_def split: if_splits)
  then show ?case
    by (simp add: to_command_body_op_def entry_def row_of_def rebuilt_op_def dict_get_def fields_def)
qed

lemma command_rebuilt_witness:
  "\<exists>body. to_command_body_op (create_orders_op [[PInt 7, PBool True, PStr ''0.5'', PStr ''10'', PStr ''gtc'', PBool False,
      PBool True, PNone, PNone, PNone, PList [PStr ''0xb'', PStr ''0.0003'']]] (Some ''order'')) = Ok body
    \<and> rebuilt_op body = PList [PStr ''createOrders'', PList [PList [PInt 7, PBool True, PStr ''0.5'', PStr ''10'', PStr ''gtc'',
      PBool False, PBool True, PList [PStr ''0xb'', PStr ''0.0003'']]], PStr ''order'']"
proof -
  let ?r = "\<lparr>pr_instrument_id = PInt 7, pr_side = PStr ''BUY'', pr_quantity = PInt 10, pr_time_in_force = PStr ''gtc'',
    pr_price = PStr ''0.5'', pr_post_only = PBool False, pr_reduce_only = PBool True, pr_client_order_id = PNone,
    pr_gtd_expiry = Plain PNone\<rparr>"
  have "check_order_request 0 ?r = Ok ?r"
    "to_raw_order 0 ?r (Some \<lparr>ba_address = ''0xb'', ba_fee_rate = Dec 3 (-4)\<rparr>)
      = Ok [PInt 7, PBool True, PStr ''0.5'', PStr ''10'', PStr ''gtc'', PBool False, PBool True, PNone, PNone, PNone,
          PList [PStr ''0xb'', PStr ''0.0003'']]"
    by code_simp+
  then have "command (create_orders_op [[PInt 7, PBool True, PStr ''0.5'', PStr ''10'', PStr ''gtc'', PBool False,
      PBool True, PNone, PNone, PNone, PList [PStr ''0xb'', PStr ''0.0003'']]] (Some ''order''))"
    by (intro command.create) (auto intro: order_row.order)
  from command_rebuilt [OF this] show ?thesis by (simp add: create_orders_op_def)
qed

section \<open>Quantities of triggers\<close>

lemma digits_int_zeros: "digits_int a (replicate n (CHR ''0'')) = a * 10 ^ n"
proof -
  have "code_of (CHR ''0'') = 48" by code_simp
  then show ?thesis by (induction n arbitrary: a) (simp_all add: algebra_simps)
qed

lemma zeros_digits [simp]: "list_all is_digit (replicate n (CHR ''0''))"
proof -
  have "is_digit (CHR ''0'')" by code_simp
  then show ?thesis by (induction n) simp_all
qed

text \<open>A fixed-point text reads as its digits, with as many places as it has after the point.\<close>

lemma plain_numeral:
  assumes "list_all is_digit ip" "ip \<noteq> []" "list_all is_digit fp"
  shows "parse_decimal (ip @ (if fp = [] then [] else CHR ''.'' # fp))
     = parse_numeral False (ip @ (if fp = [] then [] else CHR ''.'' # fp))" (is "parse_decimal ?s = _")
proof -
  have dot: "\<not> is_space (CHR ''.'')" "CHR ''.'' \<noteq> CHR ''_''" by code_simp+
  obtain c cs where ip: "ip = c # cs" using assms(2) by (cases ip) auto
  have c: "is_digit c" using assms(1) ip by simp
  have last: "is_digit (last ?s)"
    using assms by (auto simp: list_all_iff)
  have "strip ?s = ?s" using last digit_facts(6) [OF c] digit_facts(6) [OF last] ip by (intro strip_id) auto
  moreover have "filter (\<lambda>c. c \<noteq> CHR ''_'') ?s = ?s"
    using filter_underscore [OF assms(1)] filter_underscore [OF assms(3)] dot by simp
  moreover have "lower_char c = c"
  proof -
    have "code_of c = int (of_char c)" by (rule of_nat_of_char [symmetric])
    then have "48 \<le> (of_char c :: nat)" "(of_char c :: nat) \<le> 57" using c unfolding is_digit_def by linarith+
    then show ?thesis by (simp add: lower_char_def Let_def)
  qed
  moreover have "c \<noteq> CHR ''i''" "c \<noteq> CHR ''n''" "c \<noteq> CHR ''s''" using c by (auto simp: is_digit_def)
  ultimately show ?thesis
    using digit_facts [OF c] by (simp add: parse_decimal_def Let_def ip lower_def)
qed

lemma fixed_numeral:
  assumes "list_all is_digit ip" "ip \<noteq> []" "list_all is_digit fp"
    and "parse_numeral False (ip @ (if fp = [] then [] else CHR ''.'' # fp)) = Some x"
  shows "x = Dec (digits_int 0 (ip @ fp)) (- int (length fp))"
proof -
  have dot: "\<not> is_digit (CHR ''.'')" by code_simp
  have ip: "takeWhile is_digit (ip @ (if fp = [] then [] else CHR ''.'' # fp)) = ip"
    "dropWhile is_digit (ip @ (if fp = [] then [] else CHR ''.'' # fp)) = (if fp = [] then [] else CHR ''.'' # fp)"
    using assms(1) dot by (auto simp: takeWhile_append dropWhile_append list_all_iff)
  have fp: "takeWhile is_digit fp = fp" "dropWhile is_digit fp = []"
    using assms(3) by (auto simp: takeWhile_eq_all_conv list_all_iff)
  show ?thesis using assms(2,4) unfolding parse_numeral_def ip
    by (cases "fp = []") (simp_all add: fp parse_exponent_def Let_def split: if_splits)
qed

text \<open>The text of a decimal with places reads as that decimal.\<close>

lemma decimal_fixed_parts:
  assumes "0 < c"
  shows "\<exists>ip fp. decimal_fixed (Dec c e) = ip @ (if fp = [] then [] else CHR ''.'' # fp)
    \<and> list_all is_digit ip \<and> ip \<noteq> [] \<and> list_all is_digit fp \<and> int (length fp) = max 0 (- e)
    \<and> digits_int 0 (ip @ fp) = c * 10 ^ nat (max e 0) \<and> length ip \<le> 1 + length (dec_digits c) + nat (max e 0)"
proof -
  let ?d = "dec_digits c"
  have d: "list_all is_digit ?d" "digits_int 0 ?d = c" "?d \<noteq> []"
    using assms by (simp_all add: dec_digits_all digits_int_dec_digits)
  have shape: "decimal_fixed (Dec c e) = point_at (e + int (length ?d)) ?d"
    using assms by (simp add: decimal_fixed_def Let_def sign_text_def)
  have zero: "is_digit (CHR ''0'')" "code_of (CHR ''0'') = 48" by code_simp+
  consider "0 \<le> e" | "e < 0" "e + int (length ?d) \<le> 0" | "e < 0" "0 < e + int (length ?d)" by linarith
  then show ?thesis
  proof cases
    case 1
    moreover have "0 < int (length ?d)" using d(3) by (simp only: of_nat_0_less_iff length_greater_0_conv not_False_eq_True)
    ultimately have "\<not> e + int (length ?d) \<le> 0" by linarith
    with 1 have "point_at (e + int (length ?d)) ?d = ?d @ replicate (nat e) (CHR ''0'')"
      by (simp add: point_at_def nat_add_distrib)
    then show ?thesis using 1 d
      by - (rule exI [of _ "?d @ replicate (nat e) (CHR ''0'')"], rule exI [of _ "[]"], simp add: shape digits_int_append digits_int_zeros)
  next
    case 2
    let ?fp = "replicate (nat (- (e + int (length ?d)))) (CHR ''0'') @ ?d"
    have "point_at (e + int (length ?d)) ?d = ''0'' @ CHR ''.'' # ?fp" using 2 by (simp add: point_at_def)
    then show ?thesis using 2 d zero
      by - (rule exI [of _ "''0''"], rule exI [of _ ?fp], simp add: shape digits_int_append digits_int_zeros)
  next
    case 3
    let ?p = "nat (e + int (length ?d))"
    have p: "?p < length ?d" "0 < ?p" using 3 by linarith+
    then have "point_at (e + int (length ?d)) ?d = take ?p ?d @ CHR ''.'' # drop ?p ?d"
      using 3 by (simp add: point_at_def)
    moreover have "list_all is_digit (take ?p ?d)" "list_all is_digit (drop ?p ?d)"
      using d(1) by (metis append_take_drop_id list_all_append)+
    ultimately show ?thesis using 3 d p
      by - (rule exI [of _ "take ?p ?d"], rule exI [of _ "drop ?p ?d"], auto simp: shape)
  qed
qed

lemma fixed_point_parts:
  "fixed_point_text s \<longleftrightarrow>
     (\<exists>ip fp. s = ip @ (if fp = [] then [] else CHR ''.'' # fp) \<and> list_all is_digit ip \<and> ip \<noteq> []
        \<and> list_all is_digit fp \<and> length fp \<le> 28)"
proof
  assume fixed: "fixed_point_text s"
  have digits: "list_all is_digit (takeWhile is_digit s)" by (induction s) simp_all
  have parts: "s = takeWhile is_digit s @ dropWhile is_digit s" by simp
  show "\<exists>ip fp. s = ip @ (if fp = [] then [] else CHR ''.'' # fp) \<and> list_all is_digit ip \<and> ip \<noteq> []
        \<and> list_all is_digit fp \<and> length fp \<le> 28"
  proof (cases "dropWhile is_digit s")
    case Nil
    then have "s = takeWhile is_digit s" using parts by (metis append_Nil2)
    then show ?thesis using fixed digits
      by - (rule exI [of _ "takeWhile is_digit s"], rule exI [of _ "[]"], simp add: fixed_point_text_def)
  next
    case (Cons c ds)
    then show ?thesis using fixed digits parts
      by - (rule exI [of _ "takeWhile is_digit s"], rule exI [of _ ds], simp add: fixed_point_text_def)
  qed
next
  assume "\<exists>ip fp. s = ip @ (if fp = [] then [] else CHR ''.'' # fp) \<and> list_all is_digit ip \<and> ip \<noteq> []
        \<and> list_all is_digit fp \<and> length fp \<le> 28"
  then obtain ip fp where s: "s = ip @ (if fp = [] then [] else CHR ''.'' # fp)" "list_all is_digit ip" "ip \<noteq> []"
    "list_all is_digit fp" "length fp \<le> 28" by blast
  have "\<not> is_digit (CHR ''.'')" by code_simp
  then have "takeWhile is_digit s = ip" "dropWhile is_digit s = (if fp = [] then [] else CHR ''.'' # fp)"
    using s(1,2) by (auto simp: takeWhile_append dropWhile_append list_all_iff)
  then show "fixed_point_text s" using s(3-5) by (simp add: fixed_point_text_def)
qed

lemma digits_int_bound: "list_all is_digit xs \<Longrightarrow> digits_int a xs < (a + 1) * 10 ^ length xs"
proof (induction xs arbitrary: a)
  case (Cons x xs)
  then have "code_of x - 48 + 1 \<le> 10" by (simp add: is_digit_def Let_def)
  then have "a * 10 + (code_of x - 48) + 1 \<le> (a + 1) * 10" by (simp add: algebra_simps)
  then have "(a * 10 + (code_of x - 48) + 1) * 10 ^ length xs \<le> ((a + 1) * 10) * 10 ^ length xs"
    by (rule mult_right_mono) simp
  moreover have "digits_int (a * 10 + (code_of x - 48)) xs < (a * 10 + (code_of x - 48) + 1) * 10 ^ length xs"
    using Cons.IH [of "a * 10 + (code_of x - 48)"] Cons.prems by simp
  ultimately have "digits_int (a * 10 + (code_of x - 48)) xs < ((a + 1) * 10) * 10 ^ length xs" by (rule order_less_le_trans [rotated])
  then show ?case by (simp only: digits_int.simps list.size(4) power_add power_one_right mult.assoc) (simp add: mult.commute mult.left_commute)
qed simp

lemma fixed_numeral_reads:
  assumes "list_all is_digit ip" "ip \<noteq> []" "list_all is_digit fp" "length ip + length fp \<le> 1000"
  shows "parse_decimal (ip @ (if fp = [] then [] else CHR ''.'' # fp))
    = Some (Dec (digits_int 0 (ip @ fp)) (- int (length fp)))"
proof -
  let ?s = "ip @ (if fp = [] then [] else CHR ''.'' # fp)"
  have dot: "\<not> is_digit (CHR ''.'')" by code_simp
  have ip: "takeWhile is_digit ?s = ip" "dropWhile is_digit ?s = (if fp = [] then [] else CHR ''.'' # fp)"
    using assms(1) dot by (auto simp: takeWhile_append dropWhile_append list_all_iff)
  have fp: "takeWhile is_digit fp = fp" "dropWhile is_digit fp = []"
    using assms(3) by (auto simp: takeWhile_eq_all_conv list_all_iff)
  have "digits_int 0 (ip @ fp) < 10 ^ length (ip @ fp)" using digits_int_bound [of "ip @ fp" 0] assms(1,3) by simp
  moreover have "1 \<le> length (ip @ fp)" using assms(2) by (cases ip) auto
  ultimately have "ndigits (digits_int 0 (ip @ fp)) \<le> int (length (ip @ fp))" by (intro ndigits_le)
  then have "ndigits (digits_int 0 (ip @ fp)) \<le> 1000" using assms(4) by simp
  then have "parse_numeral False ?s = Some (Dec (digits_int 0 (ip @ fp)) (- int (length fp)))"
    using assms(2,4) unfolding parse_numeral_def ip
    by (cases "fp = []") (simp_all add: fp parse_exponent_def Let_def)
  then show ?thesis using plain_numeral [OF assms(1-3)] by simp
qed

lemma position_quantity_accepted:
  assumes "to_position_tp_sl_quantity v = Ok s" "str_of_input v = Some t"
  obtains c e where "parse_decimal t = Some (Dec c e)" "0 < c" "-28 \<le> e" "e \<le> 28"
    "int (length (dec_digits c)) + max e 0 \<le> 29" "c * 10 ^ nat (max e 0) \<le> max_coefficient"
    "case v of PStr u \<Rightarrow> fixed_point_text u \<and> s = t | _ \<Rightarrow> s = decimal_fixed (Dec c e)"
proof -
  obtain y where y: "parse_decimal t = Some y" "to_decimal_string v = Ok t"
    using assms by (cases "parse_decimal t") (auto simp: to_position_tp_sl_quantity_def to_decimal_string_def split: if_splits)
  show ?thesis
  proof (cases y)
    case (Dec c e)
    have "\<not> (c \<le> 0 \<or> e < -28 \<or> 28 < e \<or> 29 < int (length (dec_digits c)) + max e 0
      \<or> (case v of PStr s \<Rightarrow> \<not> fixed_point_text s | _ \<Rightarrow> False))" (is "\<not> ?bad")
      using assms(1) y Dec unfolding to_position_tp_sl_quantity_def by (cases ?bad) simp_all
    moreover from this have "\<not> max_coefficient < c * 10 ^ nat (max e 0)"
      "s = (case v of PStr s \<Rightarrow> t | _ \<Rightarrow> decimal_fixed (Dec c e))"
      using assms(1) y Dec unfolding to_position_tp_sl_quantity_def
      by (simp_all split: if_splits)
    ultimately show ?thesis using y Dec by (intro that [of c e]) (auto split: pyval.splits)
  qed (use assms(1) y in \<open>simp_all add: to_position_tp_sl_quantity_def\<close>)
qed

text \<open>A quantity for closing a position is never rounded: what an accepted input is sent as reads back as the
  value that was given, it is written without an exponent, its coefficient fits into 96 bits and it has
  between 0 and 28 decimal places.\<close>

lemma position_quantity_exact:
  assumes "to_position_tp_sl_quantity v = Ok s" "str_of_input v = Some t"
  shows "\<exists>x c e. parse_decimal t = Some x \<and> parse_decimal s = Some (Dec c e) \<and> dval (Dec c e) = dval x
    \<and> 0 < c \<and> c \<le> max_coefficient \<and> -28 \<le> e \<and> e \<le> 0 \<and> fixed_point_text s"
proof -
  obtain c e where parsed: "parse_decimal t = Some (Dec c e)" "0 < c" "-28 \<le> e" "e \<le> 28"
    "int (length (dec_digits c)) + max e 0 \<le> 29" "c * 10 ^ nat (max e 0) \<le> max_coefficient"
    "case v of PStr u \<Rightarrow> fixed_point_text u \<and> s = t | _ \<Rightarrow> s = decimal_fixed (Dec c e)"
    using position_quantity_accepted [OF assms] .
  show ?thesis
  proof (cases "\<exists>u. v = PStr u")
    case True
    then have s: "s = t" "fixed_point_text s" using parsed(7) assms(2) by (auto simp: str_of_input_def)
    then obtain ip fp where "s = ip @ (if fp = [] then [] else CHR ''.'' # fp)" "list_all is_digit ip" "ip \<noteq> []"
      "list_all is_digit fp" "length fp \<le> 28" unfolding fixed_point_parts by blast
    then have "e = - int (length fp)"
      using parsed(1) s(1) plain_numeral fixed_numeral by (metis decimal.inject(1))
    then have "e \<le> 0" by simp
    with parsed s show ?thesis by (intro exI [of _ "Dec c e"] exI [of _ c] exI [of _ e]) simp
  next
    case False
    then have s: "s = decimal_fixed (Dec c e)" using parsed(7) by (cases v) auto
    obtain ip fp where parts: "s = ip @ (if fp = [] then [] else CHR ''.'' # fp)" "list_all is_digit ip" "ip \<noteq> []"
      "list_all is_digit fp" "int (length fp) = max 0 (- e)" "digits_int 0 (ip @ fp) = c * 10 ^ nat (max e 0)"
      "length ip \<le> 1 + length (dec_digits c) + nat (max e 0)"
      using decimal_fixed_parts [OF parsed(2), of e] s by blast
    have "length fp \<le> 28" using parts(5) parsed(3) by linarith
    moreover have "length ip \<le> 30" using parts(6,7) parsed(5) by linarith
    ultimately have reads: "parse_decimal s = Some (Dec (c * 10 ^ nat (max e 0)) (- int (length fp)))"
      using fixed_numeral_reads [OF parts(2-4)] parts(1,6) by simp
    have fixed: "fixed_point_text s"
      unfolding fixed_point_parts using parts(1-4) \<open>length fp \<le> 28\<close> by blast
    have same: "dval (Dec (c * 10 ^ nat (max e 0)) (- int (length fp))) = dval (Dec c e)"
      using parts(5) by (cases "0 \<le> e") (simp_all add: power_int_def)
    show ?thesis
      by (rule exI [of _ "Dec c e"], rule exI [of _ "c * 10 ^ nat (max e 0)"], rule exI [of _ "- int (length fp)"])
        (use reads same fixed parsed \<open>length fp \<le> 28\<close> in simp)
  qed
qed

lemma position_quantity_exact_witness:
  "\<exists>x c e. parse_decimal ''1.5E+3'' = Some x \<and> parse_decimal ''1500'' = Some (Dec c e) \<and> dval (Dec c e) = dval x
    \<and> 0 < c \<and> c \<le> max_coefficient \<and> -28 \<le> e \<and> e \<le> 0 \<and> fixed_point_text ''1500''"
proof -
  have "to_position_tp_sl_quantity (PDecimal (Dec 15 2)) = Ok ''1500''" "str_of_input (PDecimal (Dec 15 2)) = Some ''1.5E+3''"
    by code_simp+
  then show ?thesis by (rule position_quantity_exact)
qed

end
