(* ===== verification/Perps_Session.thy ===== *)
theory Perps_Session imports Perps_Commands Subscription_Handle begin

text \<open>
  The session of the perpetuals exchange, \<open>_internal/perps_session.py\<close>, as the state machine its callbacks and
  coroutines drive: requests in flight with a future each, waiters for events, the sequence numbers of the
  channels and the bounded queue of events. \<open>models/perps/events.py\<close> parses the events.

  A step is what runs between two points where the event loop may switch. The futures have the index of their
  creation; \<open>'r\<close> is what the parsers of responses return and \<open>'p\<close> the payload of an event.
\<close>

section \<open>Events\<close>

datatype resync_reason = Reconnect | Sequence_Gap | Server

datatype 'p session_event =
    Update (ev_type: string) (ev_channel: string) (ev_sequence: int) (ev_payload: 'p)
  | Resync resync_reason "string option" "int option" "int option"

text \<open>
  What pydantic makes of the fields of a frame: sequence and payload of the model for a type of event, or
  nothing where it refuses them; and the sequence of a resync frame.
\<close>

record 'p event_models =
  em_update :: "string \<Rightarrow> string \<Rightarrow> pyval \<Rightarrow> int \<Rightarrow> pyval \<Rightarrow> pyval \<Rightarrow> (int \<times> 'p) option"
  em_resync :: "string \<Rightarrow> pyval \<Rightarrow> pyval \<Rightarrow> int \<Rightarrow> int option option"

definition session_channel_types :: "(string, string) dict" where
  "session_channel_types =
     [(''balances'', ''balance''), (''portfolio'', ''portfolio''), (''orders'', ''order''), (''fills'', ''fill''),
      (''builderFills'', ''builder_fill''), (''funding'', ''funding''), (''deposits'', ''deposit''),
      (''withdrawals'', ''withdrawal''), (''notifications'', ''notification'')]"

definition server_resync_channels :: "string set" where
  "server_resync_channels = {''notifications'', ''builderFills''}"

text \<open>\<open>re.match(r"^tpsl::\d+$", channel)\<close>\<close>

definition tpsl_channel :: "string \<Rightarrow> bool" where
  "tpsl_channel channel \<longleftrightarrow>
     starts_with ''tpsl::'' channel
   \<and> (let rest = drop 6 channel
      in takeWhile is_digit rest \<noteq> [] \<and> dropWhile is_digit rest \<in> {[], [CHR 0x0A]})"

definition event_horizon :: "(string \<times> pyval) list \<Rightarrow> int res" where
  "event_horizon wire =
     (case dict_get ''ets'' wire of PInt n \<Rightarrow> if 0 \<le> n then Ok n else Raise ValueError | _ \<Rightarrow> Raise ValueError)"

definition parse_update ::
  "'p event_models \<Rightarrow> string \<Rightarrow> string \<Rightarrow> (string \<times> pyval) list \<Rightarrow> 'p session_event option res" where
  "parse_update M event_type channel wire =
     bindE (event_horizon wire) (\<lambda>horizon.
     case em_update M event_type channel (dict_get ''ts'' wire) horizon (dict_get ''sq'' wire) (dict_get ''data'' wire) of
       None \<Rightarrow> Raise ValueError
     | Some (n, payload) \<Rightarrow> Ok (Some (Update event_type channel n payload)))"

definition parse_perps_session_event :: "'p event_models \<Rightarrow> pyval \<Rightarrow> 'p session_event option res" where
  "parse_perps_session_event M raw =
     (case raw of
        PDict wire \<Rightarrow>
          (case dict_get ''ch'' wire of
             PStr channel \<Rightarrow>
               if map_of wire ''ts'' = None \<or> map_of wire ''sq'' = None then Ok None
               else if channel = ''notifications'' \<and> dict_get ''type'' wire = PStr ''resync'' then
                 bindE (event_horizon wire) (\<lambda>horizon.
                 case em_resync M channel (dict_get ''sq'' wire) (dict_get ''ts'' wire) horizon of
                   None \<Rightarrow> Raise ValueError
                 | Some n \<Rightarrow> Ok (Some (Resync Server (Some channel) None n)))
               else if tpsl_channel channel then parse_update M ''tpsl'' channel wire
               else (case map_of session_channel_types channel of
                       None \<Rightarrow> Ok None
                     | Some event_type \<Rightarrow> parse_update M event_type channel wire)
           | _ \<Rightarrow> Ok None)
      | _ \<Rightarrow> Ok None)"

section \<open>State\<close>

datatype 'a future = Waiting | Settled "'a res" | Abandoned

definition future_done :: "'a future \<Rightarrow> bool" where
  "future_done f \<longleftrightarrow> f \<noteq> Waiting"

text \<open>A future is set once: what sets it asks \<open>done\<close> first.\<close>

definition settle :: "nat \<Rightarrow> 'a future \<Rightarrow> 'a future list \<Rightarrow> 'a future list" where
  "settle k outcome futures = (if k < length futures \<and> futures ! k = Waiting then futures[k := outcome] else futures)"

record ('r, 'p) session =
  se_calls :: "'r future list"
  se_pending :: "(int, nat \<times> (pyval \<Rightarrow> 'r res)) dict"
  se_watches :: "'p session_event future list"
  se_waiters :: "(nat \<times> ('p session_event \<Rightarrow> bool res)) list"
  se_sequences :: "(string, int) dict"
  se_next_id :: int
  se_queue :: "'p session_event item list"
  se_closed :: bool
  se_ended :: bool
  se_end_error :: "py_error option"
  se_dropped :: nat
  se_timer :: bool
  se_attempt :: nat
  se_stopped :: bool

definition QUEUE_SIZE :: nat where "QUEUE_SIZE = 1024"

definition new_session :: "('r, 'p) session" where
  "new_session =
     \<lparr>se_calls = [], se_pending = [], se_watches = [], se_waiters = [], se_sequences = [], se_next_id = 1,
      se_queue = [], se_closed = False, se_ended = False, se_end_error = None, se_dropped = 0,
      se_timer = False, se_attempt = 0, se_stopped = False\<rparr>"

section \<open>The queue of events\<close>

definition push_event :: "'p session_event \<Rightarrow> ('r, 'p) session \<Rightarrow> ('r, 'p) session" where
  "push_event event s =
     (if se_ended s then s
      else case put_nowait QUEUE_SIZE (Event event) (se_queue s) of
        Some q \<Rightarrow> s\<lparr>se_queue := q\<rparr>
      | None \<Rightarrow>
          let s = (case get_nowait (se_queue s) of
                     None \<Rightarrow> s
                   | Some (_, q) \<Rightarrow> s\<lparr>se_queue := q, se_dropped := se_dropped s + 1\<rparr>)
          in case put_nowait QUEUE_SIZE (Event event) (se_queue s) of
               Some q \<Rightarrow> s\<lparr>se_queue := q\<rparr>
             | None \<Rightarrow> s\<lparr>se_dropped := se_dropped s + 1\<rparr>)"

text \<open>The last \<open>put_nowait\<close> of \<open>_end\<close> finds room, because an item was just taken out.\<close>

definition put_session_end :: "('r, 'p) session \<Rightarrow> ('r, 'p) session" where
  "put_session_end s = (case put_nowait QUEUE_SIZE EndItem (se_queue s) of Some q \<Rightarrow> s\<lparr>se_queue := q\<rparr> | None \<Rightarrow> s)"

definition end_session :: "py_error option \<Rightarrow> ('r, 'p) session \<Rightarrow> ('r, 'p) session" where
  "end_session error s =
     (if se_ended s then s
      else
        let s = s\<lparr>se_ended := True, se_end_error := error\<rparr> in
        case put_nowait QUEUE_SIZE EndItem (se_queue s) of
          Some q \<Rightarrow> s\<lparr>se_queue := q\<rparr>
        | None \<Rightarrow>
            put_session_end (case get_nowait (se_queue s) of None \<Rightarrow> s | Some (_, q) \<Rightarrow> s\<lparr>se_queue := q\<rparr>))"

definition next_event :: "('r, 'p) session \<Rightarrow> 'p session_event received \<times> ('r, 'p) session" where
  "next_event s =
     (case get_nowait (se_queue s) of
        None \<Rightarrow> (Blocked, s)
      | Some (Event e, q) \<Rightarrow> (Item e, s\<lparr>se_queue := q\<rparr>)
      | Some (EndItem, q) \<Rightarrow> (end_of_stream (se_end_error s), s\<lparr>se_queue := q\<rparr>))"

section \<open>Emitting events\<close>

definition notify_waiter ::
  "'p session_event \<Rightarrow> nat \<times> ('p session_event \<Rightarrow> bool res) \<Rightarrow> 'p session_event future list \<Rightarrow> 'p session_event future list" where
  "notify_waiter event w watches = (if snd w event = Ok True then settle (fst w) (Settled (Ok event)) watches else watches)"

definition emit_event :: "'p session_event \<Rightarrow> ('r, 'p) session \<Rightarrow> ('r, 'p) session" where
  "emit_event event s =
     push_event event (s\<lparr>se_watches := fold (notify_waiter event) (se_waiters s) (se_watches s)\<rparr>)"

definition push_sequence_gap_if_needed :: "'p session_event \<Rightarrow> ('r, 'p) session \<Rightarrow> ('r, 'p) session" where
  "push_sequence_gap_if_needed event s =
     (case event of
        Resync _ _ _ _ \<Rightarrow> s
      | Update _ channel n _ \<Rightarrow>
          if channel \<in> server_resync_channels then s
          else
            let previous = map_of (se_sequences s) channel; s = s\<lparr>se_sequences := dict_set channel n (se_sequences s)\<rparr> in
            case previous of
              None \<Rightarrow> s
            | Some p \<Rightarrow> if n = p + 1 then s else emit_event (Resync Sequence_Gap (Some channel) (Some p) (Some n)) s)"

section \<open>Responses\<close>

definition error_ack :: "pyval \<Rightarrow> string option" where
  "error_ack v =
     (case v of
        PDict ack \<Rightarrow>
          if dict_get ''status'' ack \<noteq> PStr ''err'' then None
          else (case dict_get ''error'' ack of
                  PStr t \<Rightarrow> Some (if t \<noteq> [] then t else ''Perps command failed.'')
                | _ \<Rightarrow> Some ''Perps command failed.'')
      | _ \<Rightarrow> None)"

text \<open>What the future of a request is set to when its response arrives.\<close>

definition settle_reply :: "(pyval \<Rightarrow> 'r res) \<Rightarrow> (string \<times> pyval) list \<Rightarrow> 'r res" where
  "settle_reply parse message =
     (let data = dict_get ''data'' message in
      case parse data of
        Inr r \<Rightarrow> Ok r
      | Inl e \<Rightarrow>
          if rejection e \<noteq> None then Raise e
          else (case error_ack (if data \<noteq> PNone then data else PDict message) of
                  Some t \<Rightarrow> Raise (RequestRejectedError 200 t None None)
                | None \<Rightarrow> if e = UnexpectedResponseError then Raise e else Raise TransportError))"

definition handle_response :: "pyval \<Rightarrow> ('r, 'p) session \<Rightarrow> bool \<times> ('r, 'p) session" where
  "handle_response raw s =
     (case raw of
        PDict message \<Rightarrow>
          (case dict_get ''id'' message of
             PInt request_id \<Rightarrow>
               (case map_of (se_pending s) request_id of
                  None \<Rightarrow> (True, s)
                | Some (k, parse) \<Rightarrow>
                    (True, s\<lparr>se_pending := dict_pop request_id (se_pending s),
                             se_calls := settle k (Settled (settle_reply parse message)) (se_calls s)\<rparr>))
           | _ \<Rightarrow> (False, s))
      | _ \<Rightarrow> (False, s))"

definition on_frame :: "'p event_models \<Rightarrow> pyval \<Rightarrow> ('r, 'p) session \<Rightarrow> ('r, 'p) session" where
  "on_frame M raw s =
     (case handle_response raw s of
        (True, s) \<Rightarrow> s
      | (False, s) \<Rightarrow>
          (case parse_perps_session_event M raw of
             Inl _ \<Rightarrow> s
           | Inr None \<Rightarrow> s
           | Inr (Some event) \<Rightarrow> emit_event event (push_sequence_gap_if_needed event s)))"

fun on_message :: "'p event_models \<Rightarrow> pyval \<Rightarrow> ('r, 'p) session \<Rightarrow> ('r, 'p) session" where
  "on_message M (PList items) s = fold (\<lambda>item s. on_message M item s) items s"
| "on_message M raw s = on_frame M raw s"

section \<open>Requests\<close>

definition take_request_id :: "('r, 'p) session \<Rightarrow> int \<times> ('r, 'p) session" where
  "take_request_id s = (se_next_id s, s\<lparr>se_next_id := se_next_id s + 1\<rparr>)"

text \<open>
  \<open>_send_request\<close> from its start to its first wait, what its timeout does to the future it waits for, and the
  end of it: \<open>sent\<close> tells whether the frame could be sent.
\<close>

definition begin_request :: "int \<Rightarrow> (pyval \<Rightarrow> 'r res) \<Rightarrow> ('r, 'p) session \<Rightarrow> nat res \<times> ('r, 'p) session" where
  "begin_request request_id parse s =
     (if se_closed s then (Raise TransportError, s)
      else
        let k = length (se_calls s)
        in (Ok k, s\<lparr>se_calls := se_calls s @ [Waiting],
                    se_pending := dict_set request_id (k, parse) (se_pending s)\<rparr>))"

definition expire_request :: "nat \<Rightarrow> ('r, 'p) session \<Rightarrow> ('r, 'p) session" where
  "expire_request k s = s\<lparr>se_calls := settle k Abandoned (se_calls s)\<rparr>"

definition finish_request :: "int \<Rightarrow> nat \<Rightarrow> bool \<Rightarrow> ('r, 'p) session \<Rightarrow> 'r res \<times> ('r, 'p) session" where
  "finish_request request_id k sent s =
     (if \<not> sent then Raise TransportError
      else case se_calls s ! k of Settled r \<Rightarrow> r | _ \<Rightarrow> Raise TransportError,
      s\<lparr>se_pending := dict_pop request_id (se_pending s)\<rparr>)"

definition create_event_waiter ::
  "('p session_event \<Rightarrow> bool res) \<Rightarrow> ('r, 'p) session \<Rightarrow> nat \<times> ('r, 'p) session" where
  "create_event_waiter predicate s =
     (length (se_watches s),
      s\<lparr>se_watches := se_watches s @ [Waiting], se_waiters := se_waiters s @ [(length (se_watches s), predicate)]\<rparr>)"

definition remove_event_waiter :: "nat \<Rightarrow> ('r, 'p) session \<Rightarrow> ('r, 'p) session" where
  "remove_event_waiter k s =
     s\<lparr>se_waiters := filter (\<lambda>w. fst w \<noteq> k) (se_waiters s), se_watches := settle k Abandoned (se_watches s)\<rparr>"

definition reject_pending :: "py_error \<Rightarrow> ('r, 'p) session \<Rightarrow> ('r, 'p) session" where
  "reject_pending error s =
     s\<lparr>se_calls := fold (\<lambda>(_, k, _). settle k (Settled (Raise error))) (se_pending s) (se_calls s), se_pending := []\<rparr>"

definition reject_event_waiters :: "py_error \<Rightarrow> ('r, 'p) session \<Rightarrow> ('r, 'p) session" where
  "reject_event_waiters error s =
     s\<lparr>se_watches := fold (\<lambda>(k, _). settle k (Settled (Raise error))) (se_waiters s) (se_watches s), se_waiters := []\<rparr>"

section \<open>The connection\<close>

definition schedule_reconnect :: "('r, 'p) session \<Rightarrow> ('r, 'p) session" where
  "schedule_reconnect s =
     (if se_stopped s \<or> se_timer s \<or> se_closed s then s else s\<lparr>se_attempt := se_attempt s + 1, se_timer := True\<rparr>)"

definition connection_lost :: "('r, 'p) session \<Rightarrow> ('r, 'p) session" where
  "connection_lost s =
     (let s = reject_event_waiters TransportError (reject_pending TransportError s)
      in if se_closed s then s else schedule_reconnect s)"

text \<open>The timer of the scheduler fires; the flag tells whether \<open>_reconnect\<close> goes on to connect.\<close>

definition timer_fires :: "('r, 'p) session \<Rightarrow> bool \<times> ('r, 'p) session" where
  "timer_fires s = (\<not> (se_stopped s \<or> se_closed s), s\<lparr>se_timer := False\<rparr>)"

text \<open>The end of \<open>_connect\<close>, once the session is authenticated and subscribed, and the failure of \<open>_reconnect\<close>.\<close>

definition connect_done :: "bool \<Rightarrow> ('r, 'p) session \<Rightarrow> ('r, 'p) session" where
  "connect_done emit_resync s =
     (let s = s\<lparr>se_attempt := 0\<rparr>
      in if emit_resync then push_event (Resync Reconnect None None None) (s\<lparr>se_sequences := []\<rparr>) else s)"

definition reconnect_failed :: "py_error \<Rightarrow> ('r, 'p) session \<Rightarrow> ('r, 'p) session" where
  "reconnect_failed error s =
     (if (error = TransportError \<or> rejection error \<noteq> None) \<and> \<not> se_closed s then schedule_reconnect s else s)"

text \<open>\<open>close\<close> up to its first wait, and after the scheduler and the subscription of builder fills have stopped.\<close>

definition begin_session_close :: "('r, 'p) session \<Rightarrow> ('r, 'p) session" where
  "begin_session_close s = (if se_closed s then s else s\<lparr>se_closed := True, se_stopped := True\<rparr>)"

definition finish_session_close :: "('r, 'p) session \<Rightarrow> ('r, 'p) session" where
  "finish_session_close s =
     end_session None (reject_event_waiters TransportError (reject_pending TransportError (s\<lparr>se_timer := False\<rparr>)))"


section \<open>Acknowledgements\<close>

definition ack_shape_ok :: "pyval \<Rightarrow> bool" where
  "ack_shape_ok v =
     (case v of PDict ack \<Rightarrow> dict_get ''status'' ack \<in> {PStr ''ok'', PStr ''err''} | _ \<Rightarrow> False)"

fun first_rejected :: "pyval list \<Rightarrow> unit res" where
  "first_rejected [] = Ok ()"
| "first_rejected (v # entries) =
     (case error_ack v of
        Some t \<Rightarrow> Raise (RequestRejectedError 200 t None None)
      | None \<Rightarrow> first_rejected entries)"

definition parse_session_ack :: "pyval \<Rightarrow> unit res" where
  "parse_session_ack data =
     (let entries = (case data of PList xs \<Rightarrow> xs | _ \<Rightarrow> [data]) in
      if entries = [] then Raise ValueError
      else if \<not> list_all ack_shape_ok entries then Raise ValueError
      else first_rejected entries)"

text \<open>Authentication and subscription fail with an error after which \<open>_reconnect\<close> tries again.\<close>

definition session_error :: "py_error \<Rightarrow> bool" where
  "session_error e \<longleftrightarrow> e = TransportError \<or> rejection e \<noteq> None"

lemma settle_ack_error:
  assumes "settle_reply parse_session_ack message = Raise e"
  shows "session_error e"
proof -
  have "\<exists>t. e = RequestRejectedError 200 t None None" if "first_rejected xs = Raise e" for xs e
    using that by (induction xs) (auto split: option.splits)
  then have "e = ValueError \<or> rejection e \<noteq> None" if "parse_session_ack data = Raise e" for data e
    using that by (auto simp: parse_session_ack_def Let_def split: if_splits) fastforce+
  then have "parse_session_ack data \<noteq> Raise UnexpectedResponseError" for data by fastforce
  then show ?thesis using assms
    by (auto simp: settle_reply_def Let_def session_error_def split: sum.splits option.splits if_splits)
qed

section \<open>The session and what is around it\<close>

text \<open>
  The session together with the coroutines that use it: the calls of \<open>_send_request\<close> that wait (number and
  future of each), the attempts to connect (whether the socket has still to open, and whether it is a
  reconnect), whether the last socket was lost; and the history: the requests and frames, the answers that
  callers got and the events the consumer received.
\<close>

record ('r, 'p) system =
  sy_session :: "('r, 'p) session"
  sy_tasks :: "(int \<times> nat) list"
  sy_attempts :: "(bool \<times> bool) list"
  sy_lost :: bool
  sy_sent :: "(int \<times> (pyval \<Rightarrow> 'r res)) list"
  sy_frames :: "pyval list"
  sy_answers :: "(int \<times> 'r res) list"
  sy_received :: "'p session_event list"

definition new_system :: "('r, 'p) system" where
  "new_system = \<lparr>sy_session = new_session, sy_tasks = [], sy_attempts = [], sy_lost = False, sy_sent = [],
     sy_frames = [], sy_answers = [], sy_received = []\<rparr>"

fun frames_of :: "pyval \<Rightarrow> pyval list" where
  "frames_of (PList items) = concat (map frames_of items)"
| "frames_of raw = [raw]"

inductive system_step :: "'p event_models \<Rightarrow> ('r, 'p) system \<Rightarrow> ('r, 'p) system \<Rightarrow> bool" for M where
  message: "system_step M y (y\<lparr>sy_session := on_message M raw (sy_session y), sy_frames := sy_frames y @ frames_of raw\<rparr>)"
| request: "take_request_id (sy_session y) = (n, s) \<Longrightarrow> begin_request n parse s = (Ok k, s') \<Longrightarrow>
    system_step M y (y\<lparr>sy_session := s', sy_tasks := sy_tasks y @ [(n, k)], sy_sent := sy_sent y @ [(n, parse)]\<rparr>)"
| refused: "take_request_id (sy_session y) = (n, s) \<Longrightarrow> begin_request n parse s = (Raise e, s') \<Longrightarrow>
    system_step M y (y\<lparr>sy_session := s', sy_answers := sy_answers y @ [(n, Raise e)]\<rparr>)"
| expire: "(n, k) \<in> set (sy_tasks y) \<Longrightarrow>
    system_step M y (y\<lparr>sy_session := expire_request k (sy_session y)\<rparr>)"
| finish: "(n, k) \<in> set (sy_tasks y) \<Longrightarrow> sent \<longrightarrow> future_done (se_calls (sy_session y) ! k) \<Longrightarrow>
    finish_request n k sent (sy_session y) = (r, s') \<Longrightarrow>
    system_step M y (y\<lparr>sy_session := s', sy_tasks := removeAll (n, k) (sy_tasks y), sy_answers := sy_answers y @ [(n, r)]\<rparr>)"
| watch: "system_step M y (y\<lparr>sy_session := snd (create_event_waiter predicate (sy_session y))\<rparr>)"
| unwatch: "system_step M y (y\<lparr>sy_session := remove_event_waiter k (sy_session y)\<rparr>)"
| connect: "system_step M y (y\<lparr>sy_attempts := (True, False) # sy_attempts y\<rparr>)"
| timer: "se_timer (sy_session y) \<Longrightarrow> timer_fires (sy_session y) = (go, s') \<Longrightarrow>
    system_step M y (y\<lparr>sy_session := s', sy_attempts := (if go then [(True, True)] else []) @ sy_attempts y\<rparr>)"
| opened: "(True, resync) \<in> set (sy_attempts y) \<Longrightarrow>
    system_step M y (y\<lparr>sy_attempts := (False, resync) # remove1 (True, resync) (sy_attempts y), sy_lost := False\<rparr>)"
| failed: "(opening, resync) \<in> set (sy_attempts y) \<Longrightarrow> session_error e \<Longrightarrow>
    system_step M y (y\<lparr>sy_session := (if resync then reconnect_failed e (sy_session y) else sy_session y),
      sy_attempts := remove1 (opening, resync) (sy_attempts y)\<rparr>)"
| connected: "(False, resync) \<in> set (sy_attempts y) \<Longrightarrow>
    system_step M y (y\<lparr>sy_session := connect_done resync (sy_session y), sy_attempts := remove1 (False, resync) (sy_attempts y)\<rparr>)"
| lost: "system_step M y (y\<lparr>sy_session := connection_lost (sy_session y), sy_lost := True\<rparr>)"
| close: "system_step M y (y\<lparr>sy_session := begin_session_close (sy_session y)\<rparr>)"
| closed: "se_closed (sy_session y) \<Longrightarrow> system_step M y (y\<lparr>sy_session := finish_session_close (sy_session y)\<rparr>)"
| read: "next_event (sy_session y) = (Item e, s') \<Longrightarrow>
    system_step M y (y\<lparr>sy_session := s', sy_received := sy_received y @ [e]\<rparr>)"
| ended: "next_event (sy_session y) = (outcome, s') \<Longrightarrow> (\<And>e. outcome \<noteq> Item e) \<Longrightarrow>
    system_step M y (y\<lparr>sy_session := s'\<rparr>)"

inductive reachable_system :: "'p event_models \<Rightarrow> ('r, 'p) system \<Rightarrow> bool" for M where
  start: "reachable_system M new_system"
| step: "reachable_system M y \<Longrightarrow> system_step M y y' \<Longrightarrow> reachable_system M y'"

section \<open>Frames one by one\<close>

lemma on_message_frames: "on_message M raw s = fold (on_frame M) (frames_of raw) s"
proof (induction raw arbitrary: s rule: frames_of.induct)
  case (1 items)
  have "fold (\<lambda>item s. on_message M item s) items s = fold (on_frame M) (concat (map frames_of items)) s"
    using 1 by (induction items arbitrary: s) auto
  then show ?case by simp
qed simp_all


section \<open>The queue drops its oldest event\<close>

definition queue_ok :: "('r, 'p) session \<Rightarrow> bool" where
  "queue_ok s \<longleftrightarrow> length (se_queue s) \<le> QUEUE_SIZE
     \<and> (se_queue s = map Event (pending (se_queue s))
        \<or> se_ended s \<and> se_queue s = map Event (pending (se_queue s)) @ [EndItem])"

lemma QUEUE_SIZE_pos [simp]: "0 < QUEUE_SIZE" "Suc 0 \<le> QUEUE_SIZE" "Suc 0 - QUEUE_SIZE = 0"
  by (simp_all add: QUEUE_SIZE_def)

lemma queue_ok_open:
  assumes "queue_ok s" "\<not> se_ended s"
  shows "se_queue s = map Event (pending (se_queue s))" "length (pending (se_queue s)) \<le> QUEUE_SIZE"
  using assms by (auto simp: queue_ok_def) (metis length_map)

lemma push_event_open:
  assumes "queue_ok s" "\<not> se_ended s"
  shows "push_event e s = s\<lparr>se_queue := map Event (keep_last QUEUE_SIZE (pending (se_queue s) @ [e])),
    se_dropped := se_dropped s + (if length (pending (se_queue s)) < QUEUE_SIZE then 0 else 1)\<rparr>"
proof -
  obtain es where "se_queue s = map Event es" "pending (se_queue s) = es" "length es \<le> QUEUE_SIZE"
    using queue_ok_open [OF assms] by metis
  with assms(2) QUEUE_SIZE_pos show ?thesis
    by (cases es) (auto simp: push_event_def put_nowait_def get_nowait_def keep_last_def)
qed

lemma push_event_ended [simp]: "se_ended s \<Longrightarrow> push_event e s = s"
  by (simp add: push_event_def)

lemma queue_ok_push:
  assumes "queue_ok s"
  shows "queue_ok (push_event e s)"
proof (cases "se_ended s")
  case False
  then show ?thesis using push_event_open [OF assms False, of e] by (simp add: queue_ok_def)
qed (use assms in simp)

interpretation session_queue: drop_oldest push_event "\<lambda>s. pending (se_queue s)" "\<lambda>_. QUEUE_SIZE" se_dropped
  "\<lambda>s. queue_ok s \<and> \<not> se_ended s"
proof unfold_locales
  fix s :: "('r, 'p) session" assume s: "queue_ok s \<and> \<not> se_ended s"
  then show "length (pending (se_queue s)) \<le> QUEUE_SIZE" using queue_ok_open by blast
  fix e
  show "queue_ok (push_event e s) \<and> \<not> se_ended (push_event e s)"
    using s queue_ok_push [of s e] push_event_open [of s e] by simp
qed (simp_all add: push_event_open)

lemma queue_ok_end:
  assumes "queue_ok s"
  shows "queue_ok (end_session error s)" "se_ended (end_session error s)"
    "\<not> se_ended s \<Longrightarrow> pending (se_queue (end_session error s)) = keep_last (QUEUE_SIZE - 1) (pending (se_queue s))"
    "se_dropped (end_session error s) = se_dropped s"
proof -
  have "queue_ok (end_session error s) \<and> se_ended (end_session error s)
      \<and> pending (se_queue (end_session error s)) = keep_last (QUEUE_SIZE - 1) (pending (se_queue s))
      \<and> se_dropped (end_session error s) = se_dropped s" if False: "\<not> se_ended s"
  proof -
    obtain es where "se_queue s = map Event es" "pending (se_queue s) = es" "length es \<le> QUEUE_SIZE"
      using queue_ok_open [OF assms False] by metis
    with False QUEUE_SIZE_pos show ?thesis
      by (cases es) (auto simp: end_session_def put_session_end_def put_nowait_def get_nowait_def keep_last_def
          queue_ok_def Let_def)
  qed
  moreover have "end_session error s = s" if "se_ended s" using that by (simp add: end_session_def)
  ultimately show "queue_ok (end_session error s)" "se_ended (end_session error s)"
    "\<not> se_ended s \<Longrightarrow> pending (se_queue (end_session error s)) = keep_last (QUEUE_SIZE - 1) (pending (se_queue s))"
    "se_dropped (end_session error s) = se_dropped s"
    using assms by (cases "se_ended s"; simp)+
qed

section \<open>Gaps are announced\<close>

text \<open>
  A consumer that follows the sequence of each channel, from nothing at the start and after each reconnect:
  an update has the number after the last one, or the gap before it has been announced with both numbers.
  \<open>None\<close> for a log in which a gap was not announced, or one announced that is none.
\<close>

fun follow_event :: "'p session_event \<Rightarrow> (string \<rightharpoonup> int) \<Rightarrow> (string \<rightharpoonup> int) option" where
  "follow_event (Update _ channel n _) seen =
     (if channel \<in> server_resync_channels then Some seen
      else if seen channel \<in> {None, Some (n - 1)} then Some (seen(channel \<mapsto> n)) else None)"
| "follow_event (Resync Reconnect _ _ _) seen = Some Map.empty"
| "follow_event (Resync Server _ _ _) seen = Some seen"
| "follow_event (Resync Sequence_Gap channel previous n) seen =
     (case (channel, previous, n) of
        (Some c, Some p, Some n) \<Rightarrow> if seen c = Some p \<and> n \<noteq> p + 1 then Some (seen(c \<mapsto> n - 1)) else None
      | _ \<Rightarrow> None)"

fun follow :: "'p session_event list \<Rightarrow> (string \<rightharpoonup> int) \<Rightarrow> (string \<rightharpoonup> int) option" where
  "follow [] seen = Some seen"
| "follow (e # es) seen = Option.bind (follow_event e seen) (follow es)"

lemma follow_append: "follow (xs @ ys) seen = Option.bind (follow xs seen) (follow ys)"
proof (induction xs arbitrary: seen)
  case (Cons e xs)
  then show ?case by (cases "follow_event e seen") simp_all
qed simp

definition logged :: "'p session_event list \<Rightarrow> (string \<rightharpoonup> int) \<Rightarrow> ('r, 'p) session \<Rightarrow> bool" where
  "logged received seen s \<longleftrightarrow>
     queue_ok s \<and> \<not> se_ended s
   \<and> (\<exists>log. follow log Map.empty = Some seen \<and> subseq (received @ pending (se_queue s)) log
        \<and> length log = length received + length (pending (se_queue s)) + se_dropped s)"

definition logged_ended :: "'p session_event list \<Rightarrow> ('r, 'p) session \<Rightarrow> bool" where
  "logged_ended received s \<longleftrightarrow>
     queue_ok s \<and> se_ended s
   \<and> (\<exists>log. follow log Map.empty \<noteq> None \<and> subseq (received @ pending (se_queue s)) log
        \<and> length log \<le> length received + length (pending (se_queue s)) + se_dropped s + 1)"

lemma logged_push:
  assumes "logged received seen s" "follow_event e seen = Some seen'"
  shows "logged received seen' (push_event e s)"
proof -
  let ?p = "pending (se_queue s)"
  obtain log where log: "queue_ok s" "\<not> se_ended s" "follow log Map.empty = Some seen" "subseq (received @ ?p) log"
    "length log = length received + length ?p + se_dropped s" using assms(1) by (auto simp: logged_def)
  have "subseq (received @ keep_last QUEUE_SIZE (?p @ [e])) (received @ ?p @ [e])"
    by (intro list_emb_append_mono subseq_order.order_refl subseq_keep_last)
  moreover have "subseq (received @ ?p @ [e]) (log @ [e])"
    using list_emb_append_mono [OF log(4), of "[e]" "[e]"] by simp
  ultimately have "subseq (received @ keep_last QUEUE_SIZE (?p @ [e])) (log @ [e])"
    by (rule subseq_order.trans)
  moreover have "follow (log @ [e]) Map.empty = Some seen'" using log(3) assms(2) by (simp add: follow_append)
  moreover have "length ?p \<le> QUEUE_SIZE" using queue_ok_open [OF log(1,2)] by simp
  ultimately show ?thesis
    using log(1,2,5) queue_ok_push [OF log(1), of e] push_event_open [OF log(1,2), of e]
    unfolding logged_def by (intro conjI exI [of _ "log @ [e]"]) auto
qed


lemma push_event_fields [simp]:
  "se_calls (push_event e s) = se_calls s" "se_pending (push_event e s) = se_pending s"
  "se_watches (push_event e s) = se_watches s" "se_waiters (push_event e s) = se_waiters s"
  "se_sequences (push_event e s) = se_sequences s" "se_next_id (push_event e s) = se_next_id s"
  "se_closed (push_event e s) = se_closed s" "se_ended (push_event e s) = se_ended s"
  "se_timer (push_event e s) = se_timer s" "se_stopped (push_event e s) = se_stopped s"
  by (auto simp: push_event_def Let_def split: option.splits)

lemma end_session_fields [simp]:
  "se_calls (end_session e s) = se_calls s" "se_pending (end_session e s) = se_pending s"
  "se_watches (end_session e s) = se_watches s" "se_waiters (end_session e s) = se_waiters s"
  "se_next_id (end_session e s) = se_next_id s" "se_closed (end_session e s) = se_closed s"
  "se_timer (end_session e s) = se_timer s" "se_stopped (end_session e s) = se_stopped s"
  by (auto simp: end_session_def put_session_end_def Let_def split: option.splits)

lemma logged_same:
  assumes "se_queue s' = se_queue s" "se_ended s' = se_ended s" "se_dropped s' = se_dropped s"
  shows "logged received seen s' = logged received seen s" "logged_ended received s' = logged_ended received s"
  using assms by (simp_all add: logged_def logged_ended_def queue_ok_def)

text \<open>What holds of the events of a session, read and waiting.\<close>

definition events_ok :: "'p session_event list \<Rightarrow> ('r, 'p) session \<Rightarrow> bool" where
  "events_ok received s \<longleftrightarrow> logged received (map_of (se_sequences s)) s \<or> logged_ended received s"

lemma events_ok_same:
  assumes "se_queue s' = se_queue s" "se_ended s' = se_ended s" "se_dropped s' = se_dropped s"
    "se_sequences s' = se_sequences s"
  shows "events_ok received s' = events_ok received s"
  using assms by (simp add: events_ok_def logged_same [OF assms(1-3)])

lemma logged_emit:
  assumes "logged received seen s" "follow_event e seen = Some seen'"
    "se_queue s' = se_queue s" "se_ended s' = se_ended s" "se_dropped s' = se_dropped s"
  shows "logged received seen' (push_event e s')" "logged received seen' (emit_event e s')"
proof -
  have s': "logged received seen s'" using assms(1) logged_same(1) [OF assms(3-5)] by simp
  then show "logged received seen' (push_event e s')" using logged_push assms(2) by blast
  let ?t = "s'\<lparr>se_watches := fold (notify_waiter e) (se_waiters s') (se_watches s')\<rparr>"
  have "logged received seen ?t" using s' by (subst logged_same(1) [of _ s']) simp_all
  then show "logged received seen' (emit_event e s')" unfolding emit_event_def using logged_push assms(2) by blast
qed

lemma emit_event_fields [simp]:
  "se_calls (emit_event e s) = se_calls s" "se_pending (emit_event e s) = se_pending s"
  "se_waiters (emit_event e s) = se_waiters s" "se_sequences (emit_event e s) = se_sequences s"
  "se_next_id (emit_event e s) = se_next_id s" "se_closed (emit_event e s) = se_closed s"
  "se_ended (emit_event e s) = se_ended s" "se_timer (emit_event e s) = se_timer s"
  "se_stopped (emit_event e s) = se_stopped s"
  by (simp_all add: emit_event_def)

lemma gap_fields [simp]:
  "se_calls (push_sequence_gap_if_needed e s) = se_calls s" "se_pending (push_sequence_gap_if_needed e s) = se_pending s"
  "se_waiters (push_sequence_gap_if_needed e s) = se_waiters s" "se_next_id (push_sequence_gap_if_needed e s) = se_next_id s"
  "se_closed (push_sequence_gap_if_needed e s) = se_closed s" "se_ended (push_sequence_gap_if_needed e s) = se_ended s"
  "se_timer (push_sequence_gap_if_needed e s) = se_timer s" "se_stopped (push_sequence_gap_if_needed e s) = se_stopped s"
  by (auto simp: push_sequence_gap_if_needed_def Let_def split: session_event.splits option.splits)

lemma emit_event_ended:
  assumes "se_ended s"
  shows "se_queue (emit_event e s) = se_queue s" "se_dropped (emit_event e s) = se_dropped s"
    "se_queue (push_sequence_gap_if_needed e s) = se_queue s" "se_dropped (push_sequence_gap_if_needed e s) = se_dropped s"
  using assms by (auto simp: emit_event_def push_sequence_gap_if_needed_def Let_def split: session_event.splits option.splits)

lemma logged_ended_ended: "logged_ended received s \<Longrightarrow> se_ended s"
  by (simp add: logged_ended_def)

text \<open>An event that was received: never one the session makes itself.\<close>

lemma events_ok_event:
  assumes "events_ok received s" "\<And>n p q. e \<noteq> Resync Sequence_Gap n p q" "\<And>n p q. e \<noteq> Resync Reconnect n p q"
  shows "events_ok received (emit_event e (push_sequence_gap_if_needed e s))"
proof (cases "se_ended s")
  case True
  then have "logged_ended received s" using assms(1) by (auto simp: events_ok_def logged_def)
  then have "logged_ended received (emit_event e (push_sequence_gap_if_needed e s))"
    using True by (subst logged_same(2) [of _ s]) (simp_all add: emit_event_ended)
  then show ?thesis by (simp add: events_ok_def)
next
  case False
  let ?m = "map_of (se_sequences s)"
  have s: "logged received ?m s" using assms(1) False by (auto simp: events_ok_def logged_ended_def)
  show ?thesis
  proof (cases e)
    case (Resync reason c p n)
    then have "follow_event e ?m = Some ?m" using assms(2,3) by (cases reason) auto
    then show ?thesis using logged_emit(2) [OF s, of e ?m s] Resync
      by (simp add: push_sequence_gap_if_needed_def events_ok_def)
  next
    case (Update t c n v)
    show ?thesis
    proof (cases "c \<in> server_resync_channels")
      case True
      then show ?thesis using logged_emit(2) [OF s, of e ?m s] Update
        by (simp add: push_sequence_gap_if_needed_def events_ok_def)
    next
      case other: False
      let ?s = "s\<lparr>se_sequences := dict_set c n (se_sequences s)\<rparr>"
      show ?thesis
      proof (cases "?m c \<in> {None, Some (n - 1)}")
        case True
        then have "push_sequence_gap_if_needed e s = ?s"
          using Update other by (auto simp: push_sequence_gap_if_needed_def Let_def)
        then show ?thesis using logged_emit(2) [OF s, of e "?m(c \<mapsto> n)" ?s] Update other True
          by (simp add: events_ok_def)
      next
        case gap: False
        then obtain p where p: "?m c = Some p" "n \<noteq> p + 1" by auto
        let ?gap = "Resync Sequence_Gap (Some c) (Some p) (Some n)"
        have "push_sequence_gap_if_needed e s = emit_event ?gap ?s"
          using Update other p by (simp add: push_sequence_gap_if_needed_def Let_def)
        moreover have "logged received (?m(c \<mapsto> n - 1)) (emit_event ?gap ?s)"
          by (rule logged_emit(2) [OF s]) (use p in simp_all)
        then have "logged received (?m(c \<mapsto> n)) (emit_event e (emit_event ?gap ?s))"
          by (rule logged_emit(2)) (use Update other in simp_all)
        ultimately show ?thesis by (simp add: events_ok_def)
      qed
    qed
  qed
qed


lemma parsed_event:
  assumes "parse_perps_session_event M raw = Ok (Some e)"
  shows "e \<noteq> Resync Sequence_Gap n p q" "e \<noteq> Resync Reconnect n p q"
  using assms
  by (auto simp: parse_perps_session_event_def parse_update_def event_horizon_def
      split: pyval.splits if_splits option.splits prod.splits)

lemma handle_response_queue:
  assumes "handle_response raw s = (handled, s')"
  shows "se_queue s' = se_queue s" "se_ended s' = se_ended s" "se_dropped s' = se_dropped s"
    "se_sequences s' = se_sequences s"
  using assms by (auto simp: handle_response_def split: pyval.splits option.splits)

lemma events_ok_frame:
  assumes "events_ok received s"
  shows "events_ok received (on_frame M raw s)"
proof -
  obtain handled s1 where h: "handle_response raw s = (handled, s1)" by fastforce
  have s1: "events_ok received s1" using assms events_ok_same [OF handle_response_queue [OF h]] by simp
  show ?thesis
  proof (cases "\<not> handled \<and> (\<exists>e. parse_perps_session_event M raw = Ok (Some e))")
    case True
    then obtain e where "parse_perps_session_event M raw = Ok (Some e)" by blast
    then show ?thesis using True events_ok_event [OF s1 parsed_event(1,2)] by (simp add: on_frame_def h)
  next
    case False
    then have "on_frame M raw s = s1"
      by (cases handled) (auto simp: on_frame_def h split: sum.splits option.splits)
    then show ?thesis using s1 by simp
  qed
qed

lemma events_ok_message: "events_ok received s \<Longrightarrow> events_ok received (on_message M raw s)"
proof -
  have "events_ok received s \<Longrightarrow> events_ok received (fold (on_frame M) xs s)" for xs s
    by (induction xs arbitrary: s) (simp_all add: events_ok_frame)
  then show "events_ok received s \<Longrightarrow> events_ok received (on_message M raw s)" by (simp add: on_message_frames)
qed

lemma events_ok_connected:
  assumes "events_ok received s"
  shows "events_ok received (connect_done resync s)"
proof (cases "resync \<and> \<not> se_ended s")
  case True
  then have "logged received (map_of (se_sequences s)) s" using assms by (auto simp: events_ok_def logged_ended_def)
  from logged_emit(1) [OF this, of "Resync Reconnect None None None" Map.empty "s\<lparr>se_attempt := 0, se_sequences := []\<rparr>"]
  show ?thesis using True by (simp add: connect_done_def Let_def events_ok_def)
next
  case False
  then show ?thesis using assms logged_same(2) [of "connect_done resync s" s received]
      logged_same(1) [of "connect_done resync s" s received]
    by (cases resync) (auto simp: connect_done_def Let_def events_ok_def logged_def logged_ended_def queue_ok_def)
qed

lemma events_ok_ends:
  assumes "events_ok received s"
  shows "events_ok received (end_session error s)"
proof (cases "se_ended s")
  case False
  then obtain log where log: "queue_ok s" "follow log Map.empty = Some (map_of (se_sequences s))"
    "subseq (received @ pending (se_queue s)) log"
    "length log = length received + length (pending (se_queue s)) + se_dropped s"
    using assms by (auto simp: events_ok_def logged_def logged_ended_def)
  let ?q = "pending (se_queue (end_session error s))"
  have q: "?q = keep_last (QUEUE_SIZE - 1) (pending (se_queue s))" using queue_ok_end(3) [OF log(1) False] .
  have "subseq (received @ ?q) (received @ pending (se_queue s))"
    unfolding q by (intro list_emb_append_mono subseq_order.order_refl subseq_keep_last)
  then have "subseq (received @ ?q) log" using log(3) by (rule subseq_order.trans)
  moreover have "length log \<le> length received + length ?q + se_dropped (end_session error s) + 1"
    using log(4) queue_ok_open(2) [OF log(1) False] queue_ok_end(4) [OF log(1)] by (simp add: q)
  ultimately show ?thesis
    using log(1,2) queue_ok_end(1,2) [OF log(1)] unfolding events_ok_def logged_ended_def by blast
qed (use assms in \<open>simp add: end_session_def\<close>)

lemma events_ok_read:
  assumes "events_ok received s" "next_event s = (outcome, s')"
  shows "events_ok (received @ (case outcome of Item e \<Rightarrow> [e] | _ \<Rightarrow> [])) s'"
proof (cases "se_queue s")
  case Nil
  then show ?thesis using assms by (simp add: next_event_def get_nowait_def)
next
  case (Cons x q)
  have ok: "queue_ok s" using assms(1) by (auto simp: events_ok_def logged_def logged_ended_def)
  show ?thesis
  proof (cases x)
    case (Event e)
    with Cons assms(2) have step: "outcome = Item e" "s' = s\<lparr>se_queue := q\<rparr>"
      by (simp_all add: next_event_def get_nowait_def)
    have "pending (se_queue s) = e # pending q" using Cons Event by simp
    moreover have "queue_ok s'" using ok Cons Event step by (auto simp: queue_ok_def)
    ultimately show ?thesis using assms(1) step by (auto simp: events_ok_def logged_def logged_ended_def)
  next
    case EndItem
    with Cons assms(2) have step: "s' = s\<lparr>se_queue := q\<rparr>" "outcome = end_of_stream (se_end_error s)"
      by (simp_all add: next_event_def get_nowait_def)
    have q: "q = []" "se_ended s"
      using ok Cons EndItem by (cases "pending q"; auto simp: queue_ok_def)+
    have "(case outcome of Item e \<Rightarrow> [e] | _ \<Rightarrow> []) = []"
      using step(2) by (simp add: end_of_stream_def split: option.splits)
    then show ?thesis
      using assms(1) Cons EndItem step(1) q by (auto simp: events_ok_def logged_def logged_ended_def queue_ok_def)
  qed
qed

lemma reject_fields [simp]:
  "se_queue (reject_pending e s) = se_queue s" "se_ended (reject_pending e s) = se_ended s"
  "se_dropped (reject_pending e s) = se_dropped s" "se_sequences (reject_pending e s) = se_sequences s"
  "se_closed (reject_pending e s) = se_closed s" "se_timer (reject_pending e s) = se_timer s"
  "se_stopped (reject_pending e s) = se_stopped s" "se_next_id (reject_pending e s) = se_next_id s"
  "se_queue (reject_event_waiters e s) = se_queue s" "se_ended (reject_event_waiters e s) = se_ended s"
  "se_dropped (reject_event_waiters e s) = se_dropped s" "se_sequences (reject_event_waiters e s) = se_sequences s"
  "se_closed (reject_event_waiters e s) = se_closed s" "se_timer (reject_event_waiters e s) = se_timer s"
  "se_stopped (reject_event_waiters e s) = se_stopped s" "se_next_id (reject_event_waiters e s) = se_next_id s"
  "se_calls (reject_event_waiters e s) = se_calls s" "se_pending (reject_event_waiters e s) = se_pending s"
  by (simp_all add: reject_pending_def reject_event_waiters_def)

lemma events_ok_quiet [simp]:
  "events_ok received (expire_request k s) = events_ok received s"
  "events_ok received (snd (create_event_waiter predicate s)) = events_ok received s"
  "events_ok received (remove_event_waiter k s) = events_ok received s"
  "events_ok received (reconnect_failed e s) = events_ok received s"
  "events_ok received (connection_lost s) = events_ok received s"
  "events_ok received (begin_session_close s) = events_ok received s"
  "events_ok received (s\<lparr>se_timer := b\<rparr>) = events_ok received s"
  by (rule events_ok_same; simp add: expire_request_def create_event_waiter_def remove_event_waiter_def
      reconnect_failed_def connection_lost_def begin_session_close_def schedule_reconnect_def Let_def)+

lemma events_ok_step:
  assumes "system_step M y y'" "events_ok (sy_received y) (sy_session y)"
  shows "events_ok (sy_received y') (sy_session y')"
  using assms(1)
proof cases
  case (request n s parse k s')
  then show ?thesis using assms(2) events_ok_same [of s' "sy_session y"]
    by (auto simp: take_request_id_def begin_request_def Let_def split: if_splits)
next
  case (refused n s parse e s')
  then show ?thesis using assms(2) events_ok_same [of s' "sy_session y"]
    by (auto simp: take_request_id_def begin_request_def Let_def split: if_splits)
next
  case (finish n k sent r s')
  then show ?thesis using assms(2) events_ok_same [of s' "sy_session y"] by (auto simp: finish_request_def)
next
  case (timer go s')
  then show ?thesis using assms(2) by (auto simp: timer_fires_def)
next
  case (closed)
  let ?s = "reject_event_waiters TransportError (reject_pending TransportError ((sy_session y)\<lparr>se_timer := False\<rparr>))"
  have "events_ok (sy_received y) ?s" using assms(2) events_ok_same [of ?s "sy_session y"] by simp
  then show ?thesis using closed by (simp add: finish_session_close_def events_ok_ends)
next
  case (read e s')
  then show ?thesis using events_ok_read [OF assms(2) read(2)] by simp
next
  case (ended outcome s')
  then show ?thesis using events_ok_read [OF assms(2) ended(2)] by (cases outcome) auto
qed (use assms(2) in \<open>simp_all add: events_ok_message events_ok_connected\<close>)

lemma reachable_events: "reachable_system M y \<Longrightarrow> events_ok (sy_received y) (sy_session y)"
proof (induction rule: reachable_system.induct)
  case start
  have "follow [] Map.empty = Some (map_of [])" by simp
  then show ?case
    unfolding events_ok_def logged_def
    by (intro disjI1 conjI exI [of _ "[]"]) (simp_all add: new_system_def new_session_def queue_ok_def)
qed (use events_ok_step in blast)

end
