(* ===== verification/Perps_Properties.thy ===== *)
theory Perps_Properties imports Perps_Session begin

text \<open>
  What a session of the perpetuals exchange promises: answers belong to their requests, no caller is left
  waiting when the connection goes, gaps in the events are announced, and a lost connection is taken up again.
\<close>

section \<open>Requests and their answers\<close>

lemma length_settle [simp]: "length (settle k f fs) = length fs"
  by (simp add: settle_def)

lemma nth_settle:
  "settle k f fs ! j = (if j = k \<and> k < length fs \<and> fs ! k = Waiting then f else fs ! j)"
  by (simp add: settle_def nth_list_update)

lemma length_fold_settle [simp]: "length (fold (\<lambda>x. settle (g x) (f x)) xs fs) = length fs"
  by (induction xs arbitrary: fs) simp_all

lemma nth_fold_settle:
  assumes "f \<noteq> Waiting"
  shows "fold (\<lambda>x. settle (g x) f) xs fs ! j
    = (if j \<in> g ` set xs \<and> j < length fs \<and> fs ! j = Waiting then f else fs ! j)"
  using assms by (induction xs arbitrary: fs) (auto simp: nth_settle)

lemma reject_pending_calls [simp]:
  "se_pending (reject_pending e s) = []"
  "se_calls (reject_pending e s) = fold (\<lambda>x. settle (fst (snd x)) (Settled (Raise e))) (se_pending s) (se_calls s)"
  "se_waiters (reject_pending e s) = se_waiters s" "se_watches (reject_pending e s) = se_watches s"
  by (auto simp: reject_pending_def intro!: fold_cong)

lemma reject_event_waiters_watches [simp]:
  "se_waiters (reject_event_waiters e s) = []"
  "se_watches (reject_event_waiters e s) = fold (\<lambda>x. settle (fst x) (Settled (Raise e))) (se_waiters s) (se_watches s)"
  by (auto simp: reject_event_waiters_def intro!: fold_cong)

text \<open>
  A request was answered with a result: a frame with its number arrived, and that is what the parser of this
  request makes of it.
\<close>

definition answered :: "('r, 'p) system \<Rightarrow> int \<Rightarrow> 'r res \<Rightarrow> bool" where
  "answered y n r \<longleftrightarrow>
     (\<exists>parse message. (n, parse) \<in> set (sy_sent y) \<and> PDict message \<in> set (sy_frames y)
        \<and> dict_get ''id'' message = PInt n \<and> settle_reply parse message = r)"

lemma distinct_snd_same: "distinct (map snd xs) \<Longrightarrow> (a, k) \<in> set xs \<Longrightarrow> (b, k) \<in> set xs \<Longrightarrow> a = b"
  by (induction xs) force+

lemma distinct_fst_same: "distinct (map fst xs) \<Longrightarrow> (n, a) \<in> set xs \<Longrightarrow> (n, b) \<in> set xs \<Longrightarrow> a = b"
  by (induction xs) force+

text \<open>A call that waits is registered under its number; what is registered belongs to a call that waits.\<close>

definition calls_ok ::
  "(int \<Rightarrow> 'r res \<Rightarrow> bool) \<Rightarrow> (int \<times> nat) list \<Rightarrow> (int \<times> (pyval \<Rightarrow> 'r res)) list \<Rightarrow> ('r, 'p) session \<Rightarrow> bool" where
  "calls_ok A tasks sent s \<longleftrightarrow>
     (\<forall>n k p. map_of (se_pending s) n = Some (k, p) \<longrightarrow> (n, k) \<in> set tasks \<and> (n, p) \<in> set sent)
   \<and> (\<forall>n k. (n, k) \<in> set tasks \<longrightarrow> k < length (se_calls s)
        \<and> (se_calls s ! k = Waiting \<longrightarrow> (\<exists>p. map_of (se_pending s) n = Some (k, p)))
        \<and> (\<forall>v. se_calls s ! k = Settled (Ok v) \<longrightarrow> A n (Ok v)))
   \<and> distinct (map snd tasks)
   \<and> (\<forall>w\<in>set (se_waiters s). fst w < length (se_watches s))"

lemma calls_ok_same:
  assumes "se_calls s' = se_calls s" "se_pending s' = se_pending s" "se_waiters s' = se_waiters s"
    "length (se_watches s') = length (se_watches s)"
  shows "calls_ok A tasks sent s' = calls_ok A tasks sent s"
  using assms by (simp add: calls_ok_def)

lemma calls_ok_mono:
  assumes "calls_ok A tasks sent s" "\<And>n r. A n r \<Longrightarrow> B n r"
  shows "calls_ok B tasks sent s"
  using assms by (auto simp: calls_ok_def)

lemma length_watches_emit [simp]:
  "length (se_watches (emit_event e s)) = length (se_watches s)"
  "length (se_watches (push_sequence_gap_if_needed e s)) = length (se_watches s)"
proof -
  have "length (fold (notify_waiter e) ws fs) = length fs" for e :: "'p session_event" and ws fs
    by (induction ws arbitrary: fs) (simp_all add: notify_waiter_def)
  then show *: "length (se_watches (emit_event e s)) = length (se_watches s)" for e :: "'p session_event" and s
    by (simp add: emit_event_def)
  show "length (se_watches (push_sequence_gap_if_needed e s)) = length (se_watches s)"
    by (auto simp: push_sequence_gap_if_needed_def * Let_def split: session_event.splits option.splits)
qed

lemma calls_ok_response:
  assumes ok: "calls_ok A tasks sent s"
    and fresh: "\<And>message n p. raw = PDict message \<Longrightarrow> dict_get ''id'' message = PInt n \<Longrightarrow> (n, p) \<in> set sent \<Longrightarrow>
      A n (settle_reply p message)"
  shows "calls_ok A tasks sent (snd (handle_response raw s))"
proof (cases "snd (handle_response raw s) = s")
  case False
  then obtain message n k p where raw: "raw = PDict message" "dict_get ''id'' message = PInt n"
    and entry: "map_of (se_pending s) n = Some (k, p)"
    by (auto simp: handle_response_def split: pyval.splits option.splits)
  let ?s = "s\<lparr>se_pending := dict_pop n (se_pending s),
    se_calls := settle k (Settled (settle_reply p message)) (se_calls s)\<rparr>"
  have "snd (handle_response raw s) = ?s" using raw entry by (simp add: handle_response_def)
  moreover have task: "(n, k) \<in> set tasks" "(n, p) \<in> set sent" using ok entry by (auto simp: calls_ok_def)
  have same: "n' = n" if "(n', k) \<in> set tasks" for n'
    using ok task(1) that distinct_snd_same unfolding calls_ok_def by metis
  have "calls_ok A tasks sent ?s"
    unfolding calls_ok_def
  proof (intro conjI allI impI)
    fix n' k' assume t: "(n', k') \<in> set tasks"
    then show "k' < length (se_calls ?s)" using ok by (auto simp: calls_ok_def)
    show "\<exists>p. map_of (se_pending ?s) n' = Some (k', p)" if "se_calls ?s ! k' = Waiting"
    proof -
      have "k' \<noteq> k \<and> se_calls s ! k' = Waiting" using that ok task(1) by (auto simp: nth_settle calls_ok_def split: if_splits)
      then obtain p' where "map_of (se_pending s) n' = Some (k', p')" "k' \<noteq> k"
        using ok t unfolding calls_ok_def by blast
      then show ?thesis using entry by auto
    qed
    show "A n' (Ok v)" if "se_calls ?s ! k' = Settled (Ok v)" for v
      using that ok t same fresh [OF raw task(2)] by (auto simp: nth_settle calls_ok_def split: if_splits)
  qed (use ok in \<open>auto simp: calls_ok_def split: if_splits\<close>)
  ultimately show ?thesis by simp
qed (use ok in simp)

lemma calls_ok_frame:
  assumes "calls_ok A tasks sent s"
    and "\<And>message n p. raw = PDict message \<Longrightarrow> dict_get ''id'' message = PInt n \<Longrightarrow> (n, p) \<in> set sent \<Longrightarrow>
      A n (settle_reply p message)"
  shows "calls_ok A tasks sent (on_frame M raw s)"
proof -
  obtain handled s1 where h: "handle_response raw s = (handled, s1)" by fastforce
  have "calls_ok A tasks sent (snd (handle_response raw s))" by (rule calls_ok_response) (use assms in auto)
  then have "calls_ok A tasks sent s1" by (simp add: h)
  moreover have "calls_ok A tasks sent (on_frame M raw s) = calls_ok A tasks sent s1"
    by (rule calls_ok_same) (auto simp: on_frame_def h split: bool.splits sum.splits option.splits)
  ultimately show ?thesis by simp
qed

lemma calls_ok_message:
  assumes "calls_ok A tasks sent s"
    and "\<And>message n p. PDict message \<in> set (frames_of raw) \<Longrightarrow> dict_get ''id'' message = PInt n \<Longrightarrow> (n, p) \<in> set sent \<Longrightarrow>
      A n (settle_reply p message)"
  shows "calls_ok A tasks sent (on_message M raw s)"
proof -
  have "calls_ok A tasks sent (fold (on_frame M) xs s)" if "set xs \<subseteq> set (frames_of raw)" "calls_ok A tasks sent s" for xs s
    using that
  proof (induction xs arbitrary: s)
    case (Cons a xs)
    have "calls_ok A tasks sent (on_frame M a s)" by (rule calls_ok_frame) (use Cons.prems assms(2) in auto)
    then show ?case using Cons by simp
  qed simp
  then show ?thesis using assms(1) by (simp add: on_message_frames)
qed

lemma calls_ok_reject:
  assumes "calls_ok A tasks sent s"
  shows "calls_ok A tasks sent (reject_event_waiters e (reject_pending e s))"
    and "(n, k) \<in> set tasks \<Longrightarrow> future_done (se_calls (reject_pending e s) ! k)"
    and "w \<in> set (se_waiters s) \<Longrightarrow> future_done (se_watches (reject_event_waiters e s) ! fst w)"
proof -
  have settled: "se_calls (reject_pending e s) ! k \<noteq> Waiting \<and> k < length (se_calls (reject_pending e s))
      \<and> (\<forall>v. se_calls (reject_pending e s) ! k = Settled (Ok v) \<longrightarrow> A n (Ok v))" if "(n, k) \<in> set tasks" for n k
  proof -
    have "\<exists>p. (n, k, p) \<in> set (se_pending s)" if "se_calls s ! k = Waiting"
      using that \<open>(n, k) \<in> set tasks\<close> assms(1) unfolding calls_ok_def by (blast dest: map_of_SomeD)
    then have "se_calls s ! k = Waiting \<Longrightarrow> k \<in> (\<lambda>x. fst (snd x)) ` set (se_pending s)" by force
    then show ?thesis using assms(1) that by (auto simp: nth_fold_settle calls_ok_def)
  qed
  then show "calls_ok A tasks sent (reject_event_waiters e (reject_pending e s))"
    using assms(1) by (auto simp: calls_ok_def)
  show "(n, k) \<in> set tasks \<Longrightarrow> future_done (se_calls (reject_pending e s) ! k)"
    using settled by (auto simp: future_done_def)
  show "w \<in> set (se_waiters s) \<Longrightarrow> future_done (se_watches (reject_event_waiters e s) ! fst w)"
    using assms(1) by (auto simp: future_done_def nth_fold_settle calls_ok_def)
qed

definition requests_ok :: "('r, 'p) system \<Rightarrow> bool" where
  "requests_ok y \<longleftrightarrow>
     calls_ok (answered y) (sy_tasks y) (sy_sent y) (sy_session y)
   \<and> distinct (map fst (sy_tasks y) @ map fst (sy_answers y))
   \<and> distinct (map fst (sy_sent y))
   \<and> (\<forall>n\<in>set (map fst (sy_tasks y) @ map fst (sy_answers y) @ map fst (sy_sent y)). n < se_next_id (sy_session y))
   \<and> (\<forall>n v. (n, Ok v) \<in> set (sy_answers y) \<longrightarrow> answered y n (Ok v))"

lemma answered_same [simp]:
  "answered (y\<lparr>sy_session := s\<rparr>) = answered y" "answered (y\<lparr>sy_tasks := t\<rparr>) = answered y"
  "answered (y\<lparr>sy_answers := a\<rparr>) = answered y"
  by (simp_all add: answered_def fun_eq_iff)

lemma answered_mono:
  "answered y n r \<Longrightarrow> set (sy_sent y) \<subseteq> set (sy_sent y') \<Longrightarrow> set (sy_frames y) \<subseteq> set (sy_frames y') \<Longrightarrow> answered y' n r"
  by (auto simp: answered_def)

lemma requests_ok_message:
  assumes "requests_ok y"
  shows "requests_ok (y\<lparr>sy_session := on_message M raw (sy_session y), sy_frames := sy_frames y @ frames_of raw\<rparr>)"
    (is "requests_ok ?y")
proof -
  have mono: "answered y n r \<Longrightarrow> answered ?y n r" for n r by (rule answered_mono) auto
  have "calls_ok (answered ?y) (sy_tasks y) (sy_sent y) (on_message M raw (sy_session y))"
  proof (rule calls_ok_message)
    have "calls_ok (answered y) (sy_tasks y) (sy_sent y) (sy_session y)" using assms by (simp add: requests_ok_def)
    then show "calls_ok (answered ?y) (sy_tasks y) (sy_sent y) (sy_session y)" by (rule calls_ok_mono) (rule mono)
  qed (auto simp: answered_def)
  moreover have "se_next_id (on_message M raw (sy_session y)) = se_next_id (sy_session y)"
  proof -
    have "se_next_id (fold (on_frame M) xs s) = se_next_id s" for xs s
      by (induction xs arbitrary: s)
        (auto simp: on_frame_def handle_response_def split: pyval.splits option.splits sum.splits prod.splits bool.splits)
    then show ?thesis by (simp add: on_message_frames)
  qed
  ultimately show ?thesis using assms mono by (auto simp: requests_ok_def)
qed

lemma requests_ok_request:
  assumes "requests_ok y" "take_request_id (sy_session y) = (n, s)" "begin_request n parse s = (Ok k, s')"
  shows "requests_ok (y\<lparr>sy_session := s', sy_tasks := sy_tasks y @ [(n, k)], sy_sent := sy_sent y @ [(n, parse)]\<rparr>)"
    (is "requests_ok ?y")
proof -
  let ?s = "sy_session y"
  have s': "n = se_next_id ?s" "k = length (se_calls ?s)"
    "s' = ?s\<lparr>se_next_id := n + 1, se_calls := se_calls ?s @ [Waiting], se_pending := dict_set n (k, parse) (se_pending ?s)\<rparr>"
    using assms(2,3) by (auto simp: take_request_id_def begin_request_def Let_def split: if_splits)
  have mono: "answered y m r \<Longrightarrow> answered ?y m r" for m r by (rule answered_mono) auto
  have ok: "calls_ok (answered y) (sy_tasks y) (sy_sent y) ?s"
    and below: "\<And>m. m \<in> set (map fst (sy_tasks y) @ map fst (sy_answers y) @ map fst (sy_sent y)) \<Longrightarrow> m < n"
    using assms(1) unfolding requests_ok_def s'(1) by blast+
  have fresh: "n \<notin> fst ` set (sy_tasks y)" "n \<notin> fst ` set (sy_answers y)" "n \<notin> fst ` set (sy_sent y)"
    using below [of n] by auto
  have small: "j < k" if "(m, j) \<in> set (sy_tasks y)" for m j using ok that s'(2) by (auto simp: calls_ok_def)
  have "calls_ok (answered ?y) (sy_tasks ?y) (sy_sent ?y) s'"
    unfolding calls_ok_def
  proof (intro conjI allI impI)
    fix m j assume t: "(m, j) \<in> set (sy_tasks ?y)"
    then show "j < length (se_calls s')" using small [of m j] s'(2,3) by auto
    show "\<exists>p. map_of (se_pending s') m = Some (j, p)" if "se_calls s' ! j = Waiting"
    proof (cases "(m, j) \<in> set (sy_tasks y)")
      case True
      then have "j < k" "m \<noteq> n" using small fresh(1) by force+
      with that have "se_calls ?s ! j = Waiting" by (simp add: s'(2,3) nth_append)
      then obtain p where "map_of (se_pending ?s) m = Some (j, p)" using ok True unfolding calls_ok_def by blast
      then show ?thesis using \<open>m \<noteq> n\<close> by (simp add: s'(3))
    next
      case False
      then show ?thesis using t by (simp add: s'(3))
    qed
    show "answered ?y m (Ok v)" if "se_calls s' ! j = Settled (Ok v)" for v
    proof -
      have "j < k" using that t small [of m j] by (auto simp: s'(2,3))
      then have "(m, j) \<in> set (sy_tasks y)" "se_calls ?s ! j = Settled (Ok v)"
        using that t by (auto simp: s'(2,3) nth_append)
      then show ?thesis using ok mono unfolding calls_ok_def by blast
    qed
  next
    have "k \<notin> snd ` set (sy_tasks y)" using small by force
    moreover have "distinct (map snd (sy_tasks y))" using ok by (simp add: calls_ok_def)
    ultimately show "distinct (map snd (sy_tasks ?y))" by simp
  next
    fix m j p assume "map_of (se_pending s') m = Some (j, p)"
    then show "(m, j) \<in> set (sy_tasks ?y)" "(m, p) \<in> set (sy_sent ?y)"
      using ok s'(3) by (auto simp: calls_ok_def split: if_splits)
  next
    show "\<forall>w\<in>set (se_waiters s'). fst w < length (se_watches s')" using ok s'(3) by (simp add: calls_ok_def)
  qed
  moreover have "distinct (map fst (sy_tasks ?y) @ map fst (sy_answers ?y))" "distinct (map fst (sy_sent ?y))"
    using assms(1) fresh by (auto simp: requests_ok_def)
  moreover have "m < se_next_id s'" if "m \<in> set (map fst (sy_tasks ?y) @ map fst (sy_answers ?y) @ map fst (sy_sent ?y))" for m
  proof (cases "m = n")
    case False
    then have "m < n" using that by (intro below) auto
    then show ?thesis using s'(3) by simp
  qed (use s'(3) in simp)
  moreover have "answered ?y m (Ok v)" if "(m, Ok v) \<in> set (sy_answers ?y)" for m v
    using that assms(1) mono by (simp add: requests_ok_def)
  ultimately show ?thesis unfolding requests_ok_def by simp
qed

lemma requests_ok_finish:
  assumes "requests_ok y" "(n, k) \<in> set (sy_tasks y)" "finish_request n k sent (sy_session y) = (r, s')"
  shows "requests_ok (y\<lparr>sy_session := s', sy_tasks := removeAll (n, k) (sy_tasks y), sy_answers := sy_answers y @ [(n, r)]\<rparr>)"
    (is "requests_ok ?y")
proof -
  let ?s = "sy_session y"
  have ok: "calls_ok (answered y) (sy_tasks y) (sy_sent y) ?s" using assms(1) by (simp add: requests_ok_def)
  have s': "s' = ?s\<lparr>se_pending := dict_pop n (se_pending ?s)\<rparr>" using assms(3) by (auto simp: finish_request_def)
  have A: "answered ?y = answered y" by (simp add: answered_def fun_eq_iff)
  have distinct: "distinct (map fst (sy_tasks y))" using assms(1) by (simp add: requests_ok_def)
  then have other: "m \<noteq> n" if "(m, j) \<in> set (sy_tasks y)" "(m, j) \<noteq> (n, k)" for m j
    using that assms(2) distinct_fst_same [OF distinct, of n] by blast
  have removed: "fst ` set (removeAll (n, k) (sy_tasks y)) = fst ` set (sy_tasks y) - {n}"
    using other assms(2) by force
  have "calls_ok (answered y) (removeAll (n, k) (sy_tasks y)) (sy_sent y) s'"
    unfolding calls_ok_def
  proof (intro conjI allI impI)
    fix m j p assume "map_of (se_pending s') m = Some (j, p)"
    then have "m \<noteq> n" "map_of (se_pending ?s) m = Some (j, p)" by (auto simp: s' split: if_splits)
    then show "(m, j) \<in> set (removeAll (n, k) (sy_tasks y))" "(m, p) \<in> set (sy_sent y)"
      using ok by (auto simp: calls_ok_def)
  next
    fix m j assume t: "(m, j) \<in> set (removeAll (n, k) (sy_tasks y))"
    then have m: "(m, j) \<in> set (sy_tasks y)" "m \<noteq> n" using other by auto
    then show "j < length (se_calls s')" using ok by (auto simp: calls_ok_def s')
    show "\<exists>p. map_of (se_pending s') m = Some (j, p)" if "se_calls s' ! j = Waiting"
      using that m ok by (simp add: calls_ok_def s')
    show "answered y m (Ok v)" if "se_calls s' ! j = Settled (Ok v)" for v
      using that m ok by (simp add: calls_ok_def s')
  next
    show "distinct (map snd (removeAll (n, k) (sy_tasks y)))"
      using ok distinct_map_filter by (auto simp: calls_ok_def removeAll_filter_not_eq)
  next
    show "\<forall>w\<in>set (se_waiters s'). fst w < length (se_watches s')" using ok by (simp add: calls_ok_def s')
  qed
  moreover have "answered y n (Ok v)" if "r = Ok v" for v
  proof -
    have "se_calls ?s ! k = Settled (Ok v)"
      using assms(3) that by (auto simp: finish_request_def split: if_splits future.splits)
    then show ?thesis using ok assms(2) by (auto simp: calls_ok_def)
  qed
  moreover have member: "n \<in> fst ` set (sy_tasks y)" using assms(2) by (metis fst_conv imageI)
  have old: "distinct (map fst (sy_tasks y) @ map fst (sy_answers y))" "distinct (map fst (sy_sent y))"
    "\<And>m. m \<in> set (map fst (sy_tasks y) @ map fst (sy_answers y) @ map fst (sy_sent y)) \<Longrightarrow> m < se_next_id s'"
    "\<And>m v. (m, Ok v) \<in> set (sy_answers y) \<Longrightarrow> answered y m (Ok v)"
    using assms(1) unfolding requests_ok_def s' by simp_all
  have "distinct (map fst (removeAll (n, k) (sy_tasks y)))"
    unfolding removeAll_filter_not_eq by (rule distinct_map_filter [OF distinct])
  then have "distinct (map fst (sy_tasks ?y) @ map fst (sy_answers ?y))" using old(1) member removed by auto
  moreover have "m < se_next_id s'" if "m \<in> set (map fst (sy_tasks ?y) @ map fst (sy_answers ?y) @ map fst (sy_sent ?y))" for m
    using that removed member by (intro old(3)) auto
  ultimately show ?thesis unfolding requests_ok_def A using old(2,4) by auto
qed

lemma requests_ok_refused:
  assumes "requests_ok y" "take_request_id (sy_session y) = (n, s)" "begin_request n parse s = (Raise e, s')"
  shows "requests_ok (y\<lparr>sy_session := s', sy_answers := sy_answers y @ [(n, Raise e)]\<rparr>)"
proof -
  let ?s = "sy_session y"
  have s': "n = se_next_id ?s" "s' = ?s\<lparr>se_next_id := n + 1\<rparr>"
    using assms(2,3) by (auto simp: take_request_id_def begin_request_def Let_def split: if_splits)
  have below: "\<And>m. m \<in> set (map fst (sy_tasks y) @ map fst (sy_answers y) @ map fst (sy_sent y)) \<Longrightarrow> m < n"
    using assms(1) unfolding requests_ok_def s'(1) by blast
  have "n \<notin> fst ` set (sy_tasks y)" "n \<notin> fst ` set (sy_answers y)" using below [of n] by auto
  moreover have "calls_ok (answered y) (sy_tasks y) (sy_sent y) s' = calls_ok (answered y) (sy_tasks y) (sy_sent y) ?s"
    by (rule calls_ok_same) (simp_all add: s'(2))
  moreover have "m < n + 1" if "m \<in> set (map fst (sy_tasks y) @ map fst (sy_answers y) @ map fst (sy_sent y))" for m
    using below [OF that] by simp
  ultimately show ?thesis using assms(1) unfolding requests_ok_def s'(2) by auto
qed

lemma requests_ok_session:
  assumes "requests_ok y" "calls_ok (answered y) (sy_tasks y) (sy_sent y) s'" "se_next_id s' = se_next_id (sy_session y)"
  shows "requests_ok (y\<lparr>sy_session := s'\<rparr>)"
  using assms by (simp add: requests_ok_def)

lemma requests_ok_same:
  assumes "requests_ok y" "se_calls s' = se_calls (sy_session y)" "se_pending s' = se_pending (sy_session y)"
    "se_waiters s' = se_waiters (sy_session y)" "length (se_watches s') = length (se_watches (sy_session y))"
    "se_next_id s' = se_next_id (sy_session y)"
  shows "requests_ok (y\<lparr>sy_session := s'\<rparr>)"
  using assms(1) calls_ok_same [OF assms(2-5)] assms(6) by (intro requests_ok_session) (simp_all add: requests_ok_def)

lemma requests_ok_around [simp]:
  "requests_ok (y\<lparr>sy_attempts := a\<rparr>) = requests_ok y" "requests_ok (y\<lparr>sy_lost := b\<rparr>) = requests_ok y"
  "requests_ok (y\<lparr>sy_received := r\<rparr>) = requests_ok y"
proof -
  have "answered (y\<lparr>sy_attempts := a\<rparr>) = answered y" "answered (y\<lparr>sy_lost := b\<rparr>) = answered y"
    "answered (y\<lparr>sy_received := r\<rparr>) = answered y" by (simp_all add: answered_def fun_eq_iff)
  then show "requests_ok (y\<lparr>sy_attempts := a\<rparr>) = requests_ok y" "requests_ok (y\<lparr>sy_lost := b\<rparr>) = requests_ok y"
    "requests_ok (y\<lparr>sy_received := r\<rparr>) = requests_ok y" by (simp_all add: requests_ok_def)
qed

lemma next_event_fields:
  assumes "next_event s = (outcome, s')"
  shows "se_calls s' = se_calls s" "se_pending s' = se_pending s" "se_waiters s' = se_waiters s"
    "se_watches s' = se_watches s" "se_next_id s' = se_next_id s" "se_closed s' = se_closed s"
    "se_stopped s' = se_stopped s" "se_timer s' = se_timer s"
  using assms by (auto simp: next_event_def split: option.splits item.splits prod.splits)

lemma requests_ok_step:
  assumes "system_step M y y'" "requests_ok y"
  shows "requests_ok y'"
proof -
  let ?s = "sy_session y"
  have ok: "calls_ok (answered y) (sy_tasks y) (sy_sent y) ?s" using assms(2) by (simp add: requests_ok_def)
  note same = requests_ok_same [OF assms(2)]
  have reject: "calls_ok (answered y) (sy_tasks y) (sy_sent y) (reject_event_waiters e (reject_pending e s))"
    if "se_calls s = se_calls ?s" "se_pending s = se_pending ?s" "se_waiters s = se_waiters ?s" "se_watches s = se_watches ?s" for e s
    by (rule calls_ok_reject(1)) (use ok calls_ok_same [OF that(1-3)] that(4) in simp_all)
  show ?thesis
    using assms(1)
  proof cases
    case (message raw)
    then show ?thesis using requests_ok_message [OF assms(2)] by simp
  next
    case (request n s parse k s')
    then show ?thesis using requests_ok_request [OF assms(2)] by blast
  next
    case (refused n s parse e s')
    then show ?thesis using requests_ok_refused [OF assms(2)] by blast
  next
    case (expire n k)
    have "calls_ok (answered y) (sy_tasks y) (sy_sent y) (expire_request k ?s)"
      using ok unfolding calls_ok_def expire_request_def by (auto simp: nth_settle split: if_splits)
    then show ?thesis using expire(1) assms(2) by (auto intro!: requests_ok_session simp: expire_request_def)
  next
    case (finish n k sent r s')
    then show ?thesis using requests_ok_finish [OF assms(2)] by blast
  next
    case (watch predicate)
    have "calls_ok (answered y) (sy_tasks y) (sy_sent y) (snd (create_event_waiter predicate ?s))"
      using ok by (auto simp: calls_ok_def create_event_waiter_def less_SucI)
    then show ?thesis using watch assms(2) by (auto intro!: requests_ok_session simp: create_event_waiter_def)
  next
    case (unwatch k)
    have "calls_ok (answered y) (sy_tasks y) (sy_sent y) (remove_event_waiter k ?s)"
      using ok by (auto simp: calls_ok_def remove_event_waiter_def)
    then show ?thesis using unwatch assms(2) by (auto intro!: requests_ok_session simp: remove_event_waiter_def)
  next
    case (lost)
    have "requests_ok (y\<lparr>sy_session := connection_lost ?s\<rparr>)"
      using reject [of ?s TransportError] calls_ok_same [of "schedule_reconnect s" s for s]
      by (intro requests_ok_session assms(2)) (auto simp: connection_lost_def Let_def schedule_reconnect_def calls_ok_def)
    then show ?thesis using lost by simp
  next
    case (closed)
    let ?t = "reject_event_waiters TransportError (reject_pending TransportError (?s\<lparr>se_timer := False\<rparr>))"
    have "calls_ok (answered y) (sy_tasks y) (sy_sent y) (end_session None ?t)"
      using reject [of "?s\<lparr>se_timer := False\<rparr>" TransportError] calls_ok_same [of "end_session None ?t" ?t] by simp
    then show ?thesis using closed assms(2) by (auto intro!: requests_ok_session simp: finish_session_close_def)
  next
    case (timer go s')
    then have "requests_ok (y\<lparr>sy_session := s'\<rparr>)" by (intro same) (auto simp: timer_fires_def)
    then show ?thesis using timer(1) by simp
  next
    case (failed b resync e)
    have "requests_ok (y\<lparr>sy_session := (if resync then reconnect_failed e ?s else ?s)\<rparr>)"
      by (intro same) (simp_all add: reconnect_failed_def schedule_reconnect_def)
    then show ?thesis using failed(1) by simp
  next
    case (connected resync)
    have "requests_ok (y\<lparr>sy_session := connect_done resync ?s\<rparr>)"
      by (intro same) (simp_all add: connect_done_def Let_def)
    then show ?thesis using connected(1) by simp
  next
    case (close)
    then show ?thesis using assms(2) by (auto intro!: same simp: begin_session_close_def)
  next
    case (read e s')
    have "requests_ok (y\<lparr>sy_session := s'\<rparr>)" using next_event_fields [OF read(2)] by (intro same) simp_all
    then show ?thesis using read(1) by simp
  next
    case (ended outcome s')
    then show ?thesis using next_event_fields [OF ended(2)] by (auto intro!: same)
  qed (use assms(2) in simp_all)
qed

lemma reachable_requests: "reachable_system M y \<Longrightarrow> requests_ok y"
proof (induction rule: reachable_system.induct)
  case start
  show ?case by (simp add: requests_ok_def calls_ok_def new_system_def new_session_def)
qed (rule requests_ok_step)

section \<open>Reconnects\<close>

definition reconnect_ok :: "('r, 'p) system \<Rightarrow> bool" where
  "reconnect_ok y \<longleftrightarrow>
     (se_stopped (sy_session y) \<longrightarrow> se_closed (sy_session y))
   \<and> (sy_lost y \<and> \<not> se_closed (sy_session y) \<longrightarrow> se_timer (sy_session y) \<or> (True, True) \<in> set (sy_attempts y))"

lemma on_message_fields:
  "se_closed (on_message M raw s) = se_closed s" "se_stopped (on_message M raw s) = se_stopped s"
  "se_timer (on_message M raw s) = se_timer s"
proof -
  have "se_closed (fold (on_frame M) xs s) = se_closed s \<and> se_stopped (fold (on_frame M) xs s) = se_stopped s
      \<and> se_timer (fold (on_frame M) xs s) = se_timer s" for xs
    by (induction xs arbitrary: s)
      (auto simp: on_frame_def handle_response_def split: pyval.splits option.splits sum.splits prod.splits bool.splits)
  then show "se_closed (on_message M raw s) = se_closed s" "se_stopped (on_message M raw s) = se_stopped s"
    "se_timer (on_message M raw s) = se_timer s" by (simp_all add: on_message_frames)
qed

lemma reconnect_ok_step:
  assumes "system_step M y y'" "reconnect_ok y"
  shows "reconnect_ok y'"
  using assms(1)
proof cases
  case (message raw)
  then show ?thesis using assms(2) by (simp add: reconnect_ok_def on_message_fields)
next
  case (read e s')
  then show ?thesis using assms(2) next_event_fields [OF read(2)] by (simp add: reconnect_ok_def)
next
  case (ended outcome s')
  then show ?thesis using assms(2) next_event_fields [OF ended(2)] by (simp add: reconnect_ok_def)
next
  case (failed b resync e)
  then show ?thesis using assms(2)
    by (auto simp: reconnect_ok_def reconnect_failed_def session_error_def schedule_reconnect_def in_set_remove1)
next
  case (opened resync)
  then show ?thesis using assms(2) by (simp add: reconnect_ok_def)
next
  case (connected resync)
  then show ?thesis using assms(2) by (auto simp: reconnect_ok_def connect_done_def Let_def in_set_remove1)
qed (use assms(2) in \<open>auto simp: reconnect_ok_def take_request_id_def begin_request_def expire_request_def
      finish_request_def create_event_waiter_def remove_event_waiter_def timer_fires_def connection_lost_def
      schedule_reconnect_def begin_session_close_def finish_session_close_def Let_def split: if_splits\<close>)

lemma reachable_reconnect: "reachable_system M y \<Longrightarrow> reconnect_ok y"
proof (induction rule: reachable_system.induct)
  case start
  show ?case by (simp add: reconnect_ok_def new_system_def new_session_def)
qed (rule reconnect_ok_step)


section \<open>A session at work\<close>

text \<open>Models of events that take every payload, a request, its response in one frame with two updates of which one
  is missing between them, and the answer to the caller; the consumer reads the first update.\<close>

definition sample_models :: "pyval event_models" where
  "sample_models =
     \<lparr>em_update = (\<lambda>_ _ _ _ sq data. case sq of PInt n \<Rightarrow> Some (n, data) | _ \<Rightarrow> None), em_resync = (\<lambda>_ _ _ _. None)\<rparr>"

definition sample_update :: "int \<Rightarrow> pyval" where
  "sample_update n = PDict [(''ch'', PStr ''balances''), (''ts'', PInt 5), (''sq'', PInt n), (''ets'', PInt 0), (''data'', PBool True)]"

definition sample_batch :: pyval where
  "sample_batch = PList [PDict [(''id'', PInt 1), (''data'', PStr ''done'')], sample_update 1, sample_update 3]"

definition sample_sent :: "(pyval, pyval) system" where
  "sample_sent = new_system\<lparr>sy_session := snd (begin_request 1 Ok (snd (take_request_id new_session))),
     sy_tasks := [(1, 0)], sy_sent := [(1, Ok)]\<rparr>"

definition sample_heard :: "(pyval, pyval) system" where
  "sample_heard = sample_sent\<lparr>sy_session := on_message sample_models sample_batch (sy_session sample_sent),
     sy_frames := frames_of sample_batch\<rparr>"

definition sample_answered :: "(pyval, pyval) system" where
  "sample_answered = sample_heard\<lparr>sy_session := snd (finish_request 1 0 True (sy_session sample_heard)), sy_tasks := [],
     sy_answers := [(1, fst (finish_request 1 0 True (sy_session sample_heard)))]\<rparr>"

definition sample_read :: "(pyval, pyval) system" where
  "sample_read = sample_answered\<lparr>sy_session := snd (next_event (sy_session sample_answered)),
     sy_received := [Update ''balance'' ''balances'' 1 (PBool True)]\<rparr>"

definition sample_lost :: "(pyval, pyval) system" where
  "sample_lost = sample_sent\<lparr>sy_session := connection_lost (sy_session sample_sent), sy_lost := True\<rparr>"

lemma sample_sent_reachable: "reachable_system sample_models sample_sent"
proof (rule reachable_system.step [OF reachable_system.start])
  let ?s = "new_session :: (pyval, pyval) session"
  have "begin_request 1 Ok (snd (take_request_id ?s)) = (Ok 0, snd (begin_request 1 Ok (snd (take_request_id ?s))))"
    by (simp add: begin_request_def take_request_id_def new_session_def)
  moreover have "take_request_id ?s = (1, snd (take_request_id ?s))" by (simp add: take_request_id_def new_session_def)
  ultimately have "system_step sample_models new_system (new_system\<lparr>sy_session := snd (begin_request 1 Ok (snd (take_request_id ?s))),
      sy_tasks := sy_tasks new_system @ [(1, 0)], sy_sent := sy_sent new_system @ [(1, Ok)]\<rparr>)"
    using system_step.request [of new_system 1 "snd (take_request_id ?s)" Ok 0 _ sample_models]
    by (simp add: new_system_def)
  then show "system_step sample_models new_system sample_sent" by (simp add: sample_sent_def new_system_def)
qed

lemma sample_lost_reachable: "reachable_system sample_models sample_lost"
  unfolding sample_lost_def by (rule reachable_system.step [OF sample_sent_reachable], rule system_step.lost)

lemma sample_read_reachable: "reachable_system sample_models sample_read"
proof -
  have "system_step sample_models sample_sent sample_heard"
    using system_step.message [of sample_models sample_sent sample_batch]
    by (simp add: sample_heard_def sample_sent_def new_system_def)
  then have heard: "reachable_system sample_models sample_heard" by (rule reachable_system.step [OF sample_sent_reachable])
  have calls: "sy_tasks sample_heard = [(1, 0)]" "se_calls (sy_session sample_heard) = [Settled (Ok (PStr ''done''))]"
    "sy_answers sample_heard = []" by code_simp+
  have "system_step sample_models sample_heard sample_answered"
    using system_step.finish [of 1 0 sample_heard True _ _ sample_models] calls
    by (simp add: sample_answered_def future_done_def)
  then have "reachable_system sample_models sample_answered" by (rule reachable_system.step [OF heard])
  moreover have "fst (next_event (sy_session sample_answered)) = Item (Update ''balance'' ''balances'' 1 (PBool True))"
    "sy_received sample_answered = []" by code_simp+
  then have "system_step sample_models sample_answered sample_read"
    using system_step.read [of sample_answered "Update ''balance'' ''balances'' 1 (PBool True)" _ sample_models]
    by (simp add: sample_read_def prod_eq_iff)
  ultimately show ?thesis by (rule reachable_system.step)
qed

section \<open>Properties\<close>



text \<open>C27: Every request gets a number of its own and at most one answer, and an answer that is a result is what the
  parser of that request makes of a frame with that number: responses that come late, twice or in another
  order never reach another caller.\<close>

theorem answers_belong_to_requests:
  assumes "reachable_system M y"
  shows "distinct (map fst (sy_sent y)) \<and> distinct (map fst (sy_answers y))
    \<and> (\<forall>n v. (n, Ok v) \<in> set (sy_answers y) \<longrightarrow>
         (\<exists>parse message. (n, parse) \<in> set (sy_sent y) \<and> PDict message \<in> set (sy_frames y)
            \<and> dict_get ''id'' message = PInt n \<and> settle_reply parse message = Ok v))"
  using reachable_requests [OF assms] by (simp add: requests_ok_def answered_def)

lemma answers_belong_to_requests_witness:
  "sy_answers sample_read = [(1, Ok (PStr ''done''))]
   \<and> (\<exists>parse message. (1, parse) \<in> set (sy_sent sample_read) \<and> PDict message \<in> set (sy_frames sample_read)
        \<and> dict_get ''id'' message = PInt 1 \<and> settle_reply parse message = Ok (PStr ''done''))"
proof -
  have "sy_answers sample_read = [(1, Ok (PStr ''done''))]" by code_simp
  then show ?thesis using answers_belong_to_requests [OF sample_read_reachable] by simp
qed

text \<open>C28: No caller is left waiting: a call that has no answer yet is registered under its number, the frame with that
  number settles it, and so does the loss of the connection or the end of \<open>close\<close>, after which nothing is
  registered; the same holds of those who wait for events.\<close>

theorem no_caller_left_waiting:
  assumes "reachable_system M y" "(n, k) \<in> set (sy_tasks y)"
  shows "(se_calls (sy_session y) ! k = Waiting \<longrightarrow>
           (\<exists>parse. map_of (se_pending (sy_session y)) n = Some (k, parse) \<and> (n, parse) \<in> set (sy_sent y)))
    \<and> (\<forall>message. dict_get ''id'' message = PInt n \<longrightarrow>
         future_done (se_calls (on_frame M (PDict message) (sy_session y)) ! k))
    \<and> (\<forall>s'\<in>{connection_lost (sy_session y), finish_session_close (sy_session y)}.
         future_done (se_calls s' ! k) \<and> se_pending s' = [] \<and> se_waiters s' = []
       \<and> (\<forall>w\<in>set (se_waiters (sy_session y)). future_done (se_watches s' ! fst w)))"
proof -
  let ?s = "sy_session y"
  have ok: "calls_ok (answered y) (sy_tasks y) (sy_sent y) ?s"
    using reachable_requests [OF assms(1)] by (simp add: requests_ok_def)
  have "future_done (se_calls (on_frame M (PDict message) ?s) ! k)" if "dict_get ''id'' message = PInt n" for message
  proof (cases "se_calls ?s ! k = Waiting")
    case True
    then obtain p where "map_of (se_pending ?s) n = Some (k, p)" "k < length (se_calls ?s)"
      using ok assms(2) unfolding calls_ok_def by blast
    then show ?thesis using that True by (simp add: on_frame_def handle_response_def nth_settle future_done_def)
  next
    case False
    then show ?thesis using that
      by (auto simp: on_frame_def handle_response_def nth_settle future_done_def split: option.splits)
  qed
  moreover have "se_calls (finish_session_close ?s) = se_calls (reject_pending TransportError ?s)"
    "se_watches (finish_session_close ?s) = se_watches (reject_event_waiters TransportError ?s)"
    "se_calls (connection_lost ?s) = se_calls (reject_pending TransportError ?s)"
    "se_watches (connection_lost ?s) = se_watches (reject_event_waiters TransportError ?s)"
    "se_pending (finish_session_close ?s) = []" "se_waiters (finish_session_close ?s) = []"
    "se_pending (connection_lost ?s) = []" "se_waiters (connection_lost ?s) = []"
    by (simp_all add: finish_session_close_def connection_lost_def schedule_reconnect_def Let_def)
  moreover have "future_done (se_calls (reject_pending TransportError ?s) ! k)"
    "\<forall>w\<in>set (se_waiters ?s). future_done (se_watches (reject_event_waiters TransportError ?s) ! fst w)"
    using calls_ok_reject(2,3) [OF ok] assms(2) by blast+
  moreover have "se_calls ?s ! k = Waiting \<longrightarrow> (\<exists>parse. map_of (se_pending ?s) n = Some (k, parse) \<and> (n, parse) \<in> set (sy_sent y))"
    using ok assms(2) unfolding calls_ok_def by blast
  ultimately show ?thesis by (simp del: reject_pending_calls reject_event_waiters_watches)
qed

lemma no_caller_left_waiting_witness:
  "map_of (se_pending (sy_session sample_sent)) 1 \<noteq> None \<and> future_done (se_calls (connection_lost (sy_session sample_sent)) ! 0)"
proof -
  have "sy_tasks sample_sent = [(1, 0)]" "se_calls (sy_session sample_sent) = [Waiting]" by code_simp+
  then show ?thesis using no_caller_left_waiting [OF sample_sent_reachable, of 1 0] by auto
qed

text \<open>C29: A session that lost its socket and is not closed is on its way to a new one: a timer is set that will
  start an attempt, or an attempt to open a socket is under way.\<close>

theorem lost_session_reconnects:
  assumes "reachable_system M y" "sy_lost y" "\<not> se_closed (sy_session y)"
  shows "(se_timer (sy_session y) \<and> fst (timer_fires (sy_session y))) \<or> (True, True) \<in> set (sy_attempts y)"
  using reachable_reconnect [OF assms(1)] assms(2,3) by (auto simp: reconnect_ok_def timer_fires_def)

lemma lost_session_reconnects_witness: "se_timer (sy_session sample_lost) \<and> fst (timer_fires (sy_session sample_lost))"
proof -
  have "sy_lost sample_lost" "\<not> se_closed (sy_session sample_lost)" "sy_attempts sample_lost = []" by code_simp+
  then show ?thesis using lost_session_reconnects [OF sample_lost_reachable] by auto
qed

end
