(* ===== verification/Perps_Trading.thy ===== *)
theory Perps_Trading imports Perps_Session Stream_Manager begin

text \<open>
  The commands of a perpetuals session as its callers see them: \<open>cancel_orders\<close> with its retries, placing
  orders and waiting for their first update, leverage and automatic cancelling (\<open>_internal/perps_session.py\<close>,
  \<open>actions/perps/trading.py\<close>, \<open>models/perps/orders.py\<close>). \<open>Perps_Session\<close> models how a request finds its response;
  here a request is an effect that returns the message of the response.
\<close>

section \<open>Signed commands\<close>

text \<open>
  Randomness, clocks, signer, the request over the socket and the calls of the HTTP client. The rational times
  are those of the event loop, in seconds.
\<close>

record 'w trade_io =
  tio_salt :: "('w, int) eff"
  tio_now_ms :: "'w \<Rightarrow> int"
  tio_time :: "'w \<Rightarrow> rat"
  tio_sleep :: "rat \<Rightarrow> 'w \<Rightarrow> 'w"
  tio_draw :: "'w \<Rightarrow> rat \<times> 'w"
  tio_token :: "('w, string) eff"
  tio_sign :: "pyval list \<Rightarrow> int \<Rightarrow> int \<Rightarrow> string res"
  tio_request :: "(string \<times> pyval) list \<Rightarrow> ('w, (string \<times> pyval) list) eff"
  tio_http :: "string \<Rightarrow> string \<Rightarrow> (string \<times> pyval) list \<Rightarrow> ('w, pyval) eff"

definition create_signed_command :: "'w trade_io \<Rightarrow> pyval list \<Rightarrow> time_input \<Rightarrow> ('w, (string \<times> pyval) list) eff" where
  "create_signed_command io op expires_at =
     bindS (tio_salt io) (\<lambda>salt.
     (\<lambda>w. let timestamp = tio_now_ms io w in
       bindS (liftS (tio_sign io op salt timestamp)) (\<lambda>signature.
       bindS (liftS (to_epoch_ms expires_at)) (\<lambda>expiry_ms.
       pureS ([(''salt'', PInt salt), (''sig'', PStr signature), (''ts'', PInt timestamp)]
         @ (case expiry_ms of None \<Rightarrow> [] | Some n \<Rightarrow> [(''exp'', PInt n)])))) w))"

definition send_signed_command ::
  "'w trade_io \<Rightarrow> (pyval \<Rightarrow> 'r res) \<Rightarrow> time_input \<Rightarrow> pyval list \<Rightarrow> ('w, 'r) eff" where
  "send_signed_command io parse expires_at op =
     bindS (create_signed_command io op expires_at) (\<lambda>command.
     bindS (liftS (to_command_body_op op)) (\<lambda>body.
     bindS (tio_request io ([(''req'', PStr ''post''), (''op'', PDict body)] @ command)) (\<lambda>message.
     liftS (settle_reply parse message))))"

section \<open>Results of a cancellation\<close>

datatype cancel_result =
    Cancelled (cr_order_id: "int option") (cr_client_order_id: "string option")
  | Rejected (cr_error: string) (cr_order_id: "int option") (cr_client_order_id: "string option")

text \<open>The first of the keys that is there: pydantic looks for the alias of a field and then for its name.\<close>

definition field_of :: "string list \<Rightarrow> (string \<times> pyval) list \<Rightarrow> pyval" where
  "field_of keys d = (case find (\<lambda>k. map_of d k \<noteq> None) keys of None \<Rightarrow> PNone | Some k \<Rightarrow> dict_get k d)"

definition optional_order_id :: "pyval \<Rightarrow> int option res" where
  "optional_order_id v =
     (case v of PNone \<Rightarrow> Ok None | PInt n \<Rightarrow> if 0 \<le> n then Ok (Some n) else Raise UnexpectedResponseError
      | _ \<Rightarrow> Raise UnexpectedResponseError)"

definition optional_client_order_id :: "pyval \<Rightarrow> string option res" where
  "optional_client_order_id v =
     (case v of PNone \<Rightarrow> Ok None
      | PStr s \<Rightarrow> if length s = 32 \<and> list_all lower_hex_digit_char s then Ok (Some s) else Raise UnexpectedResponseError
      | _ \<Rightarrow> Raise UnexpectedResponseError)"

definition parse_cancel_result :: "pyval \<Rightarrow> cancel_result res" where
  "parse_cancel_result v =
     (case v of
        PDict d \<Rightarrow>
          bindE (optional_order_id (field_of [''oid'', ''order_id''] d)) (\<lambda>order_id.
          bindE (optional_client_order_id (field_of [''coid'', ''client_order_id''] d)) (\<lambda>client_order_id.
          if dict_get ''status'' d = PStr ''ok'' then Ok (Cancelled order_id client_order_id)
          else if dict_get ''status'' d = PStr ''err'' then
            (case dict_get ''error'' d of
               PStr e \<Rightarrow> if e \<noteq> [] then Ok (Rejected e order_id client_order_id) else Raise UnexpectedResponseError
             | _ \<Rightarrow> Raise UnexpectedResponseError)
          else Raise UnexpectedResponseError))
      | _ \<Rightarrow> Raise UnexpectedResponseError)"

definition parse_cancel_results :: "pyval \<Rightarrow> cancel_result list res" where
  "parse_cancel_results data =
     (case data of PList xs \<Rightarrow> traverseE parse_cancel_result xs | _ \<Rightarrow> Raise UnexpectedResponseError)"

definition in_flight :: "cancel_result \<Rightarrow> bool" where
  "in_flight r = (case r of Rejected e _ _ \<Rightarrow> e = ''order_in_flight'' | _ \<Rightarrow> False)"

text \<open>\<open>received_id is not None and received_id != identifier\<close>\<close>

definition identifier_matches :: "pyval \<Rightarrow> cancel_result \<Rightarrow> bool" where
  "identifier_matches identifier r =
     (case identifier of
        PInt n \<Rightarrow> cr_order_id r \<in> {None, Some n}
      | PStr s \<Rightarrow> cr_client_order_id r \<in> {None, Some s}
      | _ \<Rightarrow> cr_client_order_id r = None)"

definition check_cancel_results :: "pyval list \<Rightarrow> cancel_result list \<Rightarrow> cancel_result list res" where
  "check_cancel_results identifiers results =
     (case results of
        [Rejected e None None] \<Rightarrow> Raise (RequestRejectedError 200 e None None)
      | _ \<Rightarrow>
          if length results \<noteq> length identifiers then Raise UnexpectedResponseError
          else if \<not> list_all2 identifier_matches identifiers results then Raise UnexpectedResponseError
          else Ok results)"

section \<open>Cancelling with retries\<close>

record cancel_retry_options =
  co_max_attempts :: pyval
  co_max_elapsed_s :: pyval

definition check_retry_options :: "cancel_retry_options \<Rightarrow> (nat \<times> decimal) res" where
  "check_retry_options options =
     (case co_max_attempts options of
        PInt n \<Rightarrow>
          if n < 1 then Raise UserInputError
          else
            bindE (case co_max_elapsed_s options of
                PInt m \<Rightarrow> Ok (dec_of_int m)
              | PFloat t \<Rightarrow> (case parse_decimal t of Some x \<Rightarrow> Ok x | None \<Rightarrow> Raise UserInputError)
              | _ \<Rightarrow> Raise UserInputError) (\<lambda>s.
            case s of
              Dec c e \<Rightarrow> if c \<le> 0 then Raise UserInputError else Ok (nat n, s)
            | _ \<Rightarrow> Raise UserInputError)
      | _ \<Rightarrow> Raise UserInputError)"

datatype retry_choice = Retry_False | Retry_Default | Retry_Options nat rat

definition CANCEL_RETRY_BASE_DELAY_S :: rat where "CANCEL_RETRY_BASE_DELAY_S = 1 / 10"

definition CANCEL_RETRY_MAX_DELAY_S :: rat where "CANCEL_RETRY_MAX_DELAY_S = 1"

text \<open>The deadline is missing where there is no retry, as the infinite one of the code.\<close>

definition remaining_cancel_retry_s :: "'w trade_io \<Rightarrow> rat option \<Rightarrow> int option \<Rightarrow> 'w \<Rightarrow> rat option" where
  "remaining_cancel_retry_s io retry_deadline expires_at_ms w =
     (let remaining = map_option (\<lambda>d. d - tio_time io w) retry_deadline in
      case expires_at_ms of
        None \<Rightarrow> remaining
      | Some ms \<Rightarrow>
          let left = of_int (ms - tio_now_ms io w) / 1000
          in Some (case remaining of None \<Rightarrow> left | Some r \<Rightarrow> min r left))"

text \<open>Before a retry: the delay, unless the time left does not allow it. False leaves the loop.\<close>

definition wait_before_retry :: "'w trade_io \<Rightarrow> nat \<Rightarrow> rat option \<Rightarrow> int option \<Rightarrow> ('w, bool) eff" where
  "wait_before_retry io attempts retry_deadline expires_at_ms = (\<lambda>w.
     case tio_draw io w of
       (draw, w) \<Rightarrow>
         (case jittered_backoff (int attempts - 1) CANCEL_RETRY_BASE_DELAY_S CANCEL_RETRY_MAX_DELAY_S draw of
            Inl e \<Rightarrow> (Inl e, w)
          | Inr delay \<Rightarrow>
              (case remaining_cancel_retry_s io retry_deadline expires_at_ms w of
                 Some remaining \<Rightarrow>
                   if remaining \<le> 0 \<or> remaining \<le> delay then (Ok False, w)
                   else
                     let w = tio_sleep io delay w in
                     (Ok (case remaining_cancel_retry_s io retry_deadline expires_at_ms w of Some r \<Rightarrow> 0 < r | None \<Rightarrow> True), w)
               | None \<Rightarrow> (Ok True, tio_sleep io delay w))))"

text \<open>
  \<open>PerpsCancelRetryError\<close> carries the results so far and the positions of the failed attempt; a failure of the first
  attempt is raised as it is.
\<close>

datatype cancel_failure = First_Failed py_error | Retry_Failed py_error "cancel_result option list" "nat list"

definition record_results ::
  "(nat \<times> pyval) list \<Rightarrow> cancel_result list \<Rightarrow> cancel_result option list \<Rightarrow> cancel_result option list" where
  "record_results waiting results final_results =
     fold (\<lambda>((i, _), r) final_results. final_results[i := Some r]) (zip waiting results) final_results"

definition retryable :: "'a list \<Rightarrow> cancel_result list \<Rightarrow> 'a list" where
  "retryable waiting results = map fst (filter (\<lambda>(_, r). in_flight r) (zip waiting results))"

text \<open>
  The loop of \<open>_cancel_orders_with_retry\<close>. \<open>submit\<close> sends the identifiers that are left and checks the results, and
  \<open>pause\<close> is what precedes the attempts after the first.
\<close>

function cancel_attempts ::
  "(pyval list \<Rightarrow> ('w, cancel_result list) eff) \<Rightarrow> (nat \<Rightarrow> ('w, bool) eff) \<Rightarrow> nat \<Rightarrow> nat \<Rightarrow> (nat \<times> pyval) list \<Rightarrow>
     cancel_result option list \<Rightarrow> 'w \<Rightarrow> (cancel_failure + cancel_result option list) \<times> 'w" where
  "cancel_attempts submit pause max_attempts attempts waiting final_results w =
     (if waiting = [] then (Inr final_results, w)
      else
        case (if attempts = 0 then (Ok True, w) else pause attempts w) of
          (Inl e, w) \<Rightarrow> (Inl (First_Failed e), w)
        | (Inr False, w) \<Rightarrow> (Inr final_results, w)
        | (Inr True, w) \<Rightarrow>
            (case submit (map snd waiting) w of
               (Inl e, w) \<Rightarrow>
                 (Inl (if attempts = 0 then First_Failed e else Retry_Failed e final_results (map fst waiting)), w)
             | (Inr results, w) \<Rightarrow>
                 cancel_attempts submit pause max_attempts (attempts + 1)
                   (if attempts + 1 < max_attempts then retryable waiting results else [])
                   (record_results waiting results final_results) w))"
  by pat_completeness auto
termination
  by (relation "measure (\<lambda>(_, _, m, a, p, _, _). if p = [] then 0 else Suc (m - a))") (auto split: if_splits)

declare cancel_attempts.simps [simp del]

definition submit_cancel ::
  "'w trade_io \<Rightarrow> (pyval list \<Rightarrow> pyval list res) \<Rightarrow> int option \<Rightarrow> pyval list \<Rightarrow> ('w, cancel_result list) eff" where
  "submit_cancel io build_op expires_at_ms identifiers =
     bindS (liftS (build_op identifiers)) (\<lambda>op.
     bindS (send_signed_command io parse_cancel_results
         (Plain (case expires_at_ms of None \<Rightarrow> PNone | Some n \<Rightarrow> PInt n)) op) (\<lambda>results.
     liftS (check_cancel_results identifiers results)))"

definition retry_bounds :: "'w trade_io \<Rightarrow> retry_choice \<Rightarrow> 'w \<Rightarrow> nat \<times> rat option" where
  "retry_bounds io retry w =
     (case retry of
        Retry_False \<Rightarrow> (1, None)
      | Retry_Default \<Rightarrow> (4, Some (tio_time io w + 2))
      | Retry_Options max_attempts max_elapsed_s \<Rightarrow> (max_attempts, Some (tio_time io w + max_elapsed_s)))"

definition resolve_results :: "cancel_failure + cancel_result option list \<Rightarrow> cancel_failure + cancel_result list" where
  "resolve_results r =
     bindE r (\<lambda>final_results. if None \<in> set final_results then Inl (First_Failed RuntimeError) else Inr (map the final_results))"

definition cancel_orders_with_retry ::
  "'w trade_io \<Rightarrow> (pyval list \<Rightarrow> pyval list res) \<Rightarrow> int option \<Rightarrow> retry_choice \<Rightarrow> pyval list \<Rightarrow> 'w \<Rightarrow>
     (cancel_failure + cancel_result list) \<times> 'w" where
  "cancel_orders_with_retry io build_op expires_at_ms retry identifiers w =
     (let (max_attempts, retry_deadline) = retry_bounds io retry w in
      case cancel_attempts (submit_cancel io build_op expires_at_ms)
          (\<lambda>attempts. wait_before_retry io attempts retry_deadline expires_at_ms) max_attempts 0
          (enumerate 0 identifiers) (replicate (length identifiers) None) w of
        (r, w) \<Rightarrow> (resolve_results r, w))"

definition cancel_orders ::
  "'w trade_io \<Rightarrow> pyval list option \<Rightarrow> pyval list option \<Rightarrow> time_input \<Rightarrow> retry_choice \<Rightarrow> 'w \<Rightarrow>
     (cancel_failure + cancel_result list) \<times> 'w" where
  "cancel_orders io order_ids client_order_ids expires_at retry w =
     (if (order_ids = None) = (client_order_ids = None) then (Inl (First_Failed UserInputError), w)
      else
        case to_epoch_ms expires_at of
          Inl e \<Rightarrow> (Inl (First_Failed e), w)
        | Inr expires_at_ms \<Rightarrow>
            (case order_ids of
               Some identifiers \<Rightarrow>
                 if identifiers = [] then (Inl (First_Failed UserInputError), w)
                 else cancel_orders_with_retry io cancel_orders_op expires_at_ms retry identifiers w
             | None \<Rightarrow>
                 if the client_order_ids = [] then (Inl (First_Failed UserInputError), w)
                 else cancel_orders_with_retry io cancel_orders_by_client_id_op expires_at_ms retry (the client_order_ids) w))"

definition cancel_order ::
  "'w trade_io \<Rightarrow> pyval \<Rightarrow> pyval \<Rightarrow> time_input \<Rightarrow> retry_choice \<Rightarrow> 'w \<Rightarrow> (cancel_failure + cancel_result) \<times> 'w" where
  "cancel_order io order_id client_order_id expires_at retry w =
     (if (order_id = PNone) = (client_order_id = PNone) then (Inl (First_Failed UserInputError), w)
      else
        case (if order_id \<noteq> PNone then cancel_orders io (Some [order_id]) None expires_at retry w
              else cancel_orders io None (Some [client_order_id]) expires_at retry w) of
          (r, w) \<Rightarrow> (map_sum id hd r, w))"


section \<open>What the attempts add up to\<close>

text \<open>
  A reference without positions: the results of the retry take the places of the results that were in flight, in
  order; each request asks for what was in flight in the answer before.
\<close>

fun fill :: "cancel_result list \<Rightarrow> cancel_result list \<Rightarrow> cancel_result list" where
  "fill [] ys = []"
| "fill (r # rs) ys =
     (case ys of y # ys' \<Rightarrow> if in_flight r then y # fill rs ys' else r # fill rs ys | [] \<Rightarrow> r # rs)"

fun merge_answers :: "cancel_result list list \<Rightarrow> cancel_result list" where
  "merge_answers [] = []"
| "merge_answers [rs] = rs"
| "merge_answers (rs # answers) = fill rs (merge_answers answers)"

fun requests_of :: "'a list \<Rightarrow> cancel_result list list \<Rightarrow> 'a list list" where
  "requests_of ids [] = [ids]"
| "requests_of ids (rs # answers) = ids # requests_of (retryable ids rs) answers"

lemma retryable_simps [simp]:
  "retryable [] rs = []" "retryable xs [] = []"
  "retryable (x # xs) (r # rs) = (if in_flight r then x # retryable xs rs else retryable xs rs)"
  by (simp_all add: retryable_def)

lemma retryable_map: "retryable (map f xs) rs = map f (retryable xs rs)"
  by (induction xs arbitrary: rs) (simp, case_tac rs, simp_all)

lemma set_retryable: "set (retryable xs rs) \<subseteq> set xs"
  by (auto simp: retryable_def dest: set_zip_leftD)

lemma distinct_retryable: "distinct (map fst xs) \<Longrightarrow> distinct (map fst (retryable xs rs))"
proof (induction xs arbitrary: rs)
  case (Cons x xs)
  then show ?case using set_retryable [of xs "tl rs"] by (cases rs) auto
qed simp

lemma length_fill [simp]: "length (fill rs ys) = length rs"
  by (induction rs ys rule: fill.induct) (auto split: list.splits)

lemma retryable_fill:
  assumes "length rs = length xs" "length ys = length (retryable xs rs)"
  shows "retryable xs (fill rs ys) = retryable (retryable xs rs) ys"
  using assms
proof (induction xs arbitrary: rs ys)
  case (Cons x xs)
  then obtain r rs' where rs: "rs = r # rs'" by (cases rs) auto
  show ?case
  proof (cases ys)
    case Nil
    then have "retryable (x # xs) rs = []" using Cons.prems by simp
    then show ?thesis using Nil rs by (simp split: if_splits)
  next
    case (Cons y ys')
    then show ?thesis using Cons.IH [of rs'] Cons.prems rs \<open>ys = y # ys'\<close> by (auto split: if_splits)
  qed
qed simp

lemma record_results_Cons: "record_results ((i, v) # waiting) (r # rs) f = record_results waiting rs (f[i := Some r])"
  by (simp add: record_results_def)

lemma record_results_Nil [simp]: "record_results [] rs f = f" "record_results waiting [] f = f"
  by (simp_all add: record_results_def)

lemma record_results_other:
  "i \<notin> fst ` set waiting \<Longrightarrow> record_results waiting rs (f[i := x]) = (record_results waiting rs f)[i := x]"
proof (induction waiting arbitrary: rs f)
  case (Cons w waiting)
  obtain j v where w: "w = (j, v)" by fastforce
  show ?case
  proof (cases rs)
    case (Cons r rs')
    have "(f[i := x])[j := Some r] = (f[j := Some r])[i := x]" using Cons.prems w by (simp add: list_update_swap)
    then show ?thesis using Cons.IH [of rs'] Cons.prems \<open>rs = r # rs'\<close> w by (simp add: record_results_Cons)
  qed simp
qed simp

lemma record_results_fill:
  assumes "distinct (map fst waiting)" "length rs = length waiting" "length ys = length (retryable waiting rs)"
  shows "record_results (retryable waiting rs) ys (record_results waiting rs f) = record_results waiting (fill rs ys) f"
  using assms
proof (induction waiting arbitrary: rs ys f)
  case (Cons w waiting)
  obtain i v where w: "w = (i, v)" by fastforce
  obtain r rs' where rs: "rs = r # rs'" using Cons.prems by (cases rs) auto
  have other: "i \<notin> fst ` set waiting" "i \<notin> fst ` set (retryable waiting rs')"
    using Cons.prems(1) set_retryable [of waiting rs'] w by auto
  show ?case
  proof (cases ys)
    case Nil
    then show ?thesis using Cons.prems rs w by (simp split: if_splits)
  next
    case (Cons y ys')
    then show ?thesis
      using Cons.IH [of rs' "if in_flight r then ys' else ys"] Cons.prems rs w other
      by (cases "in_flight r") (simp_all add: record_results_Cons record_results_other)
  qed
qed simp


text \<open>
  The interface between the loop and what it calls: \<open>seen\<close> are the attempts the world has recorded. An answered
  attempt is recorded with one result per identifier; a failed one may not have reached the server.
\<close>

locale cancelling =
  fixes submit :: "pyval list \<Rightarrow> ('w, cancel_result list) eff"
    and pause :: "nat \<Rightarrow> ('w, bool) eff"
    and seen :: "'w \<Rightarrow> (pyval list \<times> cancel_result list res) list"
  assumes answered_attempt:
      "submit ids w = (Inr rs, w') \<Longrightarrow> seen w' = seen w @ [(ids, Ok rs)] \<and> length rs = length ids"
    and failed_attempt:
      "submit ids w = (Inl e, w') \<Longrightarrow> seen w' = seen w \<or> seen w' = seen w @ [(ids, Raise e)]"
    and pause_quiet: "0 < n \<Longrightarrow> \<exists>go w'. pause n w = (Inr go, w') \<and> seen w' = seen w"
begin

text \<open>The outcome of the loop for the answers it got: their merge, or the error with the positions left open.\<close>

definition outcome ::
  "nat \<Rightarrow> (nat \<times> pyval) list \<Rightarrow> cancel_result option list \<Rightarrow> cancel_result list list \<Rightarrow> py_error option \<Rightarrow>
     cancel_failure + cancel_result option list" where
  "outcome attempts waiting f answers failure =
     (let f = (if answers = [] then f else record_results waiting (merge_answers answers) f);
          open_positions = map fst (if answers = [] then waiting else retryable waiting (merge_answers answers))
      in case failure of
           None \<Rightarrow> Inr f
         | Some e \<Rightarrow> Inl (if attempts = 0 \<and> answers = [] then First_Failed e else Retry_Failed e f open_positions))"

definition recorded ::
  "(nat \<times> pyval) list \<Rightarrow> cancel_result list list \<Rightarrow> py_error option \<Rightarrow> (pyval list \<times> cancel_result list res) list \<Rightarrow> bool" where
  "recorded waiting answers failure new \<longleftrightarrow>
     (let reqs = requests_of (map snd waiting) answers in
      new = zip reqs (map Ok answers)
    \<or> (\<exists>e. failure = Some e \<and> new = zip reqs (map Ok answers @ [Raise e])))"

lemma length_answer:
  assumes "\<forall>i<length answers. length (answers ! i) = length (requests_of ids answers ! i)" "answers \<noteq> []"
  shows "length (merge_answers answers) = length ids"
  using assms by (cases answers rule: merge_answers.cases) force+

lemma outcome_step:
  assumes "distinct (map fst waiting)" "length rs = length waiting"
    and "\<forall>i<length answers. length (answers ! i) = length (requests_of (retryable waiting rs) answers ! i)"
  shows "outcome (attempts + 1) (retryable waiting rs) (record_results waiting rs f) answers failure
    = outcome attempts waiting f (rs # answers) failure"
proof (cases answers)
  case (Cons a as)
  have "length (merge_answers answers) = length (retryable waiting rs)"
    using length_answer [OF assms(3)] Cons by simp
  then show ?thesis
    using record_results_fill [OF assms(1,2)] retryable_fill [OF assms(2)] Cons
    by (auto simp: outcome_def Let_def split: option.splits)
qed (auto simp: outcome_def Let_def split: option.splits)

lemma recorded_step:
  assumes "recorded (retryable waiting rs) answers failure new"
  shows "recorded waiting (rs # answers) failure ((map snd waiting, Ok rs) # new)"
  using assms by (auto simp: recorded_def retryable_map Let_def)

lemma attempts_add_up:
  assumes "cancel_attempts submit pause m a waiting f w = (r, w')" "waiting \<noteq> []" "a < m" "distinct (map fst waiting)"
  shows "\<exists>answers failure new. r = outcome a waiting f answers failure \<and> seen w' = seen w @ new
    \<and> recorded waiting answers failure new \<and> a + length new \<le> m \<and> (a = 0 \<and> failure = None \<longrightarrow> answers \<noteq> [])
    \<and> (\<forall>i<length answers. length (answers ! i) = length (requests_of (map snd waiting) answers ! i))"
  using assms
proof (induction submit\<equiv>submit pause\<equiv>pause m a waiting f w arbitrary: r w' rule: cancel_attempts.induct)
  case (1 m a waiting f w)
  obtain go v where go: "(if a = 0 then (Ok True, w) else pause a w) = (Inr go, v)" "seen v = seen w" "a = 0 \<longrightarrow> go"
    using pause_quiet [of a w] by (cases "a = 0") auto
  note unfold = "1.prems"(1) [unfolded cancel_attempts.simps [of submit pause m a waiting f w]]
  show ?case
  proof (cases go)
    case False
    then have "r = Inr f" "w' = v" "a \<noteq> 0" using unfold go "1.prems"(2) by auto
    then show ?thesis using go(2) "1.prems"(3)
      by - (rule exI [of _ "[]"], rule exI [of _ None], rule exI [of _ "[]"], simp add: outcome_def recorded_def)
  next
    case True
    obtain res u where sub: "submit (map snd waiting) v = (res, u)" by fastforce
    show ?thesis
    proof (cases res)
      case (Inl e)
      then have r: "r = outcome a waiting f [] (Some e)" "w' = u"
        using unfold go True sub "1.prems"(2) by (auto simp: outcome_def)
      show ?thesis
        using failed_attempt [of "map snd waiting" v e u] sub Inl go(2) r "1.prems"(3)
        by - (rule exI [of _ "[]"], rule exI [of _ "Some e"], auto simp: recorded_def)
    next
      case (Inr rs)
      have ans: "seen u = seen w @ [(map snd waiting, Ok rs)]" "length rs = length waiting"
        using answered_attempt [of "map snd waiting" v rs u] sub Inr go(2) by auto
      let ?waiting = "if a + 1 < m then retryable waiting rs else []"
      have rest: "cancel_attempts submit pause m (a + 1) ?waiting (record_results waiting rs f) u = (r, w')"
        using unfold go True sub Inr "1.prems"(2) by auto
      show ?thesis
      proof (cases "?waiting = []")
        case True
        then have "r = outcome a waiting f [rs] None" "w' = u"
          using rest by (auto simp: cancel_attempts.simps outcome_def)
        then show ?thesis using ans "1.prems"(3)
          by - (rule exI [of _ "[rs]"], rule exI [of _ None], rule exI [of _ "[(map snd waiting, Ok rs)]"],
              simp add: recorded_def)
      next
        case False
        then have w2: "?waiting = retryable waiting rs" "a + 1 < m" by (simp_all split: if_splits)
        have "\<exists>answers failure new. r = outcome (a + 1) ?waiting (record_results waiting rs f) answers failure
            \<and> seen w' = seen u @ new \<and> recorded ?waiting answers failure new \<and> a + 1 + length new \<le> m
            \<and> (a + 1 = 0 \<and> failure = None \<longrightarrow> answers \<noteq> [])
            \<and> (\<forall>i<length answers. length (answers ! i) = length (requests_of (map snd ?waiting) answers ! i))"
          by (rule "1.hyps" [OF "1.prems"(2) go(1) [symmetric] refl eqTrueI [OF True] sub [symmetric] Inr rest False w2(2)])
            (use distinct_retryable [OF "1.prems"(4)] in simp)
        then obtain answers failure new where
          IH: "r = outcome (a + 1) (retryable waiting rs) (record_results waiting rs f) answers failure"
            "seen w' = seen u @ new" "recorded (retryable waiting rs) answers failure new" "a + 1 + length new \<le> m"
          and lengths: "\<forall>i<length answers. length (answers ! i) = length (requests_of (map snd (retryable waiting rs)) answers ! i)"
          unfolding w2(1) by blast
        have reqs: "length (requests_of (map snd xs) as ! i) = length (requests_of xs as ! i)" if "i < length as" for xs :: "(nat \<times> pyval) list" and as i
          using that by (induction as arbitrary: xs i) (auto simp: retryable_map nth_Cons split: nat.splits)
        have "r = outcome a waiting f (rs # answers) failure"
          using IH(1) outcome_step [OF "1.prems"(4) ans(2), of answers a f failure] lengths reqs by simp
        moreover have "seen w' = seen w @ ((map snd waiting, Ok rs) # new)" using IH(2) ans(1) by simp
        moreover have "\<forall>i<length (rs # answers). length ((rs # answers) ! i)
            = length (requests_of (map snd waiting) (rs # answers) ! i)"
          using lengths ans(2) by (auto simp: nth_Cons retryable_map split: nat.splits)
        ultimately show ?thesis using recorded_step [OF IH(3)] IH(4)
          by - (rule exI [of _ "rs # answers"], rule exI [of _ failure], rule exI [of _ "(map snd waiting, Ok rs) # new"], simp)
      qed
    qed
  qed
qed

end


section \<open>The attempts a server sees\<close>

type_synonym request_log = "((string \<times> pyval) list \<times> (string \<times> pyval) list res) list"

text \<open>The same environment with a log of the frames sent and the messages they were answered with.\<close>

definition logging_trade :: "'w trade_io \<Rightarrow> ('w \<times> request_log) trade_io" where
  "logging_trade io =
     \<lparr>tio_salt = beside (tio_salt io), tio_now_ms = (\<lambda>v. tio_now_ms io (fst v)), tio_time = (\<lambda>v. tio_time io (fst v)),
      tio_sleep = (\<lambda>d. map_prod (tio_sleep io d) id),
      tio_draw = (\<lambda>(w, log). case tio_draw io w of (draw, w') \<Rightarrow> (draw, (w', log))),
      tio_token = beside (tio_token io), tio_sign = tio_sign io,
      tio_request = (\<lambda>frame (w, log). case tio_request io frame w of (r, w') \<Rightarrow> (r, (w', log @ [(frame, r)]))),
      tio_http = (\<lambda>method path body. beside (tio_http io method path body))\<rparr>"

text \<open>The identifiers a frame asks to cancel, and the checked results of an attempt.\<close>

definition asked :: "(string \<times> pyval) list \<Rightarrow> pyval list" where
  "asked frame = row_of (dict_get ''args'' (case dict_get ''op'' frame of PDict d \<Rightarrow> d | _ \<Rightarrow> []))"

definition attempt_of :: "(string \<times> pyval) list \<times> (string \<times> pyval) list res \<Rightarrow> pyval list \<times> cancel_result list res" where
  "attempt_of = (\<lambda>(frame, r). (asked frame,
     bindE r (\<lambda>message. bindE (settle_reply parse_cancel_results message) (check_cancel_results (asked frame)))))"

definition attempts_seen :: "'w \<times> request_log \<Rightarrow> (pyval list \<times> cancel_result list res) list" where
  "attempts_seen v = map attempt_of (snd v)"

lemma cancel_op_body:
  assumes "build ids = Ok op" "build \<in> {cancel_orders_op, cancel_orders_by_client_id_op}"
  shows "\<exists>t. to_command_body_op op = Ok [(''type'', t), (''args'', PList ids)]"
proof -
  have "map PStr ss = ids" if "traverseE validate_client_order_id ids = Inr ss" for ss
    using that by (induction ids arbitrary: ss) (auto simp: validate_client_order_id_def split: pyval.splits if_splits)
  then have "\<exists>t\<in>{PStr ''cancelOrders'', PStr ''cancelOrdersCOID''}. op = [t, PList ids]"
    using assms by (auto simp: cancel_orders_op_def cancel_orders_by_client_id_op_def split: if_splits)
  then show ?thesis by (auto simp: to_command_body_op_def entry_def row_of_def)
qed

lemma quiet_command:
  assumes "create_signed_command (logging_trade io) op expires_at v = (r, v')"
  shows "snd v' = snd v" "\<And>command. r = Ok command \<Longrightarrow> dict_get ''op'' ([(''req'', x), (''op'', b)] @ command) = b"
proof -
  show "snd v' = snd v" using assms
    by (cases v) (auto simp: create_signed_command_def logging_trade_def beside_def bindS_def liftS_def pureS_def Let_def
        split: prod.splits sum.splits)
  show "\<And>command. r = Ok command \<Longrightarrow> dict_get ''op'' ([(''req'', x), (''op'', b)] @ command) = b"
    by (simp add: dict_get_def)
qed

lemma check_cancel_length: "check_cancel_results ids results = Ok rs \<Longrightarrow> length rs = length ids \<and> rs = results"
  by (auto simp: check_cancel_results_def split: list.splits cancel_result.splits option.splits if_splits)

lemma submit_cancel_logged:
  assumes "submit_cancel (logging_trade io) build expires_at_ms ids v = (r, v')"
    and "build \<in> {cancel_orders_op, cancel_orders_by_client_id_op}"
  shows "attempts_seen v' = attempts_seen v @ [(ids, r)] \<or> (\<not> is_ok r \<and> attempts_seen v' = attempts_seen v)"
proof (cases "build ids")
  case (Inl e)
  then show ?thesis using assms(1) by (auto simp: submit_cancel_def bindS_def liftS_def)
next
  case (Inr op)
  obtain t where body: "to_command_body_op op = Ok [(''type'', t), (''args'', PList ids)]"
    using cancel_op_body [OF Inr assms(2)] by blast
  let ?at = "Plain (case expires_at_ms of None \<Rightarrow> PNone | Some n \<Rightarrow> PInt n)"
  obtain c v1 where c: "create_signed_command (logging_trade io) op ?at v = (c, v1)"
    by (meson surj_pair)
  have v1: "snd v1 = snd v" using quiet_command(1) [OF c] .
  show ?thesis
  proof (cases c)
    case Inl
    then show ?thesis using assms(1) Inr c v1
      by (auto simp: submit_cancel_def send_signed_command_def bindS_def liftS_def attempts_seen_def)
  next
    case (Inr command)
    let ?frame = "[(''req'', PStr ''post''), (''op'', PDict [(''type'', t), (''args'', PList ids)])] @ command"
    have ids: "asked ?frame = ids" by (simp add: asked_def dict_get_def row_of_def)
    obtain m w1 where m: "tio_request io ?frame (fst v1) = (m, w1)" by fastforce
    have "tio_request (logging_trade io) ?frame v1 = (m, (w1, snd v1 @ [(?frame, m)]))"
      using m by (cases v1) (simp add: logging_trade_def)
    then have "v' = (w1, snd v1 @ [(?frame, m)])"
      "r = bindE m (\<lambda>message. bindE (settle_reply parse_cancel_results message) (check_cancel_results ids))"
      using assms(1) \<open>build ids = Inr op\<close> c Inr body
      by (cases m; cases "bindE m (settle_reply parse_cancel_results)";
          simp add: submit_cancel_def send_signed_command_def bindS_def liftS_def)+
    then show ?thesis using ids v1 by (simp add: attempts_seen_def attempt_of_def)
  qed
qed

lemma wait_before_retry_quiet:
  assumes "0 < n"
  shows "\<exists>go v'. wait_before_retry (logging_trade io) n deadline expires_at_ms v = (Inr go, v')
    \<and> attempts_seen v' = attempts_seen v"
proof -
  obtain w log where v: "v = (w, log)" by fastforce
  obtain draw w1 where d: "tio_draw io w = (draw, w1)" by fastforce
  obtain delay where "jittered_backoff (int n - 1) CANCEL_RETRY_BASE_DELAY_S CANCEL_RETRY_MAX_DELAY_S draw = Ok delay"
    using assms by (cases n) (simp_all add: jittered_backoff_def CANCEL_RETRY_BASE_DELAY_S_def CANCEL_RETRY_MAX_DELAY_S_def Let_def)
  with d v show ?thesis
    by (auto simp: wait_before_retry_def logging_trade_def attempts_seen_def Let_def split: option.splits)
qed

lemma cancelling_model:
  assumes "build \<in> {cancel_orders_op, cancel_orders_by_client_id_op}"
  shows "cancelling (submit_cancel (logging_trade io) build expires_at_ms)
    (\<lambda>n. wait_before_retry (logging_trade io) n deadline expires_at_ms) attempts_seen"
proof unfold_locales
  fix ids v rs v' assume s: "submit_cancel (logging_trade io) build expires_at_ms ids v = (Inr rs, v')"
  then show "attempts_seen v' = attempts_seen v @ [(ids, Ok rs)] \<and> length rs = length ids"
    using submit_cancel_logged [OF s assms] check_cancel_length
    by (auto simp: submit_cancel_def bindS_def liftS_def split: prod.splits sum.splits)
next
  fix ids v e v' assume s: "submit_cancel (logging_trade io) build expires_at_ms ids v = (Inl e, v')"
  then show "attempts_seen v' = attempts_seen v \<or> attempts_seen v' = attempts_seen v @ [(ids, Raise e)]"
    using submit_cancel_logged [OF s assms] by auto
qed (rule wait_before_retry_quiet)

interpretation by_order_id: cancelling "submit_cancel (logging_trade io) cancel_orders_op expires_at_ms"
  "\<lambda>n. wait_before_retry (logging_trade io) n deadline expires_at_ms" attempts_seen
  for io expires_at_ms deadline
  by (rule cancelling_model) simp

interpretation by_client_order_id: cancelling "submit_cancel (logging_trade io) cancel_orders_by_client_id_op expires_at_ms"
  "\<lambda>n. wait_before_retry (logging_trade io) n deadline expires_at_ms" attempts_seen
  for io expires_at_ms deadline
  by (rule cancelling_model) simp

text \<open>The positions that a merge of answers leaves in flight.\<close>

definition open_positions :: "pyval list \<Rightarrow> cancel_result list list \<Rightarrow> nat list" where
  "open_positions ids answers = map fst (retryable (enumerate 0 ids) (merge_answers answers))"

lemma record_all:
  "length rs = length ids \<Longrightarrow>
    record_results (enumerate (length p) ids) rs (p @ replicate (length ids) None) = p @ map Some rs"
proof (induction ids arbitrary: rs p)
  case (Cons v ids)
  then obtain r rs' where "rs = r # rs'" by (cases rs) auto
  then show ?case using Cons.IH [of rs' "p @ [Some r]"] Cons.prems by (simp add: record_results_Cons)
qed simp

text \<open>C24: Cancelling with retries adds up to what the server said. Each request after the first asks exactly for the orders that
  the answer before left in flight; the results are those answers merged in the order of the identifiers; there
  are never more requests than attempts allowed; and when a later request fails, the error carries the merged
  results so far and exactly the positions of the orders in doubt, while a failing first request is raised as it is.\<close>

theorem cancel_retry_merges_answers:
  assumes "cancel_orders_with_retry (logging_trade io) build expires_at_ms retry ids (w, []) = (r, (w', posted))"
    and "build \<in> {cancel_orders_op, cancel_orders_by_client_id_op}" "ids \<noteq> []" "0 < fst (retry_bounds io retry w)"
  shows "\<exists>answers. length posted \<le> fst (retry_bounds io retry w)
    \<and> (map attempt_of posted = zip (requests_of ids answers) (map Ok answers) \<and> answers \<noteq> [] \<and> r = Inr (merge_answers answers)
     \<or> (\<exists>e. map attempt_of posted \<in> {zip (requests_of ids answers) (map Ok answers),
            zip (requests_of ids answers) (map Ok answers @ [Raise e])}
          \<and> r = Inl (if answers = [] then First_Failed e
                     else Retry_Failed e (map Some (merge_answers answers)) (open_positions ids answers))))"
proof -
  let ?n = "fst (retry_bounds io retry w)"
  let ?start = "replicate (length ids) None :: cancel_result option list"
  let ?waiting = "enumerate 0 ids"
  obtain deadline r0 where run: "cancel_attempts (submit_cancel (logging_trade io) build expires_at_ms)
      (\<lambda>n. wait_before_retry (logging_trade io) n deadline expires_at_ms) ?n 0 ?waiting ?start (w, []) = (r0, (w', posted))"
    and r: "r = resolve_results r0"
  proof -
    have "retry_bounds (logging_trade io) retry (w, []) = retry_bounds io retry w"
      by (simp add: retry_bounds_def logging_trade_def split: retry_choice.splits)
    then show thesis
      using assms(1) that by (auto simp: cancel_orders_with_retry_def Let_def split: prod.splits)
  qed
  have waiting: "?waiting \<noteq> []" "distinct (map fst ?waiting)" "map snd ?waiting = ids"
    using assms(3) by (cases ids, simp_all)
  obtain answers failure new where
    out: "r0 = cancelling.outcome 0 ?waiting ?start answers failure" and new: "attempts_seen (w', posted) = attempts_seen (w, []) @ new"
    and rec: "cancelling.recorded ?waiting answers failure new" and bound: "length new \<le> ?n"
    and some: "failure = None \<longrightarrow> answers \<noteq> []"
    and lengths: "\<forall>i<length answers. length (answers ! i) = length (requests_of ids answers ! i)"
    using by_order_id.attempts_add_up [of io expires_at_ms deadline ?n 0 ?waiting ?start "(w, [])" r0 "(w', posted)"]
      by_client_order_id.attempts_add_up [of io expires_at_ms deadline ?n 0 ?waiting ?start "(w, [])" r0 "(w', posted)"]
      run waiting assms(2,4) by auto
  have "new = map attempt_of posted" using new by (simp add: attempts_seen_def)
  then have new': "new = map attempt_of posted" "length posted = length new" by simp_all
  have all: "record_results ?waiting (merge_answers answers) ?start = map Some (merge_answers answers)" if "answers \<noteq> []"
    using record_all [of "merge_answers answers" ids "[]"] by_order_id.length_answer [OF lengths that] by simp
  have "r = (case failure of None \<Rightarrow> Inr (merge_answers answers)
      | Some e \<Rightarrow> Inl (if answers = [] then First_Failed e
          else Retry_Failed e (map Some (merge_answers answers)) (open_positions ids answers)))"
    using some all unfolding r out
    by (auto simp: by_order_id.outcome_def resolve_results_def open_positions_def comp_def Let_def split: option.splits)
  moreover have "new = zip (requests_of ids answers) (map Ok answers)
      \<or> (\<exists>e. failure = Some e \<and> new = zip (requests_of ids answers) (map Ok answers @ [Raise e]))"
    using rec by (simp add: by_order_id.recorded_def waiting(3) Let_def)
  moreover have "length posted \<le> ?n" using bound new'(2) by simp
  ultimately show ?thesis
    unfolding new'(1) using some
    by (intro exI [of _ answers], cases failure) (simp_all only: option.case simp_thms option.distinct option.inject, blast+)
qed

text \<open>A server that cancels the first order and has the second one in flight until the second request.\<close>

definition sample_trade :: "nat trade_io" where
  "sample_trade =
     \<lparr>tio_salt = pureS 7, tio_now_ms = (\<lambda>_. 1000), tio_time = (\<lambda>_. 5), tio_sleep = (\<lambda>_ n. n), tio_draw = (\<lambda>n. (1 / 2, n)),
      tio_token = pureS ''t'', tio_sign = (\<lambda>_ _ _. Ok ''0x1''),
      tio_request = (\<lambda>_ n. (Ok [(''data'', PList
        (if n = 0 then [PDict [(''status'', PStr ''ok''), (''oid'', PInt 1)],
                        PDict [(''status'', PStr ''err''), (''error'', PStr ''order_in_flight''), (''oid'', PInt 2)]]
         else [PDict [(''status'', PStr ''ok''), (''oid'', PInt 2)]]))], n + 1)),
      tio_http = (\<lambda>_ _ _. failS TransportError)\<rparr>"

lemma cancel_retry_merges_answers_witness:
  "\<exists>answers posted. length posted \<le> 4
    \<and> map attempt_of posted = zip (requests_of [PInt 1, PInt 2] answers) (map Ok answers) \<and> answers \<noteq> []
    \<and> [Cancelled (Some 1) None, Cancelled (Some 2) None] = merge_answers answers"
proof -
  let ?run = "cancel_orders_with_retry (logging_trade sample_trade) cancel_orders_op None Retry_Default [PInt 1, PInt 2] (0, [])"
  have "fst ?run = Inr [Cancelled (Some 1) None, Cancelled (Some 2) None]" by code_simp
  then obtain n posted where "?run = (Inr [Cancelled (Some 1) None, Cancelled (Some 2) None], (n, posted))"
    by (metis prod.collapse)
  from cancel_retry_merges_answers [OF this]
  show ?thesis by (auto simp: retry_bounds_def)
qed

section \<open>Placing orders\<close>

record post_order_ack =
  pa_status :: string
  pa_order_id :: "int option"
  pa_client_order_id :: "string option"
  pa_error :: "string option"

text \<open>\<open>lax_int\<close> is what pydantic reads as an integer; the builder of an acknowledgement, which nothing reads, is left out.\<close>

definition parse_post_order_ack :: "(pyval \<Rightarrow> int option) \<Rightarrow> pyval \<Rightarrow> post_order_ack res" where
  "parse_post_order_ack lax_int v =
     (case v of
        PDict wire \<Rightarrow>
          let status = dict_get ''status'' wire;
              error = dict_get ''error'' wire;
              error = (if status = PStr ''err'' \<and> \<not> py_truthy error then PStr ''Perps command was rejected.'' else error) in
          bindE (case field_of [''oid'', ''order_id''] wire of
              PNone \<Rightarrow> Ok None
            | oid \<Rightarrow> (case lax_int oid of Some n \<Rightarrow> Ok (Some n) | None \<Rightarrow> Raise UnexpectedResponseError)) (\<lambda>order_id.
          bindE (case field_of [''coid'', ''client_order_id''] wire of
              PNone \<Rightarrow> Ok None | PStr t \<Rightarrow> Ok (Some t) | _ \<Rightarrow> Raise UnexpectedResponseError) (\<lambda>client_order_id.
          bindE (case error of PNone \<Rightarrow> Ok None | PStr t \<Rightarrow> Ok (Some t) | _ \<Rightarrow> Raise UnexpectedResponseError) (\<lambda>error.
          case status of
            PStr t \<Rightarrow>
              if t \<notin> {''ok'', ''err''} then Raise UnexpectedResponseError
              else if t = ''ok'' \<and> order_id = None then Raise UnexpectedResponseError
              else Ok \<lparr>pa_status = t, pa_order_id = order_id, pa_client_order_id = client_order_id, pa_error = error\<rparr>
          | _ \<Rightarrow> Raise UnexpectedResponseError)))
      | _ \<Rightarrow> Raise UnexpectedResponseError)"

definition parse_post_order_acks :: "(pyval \<Rightarrow> int option) \<Rightarrow> pyval \<Rightarrow> post_order_ack list res" where
  "parse_post_order_acks lax_int data =
     (case data of PList xs \<Rightarrow> traverseE (parse_post_order_ack lax_int) xs | _ \<Rightarrow> Raise ValueError)"

definition expect_ok_ack :: "post_order_ack \<Rightarrow> int option res" where
  "expect_ok_ack ack =
     (if pa_status ack = ''err''
      then Raise (RequestRejectedError 200 (case pa_error ack of Some t \<Rightarrow> (if t \<noteq> [] then t else ''Perps command was rejected.'')
             | None \<Rightarrow> ''Perps command was rejected.'') None None)
      else Ok (pa_order_id ack))"

definition send_create_orders ::
  "'w trade_io \<Rightarrow> (pyval \<Rightarrow> int option) \<Rightarrow> pyval list list \<Rightarrow> string option \<Rightarrow> time_input \<Rightarrow> ('w, post_order_ack list) eff" where
  "send_create_orders io lax_int rows scope expires_at =
     bindS (send_signed_command io (parse_post_order_acks lax_int) expires_at (create_orders_op rows scope)) (\<lambda>acks.
     if acks = [] then failS TransportError else pureS acks)"

definition post_orders ::
  "'w trade_io \<Rightarrow> (pyval \<Rightarrow> int option) \<Rightarrow> builder_attribution option \<Rightarrow> perps_order_request list \<Rightarrow> time_input \<Rightarrow>
     ('w, post_order_ack list) eff" where
  "post_orders io lax_int builder orders expires_at =
     (if orders = [] then failS UserInputError
      else (\<lambda>w. bindS (liftS (traverseE (\<lambda>r. to_raw_order (tio_now_ms io w) r builder) orders)) (\<lambda>rows.
        send_create_orders io lax_int rows None expires_at) w))"

text \<open>
  The waiter for an event: made before the orders are sent, awaited after, removed in any case. \<open>'o\<close> is the payload
  of an order event.
\<close>

record ('w, 'o) event_io =
  ev_watch :: "string \<Rightarrow> 'w \<Rightarrow> nat \<times> 'w"
  ev_wait :: "nat \<Rightarrow> ('w, 'o) eff"
  ev_unwatch :: "nat \<Rightarrow> 'w \<Rightarrow> 'w"

definition place_orders_and_wait_for_update ::
  "'w trade_io \<Rightarrow> ('w, 'o) event_io \<Rightarrow> (pyval \<Rightarrow> int option) \<Rightarrow> pyval list list \<Rightarrow> string \<Rightarrow> string option \<Rightarrow> time_input \<Rightarrow>
     ('w, int option list \<times> 'o) eff" where
  "place_orders_and_wait_for_update io ev lax_int rows client_order_id scope expires_at =
     (\<lambda>w. case ev_watch ev client_order_id w of
        (k, w) \<Rightarrow>
          (case bindS (send_create_orders io lax_int rows scope expires_at) (\<lambda>acks.
                bindS (liftS (traverseE expect_ok_ack acks)) (\<lambda>placed.
                bindS (ev_wait ev k) (\<lambda>order. pureS (placed, order)))) w of
             (r, w) \<Rightarrow> (r, ev_unwatch ev k w)))"

text \<open>\<open>placed[i]\<close>\<close>

definition placed_at :: "int option list \<Rightarrow> nat \<Rightarrow> int option res" where
  "placed_at placed i = (if i < length placed then Ok (placed ! i) else Raise IndexError)"

record 'o order_placement =
  op_order :: 'o
  op_take_profit :: "int option option"
  op_stop_loss :: "int option option"

definition trigger_orders ::
  "int option list \<Rightarrow> nat \<Rightarrow> bool \<Rightarrow> bool \<Rightarrow> (int option option \<times> int option option) res" where
  "trigger_orders placed first has_take_profit has_stop_loss =
     bindE (if has_take_profit then map_ok Some (placed_at placed first) else Ok None) (\<lambda>take_profit.
     bindE (if has_stop_loss then map_ok Some (placed_at placed (if has_take_profit then first + 1 else first)) else Ok None) (\<lambda>stop_loss.
     Ok (take_profit, stop_loss)))"

definition optional_row ::
  "bool \<Rightarrow> pyval \<Rightarrow> string \<Rightarrow> string \<Rightarrow> builder_attribution option \<Rightarrow> trigger option \<Rightarrow> pyval list list res" where
  "optional_row buy instrument_id kind quantity builder trigger =
     (case trigger of None \<Rightarrow> Ok [] | Some t \<Rightarrow> map_ok (\<lambda>row. [row]) (to_raw_tp_sl_order buy instrument_id kind quantity t builder))"

definition order_trigger_ok :: "trigger option \<Rightarrow> bool \<Rightarrow> bool" where
  "order_trigger_ok trigger trailing =
     (case trigger of None \<Rightarrow> True | Some (Fixed_Price _) \<Rightarrow> True | Some (Trailing _) \<Rightarrow> trailing | _ \<Rightarrow> False)"

definition place_order ::
  "'w trade_io \<Rightarrow> ('w, 'o) event_io \<Rightarrow> (pyval \<Rightarrow> int option) \<Rightarrow> builder_attribution option \<Rightarrow> perps_order_request \<Rightarrow>
     trigger option \<Rightarrow> trigger option \<Rightarrow> time_input \<Rightarrow> ('w, 'o order_placement) eff" where
  "place_order io ev lax_int builder request take_profit stop_loss expires_at =
     (if \<not> order_trigger_ok take_profit False then failS UserInputError
      else if \<not> order_trigger_ok stop_loss True then failS UserInputError
      else
        bindS (case pr_client_order_id request of
            PNone \<Rightarrow> bindS (tio_token io) (\<lambda>token w.
              (check_order_request (tio_now_ms io w) (request\<lparr>pr_client_order_id := PStr token\<rparr>), w))
          | _ \<Rightarrow> pureS request) (\<lambda>request.
        let client_order_id = (case pr_client_order_id request of PStr s \<Rightarrow> s | _ \<Rightarrow> []);
            exit_buy = (pr_side request = PStr ''SELL'') in
        (\<lambda>w. bindS (liftS (to_raw_order (tio_now_ms io w) request builder)) (\<lambda>row.
          if take_profit = None \<and> stop_loss = None then
            bindS (place_orders_and_wait_for_update io ev lax_int [row] client_order_id None expires_at) (\<lambda>(_, order).
            pureS \<lparr>op_order = order, op_take_profit = None, op_stop_loss = None\<rparr>)
          else
            bindS (liftS (to_decimal_string (pr_quantity request))) (\<lambda>quantity.
            bindS (liftS (optional_row exit_buy (pr_instrument_id request) ''tp'' quantity builder take_profit)) (\<lambda>tp_rows.
            bindS (liftS (optional_row exit_buy (pr_instrument_id request) ''sl'' quantity builder stop_loss)) (\<lambda>sl_rows.
            bindS (place_orders_and_wait_for_update io ev lax_int ([row] @ tp_rows @ sl_rows) client_order_id (Some ''order'') expires_at)
              (\<lambda>(placed, order).
            bindS (liftS (trigger_orders placed 1 (take_profit \<noteq> None) (stop_loss \<noteq> None))) (\<lambda>(tp, sl).
            pureS \<lparr>op_order = order, op_take_profit = tp, op_stop_loss = sl\<rparr>)))))) w)))"

text \<open>A position of the portfolio: its instrument and its signed size.\<close>

definition position_exit_buy :: "('w, (pyval \<times> decimal) list) eff \<Rightarrow> pyval \<Rightarrow> ('w, bool) eff" where
  "position_exit_buy fetch_positions instrument_id =
     bindS fetch_positions (\<lambda>positions.
     case find (\<lambda>(i, _). i = instrument_id) positions of
       None \<Rightarrow> failS UserInputError
     | Some (_, Dec c _) \<Rightarrow> if c = 0 then failS UserInputError else pureS (c < 0)
     | Some (_, DInf negative) \<Rightarrow> pureS negative
     | Some (_, DNaN _) \<Rightarrow> failS InvalidOperation)"

definition position_quantity :: "trigger \<Rightarrow> pyval" where
  "position_quantity t =
     (case t of Position_Price p \<Rightarrow> ptt_quantity p | Position_Trailing p \<Rightarrow> pts_quantity p | _ \<Rightarrow> PNone)"

definition position_row ::
  "bool \<Rightarrow> pyval \<Rightarrow> string \<Rightarrow> builder_attribution option \<Rightarrow> trigger option \<Rightarrow> pyval list list res" where
  "position_row buy instrument_id kind builder trigger =
     (case trigger of
        None \<Rightarrow> Ok []
      | Some t \<Rightarrow>
          bindE (if position_quantity t = PNone then Ok ''0'' else to_position_tp_sl_quantity (position_quantity t)) (\<lambda>quantity.
          map_ok (\<lambda>row. [row]) (to_raw_tp_sl_order buy instrument_id kind quantity t builder)))"

definition position_trigger_ok :: "trigger option \<Rightarrow> bool \<Rightarrow> bool" where
  "position_trigger_ok trigger trailing =
     (case trigger of None \<Rightarrow> True | Some (Position_Price _) \<Rightarrow> True | Some (Position_Trailing _) \<Rightarrow> trailing | _ \<Rightarrow> False)"

definition place_position_tp_sl ::
  "'w trade_io \<Rightarrow> ('w, (pyval \<times> decimal) list) eff \<Rightarrow> (pyval \<Rightarrow> int option) \<Rightarrow> builder_attribution option \<Rightarrow> pyval \<Rightarrow>
     trigger option \<Rightarrow> trigger option \<Rightarrow> time_input \<Rightarrow> ('w, int option option \<times> int option option) eff" where
  "place_position_tp_sl io fetch_positions lax_int builder instrument_id take_profit stop_loss expires_at =
     (if take_profit = None \<and> stop_loss = None then failS UserInputError
      else if \<not> position_trigger_ok take_profit False then failS UserInputError
      else if \<not> position_trigger_ok stop_loss True then failS UserInputError
      else
        bindS (position_exit_buy fetch_positions instrument_id) (\<lambda>exit_buy.
        bindS (liftS (position_row exit_buy instrument_id ''tp'' builder take_profit)) (\<lambda>tp_rows.
        bindS (liftS (position_row exit_buy instrument_id ''sl'' builder stop_loss)) (\<lambda>sl_rows.
        bindS (send_create_orders io lax_int (tp_rows @ sl_rows) (Some ''position'') expires_at) (\<lambda>acks.
        bindS (liftS (traverseE expect_ok_ack acks)) (\<lambda>placed.
        liftS (trigger_orders placed 0 (take_profit \<noteq> None) (stop_loss \<noteq> None))))))))"

section \<open>Leverage, margin and automatic cancelling\<close>

datatype leverage_result = Leverage_Set int int bool | Leverage_Rejected int string

definition u32_at_least :: "int \<Rightarrow> pyval \<Rightarrow> int res" where
  "u32_at_least lo v = (case v of PInt n \<Rightarrow> if lo \<le> n \<and> n \<le> max_u32 then Ok n else Raise ValueError | _ \<Rightarrow> Raise ValueError)"

definition parse_leverage_entry :: "pyval \<Rightarrow> leverage_result res" where
  "parse_leverage_entry v =
     (case v of
        PDict wire \<Rightarrow>
          bindE (u32_at_least 0 (dict_get ''instrument_id'' wire)) (\<lambda>instrument_id.
          if dict_get ''status'' wire = PStr ''ok'' then
            bindE (u32_at_least 1 (dict_get ''leverage'' wire)) (\<lambda>leverage.
            case dict_get ''cross'' wire of
              PBool cross \<Rightarrow> Ok (Leverage_Set instrument_id leverage cross)
            | _ \<Rightarrow> Raise ValueError)
          else if dict_get ''status'' wire = PStr ''err'' then
            (case dict_get ''error'' wire of
               PStr t \<Rightarrow> if t \<noteq> [] then Ok (Leverage_Rejected instrument_id t) else Raise UnexpectedResponseError
             | _ \<Rightarrow> Raise UnexpectedResponseError)
          else Raise ValueError)
      | _ \<Rightarrow> Raise ValueError)"

definition result_instrument :: "leverage_result \<Rightarrow> int" where
  "result_instrument r = (case r of Leverage_Set i _ _ \<Rightarrow> i | Leverage_Rejected i _ \<Rightarrow> i)"

definition whole_request_rejected :: "pyval \<Rightarrow> bool" where
  "whole_request_rejected first =
     (case first of PDict d \<Rightarrow> dict_get ''status'' d = PStr ''err'' \<and> map_of d ''instrument_id'' = None | _ \<Rightarrow> False)"

definition parse_batch_leverage_results :: "int list \<Rightarrow> pyval \<Rightarrow> leverage_result list res" where
  "parse_batch_leverage_results expected_instrument_ids data =
     (case data of
        PList (first # rest) \<Rightarrow>
          if whole_request_rejected first then
            Raise (RequestRejectedError 200 (case error_ack first of Some t \<Rightarrow> t | None \<Rightarrow> ''Perps batch leverage request was rejected.'') None None)
          else if length (first # rest) \<noteq> length expected_instrument_ids then Raise ValueError
          else
            bindE (traverseE parse_leverage_entry (first # rest)) (\<lambda>results.
            if map result_instrument results \<noteq> expected_instrument_ids then Raise ValueError else Ok results)
      | _ \<Rightarrow> Raise ValueError)"

definition update_leverages :: "'w trade_io \<Rightarrow> leverage_update list \<Rightarrow> ('w, leverage_result list) eff" where
  "update_leverages io updates =
     bindS (liftS (update_leverages_op updates)) (\<lambda>op.
     send_signed_command io
       (parse_batch_leverage_results (map (\<lambda>u. case lu_instrument_id u of PInt n \<Rightarrow> n | _ \<Rightarrow> 0) updates)) (Plain PNone) op)"

text \<open>The answer to a single update, whose integers and booleans pydantic reads leniently.\<close>

definition parse_update_leverage :: "(pyval \<Rightarrow> int option) \<Rightarrow> (pyval \<Rightarrow> bool option) \<Rightarrow> pyval \<Rightarrow> leverage_result res" where
  "parse_update_leverage lax_int lax_bool data =
     (case data of
        PDict d \<Rightarrow>
          if dict_get ''status'' d \<noteq> PStr ''ok'' then Raise UnexpectedResponseError
          else
            (case (lax_int (dict_get ''instrument_id'' d), lax_int (dict_get ''leverage'' d),
                lax_bool (field_of [''cross'', ''cross_margin''] d)) of
               (Some instrument_id, Some leverage, Some cross) \<Rightarrow> Ok (Leverage_Set instrument_id leverage cross)
             | _ \<Rightarrow> Raise UnexpectedResponseError)
      | _ \<Rightarrow> Raise UnexpectedResponseError)"

definition update_leverage ::
  "'w trade_io \<Rightarrow> (pyval \<Rightarrow> int option) \<Rightarrow> (pyval \<Rightarrow> bool option) \<Rightarrow> pyval \<Rightarrow> pyval \<Rightarrow> pyval \<Rightarrow> ('w, leverage_result) eff" where
  "update_leverage io lax_int lax_bool instrument_id leverage cross_margin =
     bindS (liftS (update_leverage_op instrument_id leverage cross_margin)) (\<lambda>op.
     send_signed_command io (parse_update_leverage lax_int lax_bool) (Plain PNone) op)"

definition update_margin :: "'w trade_io \<Rightarrow> pyval \<Rightarrow> pyval \<Rightarrow> ('w, unit) eff" where
  "update_margin io instrument_id amount =
     bindS (liftS (update_margin_op instrument_id amount)) (\<lambda>op.
     send_signed_command io parse_session_ack (Plain PNone) op)"

text \<open>Commands over HTTP. The response is accepted when its status is ok.\<close>

definition send_http_command ::
  "'w trade_io \<Rightarrow> string \<Rightarrow> string \<Rightarrow> time_input \<Rightarrow> pyval list \<Rightarrow> ('w, pyval) eff" where
  "send_http_command io method path expires_at op =
     bindS (create_signed_command io op expires_at) (\<lambda>command.
     bindS (liftS (to_command_body_op op)) (\<lambda>body.
     tio_http io method path (command @ [(''op'', PDict body)])))"

definition parse_accepted :: "pyval \<Rightarrow> unit res" where
  "parse_accepted data =
     (case data of PDict d \<Rightarrow> if dict_get ''status'' d = PStr ''ok'' then Ok () else Raise UnexpectedResponseError
      | _ \<Rightarrow> Raise UnexpectedResponseError)"

definition cancel_all_orders :: "'w trade_io \<Rightarrow> pyval \<Rightarrow> time_input \<Rightarrow> ('w, unit) eff" where
  "cancel_all_orders io instrument_id expires_at =
     bindS (liftS (cancel_all_orders_op instrument_id)) (\<lambda>op.
     bindS (send_http_command io ''DELETE'' ''/v1/trade/orders/all'' expires_at op) (\<lambda>response. liftS (parse_accepted response)))"

definition MIN_AUTO_CANCEL_BUFFER_MS :: int where "MIN_AUTO_CANCEL_BUFFER_MS = 5000"

text \<open>\<open>parse_deadline\<close> is what the model of the response makes of its deadline.\<close>

definition parse_auto_cancel_response :: "(pyval \<Rightarrow> unit res) \<Rightarrow> pyval \<Rightarrow> unit res" where
  "parse_auto_cancel_response parse_deadline data =
     bindE (parse_accepted data) (\<lambda>_.
     case data of
       PDict d \<Rightarrow> (case map_of d ''deadline'' of None \<Rightarrow> Raise UnexpectedResponseError | Some v \<Rightarrow> parse_deadline v)
     | _ \<Rightarrow> Raise UnexpectedResponseError)"

definition arm_auto_cancel :: "'w trade_io \<Rightarrow> (pyval \<Rightarrow> unit res) \<Rightarrow> time_input \<Rightarrow> time_input \<Rightarrow> ('w, unit) eff" where
  "arm_auto_cancel io parse_deadline cancel_at expires_at =
     bindS (liftS (to_epoch_ms cancel_at)) (\<lambda>cancel_at_ms w.
       case cancel_at_ms of
         None \<Rightarrow> (Raise UserInputError, w)
       | Some ms \<Rightarrow>
           if ms < tio_now_ms io w + MIN_AUTO_CANCEL_BUFFER_MS then (Raise UserInputError, w)
           else
             bindS (liftS (auto_cancel_op (PInt ms))) (\<lambda>op.
             bindS (tryS (send_http_command io ''PATCH'' ''/v1/trade/auto-cancel'' expires_at op) (\<lambda>error.
               case rejection error of
                 Some (status, message) \<Rightarrow>
                   if message = ''auto_cancel_daily_limit_reached'' then failS (AutoCancelDailyLimitError status) else failS error
               | None \<Rightarrow> failS error)) (\<lambda>response.
             liftS (parse_auto_cancel_response parse_deadline response))) w)"

definition disarm_auto_cancel :: "'w trade_io \<Rightarrow> (pyval \<Rightarrow> unit res) \<Rightarrow> time_input \<Rightarrow> ('w, unit) eff" where
  "disarm_auto_cancel io parse_deadline expires_at =
     bindS (liftS (auto_cancel_op (PInt 0))) (\<lambda>op.
     bindS (send_http_command io ''PATCH'' ''/v1/trade/auto-cancel'' expires_at op) (\<lambda>response.
     liftS (parse_auto_cancel_response parse_deadline response)))"

text \<open>A batch of leverages is answered in the order of the request, one result per instrument.\<close>

lemma batch_leverage_aligned:
  assumes "parse_batch_leverage_results ids data = Ok results"
  shows "map result_instrument results = ids" "ids \<noteq> []"
  using assms
  by (auto simp: parse_batch_leverage_results_def split: pyval.splits list.splits if_splits)

section \<open>Triggers close positions\<close>

text \<open>What a row of an order asks for: a trigger leaves for the other side, only reduces, and names no client order.\<close>

definition closing_row :: "bool \<Rightarrow> pyval \<Rightarrow> pyval list \<Rightarrow> bool" where
  "closing_row buy instrument_id row \<longleftrightarrow>
     entry row 0 = instrument_id \<and> entry row 1 = PBool buy \<and> entry row 5 = PBool False \<and> entry row 6 = PBool True
   \<and> entry row 7 = PNone \<and> (\<exists>tr. entry row 8 = PList tr)"

lemma closing_trigger: "to_raw_tp_sl_order buy i kind q t builder = Ok row \<Longrightarrow> closing_row buy i row"
  by (auto simp: to_raw_tp_sl_order_def closing_row_def entry_def split: trigger.splits option.splits prod.splits)

lemma create_orders_body:
  "to_command_body_op (create_orders_op rows (Some scope)) = Ok [(''type'', PStr ''createOrders''),
     (''args'', PList (map to_order_body rows)), (''grp'', PStr scope)]"
  by (simp add: to_command_body_op_def create_orders_op_def entry_def row_of_def comp_def)

lemma signed_command_logged:
  assumes "send_signed_command (logging_trade io) parse expires_at op v = (r, v')" "to_command_body_op op = Ok body"
  shows "snd v' = snd v \<or> (\<exists>frame m. snd v' = snd v @ [(frame, m)] \<and> dict_get ''op'' frame = PDict body)"
proof -
  obtain c v1 where c: "create_signed_command (logging_trade io) op expires_at v = (c, v1)" by (meson surj_pair)
  have v1: "snd v1 = snd v" using quiet_command(1) [OF c] .
  show ?thesis
  proof (cases c)
    case Inl
    then show ?thesis using assms(1) c v1 by (auto simp: send_signed_command_def bindS_def)
  next
    case (Inr command)
    let ?frame = "[(''req'', PStr ''post''), (''op'', PDict body)] @ command"
    obtain m w1 where m: "tio_request io ?frame (fst v1) = (m, w1)" by fastforce
    have "tio_request (logging_trade io) ?frame v1 = (m, (w1, snd v1 @ [(?frame, m)]))"
      using m by (cases v1) (simp add: logging_trade_def)
    then have "snd v' = snd v @ [(?frame, m)]"
      using assms c Inr v1 by (cases m; simp add: send_signed_command_def bindS_def liftS_def)
        (auto split: prod.splits sum.splits)
    then show ?thesis by (auto simp: dict_get_def)
  qed
qed

definition negative_size :: "decimal \<Rightarrow> bool" where
  "negative_size x = (case x of Dec c _ \<Rightarrow> c < 0 | DInf negative \<Rightarrow> negative | DNaN _ \<Rightarrow> False)"

lemma find_first: "find (\<lambda>(j, _). j = i) xs = Some p \<Longrightarrow> fst p = i"
  by (induction xs) (auto split: if_splits)

lemma exit_side:
  assumes "position_exit_buy (beside fetch) i (w, posted) = (r, v')"
  shows "snd v' = posted" "r = Ok buy \<Longrightarrow>
    \<exists>positions size. fst (fetch w) = Ok positions \<and> find (\<lambda>(j, _). j = i) positions = Some (i, size) \<and> buy = negative_size size"
proof -
  show "snd v' = posted" using assms
    by (auto simp: position_exit_buy_def bindS_def beside_def split: prod.splits sum.splits option.splits decimal.splits if_splits)
  assume "r = Ok buy"
  then obtain positions p where "fst (fetch w) = Ok positions" "find (\<lambda>(j, _). j = i) positions = Some p" "buy = negative_size (snd p)"
    using assms by (auto simp: position_exit_buy_def bindS_def beside_def negative_size_def
        split: prod.splits sum.splits option.splits decimal.splits if_splits)
  moreover from this(2) have "fst p = i" by (rule find_first)
  ultimately show "\<exists>positions size. fst (fetch w) = Ok positions \<and> find (\<lambda>(j, _). j = i) positions = Some (i, size)
      \<and> buy = negative_size size" by (metis prod.collapse)
qed

lemma position_row_closes:
  assumes "position_row buy i kind builder trigger = Ok rows" "row \<in> set rows"
  shows "closing_row buy i row"
  using assms closing_trigger by (auto simp: position_row_def split: option.splits if_splits)

text \<open>C25: Protecting a position sends at most one command, and that command can only close the position: it belongs to
  the scope of the position, and each of its orders is a trigger on the instrument, on the side opposite to the
  open position that the portfolio showed, marked to reduce only.\<close>

theorem position_triggers_close:
  assumes "place_position_tp_sl (logging_trade io) (beside fetch) lax_int builder i take_profit stop_loss expires_at (w, [])
    = (r, (w', posted))"
  shows "length posted \<le> 1 \<and> (\<forall>(frame, m)\<in>set posted. \<exists>positions size rows.
      fst (fetch w) = Ok positions \<and> find (\<lambda>(j, _). j = i) positions = Some (i, size)
    \<and> (\<forall>row\<in>set rows. closing_row (negative_size size) i row)
    \<and> dict_get ''op'' frame = PDict [(''type'', PStr ''createOrders''), (''args'', PList (map to_order_body rows)),
        (''grp'', PStr ''position'')])"
proof (cases "posted = []")
  case False
  let ?io = "logging_trade io"
  obtain b v1 where e: "position_exit_buy (beside fetch) i (w, [] :: request_log) = (b, v1)" by (meson surj_pair)
  have v1: "snd v1 = []" using exit_side(1) [OF e] .
  obtain buy tp sl acks v2 where b: "b = Ok buy" and tp: "position_row buy i ''tp'' builder take_profit = Ok tp"
    and sl: "position_row buy i ''sl'' builder stop_loss = Ok sl"
    and sent: "send_create_orders ?io lax_int (tp @ sl) (Some ''position'') expires_at v1 = (acks, v2)" and v2: "snd v2 = posted"
    using assms False e v1
    by (auto simp: place_position_tp_sl_def bindS_def liftS_def split: if_splits sum.splits prod.splits)
  obtain r1 v3 where c: "send_signed_command ?io (parse_post_order_acks lax_int) expires_at
      (create_orders_op (tp @ sl) (Some ''position'')) v1 = (r1, v3)" by (meson surj_pair)
  have "v2 = v3" using sent c by (auto simp: send_create_orders_def bindS_def split: sum.splits if_splits)
  then obtain frame m where posted: "posted = [(frame, m)]" and frame: "dict_get ''op'' frame
      = PDict [(''type'', PStr ''createOrders''), (''args'', PList (map to_order_body (tp @ sl))), (''grp'', PStr ''position'')]"
    using signed_command_logged [OF c create_orders_body] v1 v2 False by auto
  obtain positions size where side: "fst (fetch w) = Ok positions" "find (\<lambda>(j, _). j = i) positions = Some (i, size)"
    "buy = negative_size size" using exit_side(2) [OF e b] by blast
  have "\<forall>row\<in>set (tp @ sl). closing_row (negative_size size) i row"
    using position_row_closes tp sl side(3) by auto
  with side(1,2) frame have "\<exists>positions size rows. fst (fetch w) = Ok positions \<and> find (\<lambda>(j, _). j = i) positions = Some (i, size)
    \<and> (\<forall>row\<in>set rows. closing_row (negative_size size) i row)
    \<and> dict_get ''op'' frame = PDict [(''type'', PStr ''createOrders''), (''args'', PList (map to_order_body rows)),
        (''grp'', PStr ''position'')]"
    by - (rule exI [of _ positions], rule exI [of _ size], rule exI [of _ "tp @ sl"], intro conjI)
  then show ?thesis by (simp add: posted)
qed simp

definition sample_fills :: "nat trade_io" where
  "sample_fills = sample_trade\<lparr>tio_request := \<lambda>_ n. (Ok [(''data'', PList [PDict [(''status'', PStr ''ok''), (''oid'', PInt 9)]])], n + 1)\<rparr>"

lemma sole_pair: "length xs = 1 \<Longrightarrow> \<exists>a b. xs = [(a, b)]"
  by (cases xs) auto

lemma position_triggers_close_witness:
  "\<exists>frame rows. (\<forall>row\<in>set rows. closing_row False (PInt 3) row)
      \<and> dict_get ''op'' frame = PDict [(''type'', PStr ''createOrders''), (''args'', PList (map to_order_body rows)),
          (''grp'', PStr ''position'')]"
proof -
  obtain r w posted where run: "place_position_tp_sl (logging_trade sample_fills) (beside (pureS [(PInt 3, Dec 25 (-1))]))
    (\<lambda>v. case v of PInt n \<Rightarrow> Some n | _ \<Rightarrow> None) None (PInt 3) None
    (Some (Position_Price \<lparr>ptt_trigger_price = PStr ''0.5'', ptt_quantity = PNone\<rparr>)) (Plain PNone) (0, []) = (r, (w, posted))"
    using prod_cases3 by blast
  moreover have "length (snd (snd (place_position_tp_sl (logging_trade sample_fills) (beside (pureS [(PInt 3, Dec 25 (-1))]))
    (\<lambda>v. case v of PInt n \<Rightarrow> Some n | _ \<Rightarrow> None) None (PInt 3) None
    (Some (Position_Price \<lparr>ptt_trigger_price = PStr ''0.5'', ptt_quantity = PNone\<rparr>)) (Plain PNone) (0, [])))) = 1"
    by code_simp
  ultimately have "length posted = 1" by simp
  then obtain frame m where "posted = [(frame, m)]" using sole_pair by blast
  with position_triggers_close [OF run] obtain positions size rows where
    side: "fst (pureS [(PInt 3, Dec 25 (-1))] (0::nat)) = Ok positions" "find (\<lambda>(j, _). j = PInt 3) positions = Some (PInt 3, size)"
    and rest: "\<forall>row\<in>set rows. closing_row (negative_size size) (PInt 3) row"
      "dict_get ''op'' frame = PDict [(''type'', PStr ''createOrders''), (''args'', PList (map to_order_body rows)),
        (''grp'', PStr ''position'')]" by auto
  have "size = Dec 25 (-1)" using side by (auto simp: pureS_def)
  then have "negative_size size = False" by (simp add: negative_size_def)
  with rest show ?thesis by auto
qed

end
