(* ===== verification/Transport.thy ===== *)
theory Transport imports Json_Rpc begin

text \<open>
  \<open>clients/_transport.py\<close> and \<open>rate_limit.py\<close>: how a request is built, authenticated and sent, and how the
  status and the headers of a response become an exception. What httpx does is a parameter: a client takes a
  request and gives a response, or none for an \<open>httpx.HTTPError\<close>. Floats are the decimals they were read from.
  Timeouts, connection limits and log lines are left out. The synchronous and the asynchronous transport differ
  only in their waits.
\<close>

section \<open>Floating point numbers in headers\<close>

text \<open>Underscores stand between digits only.\<close>

fun underscores_ok :: "bool \<Rightarrow> string \<Rightarrow> bool" where
  "underscores_ok after_digit [] = True"
| "underscores_ok after_digit [c] = (c \<noteq> CHR ''_'')"
| "underscores_ok after_digit (c # d # cs) =
     (if c = CHR ''_'' then after_digit \<and> is_digit d \<and> underscores_ok False (d # cs)
      else underscores_ok (is_digit c) (d # cs))"

text \<open>Magnitudes from \<open>2 ^ 1024 - 2 ^ 970\<close> round to infinity.\<close>

definition float_overflows :: "int \<Rightarrow> int \<Rightarrow> bool" where
  "float_overflows c e =
     (c \<noteq> 0 \<and> (400 < ndigits \<bar>c\<bar> + e \<or> 0 < ndigits \<bar>c\<bar> + e \<and>
        (if 0 \<le> e then 2 ^ 1024 - 2 ^ 970 \<le> \<bar>c\<bar> * 10 ^ nat e else (2 ^ 1024 - 2 ^ 970) * 10 ^ nat (- e) \<le> \<bar>c\<bar>)))"

definition as_float :: "decimal \<Rightarrow> decimal" where
  "as_float x = (case x of Dec c e \<Rightarrow> if float_overflows c e then DInf (c < 0) else x | _ \<Rightarrow> x)"

text \<open>\<open>float(text)\<close>; \<open>None\<close> is the ValueError.\<close>

definition py_float :: "string \<Rightarrow> decimal option" where
  "py_float text =
     (let s = strip text in
      if \<not> underscores_ok False s then None
      else case parse_decimal s of
          Some (DNaN _) \<Rightarrow>
            if lower s \<in> {''nan'', ''+nan'', ''-nan''} then Some (DNaN False) else None
        | Some x \<Rightarrow> Some (as_float x)
        | None \<Rightarrow> None)"

definition nonnegative_seconds :: "decimal \<Rightarrow> decimal option" where
  "nonnegative_seconds x = (case x of Dec c _ \<Rightarrow> if 0 \<le> c then Some x else None | _ \<Rightarrow> None)"

section \<open>Dates\<close>

definition is_leap :: "int \<Rightarrow> bool" where
  "is_leap y = (y mod 4 = 0 \<and> (y mod 100 \<noteq> 0 \<or> y mod 400 = 0))"

definition days_in_month :: "int \<Rightarrow> int \<Rightarrow> int" where
  "days_in_month y m = (if m = 2 then (if is_leap y then 29 else 28) else if m \<in> {4, 6, 9, 11} then 30 else 31)"

definition days_before_year :: "int \<Rightarrow> int" where
  "days_before_year y = (y - 1) * 365 + (y - 1) div 4 - (y - 1) div 100 + (y - 1) div 400"

definition days_before_month :: "int \<Rightarrow> int \<Rightarrow> int" where
  "days_before_month y m = (\<Sum>k \<leftarrow> upto 1 (m - 1). days_in_month y k)"

text \<open>\<open>datetime(year, month, day, hour, minute, second, tzinfo=UTC).timestamp()\<close>; \<open>None\<close> is the ValueError.\<close>

definition utc_timestamp :: "int \<Rightarrow> int \<Rightarrow> int \<Rightarrow> int \<Rightarrow> int \<Rightarrow> int \<Rightarrow> int option" where
  "utc_timestamp year month day hour minute second =
     (if 1 \<le> year \<and> year \<le> 9999 \<and> 1 \<le> month \<and> month \<le> 12 \<and> 1 \<le> day \<and> day \<le> days_in_month year month
         \<and> 0 \<le> hour \<and> hour < 24 \<and> 0 \<le> minute \<and> minute < 60 \<and> 0 \<le> second \<and> second < 60
      then Some ((days_before_year year + days_before_month year month + day - 719163) * 86400
        + hour * 3600 + minute * 60 + second)
      else None)"

text \<open>
  \<open>datetime.fromtimestamp(now, UTC).year\<close>: the time is rounded to microseconds, and the estimate of the year from
  the days is off by one at most.
\<close>

definition year_of_day :: "int \<Rightarrow> int" where
  "year_of_day day =
     (let y = (day * 400) div 146097 + 1
      in if days_before_year (y + 1) < day then y + 1 else if day \<le> days_before_year y then y - 1 else y)"

definition utc_year :: "rat \<Rightarrow> int" where
  "utc_year now =
     (let (n, d) = quotient_of now; us = round_div ROUND_HALF_EVEN (n * 1000000) d
      in year_of_day (us div 86400000000 + 719163))"

definition HTTP_DATE_MONTHS :: "string list" where
  "HTTP_DATE_MONTHS = [''Jan'', ''Feb'', ''Mar'', ''Apr'', ''May'', ''Jun'', ''Jul'', ''Aug'', ''Sep'', ''Oct'', ''Nov'', ''Dec'']"

definition SHORT_DAYS :: "string list" where
  "SHORT_DAYS = [''Mon'', ''Tue'', ''Wed'', ''Thu'', ''Fri'', ''Sat'', ''Sun'']"

definition LONG_DAYS :: "string list" where
  "LONG_DAYS = [''Monday'', ''Tuesday'', ''Wednesday'', ''Thursday'', ''Friday'', ''Saturday'', ''Sunday'']"

definition FIFTY_YEARS_S :: int where "FIFTY_YEARS_S = 1577880000"

text \<open>The pieces of the patterns: a fixed text, one of some words, a number of \<open>n\<close> digits.\<close>

definition literal :: "string \<Rightarrow> string \<Rightarrow> string option" where
  "literal p s = (if starts_with p s then Some (drop (length p) s) else None)"

definition one_of :: "string list \<Rightarrow> string \<Rightarrow> (string \<times> string) option" where
  "one_of ws s = (case find (\<lambda>w. starts_with w s) ws of Some w \<Rightarrow> Some (w, drop (length w) s) | None \<Rightarrow> None)"

definition number_of :: "nat \<Rightarrow> string \<Rightarrow> (int \<times> string) option" where
  "number_of n s =
     (if n \<le> length s \<and> list_all is_digit (take n s) then Some (digits_int 0 (take n s), drop n s) else None)"

definition month_of :: "string \<Rightarrow> int" where
  "month_of w = (case find (\<lambda>(m, _). m = w) (zip HTTP_DATE_MONTHS (upto 1 12)) of Some (_, i) \<Rightarrow> i | None \<Rightarrow> 0)"

record http_date =
  hd_year :: int
  hd_short_year :: bool
  hd_month :: int
  hd_day :: int
  hd_hour :: int
  hd_minute :: int
  hd_second :: int

definition match_time :: "string \<Rightarrow> ((int \<times> int \<times> int) \<times> string) option" where
  "match_time s =
     Option.bind (number_of 2 s) (\<lambda>(h, s).
     Option.bind (literal '':'' s) (\<lambda>s.
     Option.bind (number_of 2 s) (\<lambda>(m, s).
     Option.bind (literal '':'' s) (\<lambda>s.
     Option.bind (number_of 2 s) (\<lambda>(t, s).
     Some ((h, m, t), s))))))"

definition match_imf_date :: "string \<Rightarrow> http_date option" where
  "match_imf_date s =
     Option.bind (one_of SHORT_DAYS s) (\<lambda>(_, s).
     Option.bind (literal '', '' s) (\<lambda>s.
     Option.bind (number_of 2 s) (\<lambda>(d, s).
     Option.bind (literal '' '' s) (\<lambda>s.
     Option.bind (one_of HTTP_DATE_MONTHS s) (\<lambda>(m, s).
     Option.bind (literal '' '' s) (\<lambda>s.
     Option.bind (number_of 4 s) (\<lambda>(y, s).
     Option.bind (literal '' '' s) (\<lambda>s.
     Option.bind (match_time s) (\<lambda>((h, mi, t), s).
     if s = '' GMT'' then Some \<lparr>hd_year = y, hd_short_year = False, hd_month = month_of m, hd_day = d,
       hd_hour = h, hd_minute = mi, hd_second = t\<rparr> else None)))))))))"

definition match_rfc850_date :: "string \<Rightarrow> http_date option" where
  "match_rfc850_date s =
     Option.bind (one_of LONG_DAYS s) (\<lambda>(_, s).
     Option.bind (literal '', '' s) (\<lambda>s.
     Option.bind (number_of 2 s) (\<lambda>(d, s).
     Option.bind (literal ''-'' s) (\<lambda>s.
     Option.bind (one_of HTTP_DATE_MONTHS s) (\<lambda>(m, s).
     Option.bind (literal ''-'' s) (\<lambda>s.
     Option.bind (number_of 2 s) (\<lambda>(y, s).
     Option.bind (literal '' '' s) (\<lambda>s.
     Option.bind (match_time s) (\<lambda>((h, mi, t), s).
     if s = '' GMT'' then Some \<lparr>hd_year = y, hd_short_year = True, hd_month = month_of m, hd_day = d,
       hd_hour = h, hd_minute = mi, hd_second = t\<rparr> else None)))))))))"

definition match_asctime_day :: "string \<Rightarrow> (int \<times> string) option" where
  "match_asctime_day s =
     (case Option.bind (literal '' '' s) (number_of 1) of Some r \<Rightarrow> Some r | None \<Rightarrow> number_of 2 s)"

definition match_asctime_date :: "string \<Rightarrow> http_date option" where
  "match_asctime_date s =
     Option.bind (one_of SHORT_DAYS s) (\<lambda>(_, s).
     Option.bind (literal '' '' s) (\<lambda>s.
     Option.bind (one_of HTTP_DATE_MONTHS s) (\<lambda>(m, s).
     Option.bind (literal '' '' s) (\<lambda>s.
     Option.bind (match_asctime_day s) (\<lambda>(d, s).
     Option.bind (literal '' '' s) (\<lambda>s.
     Option.bind (match_time s) (\<lambda>((h, mi, t), s).
     Option.bind (literal '' '' s) (\<lambda>s.
     Option.bind (number_of 4 s) (\<lambda>(y, s).
     if s = [] then Some \<lparr>hd_year = y, hd_short_year = False, hd_month = month_of m, hd_day = d,
       hd_hour = h, hd_minute = mi, hd_second = t\<rparr> else None)))))))))"

definition match_http_date :: "string \<Rightarrow> http_date option" where
  "match_http_date s =
     (case match_imf_date s of Some x \<Rightarrow> Some x | None \<Rightarrow>
        (case match_rfc850_date s of Some x \<Rightarrow> Some x | None \<Rightarrow> match_asctime_date s))"

text \<open>A text that ends in a newline would match \<open>$\<close> too; the callers strip it first.\<close>

definition http_date_timestamp :: "http_date \<Rightarrow> int \<Rightarrow> int option" where
  "http_date_timestamp x year = utc_timestamp year (hd_month x) (hd_day x) (hd_hour x) (hd_minute x) (hd_second x)"

definition parse_http_date :: "string \<Rightarrow> rat \<Rightarrow> int option" where
  "parse_http_date value now =
     Option.bind (match_http_date value) (\<lambda>x.
     if hd_short_year x then
       let year = hd_year x + utc_year now div 100 * 100 in
       Option.bind (http_date_timestamp x year) (\<lambda>deadline.
       http_date_timestamp x (if of_int FIFTY_YEARS_S < of_int deadline - now then year - 100 else year))
     else http_date_timestamp x (hd_year x))"

definition parse_retry_after_header :: "string \<Rightarrow> rat \<Rightarrow> decimal option" where
  "parse_retry_after_header header now =
     (case py_float (strip header) of
        Some seconds \<Rightarrow> nonnegative_seconds seconds
      | None \<Rightarrow> map_option (\<lambda>deadline. dec_of_int (max 0 \<lceil>of_int deadline - now\<rceil>)) (parse_http_date (strip header) now))"

section \<open>Responses\<close>

text \<open>A response of httpx: \<open>hr_json\<close> is None where \<open>json()\<close> raises a ValueError.\<close>

record http_response =
  hr_status :: int
  hr_headers :: "(string \<times> string) list"
  hr_url :: string
  hr_text :: string
  hr_json :: "pyval option"
  hr_content :: "byte list"

text \<open>\<open>headers.get(name)\<close>: names are compared without case and repeated headers are joined.\<close>

definition header :: "http_response \<Rightarrow> string \<Rightarrow> string option" where
  "header r name =
     (case map snd (filter (\<lambda>(k, _). lower k = lower name) (hr_headers r)) of [] \<Rightarrow> None | vs \<Rightarrow> Some (comma_list vs))"

definition header_or_empty :: "http_response \<Rightarrow> string \<Rightarrow> string" where
  "header_or_empty r name = (case header r name of Some v \<Rightarrow> v | None \<Rightarrow> [])"

definition is_json_response :: "http_response \<Rightarrow> bool" where
  "is_json_response r = contains ''application/json'' (lower (header_or_empty r ''content-type''))"

text \<open>\<open>response.json().get(key)\<close> inside \<open>try ... except (AttributeError, ValueError)\<close>\<close>

definition json_field :: "http_response \<Rightarrow> string \<Rightarrow> pyval" where
  "json_field r key = (case hr_json r of Some (PDict d) \<Rightarrow> dict_get key d | _ \<Rightarrow> PNone)"

record rate_limit_update =
  ru_remaining :: "decimal option"
  ru_reset :: "decimal option"
  ru_tier :: "string option"
  ru_warning :: bool

definition parse_numeric_header :: "string option \<Rightarrow> decimal option" where
  "parse_numeric_header v =
     (case v of None \<Rightarrow> None
      | Some t \<Rightarrow> (case py_float (strip t) of Some x \<Rightarrow> if is_finite x then Some x else None | None \<Rightarrow> None))"

definition parse_text_header :: "string option \<Rightarrow> string option" where
  "parse_text_header v = (case v of None \<Rightarrow> None | Some t \<Rightarrow> if strip t = [] then None else Some (strip t))"

definition parse_rate_limit_headers :: "http_response \<Rightarrow> rate_limit_update option" where
  "parse_rate_limit_headers r =
     (let remaining = parse_numeric_header (header r ''Poly-RateLimit-Remaining'');
          reset = parse_numeric_header (header r ''Poly-RateLimit-Reset'');
          tier = parse_text_header (header r ''Poly-RateLimit-Tier'');
          warning = (case parse_text_header (header r ''Poly-RateLimit-Warning'') of Some t \<Rightarrow> lower t = ''true'' | None \<Rightarrow> False)
      in if remaining = None \<and> reset = None \<and> tier = None \<and> \<not> warning then None
         else Some \<lparr>ru_remaining = remaining, ru_reset = reset, ru_tier = tier, ru_warning = warning\<rparr>)"

definition extract_retry_after :: "http_response \<Rightarrow> rat \<Rightarrow> decimal option" where
  "extract_retry_after r now =
     (case Option.bind (header r ''retry-after'') (\<lambda>h. parse_retry_after_header h now) of
        Some seconds \<Rightarrow> Some seconds
      | None \<Rightarrow>
          if is_json_response r then
            (case json_field r ''retry_after_seconds'' of
               PInt n \<Rightarrow> nonnegative_seconds (as_float (dec_of_int n))
             | PFloat t \<Rightarrow> Option.bind (parse_decimal t) nonnegative_seconds
             | _ \<Rightarrow> None)
          else None)"

datatype trading_restriction = Restarting | Post_Only | Cancel_Only

definition detect_trading_restriction :: "http_response \<Rightarrow> trading_restriction option" where
  "detect_trading_restriction r =
     (if hr_status r = 425 then Some Restarting
      else if hr_status r \<noteq> 503 then None
      else if \<not> is_json_response r then None
      else if json_field r ''code'' = PStr ''post_only_mode'' then Some Post_Only
      else case json_field r ''error'' of
          PStr t \<Rightarrow> if contains ''cancel-only'' t then Some Cancel_Only else None
        | _ \<Rightarrow> None)"

definition extract_response_error_code :: "http_response \<Rightarrow> string option" where
  "extract_response_error_code r =
     (if \<not> is_json_response r then None
      else case json_field r ''code'' of PStr t \<Rightarrow> if t \<noteq> [] then Some t else None | _ \<Rightarrow> None)"

definition extract_response_error_message :: "http_response \<Rightarrow> string" where
  "extract_response_error_message r =
     (let content_type = lower (header_or_empty r ''content-type'');
          error = (if is_json_response r then json_field r ''error'' else PNone);
          start = ''Request to '' @ hr_url r
      in if py_truthy error then py_str error
         else if contains ''text/plain'' content_type \<and> strip (hr_text r) \<noteq> [] then strip (hr_text r)
         else if contains ''cloudflare'' (lower (header_or_empty r ''server'')) then
           start @ '' was blocked by Cloudflare with status '' @ str_int (hr_status r)
         else if contains ''text/html'' content_type \<or> contains ''application/xhtml+xml'' content_type then
           start @ '' failed with status '' @ str_int (hr_status r) @ '' and an unexpected HTML response body''
         else start @ '' failed with status '' @ str_int (hr_status r) @ '' and unreadable response body'')"

text \<open>The exceptions of a request with all their fields; those raised by header resolvers pass unchanged.\<close>

datatype http_error =
    Rate_Limited (he_retry_after: "decimal option") "rate_limit_update option"
  | Heartbeat_Mismatch string
  | Request_Rejected int string "string option" (he_retry_after: "decimal option") "trading_restriction option"
  | Failed py_error

type_synonym 'a http = "http_error + 'a"

text \<open>Routines that raise them.\<close>

type_synonym ('w, 'a) heff = "'w \<Rightarrow> 'a http \<times> 'w"

definition bindH :: "('w, 'a) heff \<Rightarrow> ('a \<Rightarrow> ('w, 'b) heff) \<Rightarrow> ('w, 'b) heff" where
  "bindH m f = (\<lambda>w. case m w of (Inl e, w') \<Rightarrow> (Inl e, w') | (Inr x, w') \<Rightarrow> f x w')"

definition raising :: "('w, 'a) eff \<Rightarrow> ('w, 'a) heff" where
  "raising m = (\<lambda>w. case m w of (Inl e, w') \<Rightarrow> (Inl (Failed e), w') | (Inr x, w') \<Rightarrow> (Inr x, w'))"

lemma bindH_eq_Inr: "bindH m f w = (Inr y, w'') \<longleftrightarrow> (\<exists>x w'. m w = (Inr x, w') \<and> f x w' = (Inr y, w''))"
  by (auto simp: bindH_def split: prod.splits sum.splits)

lemma raising_eq_Inr [simp]: "raising m w = (Inr x, w') \<longleftrightarrow> m w = (Inr x, w')"
  by (auto simp: raising_def split: prod.splits sum.splits)

definition heartbeat_mismatch :: "http_response \<Rightarrow> string option" where
  "heartbeat_mismatch r =
     (case hr_json r of
        Some (PDict d) \<Rightarrow>
          if dict_get ''error_msg'' d = PStr ''Invalid Heartbeat ID'' then
            (case dict_get ''heartbeat_id'' d of PStr t \<Rightarrow> Some t | _ \<Rightarrow> None)
          else None
      | _ \<Rightarrow> None)"

definition raise_for_response_status :: "http_response \<Rightarrow> string \<Rightarrow> rat \<Rightarrow> unit http" where
  "raise_for_response_status r path now =
     (if 200 \<le> hr_status r \<and> hr_status r \<le> 299 then Inr ()
      else if hr_status r = 429 then Inl (Rate_Limited (extract_retry_after r now) (parse_rate_limit_headers r))
      else case (if hr_status r = 400 \<and> path = ''/v1/heartbeats'' then heartbeat_mismatch r else None) of
          Some heartbeat_id \<Rightarrow> Inl (Heartbeat_Mismatch heartbeat_id)
        | None \<Rightarrow>
            Inl (Request_Rejected (hr_status r) (extract_response_error_message r) (extract_response_error_code r)
              (extract_retry_after r now) (detect_trading_restriction r)))"

definition read_json :: "http_response \<Rightarrow> pyval http" where
  "read_json r = (case hr_json r of Some v \<Rightarrow> Inr v | None \<Rightarrow> Inl (Failed UnexpectedResponseError))"

section \<open>Requests\<close>

text \<open>\<open>json.dumps(v, separators=(",", ":"))\<close>\<close>

fun json_compact :: "pyval \<Rightarrow> string res" where
  "json_compact (PList xs) = bindE (traverseE json_compact xs) (\<lambda>ts. Ok (''['' @ join_with CHR '','' ts @ '']''))"
| "json_compact (PDict d) =
     bindE (traverseE (\<lambda>p. bindE (json_compact (snd p)) (\<lambda>t. Ok (json_string (fst p) @ '':'' @ t))) d)
       (\<lambda>ts. Ok (''{'' @ join_with CHR '','' ts @ ''}''))"
| "json_compact (PDecimal x) = Raise TypeError"
| "json_compact PObject = Raise TypeError"
| "json_compact v = Ok (json_dumps (\<lambda>_. []) v)"

record http_request =
  hq_method :: string
  hq_target :: string
  hq_params :: "(string \<times> pyval) list option"
  hq_content :: "byte list option"
  hq_headers :: "(string \<times> string) list"

text \<open>
  A transport: the client of httpx, the resolver of headers, the listener of rate limits, whose exceptions are
  swallowed, and the clock.
\<close>

record 'w http_transport =
  tr_base_url :: string
  tr_client :: "http_request \<Rightarrow> 'w \<Rightarrow> http_response option \<times> 'w"
  tr_resolver :: "(string \<Rightarrow> string \<Rightarrow> string option \<Rightarrow> ('w, (string \<times> string) list) eff) option"
  tr_listener :: "(rate_limit_update \<Rightarrow> 'w \<Rightarrow> py_error option \<times> 'w) option"
  tr_time :: "'w \<Rightarrow> rat"

definition clean_params :: "(string \<times> pyval) list option \<Rightarrow> (string \<times> pyval) list option" where
  "clean_params params = map_option (filter (\<lambda>(_, v). v \<noteq> PNone)) params"

definition notify_rate_limit_update :: "'w http_transport \<Rightarrow> http_response \<Rightarrow> 'w \<Rightarrow> 'w" where
  "notify_rate_limit_update t r w =
     (case tr_listener t of
        None \<Rightarrow> w
      | Some listener \<Rightarrow> (case parse_rate_limit_headers r of None \<Rightarrow> w | Some update \<Rightarrow> snd (listener update w)))"

definition body_of :: "pyval option \<Rightarrow> string option res" where
  "body_of json = (case json of None \<Rightarrow> Ok None | Some v \<Rightarrow> map_ok Some (json_compact v))"

definition default_headers :: "string option \<Rightarrow> (string \<times> string) list \<Rightarrow> (string \<times> string) list" where
  "default_headers body headers =
     (if body \<noteq> None \<and> map_of headers ''Content-Type'' = None
      then dict_set ''Content-Type'' ''application/json'' headers else headers)"

definition resolve_headers ::
  "'w http_transport \<Rightarrow> string \<Rightarrow> string \<Rightarrow> string option \<Rightarrow> (string \<times> string) list \<Rightarrow> ('w, (string \<times> string) list) eff" where
  "resolve_headers t method path body headers =
     (case tr_resolver t of
        None \<Rightarrow> pureS headers
      | Some resolver \<Rightarrow>
          bindS (resolver method path body) (\<lambda>resolved. pureS (fold (\<lambda>(k, v). dict_set k v) resolved headers)))"

definition transport_request ::
  "'w http_transport \<Rightarrow> string \<Rightarrow> string \<Rightarrow> (string \<times> pyval) list option \<Rightarrow> pyval option \<Rightarrow> (string \<times> string) list \<Rightarrow>
     'w \<Rightarrow> http_response http \<times> 'w" where
  "transport_request t method path params json headers w =
     (case bindS (liftS (body_of json)) (\<lambda>body.
         bindS (resolve_headers t method path body (default_headers body headers)) (\<lambda>merged. pureS (body, merged))) w of
        (Inl e, w) \<Rightarrow> (Inl (Failed e), w)
      | (Inr (body, merged), w) \<Rightarrow>
          (case tr_client t \<lparr>hq_method = method, hq_target = (if path = [] then tr_base_url t else path),
               hq_params = clean_params params, hq_content = map_option utf8_encode body, hq_headers = merged\<rparr> w of
             (None, w) \<Rightarrow> (Inl (Failed TransportError), w)
           | (Some r, w) \<Rightarrow>
               let w = notify_rate_limit_update t r w
               in (bindE (raise_for_response_status r path (tr_time t w)) (\<lambda>_. Inr r), w)))"

definition request_json ::
  "'w http_transport \<Rightarrow> string \<Rightarrow> string \<Rightarrow> (string \<times> pyval) list option \<Rightarrow> pyval option \<Rightarrow> (string \<times> string) list \<Rightarrow>
     'w \<Rightarrow> pyval http \<times> 'w" where
  "request_json t method path params json headers w =
     (case transport_request t method path params json headers w of (r, w) \<Rightarrow> (bindE r read_json, w))"

definition get_json_request :: "'w http_transport \<Rightarrow> string \<Rightarrow> (string \<times> pyval) list option \<Rightarrow> (string \<times> string) list \<Rightarrow> 'w \<Rightarrow> pyval http \<times> 'w" where
  "get_json_request t path params headers = request_json t ''GET'' path params None headers"

definition get_bytes :: "'w http_transport \<Rightarrow> string \<Rightarrow> (string \<times> pyval) list option \<Rightarrow> (string \<times> string) list \<Rightarrow> 'w \<Rightarrow> byte list http \<times> 'w" where
  "get_bytes t path params headers w =
     (case transport_request t ''GET'' path params None headers w of (r, w) \<Rightarrow> (map_ok hr_content r, w))"

definition delete_request :: "'w http_transport \<Rightarrow> string \<Rightarrow> pyval option \<Rightarrow> (string \<times> string) list \<Rightarrow> 'w \<Rightarrow> unit http \<times> 'w" where
  "delete_request t path json headers w =
     (case transport_request t ''DELETE'' path None json headers w of (r, w) \<Rightarrow> (map_ok (\<lambda>_. ()) r, w))"

section \<open>The forms of a date\<close>

definition two_digits :: "int \<Rightarrow> string" where
  "two_digits n = [digit_char (n div 10), digit_char (n mod 10)]"

definition month_name :: "int \<Rightarrow> string" where
  "month_name m = HTTP_DATE_MONTHS ! nat (m - 1)"

definition time_text :: "int \<Rightarrow> int \<Rightarrow> int \<Rightarrow> string" where
  "time_text h mi t = two_digits h @ '':'' @ two_digits mi @ '':'' @ two_digits t"

definition imf_date :: "string \<Rightarrow> int \<Rightarrow> int \<Rightarrow> int \<Rightarrow> int \<Rightarrow> int \<Rightarrow> int \<Rightarrow> string" where
  "imf_date weekday y m d h mi t =
     weekday @ '', '' @ two_digits d @ '' '' @ month_name m @ '' '' @ two_digits (y div 100) @ two_digits (y mod 100)
     @ '' '' @ time_text h mi t @ '' GMT''"

definition rfc850_date :: "string \<Rightarrow> int \<Rightarrow> int \<Rightarrow> int \<Rightarrow> int \<Rightarrow> int \<Rightarrow> int \<Rightarrow> string" where
  "rfc850_date weekday y m d h mi t =
     weekday @ '', '' @ two_digits d @ ''-'' @ month_name m @ ''-'' @ two_digits (y mod 100)
     @ '' '' @ time_text h mi t @ '' GMT''"

definition asctime_date :: "string \<Rightarrow> int \<Rightarrow> int \<Rightarrow> int \<Rightarrow> int \<Rightarrow> int \<Rightarrow> int \<Rightarrow> string" where
  "asctime_date weekday y m d h mi t =
     weekday @ '' '' @ month_name m @ '' '' @ (if d < 10 then [CHR '' '', digit_char d] else two_digits d)
     @ '' '' @ time_text h mi t @ '' '' @ two_digits (y div 100) @ two_digits (y mod 100)"

lemma two_digits_facts:
  assumes "0 \<le> n" "n < 100"
  shows "list_all is_digit (two_digits n)" "digits_int acc (two_digits n) = acc * 100 + n" "length (two_digits n) = 2"
proof -
  have d: "0 \<le> n div 10" "n div 10 < 10" "0 \<le> n mod 10" "n mod 10 < 10" using assms by auto
  show "list_all is_digit (two_digits n)" using d by (simp add: two_digits_def digit_char_digit)
  have "n div 10 * 10 + n mod 10 = n" by simp
  then show "digits_int acc (two_digits n) = acc * 100 + n" using d
    by (simp add: two_digits_def digit_char_value del: div_mult_mod_eq)
  show "length (two_digits n) = 2" by (simp add: two_digits_def)
qed

lemma number_append: "list_all is_digit xs \<Longrightarrow> number_of (length xs) (xs @ s) = Some (digits_int 0 xs, s)"
  by (simp add: number_of_def)

lemma number_two [simp]: "0 \<le> n \<Longrightarrow> n < 100 \<Longrightarrow> number_of 2 (two_digits n @ s) = Some (n, s)"
  using number_append [of "two_digits n" s] by (simp add: two_digits_facts)

lemma number_four [simp]:
  assumes "0 \<le> n" "n \<le> 9999"
  shows "number_of 4 (two_digits (n div 100) @ two_digits (n mod 100) @ s) = Some (n, s)"
proof -
  have d: "0 \<le> n div 100" "n div 100 < 100" "0 \<le> n mod 100" "n mod 100 < 100" using assms by auto
  have "n div 100 * 100 + n mod 100 = n" by simp
  then show ?thesis
    using number_append [of "two_digits (n div 100) @ two_digits (n mod 100)" s] two_digits_facts [OF d(1,2)] two_digits_facts [OF d(3,4)]
    by (simp add: digits_int_append del: div_mult_mod_eq)
qed

lemma literal_append [simp]: "literal p (p @ s) = Some s"
proof -
  have "starts_with p (p @ s)" by (induction p) simp_all
  then show ?thesis by (simp add: literal_def)
qed

lemma one_of_word:
  assumes "w \<in> set ws" "\<And>v. v \<in> set ws \<Longrightarrow> starts_with v (w @ s) \<longleftrightarrow> v = w"
  shows "one_of ws (w @ s) = Some (w, s)"
proof -
  have "find (\<lambda>v. starts_with v (w @ s)) ws = Some w"
    using assms by (induction ws) (simp, metis find.simps(2) list.set_intros(1,2) set_ConsD)
  then show ?thesis by (simp add: one_of_def)
qed

lemma starts_with_same_length: "starts_with v (w @ s) \<Longrightarrow> length v = length w \<Longrightarrow> v = w"
  by (induction v w rule: list_induct2') auto

lemma starts_with_self: "starts_with w (w @ s)"
  by (induction w) simp_all

lemma one_of_same_length:
  assumes "w \<in> set ws" "list_all (\<lambda>v. length v = n) ws"
  shows "one_of ws (w @ s) = Some (w, s)"
  using assms starts_with_self starts_with_same_length by (intro one_of_word) (auto simp: list_all_iff)

lemma short_day [simp]: "w \<in> set SHORT_DAYS \<Longrightarrow> one_of SHORT_DAYS (w @ s) = Some (w, s)"
  by (rule one_of_same_length [of _ _ 3]) (simp_all add: SHORT_DAYS_def)

lemma long_day [simp]: "w \<in> set LONG_DAYS \<Longrightarrow> one_of LONG_DAYS (w @ s) = Some (w, s)"
  by (rule one_of_word) (auto simp: LONG_DAYS_def)

lemma month_cases: "1 \<le> (m :: int) \<Longrightarrow> m \<le> 12 \<Longrightarrow> m \<in> {1, 2, 3, 4, 5, 6, 7, 8, 9, 10, 11, 12}"
  by (simp, presburger)

lemma month_one_of: "w \<in> set HTTP_DATE_MONTHS \<Longrightarrow> one_of HTTP_DATE_MONTHS (w @ s) = Some (w, s)"
  by (rule one_of_same_length [of _ _ 3]) (simp_all add: HTTP_DATE_MONTHS_def)

lemma month_word [simp]:
  assumes "1 \<le> m" "m \<le> 12"
  shows "one_of HTTP_DATE_MONTHS (month_name m @ s) = Some (month_name m, s)" "month_of (month_name m) = m"
proof -
  have u: "upto 1 12 = [1, 2, 3, 4, 5, 6, 7, 8, 9, 10, 11, 12]" by (simp add: upto_rec1)
  have "month_name m \<in> set HTTP_DATE_MONTHS"
    using month_cases [OF assms] by (auto simp: month_name_def HTTP_DATE_MONTHS_def)
  then show "one_of HTTP_DATE_MONTHS (month_name m @ s) = Some (month_name m, s)" by (rule month_one_of)
  show "month_of (month_name m) = m"
    using month_cases [OF assms] by (auto simp: month_of_def month_name_def HTTP_DATE_MONTHS_def u)
qed

lemma time_word [simp]:
  assumes "0 \<le> h" "h < 24" "0 \<le> mi" "mi < 60" "0 \<le> t" "t < 60"
  shows "match_time (time_text h mi t @ s) = Some ((h, mi, t), s)"
  using assms by (simp add: match_time_def time_text_def literal_def)

definition date_at :: "int \<Rightarrow> bool \<Rightarrow> int \<Rightarrow> int \<Rightarrow> int \<Rightarrow> int \<Rightarrow> int \<Rightarrow> http_date" where
  "date_at y short m d h mi t =
     \<lparr>hd_year = y, hd_short_year = short, hd_month = m, hd_day = d, hd_hour = h, hd_minute = mi, hd_second = t\<rparr>"

lemma utc_fields:
  assumes "utc_timestamp y m d h mi t = Some ts"
  shows "0 \<le> y \<and> y \<le> 9999" "1 \<le> m \<and> m \<le> 12" "0 \<le> d \<and> d < 100" "0 \<le> h \<and> h < 24" "0 \<le> mi \<and> mi < 60" "0 \<le> t \<and> t < 60"
proof -
  have "days_in_month y m \<le> 31" by (simp add: days_in_month_def)
  then show "0 \<le> y \<and> y \<le> 9999" "1 \<le> m \<and> m \<le> 12" "0 \<le> d \<and> d < 100" "0 \<le> h \<and> h < 24" "0 \<le> mi \<and> mi < 60" "0 \<le> t \<and> t < 60"
    using assms by (auto simp: utc_timestamp_def split: if_splits)
qed

lemma match_imf:
  assumes "utc_timestamp y m d h mi t = Some ts" "w \<in> set SHORT_DAYS"
  shows "match_http_date (imf_date w y m d h mi t) = Some (date_at y False m d h mi t)"
  using utc_fields [OF assms(1)] assms(2)
  by (simp add: match_http_date_def match_imf_date_def imf_date_def literal_def date_at_def)

lemma match_rfc850:
  assumes "utc_timestamp y m d h mi t = Some ts" "w \<in> set LONG_DAYS"
  shows "match_http_date (rfc850_date w y m d h mi t) = Some (date_at (y mod 100) True m d h mi t)"
proof -
  have "match_imf_date (rfc850_date w y m d h mi t) = None"
    using assms(2) by (auto simp: match_imf_date_def rfc850_date_def LONG_DAYS_def SHORT_DAYS_def one_of_def literal_def)
  moreover have "match_rfc850_date (rfc850_date w y m d h mi t) = Some (date_at (y mod 100) True m d h mi t)"
    using utc_fields [OF assms(1)] assms(2)
    by (simp add: match_rfc850_date_def rfc850_date_def literal_def date_at_def)
  ultimately show ?thesis by (simp add: match_http_date_def)
qed

lemma asctime_day [simp]:
  assumes "0 \<le> d" "d < 100"
  shows "match_asctime_day ((if d < 10 then [CHR '' '', digit_char d] else two_digits d) @ s) = Some (d, s)"
proof (cases "d < 10")
  case True
  have "number_of 1 (digit_char d # s) = Some (d, s)"
    using number_append [of "[digit_char d]" s] assms True by (simp add: digit_char_digit digit_char_value)
  then show ?thesis using True by (simp add: match_asctime_day_def literal_def)
next
  case False
  have "is_digit (digit_char (d div 10))" using assms by (auto intro!: digit_char_digit)
  then have "digit_char (d div 10) \<noteq> CHR '' ''" by (auto simp: is_digit_def)
  then have "literal '' '' (two_digits d @ s) = None" by (simp add: literal_def two_digits_def)
  then show ?thesis using False assms by (simp add: match_asctime_day_def)
qed

lemma not_long_day: "w \<in> set SHORT_DAYS \<Longrightarrow> one_of LONG_DAYS (w @ CHR '' '' # s) = None"
  by (auto simp: one_of_def LONG_DAYS_def SHORT_DAYS_def)

lemma match_asctime:
  assumes "utc_timestamp y m d h mi t = Some ts" "w \<in> set SHORT_DAYS"
  shows "match_http_date (asctime_date w y m d h mi t) = Some (date_at y False m d h mi t)"
proof -
  have "match_imf_date (asctime_date w y m d h mi t) = None"
    using assms(2) by (simp add: match_imf_date_def asctime_date_def literal_def)
  moreover have "match_rfc850_date (asctime_date w y m d h mi t) = None"
    using not_long_day [OF assms(2)] by (simp add: match_rfc850_date_def asctime_date_def)
  moreover have "number_of 4 (two_digits (y div 100) @ two_digits (y mod 100)) = Some (y, [])"
    using number_four [of y "[]"] utc_fields [OF assms(1)] by simp
  then have "match_asctime_date (asctime_date w y m d h mi t) = Some (date_at y False m d h mi t)"
    using utc_fields [OF assms(1)] assms(2)
    by (simp only: match_asctime_date_def asctime_date_def append_assoc) (simp add: literal_def date_at_def)
  ultimately show ?thesis by (simp add: match_http_date_def)
qed

text \<open>C40: The three forms of a date that HTTP allows name the same moment, also the form with two digits of the year:
  these are read in the century of the clock, unless that is more than fifty years ahead, and then in the century
  before.\<close>

theorem http_dates_agree:
  assumes "utc_timestamp y m d h mi t = Some ts" "w \<in> set SHORT_DAYS" "v \<in> set LONG_DAYS"
  shows "parse_http_date (imf_date w y m d h mi t) now = Some ts
    \<and> parse_http_date (asctime_date w y m d h mi t) now = Some ts
    \<and> (y div 100 = utc_year now div 100 \<and> of_int ts - now \<le> of_int FIFTY_YEARS_S
      \<or> y div 100 + 1 = utc_year now div 100 \<and>
        (\<exists>later. utc_timestamp (y + 100) m d h mi t = Some later \<and> of_int FIFTY_YEARS_S < of_int later - now)
      \<longrightarrow> parse_http_date (rfc850_date v y m d h mi t) now = Some ts)"
proof (intro conjI impI)
  show "parse_http_date (imf_date w y m d h mi t) now = Some ts"
    using assms(1) by (simp add: parse_http_date_def match_imf [OF assms(1,2)] date_at_def http_date_timestamp_def)
  show "parse_http_date (asctime_date w y m d h mi t) now = Some ts"
    using assms(1) by (simp add: parse_http_date_def match_asctime [OF assms(1,2)] date_at_def http_date_timestamp_def)
  assume window: "y div 100 = utc_year now div 100 \<and> of_int ts - now \<le> of_int FIFTY_YEARS_S
      \<or> y div 100 + 1 = utc_year now div 100 \<and>
        (\<exists>later. utc_timestamp (y + 100) m d h mi t = Some later \<and> of_int FIFTY_YEARS_S < of_int later - now)"
  let ?c = "utc_year now div 100 * 100"
  have parsed: "parse_http_date (rfc850_date v y m d h mi t) now
    = Option.bind (utc_timestamp (y mod 100 + ?c) m d h mi t) (\<lambda>deadline.
        utc_timestamp (if of_int FIFTY_YEARS_S < of_int deadline - now then y mod 100 + ?c - 100 else y mod 100 + ?c) m d h mi t)"
    by (simp add: parse_http_date_def match_rfc850 [OF assms(1,3)] date_at_def http_date_timestamp_def Let_def)
  from window show "parse_http_date (rfc850_date v y m d h mi t) now = Some ts"
  proof
    assume same: "y div 100 = utc_year now div 100 \<and> of_int ts - now \<le> of_int FIFTY_YEARS_S"
    have eq: "y mod 100 + ?c = y" by (simp only: conjunct1 [OF same, symmetric] mod_div_mult_eq)
    show ?thesis using assms(1) conjunct2 [OF same] unfolding parsed eq by simp
  next
    assume before: "y div 100 + 1 = utc_year now div 100 \<and>
        (\<exists>later. utc_timestamp (y + 100) m d h mi t = Some later \<and> of_int FIFTY_YEARS_S < of_int later - now)"
    have eq: "y mod 100 + ?c = y + 100"
      by (simp only: conjunct1 [OF before, symmetric] distrib_right mult_1 flip: add.assoc) (simp only: mod_div_mult_eq)
    obtain later where "utc_timestamp (y + 100) m d h mi t = Some later" "of_int FIFTY_YEARS_S < of_int later - now"
      using before by blast
    then show ?thesis using assms(1) unfolding parsed eq by simp
  qed
qed

lemma http_dates_agree_witness:
  "parse_http_date ''Sun, 06 Nov 1994 08:49:37 GMT'' 2000000000 = Some 784111777
 \<and> parse_http_date ''Sunday, 06-Nov-94 08:49:37 GMT'' 2000000000 = Some 784111777"
proof -
  have t: "utc_timestamp 1994 11 6 8 49 37 = Some 784111777" by code_simp
  have later: "utc_timestamp (1994 + 100) 11 6 8 49 37 = Some 3939871777" by code_simp
  have now: "utc_year 2000000000 = 2033" by code_simp
  have texts: "imf_date ''Sun'' 1994 11 6 8 49 37 = ''Sun, 06 Nov 1994 08:49:37 GMT''"
    "rfc850_date ''Sunday'' 1994 11 6 8 49 37 = ''Sunday, 06-Nov-94 08:49:37 GMT''" by code_simp+
  show ?thesis
    using http_dates_agree [OF t, of "''Sun''" "''Sunday''" 2000000000] later now texts
    by (simp add: SHORT_DAYS_def LONG_DAYS_def FIFTY_YEARS_S_def)
qed

end
