(* ===== verification/Credentials.thy ===== *)
theory Credentials imports Transport begin

text \<open>
  Authentication: \<open>_internal/hmac.py\<close>, \<open>_internal/l1_auth.py\<close>, \<open>actions/auth.py\<close>, \<open>actions/relayer/auth.py\<close> and the header
  resolvers of \<open>clients/async_secure.py\<close>. HMAC-SHA256 and the signer are parameters. The last section proves that
  a server which recomputes the HMAC over what it received accepts every request that leaves the client.
\<close>

section \<open>HMAC\<close>

text \<open>
  \<open>base64.urlsafe_b64decode\<close>: characters outside the alphabet are skipped and the text ends with the padding of a
  quantum. The arguments are the position in the quantum, the bits left over and the number of pads.
\<close>

fun a2b_base64 :: "nat \<Rightarrow> int \<Rightarrow> nat \<Rightarrow> string \<Rightarrow> byte list option" where
  "a2b_base64 quad left pads [] = (if quad = 0 then Some [] else None)"
| "a2b_base64 quad left pads (c # cs) =
     (if c = CHR ''='' then
        if 2 \<le> quad then (if 4 \<le> quad + (pads + 1) then Some [] else a2b_base64 quad left (pads + 1) cs)
        else a2b_base64 quad left pads cs
      else case b64_value c of
          None \<Rightarrow> a2b_base64 quad left pads cs
        | Some v \<Rightarrow>
            if quad = 0 then a2b_base64 1 v 0 cs
            else if quad = 1 then map_option ((#) (word_of_int (left * 4 + v div 16))) (a2b_base64 2 (v mod 16) 0 cs)
            else if quad = 2 then map_option ((#) (word_of_int (left * 16 + v div 4))) (a2b_base64 3 (v mod 4) 0 cs)
            else map_option ((#) (word_of_int (left * 64 + v))) (a2b_base64 0 0 0 cs))"

definition from_url :: "char \<Rightarrow> char" where
  "from_url c = (if c = CHR ''-'' then CHR ''+'' else if c = CHR ''_'' then CHR ''/'' else c)"

definition to_url :: "char \<Rightarrow> char" where
  "to_url c = (if c = CHR ''+'' then CHR ''-'' else if c = CHR ''/'' then CHR ''_'' else c)"

definition is_ascii :: "string \<Rightarrow> bool" where
  "is_ascii s = list_all (\<lambda>c. code_of c < 128) s"

definition urlsafe_b64decode :: "string \<Rightarrow> byte list option" where
  "urlsafe_b64decode s = (if is_ascii s then a2b_base64 0 0 0 (map from_url s) else None)"

definition urlsafe_b64encode :: "byte list \<Rightarrow> string" where
  "urlsafe_b64encode bs = map to_url (b64_encode bs)"

definition pad_base64 :: "string \<Rightarrow> string" where
  "pad_base64 v = v @ replicate (nat (- int (length v) mod 4)) CHR ''=''"

definition hmac_message :: "int \<Rightarrow> string \<Rightarrow> string \<Rightarrow> string option \<Rightarrow> string" where
  "hmac_message timestamp http_method path body =
     str_int timestamp @ http_method @ path @ (case body of None \<Rightarrow> [] | Some b \<Rightarrow> b)"

type_synonym hmac = "byte list \<Rightarrow> byte list \<Rightarrow> byte list"

definition build_hmac_signature :: "hmac \<Rightarrow> string \<Rightarrow> int \<Rightarrow> string \<Rightarrow> string \<Rightarrow> string option \<Rightarrow> string res" where
  "build_hmac_signature hmac secret timestamp http_method path body =
     (case urlsafe_b64decode (pad_base64 secret) of
        None \<Rightarrow> Raise SigningError
      | Some key \<Rightarrow> Ok (urlsafe_b64encode (hmac key (utf8_encode (hmac_message timestamp http_method path body)))))"

section \<open>Header resolvers\<close>

record api_credentials =
  ak_key :: string
  ak_passphrase :: string
  ak_secret :: string

text \<open>A key of a builder has the same three fields.\<close>

datatype api_key = BuilderApiKey api_credentials | RelayerApiKey string string

type_synonym 'w header_resolver = "string \<Rightarrow> string \<Rightarrow> string option \<Rightarrow> ('w, (string \<times> string) list) eff"

definition l2_headers :: "string \<Rightarrow> api_credentials \<Rightarrow> string \<Rightarrow> int \<Rightarrow> (string \<times> string) list" where
  "l2_headers address creds signature timestamp =
     [(''POLY_ADDRESS'', address), (''POLY_API_KEY'', ak_key creds), (''POLY_PASSPHRASE'', ak_passphrase creds),
      (''POLY_SIGNATURE'', signature), (''POLY_TIMESTAMP'', str_int timestamp)]"

definition builder_headers :: "api_credentials \<Rightarrow> string \<Rightarrow> int \<Rightarrow> (string \<times> string) list" where
  "builder_headers creds signature timestamp =
     [(''POLY_BUILDER_API_KEY'', ak_key creds), (''POLY_BUILDER_PASSPHRASE'', ak_passphrase creds),
      (''POLY_BUILDER_SIGNATURE'', signature), (''POLY_BUILDER_TIMESTAMP'', str_int timestamp)]"

text \<open>\<open>int(time.time())\<close> is the parameter \<open>seconds\<close>.\<close>

definition build_builder_key_headers ::
  "hmac \<Rightarrow> ('w \<Rightarrow> int) \<Rightarrow> api_credentials \<Rightarrow> 'w header_resolver" where
  "build_builder_key_headers hmac seconds creds http_method path body = (\<lambda>w.
     let timestamp = seconds w in
     (map_ok (\<lambda>signature. builder_headers creds signature timestamp)
        (build_hmac_signature hmac (ak_secret creds) timestamp http_method path body), w))"

definition make_relayer_header_resolver :: "hmac \<Rightarrow> ('w \<Rightarrow> int) \<Rightarrow> api_key \<Rightarrow> 'w header_resolver" where
  "make_relayer_header_resolver hmac seconds api_key =
     (case api_key of
        BuilderApiKey creds \<Rightarrow> build_builder_key_headers hmac seconds creds
      | RelayerApiKey key address \<Rightarrow>
          (\<lambda>_ _ _. pureS [(''RELAYER_API_KEY'', key), (''RELAYER_API_KEY_ADDRESS'', address)]))"

definition make_l2_header_resolver :: "hmac \<Rightarrow> ('w \<Rightarrow> int) \<Rightarrow> string \<Rightarrow> api_credentials \<Rightarrow> 'w header_resolver" where
  "make_l2_header_resolver hmac seconds address creds http_method path body = (\<lambda>w.
     let timestamp = seconds w in
     (map_ok (\<lambda>signature. l2_headers address creds signature timestamp)
        (build_hmac_signature hmac (ak_secret creds) timestamp http_method path body), w))"

definition make_builder_gateway_header_resolver ::
  "hmac \<Rightarrow> ('w \<Rightarrow> int) \<Rightarrow> api_key option \<Rightarrow> string \<Rightarrow> api_credentials \<Rightarrow> 'w header_resolver" where
  "make_builder_gateway_header_resolver hmac seconds api_key address creds http_method path body =
     bindS (make_l2_header_resolver hmac seconds address creds http_method path body) (\<lambda>headers.
     case api_key of
       Some (BuilderApiKey builder) \<Rightarrow>
         if http_method \<noteq> ''GET'' then
           bindS (build_builder_key_headers hmac seconds builder http_method path body) (\<lambda>more.
           pureS (fold (\<lambda>(k, v). dict_set k v) more headers))
         else pureS headers
     | _ \<Rightarrow> pureS headers)"

section \<open>API keys\<close>

record api_key_auth_signature =
  as_address :: string
  as_nonce :: int
  as_signature :: string
  as_timestamp :: int

definition CLOB_AUTH_MESSAGE :: string where
  "CLOB_AUTH_MESSAGE = ''This message attests that I control the given wallet''"

definition typed_fields :: "(string \<times> string) list \<Rightarrow> pyval" where
  "typed_fields fs = PList (map (\<lambda>(n, t). PDict [(''name'', PStr n), (''type'', PStr t)]) fs)"

definition build_api_key_auth_typed_data :: "string \<Rightarrow> int \<Rightarrow> int \<Rightarrow> int \<Rightarrow> pyval" where
  "build_api_key_auth_typed_data address chain_id timestamp nonce =
     PDict
       [(''domain'', PDict [(''name'', PStr ''ClobAuthDomain''), (''version'', PStr ''1''), (''chainId'', PInt chain_id)]),
        (''types'', PDict
          [(''EIP712Domain'', typed_fields [(''name'', ''string''), (''version'', ''string''), (''chainId'', ''uint256'')]),
           (''ClobAuth'', typed_fields
              [(''address'', ''address''), (''timestamp'', ''string''), (''nonce'', ''uint256''), (''message'', ''string'')])]),
        (''primaryType'', PStr ''ClobAuth''),
        (''message'', PDict
          [(''address'', PStr address), (''timestamp'', PStr (str_int timestamp)), (''nonce'', PInt nonce),
           (''message'', PStr CLOB_AUTH_MESSAGE)])]"

text \<open>A signer: its address and the hexadecimal digits of its signature, none where it raises.\<close>

record typed_data_signer =
  ts_address :: string
  ts_sign :: "pyval \<Rightarrow> string option"

definition sign_api_key_auth :: "typed_data_signer \<Rightarrow> int \<Rightarrow> int \<Rightarrow> int \<Rightarrow> api_key_auth_signature res" where
  "sign_api_key_auth signer chain_id timestamp nonce =
     (case ts_sign signer (build_api_key_auth_typed_data (ts_address signer) chain_id timestamp nonce) of
        None \<Rightarrow> Raise SigningError
      | Some hex \<Rightarrow> Ok \<lparr>as_address = ts_address signer, as_nonce = nonce, as_signature = ''0x'' @ hex, as_timestamp = timestamp\<rparr>)"

definition build_l1_auth_headers :: "api_key_auth_signature \<Rightarrow> (string \<times> string) list" where
  "build_l1_auth_headers s =
     [(''POLY_ADDRESS'', as_address s), (''POLY_NONCE'', str_int (as_nonce s)), (''POLY_SIGNATURE'', as_signature s),
      (''POLY_TIMESTAMP'', str_int (as_timestamp s))]"

text \<open>The first of two keys that is there, as a text.\<close>

definition text_field :: "string \<Rightarrow> string \<Rightarrow> (string \<times> pyval) list \<Rightarrow> string res" where
  "text_field alias name d =
     (case (if map_of d alias \<noteq> None then dict_get alias d else dict_get name d) of
        PStr t \<Rightarrow> Ok t | _ \<Rightarrow> Raise UnexpectedResponseError)"

definition parse_api_key_creds :: "pyval \<Rightarrow> api_credentials res" where
  "parse_api_key_creds data =
     (case data of
        PDict d \<Rightarrow>
          bindE (text_field ''apiKey'' ''key'' d) (\<lambda>key.
          bindE (text_field ''passphrase'' ''passphrase'' d) (\<lambda>passphrase.
          bindE (text_field ''secret'' ''secret'' d) (\<lambda>secret.
          Ok \<lparr>ak_key = key, ak_passphrase = passphrase, ak_secret = secret\<rparr>)))
      | _ \<Rightarrow> Raise UnexpectedResponseError)"

definition text_item :: "pyval \<Rightarrow> string res" where
  "text_item v = (case v of PStr t \<Rightarrow> Ok t | _ \<Rightarrow> Raise UnexpectedResponseError)"

definition parse_api_keys_response :: "pyval \<Rightarrow> string list res" where
  "parse_api_keys_response data =
     (case data of
        PDict d \<Rightarrow> (case dict_get ''apiKeys'' d of PList xs \<Rightarrow> traverseE text_item xs | _ \<Rightarrow> Raise UnexpectedResponseError)
      | _ \<Rightarrow> Raise UnexpectedResponseError)"

definition parse_builder_api_key_creds :: "pyval \<Rightarrow> api_credentials res" where
  "parse_builder_api_key_creds data =
     (case data of
        PDict d \<Rightarrow>
          (case (dict_get ''key'' d, dict_get ''secret'' d, dict_get ''passphrase'' d) of
             (PStr key, PStr secret, PStr passphrase) \<Rightarrow>
               Ok \<lparr>ak_key = key, ak_passphrase = passphrase, ak_secret = secret\<rparr>
           | _ \<Rightarrow> Raise UnexpectedResponseError)
      | _ \<Rightarrow> Raise UnexpectedResponseError)"

text \<open>\<open>parse_info\<close> is what pydantic makes of an entry of the list.\<close>

definition parse_builder_api_keys_response :: "(pyval \<Rightarrow> 'i res) \<Rightarrow> pyval \<Rightarrow> 'i list res" where
  "parse_builder_api_keys_response parse_info data =
     (case data of
        PList xs \<Rightarrow> traverseE (\<lambda>x. parse_info (case x of PStr t \<Rightarrow> PDict [(''key'', PStr t)] | _ \<Rightarrow> x)) xs
      | _ \<Rightarrow> Raise UnexpectedResponseError)"

definition then_parse :: "(pyval \<Rightarrow> 'a res) \<Rightarrow> ('w \<Rightarrow> pyval http \<times> 'w) \<Rightarrow> 'w \<Rightarrow> 'a http \<times> 'w" where
  "then_parse parse request w =
     (case request w of
        (Inl e, w) \<Rightarrow> (Inl e, w)
      | (Inr data, w) \<Rightarrow> ((case parse data of Inl e \<Rightarrow> Inl (Failed e) | Inr x \<Rightarrow> Inr x), w))"

definition expect_OK :: "pyval \<Rightarrow> unit res" where
  "expect_OK v = (if v = PStr ''OK'' then Ok () else Raise UnexpectedResponseError)"

definition BUILDER_API_KEY_PATH :: string where "BUILDER_API_KEY_PATH = ''/auth/builder-api-key''"

definition create_api_key :: "'w http_transport \<Rightarrow> api_key_auth_signature \<Rightarrow> 'w \<Rightarrow> api_credentials http \<times> 'w" where
  "create_api_key clob signature =
     then_parse parse_api_key_creds (request_json clob ''POST'' ''/auth/api-key'' None None (build_l1_auth_headers signature))"

definition derive_api_key :: "'w http_transport \<Rightarrow> api_key_auth_signature \<Rightarrow> 'w \<Rightarrow> api_credentials http \<times> 'w" where
  "derive_api_key clob signature =
     then_parse parse_api_key_creds (get_json_request clob ''/auth/derive-api-key'' None (build_l1_auth_headers signature))"

text \<open>The status of a RequestRejectedError or of a class derived from it.\<close>

definition rejected_status :: "http_error \<Rightarrow> int option" where
  "rejected_status e =
     (case e of Request_Rejected status _ _ _ _ \<Rightarrow> Some status | Heartbeat_Mismatch _ \<Rightarrow> Some 400 | _ \<Rightarrow> None)"

definition create_or_derive_api_key :: "'w http_transport \<Rightarrow> api_key_auth_signature \<Rightarrow> 'w \<Rightarrow> api_credentials http \<times> 'w" where
  "create_or_derive_api_key clob signature w =
     (case create_api_key clob signature w of
        (Inr creds, w) \<Rightarrow> (Inr creds, w)
      | (Inl e, w) \<Rightarrow> if rejected_status e = Some 400 then derive_api_key clob signature w else (Inl e, w))"

definition fetch_api_keys :: "'w http_transport \<Rightarrow> 'w \<Rightarrow> string list http \<times> 'w" where
  "fetch_api_keys secure_clob = then_parse parse_api_keys_response (get_json_request secure_clob ''/auth/api-keys'' None [])"

definition delete_api_key :: "'w http_transport \<Rightarrow> 'w \<Rightarrow> unit http \<times> 'w" where
  "delete_api_key secure_clob = then_parse expect_OK (request_json secure_clob ''DELETE'' ''/auth/api-key'' None None [])"

definition create_builder_api_key :: "'w http_transport \<Rightarrow> 'w \<Rightarrow> api_credentials http \<times> 'w" where
  "create_builder_api_key secure_clob =
     then_parse parse_builder_api_key_creds (request_json secure_clob ''POST'' BUILDER_API_KEY_PATH None None [])"

definition fetch_builder_api_keys :: "(pyval \<Rightarrow> 'i res) \<Rightarrow> 'w http_transport \<Rightarrow> 'w \<Rightarrow> 'i list http \<times> 'w" where
  "fetch_builder_api_keys parse_info secure_clob =
     then_parse (parse_builder_api_keys_response parse_info) (get_json_request secure_clob BUILDER_API_KEY_PATH None [])"

definition revoke_builder_api_key ::
  "hmac \<Rightarrow> ('w \<Rightarrow> int) \<Rightarrow> 'w http_transport \<Rightarrow> api_credentials \<Rightarrow> 'w \<Rightarrow> unit http \<times> 'w" where
  "revoke_builder_api_key hmac seconds clob builder_key w =
     (case build_builder_key_headers hmac seconds builder_key ''DELETE'' BUILDER_API_KEY_PATH None w of
        (Inl e, w) \<Rightarrow> (Inl (Failed e), w)
      | (Inr headers, w) \<Rightarrow> then_parse expect_OK (request_json clob ''DELETE'' BUILDER_API_KEY_PATH None None headers) w)"

text \<open>The credentials of a new client: the given ones if they are active, otherwise created or derived.\<close>

definition credentials_are_active :: "'w http_transport \<Rightarrow> api_credentials \<Rightarrow> 'w \<Rightarrow> bool http \<times> 'w" where
  "credentials_are_active probe creds w =
     (case fetch_api_keys probe w of
        (Inr keys, w) \<Rightarrow> (Inr (ak_key creds \<in> set keys), w)
      | (Inl e, w) \<Rightarrow> ((if rejected_status e = Some 401 then Inr False else Inl e), w))"

definition bootstrap_credentials ::
  "'w http_transport \<Rightarrow> (api_credentials \<Rightarrow> 'w http_transport) \<Rightarrow> ('w \<Rightarrow> int) \<Rightarrow> typed_data_signer \<Rightarrow> int \<Rightarrow>
     api_credentials option \<Rightarrow> int \<Rightarrow> bool \<Rightarrow> 'w \<Rightarrow> api_credentials http \<times> 'w" where
  "bootstrap_credentials clob probe seconds signer chain_id provided nonce validate w =
     (case (case provided of
              None \<Rightarrow> (Inr False, w)
            | Some creds \<Rightarrow> if \<not> validate then (Inr True, w) else credentials_are_active (probe creds) creds w) of
        (Inl e, w) \<Rightarrow> (Inl e, w)
      | (Inr True, w) \<Rightarrow> (Inr (the provided), w)
      | (Inr False, w) \<Rightarrow>
          (case sign_api_key_auth signer chain_id (seconds w) nonce of
             Inl e \<Rightarrow> (Inl (Failed e), w)
           | Inr signature \<Rightarrow> create_or_derive_api_key clob signature w))"

section \<open>Keys and their texts\<close>

lemma b64_url_char:
  assumes "0 \<le> v" "v < 64"
  shows "from_url (to_url (b64_char v)) = b64_char v" "code_of (to_url (b64_char v)) < 128" "to_url (b64_char v) \<noteq> CHR ''=''"
proof -
  have "v < 26 \<or> 26 \<le> v \<and> v < 52 \<or> 52 \<le> v \<and> v < 62 \<or> v = 62 \<or> v = 63" using assms by linarith
  then have c: "code_of (b64_char v) < 123 \<and> code_of (b64_char v) \<noteq> 45 \<and> code_of (b64_char v) \<noteq> 95"
    using assms by (elim disjE) (simp_all add: b64_char_def)
  moreover have d: "code_of (CHR ''-'') = 45" "code_of (CHR ''_'') = 95" by simp_all
  ultimately have "b64_char v \<noteq> CHR ''-''" "b64_char v \<noteq> CHR ''_''" by metis+
  then show "from_url (to_url (b64_char v)) = b64_char v" "code_of (to_url (b64_char v)) < 128"
    "to_url (b64_char v) \<noteq> CHR ''=''"
    using c b64_value_char(2) [OF assms] by (auto simp: from_url_def to_url_def)
qed

lemma a2b_quad:
  assumes "0 \<le> p" "p < 64" "0 \<le> q" "q < 64" "0 \<le> r" "r < 64" "0 \<le> t" "t < 64"
  shows "a2b_base64 0 0 0 [b64_char p, b64_char q, CHR ''='', CHR ''=''] = Some [word_of_int (p * 4 + q div 16)]"
    "a2b_base64 0 0 0 [b64_char p, b64_char q, b64_char r, CHR ''='']
      = Some [word_of_int (p * 4 + q div 16), word_of_int (q mod 16 * 16 + r div 4)]"
    "a2b_base64 0 0 0 (b64_char p # b64_char q # b64_char r # b64_char t # rest)
      = map_option (\<lambda>bs. word_of_int (p * 4 + q div 16) # word_of_int (q mod 16 * 16 + r div 4)
          # word_of_int (r mod 4 * 64 + t) # bs) (a2b_base64 0 0 0 rest)"
  using b64_value_char [OF assms(1,2)] b64_value_char [OF assms(3,4)] b64_value_char [OF assms(5,6)]
    b64_value_char [OF assms(7,8)] by (simp_all add: option.map_comp comp_def)

lemma a2b_round_trip: "a2b_base64 0 0 0 (b64_encode bs) = Some bs"
proof (induction bs rule: b64_encode.induct)
  case (2 a)
  note s = sextets [OF uint_byte [of a] uint_byte [of a] uint_byte [of a]]
  show ?case
    by (simp only: b64_encode.simps a2b_quad(1) [OF s(1-4) s(1,2) s(1,2)] s(13) word_of_int_uint)
next
  case (3 a b)
  note s = sextets [OF uint_byte [of a] uint_byte [of b] uint_byte [of b]]
  show ?case
    by (simp only: b64_encode.simps a2b_quad(2) [OF s(1,2,5-8) s(1,2)] s(14,15) word_of_int_uint)
next
  case (4 a b c bs)
  note s = sextets [OF uint_byte [of a] uint_byte [of b] uint_byte [of c]]
  show ?case
    by (simp only: b64_encode.simps a2b_quad(3) [OF s(1,2,5,6,9-12)] s(14,16,17) word_of_int_uint
        4 option.map)
qed simp

lemma b64_letters: "\<exists>vs n. b64_encode bs = map b64_char vs @ replicate n CHR ''='' \<and> (\<forall>v\<in>set vs. 0 \<le> v \<and> v < 64)
  \<and> (length vs + n) mod 4 = 0 \<and> n < 3"
proof (induction bs rule: b64_encode.induct)
  case 1
  show ?case by (rule exI [of _ "[]"], rule exI [of _ 0]) simp
next
  case (2 a)
  note s = sextets [OF uint_byte [of a] uint_byte [of a] uint_byte [of a]]
  show ?case by (rule exI [of _ "[uint a div 4, uint a mod 4 * 16]"], rule exI [of _ 2])
    (use s(1-4) in \<open>simp add: numeral_2_eq_2\<close>)
next
  case (3 a b)
  note s = sextets [OF uint_byte [of a] uint_byte [of b] uint_byte [of b]]
  show ?case by (rule exI [of _ "[uint a div 4, uint a mod 4 * 16 + uint b div 16, uint b mod 16 * 4]"], rule exI [of _ 1])
    (use s(1,2,5-8) in simp)
next
  case (4 a b c bs)
  note s = sextets [OF uint_byte [of a] uint_byte [of b] uint_byte [of c]]
  from 4 obtain vs n where IH: "b64_encode bs = map b64_char vs @ replicate n CHR ''=''" "\<forall>v\<in>set vs. 0 \<le> v \<and> v < 64"
    "(length vs + n) mod 4 = 0" "n < 3" by (elim exE conjE) (rule that)
  let ?q = "[uint a div 4, uint a mod 4 * 16 + uint b div 16, uint b mod 16 * 4 + uint c div 64, uint c mod 64]"
  have len: "(length (?q @ vs) + n) mod 4 = 0" using IH(3) by simp
  have eq: "b64_encode (a # b # c # bs) = map b64_char (?q @ vs) @ replicate n CHR ''=''" using IH(1) by simp
  have rng: "\<forall>v\<in>set (?q @ vs). 0 \<le> v \<and> v < 64" using IH(2) s(1,2,5,6,9-12) by simp
  show ?case by (rule exI [of _ "?q @ vs"], rule exI [of _ n], intro conjI) (fact eq rng len IH(4))+
qed

text \<open>A secret as services hand it out: the key in URL-safe base64, with its padding or without.\<close>

definition secret_of :: "byte list \<Rightarrow> string \<Rightarrow> bool" where
  "secret_of key secret \<longleftrightarrow> secret \<in> {urlsafe_b64encode key, takeWhile (\<lambda>c. c \<noteq> CHR ''='') (urlsafe_b64encode key)}"

lemma pads: "(k + n) mod 4 = 0 \<Longrightarrow> n < 3 \<Longrightarrow> nat (- int (k + n) mod 4) = 0 \<and> nat (- int k mod 4) = n"
proof -
  assume "(k + n) mod 4 = 0" and n: "n < 3"
  then obtain q where q: "k + n = 4 * q" by (auto elim: dvdE simp flip: dvd_eq_mod_eq_0)
  then have "int k + int n = 4 * int q" by (simp flip: of_nat_add of_nat_mult)
  then have "- int (k + n) = 0 + 4 * (- int q)" "- int k = int n + 4 * (- int q)" by simp_all
  then have "- int (k + n) mod 4 = 0" "- int k mod 4 = int n mod 4" by (simp_all only: mod_mult_self2) simp
  then show ?thesis using n by simp
qed

lemma b64_padded: "pad_base64 (urlsafe_b64encode bs) = urlsafe_b64encode bs"
proof -
  obtain vs n where e: "b64_encode bs = map b64_char vs @ replicate n CHR ''=''" "(length vs + n) mod 4 = 0" "n < 3"
    using b64_letters [of bs] by (elim exE conjE) (rule that)
  then show ?thesis using pads [OF e(2,3)] by (simp add: pad_base64_def urlsafe_b64encode_def e(1))
qed

lemma secret_decodes:
  assumes "secret_of key secret"
  shows "urlsafe_b64decode (pad_base64 secret) = Some key"
proof -
  obtain vs n where e: "b64_encode key = map b64_char vs @ replicate n CHR ''=''" "\<forall>v\<in>set vs. 0 \<le> v \<and> v < 64"
    "(length vs + n) mod 4 = 0" "n < 3" using b64_letters [of key] by (elim exE conjE) (rule that)
  let ?letters = "map (\<lambda>v. to_url (b64_char v)) vs"
  have u: "urlsafe_b64encode key = ?letters @ replicate n CHR ''=''"
    by (simp add: urlsafe_b64encode_def e(1) to_url_def)
  have w: "takeWhile (\<lambda>c. c \<noteq> CHR ''='') (urlsafe_b64encode key) = ?letters"
  proof -
    have "\<forall>c\<in>set ?letters. c \<noteq> CHR ''=''" using e(2) b64_url_char(3) by auto
    then show ?thesis unfolding u by (subst takeWhile_append2) (blast, cases n, simp_all)
  qed
  have "pad_base64 secret = urlsafe_b64encode key"
    using assms pads [OF e(3,4)] unfolding secret_of_def w by (auto simp: u pad_base64_def)
  moreover have "is_ascii (urlsafe_b64encode key)" using e(2) b64_url_char(2) by (auto simp: u is_ascii_def list_all_iff)
  moreover have "map from_url (urlsafe_b64encode key) = b64_encode key"
    using e(2) b64_url_char(1) by (simp add: u e(1) from_url_def)
  ultimately show ?thesis by (simp add: urlsafe_b64decode_def a2b_round_trip)
qed

section \<open>What the server receives\<close>

text \<open>The same transport with a log of the requests that reach the client of httpx.\<close>

definition logged_transport :: "'w http_transport \<Rightarrow> ('w \<times> http_request list) http_transport" where
  "logged_transport t =
     \<lparr>tr_base_url = tr_base_url t,
      tr_client = (\<lambda>q (w, log). case tr_client t q w of (r, w') \<Rightarrow> (r, (w', log @ [q]))),
      tr_resolver = map_option (\<lambda>resolver m p b. beside (resolver m p b)) (tr_resolver t),
      tr_listener = map_option (\<lambda>listener u (w, log). case listener u w of (r, w') \<Rightarrow> (r, (w', log))) (tr_listener t),
      tr_time = (\<lambda>v. tr_time t (fst v))\<rparr>"

text \<open>
  What a server does that holds the key: it computes the HMAC of the timestamp in the header and of the method, the
  path and the body it received, and compares it to the signature in the header.
\<close>

definition server_accepts :: "hmac \<Rightarrow> byte list \<Rightarrow> string \<Rightarrow> string \<Rightarrow> http_request \<Rightarrow> bool" where
  "server_accepts hmac key signature_name timestamp_name q =
     (case (map_of (hq_headers q) signature_name, map_of (hq_headers q) timestamp_name) of
        (Some signature, Some timestamp) \<Rightarrow>
          urlsafe_b64decode signature = Some (hmac key (utf8_encode (timestamp @ hq_method q @ hq_target q)
            @ (case hq_content q of None \<Rightarrow> [] | Some body \<Rightarrow> body)))
      | _ \<Rightarrow> False)"

lemma signature_accepted:
  assumes "build_hmac_signature hmac secret timestamp m p body = Ok signature" "secret_of key secret"
  shows "urlsafe_b64decode signature = Some (hmac key (utf8_encode (str_int timestamp @ m @ p)
    @ (case map_option utf8_encode body of None \<Rightarrow> [] | Some b \<Rightarrow> b)))"
proof -
  have "secret_of bs (urlsafe_b64encode bs)" for bs by (simp add: secret_of_def)
  then have "urlsafe_b64decode (urlsafe_b64encode bs) = Some bs" for bs
    using secret_decodes [of bs "urlsafe_b64encode bs"] b64_padded by simp
  then show ?thesis using assms(1) secret_decodes [OF assms(2)]
    by (auto simp: build_hmac_signature_def hmac_message_def utf8_encode_def split: option.splits)
qed

lemma resolve_logged:
  "resolve_headers (logged_transport t) m p body headers = beside (resolve_headers t m p body headers)"
  by (auto simp: resolve_headers_def logged_transport_def beside_def bindS_def fun_eq_iff split: option.splits prod.splits sum.splits)

lemma request_logged:
  assumes "transport_request (logged_transport t) m p params json headers (w, []) = (r, (w', sent))" "sent \<noteq> []"
  shows "\<exists>body merged w1. body_of json = Ok body \<and> resolve_headers t m p body (default_headers body headers) w = (Ok merged, w1)
    \<and> sent = [\<lparr>hq_method = m, hq_target = (if p = [] then tr_base_url t else p), hq_params = clean_params params,
        hq_content = map_option utf8_encode body, hq_headers = merged\<rparr>]"
proof (cases "body_of json")
  case (Inl e)
  then show ?thesis using assms by (simp add: transport_request_def bindS_def)
next
  case (Inr body)
  obtain h w1 where h: "resolve_headers t m p body (default_headers body headers) w = (h, w1)" by fastforce
  then have h': "resolve_headers (logged_transport t) m p body (default_headers body headers) (w, []) = (h, (w1, []))"
    unfolding resolve_logged by (simp add: beside_def)
  show ?thesis
  proof (cases h)
    case (Inl e)
    then show ?thesis using assms Inr h' by (simp add: transport_request_def bindS_def)
  next
    case (Inr merged)
    define target where "target = (if p = [] then tr_base_url t else p)"
    let ?q = "\<lparr>hq_method = m, hq_target = target, hq_params = clean_params params,
        hq_content = map_option utf8_encode body, hq_headers = merged\<rparr>"
    obtain a w2 where a: "tr_client t ?q w1 = (a, w2)" by fastforce
    then have a': "tr_client (logged_transport t) ?q (w1, []) = (a, (w2, [?q]))" by (simp add: logged_transport_def)
    have b: "(if p = [] then tr_base_url (logged_transport t) else p) = target"
      by (simp add: logged_transport_def target_def)
    have n: "snd (notify_rate_limit_update (logged_transport t) x v) = snd v" for x v
      by (cases v) (auto simp: notify_rate_limit_update_def logged_transport_def split: option.splits prod.splits)
    have "sent = [?q]"
    proof (cases a)
      case None
      then show ?thesis using assms(1) \<open>body_of json = Ok body\<close> Inr h' a' b by (simp add: transport_request_def bindS_def)
    next
      case (Some x)
      then have "(w', sent) = notify_rate_limit_update (logged_transport t) x (w2, [?q])"
        using assms(1) \<open>body_of json = Ok body\<close> Inr h' a' b by (simp add: transport_request_def bindS_def Let_def)
      then show ?thesis using n [of x "(w2, [?q])"] by (metis snd_conv)
    qed
    then show ?thesis using \<open>body_of json = Ok body\<close> h Inr unfolding target_def by blast
  qed
qed

lemma map_of_update: "map_of (fold (\<lambda>(k, v). dict_set k v) new d) k = (case map_of (rev new) k of Some v \<Rightarrow> Some v | None \<Rightarrow> map_of d k)"
  by (induction new arbitrary: d) (auto simp: map_add_def split: option.splits)

text \<open>C37: Whatever leaves the client carries credentials that a server can check against what it received: the signature
  in the headers is the HMAC, under the key of the account, of the timestamp, the method, the path and exactly the
  bytes of the body; on the builder gateway the same holds of the headers of the builder on every request but GET.\<close>

theorem requests_are_authenticated:
  assumes "transport_request (logged_transport t) m p params json headers (w, []) = (r, (w', sent))" "p \<noteq> []"
    and "tr_resolver t = Some (make_builder_gateway_header_resolver hmac seconds api_key address creds)
      \<or> tr_resolver t = Some (make_l2_header_resolver hmac seconds address creds) \<and> api_key = None"
    and "secret_of key (ak_secret creds)"
  shows "length sent \<le> 1 \<and> (\<forall>q\<in>set sent. server_accepts hmac key ''POLY_SIGNATURE'' ''POLY_TIMESTAMP'' q
    \<and> (\<forall>builder builder_key. api_key = Some (BuilderApiKey builder) \<and> secret_of builder_key (ak_secret builder) \<and> m \<noteq> ''GET''
        \<longrightarrow> server_accepts hmac builder_key ''POLY_BUILDER_SIGNATURE'' ''POLY_BUILDER_TIMESTAMP'' q))"
proof (cases "sent = []")
  case False
  obtain body merged w1 where sent: "sent = [\<lparr>hq_method = m, hq_target = p, hq_params = clean_params params,
        hq_content = map_option utf8_encode body, hq_headers = merged\<rparr>]"
    and merged: "resolve_headers t m p body (default_headers body headers) w = (Ok merged, w1)"
    using request_logged [OF assms(1) False] assms(2) by auto
  have gateway: "make_l2_header_resolver hmac seconds address creds m p body
      = make_builder_gateway_header_resolver hmac seconds None address creds m p body"
    by (simp add: make_builder_gateway_header_resolver_def bindS_def fun_eq_iff pureS_def split: prod.splits sum.splits)
  obtain hs where hs: "make_builder_gateway_header_resolver hmac seconds api_key address creds m p body w = (Ok hs, w1)"
    and m': "merged = fold (\<lambda>(k, v). dict_set k v) hs (default_headers body headers)"
    using merged assms(3) gateway by (auto simp: resolve_headers_def bindS_eq_Ok)
  obtain signature where sig: "build_hmac_signature hmac (ak_secret creds) (seconds w) m p body = Ok signature"
    using hs by (auto simp: make_builder_gateway_header_resolver_def bindS_eq_Ok make_l2_header_resolver_def Let_def)
  have account: "server_accepts hmac key ''POLY_SIGNATURE'' ''POLY_TIMESTAMP'' q"
    if "q \<in> set sent" and plain: "hs = l2_headers address creds signature (seconds w) \<or>
      (\<exists>builder s2 n. hs = fold (\<lambda>(k, v). dict_set k v) (builder_headers builder s2 n) (l2_headers address creds signature (seconds w)))" for q
    using that signature_accepted [OF sig assms(4)] sent
    by (auto simp: server_accepts_def m' map_of_update l2_headers_def builder_headers_def)
  show ?thesis
  proof (cases "\<exists>builder. api_key = Some (BuilderApiKey builder) \<and> m \<noteq> ''GET''")
    case False
    then have "hs = l2_headers address creds signature (seconds w)"
      using hs sig by (auto simp: make_builder_gateway_header_resolver_def bindS_eq_Ok make_l2_header_resolver_def Let_def
        l2_headers_def split: option.splits api_key.splits if_splits)
    then show ?thesis using account False sent by auto
  next
    case True
    then obtain builder where builder: "api_key = Some (BuilderApiKey builder)" "m \<noteq> ''GET''" by blast
    then obtain s2 where s2: "build_hmac_signature hmac (ak_secret builder) (seconds w) m p body = Ok s2"
      and hs': "hs = fold (\<lambda>(k, v). dict_set k v) (builder_headers builder s2 (seconds w)) (l2_headers address creds signature (seconds w))"
      using hs sig by (auto simp: make_builder_gateway_header_resolver_def bindS_eq_Ok make_l2_header_resolver_def Let_def
        l2_headers_def build_builder_key_headers_def builder_headers_def)
    have "server_accepts hmac bkey ''POLY_BUILDER_SIGNATURE'' ''POLY_BUILDER_TIMESTAMP'' q"
      if "secret_of bkey (ak_secret builder)" "q \<in> set sent" for bkey q
      using signature_accepted [OF s2 that(1)] that(2) sent
      by (auto simp: server_accepts_def m' hs' map_of_update l2_headers_def builder_headers_def)
    then show ?thesis using account hs' builder sent by auto
  qed
qed simp

definition demo_creds :: api_credentials where
  "demo_creds = \<lparr>ak_key = ''k'', ak_passphrase = ''p'', ak_secret = ''AQI=''\<rparr>"

definition demo_builder :: api_credentials where
  "demo_builder = \<lparr>ak_key = ''b'', ak_passphrase = ''p'', ak_secret = ''_-8''\<rparr>"

definition demo_transport :: "int http_transport" where
  "demo_transport =
     \<lparr>tr_base_url = ''https://clob'',
      tr_client = (\<lambda>q n. (Some \<lparr>hr_status = 200, hr_headers = [], hr_url = hq_target q, hr_text = [], hr_json = Some PNone,
        hr_content = []\<rparr>, n)),
      tr_resolver = Some (make_builder_gateway_header_resolver (@) id (Some (BuilderApiKey demo_builder)) ''0x1'' demo_creds),
      tr_listener = None, tr_time = of_int\<rparr>"

lemma requests_are_authenticated_witness:
  "\<exists>w' q. snd (transport_request (logged_transport demo_transport) ''POST'' ''/order'' None (Some (PDict [(''a'', PInt 1)])) [] (7, []))
      = (w', [q]) \<and> server_accepts (@) [1, 2] ''POLY_SIGNATURE'' ''POLY_TIMESTAMP'' q
    \<and> server_accepts (@) [255, 239] ''POLY_BUILDER_SIGNATURE'' ''POLY_BUILDER_TIMESTAMP'' q"
proof -
  let ?run = "transport_request (logged_transport demo_transport) ''POST'' ''/order'' None (Some (PDict [(''a'', PInt 1)])) [] (7, [])"
  obtain r w' sent where run: "?run = (r, (w', sent))" using prod_cases3 by blast
  have "length (snd (snd ?run)) = 1" by code_simp
  then have "length sent = 1" unfolding run by simp
  then obtain q where q: "sent = [q]" by (auto simp: length_Suc_conv)
  have keys: "secret_of [1, 2] (ak_secret demo_creds)" "secret_of [255, 239] (ak_secret demo_builder)" by code_simp+
  have "tr_resolver demo_transport = Some (make_builder_gateway_header_resolver (@) id (Some (BuilderApiKey demo_builder)) ''0x1'' demo_creds)"
    by (simp add: demo_transport_def)
  from requests_are_authenticated [OF run _ disjI1 [OF this] keys(1)] show ?thesis
    using keys(2) q run by auto
qed

end
