(* ===== verification/Session_Keys.thy ===== *)
theory Session_Keys imports Credentials Chain_Examples begin

text \<open>
  \<open>actions/session_keys.py\<close> and \<open>session_keys.py\<close>: authorizing and revoking the session keys of a deposit wallet.
  An operation is signed once, posted with one idempotency key and repeated after transient failures; then the
  registry is polled until it shows the result. Times are whole seconds since the epoch. The
  synchronous and the asynchronous half of the file differ only in their waits.
\<close>

section \<open>Context\<close>

record 'w session_key_io =
  sk_context :: "'w secure_context"
  sk_api_key :: "api_key option"
  sk_post :: "string \<Rightarrow> pyval \<Rightarrow> (string \<times> string) list \<Rightarrow> ('w, pyval) heff"
  sk_get :: "string \<Rightarrow> ('w, pyval) heff"
  sk_sleep :: "rat \<Rightarrow> 'w \<Rightarrow> 'w"
  sk_time :: "'w \<Rightarrow> int"
  sk_uuid :: "('w, string) eff"

definition AUTHORIZATIONS_PATH :: string where "AUTHORIZATIONS_PATH = ''/v1/session-signers/authorizations''"

definition REVOCATIONS_PATH :: string where "REVOCATIONS_PATH = ''/v1/session-signers/revocations''"

definition SESSION_KEYS_PATH :: string where "SESSION_KEYS_PATH = ''/v1/user/session-signers''"

definition SESSION_KEY_SUBMISSION_MAX_RETRIES :: nat where "SESSION_KEY_SUBMISSION_MAX_RETRIES = 2"

definition SESSION_KEY_LIFETIME_SECONDS :: int where "SESSION_KEY_LIFETIME_SECONDS = 4315 * 60 * 60"

definition sk_wallet :: "'w session_key_io \<Rightarrow> string" where "sk_wallet io = sx_wallet (sk_context io)"

definition sk_max_polls :: "'w session_key_io \<Rightarrow> nat" where
  "sk_max_polls io = nat (relayer_max_polls (sx_config (sk_context io)))"

definition sk_poll_delay :: "'w session_key_io \<Rightarrow> rat" where
  "sk_poll_delay io = of_int (relayer_poll_frequency_ms (sx_config (sk_context io))) / 1000"

text \<open>Routines on the world of the relayer, seen from the client of the node, and the other way.\<close>

definition on_relayer :: "('w, 'a) heff \<Rightarrow> ('w rpc_client, 'a) heff" where
  "on_relayer m = (\<lambda>c. case m (rpc_world c) of (r, w) \<Rightarrow> (r, c\<lparr>rpc_world := w\<rparr>))"

definition assert_owner_deposit_wallet :: "'w secure_context \<Rightarrow> unit res" where
  "assert_owner_deposit_wallet ctx =
     (if sx_wallet_type ctx \<noteq> DEPOSIT_WALLET then Raise UserInputError
      else if sx_signer_type ctx \<noteq> OWNER then Raise UserInputError else Ok ())"

definition require_builder_api_key :: "api_key option \<Rightarrow> unit res" where
  "require_builder_api_key key = (case key of Some (BuilderApiKey _) \<Rightarrow> Ok () | _ \<Rightarrow> Raise UserInputError)"

definition require_gasless_api_key :: "api_key option \<Rightarrow> unit res" where
  "require_gasless_api_key key = (if key = None then Raise UserInputError else Ok ())"

section \<open>Requests\<close>

definition is_address_text :: "string \<Rightarrow> bool" where
  "is_address_text s = (starts_with ''0x'' s \<and> length s = 42 \<and> list_all is_hex_digit (drop 2 s))"

definition parse_session_address :: "eth_library \<Rightarrow> pyval \<Rightarrow> string res" where
  "parse_session_address lib address =
     (case address of
        PStr s \<Rightarrow>
          if \<not> is_address_text s then Raise UserInputError
          else (case to_checksum_address lib s of
              Inl _ \<Rightarrow> Raise UserInputError
            | Inr normalized \<Rightarrow> if lower normalized = ZERO_ADDRESS then Raise UserInputError else Ok normalized)
      | _ \<Rightarrow> Raise UserInputError)"

text \<open>A known scope is equal to its text. \<open>PList\<close> stands for a list or a tuple.\<close>

definition parse_scopes :: "pyval \<Rightarrow> string list res" where
  "parse_scopes scopes =
     (case scopes of
        PList (x # xs) \<Rightarrow>
          bindE (traverseE (\<lambda>v. case v of PStr s \<Rightarrow> if s \<noteq> [] then Ok s else Raise UserInputError | _ \<Rightarrow> Raise UserInputError)
              (x # xs)) (\<lambda>normalized.
          if ''ALL'' \<in> set normalized \<and> list_ex (\<lambda>s. s \<noteq> ''ALL'') normalized then Raise UserInputError
          else Ok normalized)
      | _ \<Rightarrow> Raise UserInputError)"

definition parse_idempotency_key :: "'w session_key_io \<Rightarrow> pyval \<Rightarrow> ('w, string) eff" where
  "parse_idempotency_key io key =
     (case key of
        PNone \<Rightarrow> sk_uuid io
      | PStr s \<Rightarrow> if strip s = [] then failS UserInputError else pureS (strip s)
      | _ \<Rightarrow> failS UserInputError)"

record authorize_request =
  ar_address :: string
  ar_scopes :: "string list"
  ar_valid_until :: int
  ar_idempotency_key :: string

definition parse_authorize_session_key_request ::
  "'w session_key_io \<Rightarrow> pyval \<Rightarrow> pyval \<Rightarrow> pyval \<Rightarrow> ('w, authorize_request) eff" where
  "parse_authorize_session_key_request io address scopes idempotency_key =
     bindS (liftS (parse_session_address (sx_lib (sk_context io)) address)) (\<lambda>session_address.
     bindS (liftS (parse_scopes scopes)) (\<lambda>normalized_scopes w.
     let valid_until = sk_time io w + SESSION_KEY_LIFETIME_SECONDS in
     bindS (parse_idempotency_key io idempotency_key) (\<lambda>key.
     pureS \<lparr>ar_address = session_address, ar_scopes = normalized_scopes, ar_valid_until = valid_until,
       ar_idempotency_key = key\<rparr>) w))"

record revoke_request =
  rr_address :: string
  rr_idempotency_key :: string

definition parse_revoke_session_key_request :: "'w session_key_io \<Rightarrow> pyval \<Rightarrow> pyval \<Rightarrow> ('w, revoke_request) eff" where
  "parse_revoke_session_key_request io address idempotency_key =
     bindS (liftS (parse_session_address (sx_lib (sk_context io)) address)) (\<lambda>session_address.
     bindS (parse_idempotency_key io idempotency_key) (\<lambda>key.
     pureS \<lparr>rr_address = session_address, rr_idempotency_key = key\<rparr>))"

definition build_authorization_payload :: "'w session_key_io \<Rightarrow> authorize_request \<Rightarrow> signed_deposit_wallet_batch \<Rightarrow> pyval" where
  "build_authorization_payload io request batch =
     PDict [(''deadline'', PStr (sb_deadline batch)), (''nonce'', PStr (sb_nonce batch)),
       (''scopes'', PList (map PStr (ar_scopes request))), (''sessionSignerAddress'', PStr (ar_address request)),
       (''signature'', PStr (sb_signature batch)), (''validUntil'', PStr (str_int (ar_valid_until request))),
       (''walletAddress'', PStr (sk_wallet io))]"

definition build_revocation_payload :: "'w session_key_io \<Rightarrow> revoke_request \<Rightarrow> signed_deposit_wallet_batch \<Rightarrow> pyval" where
  "build_revocation_payload io request batch =
     PDict [(''deadline'', PStr (sb_deadline batch)), (''nonce'', PStr (sb_nonce batch)),
       (''sessionSignerAddress'', PStr (rr_address request)), (''signature'', PStr (sb_signature batch)),
       (''walletAddress'', PStr (sk_wallet io))]"

section \<open>Responses\<close>

definition AUTHORIZE_STATUSES :: "string list" where
  "AUTHORIZE_STATUSES = [''SUBMITTED'', ''REGISTRY_PENDING'', ''REGISTERED'', ''FAILED'', ''SUPERSEDED'', ''REPAIR_REQUIRED'']"

definition REVOKE_STATUSES :: "string list" where
  "REVOKE_STATUSES = [''PENDING'', ''FENCED'', ''SWEPT'', ''CHAIN_SUBMITTED'', ''CONFIRMED'', ''FAILED'']"

definition first_field :: "string \<Rightarrow> string \<Rightarrow> (string \<times> pyval) list \<Rightarrow> pyval" where
  "first_field alias name d = (if map_of d alias \<noteq> None then dict_get alias d else dict_get name d)"

definition parse_status :: "string list \<Rightarrow> (string \<times> pyval) list \<Rightarrow> string res" where
  "parse_status known d =
     (case dict_get ''status'' d of PStr s \<Rightarrow> if s \<in> set known then Ok s else Raise UnexpectedResponseError
      | _ \<Rightarrow> Raise UnexpectedResponseError)"

definition parse_transaction_id :: "(string \<times> pyval) list \<Rightarrow> string res" where
  "parse_transaction_id d =
     (case first_field ''transactionId'' ''transaction_id'' d of
        PStr s \<Rightarrow> if s \<noteq> [] then Ok s else Raise UnexpectedResponseError
      | _ \<Rightarrow> Raise UnexpectedResponseError)"

definition validate_transaction_hash :: "pyval \<Rightarrow> string option res" where
  "validate_transaction_hash v =
     (case v of
        PNone \<Rightarrow> Ok None
      | PStr s \<Rightarrow>
          if s = [] then Ok None
          else if starts_with ''0x'' s \<and> length s = 66 \<and> list_all is_hex_digit (drop 2 s) then Ok (Some s)
          else Raise UnexpectedResponseError
      | _ \<Rightarrow> Raise UnexpectedResponseError)"

record authorize_response =
  ao_status :: string
  ao_transaction_hash :: "string option"
  ao_transaction_id :: string

definition parse_authorize_response :: "pyval \<Rightarrow> authorize_response res" where
  "parse_authorize_response data =
     (case data of
        PDict d \<Rightarrow>
          bindE (parse_status AUTHORIZE_STATUSES d) (\<lambda>status.
          bindE (validate_transaction_hash (first_field ''transactionHash'' ''transaction_hash'' d)) (\<lambda>hash.
          bindE (parse_transaction_id d) (\<lambda>transaction_id.
          Ok \<lparr>ao_status = status, ao_transaction_hash = hash, ao_transaction_id = transaction_id\<rparr>)))
      | _ \<Rightarrow> Raise UnexpectedResponseError)"

definition parse_revoke_response :: "pyval \<Rightarrow> string res" where
  "parse_revoke_response data =
     (case data of
        PDict d \<Rightarrow>
          bindE (parse_status REVOKE_STATUSES d) (\<lambda>status.
          bindE (case dict_get ''fenced'' d of PBool _ \<Rightarrow> Ok () | _ \<Rightarrow> Raise UnexpectedResponseError) (\<lambda>_.
          bindE (parse_transaction_id d) (\<lambda>_. Ok status)))
      | _ \<Rightarrow> Raise UnexpectedResponseError)"

definition assert_authorization_accepted :: "string \<Rightarrow> unit res" where
  "assert_authorization_accepted status =
     (if status \<in> {''FAILED'', ''SUPERSEDED'', ''REPAIR_REQUIRED''} then Raise TransactionFailedError else Ok ())"

definition assert_revocation_accepted :: "string \<Rightarrow> unit res" where
  "assert_revocation_accepted status = (if status = ''FAILED'' then Raise TransactionFailedError else Ok ())"

record session_key =
  ks_address :: string
  ks_scopes :: "string list"
  ks_valid_until :: int

definition normalize_response_address :: "eth_library \<Rightarrow> pyval \<Rightarrow> string res" where
  "normalize_response_address lib v =
     (case v of
        PStr s \<Rightarrow>
          if \<not> is_address_text s then Raise UnexpectedResponseError
          else (case to_checksum_address lib s of Inl _ \<Rightarrow> Raise UnexpectedResponseError | Inr a \<Rightarrow> Ok a)
      | _ \<Rightarrow> Raise UnexpectedResponseError)"

definition validate_scopes :: "pyval \<Rightarrow> string list res" where
  "validate_scopes v =
     (case v of
        PList (x # xs) \<Rightarrow> traverseE (\<lambda>v. case v of PStr s \<Rightarrow> if s \<noteq> [] then Ok s else Raise UnexpectedResponseError
            | _ \<Rightarrow> Raise UnexpectedResponseError) (x # xs)
      | _ \<Rightarrow> Raise UnexpectedResponseError)"

text \<open>The last second that a \<open>datetime\<close> holds bounds the expiry.\<close>

definition normalize_valid_until :: "pyval \<Rightarrow> int res" where
  "normalize_valid_until v =
     (case v of PInt n \<Rightarrow> if 0 \<le> n \<and> n \<le> 253402300799 then Ok n else Raise UnexpectedResponseError
      | _ \<Rightarrow> Raise UnexpectedResponseError)"

definition parse_session_key :: "eth_library \<Rightarrow> pyval \<Rightarrow> session_key res" where
  "parse_session_key lib v =
     (case v of
        PDict d \<Rightarrow>
          bindE (normalize_response_address lib (dict_get ''address'' d)) (\<lambda>address.
          bindE (validate_scopes (dict_get ''scopes'' d)) (\<lambda>scopes.
          bindE (normalize_valid_until (dict_get ''valid_until'' d)) (\<lambda>valid_until.
          Ok \<lparr>ks_address = address, ks_scopes = scopes, ks_valid_until = valid_until\<rparr>)))
      | _ \<Rightarrow> Raise UnexpectedResponseError)"

text \<open>\<open>_FetchSessionKeysResponse\<close> and \<open>_build_session_keys\<close>: the registry must answer for this wallet.\<close>

definition build_session_keys :: "'w session_key_io \<Rightarrow> pyval \<Rightarrow> session_key list res" where
  "build_session_keys io data =
     (case data of
        PDict d \<Rightarrow>
          bindE (case dict_get ''signers'' d of
              PList xs \<Rightarrow> traverseE (parse_session_key (sx_lib (sk_context io))) xs | _ \<Rightarrow> Raise UnexpectedResponseError) (\<lambda>keys.
          bindE (normalize_response_address (sx_lib (sk_context io)) (dict_get ''wallet'' d)) (\<lambda>wallet.
          if lower wallet \<noteq> lower (sk_wallet io) then Raise UnexpectedResponseError else Ok keys))
      | _ \<Rightarrow> Raise UnexpectedResponseError)"

definition fetch_session_keys :: "'w session_key_io \<Rightarrow> ('w, session_key list) heff" where
  "fetch_session_keys io =
     bindH (raising (liftS (assert_owner_deposit_wallet (sk_context io)))) (\<lambda>_.
     then_parse (build_session_keys io) (sk_get io SESSION_KEYS_PATH))"

section \<open>Posting an operation\<close>

text \<open>RateLimitError, RequestRejectedError and TransportError, the exceptions that the loop looks at.\<close>

definition is_retryable_session_key_submission :: "http_error \<Rightarrow> bool" where
  "is_retryable_session_key_submission e =
     (case e of
        Rate_Limited _ _ \<Rightarrow> True
      | Failed TransportError \<Rightarrow> True
      | _ \<Rightarrow> (case rejected_status e of Some status \<Rightarrow> 500 \<le> status \<and> status < 600 | None \<Rightarrow> False))"

definition session_key_retry_delay_s :: "'w session_key_io \<Rightarrow> http_error \<Rightarrow> rat" where
  "session_key_retry_delay_s io e =
     (case (case e of Rate_Limited t _ \<Rightarrow> t | Request_Rejected _ _ _ t _ \<Rightarrow> t | _ \<Rightarrow> None) of
        Some t \<Rightarrow> max (dval t) 0
      | None \<Rightarrow> sk_poll_delay io)"

fun post_attempts :: "'w session_key_io \<Rightarrow> string \<Rightarrow> pyval \<Rightarrow> string \<Rightarrow> nat \<Rightarrow> ('w, pyval) heff" where
  "post_attempts io path payload idempotency_key retries w =
     (case sk_post io path payload [(''Idempotency-Key'', idempotency_key)] w of
        (Inr data, w) \<Rightarrow> (Inr data, w)
      | (Inl e, w) \<Rightarrow>
          (case retries of
             0 \<Rightarrow> (Inl e, w)
           | Suc n \<Rightarrow>
               if is_retryable_session_key_submission e
               then post_attempts io path payload idempotency_key n (sk_sleep io (session_key_retry_delay_s io e) w)
               else (Inl e, w)))"

declare post_attempts.simps [simp del]

definition post_session_key_operation ::
  "'w session_key_io \<Rightarrow> string \<Rightarrow> pyval \<Rightarrow> string \<Rightarrow> (pyval \<Rightarrow> 'a res) \<Rightarrow> ('w, 'a) heff" where
  "post_session_key_operation io path payload idempotency_key parse =
     then_parse parse (post_attempts io path payload idempotency_key SESSION_KEY_SUBMISSION_MAX_RETRIES)"

section \<open>Waiting for the registry\<close>

definition is_retryable_session_key_registry_read :: "http_error \<Rightarrow> bool" where
  "is_retryable_session_key_registry_read e =
     (case e of
        Rate_Limited _ _ \<Rightarrow> True
      | Failed TransportError \<Rightarrow> True
      | _ \<Rightarrow> (case rejected_status e of Some status \<Rightarrow> status = 404 \<or> 500 \<le> status \<and> status < 600 | None \<Rightarrow> False))"

definition fetch_session_keys_for_revocation :: "'w session_key_io \<Rightarrow> ('w, session_key list option) heff" where
  "fetch_session_keys_for_revocation io = (\<lambda>w.
     case fetch_session_keys io w of
       (Inr keys, w) \<Rightarrow> (Inr (Some keys), w)
     | (Inl e, w) \<Rightarrow> (if is_retryable_session_key_registry_read e then Inr None else Inl e, w))"

definition fetch_session_keys_for_readiness :: "'w session_key_io \<Rightarrow> ('w, session_key list) heff" where
  "fetch_session_keys_for_readiness io = (\<lambda>w.
     case fetch_session_keys io w of
       (Inr keys, w) \<Rightarrow> (Inr keys, w)
     | (Inl e, w) \<Rightarrow> (if is_retryable_session_key_registry_read e then Inr [] else Inl e, w))"

definition is_expected_session_key :: "authorize_request \<Rightarrow> session_key \<Rightarrow> bool" where
  "is_expected_session_key expected key =
     (lower (ks_address key) = lower (ar_address expected) \<and> ks_valid_until key = ar_valid_until expected
      \<and> set (ks_scopes key) = set (ar_scopes expected))"

text \<open>The polls of the registry: \<open>seen\<close> decides whether a poll ends the wait. There is no pause after the last.\<close>

fun poll_registry :: "'w session_key_io \<Rightarrow> ('w, 'a) heff \<Rightarrow> ('a \<Rightarrow> 'b option) \<Rightarrow> nat \<Rightarrow> ('w, 'b) heff" where
  "poll_registry io fetch seen 0 w = (Inl (Failed TimeoutError), w)"
| "poll_registry io fetch seen (Suc n) w =
     (case fetch w of
        (Inl e, w) \<Rightarrow> (Inl e, w)
      | (Inr x, w) \<Rightarrow>
          (case seen x of
             Some y \<Rightarrow> (Inr y, w)
           | None \<Rightarrow> poll_registry io fetch seen n (if n = 0 then w else sk_sleep io (sk_poll_delay io) w)))"

definition wait_for_authorized_session_key :: "'w session_key_io \<Rightarrow> authorize_request \<Rightarrow> ('w, session_key) heff" where
  "wait_for_authorized_session_key io expected =
     poll_registry io (fetch_session_keys_for_readiness io) (find (is_expected_session_key expected)) (sk_max_polls io)"

definition revoked :: "string \<Rightarrow> session_key list option \<Rightarrow> unit option" where
  "revoked address keys =
     (case keys of
        Some ks \<Rightarrow> if list_all (\<lambda>k. lower (ks_address k) \<noteq> lower address) ks then Some () else None
      | None \<Rightarrow> None)"

definition wait_for_revoked_session_key :: "'w session_key_io \<Rightarrow> string \<Rightarrow> ('w, unit) heff" where
  "wait_for_revoked_session_key io address =
     poll_registry io (fetch_session_keys_for_revocation io) (revoked address) (sk_max_polls io)"

section \<open>Operations\<close>

definition authorize_session_key ::
  "'w session_key_io \<Rightarrow> pyval \<Rightarrow> pyval \<Rightarrow> pyval \<Rightarrow> ('w rpc_client, session_key \<times> transaction_outcome) heff" where
  "authorize_session_key io address scopes idempotency_key =
     (let ctx = sk_context io in
      bindH (raising (liftS (assert_owner_deposit_wallet ctx))) (\<lambda>_.
      bindH (raising (liftS (require_builder_api_key (sk_api_key io)))) (\<lambda>_.
      bindH (on_relayer (raising (parse_authorize_session_key_request io address scopes idempotency_key))) (\<lambda>request.
      bindH (raising (liftS (authorize_session_signer_call (sx_lib ctx) (sx_wallet ctx) (ar_address request)
          (PInt (ar_valid_until request))))) (\<lambda>call.
      bindH (raising (build_signed_deposit_wallet_batch ctx [call] None)) (\<lambda>batch.
      bindH (on_relayer (post_session_key_operation io AUTHORIZATIONS_PATH (build_authorization_payload io request batch)
          (ar_idempotency_key request) parse_authorize_response)) (\<lambda>response.
      bindH (raising (liftS (assert_authorization_accepted (ao_status response)))) (\<lambda>_.
      bindH (on_relayer (raising (gasless_handle_wait (sx_relayer ctx)
          \<lparr>gh_transaction_id = ao_transaction_id response, gh_transaction_hash = ao_transaction_hash response,
           gh_max_polls = relayer_max_polls (sx_config ctx)\<rparr>))) (\<lambda>transaction.
      bindH (on_relayer (wait_for_authorized_session_key io request)) (\<lambda>session_key.
      raising (pureS (session_key, transaction))))))))))))"

definition revoke_session_key :: "'w session_key_io \<Rightarrow> pyval \<Rightarrow> pyval \<Rightarrow> ('w rpc_client, unit) heff" where
  "revoke_session_key io address idempotency_key =
     (let ctx = sk_context io in
      bindH (raising (liftS (assert_owner_deposit_wallet ctx))) (\<lambda>_.
      bindH (raising (liftS (require_gasless_api_key (sk_api_key io)))) (\<lambda>_.
      bindH (on_relayer (raising (parse_revoke_session_key_request io address idempotency_key))) (\<lambda>request.
      bindH (raising (liftS (revoke_session_signer_call (sx_lib ctx) (sx_wallet ctx) (rr_address request)))) (\<lambda>call.
      bindH (raising (build_signed_deposit_wallet_batch ctx [call] None)) (\<lambda>batch.
      bindH (on_relayer (post_session_key_operation io REVOCATIONS_PATH (build_revocation_payload io request batch)
          (rr_idempotency_key request) parse_revoke_response)) (\<lambda>status.
      bindH (raising (liftS (assert_revocation_accepted status))) (\<lambda>_.
      on_relayer (wait_for_revoked_session_key io (rr_address request))))))))))"

section \<open>What an operation achieves\<close>

text \<open>
  The same environment with a log of the operations posted and of the reads of the registry, with their results;
  nothing else in it changes.
\<close>

datatype key_event = Posted string pyval "(string \<times> string) list" "pyval http" | Listed "pyval http"

type_synonym key_log = "key_event list"

definition beside_context :: "'w secure_context \<Rightarrow> ('w \<times> key_log) secure_context" where
  "beside_context ctx =
     \<lparr>sx_has_api_key = sx_has_api_key ctx, sx_wallet = sx_wallet ctx, sx_wallet_type = sx_wallet_type ctx,
      sx_signer_type = sx_signer_type ctx, sx_signer = sx_signer ctx, sx_config = sx_config ctx,
      sx_relayer =
        \<lparr>rl_get_json = (\<lambda>path params. beside (rl_get_json (sx_relayer ctx) path params)),
         rl_post_json = (\<lambda>path payload. beside (rl_post_json (sx_relayer ctx) path payload)),
         rl_sleep = map_prod (rl_sleep (sx_relayer ctx)) id, rl_time = (\<lambda>v. rl_time (sx_relayer ctx) (fst v))\<rparr>,
      sx_post_rpc = (\<lambda>v. beside (sx_post_rpc ctx v)), sx_lib = sx_lib ctx\<rparr>"

definition logging_keys :: "'w session_key_io \<Rightarrow> ('w \<times> key_log) session_key_io" where
  "logging_keys io =
     \<lparr>sk_context = beside_context (sk_context io), sk_api_key = sk_api_key io,
      sk_post = (\<lambda>path payload headers (w, log).
        case sk_post io path payload headers w of (r, w') \<Rightarrow> (r, (w', log @ [Posted path payload headers r]))),
      sk_get = (\<lambda>path (w, log). case sk_get io path w of (r, w') \<Rightarrow> (r, (w', log @ [Listed r]))),
      sk_sleep = (\<lambda>d. map_prod (sk_sleep io d) id), sk_time = (\<lambda>v. sk_time io (fst v)), sk_uuid = beside (sk_uuid io)\<rparr>"

lemma logging_keys_simps [simp]:
  "sk_context (logging_keys io) = beside_context (sk_context io)" "sk_api_key (logging_keys io) = sk_api_key io"
  "sx_lib (beside_context ctx) = sx_lib ctx" "sx_wallet (beside_context ctx) = sx_wallet ctx"
  "sx_config (beside_context ctx) = sx_config ctx" "sx_wallet_type (beside_context ctx) = sx_wallet_type ctx"
  "sx_signer_type (beside_context ctx) = sx_signer_type ctx" "sx_signer (beside_context ctx) = sx_signer ctx"
  by (simp_all add: logging_keys_def beside_context_def)

lemma logging_keys_config [simp]:
  "sk_wallet (logging_keys io) = sk_wallet io" "sk_max_polls (logging_keys io) = sk_max_polls io"
  "sk_poll_delay (logging_keys io) = sk_poll_delay io"
  by (simp_all add: sk_wallet_def sk_max_polls_def sk_poll_delay_def)

lemma logging_keys_reads [simp]:
  "session_key_retry_delay_s (logging_keys io) = session_key_retry_delay_s io"
  "build_session_keys (logging_keys io) = build_session_keys io"
  "build_authorization_payload (logging_keys io) = build_authorization_payload io"
  "build_revocation_payload (logging_keys io) = build_revocation_payload io"
  "assert_owner_deposit_wallet (beside_context ctx) = assert_owner_deposit_wallet ctx"
  unfolding session_key_retry_delay_s_def build_session_keys_def build_authorization_payload_def
    build_revocation_payload_def assert_owner_deposit_wallet_def fun_eq_iff logging_keys_simps logging_keys_config
  by simp_all

definition events_of :: "('w \<times> key_log) rpc_client \<Rightarrow> key_log" where
  "events_of c = snd (rpc_world c)"

lemma silent_rpc_beside: "silent events_of (rpc_call (\<lambda>v. beside (post v)) method params)"
  by (rule silentI) (simp add: rpc_call_def bindS_app build_envelope_def rpc_post_def beside_def events_of_def
      Let_def split: prod.split sum.split)

lemma silent_batch: "silent events_of (build_signed_deposit_wallet_batch (beside_context ctx) calls nonce)"
proof -
  have deadline: "silent events_of (deposit_wallet_deadline (beside_context ctx))"
  proof (rule silentI)
    fix c :: "('a \<times> key_log) rpc_client"
    have "silent events_of (bindS (eth_get_latest_block_timestamp (\<lambda>v. beside (sx_post_rpc ctx v))) (\<lambda>latest. pureS (f latest)))"
      for f :: "int \<Rightarrow> string"
      unfolding eth_get_latest_block_timestamp_def by (intro silent_intros silent_rpc_beside)
    then show "events_of (snd (deposit_wallet_deadline (beside_context ctx) c)) = events_of c"
      by (simp add: deposit_wallet_deadline_def Let_def silentD beside_context_def)
  qed
  have params: "silent events_of (on_world (fetch_execute_params (sx_relayer (beside_context ctx)) address t))" for address t
    unfolding fetch_execute_params_def
    by (rule silentI) (simp add: on_world_def beside_context_def beside_def bindS_app events_of_def
        split: prod.split sum.split)
  show ?thesis unfolding build_signed_deposit_wallet_batch_def
    by (cases nonce) (simp_all add: silent_intros params deadline)
qed

lemma silent_wait: "snd (snd (gasless_handle_wait (sx_relayer (beside_context ctx)) handle v)) = snd v"
proof -
  have attempt: "snd (snd (poll_attempt (sx_relayer (beside_context ctx)) i h v)) = snd v" for i h and v :: "'a \<times> key_log"
    by (cases v) (simp add: poll_attempt_def fetch_gasless_transaction_def beside_context_def beside_def bindS_app
        split: prod.split sum.split)
  have "snd (snd (poll_loop (sx_relayer (beside_context ctx)) i h n v)) = snd v" for i h n and v :: "'a \<times> key_log"
  proof (induction n arbitrary: v)
    case (Suc n)
    obtain r v1 where 1: "poll_attempt (sx_relayer (beside_context ctx)) i h v = (r, v1)" by (meson surj_pair)
    then have "snd v1 = snd v" using attempt [of i h v] by simp
    moreover have "snd (rl_sleep (sx_relayer (beside_context ctx)) v1) = snd v1" by (cases v1) (simp add: beside_context_def)
    ultimately show ?case using 1 Suc.IH [of "rl_sleep (sx_relayer (beside_context ctx)) v1"]
      by (auto split: sum.split option.split)
  qed simp
  then show ?thesis by (simp add: gasless_handle_wait_def poll_until_terminal_def)
qed

text \<open>The attempts to post: one payload and one key, each but the last failed for a reason that passes.\<close>

definition posts_of :: "string \<Rightarrow> pyval \<Rightarrow> string \<Rightarrow> nat \<Rightarrow> pyval http \<Rightarrow> key_log \<Rightarrow> bool" where
  "posts_of path payload key n r new \<longleftrightarrow>
     (\<exists>failures. length failures \<le> n \<and> list_all is_retryable_session_key_submission failures
      \<and> new = map (\<lambda>a. Posted path payload [(''Idempotency-Key'', key)] a) (map Inl failures @ [r]))"

lemma post_attempts_logged:
  assumes "post_attempts (logging_keys io) path payload key n v = (r, v')"
  shows "\<exists>new. snd v' = snd v @ new \<and> posts_of path payload key n r new"
  using assms
proof (induction n arbitrary: v)
  case 0
  obtain w l where v: "v = (w, l)" by fastforce
  show ?case using 0 unfolding v posts_of_def
    by (auto simp: post_attempts.simps [of _ _ _ _ 0] logging_keys_def split: prod.splits sum.splits)
next
  case (Suc n)
  obtain w l where v: "v = (w, l)" by fastforce
  obtain r1 w1 where 1: "sk_post io path payload [(''Idempotency-Key'', key)] w = (r1, w1)" by fastforce
  let ?p = "\<lambda>r. Posted path payload [(''Idempotency-Key'', key)] r"
  have post: "sk_post (logging_keys io) path payload [(''Idempotency-Key'', key)] v = (r1, (w1, l @ [?p r1]))"
    by (simp add: logging_keys_def v 1)
  show ?case
  proof (cases "\<exists>e. r1 = Inl e \<and> is_retryable_session_key_submission e")
    case True
    then obtain e where e: "r1 = Inl e" "is_retryable_session_key_submission e" by blast
    have "post_attempts (logging_keys io) path payload key n (sk_sleep (logging_keys io) (session_key_retry_delay_s io e) (w1, l @ [?p r1])) = (r, v')"
      using Suc.prems post e by (simp add: post_attempts.simps [of _ _ _ _ "Suc n"])
    from Suc.IH [OF this] obtain new failures where
      "snd v' = (l @ [?p r1]) @ new" "length failures \<le> n" "list_all is_retryable_session_key_submission failures"
      "new = map ?p (map Inl failures @ [r])" by (auto simp: posts_of_def logging_keys_def)
    then show ?thesis using e v unfolding posts_of_def
      by (intro exI [of _ "?p r1 # new"] conjI exI [of _ "e # failures"]) simp_all
  next
    case False
    then have "(r, v') = (r1, (w1, l @ [?p r1]))"
      using Suc.prems post by (auto simp: post_attempts.simps [of _ _ _ _ "Suc n"] split: sum.splits)
    then show ?thesis unfolding posts_of_def by (auto simp: v)
  qed
qed

text \<open>The reads of the registry: the last of them is the one that decides.\<close>

lemma poll_registry_logged:
  assumes "poll_registry (logging_keys io) fetch seen n v = (Inr y, v')"
    and fetch: "\<And>v x v'. fetch v = (Inr x, v') \<Longrightarrow> \<exists>a. snd v' = snd v @ [Listed a] \<and> (\<forall>y. seen x = Some y \<longrightarrow> Q a y)"
  shows "\<exists>reads a. snd v' = snd v @ map Listed reads @ [Listed a] \<and> Q a y"
  using assms(1)
proof (induction n arbitrary: v)
  case (Suc n)
  then obtain x v1 where x: "fetch v = (Inr x, v1)" by (auto split: prod.splits sum.splits)
  then obtain a where a: "snd v1 = snd v @ [Listed a]" "\<forall>y. seen x = Some y \<longrightarrow> Q a y" using fetch by blast
  show ?case
  proof (cases "seen x")
    case None
    have "snd (if n = 0 then v1 else sk_sleep (logging_keys io) (sk_poll_delay (logging_keys io)) v1) = snd v1"
      by (cases v1) (simp add: logging_keys_def)
    then obtain reads b where "snd v' = snd v1 @ map Listed reads @ [Listed b]" "Q b y"
      using Suc.IH [of "if n = 0 then v1 else sk_sleep (logging_keys io) (sk_poll_delay (logging_keys io)) v1"] Suc.prems x None by auto
    then show ?thesis using a(1) by (intro exI [of _ "a # reads"] exI [of _ b]) simp
  next
    case (Some z)
    then show ?thesis using Suc.prems x a by (intro exI [of _ "[]"] exI [of _ a]) auto
  qed
qed simp

lemma fetch_logged:
  assumes "fetch_session_keys (logging_keys io) v = (r, v')" "assert_owner_deposit_wallet (sk_context io) = Ok ()"
  shows "\<exists>a. snd v' = snd v @ [Listed a] \<and> (\<forall>keys. r = Inr keys \<longrightarrow> (\<exists>data. a = Inr data \<and> build_session_keys io data = Ok keys))"
proof -
  obtain w l where v: "v = (w, l)" by fastforce
  obtain a w1 where "sk_get io SESSION_KEYS_PATH w = (a, w1)" by fastforce
  then have "sk_get (logging_keys io) SESSION_KEYS_PATH v = (a, (w1, l @ [Listed a]))" by (simp add: logging_keys_def v)
  then show ?thesis using assms v
    by (auto simp: fetch_session_keys_def bindH_def raising_def then_parse_def split: sum.splits prod.splits)
qed

definition reads_of :: "(pyval http \<Rightarrow> bool) \<Rightarrow> key_log \<Rightarrow> bool" where
  "reads_of Q new \<longleftrightarrow> (\<exists>reads a. new = map Listed reads @ [Listed a] \<and> Q a)"

lemma wait_authorized_logged:
  assumes "wait_for_authorized_session_key (logging_keys io) request v = (Inr k, v')"
    "assert_owner_deposit_wallet (sk_context io) = Ok ()"
  shows "\<exists>new. snd v' = snd v @ new \<and> reads_of (\<lambda>a. \<exists>data keys. a = Inr data \<and> build_session_keys io data = Ok keys \<and> k \<in> set keys) new
    \<and> is_expected_session_key request k"
proof -
  have "\<exists>a. snd v' = snd v @ [Listed a] \<and> (\<forall>k. find (is_expected_session_key request) x = Some k \<longrightarrow>
      (\<exists>data keys. a = Inr data \<and> build_session_keys io data = Ok keys \<and> k \<in> set keys) \<and> is_expected_session_key request k)"
    if "fetch_session_keys_for_readiness (logging_keys io) v = (Inr x, v')" for v x and v' :: "'a \<times> key_log"
  proof -
    obtain r v1 where f: "fetch_session_keys (logging_keys io) v = (r, v1)" by (meson surj_pair)
    have "v1 = v' \<and> (r = Inr x \<or> x = [])"
      using that f by (auto simp: fetch_session_keys_for_readiness_def split: sum.splits if_splits)
    moreover have "k \<in> set x \<and> is_expected_session_key request k" if "find (is_expected_session_key request) x = Some k" for k
      using that by (auto simp: find_Some_iff)
    ultimately show ?thesis using fetch_logged [OF f assms(2)] by auto
  qed
  from poll_registry_logged [OF assms(1) [unfolded wait_for_authorized_session_key_def] this]
  show ?thesis unfolding reads_of_def by blast
qed

lemma wait_revoked_logged:
  assumes "wait_for_revoked_session_key (logging_keys io) address v = (Inr u, v')"
    "assert_owner_deposit_wallet (sk_context io) = Ok ()"
  shows "\<exists>new. snd v' = snd v @ new \<and> reads_of (\<lambda>a. \<exists>data keys. a = Inr data \<and> build_session_keys io data = Ok keys
    \<and> (\<forall>k\<in>set keys. lower (ks_address k) \<noteq> lower address)) new"
proof -
  have "\<exists>a. snd v' = snd v @ [Listed a] \<and> (\<forall>u. revoked address x = Some u \<longrightarrow>
      (\<exists>data keys. a = Inr data \<and> build_session_keys io data = Ok keys \<and> (\<forall>k\<in>set keys. lower (ks_address k) \<noteq> lower address)))"
    if "fetch_session_keys_for_revocation (logging_keys io) v = (Inr x, v')" for v x and v' :: "'a \<times> key_log"
  proof -
    obtain r v1 where f: "fetch_session_keys (logging_keys io) v = (r, v1)" by (meson surj_pair)
    have "v1 = v' \<and> (x = None \<or> (\<exists>keys. r = Inr keys \<and> x = Some keys))"
      using that f by (auto simp: fetch_session_keys_for_revocation_def split: sum.splits if_splits)
    then show ?thesis using fetch_logged [OF f assms(2)] by (auto simp: revoked_def list_all_iff split: if_splits)
  qed
  from poll_registry_logged [OF assms(1) [unfolded wait_for_revoked_session_key_def] this]
  show ?thesis unfolding reads_of_def by blast
qed

lemma on_relayer_Inr: "on_relayer m c = (Inr x, c') \<longleftrightarrow> (\<exists>v. m (rpc_world c) = (Inr x, v) \<and> c' = c\<lparr>rpc_world := v\<rparr>)"
  by (auto simp: on_relayer_def split: prod.split)

lemma post_operation_logged:
  assumes "post_session_key_operation (logging_keys io) path payload key parse v = (Inr x, v')"
  shows "\<exists>new data. snd v' = snd v @ new \<and> posts_of path payload key SESSION_KEY_SUBMISSION_MAX_RETRIES (Inr data) new
    \<and> parse data = Ok x"
proof -
  obtain r v1 where r: "post_attempts (logging_keys io) path payload key SESSION_KEY_SUBMISSION_MAX_RETRIES v = (r, v1)"
    by (meson surj_pair)
  then obtain data where "r = Inr data" "parse data = Ok x" "v1 = v'"
    using assms by (auto simp: post_session_key_operation_def then_parse_def split: sum.splits)
  then show ?thesis using post_attempts_logged [OF r] by blast
qed

lemma request_silent:
  assumes "parse_authorize_session_key_request (logging_keys io) address scopes key v = (Ok request, v')"
  shows "snd v' = snd v \<and> parse_session_address (sx_lib (sk_context io)) address = Ok (ar_address request)
    \<and> parse_scopes scopes = Ok (ar_scopes request)
    \<and> ar_valid_until request = sk_time io (fst v) + SESSION_KEY_LIFETIME_SECONDS"
  using assms by (cases v) (auto simp: parse_authorize_session_key_request_def bindS_app parse_idempotency_key_def beside_def
      logging_keys_def Let_def pureS_def liftS_def beside_context_def split: sum.splits prod.splits pyval.splits if_splits)

lemma revocation_silent:
  assumes "parse_revoke_session_key_request (logging_keys io) address key v = (Ok request, v')"
  shows "snd v' = snd v \<and> parse_session_address (sx_lib (sk_context io)) address = Ok (rr_address request)"
  using assms by (cases v) (auto simp: parse_revoke_session_key_request_def bindS_app parse_idempotency_key_def beside_def
      logging_keys_def pureS_def liftS_def beside_context_def split: sum.splits prod.splits pyval.splits if_splits)

text \<open>A batch that carries the owner's signature of one call.\<close>

definition signed_batch :: "'w secure_context \<Rightarrow> transaction_call res \<Rightarrow> signed_deposit_wallet_batch \<Rightarrow> bool" where
  "signed_batch ctx call batch \<longleftrightarrow>
     (\<exists>c signature. call = Ok c
        \<and> sign_deposit_wallet_batch (sx_lib ctx) (sx_signer ctx) (sx_wallet ctx) [c] (sb_nonce batch) (sb_deadline batch)
            (chain_id (sx_config ctx)) = Ok signature
        \<and> wrap_deposit_wallet_signature (sx_lib ctx) (sx_address ctx) (sx_signer_type ctx) signature = Ok (sb_signature batch))"

lemma batch_is_signed:
  assumes "build_signed_deposit_wallet_batch (beside_context ctx) [call] None c = (Ok batch, c')"
  shows "signed_batch ctx (Ok call) batch \<and> events_of c' = events_of c"
proof -
  have "sx_address (beside_context ctx) = sx_address ctx" by (simp add: sx_address_def)
  then have "signed_batch ctx (Ok call) batch"
    using assms by (auto simp: build_signed_deposit_wallet_batch_def bindS_app liftS_def pureS_def signed_batch_def
        split: sum.splits prod.splits)
  then show ?thesis using silentD [OF silent_batch, of ctx "[call]" None c] assms by simp
qed

text \<open>
  A server for the witnesses: the first request to post fails, and so does the first read of the registry, which
  shows one key after that.
\<close>

definition demo_key_text :: string where "demo_key_text = ''0x1111111111111111111111111111111111111111''"

definition other_key_text :: string where "other_key_text = ''0x2222222222222222222222222222222222222222''"

definition demo_wallet :: string where "demo_wallet = ''0xa0a0a0a0a0a0a0a0a0a0a0a0a0a0a0a0a0a0a0a0''"

definition demo_lib :: eth_library where
  "demo_lib = toy_library\<lparr>keccak := (\<lambda>bs. replicate 32 0), abi_encode := (\<lambda>types vs. Ok [1]), to_checksum_address := Ok\<rparr>"

definition demo_registry :: pyval where
  "demo_registry = PDict [(''wallet'', PStr demo_wallet),
     (''signers'', PList [PDict [(''address'', PStr demo_key_text), (''scopes'', PList [PStr ''TRADE'']),
        (''valid_until'', PInt (1000 + SESSION_KEY_LIFETIME_SECONDS))]])]"

definition registry_context :: "nat secure_context" where
  "registry_context = sample_context
     \<lparr>sx_wallet := demo_wallet, sx_lib := demo_lib, sx_config := PRODUCTION\<lparr>relayer_max_polls := 2\<rparr>,
      sx_relayer := nonce_relayer\<lparr>rl_get_json := (\<lambda>path params n. (Ok (PDict [(''address'', PStr ''0x''), (''nonce'', PStr ''1''),
        (''state'', PStr ''STATE_CONFIRMED''), (''transaction_hash'', PStr ''0x1''), (''transaction_id'', PStr ''t'')]), n))\<rparr>\<rparr>"

definition registry_keys :: "nat session_key_io" where
  "registry_keys =
     \<lparr>sk_context = registry_context, sk_api_key = Some (BuilderApiKey demo_builder),
      sk_post = (\<lambda>path payload headers n.
        (if n = 0 then Inl (Failed TransportError)
         else Inr (PDict [(''status'', PStr (if path = AUTHORIZATIONS_PATH then ''SUBMITTED'' else ''PENDING'')),
           (''transactionId'', PStr ''t''), (''fenced'', PBool False)]), n + 1)),
      sk_get = (\<lambda>path n. (if n = 2 then Inl (Failed TransportError) else Inr demo_registry, n + 1)),
      sk_sleep = (\<lambda>d n. n), sk_time = (\<lambda>n. 1000), sk_uuid = pureS ''u''\<rparr>"

definition registry_client :: "(nat \<times> key_log) rpc_client" where
  "registry_client = \<lparr>rpc_id = 0, rpc_verified_chain_id = None, rpc_world = (0, [])\<rparr>"

text \<open>C38: When a session key is reported as authorized, the owner signed the call that authorizes exactly the
  key of the caller, for the lifetime from now on; this operation and no other was posted, at most three
  times, under one idempotency key, each time but the last failing for a reason that passes; the relayer
  accepted the last; and a later read of the registry of this wallet showed the key with exactly the scopes
  and the expiry asked for.\<close>

theorem session_key_authorized:
  assumes "authorize_session_key (logging_keys io) address scopes idempotency_key c = (Inr (k, transaction), c')"
  shows "\<exists>request batch posts data response reads. events_of c' = events_of c @ posts @ reads
    \<and> parse_session_address (sx_lib (sk_context io)) address = Ok (ar_address request)
    \<and> parse_scopes scopes = Ok (ar_scopes request)
    \<and> ar_valid_until request = sk_time io (fst (rpc_world c)) + SESSION_KEY_LIFETIME_SECONDS
    \<and> signed_batch (sk_context io) (authorize_session_signer_call (sx_lib (sk_context io)) (sk_wallet io) (ar_address request)
          (PInt (ar_valid_until request))) batch
    \<and> posts_of AUTHORIZATIONS_PATH (build_authorization_payload io request batch) (ar_idempotency_key request)
          SESSION_KEY_SUBMISSION_MAX_RETRIES (Inr data) posts
    \<and> parse_authorize_response data = Ok response \<and> ao_status response \<notin> {''FAILED'', ''SUPERSEDED'', ''REPAIR_REQUIRED''}
    \<and> reads_of (\<lambda>a. \<exists>data keys. a = Inr data \<and> build_session_keys io data = Ok keys \<and> k \<in> set keys) reads
    \<and> is_expected_session_key request k"
proof -
  let ?io = "logging_keys io" and ?ctx = "sk_context io"
  obtain request call batch response v v1 c1 v2 v3 where
    owner: "assert_owner_deposit_wallet ?ctx = Ok ()"
    and parsed: "parse_authorize_session_key_request ?io address scopes idempotency_key (rpc_world c) = (Ok request, v)"
    and call: "authorize_session_signer_call (sx_lib ?ctx) (sk_wallet io) (ar_address request)
        (PInt (ar_valid_until request)) = Ok call"
    and batch: "build_signed_deposit_wallet_batch (beside_context ?ctx) [call] None (c\<lparr>rpc_world := v\<rparr>) = (Ok batch, c1)"
    and post: "post_session_key_operation ?io AUTHORIZATIONS_PATH (build_authorization_payload io request batch)
        (ar_idempotency_key request) parse_authorize_response (rpc_world c1) = (Inr response, v1)"
    and accepted: "assert_authorization_accepted (ao_status response) = Ok ()"
    and settled: "gasless_handle_wait (sx_relayer (beside_context ?ctx))
        \<lparr>gh_transaction_id = ao_transaction_id response, gh_transaction_hash = ao_transaction_hash response,
         gh_max_polls = relayer_max_polls (sx_config ?ctx)\<rparr> v1 = (Ok transaction, v2)"
    and wait: "wait_for_authorized_session_key ?io request v2 = (Inr k, v3)"
    and last: "rpc_world c' = v3"
    using assms unfolding authorize_session_key_def Let_def bindH_eq_Inr on_relayer_Inr raising_eq_Inr
    by (auto simp: liftS_def pureS_def sk_wallet_def)
  note before = request_silent [OF parsed] and signed = batch_is_signed [OF batch]
  obtain posts data where posts: "snd v1 = snd (rpc_world c1) @ posts" "parse_authorize_response data = Ok response"
    "posts_of AUTHORIZATIONS_PATH (build_authorization_payload io request batch) (ar_idempotency_key request)
       SESSION_KEY_SUBMISSION_MAX_RETRIES (Inr data) posts"
    using post_operation_logged [OF post] by blast
  obtain reads where reads: "snd v3 = snd v2 @ reads" "is_expected_session_key request k"
    "reads_of (\<lambda>a. \<exists>data keys. a = Inr data \<and> build_session_keys io data = Ok keys \<and> k \<in> set keys) reads"
    using wait_authorized_logged [OF wait owner] by blast
  have "snd v2 = snd v1" using silent_wait [of ?ctx] settled by (metis snd_conv)
  then have "events_of c' = events_of c @ posts @ reads"
    using reads posts signed before last by (simp add: events_of_def)
  then show ?thesis using before signed call posts(2,3) reads(2,3) accepted
    by (intro exI [of _ request] exI [of _ batch] exI [of _ posts] exI [of _ data] exI [of _ response] exI [of _ reads])
      (auto simp: assert_authorization_accepted_def split: if_splits)
qed

lemma session_key_authorized_witness:
  "\<exists>k transaction c' posts reads. authorize_session_key (logging_keys registry_keys) (PStr demo_key_text) (PList [PStr ''TRADE'']) PNone
      registry_client = (Inr (k, transaction), c')
    \<and> events_of c' = posts @ reads \<and> lower (ks_address k) = demo_key_text \<and> set (ks_scopes k) = {''TRADE''}
    \<and> reads_of (\<lambda>a. \<exists>data keys. a = Inr data \<and> build_session_keys registry_keys data = Ok keys \<and> k \<in> set keys) reads"
proof -
  let ?run = "authorize_session_key (logging_keys registry_keys) (PStr demo_key_text) (PList [PStr ''TRADE'']) PNone registry_client"
  have "case fst ?run of Inl e \<Rightarrow> False | Inr x \<Rightarrow> True" by code_simp
  then obtain k transaction c' where *: "?run = (Inr (k, transaction), c')"
    by (cases ?run) (auto split: sum.splits)
  have start: "events_of registry_client = []" by (simp add: events_of_def registry_client_def)
  have inputs: "parse_session_address (sx_lib (sk_context registry_keys)) (PStr demo_key_text) = Ok demo_key_text"
    "parse_scopes (PList [PStr ''TRADE'']) = Ok [''TRADE'']" "lower demo_key_text = demo_key_text" by code_simp+
  obtain request posts reads where "events_of c' = posts @ reads" "is_expected_session_key request k"
    "ar_address request = demo_key_text" "ar_scopes request = [''TRADE'']"
    "reads_of (\<lambda>a. \<exists>data keys. a = Inr data \<and> build_session_keys registry_keys data = Ok keys \<and> k \<in> set keys) reads"
    using session_key_authorized [OF *] unfolding start inputs sum.inject append_Nil by (elim exE conjE) (rule that; simp)
  then show ?thesis using * inputs(3)
    by (intro exI [of _ k] exI [of _ transaction] exI [of _ c'] exI [of _ posts] exI [of _ reads])
      (simp add: is_expected_session_key_def)
qed

text \<open>C39: When the revocation of a session key returns, the owner signed the call that revokes exactly this
  key; it was posted at most three times under one idempotency key, was not refused, and the last read of the
  registry of this wallet did not show the key.\<close>

theorem session_key_revoked:
  assumes "revoke_session_key (logging_keys io) address idempotency_key c = (Inr u, c')"
  shows "\<exists>request batch posts data status reads. events_of c' = events_of c @ posts @ reads
    \<and> parse_session_address (sx_lib (sk_context io)) address = Ok (rr_address request)
    \<and> signed_batch (sk_context io) (revoke_session_signer_call (sx_lib (sk_context io)) (sk_wallet io) (rr_address request)) batch
    \<and> posts_of REVOCATIONS_PATH (build_revocation_payload io request batch) (rr_idempotency_key request)
          SESSION_KEY_SUBMISSION_MAX_RETRIES (Inr data) posts
    \<and> parse_revoke_response data = Ok status \<and> status \<noteq> ''FAILED''
    \<and> reads_of (\<lambda>a. \<exists>data keys. a = Inr data \<and> build_session_keys io data = Ok keys
          \<and> (\<forall>k\<in>set keys. lower (ks_address k) \<noteq> lower (rr_address request))) reads"
proof -
  let ?io = "logging_keys io" and ?ctx = "sk_context io"
  obtain request call batch status v v1 c1 v3 where
    owner: "assert_owner_deposit_wallet ?ctx = Ok ()"
    and parsed: "parse_revoke_session_key_request ?io address idempotency_key (rpc_world c) = (Ok request, v)"
    and call: "revoke_session_signer_call (sx_lib ?ctx) (sk_wallet io) (rr_address request) = Ok call"
    and batch: "build_signed_deposit_wallet_batch (beside_context ?ctx) [call] None (c\<lparr>rpc_world := v\<rparr>) = (Ok batch, c1)"
    and post: "post_session_key_operation ?io REVOCATIONS_PATH (build_revocation_payload io request batch)
        (rr_idempotency_key request) parse_revoke_response (rpc_world c1) = (Inr status, v1)"
    and accepted: "assert_revocation_accepted status = Ok ()"
    and wait: "wait_for_revoked_session_key ?io (rr_address request) v1 = (Inr u, v3)"
    and last: "rpc_world c' = v3"
    using assms unfolding revoke_session_key_def Let_def bindH_eq_Inr on_relayer_Inr raising_eq_Inr
    by (auto simp: liftS_def pureS_def sk_wallet_def)
  note before = revocation_silent [OF parsed] and signed = batch_is_signed [OF batch]
  obtain posts data where posts: "snd v1 = snd (rpc_world c1) @ posts" "parse_revoke_response data = Ok status"
    "posts_of REVOCATIONS_PATH (build_revocation_payload io request batch) (rr_idempotency_key request)
       SESSION_KEY_SUBMISSION_MAX_RETRIES (Inr data) posts"
    using post_operation_logged [OF post] by blast
  obtain reads where reads: "snd v3 = snd v1 @ reads"
    "reads_of (\<lambda>a. \<exists>data keys. a = Inr data \<and> build_session_keys io data = Ok keys
       \<and> (\<forall>k\<in>set keys. lower (ks_address k) \<noteq> lower (rr_address request))) reads"
    using wait_revoked_logged [OF wait owner] by blast
  have "events_of c' = events_of c @ posts @ reads"
    using reads posts signed before last by (simp add: events_of_def)
  then show ?thesis using before signed call posts(2,3) reads(2) accepted
    by (intro exI [of _ request] exI [of _ batch] exI [of _ posts] exI [of _ data] exI [of _ status] exI [of _ reads])
      (auto simp: assert_revocation_accepted_def split: if_splits)
qed

lemma session_key_revoked_witness:
  "\<exists>c' posts reads. revoke_session_key (logging_keys registry_keys) (PStr other_key_text) (PStr '' r '') registry_client = (Inr (), c')
    \<and> events_of c' = posts @ reads
    \<and> reads_of (\<lambda>a. \<exists>data keys. a = Inr data \<and> build_session_keys registry_keys data = Ok keys
          \<and> (\<forall>k\<in>set keys. lower (ks_address k) \<noteq> other_key_text)) reads"
proof -
  let ?run = "revoke_session_key (logging_keys registry_keys) (PStr other_key_text) (PStr '' r '') registry_client"
  have "case fst ?run of Inl e \<Rightarrow> False | Inr x \<Rightarrow> True" by code_simp
  then obtain c' where *: "?run = (Inr (), c')" by (cases ?run) (auto split: sum.splits)
  have start: "events_of registry_client = []" by (simp add: events_of_def registry_client_def)
  have key: "parse_session_address (sx_lib (sk_context registry_keys)) (PStr other_key_text) = Ok other_key_text"
    "lower other_key_text = other_key_text" by code_simp+
  obtain request :: revoke_request and posts reads where "events_of c' = posts @ reads" "other_key_text = rr_address request"
    "reads_of (\<lambda>a. \<exists>data keys. a = Inr data \<and> build_session_keys registry_keys data = Ok keys
          \<and> (\<forall>k\<in>set keys. lower (ks_address k) \<noteq> lower (rr_address request))) reads"
    using session_key_revoked [OF *] unfolding start key sum.inject append_Nil by (elim exE conjE) (rule that)
  then show ?thesis using * key(2) by (intro exI [of _ c'] exI [of _ posts] exI [of _ reads]) simp
qed

end
