(* ===== verification/Spec2Isabelle.thy ===== *)
theory Spec2Isabelle
  imports Order_Properties Cache_Properties Paging_Properties Input_Properties Settlement Stream_Properties Chain_Properties Perps_Properties Perps_Trading Session_Keys
begin

text \<open>
  A verification development for the Python SDK of the Polymarket exchange, \<open>src/src/polymarket\<close>; file
  names below are relative to that directory.

  \<^bold>\<open>The program.\<close> A client turns the parameters of an order into integers that a smart contract
  accepts, signs them, posts them to the order book (the CLOB), waits for the settlement on chain, lists
  and cancels what it has posted, reads paginated listings from several services, and follows streams of
  events over web sockets. The facades in \<open>clients/\<close> come twice, synchronous and asynchronous, and forward
  to the routines in \<open>_internal/\<close>, which are what is modelled here.

  \<^bold>\<open>Python.\<close> The SDK rests on the decimal arithmetic, the texts, the JSON and the bytes of Python, so
  these are modelled first, from the documented behaviour of the standard library:
  \<^item> \<open>Prelude\<close>: exceptions as a datatype, results as sums with the exception on the left, dictionaries as
    association lists in insertion order, effects as functions on a state of the world.
  \<^item> \<open>Py_Decimal\<close>, \<open>Py_Decimal_Facts\<close>: \<open>decimal.Decimal\<close> in the default context of 28 digits (coefficient,
    exponent, infinities and NaNs, rounding and the trapped signals), with the range of numbers on which
    each operation is exact.
  \<^item> \<open>Py_Text\<close>, \<open>Py_Bytes\<close>, \<open>Py_Json\<close>: \<open>strip\<close>, \<open>int(text, base)\<close> with its limit of 4300 digits, decimal
    numerals, UTF-8, base64, and \<open>json.dumps\<close> and \<open>json.loads\<close>, which round-trip (\<open>json_round_trip\<close>).
    Values of unknown type are the datatype \<open>pyval\<close>. Characters are those of the type \<open>char\<close>.

  \<^bold>\<open>Orders.\<close>
  \<^item> \<open>Protocol_Ids\<close>: \<open>_internal/protocol.py\<close>, \<open>_internal/validation.py\<close>, \<open>actions/exchange_asset.py\<close>: position ids as
    256-bit words, condition ids, builder codes.
  \<^item> \<open>Order_Math\<close>, \<open>Orders\<close>: \<open>actions/orders/math.py\<close>, \<open>_numeric.py\<close>, \<open>context.py\<close>, \<open>types.py\<close>, \<open>environments.py\<close>:
    base units, rounding, the tick grid, order types and drafts.
  \<^item> \<open>Market_Data\<close>, \<open>Limit_Order\<close>, \<open>Market_Estimate\<close>, \<open>Market_Order\<close>: the files of the same names under
    \<open>actions/orders\<close>: reading a market, drafting a limit order with its retry on fresh metadata, walking the
    book, drafting plain and protected market orders.
  \<^item> \<open>Single_Flight\<close>, \<open>Metadata_Cache\<close>: \<open>actions/orders/cache.py\<close>. The cache operations are functions on the
    shared state; threads and tasks that interleave are step relations over them, and the sequential
    client is an interpretation of the locale the order code is written against.
  \<^item> \<open>Order_Signing\<close>, \<open>Order_Submit\<close>, \<open>Settlement\<close>: \<open>orders.py\<close>, \<open>typed_data.py\<close>, \<open>post.py\<close>, \<open>place.py\<close>,
    \<open>allowance.py\<close>, \<open>settlement.py\<close> of \<open>actions/orders\<close>, \<open>models/clob/order_response.py\<close> and
    \<open>models/clob/account.py\<close>.
  \<^item> \<open>Order_Properties\<close>, \<open>Cache_Properties\<close>, \<open>Input_Properties\<close> state what this chain promises. From the
    parameters to the draft: prices on the grid and nothing else, shares and collateral exact or rounded to
    the right side, protected prices respected, estimates equal to a specification of the marginal price.
    From the draft to the server (\<open>Order_Submit\<close>, \<open>Settlement\<close>): what is signed is what is posted, field by
    field, signatures open again, an order is posted at most twice, settlement ends and reports the hashes of
    the last final answers of the server. The cache:
    one loader per key, no lost waiter, no stale hit, no task left behind.

  \<^bold>\<open>Listings.\<close> \<open>Paginator\<close>, \<open>Cursors\<close>, \<open>Dispatch\<close>, \<open>Account_Api\<close>, \<open>Paging_Properties\<close>: \<open>pagination.py\<close>,
  \<open>_internal/pagination.py\<close>, \<open>_internal/dispatch.py\<close>, \<open>_internal/request.py\<close>, \<open>_internal/retry.py\<close>,
  \<open>actions/account.py\<close>, \<open>actions/clob.py\<close>, \<open>actions/orders/cancel.py\<close>. A drain returns the pages the server
  sent, ends, asks for no cursor twice; cursors open only for the service, endpoint and query that made them, up to
  collisions of the twelve digits of the digest that stand for the query (\<open>digests_collide\<close>); the retry
  policy keeps to its attempts.

  \<^bold>\<open>The chain.\<close>
  \<^item> \<open>Calls\<close>, \<open>Call_Logs\<close>, \<open>Json_Rpc\<close>, \<open>Polling\<close>, \<open>Eoa_Broadcast\<close>: \<open>actions/relayer/calls.py\<close>, \<open>_internal/eoa\<close>,
    \<open>transactions.py\<close>: call data and bundles of calls, the requests and batches of a node, transactions of an
    externally owned account. The locale \<open>polling\<close> states when waiting ends; receipts and relayed
    transactions interpret it.
  \<^item> \<open>Wallets\<close>, \<open>Relayer\<close>, \<open>Gasless\<close>: \<open>_internal/wallet.py\<close>, \<open>actions/relayer\<close>, \<open>models/clob/relayer.py\<close>: derived
    addresses, signatures of the three kinds of wallets, submission with its retries.
  \<^item> \<open>Positions\<close>, \<open>Approvals\<close>: amounts to merge, combinations of positions, the approvals trading needs.
  \<^item> \<open>Chain_Examples\<close> holds the concrete libraries and servers of the witnesses, \<open>Chain_Properties\<close> what the
    chain promises: a transaction is never submitted again once accepted, the approvals asked for are the
    missing ones, bundles execute their calls, batches stay aligned with their requests.

  \<^bold>\<open>Streams.\<close>
  \<^item> \<open>Subscription_Handle\<close>: \<open>_internal/streams/handle.py\<close> and \<open>merged_handle.py\<close>. The locale \<open>drop_oldest\<close> states
    what a bounded queue does with too many events and is interpreted on both handles.
  \<^item> \<open>Stream_Protocols\<close>, \<open>Rtds_Protocol\<close>, \<open>User_Protocol\<close>: the protocols under \<open>_internal/streams\<close>, each with a
    specification of the server it talks to. The locale \<open>stream_protocol\<close> states what the frames must
    achieve there and is interpreted on the market, perpetuals and real-time data protocols.
  \<^item> \<open>Stream_Manager\<close>, \<open>Stream_Service\<close>: registry, reconnect scheduler, connection and managers as one
    function from happenings to states, with the lock holder as a program counter; \<open>managed\<close> are the states
    it can reach. That open sockets serve all subscribers is proved once in the locale.
  \<^item> \<open>Stream_Properties\<close>: order, loss and end of events, events reach those who asked for them, subscribers
    without a socket are being reconnected, and three traces into states where this fails and that the
    manager does not leave by itself (\<open>stranded_states\<close>). A merged handle records the first failure of its
    children and ends with it.

  \<^bold>\<open>Perpetuals.\<close>
  \<^item> \<open>Perps_Commands\<close>: \<open>models/perps/requests.py\<close>, \<open>actions/perps/trading.py\<close>, \<open>actions/perps/signing.py\<close>: orders,
    triggers and commands, their bodies and signatures. What the server rebuilds from the body is what was
    signed (\<open>command_rebuilt\<close>).
  \<^item> \<open>Perps_Session\<close>: \<open>_internal/perps_session.py\<close>, \<open>models/perps/events.py\<close>: requests in flight, events and
    their sequences, reconnects and closing as a step relation with the history of what was sent and read.
  \<^item> \<open>Perps_Properties\<close>: gaps in the events are announced, answers belong to their requests, nobody is left
    waiting, a lost session reconnects.
  \<^item> \<open>Perps_Trading\<close>: placing orders and waiting for their update, cancelling with retries, triggers of positions,
    leverage, margin, automatic cancelling. The locale \<open>cancelling\<close> states what the loop of retries relies on and
    is interpreted on the requests by order id and by client order id.

  \<^bold>\<open>Transport and authentication.\<close>
  \<^item> \<open>Transport\<close>: \<open>clients/_transport.py\<close>, \<open>rate_limit.py\<close>: requests with their bodies and headers, and the
    exception made of a response: delays, dates, rate limits, restrictions. The three forms of a date agree.
  \<^item> \<open>Credentials\<close>: \<open>_internal/hmac.py\<close>, \<open>_internal/l1_auth.py\<close>, \<open>actions/auth.py\<close>, \<open>actions/relayer/auth.py\<close>,
    \<open>auth.py\<close> and the header resolvers and the bootstrap of \<open>clients/async_secure.py\<close>. A server that computes the
    HMAC again over what it received accepts every request that leaves the client.
  \<^item> \<open>Session_Keys\<close>: \<open>actions/session_keys.py\<close>, \<open>session_keys.py\<close>: authorizing and revoking session keys with the
    relayer and the registry. A log of what was posted and read shows what a success stands on.

  \<^bold>\<open>Bounds and fuel.\<close> Loops that may not end are partial functions into \<open>option\<close>: the drain of a paginator
  and the polling of a settlement; \<open>drain_terminates\<close> and \<open>settlement_terminates\<close> prove that they return, from
  a finite set of cursors and from a clock that advances. The reader of JSON takes the length of its text as
  fuel, which bounds the nesting. The retry loops count their attempts. All other recursions are structural
  or have a measure.

  \<^bold>\<open>Parameters.\<close> Code outside \<open>src/\<close> is an argument: httpx and the routines built on it as functions on the state of the
  world, HMAC-SHA256, Keccak and the ABI encoding of \<open>eth_abi\<close>, SHA-256 for the fingerprint of a query, the power of decimals,
  the validation of order books and events by pydantic, msgpack, the signer and the clock. What the code
  relies on stands as a hypothesis of the property that needs it, and its witness gives a function for
  which it holds.

  \<^bold>\<open>Not modelled.\<close> The facades in \<open>clients/\<close> except their header resolvers and the bootstrap of credentials;
  timeouts, logging and the texts of exceptions; the declarations that pydantic interprets (except where the code
  reads the fields); chases, TWAPs and the account reads of the perpetuals, requests for quotes, heartbeats, the
  sports and price streams, and the request builders of the data, discovery and rewards endpoints; conversion to
  data frames and notebook cards.
\<close>

end
